(* ===== verification/Prelude.thy ===== *)
theory Prelude
  imports Main "HOL-Library.Word" "HOL-Library.List_Lexorder" "HOL-Library.Char_ord"
begin

text \<open>
  Shared vocabulary of the development: Go strings as byte lists, the functions of the packages
  \<open>strings\<close> and \<open>sort\<close> the sources use, errors as sums, Go maps as association lists in the
  (arbitrary) order a \<open>range\<close> loop visits them, and the generic lemmas the component theories share.
\<close>

section \<open>Results\<close>

text \<open>
  A Go function that returns \<open>(T, error)\<close> is a function into \<open>'e + 't\<close>: \<open>Inl\<close> is the
  non-nil error, \<open>Inr\<close> the value with a nil error. A function that returns only \<open>error\<close> is a
  function into \<open>'e option\<close>: \<open>None\<close> is \<open>nil\<close>.
\<close>

definition bind_res :: "'e + 'a \<Rightarrow> ('a \<Rightarrow> 'e + 'b) \<Rightarrow> 'e + 'b" where
  "bind_res r f = (case r of Inl e \<Rightarrow> Inl e | Inr x \<Rightarrow> f x)"

lemma bind_res_simps [simp]:
  "bind_res (Inl e) f = Inl e"
  "bind_res (Inr x) f = f x"
  by (simp_all add: bind_res_def)

lemma bind_res_Inr [iff]: "bind_res r f = Inr y \<longleftrightarrow> (\<exists>x. r = Inr x \<and> f x = Inr y)"
  by (cases r) simp_all

lemma bind_res_cong [fundef_cong]:
  "r = r' \<Longrightarrow> (\<And>x. r' = Inr x \<Longrightarrow> f x = g x) \<Longrightarrow> bind_res r f = bind_res r' g"
  by (cases r') simp_all

text \<open>\<open>if err := check; err != nil { return err }\<close> followed by the rest.\<close>

definition guard_res :: "'e option \<Rightarrow> 'e + 'b \<Rightarrow> 'e + 'b" where
  "guard_res c r = (case c of None \<Rightarrow> r | Some e \<Rightarrow> Inl e)"

lemma guard_res_simps [simp]:
  "guard_res None r = r"
  "guard_res (Some e) r = Inl e"
  by (simp_all add: guard_res_def)

lemma guard_res_Inr [iff]: "guard_res c r = Inr y \<longleftrightarrow> c = None \<and> r = Inr y"
  by (cases c) simp_all

definition map_err :: "('e \<Rightarrow> 'f) \<Rightarrow> 'e + 'a \<Rightarrow> 'f + 'a" where
  "map_err f r = (case r of Inl e \<Rightarrow> Inl (f e) | Inr x \<Rightarrow> Inr x)"

lemma map_err_simps [simp]:
  "map_err f (Inl e) = Inl (f e)"
  "map_err f (Inr x) = Inr x"
  by (simp_all add: map_err_def)

lemma map_err_Inr [iff]: "map_err f r = Inr x \<longleftrightarrow> r = Inr x"
  by (cases r) simp_all

section \<open>Strings\<close>

text \<open>A Go \<open>string\<close> or \<open>[]byte\<close> is a list of bytes; HOL's \<^typ>\<open>char\<close> is exactly a byte.\<close>

type_synonym bytes = "char list"

definition has_prefix :: "string \<Rightarrow> string \<Rightarrow> bool" where
  "has_prefix s p \<longleftrightarrow> take (length p) s = p"

definition has_suffix :: "string \<Rightarrow> string \<Rightarrow> bool" where
  "has_suffix s p \<longleftrightarrow> length p \<le> length s \<and> drop (length s - length p) s = p"

definition trim_prefix :: "string \<Rightarrow> string \<Rightarrow> string" where
  "trim_prefix s p = (if has_prefix s p then drop (length p) s else s)"

lemma has_prefix_append [simp]: "has_prefix (p @ s) p"
  by (simp add: has_prefix_def)

lemma has_prefix_iff: "has_prefix s p \<longleftrightarrow> (\<exists>t. s = p @ t)"
  by (metis append_take_drop_id has_prefix_append has_prefix_def)

lemma trim_prefix_append [simp]: "trim_prefix (p @ s) p = s"
  by (simp add: trim_prefix_def)

lemma has_suffix_iff: "has_suffix s p \<longleftrightarrow> (\<exists>t. s = t @ p)"
proof
  assume "has_suffix s p"
  then show "\<exists>t. s = t @ p"
    unfolding has_suffix_def by (metis append_take_drop_id)
qed (auto simp: has_suffix_def)

text \<open>\<open>strings.IndexByte\<close> and \<open>strings.LastIndexByte\<close>; \<open>None\<close> is the result \<open>-1\<close>.\<close>

fun index_byte :: "string \<Rightarrow> char \<Rightarrow> nat option" where
  "index_byte [] c = None"
| "index_byte (x # xs) c = (if x = c then Some 0 else map_option Suc (index_byte xs c))"

fun last_index_byte :: "string \<Rightarrow> char \<Rightarrow> nat option" where
  "last_index_byte [] c = None"
| "last_index_byte (x # xs) c =
     (case last_index_byte xs c of Some i \<Rightarrow> Some (Suc i) | None \<Rightarrow> if x = c then Some 0 else None)"

lemma index_byte_None [simp]: "index_byte s c = None \<longleftrightarrow> c \<notin> set s"
  by (induction s) auto

lemma last_index_byte_None [simp]: "last_index_byte s c = None \<longleftrightarrow> c \<notin> set s"
  by (induction s) (auto split: option.splits)

lemma index_byte_Some:
  "index_byte s c = Some i \<Longrightarrow> i < length s \<and> s ! i = c \<and> c \<notin> set (take i s)"
  by (induction s arbitrary: i) (auto split: if_splits)

lemma last_index_byte_Some:
  "last_index_byte s c = Some i \<Longrightarrow> i < length s \<and> s ! i = c \<and> c \<notin> set (drop (Suc i) s)"
proof (induction s arbitrary: i)
  case Nil
  then show ?case by simp
next
  case (Cons x xs)
  then show ?case by (cases "last_index_byte xs c") (auto split: if_splits)
qed

lemma split_at_index:
  "i < length s \<Longrightarrow> s = take i s @ [s ! i] @ drop (Suc i) s"
  by (simp add: id_take_nth_drop)

lemma last_index_byte_append:
  "c \<notin> set t \<Longrightarrow> last_index_byte (s @ c # t) c = Some (length s)"
  by (induction s) (auto split: option.splits)

lemma index_byte_append:
  "c \<notin> set s \<Longrightarrow> index_byte (s @ c # t) c = Some (length s)"
  by (induction s) auto

text \<open>\<open>strings.Contains\<close> and \<open>strings.ReplaceAll\<close> for a one-byte needle.\<close>

fun contains_str :: "string \<Rightarrow> string \<Rightarrow> bool" where
  "contains_str [] p \<longleftrightarrow> p = []"
| "contains_str (x # xs) p \<longleftrightarrow> has_prefix (x # xs) p \<or> contains_str xs p"

fun concat_sep :: "string \<Rightarrow> string list \<Rightarrow> string" where
  "concat_sep sep [] = []"
| "concat_sep sep [x] = x"
| "concat_sep sep (x # y # ys) = x @ sep @ concat_sep sep (y # ys)"

section \<open>Maps\<close>

text \<open>
  A Go map that the code only looks up or writes is a function \<open>'k \<rightharpoonup> 'v\<close>. A Go map that the
  code ranges over is the association list of its entries in the order the loop visits them; Go
  leaves that order open, so theorems hold for every such list. \<open>sortedKeys\<close> fixes the order.
\<close>

type_synonym 'v smap = "(string \<times> 'v) list"

definition sorted_keys :: "'v smap \<Rightarrow> string list" where
  "sorted_keys m = sort (map fst m)"

lemma set_sorted_keys [simp]: "set (sorted_keys m) = fst ` set m"
  by (simp add: sorted_keys_def)

lemma sorted_sorted_keys [simp]: "sorted (sorted_keys m)"
  by (simp add: sorted_keys_def)

lemma distinct_sorted_keys [simp]: "distinct (sorted_keys m) \<longleftrightarrow> distinct (map fst m)"
  by (simp add: sorted_keys_def)

text \<open>\<open>m[k] = v\<close> on an association list: overwrite in place, or append a new key.\<close>

fun smap_set :: "'v smap \<Rightarrow> string \<Rightarrow> 'v \<Rightarrow> 'v smap" where
  "smap_set [] k v = [(k, v)]"
| "smap_set ((k', v') # m) k v = (if k' = k then (k, v) # m else (k', v') # smap_set m k v)"

lemma map_of_smap_set [simp]: "map_of (smap_set m k v) = (map_of m)(k \<mapsto> v)"
  by (induction m k v rule: smap_set.induct) auto

lemma smap_set_new: "map_of m k = None \<Longrightarrow> smap_set m k v = m @ [(k, v)]"
  by (induction m k v rule: smap_set.induct) (auto split: if_splits)

lemma keys_smap_set [simp]: "fst ` set (smap_set m k v) = insert k (fst ` set m)"
  by (induction m k v rule: smap_set.induct) auto

lemma distinct_smap_set [simp]:
  "distinct (map fst m) \<Longrightarrow> distinct (map fst (smap_set m k v))"
proof (induction m k v rule: smap_set.induct)
  case (1 k v)
  then show ?case by simp
next
  case (2 k' v' m k v)
  then show ?case
    by (auto simp: image_iff)
qed

lemma map_fst_smap_set: "k \<in> fst ` set m \<Longrightarrow> map fst (smap_set m k v) = map fst m"
  by (induction m k v rule: smap_set.induct) auto

lemma set_smap_set:
  "distinct (map fst m) \<Longrightarrow> set (smap_set m k v) = insert (k, v) {e \<in> set m. fst e \<noteq> k}"
  by (induction m k v rule: smap_set.induct) (auto simp: image_iff)

section \<open>Keyed stores\<close>

text \<open>
  Several components keep a table that is written under a key and read back under a key that may
  be normalised first (an initialism is matched case-insensitively, a validator by its exact name).
  The interface is the lookup-after-put law; the facts clients need follow from it once.
\<close>

locale keyed_store =
  fixes norm :: "'k \<Rightarrow> 'n"
    and put :: "'k \<Rightarrow> 'v \<Rightarrow> 's \<Rightarrow> 's"
    and get :: "'s \<Rightarrow> 'k \<Rightarrow> 'v option"
  assumes get_put: "get (put k v s) k' = (if norm k = norm k' then Some v else get s k')"
begin

definition put_all :: "('k \<times> 'v) list \<Rightarrow> 's \<Rightarrow> 's" where
  "put_all kvs s = fold (\<lambda>(k, v). put k v) kvs s"

lemma get_put_same: "norm k = norm k' \<Longrightarrow> get (put k v s) k' = Some v"
  by (simp add: get_put)

lemma get_put_other: "norm k \<noteq> norm k' \<Longrightarrow> get (put k v s) k' = get s k'"
  by (simp add: get_put)

lemma get_put_put: "norm k = norm k2 \<Longrightarrow> get (put k2 v2 (put k v s)) k' = get (put k2 v2 s) k'"
  by (simp add: get_put)

lemma put_all_miss:
  "\<forall>(k, v) \<in> set kvs. norm k \<noteq> norm k' \<Longrightarrow> get (put_all kvs s) k' = get s k'"
proof (induction kvs arbitrary: s)
  case Nil
  then show ?case by (simp add: put_all_def)
next
  case (Cons kv kvs)
  then show ?case by (cases kv) (simp add: put_all_def get_put)
qed

lemma put_all_last:
  assumes "norm k = norm k'" and "\<forall>(k, v) \<in> set kvs2. norm k \<noteq> norm k'"
  shows "get (put_all (kvs1 @ (k, v) # kvs2) s) k' = Some v"
proof -
  have "put_all (kvs1 @ (k, v) # kvs2) s = put_all kvs2 (put k v (put_all kvs1 s))"
    by (simp add: put_all_def)
  then show ?thesis using assms by (simp add: put_all_miss get_put)
qed

end

end
