(* ===== verification/Strconv.thy ===== *)
theory Strconv
  imports Prelude
begin

text \<open>
  The decimal conversions of package \<open>strconv\<close> the sources rely on (\<open>Itoa\<close>, \<open>FormatInt\<close>,
  \<open>FormatUint\<close>, \<open>Atoi\<close>, \<open>ParseInt\<close>, \<open>ParseUint\<close> in base 10) and the lemma that
  formatting is undone by parsing at every bit size that holds the value.
\<close>

definition digit_char :: "nat \<Rightarrow> char" where
  "digit_char d = char_of (48 + d)"

definition is_digit :: "char \<Rightarrow> bool" where
  "is_digit c \<longleftrightarrow> 48 \<le> (of_char c :: nat) \<and> (of_char c :: nat) \<le> 57"

definition digit_val :: "char \<Rightarrow> nat" where
  "digit_val c = of_char c - 48"

lemma digit_char_simps [simp]:
  assumes "d < 10"
  shows "is_digit (digit_char d)" and "digit_val (digit_char d) = d"
  using assms by (simp_all add: digit_char_def is_digit_def digit_val_def)

fun utoa :: "nat \<Rightarrow> string" where
  "utoa n = (if n < 10 then [digit_char n] else utoa (n div 10) @ [digit_char (n mod 10)])"

declare utoa.simps [simp del]

definition itoa :: "int \<Rightarrow> string" where
  "itoa i = (if i < 0 then CHR ''-'' # utoa (nat (- i)) else utoa (nat i))"

lemma utoa_digits: "\<forall>c \<in> set (utoa n). is_digit c"
proof (induction n rule: utoa.induct)
  case (1 n)
  show ?case
  proof (cases "n < 10")
    case True
    then show ?thesis by (simp add: utoa.simps)
  next
    case False
    then show ?thesis using "1.IH" by (subst utoa.simps) auto
  qed
qed

lemma utoa_nonempty [simp]: "utoa n \<noteq> []"
  by (subst utoa.simps) simp

text \<open>\<open>strconv.ParseUint(s, 10, bitSize)\<close>: the digit loop stops at the first bad byte or overflow.\<close>

datatype num_error = ErrSyntax | ErrRange

fun parse_digits :: "nat \<Rightarrow> nat \<Rightarrow> string \<Rightarrow> num_error + nat" where
  "parse_digits mx n [] = Inr n"
| "parse_digits mx n (c # cs) =
     (if \<not> is_digit c then Inl ErrSyntax
      else if mx < n * 10 + digit_val c then Inl ErrRange
      else parse_digits mx (n * 10 + digit_val c) cs)"

definition parse_uint :: "nat \<Rightarrow> string \<Rightarrow> num_error + nat" where
  "parse_uint bits s = (if s = [] then Inl ErrSyntax else parse_digits (2 ^ bits - 1) 0 s)"

text \<open>\<open>strconv.ParseInt(s, 10, bitSize)\<close>: one optional sign, then the unsigned digits.\<close>

definition parse_int :: "nat \<Rightarrow> string \<Rightarrow> num_error + int" where
  "parse_int bits s =
     (if s = [] then Inl ErrSyntax
      else
        let neg = (hd s = CHR ''-'');
            u = (if neg \<or> hd s = CHR ''+'' then tl s else s);
            cutoff = 2 ^ (bits - 1)
        in case parse_uint bits u of
             Inl ErrSyntax \<Rightarrow> Inl ErrSyntax
           | Inl ErrRange \<Rightarrow> Inl ErrRange
           | Inr un \<Rightarrow>
               if \<not> neg \<and> cutoff \<le> un then Inl ErrRange
               else if neg \<and> cutoff < un then Inl ErrRange
               else Inr (if neg then - int un else int un))"

lemma parse_digits_append:
  "parse_digits mx n (s @ t) = bind_res (parse_digits mx n s) (\<lambda>m. parse_digits mx m t)"
  by (induction mx n s rule: parse_digits.induct) auto

lemma parse_digits_utoa: "k \<le> mx \<Longrightarrow> parse_digits mx 0 (utoa k) = Inr k"
proof (induction k rule: utoa.induct)
  case (1 k)
  show ?case
  proof (cases "k < 10")
    case True
    then show ?thesis using "1.prems" by (subst utoa.simps) simp
  next
    case False
    then have "parse_digits mx 0 (utoa (k div 10)) = Inr (k div 10)"
      using "1.IH" "1.prems" by simp
    moreover have "k div 10 * 10 + k mod 10 = k" by simp
    ultimately show ?thesis
      using False "1.prems" by (subst utoa.simps) (simp add: parse_digits_append)
  qed
qed

lemma parse_uint_utoa: "k < 2 ^ bits \<Longrightarrow> parse_uint bits (utoa k) = Inr k"
  by (simp add: parse_uint_def parse_digits_utoa)

lemma hd_utoa_digit: "is_digit (hd (utoa n))"
  using utoa_digits [of n] by (simp add: hd_in_set)

lemma not_digit_sign [simp]: "\<not> is_digit CHR ''-''" "\<not> is_digit CHR ''+''"
  by (simp_all add: is_digit_def)

lemma parse_int_itoa:
  assumes "0 < bits" and "- (2 ^ (bits - 1)) \<le> i" and "i < 2 ^ (bits - 1)"
  shows "parse_int bits (itoa i) = Inr i"
proof -
  have double: "(2::nat) ^ bits = 2 * 2 ^ (bits - 1)"
    using assms(1) by (cases bits) simp_all
  show ?thesis
  proof (cases "i < 0")
    case True
    define k where "k = nat (- i)"
    have k: "k \<le> 2 ^ (bits - 1)"
      using assms(2) True unfolding k_def by (simp add: nat_le_iff)
    have "k < 2 ^ bits"
    proof -
      have "(0::nat) < 2 ^ (bits - 1)" by simp
      then show ?thesis using k double by linarith
    qed
    then have "parse_uint bits (utoa k) = Inr k" by (rule parse_uint_utoa)
    moreover have "int k = - i" using True by (simp add: k_def)
    ultimately show ?thesis
      using True k by (simp add: itoa_def parse_int_def k_def [symmetric])
  next
    case False
    define k where "k = nat i"
    have k: "k < 2 ^ (bits - 1)"
      using assms(3) False unfolding k_def by (simp add: nat_less_iff)
    then have "parse_uint bits (utoa k) = Inr k"
      using double by (intro parse_uint_utoa) linarith
    moreover have "hd (utoa k) \<noteq> CHR ''-''" "hd (utoa k) \<noteq> CHR ''+''"
      using hd_utoa_digit [of k] by auto
    moreover have "int k = i" using False by (simp add: k_def)
    ultimately show ?thesis
      using False k by (simp add: itoa_def parse_int_def k_def [symmetric])
  qed
qed

lemma parse_digits_bound: "parse_digits mx n0 s = Inr n \<Longrightarrow> n0 \<le> mx \<Longrightarrow> n \<le> mx"
  by (induction mx n0 s rule: parse_digits.induct) (auto split: if_splits)

lemma parse_uint_bound:
  assumes "parse_uint bits s = Inr n"
  shows "n < 2 ^ bits"
proof -
  have "n \<le> 2 ^ bits - 1"
    using assms parse_digits_bound [of "2 ^ bits - 1" 0 s n]
    by (auto simp: parse_uint_def split: if_splits)
  moreover have "(0::nat) < 2 ^ bits" by simp
  ultimately show ?thesis by linarith
qed

lemma parse_int_bounds:
  assumes "parse_int bits s = Inr i" and "0 < bits"
  shows "- (2 ^ (bits - 1)) \<le> i \<and> i < 2 ^ (bits - 1)"
proof -
  define neg where "neg = (hd s = CHR ''-'')"
  define u where "u = (if neg \<or> hd s = CHR ''+'' then tl s else s)"
  from assms(1) obtain un where "parse_uint bits u = Inr un"
    and g: "\<not> neg \<Longrightarrow> un < 2 ^ (bits - 1)" "neg \<Longrightarrow> un \<le> 2 ^ (bits - 1)"
    and i: "i = (if neg then - int un else int un)"
    by (auto simp: parse_int_def Let_def neg_def u_def split: if_splits sum.splits num_error.splits)
  have p: "int (2 ^ (bits - 1)) = 2 ^ (bits - 1)" by simp
  show ?thesis
  proof (cases neg)
    case True
    then have "int un \<le> 2 ^ (bits - 1)" using g(2) p by (metis of_nat_le_iff)
    moreover have "(0::int) < 2 ^ (bits - 1)" by simp
    moreover have "0 \<le> int un" by simp
    moreover have "i = - int un" using i True by simp
    ultimately show ?thesis by linarith
  next
    case False
    then have "int un < 2 ^ (bits - 1)" using g(1) p by (metis of_nat_less_iff)
    moreover have "(0::int) < 2 ^ (bits - 1)" by simp
    moreover have "0 \<le> int un" by simp
    moreover have "i = int un" using i False by simp
    ultimately show ?thesis by linarith
  qed
qed

end
