(* ===== verification/Utf8.thy ===== *)
theory Utf8
  imports Prelude
begin

text \<open>
  Runes and UTF-8, as the packages \<open>unicode/utf8\<close> and \<open>unicode\<close> and the language's
  \<open>[]rune(s)\<close>, \<open>string(r)\<close> and \<open>range s\<close> define them. A rune is a natural number; a byte that
  does not start a well-formed sequence decodes to \<open>U+FFFD\<close> with width 1.
\<close>

type_synonym rune = nat

abbreviation rune_error :: rune where
  "rune_error \<equiv> 0xFFFD"

abbreviation byte_of :: "char \<Rightarrow> nat" where
  "byte_of \<equiv> of_char"

abbreviation chr_of :: "nat \<Rightarrow> char" where
  "chr_of \<equiv> char_of"

definition is_cont :: "nat \<Rightarrow> bool" where
  "is_cont b \<longleftrightarrow> 0x80 \<le> b \<and> b \<le> 0xBF"

text \<open>The range the second byte of a sequence may take, by the first byte.\<close>

definition second_ok :: "nat \<Rightarrow> nat \<Rightarrow> bool" where
  "second_ok b0 b1 \<longleftrightarrow>
     (if b0 = 0xE0 then 0xA0 \<le> b1 \<and> b1 \<le> 0xBF
      else if b0 = 0xED then 0x80 \<le> b1 \<and> b1 \<le> 0x9F
      else if b0 = 0xF0 then 0x90 \<le> b1 \<and> b1 \<le> 0xBF
      else if b0 = 0xF4 then 0x80 \<le> b1 \<and> b1 \<le> 0x8F
      else is_cont b1)"

text \<open>\<open>utf8.DecodeRuneInString\<close>: the rune and the number of bytes it takes (0 at the end).\<close>

definition decode_rune :: "string \<Rightarrow> rune \<times> nat" where
  "decode_rune s = (case s of
     [] \<Rightarrow> (rune_error, 0)
   | c0 # r0 \<Rightarrow>
       let b0 = byte_of c0 in
       if b0 < 0x80 then (b0, 1)
       else if 0xC2 \<le> b0 \<and> b0 \<le> 0xDF then
         (case r0 of
            c1 # _ \<Rightarrow> if is_cont (byte_of c1)
                       then ((b0 - 0xC0) * 64 + (byte_of c1 - 0x80), 2) else (rune_error, 1)
          | _ \<Rightarrow> (rune_error, 1))
       else if 0xE0 \<le> b0 \<and> b0 \<le> 0xEF then
         (case r0 of
            c1 # c2 # _ \<Rightarrow> if second_ok b0 (byte_of c1) \<and> is_cont (byte_of c2)
                       then ((b0 - 0xE0) * 4096 + (byte_of c1 - 0x80) * 64 + (byte_of c2 - 0x80), 3)
                       else (rune_error, 1)
          | _ \<Rightarrow> (rune_error, 1))
       else if 0xF0 \<le> b0 \<and> b0 \<le> 0xF4 then
         (case r0 of
            c1 # c2 # c3 # _ \<Rightarrow>
              if second_ok b0 (byte_of c1) \<and> is_cont (byte_of c2) \<and> is_cont (byte_of c3)
              then ((b0 - 0xF0) * 262144 + (byte_of c1 - 0x80) * 4096
                      + (byte_of c2 - 0x80) * 64 + (byte_of c3 - 0x80), 4)
              else (rune_error, 1)
          | _ \<Rightarrow> (rune_error, 1))
       else (rune_error, 1))"

text \<open>\<open>string(r)\<close> and \<open>Builder.WriteRune\<close>: surrogates and out-of-range values become \<open>U+FFFD\<close>.\<close>

definition valid_rune :: "rune \<Rightarrow> bool" where
  "valid_rune r \<longleftrightarrow> r < 0xD800 \<or> (0xDFFF < r \<and> r \<le> 0x10FFFF)"

definition encode_rune :: "rune \<Rightarrow> string" where
  "encode_rune r0 = (let r = (if valid_rune r0 then r0 else rune_error) in
     if r < 0x80 then [chr_of r]
     else if r < 0x800 then [chr_of (0xC0 + r div 64), chr_of (0x80 + r mod 64)]
     else if r < 0x10000 then
       [chr_of (0xE0 + r div 4096), chr_of (0x80 + r div 64 mod 64), chr_of (0x80 + r mod 64)]
     else
       [chr_of (0xF0 + r div 262144), chr_of (0x80 + r div 4096 mod 64),
        chr_of (0x80 + r div 64 mod 64), chr_of (0x80 + r mod 64)])"

lemma decode_rune_width: "s \<noteq> [] \<Longrightarrow> 0 < snd (decode_rune s) \<and> snd (decode_rune s) \<le> length s"
  by (auto simp: decode_rune_def Let_def split: list.splits)

lemma decode_rune_width4: "snd (decode_rune s) \<le> 4"
  by (auto simp: decode_rune_def Let_def split: list.splits)

lemma decode_rune_ascii: "byte_of c < 128 \<Longrightarrow> decode_rune (c # s) = (byte_of c, 1)"
  by (simp add: decode_rune_def)

lemma byte_of_chr_of: "n < 256 \<Longrightarrow> byte_of (chr_of n) = n"
  by simp

text \<open>Decoding undoes encoding, whatever bytes follow.\<close>

lemma decode_encode2:
  assumes "\<not> r < 0x80" and "r < 0x800"
  shows "decode_rune (chr_of (0xC0 + r div 64) # chr_of (0x80 + r mod 64) # s) = (r, 2)"
proof -
  have a: "r div 64 < 32" "2 \<le> r div 64" using assms by auto
  have m: "r mod 64 < 64" by simp
  have e: "r div 64 * 64 + r mod 64 = r" by simp
  show ?thesis
    using a m e by (simp add: decode_rune_def is_cont_def)
qed

lemma base64_digits:
  fixes r :: nat
  shows "r = r div 4096 * 4096 + r div 64 mod 64 * 64 + r mod 64"
    and "r div 4096 = r div 262144 * 64 + r div 4096 mod 64"
proof -
  have "r div 64 = r div 4096 * 64 + r div 64 mod 64"
    using div_mult_mod_eq [of "r div 64" 64] by (simp add: div_mult2_eq [symmetric])
  moreover have "r = r div 64 * 64 + r mod 64" by simp
  ultimately show "r = r div 4096 * 4096 + r div 64 mod 64 * 64 + r mod 64" by linarith
  show "r div 4096 = r div 262144 * 64 + r div 4096 mod 64"
    using div_mult_mod_eq [of "r div 4096" 64] by (simp add: div_mult2_eq [symmetric])
qed

lemma decode_encode3:
  assumes "\<not> r < 0x800" and "r < 0x10000" and "valid_rune r"
  shows "decode_rune (chr_of (0xE0 + r div 4096) # chr_of (0x80 + r div 64 mod 64)
           # chr_of (0x80 + r mod 64) # s) = (r, 3)"
proof -
  define a b c where abc: "a = r mod 64" "b = r div 64 mod 64" "c = r div 4096"
  have r: "r = c * 4096 + b * 64 + a" using base64_digits(1) [of r] by (simp add: abc)
  have m: "a < 64" "b < 64" by (simp_all add: abc)
  have cb: "c < 16" using assms(2) by (auto simp: abc)
  have z: "c = 0 \<Longrightarrow> 32 \<le> b" using assms(1) r m by linarith
  have d: "c = 13 \<Longrightarrow> b \<le> 31" using assms(3) r m unfolding valid_rune_def by linarith
  show ?thesis
    unfolding abc [symmetric]
    using cb m z d r by (auto simp: decode_rune_def is_cont_def second_ok_def Let_def)
qed

lemma decode_encode4:
  assumes "\<not> r < 0x10000" and "valid_rune r"
  shows "decode_rune (chr_of (0xF0 + r div 262144) # chr_of (0x80 + r div 4096 mod 64)
           # chr_of (0x80 + r div 64 mod 64) # chr_of (0x80 + r mod 64) # s) = (r, 4)"
proof -
  define a b c d
    where abcd: "a = r mod 64" "b = r div 64 mod 64" "c = r div 4096 mod 64" "d = r div 262144"
  have r: "r = d * 262144 + c * 4096 + b * 64 + a"
    using base64_digits [of r] by (simp add: abcd)
  have m: "a < 64" "b < 64" "c < 64" by (simp_all add: abcd)
  have le: "r \<le> 0x10FFFF" using assms by (auto simp: valid_rune_def)
  have db: "d \<le> 4" using le r by linarith
  have z: "d = 0 \<Longrightarrow> 16 \<le> c" using assms(1) r m by linarith
  have t: "d = 4 \<Longrightarrow> c \<le> 15" using le r m by linarith
  show ?thesis
    unfolding abcd [symmetric]
    using db m z t r by (auto simp: decode_rune_def is_cont_def second_ok_def Let_def)
qed

lemma decode_encode_rune:
  assumes "valid_rune r"
  shows "decode_rune (encode_rune r @ s) = (r, length (encode_rune r))"
proof -
  consider "r < 0x80" | "\<not> r < 0x80" "r < 0x800" | "\<not> r < 0x800" "r < 0x10000" | "\<not> r < 0x10000"
    by linarith
  then show ?thesis
  proof cases
    case 1
    then show ?thesis using assms by (simp add: encode_rune_def decode_rune_def)
  next
    case 2
    then show ?thesis using assms decode_encode2 [OF 2] by (simp add: encode_rune_def)
  next
    case 3
    then show ?thesis using assms decode_encode3 [OF 3 assms] by (simp add: encode_rune_def)
  next
    case 4
    then show ?thesis using assms decode_encode4 [OF 4 assms] by (simp add: encode_rune_def)
  qed
qed

lemma encode_rune_nonempty [simp]: "encode_rune r \<noteq> []"
  by (simp add: encode_rune_def Let_def)

lemma encode_rune_ascii: "r < 128 \<Longrightarrow> encode_rune r = [chr_of r]"
  by (simp add: encode_rune_def valid_rune_def)

text \<open>\<open>[]rune(s)\<close>, which is also what \<open>for _, r := range s\<close> visits.\<close>

function runes_of :: "string \<Rightarrow> rune list" where
  "runes_of s = (if s = [] then [] else fst (decode_rune s) # runes_of (drop (snd (decode_rune s)) s))"
  by pat_completeness auto
termination
  by (relation "measure length") (use decode_rune_width in \<open>auto simp: diff_less\<close>)

declare runes_of.simps [simp del]

lemma runes_of_Nil [simp]: "runes_of [] = []"
  by (subst runes_of.simps) simp

lemma runes_of_ascii_Cons [simp]: "byte_of c < 128 \<Longrightarrow> runes_of (c # s) = byte_of c # runes_of s"
  by (subst runes_of.simps) (simp add: decode_rune_ascii)

lemma runes_of_eq_Nil [simp]: "runes_of s = [] \<longleftrightarrow> s = []"
  by (subst runes_of.simps) simp

lemma runes_of_encode [simp]:
  "valid_rune r \<Longrightarrow> runes_of (encode_rune r @ s) = r # runes_of s"
  by (subst runes_of.simps) (simp add: decode_encode_rune)

lemma runes_of_ascii:
  "\<forall>c \<in> set s. byte_of c < 128 \<Longrightarrow> runes_of s = map byte_of s"
  by (induction s) auto

lemma length_runes_of: "length (runes_of s) \<le> length s"
proof (induction s rule: runes_of.induct)
  case (1 s)
  show ?case
  proof (cases "s = []")
    case False
    have "length (runes_of (drop (snd (decode_rune s)) s)) \<le> length s - snd (decode_rune s)"
      using "1.IH" [OF False] by simp
    moreover have "runes_of s = fst (decode_rune s) # runes_of (drop (snd (decode_rune s)) s)"
      using False by (subst runes_of.simps) simp
    ultimately show ?thesis using decode_rune_width [OF False] by (simp only: list.size) linarith
  qed simp
qed

text \<open>\<open>string(rs)\<close> for a rune slice.\<close>

definition string_of_runes :: "rune list \<Rightarrow> string" where
  "string_of_runes rs = concat (map encode_rune rs)"

lemma string_of_runes_simps [simp]:
  "string_of_runes [] = []"
  "string_of_runes (r # rs) = encode_rune r @ string_of_runes rs"
  "string_of_runes (rs @ rs') = string_of_runes rs @ string_of_runes rs'"
  by (simp_all add: string_of_runes_def)

lemma runes_of_string_of_runes:
  "\<forall>r \<in> set rs. valid_rune r \<Longrightarrow> runes_of (string_of_runes rs) = rs"
  by (induction rs) auto

text \<open>
  \<open>utf8.ValidString\<close>: every rune is decoded from a complete sequence. Valid strings are exactly
  the encodings of lists of valid runes.
\<close>

definition valid_utf8 :: "string \<Rightarrow> bool" where
  "valid_utf8 s \<longleftrightarrow> string_of_runes (runes_of s) = s"

lemma valid_utf8_ascii: "\<forall>c \<in> set s. byte_of c < 128 \<Longrightarrow> valid_utf8 s"
proof -
  assume a: "\<forall>c \<in> set s. byte_of c < 128"
  then have "runes_of s = map byte_of s" by (rule runes_of_ascii)
  moreover have "string_of_runes (map byte_of s) = s"
    using a by (induction s) (auto simp: encode_rune_ascii)
  ultimately show ?thesis by (simp add: valid_utf8_def)
qed

text \<open>
  \<open>unicode.IsSpace\<close>: the Latin-1 cases and the code points with property White_Space.
\<close>

definition is_space :: "rune \<Rightarrow> bool" where
  "is_space r \<longleftrightarrow> (9 \<le> r \<and> r \<le> 13) \<or> r = 32 \<or> r = 0x85 \<or> r = 0xA0 \<or> r = 0x1680
     \<or> (0x2000 \<le> r \<and> r \<le> 0x200A) \<or> r = 0x2028 \<or> r = 0x2029 \<or> r = 0x202F \<or> r = 0x205F \<or> r = 0x3000"

end
