(* ===== verification/Json.thy ===== *)
theory Json
  imports Strconv Utf8
begin

text \<open>
  The part of \<open>encoding/json\<close> and \<open>encoding/base64\<close> the runtime uses: JSON texts are scanned as
  the decoder scans them (grammar, string escapes, replacement of malformed UTF-8, the nesting
  limit), strings are written as the encoder writes them (HTML escapes included), byte slices travel
  as padded base64, and a \<open>map[string]string\<close> is written in key order. The lemmas give what a
  reader gets back from a writer: strings come back with malformed UTF-8 replaced, bytes unchanged.
\<close>

section \<open>Strings\<close>

definition hex_digit :: "nat \<Rightarrow> char" where
  "hex_digit d = (if d < 10 then char_of (48 + d) else char_of (87 + d))"

definition hex_val :: "char \<Rightarrow> nat option" where
  "hex_val c = (let b = byte_of c in
     if 48 \<le> b \<and> b \<le> 57 then Some (b - 48)
     else if 97 \<le> b \<and> b \<le> 102 then Some (b - 87)
     else if 65 \<le> b \<and> b \<le> 70 then Some (b - 55) else None)"

lemma hex_val_hex_digit [simp]: "d < 16 \<Longrightarrow> hex_val (hex_digit d) = Some d"
  by (auto simp: hex_val_def hex_digit_def Let_def)

text \<open>\<open>\u\<close> and four hexadecimal digits, as \<open>appendString\<close> writes control and separator runes.\<close>

definition u_escape :: "nat \<Rightarrow> string" where
  "u_escape r = CHR 0x5C # CHR ''u'' # map hex_digit [r div 4096, r div 256 mod 16, r div 16 mod 16, r mod 16]"

definition escape_ascii :: "nat \<Rightarrow> string" where
  "escape_ascii b =
     (if b = 0x22 \<or> b = 0x5C then [CHR 0x5C, chr_of b]
      else if b = 8 then [CHR 0x5C, CHR ''b'']
      else if b = 12 then [CHR 0x5C, CHR ''f'']
      else if b = 10 then [CHR 0x5C, CHR ''n'']
      else if b = 13 then [CHR 0x5C, CHR ''r'']
      else if b = 9 then [CHR 0x5C, CHR ''t'']
      else if b < 0x20 \<or> b = 0x3C \<or> b = 0x3E \<or> b = 0x26 then u_escape b
      else [chr_of b])"

definition escape_rune :: "string \<Rightarrow> rune \<Rightarrow> nat \<Rightarrow> string" where
  "escape_rune s r w =
     (if r < 0x80 then escape_ascii r
      else if r = rune_error \<and> w = 1 then u_escape rune_error
      else if r = 0x2028 \<or> r = 0x2029 then u_escape r
      else take w s)"

function escape_str :: "string \<Rightarrow> string" where
  "escape_str s = (if s = [] then []
     else escape_rune s (fst (decode_rune s)) (snd (decode_rune s))
            @ escape_str (drop (snd (decode_rune s)) s))"
  by pat_completeness auto
termination
  by (relation "measure length") (use decode_rune_width in \<open>auto simp: diff_less\<close>)

declare escape_str.simps [simp del]

definition json_string :: "string \<Rightarrow> string" where
  "json_string s = CHR 0x22 # escape_str s @ [CHR 0x22]"

text \<open>Four hexadecimal digits of a \<open>\u\<close> escape.\<close>

fun hex4 :: "string \<Rightarrow> (nat \<times> string) option" where
  "hex4 (a # b # c # d # s) =
     (case (hex_val a, hex_val b, hex_val c, hex_val d) of
        (Some a', Some b', Some c', Some d') \<Rightarrow> Some (((a' * 16 + b') * 16 + c') * 16 + d', s)
      | _ \<Rightarrow> None)"
| "hex4 _ = None"

lemma hex4_u_escape: "r < 65536 \<Longrightarrow> hex4 (drop 2 (u_escape r) @ s) = Some (r, s)"
proof -
  assume r: "r < 65536"
  have d: "r div 4096 < 16" using r by auto
  have "r = ((r div 4096 * 16 + r div 256 mod 16) * 16 + r div 16 mod 16) * 16 + r mod 16"
  proof -
    have "r div 256 = r div 4096 * 16 + r div 256 mod 16"
      using div_mult_mod_eq [of "r div 256" 16] by (simp add: div_mult2_eq [symmetric])
    moreover have "r div 16 = r div 256 * 16 + r div 16 mod 16"
      using div_mult_mod_eq [of "r div 16" 16] by (simp add: div_mult2_eq [symmetric])
    moreover have "r = r div 16 * 16 + r mod 16" by simp
    ultimately show ?thesis by simp
  qed
  then show ?thesis using d by (simp add: u_escape_def)
qed

lemma hex4_length: "hex4 s = Some (r, t) \<Longrightarrow> length t < length s"
  by (cases s rule: hex4.cases) (auto split: option.splits)

text \<open>\<open>utf16.DecodeRune\<close> on a surrogate pair; \<open>None\<close> is the replacement character.\<close>

definition surrogate_pair :: "nat \<Rightarrow> nat \<Rightarrow> rune option" where
  "surrogate_pair r1 r2 =
     (if 0xD800 \<le> r1 \<and> r1 < 0xDC00 \<and> 0xDC00 \<le> r2 \<and> r2 < 0xE000
      then Some ((r1 - 0xD800) * 1024 + (r2 - 0xDC00) + 0x10000) else None)"

definition simple_escape :: "char \<Rightarrow> char option" where
  "simple_escape c =
     (if c = CHR 0x22 \<or> c = CHR 0x5C \<or> c = CHR ''/'' then Some c
      else if c = CHR ''b'' then Some (chr_of 8)
      else if c = CHR ''f'' then Some (chr_of 12)
      else if c = CHR ''n'' then Some (chr_of 10)
      else if c = CHR ''r'' then Some (chr_of 13)
      else if c = CHR ''t'' then Some (chr_of 9) else None)"

text \<open>After a \<open>\u\<close> escape with value \<open>r\<close>: the text to append and the rest of the input.\<close>

definition after_u :: "nat \<Rightarrow> string \<Rightarrow> string \<times> string" where
  "after_u r s =
     (if 0xD800 \<le> r \<and> r < 0xE000 then
        (case s of
           c # d # s' \<Rightarrow>
             if c = CHR 0x5C \<and> d = CHR ''u'' then
               (case hex4 s' of
                  Some (r2, s'') \<Rightarrow>
                    (case surrogate_pair r r2 of
                       Some q \<Rightarrow> (encode_rune q, s'')
                     | None \<Rightarrow> (encode_rune rune_error, s))
                | None \<Rightarrow> (encode_rune rune_error, s))
             else (encode_rune rune_error, s)
         | _ \<Rightarrow> (encode_rune rune_error, s))
      else (encode_rune r, s))"

lemma after_u_length: "length (snd (after_u r s)) \<le> length s"
proof -
  have "length s'' < length s'" if "hex4 s' = Some (r2, s'')" for s' r2 s''
    using hex4_length [OF that] .
  then show ?thesis
    by (auto simp: after_u_def dest!: hex4_length split: list.splits option.splits)
qed

text \<open>The rest of a string literal, after its opening quote.\<close>

function parse_str :: "string \<Rightarrow> (string \<times> string) option" where
  "parse_str [] = None"
| "parse_str (c # s) =
     (if c = CHR 0x22 then Some ([], s)
      else if c = CHR 0x5C then
        (case s of
           [] \<Rightarrow> None
         | e # s' \<Rightarrow>
             if e = CHR ''u'' then
               (case hex4 s' of
                  None \<Rightarrow> None
                | Some (r, s'') \<Rightarrow>
                    map_option (\<lambda>(v, t). (fst (after_u r s'') @ v, t)) (parse_str (snd (after_u r s''))))
             else
               (case simple_escape e of
                  None \<Rightarrow> None
                | Some x \<Rightarrow> map_option (\<lambda>(v, t). (x # v, t)) (parse_str s')))
      else if byte_of c < 0x20 then None
      else map_option (\<lambda>(v, t). (encode_rune (fst (decode_rune (c # s))) @ v, t))
             (parse_str (drop (snd (decode_rune (c # s))) (c # s))))"
  by pat_completeness auto
termination
proof (relation "measure length", goal_cases)
  case 1
  show ?case by simp
next
  case (2 c s e s' p r s'')
  then have "length s'' < length s'" by (auto dest: hex4_length)
  then show ?case using after_u_length [of r s''] 2 by simp
next
  case (3 c s e s' x)
  then show ?case by simp
next
  case (4 c s)
  have "0 < snd (decode_rune (c # s))" using decode_rune_width [of "c # s"] by simp
  then show ?case by (simp add: less_Suc_eq_le)
qed

declare parse_str.simps(2) [simp del]
text \<open>A sequence that decodes is the encoding of its rune; a malformed byte is one byte wide.\<close>

lemma decode2_canonical:
  assumes "0xC2 \<le> b0" "b0 \<le> 0xDF" "is_cont b1"
  shows "let r = (b0 - 0xC0) * 64 + (b1 - 0x80) in
           valid_rune r \<and> \<not> r < 0x80 \<and> encode_rune r = [chr_of b0, chr_of b1]"
proof -
  define x y where xy: "x = b0 - 0xC0" "y = b1 - 0x80"
  have b: "b0 = 0xC0 + x" "b1 = 0x80 + y" "2 \<le> x" "x < 32" "y < 64"
    using assms by (auto simp: xy is_cont_def)
  define r where "r = x * 64 + y"
  have "r div 64 = x" "r mod 64 = y" "\<not> r < 0x80" "r < 0x800"
    using b(3-5) by (auto simp: r_def)
  then show ?thesis
    unfolding Let_def xy [symmetric] r_def [symmetric]
    by (simp add: encode_rune_def valid_rune_def b(1,2))
qed

lemma decode3_canonical:
  assumes "0xE0 \<le> b0" "b0 \<le> 0xEF" "second_ok b0 b1" "is_cont b2"
  shows "let r = (b0 - 0xE0) * 4096 + (b1 - 0x80) * 64 + (b2 - 0x80) in
           valid_rune r \<and> \<not> r < 0x80 \<and> encode_rune r = [chr_of b0, chr_of b1, chr_of b2]"
proof -
  define x y z where xyz: "x = b0 - 0xE0" "y = b1 - 0x80" "z = b2 - 0x80"
  have b: "b0 = 0xE0 + x" "b1 = 0x80 + y" "b2 = 0x80 + z" "x < 16" "y < 64" "z < 64"
    and o: "x = 0 \<Longrightarrow> 32 \<le> y" and d: "x = 13 \<Longrightarrow> y \<le> 31"
    using assms by (auto simp: xyz is_cont_def second_ok_def split: if_splits)
  define r where "r = x * 4096 + y * 64 + z"
  have "r div 64 = x * 64 + y" using b(6) by (simp add: r_def)
  moreover have "r div 4096 = x" using b(5,6) by (simp add: r_def)
  moreover have "r mod 64 = z"
  proof -
    have e: "r = (x * 64 + y) * 64 + z" by (simp add: r_def)
    show ?thesis by (simp only: e mod_mult_self3 mod_less [OF b(6)])
  qed
  moreover have "(x * 64 + y) mod 64 = y" using b(5) by simp
  moreover have ge: "\<not> r < 0x800" using o by (cases "x = 0") (auto simp: r_def)
  moreover have "r < 0x10000" using b(4-6) by (simp add: r_def)
  moreover have "valid_rune r"
  proof -
    have "x < 13 \<or> x = 13 \<or> 13 < x" by linarith
    then show ?thesis using b(4-6) d by (auto simp: valid_rune_def r_def)
  qed
  ultimately show ?thesis
    unfolding Let_def xyz [symmetric] r_def [symmetric]
    by (simp add: encode_rune_def b(1-3))
qed

lemma decode4_canonical:
  assumes "0xF0 \<le> b0" "b0 \<le> 0xF4" "second_ok b0 b1" "is_cont b2" "is_cont b3"
  shows "let r = (b0 - 0xF0) * 262144 + (b1 - 0x80) * 4096 + (b2 - 0x80) * 64 + (b3 - 0x80) in
           valid_rune r \<and> \<not> r < 0x80 \<and> encode_rune r = [chr_of b0, chr_of b1, chr_of b2, chr_of b3]"
proof -
  define x y z u where xyz: "x = b0 - 0xF0" "y = b1 - 0x80" "z = b2 - 0x80" "u = b3 - 0x80"
  have b: "b0 = 0xF0 + x" "b1 = 0x80 + y" "b2 = 0x80 + z" "b3 = 0x80 + u"
      "x \<le> 4" "y < 64" "z < 64" "u < 64"
    and o: "x = 0 \<Longrightarrow> 16 \<le> y" and t: "x = 4 \<Longrightarrow> y \<le> 15"
    using assms by (auto simp: xyz is_cont_def second_ok_def split: if_splits)
  define r where "r = x * 262144 + y * 4096 + z * 64 + u"
  have e: "r = ((x * 64 + y) * 64 + z) * 64 + u" by (simp add: r_def)
  then have 1: "r div 64 = (x * 64 + y) * 64 + z" using b(8) by simp
  have 2: "r mod 64 = u" by (simp only: e mod_mult_self3 mod_less [OF b(8)])
  have 3: "r div 4096 = x * 64 + y"
  proof -
    have "r div 4096 = r div 64 div 64" by (simp add: div_mult2_eq [symmetric])
    then show ?thesis using b(7) unfolding 1 by simp
  qed
  have 4: "r div 262144 = x"
  proof -
    have "r div 262144 = r div 4096 div 64" by (simp add: div_mult2_eq [symmetric])
    then show ?thesis using b(6) unfolding 3 by simp
  qed
  have "((x * 64 + y) * 64 + z) mod 64 = z" by (simp only: mod_mult_self3 mod_less [OF b(7)])
  moreover have "(x * 64 + y) mod 64 = y" using b(6) by simp
  moreover have "\<not> r < 0x10000" using o by (cases "x = 0") (auto simp: r_def)
  moreover have "r \<le> 0x10FFFF"
    using t b(5-8) by (cases "x = 4") (auto simp: r_def)
  ultimately show ?thesis
    unfolding Let_def xyz [symmetric] r_def [symmetric]
    using 1 2 3 4 by (simp add: encode_rune_def valid_rune_def b(1-4))
qed

lemma decode_rune_canonical:
  assumes "s \<noteq> []" and "decode_rune s = (r, w)"
  shows "(r < 0x80 \<and> w = 1 \<and> hd s = chr_of r) \<or> (r = rune_error \<and> w = 1 \<and> \<not> byte_of (hd s) < 0x80)
    \<or> (\<not> r < 0x80 \<and> valid_rune r \<and> take w s = encode_rune r \<and> 1 < w \<and> \<not> byte_of (hd s) < 0x80)"
proof -
  obtain c0 r0 where s: "s = c0 # r0" using assms(1) by (cases s) auto
  show ?thesis
    using assms(2) unfolding s decode_rune_def
    using decode2_canonical [of "byte_of c0"] decode3_canonical [of "byte_of c0"]
      decode4_canonical [of "byte_of c0"]
    by (auto simp: Let_def split: if_splits list.splits)
qed
text \<open>Reading a written string gives the string with every malformed byte replaced.\<close>

definition sanitize :: "string \<Rightarrow> string" where
  "sanitize s = string_of_runes (runes_of s)"

lemma sanitize_valid: "valid_utf8 s \<Longrightarrow> sanitize s = s"
  by (simp add: sanitize_def valid_utf8_def)

lemma parse_str_u:
  assumes "r < 0xD800 \<or> 0xE000 \<le> r" and "r < 65536"
  shows "parse_str (u_escape r @ s) = map_option (\<lambda>(v, t). (encode_rune r @ v, t)) (parse_str s)"
proof -
  have d: "u_escape r = CHR 0x5C # CHR ''u'' # drop 2 (u_escape r)" by (simp add: u_escape_def)
  have "\<not> (0xD800 \<le> r \<and> r < 0xE000)" using assms(1) by linarith
  then have "after_u r s = (encode_rune r, s)" unfolding after_u_def by (rule if_not_P)
  then show ?thesis
    using hex4_u_escape [OF assms(2), of s] by (subst d) (simp add: parse_str.simps(2))
qed

lemma parse_str_escape_ascii:
  assumes "b < 0x80"
  shows "parse_str (escape_ascii b @ s) = map_option (\<lambda>(v, t). (chr_of b # v, t)) (parse_str s)"
proof -
  have esc: "simple_escape (CHR ''b'') = Some (chr_of 8)" "simple_escape (CHR ''f'') = Some (chr_of 12)"
    "simple_escape (CHR ''n'') = Some (chr_of 10)" "simple_escape (CHR ''r'') = Some (chr_of 13)"
    "simple_escape (CHR ''t'') = Some (chr_of 9)"
    by (simp_all add: simple_escape_def)
  consider (q) "b = 0x22 \<or> b = 0x5C" | (s) "b \<in> {8, 12, 10, 13, 9}"
    | (u) "b \<notin> {0x22, 0x5C, 8, 12, 10, 13, 9}" "b < 0x20 \<or> b = 0x3C \<or> b = 0x3E \<or> b = 0x26"
    | (p) "b \<notin> {0x22, 0x5C}" "\<not> b < 0x20" "escape_ascii b = [chr_of b]"
    by (cases "b < 0x20 \<or> b = 0x3C \<or> b = 0x3E \<or> b = 0x26") (auto simp: escape_ascii_def)
  then show ?thesis
  proof cases
    case q
    have "chr_of 0x22 = CHR 0x22" "chr_of 0x5C = CHR 0x5C"
      by (simp_all add: char_of_eq_iff)
    then show ?thesis using q by (auto simp: escape_ascii_def parse_str.simps(2) simple_escape_def)
  next
    case s
    then show ?thesis by (auto simp: escape_ascii_def parse_str.simps(2) esc)
  next
    case u
    then have "escape_ascii b = u_escape b" by (auto simp: escape_ascii_def)
    then show ?thesis using assms by (simp add: parse_str_u encode_rune_ascii)
  next
    case p
    have "byte_of (chr_of b) = b" using assms by simp
    moreover have "chr_of b \<noteq> CHR 0x22" "chr_of b \<noteq> CHR 0x5C"
      using p(1) calculation by (auto dest: arg_cong [where f = byte_of])
    ultimately show ?thesis
      using p assms by (simp add: parse_str.simps(2) decode_rune_ascii encode_rune_ascii)
  qed
qed

lemma parse_str_multi:
  assumes "valid_rune r" and "\<not> r < 0x80" and "encode_rune r = c # e" and "\<not> byte_of c < 0x80"
  shows "parse_str (encode_rune r @ s) = map_option (\<lambda>(v, t). (encode_rune r @ v, t)) (parse_str s)"
proof -
  have "c \<noteq> CHR 0x22" "c \<noteq> CHR 0x5C" "\<not> byte_of c < 0x20" using assms(4) by auto
  moreover have "decode_rune (c # e @ s) = (r, length (c # e))"
    using decode_encode_rune [OF assms(1), of s] assms(3) by simp
  moreover have "parse_str (encode_rune r @ s) = parse_str (c # e @ s)" using assms(3) by simp
  ultimately show ?thesis using assms(3) by (simp add: parse_str.simps(2))
qed

lemma parse_str_escape:
  "parse_str (escape_str s @ CHR 0x22 # t) = Some (sanitize s, t)"
proof (induction s rule: escape_str.induct)
  case (1 s)
  show ?case
  proof (cases "s = []")
    case True
    then show ?thesis by (simp add: escape_str.simps parse_str.simps(2) sanitize_def)
  next
    case False
    obtain r w where rw: "decode_rune s = (r, w)" by (cases "decode_rune s")
    have IH: "parse_str (escape_str (drop w s) @ CHR 0x22 # t) = Some (sanitize (drop w s), t)"
      using "1.IH" [OF False] rw by simp
    have e: "escape_str s = escape_rune s r w @ escape_str (drop w s)"
      using False rw by (subst escape_str.simps) simp
    have sn: "sanitize s = encode_rune r @ sanitize (drop w s)"
      using False rw unfolding sanitize_def by (subst runes_of.simps) simp
    have "parse_str (escape_rune s r w @ x) = map_option (\<lambda>(v, t). (encode_rune r @ v, t)) (parse_str x)"
      for x
      using decode_rune_canonical [OF False rw]
    proof (elim disjE)
      assume a: "r < 0x80 \<and> w = 1 \<and> hd s = chr_of r"
      then show ?thesis by (simp add: escape_rune_def parse_str_escape_ascii encode_rune_ascii)
    next
      assume a: "r = rune_error \<and> w = 1 \<and> \<not> byte_of (hd s) < 0x80"
      then show ?thesis by (simp add: escape_rune_def parse_str_u)
    next
      assume a: "\<not> r < 0x80 \<and> valid_rune r \<and> take w s = encode_rune r \<and> 1 < w \<and> \<not> byte_of (hd s) < 0x80"
      show ?thesis
      proof (cases "r = 0x2028 \<or> r = 0x2029")
        case True
        then show ?thesis using a by (auto simp: escape_rune_def parse_str_u)
      next
        case n: False
        obtain c s' where s: "s = c # s'" using False by (cases s) auto
        have "encode_rune r = c # take (w - 1) s'"
          using a s by (cases w) auto
        then show ?thesis
          using a n s parse_str_multi [of r c] by (simp add: escape_rune_def)
      qed
    qed
    then show ?thesis using IH e sn by simp
  qed
qed
section \<open>Byte slices\<close>

text \<open>\<open>base64.StdEncoding\<close>; decoding skips line breaks and does not look at the unused trailing bits.\<close>

definition b64_char :: "nat \<Rightarrow> char" where
  "b64_char d = (if d < 26 then chr_of (65 + d) else if d < 52 then chr_of (71 + d)
     else if d < 62 then chr_of (d - 4) else if d = 62 then CHR ''+'' else CHR ''/'')"

definition b64_val :: "char \<Rightarrow> nat option" where
  "b64_val c = (let b = byte_of c in
     if 65 \<le> b \<and> b \<le> 90 then Some (b - 65)
     else if 97 \<le> b \<and> b \<le> 122 then Some (b - 71)
     else if 48 \<le> b \<and> b \<le> 57 then Some (b + 4)
     else if c = CHR ''+'' then Some 62 else if c = CHR ''/'' then Some 63 else None)"

fun b64_encode :: "bytes \<Rightarrow> string" where
  "b64_encode [] = []"
| "b64_encode [a] = [b64_char (byte_of a div 4), b64_char (byte_of a mod 4 * 16), CHR ''='', CHR ''='']"
| "b64_encode [a, b] =
     [b64_char (byte_of a div 4), b64_char (byte_of a mod 4 * 16 + byte_of b div 16),
      b64_char (byte_of b mod 16 * 4), CHR ''='']"
| "b64_encode (a # b # c # s) =
     [b64_char (byte_of a div 4), b64_char (byte_of a mod 4 * 16 + byte_of b div 16),
      b64_char (byte_of b mod 16 * 4 + byte_of c div 64), b64_char (byte_of c mod 64)] @ b64_encode s"

definition b64_byte1 :: "nat \<Rightarrow> nat \<Rightarrow> char" where "b64_byte1 x y = chr_of (x * 4 + y div 16)"
definition b64_byte2 :: "nat \<Rightarrow> nat \<Rightarrow> char" where "b64_byte2 y z = chr_of (y mod 16 * 16 + z div 4)"
definition b64_byte3 :: "nat \<Rightarrow> nat \<Rightarrow> char" where "b64_byte3 z u = chr_of (z mod 4 * 64 + u)"

fun b64_groups :: "string \<Rightarrow> bytes option" where
  "b64_groups [] = Some []"
| "b64_groups (a # b # c # d # s) =
     (case (b64_val a, b64_val b) of
        (Some x, Some y) \<Rightarrow>
          if c = CHR ''='' then (if d = CHR ''='' \<and> s = [] then Some [b64_byte1 x y] else None)
          else (case b64_val c of
             None \<Rightarrow> None
           | Some z \<Rightarrow>
               if d = CHR ''='' then (if s = [] then Some [b64_byte1 x y, b64_byte2 y z] else None)
               else (case b64_val d of
                  None \<Rightarrow> None
                | Some u \<Rightarrow>
                    map_option (\<lambda>t. b64_byte1 x y # b64_byte2 y z # b64_byte3 z u # t) (b64_groups s)))
      | _ \<Rightarrow> None)"
| "b64_groups _ = None"

definition b64_decode :: "string \<Rightarrow> bytes option" where
  "b64_decode s = b64_groups (filter (\<lambda>c. c \<noteq> chr_of 10 \<and> c \<noteq> chr_of 13) s)"

lemma b64_char_simps [simp]:
  assumes "d < 64"
  shows "b64_val (b64_char d) = Some d" and "b64_char d \<noteq> CHR ''=''"
    and "b64_char d \<noteq> chr_of 10" and "b64_char d \<noteq> chr_of 13" and "byte_of (b64_char d) < 128"
proof -
  have p: "b64_char 62 = CHR ''+''" "b64_char 63 = CHR ''/''" by (simp_all add: b64_char_def)
  have e: "byte_of (b64_char d) = (if d < 26 then 65 + d else if d < 52 then 71 + d
      else if d < 62 then d - 4 else if d = 62 then 43 else 47)"
    using assms by (simp add: b64_char_def)
  show "byte_of (b64_char d) < 128" using assms unfolding e by auto
  have "byte_of (b64_char d) \<noteq> 61" "byte_of (b64_char d) \<noteq> 10" "byte_of (b64_char d) \<noteq> 13"
    using assms by (auto simp: e)
  then show "b64_char d \<noteq> CHR ''=''" "b64_char d \<noteq> chr_of 10" "b64_char d \<noteq> chr_of 13"
    by (auto dest: arg_cong [where f = byte_of])
  consider "d < 62" | "d = 62" | "d = 63" using assms by linarith
  then show "b64_val (b64_char d) = Some d"
  proof cases
    case 1
    then show ?thesis by (auto simp: b64_val_def Let_def e)
  next
    case 2
    then show ?thesis using p by (simp add: b64_val_def Let_def)
  next
    case 3
    then show ?thesis using p by (simp add: b64_val_def Let_def)
  qed
qed

lemma b64_bytes [simp]:
  "b64_byte1 (byte_of a div 4) (byte_of a mod 4 * 16 + byte_of b div 16) = a"
  "b64_byte1 (byte_of a div 4) (byte_of a mod 4 * 16) = a"
  "b64_byte2 (byte_of a mod 4 * 16 + byte_of b div 16) (byte_of b mod 16 * 4 + byte_of c div 64) = b"
  "b64_byte2 (byte_of a mod 4 * 16 + byte_of b div 16) (byte_of b mod 16 * 4) = b"
  "b64_byte3 (byte_of b mod 16 * 4 + byte_of c div 64) (byte_of c mod 64) = c"
proof -
  have a: "byte_of a div 4 < 64" "byte_of b div 16 < 16" "byte_of c div 64 < 4"
    using nat_of_char_less_256 [of a] nat_of_char_less_256 [of b] nat_of_char_less_256 [of c]
    by linarith+
  have m: "(byte_of a mod 4 * 16 + byte_of b div 16) div 16 = byte_of a mod 4"
    "(byte_of a mod 4 * 16 + byte_of b div 16) mod 16 = byte_of b div 16"
    "(byte_of b mod 16 * 4 + byte_of c div 64) div 4 = byte_of b mod 16"
    "(byte_of b mod 16 * 4 + byte_of c div 64) mod 4 = byte_of c div 64"
    using a by (simp_all only: mod_mult_self3 mod_less)
  show "b64_byte1 (byte_of a div 4) (byte_of a mod 4 * 16 + byte_of b div 16) = a"
    "b64_byte1 (byte_of a div 4) (byte_of a mod 4 * 16) = a"
    "b64_byte2 (byte_of a mod 4 * 16 + byte_of b div 16) (byte_of b mod 16 * 4 + byte_of c div 64) = b"
    "b64_byte2 (byte_of a mod 4 * 16 + byte_of b div 16) (byte_of b mod 16 * 4) = b"
    "b64_byte3 (byte_of b mod 16 * 4 + byte_of c div 64) (byte_of c mod 64) = c"
    by (simp_all add: b64_byte1_def b64_byte2_def b64_byte3_def m mod_less [OF a(2)] mod_less [OF a(3)])
qed

lemma b64_quad_bounds [simp]:
  "byte_of a div 4 < 64" "byte_of a mod 4 * 16 + byte_of b div 16 < 64"
  "byte_of b mod 16 * 4 + byte_of c div 64 < 64" "byte_of c mod 64 < 64"
  "byte_of a mod 4 * 16 < 64" "byte_of b mod 16 * 4 < 64"
proof -
  have a: "byte_of a < 4 * 64" "byte_of b < 16 * 16" "byte_of c < 64 * 4" by simp_all
  then have "byte_of a div 4 < 64" "byte_of b div 16 < 16" "byte_of c div 64 < 4"
    by linarith+
  moreover have "byte_of a mod 4 < 4" "byte_of b mod 16 < 16" by simp_all
  ultimately show "byte_of a div 4 < 64" "byte_of a mod 4 * 16 + byte_of b div 16 < 64"
    "byte_of b mod 16 * 4 + byte_of c div 64 < 64" "byte_of c mod 64 < 64"
    "byte_of a mod 4 * 16 < 64" "byte_of b mod 16 * 4 < 64"
    by simp_all
qed

lemma b64_groups_encode: "b64_groups (b64_encode s) = Some s"
  by (induction s rule: b64_encode.induct) simp_all

lemma b64_encode_chars:
  "c \<in> set (b64_encode s) \<Longrightarrow> c \<noteq> chr_of 10 \<and> c \<noteq> chr_of 13 \<and> byte_of c < 128"
proof -
  have "CHR ''='' \<noteq> chr_of 10" "CHR ''='' \<noteq> chr_of 13" by (auto dest: arg_cong [where f = byte_of])
  then show "c \<in> set (b64_encode s) \<Longrightarrow> c \<noteq> chr_of 10 \<and> c \<noteq> chr_of 13 \<and> byte_of c < 128"
    by (induction s rule: b64_encode.induct) auto
qed

lemma b64_decode_encode: "b64_decode (b64_encode s) = Some s"
proof -
  have "filter (\<lambda>c. c \<noteq> chr_of 10 \<and> c \<noteq> chr_of 13) (b64_encode s) = b64_encode s"
    using b64_encode_chars by (intro filter_True) auto
  then show ?thesis by (simp add: b64_decode_def b64_groups_encode)
qed

lemma sanitize_b64 [simp]: "sanitize (b64_encode s) = b64_encode s"
  using b64_encode_chars by (intro sanitize_valid valid_utf8_ascii) auto
section \<open>Values\<close>

datatype json = JNull | JBool bool | JNum string | JStr string | JArr "json list"
  | JObj "(string \<times> json) list"

fun skip_ws :: "string \<Rightarrow> string" where
  "skip_ws [] = []"
| "skip_ws (c # s) = (if byte_of c \<in> {0x20, 9, 10, 13} then skip_ws s else c # s)"

fun span_digits :: "string \<Rightarrow> string \<times> string" where
  "span_digits [] = ([], [])"
| "span_digits (c # s) =
     (if is_digit c then (case span_digits s of (ds, r) \<Rightarrow> (c # ds, r)) else ([], c # s))"

text \<open>A number literal: sign, integer part without leading zeros, fraction, exponent.\<close>

definition num_int :: "string \<Rightarrow> (string \<times> string) option" where
  "num_int s = (case span_digits s of
       ([], _) \<Rightarrow> None
     | (d # ds, r) \<Rightarrow> if d = CHR ''0'' then Some ([d], ds @ r) else Some (d # ds, r))"

definition num_frac :: "string \<Rightarrow> (string \<times> string) option" where
  "num_frac s = (if has_prefix s ''.'' then
       (case span_digits (tl s) of ([], _) \<Rightarrow> None | (ds, r) \<Rightarrow> Some (CHR ''.'' # ds, r))
     else Some ([], s))"

definition num_exp :: "string \<Rightarrow> (string \<times> string) option" where
  "num_exp s = (if has_prefix s ''e'' \<or> has_prefix s ''E'' then
       (let t = tl s;
            sg = (if has_prefix t ''+'' \<or> has_prefix t ''-'' then [hd t] else [])
        in case span_digits (drop (length sg) t) of
             ([], _) \<Rightarrow> None | (ds, r) \<Rightarrow> Some (hd s # sg @ ds, r))
     else Some ([], s))"

definition parse_num :: "string \<Rightarrow> (string \<times> string) option" where
  "parse_num s =
     (let sg = (if has_prefix s ''-'' then ''-'' else []) in
      case num_int (drop (length sg) s) of
        None \<Rightarrow> None
      | Some (i, r1) \<Rightarrow>
          (case num_frac r1 of
             None \<Rightarrow> None
           | Some (f, r2) \<Rightarrow>
               (case num_exp r2 of None \<Rightarrow> None | Some (e, r3) \<Rightarrow> Some (sg @ i @ f @ e, r3))))"

text \<open>
  A value, the rest of an array after its bracket or a comma, the rest of an object after its brace
  or a comma. The first number bounds the number of calls, the second is the nesting still allowed
  (the decoder gives up at depth 10000).
\<close>

fun parse_val :: "nat \<Rightarrow> nat \<Rightarrow> string \<Rightarrow> (json \<times> string) option"
  and parse_elems :: "nat \<Rightarrow> nat \<Rightarrow> string \<Rightarrow> (json list \<times> string) option"
  and parse_members :: "nat \<Rightarrow> nat \<Rightarrow> string \<Rightarrow> ((string \<times> json) list \<times> string) option" where
  "parse_val 0 d s = None"
| "parse_val (Suc n) d s =
     (case skip_ws s of
        [] \<Rightarrow> None
      | c # t \<Rightarrow>
          if c = CHR 0x22 then map_option (\<lambda>(v, r). (JStr v, r)) (parse_str t)
          else if c = CHR ''['' then
            (if d = 0 then None
             else if has_prefix (skip_ws t) '']'' then Some (JArr [], tl (skip_ws t))
             else map_option (\<lambda>(vs, r). (JArr vs, r)) (parse_elems n (d - 1) t))
          else if c = CHR ''{'' then
            (if d = 0 then None
             else if has_prefix (skip_ws t) ''}'' then Some (JObj [], tl (skip_ws t))
             else map_option (\<lambda>(ms, r). (JObj ms, r)) (parse_members n (d - 1) t))
          else if has_prefix (c # t) ''null'' then Some (JNull, drop 3 t)
          else if has_prefix (c # t) ''true'' then Some (JBool True, drop 3 t)
          else if has_prefix (c # t) ''false'' then Some (JBool False, drop 4 t)
          else map_option (\<lambda>(v, r). (JNum v, r)) (parse_num (c # t)))"
| "parse_elems 0 d s = None"
| "parse_elems (Suc n) d s =
     (case parse_val n d s of
        None \<Rightarrow> None
      | Some (v, r) \<Rightarrow>
          (case skip_ws r of
             [] \<Rightarrow> None
           | c # t \<Rightarrow>
               if c = CHR '']'' then Some ([v], t)
               else if c = CHR '','' then map_option (\<lambda>(vs, r'). (v # vs, r')) (parse_elems n d t)
               else None))"
| "parse_members 0 d s = None"
| "parse_members (Suc n) d s =
     (case skip_ws s of
        [] \<Rightarrow> None
      | q # s1 \<Rightarrow>
          if q \<noteq> CHR 0x22 then None
          else (case parse_str s1 of
             None \<Rightarrow> None
           | Some (k, s2) \<Rightarrow>
               (case skip_ws s2 of
                  [] \<Rightarrow> None
                | co # s3 \<Rightarrow>
                    if co \<noteq> CHR '':'' then None
                    else (case parse_val n d s3 of
                       None \<Rightarrow> None
                     | Some (v, r) \<Rightarrow>
                         (case skip_ws r of
                            [] \<Rightarrow> None
                          | c # t \<Rightarrow>
                              if c = CHR ''}'' then Some ([(k, v)], t)
                              else if c = CHR '','' then
                                map_option (\<lambda>(ms, r'). ((k, v) # ms, r')) (parse_members n d t)
                              else None)))))"

definition max_depth :: nat where "max_depth = 10000"

text \<open>A whole document: one value and only white space around it.\<close>

definition parse_json :: "string \<Rightarrow> json option" where
  "parse_json s = (case parse_val (2 * length s + 1) max_depth s of
       Some (v, r) \<Rightarrow> if skip_ws r = [] then Some v else None
     | None \<Rightarrow> None)"
text \<open>
  Every parser consumes input, so the bound on the calls is never what makes it fail: any two
  sufficient bounds agree.
\<close>

lemma length_skip_ws: "length (skip_ws s) \<le> length s"
  by (induction s) auto

lemma skip_ws_length: "skip_ws s = c # t \<Longrightarrow> length t < length s"
  using length_skip_ws [of s] by simp

lemma length_span_digits: "span_digits s = (ds, r) \<Longrightarrow> length s = length ds + length r"
  by (induction s arbitrary: ds r) (auto split: if_splits prod.splits)

lemma parse_str_length: "parse_str s = Some (v, t) \<Longrightarrow> length t < length s"
proof (induction s arbitrary: v t rule: parse_str.induct)
  case 1
  then show ?case by simp
next
  case (2 c s)
  show ?case
  proof (cases "c = CHR 0x22 \<or> c \<noteq> CHR 0x5C")
    case True
    have "length t < length (drop (snd (decode_rune (c # s))) (c # s))"
      if "c \<noteq> CHR 0x22" using True that "2.prems" "2.IH"(3)
      by (auto simp: parse_str.simps(2) split: if_splits)
    then show ?thesis
      using True "2.prems" by (cases "c = CHR 0x22") (auto simp: parse_str.simps(2))
  next
    case False
    then obtain e s' where s: "s = e # s'"
      using "2.prems" by (cases s) (auto simp: parse_str.simps(2))
    show ?thesis
    proof (cases "e = CHR ''u''")
      case True
      then obtain r s'' where h: "hex4 s' = Some (r, s'')"
        using False s "2.prems" by (auto simp: parse_str.simps(2) split: option.splits)
      then have "length t < length (snd (after_u r s''))"
        using False s True "2.prems" "2.IH"(1) [OF _ _ s True h]
        by (auto simp: parse_str.simps(2))
      then show ?thesis using after_u_length [of r s''] hex4_length [OF h] s by simp
    next
      case nu: False
      then obtain x where x: "simple_escape e = Some x"
        using False s "2.prems" by (auto simp: parse_str.simps(2) split: option.splits)
      have "length t < length s'"
        using False s nu x "2.prems" "2.IH"(2) [OF _ _ s nu x] by (auto simp: parse_str.simps(2))
      then show ?thesis using s by simp
    qed
  qed
qed

lemma parse_num_length: "parse_num s = Some (v, t) \<Longrightarrow> length t < length s"
proof -
  have i: "length r < length s" if "num_int s = Some (x, r)" for s x r
    using that length_span_digits [of s]
    by (auto simp: num_int_def split: prod.splits list.splits if_splits)
  have f: "length r \<le> length s" if "num_frac s = Some (x, r)" for s x r
    using that length_span_digits [of "tl s"]
    by (auto simp: num_frac_def split: prod.splits list.splits if_splits)
  have e: "length r \<le> length s" if "num_exp s = Some (x, r)" for s x r
  proof (cases "has_prefix s ''e'' \<or> has_prefix s ''E''")
    case True
    define n where "n = (if has_prefix (tl s) ''+'' \<or> has_prefix (tl s) ''-'' then 1 else 0 :: nat)"
    obtain ds r' where sp: "span_digits (drop n (tl s)) = (ds, r')" by fastforce
    have "r = r'"
      using that True sp by (auto simp: num_exp_def Let_def n_def split: list.splits if_splits)
    then show ?thesis using length_span_digits [OF sp] by simp
  next
    case False
    then show ?thesis using that by (simp add: num_exp_def)
  qed
  assume "parse_num s = Some (v, t)"
  then obtain n a b c r1 r2 where "num_int (drop n s) = Some (a, r1)" "num_frac r1 = Some (b, r2)"
    "num_exp r2 = Some (c, t)"
    by (auto simp: parse_num_def Let_def split: option.splits)
  then have "length t \<le> length r1" "length r1 < length (drop n s)" using i f e le_trans by blast+
  then show ?thesis by simp
qed
lemma has_prefix_skip_ws_tl: "has_prefix (skip_ws t) [c] \<Longrightarrow> length (tl (skip_ws t)) < length t"
  using length_skip_ws [of t] by (cases "skip_ws t") (auto simp: has_prefix_def)

lemma parse_val_length:
  "parse_val n d s = Some (v, r) \<Longrightarrow> length r < length s"
  "parse_elems n d s = Some (vs, r) \<Longrightarrow> length r < length s"
  "parse_members n d s = Some (ms, r) \<Longrightarrow> length r < length s"
proof (induction n arbitrary: d s v vs ms r)
  case 0
  { case 1 then show ?case by simp }
  { case 2 then show ?case by simp }
  { case 3 then show ?case by simp }
next
  case (Suc n)
  { case 1
    then obtain c t where s: "skip_ws s = c # t" by (cases "skip_ws s") auto
    have t: "length t < length s" using skip_ws_length [OF s] .
    show ?case
      using 1 s t
      by (auto split: if_splits dest!: parse_str_length parse_num_length Suc.IH(2,3)
               has_prefix_skip_ws_tl) }
  { case 2
    then obtain v' r' where v: "parse_val n d s = Some (v', r')" by (auto split: option.splits)
    then obtain c t where r': "skip_ws r' = c # t" using 2 by (cases "skip_ws r'") auto
    show ?case
      using 2 v r' Suc.IH(1) [OF v] skip_ws_length [OF r']
      by (auto split: if_splits dest!: Suc.IH(2)) }
  { case 3
    then obtain s1 where s1: "skip_ws s = CHR 0x22 # s1"
      by (auto split: list.splits if_splits)
    then obtain k s2 where s2: "parse_str s1 = Some (k, s2)" using 3 by (auto split: option.splits)
    then obtain s3 where s3: "skip_ws s2 = CHR '':'' # s3"
      using 3 s1 by (auto split: list.splits if_splits)
    then obtain v' r' where v: "parse_val n d s3 = Some (v', r')"
      using 3 s1 s2 by (auto split: option.splits)
    then obtain c t where r': "skip_ws r' = c # t" using 3 s1 s2 s3 by (cases "skip_ws r'") auto
    show ?case
      using 3 s1 s2 s3 v r' Suc.IH(1) [OF v] skip_ws_length [OF r'] skip_ws_length [OF s1]
        parse_str_length [OF s2] skip_ws_length [OF s3]
      by (auto split: if_splits dest!: Suc.IH(3)) }
qed

lemma parse_fuel:
  "2 * length s < n \<Longrightarrow> 2 * length s < m \<Longrightarrow> parse_val n d s = parse_val m d s"
  "2 * length s + 1 < n \<Longrightarrow> 2 * length s + 1 < m \<Longrightarrow> parse_elems n d s = parse_elems m d s"
  "2 * length s + 1 < n \<Longrightarrow> 2 * length s + 1 < m \<Longrightarrow> parse_members n d s = parse_members m d s"
proof (induction n arbitrary: m d s)
  case 0
  { case 1 then show ?case by simp }
  { case 2 then show ?case by simp }
  { case 3 then show ?case by simp }
next
  case (Suc n)
  { case 1
    then obtain m' where m: "m = Suc m'" by (cases m) auto
    show ?case
    proof (cases "skip_ws s")
      case Nil
      then show ?thesis by (simp add: m)
    next
      case (Cons c t)
      then have "length t < length s" by (rule skip_ws_length)
      then have "parse_elems n (d - 1) t = parse_elems m' (d - 1) t"
        "parse_members n (d - 1) t = parse_members m' (d - 1) t"
        using 1 m by (auto intro!: Suc.IH(2,3))
      then show ?thesis by (simp add: m Cons)
    qed }
  { case 2
    then obtain m' where m: "m = Suc m'" by (cases m) auto
    have v: "parse_val n d s = parse_val m' d s" using 2 m by (intro Suc.IH(1)) auto
    have e: "parse_elems n d t = parse_elems m' d t" if "length t < length s" for t
      using 2 m that by (intro Suc.IH(2)) auto
    have t: "length t < length s"
      if "parse_val m' d s = Some (x, r)" "skip_ws r = c # t" for x r c t
      using parse_val_length(1) [OF that(1)] skip_ws_length [OF that(2)] by simp
    show ?case by (auto simp: m v e dest: t split: option.splits list.splits) }
  { case 3
    then obtain m' where m: "m = Suc m'" by (cases m) auto
    have v: "parse_val n d t = parse_val m' d t" if "length t < length s" for t
      using 3 m that by (intro Suc.IH(1)) auto
    have e: "parse_members n d t = parse_members m' d t" if "length t < length s" for t
      using 3 m that by (intro Suc.IH(3)) auto
    have t3: "length s3 < length s"
      if "skip_ws s = q # s1" "parse_str s1 = Some (k, s2)" "skip_ws s2 = co # s3" for q s1 k s2 co s3
      using skip_ws_length [OF that(1)] parse_str_length [OF that(2)] skip_ws_length [OF that(3)] by simp
    have t: "length t < length s"
      if "length s3 < length s" "parse_val m' d s3 = Some (x, r)" "skip_ws r = c # t" for s3 x r c t
      using that(1) parse_val_length(1) [OF that(2)] skip_ws_length [OF that(3)] by simp
    show ?case
    proof (cases "skip_ws s")
      case Nil
      then show ?thesis by (simp add: m)
    next
      case s1: (Cons q s1)
      show ?thesis
      proof (cases "parse_str s1")
        case None
        then show ?thesis by (simp add: m s1)
      next
        case (Some ks)
        obtain k s2 where ks: "ks = (k, s2)" by (cases ks)
        show ?thesis
        proof (cases "skip_ws s2")
          case Nil
          then show ?thesis by (simp add: m s1 Some ks)
        next
          case s3: (Cons co s3)
          have l: "length s3 < length s" using t3 [OF s1 Some [unfolded ks] s3] .
          show ?thesis
            by (auto simp: m s1 Some ks s3 v [OF l] e dest: t [OF l] split: option.splits list.splits)
        qed
      qed
    qed }
qed
section \<open>Writing\<close>

text \<open>
  What \<open>json.Marshal\<close> writes for the shapes of the runtime: \<open>null\<close>, strings, and objects with
  their members in the order given (struct fields in declaration order, map keys sorted).
\<close>

fun render :: "json \<Rightarrow> string" where
  "render JNull = ''null''"
| "render (JBool b) = (if b then ''true'' else ''false'')"
| "render (JNum n) = n"
| "render (JStr s) = json_string s"
| "render (JArr vs) = ''['' @ concat_sep '','' (map render vs) @ '']''"
| "render (JObj ms) =
     ''{'' @ concat_sep '','' (map (\<lambda>(k, v). json_string k @ '':'' @ render v) ms) @ ''}''"

fun plain :: "nat \<Rightarrow> json \<Rightarrow> bool" where
  "plain d JNull \<longleftrightarrow> True"
| "plain d (JStr s) \<longleftrightarrow> True"
| "plain 0 (JObj ms) \<longleftrightarrow> False"
| "plain (Suc d) (JObj ms) \<longleftrightarrow> list_all (\<lambda>(k, v). plain d v) ms"
| "plain d _ \<longleftrightarrow> False"

fun sanitize_json :: "json \<Rightarrow> json" where
  "sanitize_json (JStr s) = JStr (sanitize s)"
| "sanitize_json (JObj ms) = JObj (map (\<lambda>(k, v). (sanitize k, sanitize_json v)) ms)"
| "sanitize_json (JArr vs) = JArr (map sanitize_json vs)"
| "sanitize_json v = v"

lemma skip_ws_char: "byte_of c \<notin> {0x20, 9, 10, 13} \<Longrightarrow> skip_ws (c # s) = c # s"
  by simp

lemma skip_ws_render: "plain d v \<Longrightarrow> skip_ws (render v @ r) = render v @ r"
  by (cases v) (auto simp: json_string_def)

lemma parse_val_str: "0 < n \<Longrightarrow> parse_val n d (json_string s @ r) = Some (JStr (sanitize s), r)"
  by (cases n) (simp_all add: json_string_def parse_str_escape)

lemma parse_member:
  assumes v: "parse_val n d (render x @ u # r) = Some (sanitize_json x, u # r)"
    and u: "byte_of u \<notin> {0x20, 9, 10, 13}"
  shows "parse_members (Suc n) d (json_string k @ '':'' @ render x @ u # r) =
    (if u = CHR ''}'' then Some ([(sanitize k, sanitize_json x)], r)
     else if u = CHR '','' then
       map_option (\<lambda>(ms, r'). ((sanitize k, sanitize_json x) # ms, r')) (parse_members n d r)
     else None)"
  using v u by (simp add: json_string_def parse_str_escape)

lemma parse_members_render:
  assumes "ms \<noteq> []"
    and "\<And>k v n r. (k, v) \<in> set ms \<Longrightarrow> 2 * length (render v @ r) < n \<Longrightarrow>
           parse_val n d (render v @ r) = Some (sanitize_json v, r)"
    and "2 * length (concat_sep '','' (map (\<lambda>(k, v). json_string k @ '':'' @ render v) ms) @ CHR ''}'' # r) + 1 < n"
  shows "parse_members n d (concat_sep '','' (map (\<lambda>(k, v). json_string k @ '':'' @ render v) ms) @ CHR ''}'' # r) =
    Some (map (\<lambda>(k, v). (sanitize k, sanitize_json v)) ms, r)"
  using assms
proof (induction ms arbitrary: n)
  case Nil
  then show ?case by simp
next
  case (Cons kv ms)
  obtain k v where kv: "kv = (k, v)" by (cases kv)
  obtain n' where n: "n = Suc n'" using Cons.prems(3) by (cases n) auto
  show ?case
  proof (cases ms)
    case Nil
    then have "parse_val n' d (render v @ CHR ''}'' # r) = Some (sanitize_json v, CHR ''}'' # r)"
      using Cons.prems(3) kv n by (intro Cons.prems(2)) auto
    then show ?thesis using parse_member [of n' d v "CHR ''}''" r k] Nil kv n by simp
  next
    case (Cons kv2 ms')
    define rest where
      "rest = concat_sep '','' (map (\<lambda>(k, v). json_string k @ '':'' @ render v) ms) @ CHR ''}'' # r"
    have t: "concat_sep '','' (map (\<lambda>(k, v). json_string k @ '':'' @ render v) (kv # ms)) @ CHR ''}'' # r
        = json_string k @ '':'' @ render v @ CHR '','' # rest"
      by (simp add: Cons kv rest_def)
    have len: "2 * length (json_string k @ '':'' @ render v @ CHR '','' # rest) + 1 < n"
      using Cons.prems(3) unfolding t .
    have "parse_val n' d (render v @ CHR '','' # rest) = Some (sanitize_json v, CHR '','' # rest)"
      using len kv n by (intro Cons.prems(2)) auto
    moreover have "parse_members n' d rest = Some (map (\<lambda>(k, v). (sanitize k, sanitize_json v)) ms, r)"
      unfolding rest_def
    proof (rule Cons.IH)
      show "ms \<noteq> []" by (simp add: Cons)
      show "parse_val n d (render v @ r) = Some (sanitize_json v, r)"
        if "(k, v) \<in> set ms" "2 * length (render v @ r) < n" for k v n r
        using that by (intro Cons.prems(2)) auto
      show "2 * length (concat_sep '','' (map (\<lambda>(k, v). json_string k @ '':'' @ render v) ms) @ CHR ''}'' # r) + 1 < n'"
        using len n unfolding rest_def [symmetric] by simp
    qed
    ultimately show ?thesis
      using parse_member [of n' d v "CHR '',''" rest k] unfolding t n by (simp add: kv)
  qed
qed

lemma parse_val_render:
  assumes "plain d v" and "2 * length (render v @ r) < n"
  shows "parse_val n d (render v @ r) = Some (sanitize_json v, r)"
  using assms
proof (induction d v arbitrary: n r rule: plain.induct)
  case (1 d)
  then show ?case by (cases n) (auto simp: has_prefix_def)
next
  case (2 d s)
  then show ?case using parse_val_str [of n d s r] by simp
next
  case (4 d ms)
  then obtain n' where n: "n = Suc n'" by (cases n) auto
  show ?case
  proof (cases ms)
    case Nil
    then show ?thesis by (simp add: n has_prefix_def)
  next
    case (Cons kv ms')
    define body where
      "body = concat_sep '','' (map (\<lambda>(k, v). json_string k @ '':'' @ render v) ms)"
    have "\<exists>b. body = CHR 0x22 # b"
      by (cases kv; cases ms') (auto simp: body_def Cons json_string_def)
    then have ws: "\<not> has_prefix (skip_ws (body @ CHR ''}'' # r)) ''}''"
      by (auto simp: has_prefix_def)
    have len: "2 * length (body @ CHR ''}'' # r) + 1 < n'"
      using "4.prems"(2) n by (simp add: body_def)
    have "parse_members n' d (body @ CHR ''}'' # r)
        = Some (map (\<lambda>(k, v). (sanitize k, sanitize_json v)) ms, r)"
      unfolding body_def
    proof (rule parse_members_render)
      show "ms \<noteq> []" by (simp add: Cons)
      show "parse_val n d (render v @ r) = Some (sanitize_json v, r)"
        if "(k, v) \<in> set ms" "2 * length (render v @ r) < n" for k v n r
        using "4.IH" [OF that(1) refl] "4.prems"(1) that by (auto simp: list_all_iff)
      show "2 * length (concat_sep '','' (map (\<lambda>(k, v). json_string k @ '':'' @ render v) ms) @ CHR ''}'' # r) + 1 < n'"
        using len unfolding body_def .
    qed
    then have "parse_val n (Suc d) (''{'' @ body @ ''}'' @ r)
        = Some (JObj (map (\<lambda>(k, v). (sanitize k, sanitize_json v)) ms), r)"
      using ws by (simp add: n)
    moreover have "render (JObj ms) = ''{'' @ body @ ''}''" by (simp add: body_def)
    ultimately show ?thesis by simp
  qed
qed simp_all

lemma parse_json_render: "plain max_depth v \<Longrightarrow> parse_json (render v) = Some (sanitize_json v)"
  using parse_val_render [of max_depth v "[]" "2 * length (render v) + 1"]
  by (simp add: parse_json_def)
section \<open>String maps\<close>

text \<open>
  A \<open>map[string]string\<close> is written as an object with its keys sorted. Reading one into an
  existing map adds or overwrites the members in text order; \<open>null\<close> clears the map, and a
  \<open>null\<close> member stores the empty string.
\<close>

definition json_of_map :: "string smap \<Rightarrow> json" where
  "json_of_map m = JObj (map (\<lambda>k. (k, JStr (the (map_of m k)))) (sorted_keys m))"

fun read_members :: "string smap \<Rightarrow> (string \<times> json) list \<Rightarrow> string smap option" where
  "read_members m [] = Some m"
| "read_members m ((k, v) # ms) =
     (case v of
        JStr t \<Rightarrow> read_members (smap_set m k t) ms
      | JNull \<Rightarrow> read_members (smap_set m k []) ms
      | _ \<Rightarrow> None)"

definition read_map :: "string smap \<Rightarrow> json \<Rightarrow> string smap option" where
  "read_map m v = (case v of JNull \<Rightarrow> Some [] | JObj ms \<Rightarrow> read_members m ms | _ \<Rightarrow> None)"

lemma read_members_strings:
  "read_members m (map (\<lambda>k. (k, JStr (f k))) ks) = Some (fold (\<lambda>k m. smap_set m k (f k)) ks m)"
  by (induction ks arbitrary: m) simp_all

lemma map_of_fold_smap_set:
  "map_of (fold (\<lambda>k m. smap_set m k (f k)) ks m) k =
     (if k \<in> set ks then Some (f k) else map_of m k)"
  by (induction ks arbitrary: m) auto

definition valid_strings :: "string smap \<Rightarrow> bool" where
  "valid_strings m \<longleftrightarrow> list_all (\<lambda>(k, v). valid_utf8 k \<and> valid_utf8 v) m"

lemma valid_strings_of: "valid_strings m \<Longrightarrow> map_of m k = Some v \<Longrightarrow> valid_utf8 k \<and> valid_utf8 v"
proof -
  assume v: "valid_strings m" and m: "map_of m k = Some v"
  have "(case (k, v) of (k, v) \<Rightarrow> valid_utf8 k \<and> valid_utf8 v)"
    using v map_of_SomeD [OF m] unfolding valid_strings_def list_all_iff by (rule bspec)
  then show ?thesis by simp
qed

lemma sanitize_json_of_map: "valid_strings m \<Longrightarrow> sanitize_json (json_of_map m) = json_of_map m"
proof -
  assume v: "valid_strings m"
  have "sanitize k = k \<and> sanitize (the (map_of m k)) = the (map_of m k)" if k: "k \<in> fst ` set m" for k
  proof -
    obtain x where x: "map_of m k = Some x"
      using k map_of_eq_None_iff [of m k] by (cases "map_of m k") simp_all
    have "sanitize k = k" "sanitize x = x"
      using valid_strings_of [OF v x] sanitize_valid by blast+
    then show ?thesis by (simp add: x)
  qed
  then have "map (\<lambda>k. (sanitize k, JStr (sanitize (the (map_of m k))))) (sorted_keys m)
      = map (\<lambda>k. (k, JStr (the (map_of m k)))) (sorted_keys m)"
    by (intro map_cong refl) simp
  then show ?thesis unfolding json_of_map_def by (simp add: comp_def)
qed

lemma read_json_of_map:
  "\<exists>m'. read_map [] (json_of_map m) = Some m' \<and> map_of m' = map_of m"
proof -
  define m' where "m' = fold (\<lambda>k n. smap_set n k (the (map_of m k))) (sorted_keys m) []"
  have "map_of m' k = map_of m k" for k
  proof (cases "map_of m k")
    case None
    then have "k \<notin> fst ` set m" by (simp add: map_of_eq_None_iff)
    then show ?thesis using None by (simp add: m'_def map_of_fold_smap_set)
  next
    case (Some v)
    then have "k \<in> fst ` set m" using map_of_eq_None_iff [of m k] by auto
    then show ?thesis using Some by (simp add: m'_def map_of_fold_smap_set)
  qed
  then show ?thesis
    by (auto simp: read_map_def json_of_map_def read_members_strings m'_def)
qed

lemma plain_json_of_map: "0 < d \<Longrightarrow> plain d (json_of_map m)"
  by (cases d) (simp_all add: json_of_map_def list_all_iff)

text \<open>
  The decoder matches an object key to a field exactly or up to case folding; for the ASCII names
  of the runtime folding maps lower case to upper case and the two non-ASCII runes that fold to
  ASCII letters.
\<close>

definition fold_rune :: "rune \<Rightarrow> rune" where
  "fold_rune r = (if 97 \<le> r \<and> r \<le> 122 then r - 32
     else if r = 0x17F then 83 else if r = 0x212A then 75 else r)"

definition same_field :: "string \<Rightarrow> string \<Rightarrow> bool" where
  "same_field name k \<longleftrightarrow> map fold_rune (runes_of k) = map fold_rune (runes_of name)"

end
