(* ===== verification/Broker.thy ===== *)
theory Broker
  imports Json
begin

text \<open>
  The broker-neutral contract, runtime/broker and runtime/agenerrors: the outgoing message, the
  interface every incoming message offers (with the law generated subscribers rely on), the JSON
  form of headers, middleware chains and the typed message errors.
\<close>

section \<open>Messages\<close>

text \<open>A \<open>[]byte\<close> is \<open>None\<close> when it is \<open>nil\<close>: JSON tells \<open>nil\<close> from empty.\<close>

record outgoing =
  out_topic :: string
  out_key :: string
  out_content_type :: string
  out_headers :: "string smap"
  out_body :: "bytes option"

definition bytes_of :: "bytes option \<Rightarrow> bytes" where
  "bytes_of b = (case b of None \<Rightarrow> [] | Some x \<Rightarrow> x)"

lemma bytes_of_simps [simp]: "bytes_of None = []" "bytes_of (Some b) = b"
  by (simp_all add: bytes_of_def)

text \<open>
  \<open>broker.Incoming\<close>: what a subscriber may ask of a received message. Its contract is that the
  listed header names cover every header with a value; a subscriber that copies the listed headers
  therefore sees what \<open>Header\<close> returns.
\<close>

locale incoming_message =
  fixes header :: "'m \<Rightarrow> string \<Rightarrow> string"
    and header_names :: "'m \<Rightarrow> string list"
  assumes listed: "header m k \<noteq> [] \<Longrightarrow> k \<in> set (header_names m)"
begin

definition header_map :: "'m \<Rightarrow> string smap" where
  "header_map m = fold (\<lambda>k hs. smap_set hs k (header m k)) (header_names m) []"

lemma map_of_header_map:
  "map_of (header_map m) k = (if k \<in> set (header_names m) then Some (header m k) else None)"
  by (simp add: header_map_def map_of_fold_smap_set)

lemma header_map_complete:
  "(case map_of (header_map m) k of None \<Rightarrow> [] | Some v \<Rightarrow> v) = header m k"
  using listed [of m k] by (cases "header m k = []") (simp_all add: map_of_header_map)

end

section \<open>Headers as JSON\<close>

definition HeadersToJSON :: "string smap \<Rightarrow> bytes" where
  "HeadersToJSON headers = (if headers = [] then ''{}'' else render (json_of_map headers))"

definition JSONToHeaders :: "bytes \<Rightarrow> string smap option" where
  "JSONToHeaders data =
     (if data = [] then Some []
      else case parse_json data of None \<Rightarrow> None | Some v \<Rightarrow> read_map [] v)"

text \<open>
  \<open>JSONToHeaders\<close> undoes \<open>HeadersToJSON\<close>: for headers whose names and values are valid
  UTF-8 the decoded map has exactly the entries that were encoded.
\<close>

lemma json_headers_roundtrip:
  assumes "valid_strings headers"
  shows "\<exists>h. JSONToHeaders (HeadersToJSON headers) = Some h \<and> map_of h = map_of headers"
proof (cases "headers = []")
  case True
  have e: "parse_json ''{}'' = Some (JObj [])"
    using parse_json_render [of "JObj []"] by (simp add: max_depth_def numeral_eq_Suc)
  show ?thesis using True e by (simp add: JSONToHeaders_def HeadersToJSON_def read_map_def)
next
  case False
  have "parse_json (render (json_of_map headers)) = Some (json_of_map headers)"
    using parse_json_render [OF plain_json_of_map] sanitize_json_of_map [OF assms]
    by (simp add: max_depth_def)
  moreover have "render (json_of_map headers) \<noteq> []" by (simp add: json_of_map_def)
  ultimately show ?thesis
    using False read_json_of_map [of headers] by (simp add: JSONToHeaders_def HeadersToJSON_def)
qed

lemma json_headers_roundtrip_witness:
  "\<exists>h. JSONToHeaders (HeadersToJSON [(''trace'', ''a<b''), (''id'', ''7'')]) = Some h
     \<and> map_of h = map_of [(''trace'', ''a<b''), (''id'', ''7'')]"
  by (rule json_headers_roundtrip) (simp add: valid_strings_def valid_utf8_ascii)

section \<open>Middleware\<close>

text \<open>
  \<open>broker.Chain\<close> wraps from the last middleware to the first; \<open>chain_loop i\<close> has still to wrap
  those at the indices below \<open>i\<close>. A nil middleware is \<open>None\<close>.
\<close>

fun chain_loop :: "('h \<Rightarrow> 'h) option list \<Rightarrow> nat \<Rightarrow> 'h \<Rightarrow> 'h" where
  "chain_loop mws 0 next_h = next_h"
| "chain_loop mws (Suc i) next_h =
     (case mws ! i of None \<Rightarrow> chain_loop mws i next_h | Some mw \<Rightarrow> chain_loop mws i (mw next_h))"

definition Chain :: "('h \<Rightarrow> 'h) option list \<Rightarrow> 'h \<Rightarrow> 'h" where
  "Chain mws next_h = chain_loop mws (length mws) next_h"

lemma chain_loop_foldr:
  "i \<le> length mws \<Longrightarrow> chain_loop mws i h = foldr (\<lambda>f. f) (List.map_filter id (take i mws)) h"
proof (induction i arbitrary: h)
  case 0
  then show ?case by (simp add: List.map_filter_simps)
next
  case (Suc i)
  have "take (Suc i) mws = take i mws @ [mws ! i]"
    using Suc.prems by (simp add: take_Suc_conv_app_nth)
  then show ?case
    using Suc by (cases "mws ! i") (simp_all add: List.map_filter_def)
qed

text \<open>
  The chain applies the non-nil middlewares outermost first, whatever nil entries are between
  them, and splitting a chain in two and nesting the parts changes nothing.
\<close>

lemma chain_outermost_first:
  "Chain mws h = foldr (\<lambda>f. f) (List.map_filter id mws) h
   \<and> (\<forall>ms1 ms2. mws = ms1 @ ms2 \<longrightarrow> Chain mws h = Chain ms1 (Chain ms2 h))"
  by (auto simp: Chain_def chain_loop_foldr List.map_filter_def)

lemma chain_outermost_first_witness:
  "Chain [Some (Cons (1::nat)), None, Some (Cons 2)] [3] = [1, 2, 3]"
  using chain_outermost_first [of "[Some (Cons (1::nat)), None, Some (Cons 2)]" "[3]"]
  by (simp add: List.map_filter_simps)

section \<open>Typed errors\<close>

text \<open>
  runtime/agenerrors: each constructor is one of the error types with its operation, its message
  and the text of the wrapped error.
\<close>

datatype agen_error =
    DecodeMessageError string string string
  | ValidateMessageError string string string
  | EncodeMessageError string string string
  | NotDispatchedError string string
  | ErrNotImplemented

fun Unwrap :: "agen_error \<Rightarrow> string option" where
  "Unwrap (DecodeMessageError op msg err) = Some err"
| "Unwrap (ValidateMessageError op msg err) = Some err"
| "Unwrap (EncodeMessageError op msg err) = Some err"
| "Unwrap _ = None"

fun decode_error_text :: "string \<Rightarrow> string \<Rightarrow> string \<Rightarrow> string" where
  "decode_error_text op msg err =
     (if msg \<noteq> [] then ''decode '' @ msg @ '' message of '' @ op @ '': '' @ err
      else ''decode message of '' @ op @ '': '' @ err)"

fun decode_error_format :: "string \<Rightarrow> string \<Rightarrow> string" where
  "decode_error_format op msg =
     (if msg \<noteq> [] then ''decode '' @ msg @ '' message of '' @ op else ''decode message of '' @ op)"

definition validate_error_text :: "string \<Rightarrow> string \<Rightarrow> string \<Rightarrow> string" where
  "validate_error_text op msg err = ''validate '' @ msg @ '' message of '' @ op @ '': '' @ err"

definition encode_error_text :: "string \<Rightarrow> string \<Rightarrow> string \<Rightarrow> string" where
  "encode_error_text op msg err = ''encode '' @ msg @ '' message of '' @ op @ '': '' @ err"

lemma decode_error_text_format:
  "decode_error_text op msg err = decode_error_format op msg @ '': '' @ err"
  by simp

end
