(* ===== verification/Redis.thy ===== *)
theory Redis
  imports Broker
begin

text \<open>
  The Redis runtime, runtime/redis/redis.go: configuration checks and defaults, publishing in both
  modes, the stream and pub/sub forms of an incoming message, the read loop, the reclaimer with its
  attempt counts and dead letters, and the pub/sub loop. The Redis client, the clock, the context
  and the dispatcher are functions of an environment on an arbitrary state; since that state may
  hold anything (other clients, the other goroutine, a schedule), a theorem for every environment
  covers every interference with the loop it is about. Each call is recorded in a trace.
\<close>

section \<open>Configuration\<close>

type_synonym mode = string

definition ModeStreams :: mode where "ModeStreams = ''streams''"
definition ModePubSub :: mode where "ModePubSub = ''pubsub''"

record security =
  sec_username :: string
  sec_password :: string
  sec_tls :: bool
  sec_insecure :: bool

record tls_cfg =
  tls_min_version :: nat
  tls_skip_verify :: bool

definition tlsConfig :: "security \<Rightarrow> tls_cfg option" where
  "tlsConfig s =
     (if \<not> sec_tls s then None
      else Some \<lparr>tls_min_version = 0x0303, tls_skip_verify = sec_insecure s\<rparr>)"

record redis_options =
  opt_addr :: string
  opt_username :: string
  opt_password :: string
  opt_tls :: "tls_cfg option"

definition newClient :: "string \<Rightarrow> security \<Rightarrow> redis_options" where
  "newClient addr s = \<lparr>opt_addr = addr, opt_username = sec_username s,
     opt_password = sec_password s, opt_tls = tlsConfig s\<rparr>"

text \<open>The client in use: the one given in the configuration, or one dialled with options.\<close>

datatype 'c client = Given 'c | Dialled redis_options

datatype config_error = InvalidMode mode | MaxLenRequiresStreams | AddrRequired | NoAddresses
  | GroupRequired

definition parseMode :: "mode \<Rightarrow> config_error + mode" where
  "parseMode m =
     (if m = [] then Inr ModeStreams
      else if m = ModeStreams \<or> m = ModePubSub then Inr m
      else Inl (InvalidMode m))"

record 'c publisher_config =
  pc_addr :: string
  pc_mode :: mode
  pc_max_len :: int
  pc_security :: security
  pc_on_error :: bool
  pc_client :: "'c option"

record 'c publisher =
  pub_client :: "'c client"
  pub_own :: bool
  pub_mode :: mode
  pub_max_len :: int
  pub_on_error :: bool

definition NewPublisher :: "'c publisher_config \<Rightarrow> config_error + 'c publisher" where
  "NewPublisher cfg =
     bind_res (parseMode (pc_mode cfg)) (\<lambda>m.
       if m = ModePubSub \<and> 0 < pc_max_len cfg then Inl MaxLenRequiresStreams
       else case pc_client cfg of
         Some c \<Rightarrow> Inr \<lparr>pub_client = Given c, pub_own = False, pub_mode = m,
                       pub_max_len = pc_max_len cfg, pub_on_error = pc_on_error cfg\<rparr>
       | None \<Rightarrow>
           if pc_addr cfg = [] then Inl AddrRequired
           else Inr \<lparr>pub_client = Dialled (newClient (pc_addr cfg) (pc_security cfg)),
                     pub_own = True, pub_mode = m, pub_max_len = pc_max_len cfg,
                     pub_on_error = pc_on_error cfg\<rparr>)"

record 'c consumer_config =
  cc_addr :: string
  cc_mode :: mode
  cc_addresses :: "string list"
  cc_group :: string
  cc_consumer :: string
  cc_security :: security
  cc_block :: int
  cc_count :: int
  cc_claim_min_idle :: int
  cc_max_deliveries :: int
  cc_dead_letter :: bool
  cc_on_error :: bool
  cc_client :: "'c option"

record 'c consumer =
  con_client :: "'c client"
  con_own :: bool
  con_cfg :: "'c consumer_config"

definition seconds :: "int \<Rightarrow> int" where "seconds n = n * 1000000000"

text \<open>\<open>fmt.Sprintf("consumer-%d", time.Now().UnixNano() % 1e6)\<close>; the remainder has the dividend's sign.\<close>

definition default_consumer :: "int \<Rightarrow> string" where
  "default_consumer now = ''consumer-'' @ itoa (sgn now * (\<bar>now\<bar> mod 1000000))"

definition consumer_defaults :: "int \<Rightarrow> mode \<Rightarrow> 'c consumer_config \<Rightarrow> 'c consumer_config" where
  "consumer_defaults now m cfg =
     (let c1 = cfg\<lparr>cc_mode := m\<rparr>;
          c2 = (if cc_block c1 = 0 then c1\<lparr>cc_block := seconds 5\<rparr> else c1);
          c3 = (if cc_count c2 = 0 then c2\<lparr>cc_count := 10\<rparr> else c2);
          c4 = (if cc_claim_min_idle c3 = 0 then c3\<lparr>cc_claim_min_idle := seconds 30\<rparr> else c3)
      in if cc_consumer c4 = [] then c4\<lparr>cc_consumer := default_consumer now\<rparr> else c4)"

definition NewConsumer :: "int \<Rightarrow> 'c consumer_config \<Rightarrow> config_error + 'c consumer" where
  "NewConsumer now cfg =
     bind_res (parseMode (cc_mode cfg)) (\<lambda>m.
       if cc_addresses cfg = [] then Inl NoAddresses
       else if m = ModeStreams \<and> cc_group cfg = [] then Inl GroupRequired
       else
         let cfg' = consumer_defaults now m cfg in
         case cc_client cfg' of
           Some c \<Rightarrow> Inr \<lparr>con_client = Given c, con_own = False, con_cfg = cfg'\<rparr>
         | None \<Rightarrow>
             if cc_addr cfg' = [] then Inl AddrRequired
             else Inr \<lparr>con_client = Dialled (newClient (cc_addr cfg') (cc_security cfg')),
                       con_own = True, con_cfg = cfg'\<rparr>)"

section \<open>Stream entries and envelopes\<close>

text \<open>A value of a \<open>map[string]any\<close>: \<open>VOther\<close> carries what \<open>fmt.Sprint\<close> prints for it.\<close>

datatype gval = VStr string | VBytes bytes | VNil | VOther string

fun str :: "gval \<Rightarrow> string" where
  "str (VStr t) = t"
| "str (VBytes t) = t"
| "str VNil = []"
| "str (VOther t) = t"

definition lookup_val :: "gval smap \<Rightarrow> string \<Rightarrow> gval" where
  "lookup_val m k = (case map_of m k of None \<Rightarrow> VNil | Some v \<Rightarrow> v)"

definition fieldPayload :: string where "fieldPayload = ''payload''"
definition fieldContentType :: string where "fieldContentType = ''content_type''"
definition fieldKey :: string where "fieldKey = ''key''"
definition fieldHeaderPrefix :: string where "fieldHeaderPrefix = ''h.''"

lemmas field_defs = fieldPayload_def fieldContentType_def fieldKey_def fieldHeaderPrefix_def

definition streamValues :: "outgoing \<Rightarrow> gval smap" where
  "streamValues out =
     (let v0 = smap_set (smap_set [] fieldPayload (VBytes (bytes_of (out_body out))))
                 fieldContentType (VStr (out_content_type out));
          v1 = (if out_key out \<noteq> [] then smap_set v0 fieldKey (VStr (out_key out)) else v0)
      in fold (\<lambda>(k, v) m. smap_set m (fieldHeaderPrefix @ k) (VStr v)) (out_headers out) v1)"

record envelope =
  env_payload :: "bytes option"
  env_content_type :: string
  env_key :: string
  env_headers :: "string smap"

definition envelope_of :: "outgoing \<Rightarrow> envelope" where
  "envelope_of out = \<lparr>env_payload = out_body out, env_content_type = out_content_type out,
     env_key = out_key out, env_headers = out_headers out\<rparr>"

definition json_of_envelope :: "envelope \<Rightarrow> json" where
  "json_of_envelope e = JObj
     ([(''payload'', case env_payload e of None \<Rightarrow> JNull | Some b \<Rightarrow> JStr (b64_encode b)),
       (''content_type'', JStr (env_content_type e))]
      @ (if env_key e \<noteq> [] then [(''key'', JStr (env_key e))] else [])
      @ (if env_headers e \<noteq> [] then [(''headers'', json_of_map (env_headers e))] else []))"

definition encodePubSubEnvelope :: "outgoing \<Rightarrow> string" where
  "encodePubSubEnvelope out = render (json_of_envelope (envelope_of out))"

text \<open>
  Decoding into the \<open>[]byte\<close> field: \<open>null\<close> is a nil slice, a string is base64, an array is read
  element by element over what the slice held.
\<close>

fun read_byte_elems :: "bytes \<Rightarrow> json list \<Rightarrow> bytes option" where
  "read_byte_elems old [] = Some []"
| "read_byte_elems old (v # vs) =
     (case (case v of
              JNum t \<Rightarrow> (case parse_uint 8 t of Inr n \<Rightarrow> Some (chr_of n) | Inl _ \<Rightarrow> None)
            | JNull \<Rightarrow> Some (case old of [] \<Rightarrow> chr_of 0 | b # _ \<Rightarrow> b)
            | _ \<Rightarrow> None) of
        None \<Rightarrow> None
      | Some b \<Rightarrow> map_option (Cons b) (read_byte_elems (drop 1 old) vs))"

definition read_bytes :: "bytes option \<Rightarrow> json \<Rightarrow> bytes option option" where
  "read_bytes old v = (case v of
       JNull \<Rightarrow> Some None
     | JStr t \<Rightarrow> map_option Some (b64_decode t)
     | JArr vs \<Rightarrow> map_option Some (read_byte_elems (bytes_of old) vs)
     | _ \<Rightarrow> None)"

definition read_string :: "string \<Rightarrow> json \<Rightarrow> string option" where
  "read_string old v = (case v of JNull \<Rightarrow> Some old | JStr t \<Rightarrow> Some t | _ \<Rightarrow> None)"

fun read_envelope_members :: "envelope \<Rightarrow> (string \<times> json) list \<Rightarrow> envelope option" where
  "read_envelope_members e [] = Some e"
| "read_envelope_members e ((k, v) # ms) =
     (let e' =
        (if same_field ''payload'' k then
           map_option (\<lambda>b. e\<lparr>env_payload := b\<rparr>) (read_bytes (env_payload e) v)
         else if same_field ''content_type'' k then
           map_option (\<lambda>t. e\<lparr>env_content_type := t\<rparr>) (read_string (env_content_type e) v)
         else if same_field ''key'' k then
           map_option (\<lambda>t. e\<lparr>env_key := t\<rparr>) (read_string (env_key e) v)
         else if same_field ''headers'' k then
           map_option (\<lambda>h. e\<lparr>env_headers := h\<rparr>) (read_map (env_headers e) v)
         else Some e)
      in case e' of None \<Rightarrow> None | Some e'' \<Rightarrow> read_envelope_members e'' ms)"

definition zero_envelope :: envelope where
  "zero_envelope = \<lparr>env_payload = None, env_content_type = [], env_key = [], env_headers = []\<rparr>"

definition unmarshal_envelope :: "string \<Rightarrow> envelope option" where
  "unmarshal_envelope payload = (case parse_json payload of
       None \<Rightarrow> None
     | Some JNull \<Rightarrow> Some zero_envelope
     | Some (JObj ms) \<Rightarrow> read_envelope_members zero_envelope ms
     | Some _ \<Rightarrow> None)"

record xmessage =
  xm_id :: string
  xm_values :: "gval smap"

text \<open>The two implementations of \<open>broker.Incoming\<close>.\<close>

datatype incoming =
    StreamIncoming string string xmessage
  | PubsubIncoming string envelope

definition decodePubSubEnvelope :: "string \<Rightarrow> string \<Rightarrow> incoming option" where
  "decodePubSubEnvelope channel payload = map_option (PubsubIncoming channel) (unmarshal_envelope payload)"

fun Topic :: "incoming \<Rightarrow> string" where
  "Topic (StreamIncoming grp stream entry) = stream"
| "Topic (PubsubIncoming channel e) = channel"

fun Key :: "incoming \<Rightarrow> bytes" where
  "Key (StreamIncoming grp stream entry) = str (lookup_val (xm_values entry) fieldKey)"
| "Key (PubsubIncoming channel e) = env_key e"

fun ContentType :: "incoming \<Rightarrow> string" where
  "ContentType (StreamIncoming grp stream entry) = str (lookup_val (xm_values entry) fieldContentType)"
| "ContentType (PubsubIncoming channel e) = env_content_type e"

fun Header :: "incoming \<Rightarrow> string \<Rightarrow> string" where
  "Header (StreamIncoming grp stream entry) k = str (lookup_val (xm_values entry) (fieldHeaderPrefix @ k))"
| "Header (PubsubIncoming channel e) k = (case map_of (env_headers e) k of None \<Rightarrow> [] | Some v \<Rightarrow> v)"

fun HeaderNames :: "incoming \<Rightarrow> string list" where
  "HeaderNames (StreamIncoming grp stream entry) =
     map (\<lambda>k. trim_prefix k fieldHeaderPrefix)
       (filter (\<lambda>k. has_prefix k fieldHeaderPrefix) (map fst (xm_values entry)))"
| "HeaderNames (PubsubIncoming channel e) = map fst (env_headers e)"

fun Body :: "incoming \<Rightarrow> bytes option" where
  "Body (StreamIncoming grp stream entry) =
     (case lookup_val (xm_values entry) fieldPayload of
        VStr v \<Rightarrow> Some v | VBytes v \<Rightarrow> Some v | _ \<Rightarrow> None)"
| "Body (PubsubIncoming channel e) = env_payload e"

lemma HeaderNames_listed: "Header m k \<noteq> [] \<Longrightarrow> k \<in> set (HeaderNames m)"
proof (cases m)
  case (StreamIncoming grp stream entry)
  assume "Header m k \<noteq> []"
  then obtain v where "map_of (xm_values entry) (fieldHeaderPrefix @ k) = Some v"
    by (auto simp: StreamIncoming lookup_val_def split: option.splits)
  then have "fieldHeaderPrefix @ k \<in> fst ` set (xm_values entry)"
    by (force dest: map_of_SomeD)
  then have "fieldHeaderPrefix @ k \<in> set (filter (\<lambda>k. has_prefix k fieldHeaderPrefix) (map fst (xm_values entry)))"
    by auto
  from imageI [OF this, of "\<lambda>k. trim_prefix k fieldHeaderPrefix"]
  show ?thesis by (simp add: StreamIncoming)
next
  case (PubsubIncoming channel e)
  assume "Header m k \<noteq> []"
  then obtain v where "map_of (env_headers e) k = Some v"
    by (auto simp: PubsubIncoming split: option.splits)
  then show ?thesis by (force simp: PubsubIncoming dest: map_of_SomeD)
qed

interpretation redis_in: incoming_message Header HeaderNames
  by unfold_locales (rule HeaderNames_listed)

text \<open>
  Whichever Redis form a message arrives in, copying the headers it lists gives a map in which
  every lookup answers what \<open>Header\<close> answers, the empty string for a missing name included.
\<close>

lemma incoming_headers_complete:
  "(case map_of (redis_in.header_map m) k of None \<Rightarrow> [] | Some v \<Rightarrow> v) = Header m k"
  by (rule redis_in.header_map_complete)

lemma map_of_prefixed:
  "distinct (map fst hs) \<Longrightarrow>
   map_of (fold (\<lambda>(k, v) m. smap_set m (p @ k) (VStr v)) hs m0) (p @ x) =
     (case map_of hs x of Some v \<Rightarrow> Some (VStr v) | None \<Rightarrow> map_of m0 (p @ x))"
proof (induction hs arbitrary: m0)
  case Nil
  then show ?case by simp
next
  case (Cons kv hs)
  obtain k v where kv: "kv = (k, v)" by (cases kv)
  have "map_of hs k = None" using Cons.prems by (simp add: kv map_of_eq_None_iff)
  then show ?case using Cons.IH Cons.prems by (auto simp: kv split: option.splits)
qed

lemma map_of_unprefixed:
  "\<not> has_prefix x p \<Longrightarrow>
   map_of (fold (\<lambda>(k, v) m. smap_set m (p @ k) (VStr v)) hs m0) x = map_of m0 x"
  by (induction hs arbitrary: m0) (auto simp: has_prefix_iff)

lemma field_prefix [simp]:
  "\<not> has_prefix fieldPayload fieldHeaderPrefix" "\<not> has_prefix fieldContentType fieldHeaderPrefix"
  "\<not> has_prefix fieldKey fieldHeaderPrefix"
  by (simp_all add: field_defs has_prefix_def)

lemma field_distinct [simp]:
  "fieldPayload \<noteq> fieldContentType" "fieldContentType \<noteq> fieldPayload" "fieldPayload \<noteq> fieldKey"
  "fieldKey \<noteq> fieldPayload" "fieldContentType \<noteq> fieldKey" "fieldKey \<noteq> fieldContentType"
  "fieldHeaderPrefix @ k \<noteq> fieldPayload" "fieldHeaderPrefix @ k \<noteq> fieldContentType"
  "fieldHeaderPrefix @ k \<noteq> fieldKey"
  by (simp_all add: field_defs)

lemma streamValues_lookup:
  assumes "distinct (map fst (out_headers out))"
  shows "map_of (streamValues out) fieldPayload = Some (VBytes (bytes_of (out_body out)))"
    and "map_of (streamValues out) fieldContentType = Some (VStr (out_content_type out))"
    and "map_of (streamValues out) fieldKey =
           (if out_key out = [] then None else Some (VStr (out_key out)))"
    and "map_of (streamValues out) (fieldHeaderPrefix @ k) = map_option VStr (map_of (out_headers out) k)"
  using assms
  by (simp_all add: streamValues_def Let_def map_of_unprefixed map_of_prefixed split: option.splits)

lemma HeaderNames_stream:
  "k \<in> set (HeaderNames (StreamIncoming grp stream entry)) \<longleftrightarrow>
   map_of (xm_values entry) (fieldHeaderPrefix @ k) \<noteq> None"
proof -
  have "k \<in> set (HeaderNames (StreamIncoming grp stream entry)) \<longleftrightarrow>
      (\<exists>f \<in> fst ` set (xm_values entry). has_prefix f fieldHeaderPrefix \<and> k = trim_prefix f fieldHeaderPrefix)"
    by auto
  also have "\<dots> \<longleftrightarrow> fieldHeaderPrefix @ k \<in> fst ` set (xm_values entry)"
  proof
    assume "\<exists>f \<in> fst ` set (xm_values entry). has_prefix f fieldHeaderPrefix \<and> k = trim_prefix f fieldHeaderPrefix"
    then obtain f where f: "f \<in> fst ` set (xm_values entry)" "has_prefix f fieldHeaderPrefix"
      and k: "k = trim_prefix f fieldHeaderPrefix" by blast
    obtain t where t: "f = fieldHeaderPrefix @ t" using f(2) has_prefix_iff by blast
    then have "k = t" using k by simp
    then show "fieldHeaderPrefix @ k \<in> fst ` set (xm_values entry)" using f(1) t by simp
  next
    assume a: "fieldHeaderPrefix @ k \<in> fst ` set (xm_values entry)"
    show "\<exists>f \<in> fst ` set (xm_values entry). has_prefix f fieldHeaderPrefix \<and> k = trim_prefix f fieldHeaderPrefix"
      by (rule bexI [OF _ a]) simp
  qed
  also have "\<dots> \<longleftrightarrow> map_of (xm_values entry) (fieldHeaderPrefix @ k) \<noteq> None"
    by (simp add: map_of_eq_None_iff)
  finally show ?thesis .
qed

text \<open>
  What a stream holds after \<open>XADD\<close>: Redis keeps every field value as its bytes, and the client
  returns them as strings.
\<close>

definition stored_as :: "gval smap \<Rightarrow> gval smap \<Rightarrow> bool" where
  "stored_as sent got \<longleftrightarrow> map_of got = (\<lambda>k. map_option (\<lambda>v. VStr (str v)) (map_of sent k))"

text \<open>
  C7: a message published to a stream and read back offers the consumer the same topic, key,
  content type, header values, header names and body, whatever the headers are called: the prefix
  keeps them apart from the payload, content type and key fields.
\<close>

lemma stream_roundtrip:
  assumes d: "distinct (map fst (out_headers out))"
    and s: "stored_as (streamValues out) (xm_values entry)"
  shows "let m = StreamIncoming grp (out_topic out) entry in
     Topic m = out_topic out \<and> Key m = out_key out \<and> ContentType m = out_content_type out
     \<and> Body m = Some (bytes_of (out_body out))
     \<and> (\<forall>k. Header m k = (case map_of (out_headers out) k of None \<Rightarrow> [] | Some v \<Rightarrow> v))
     \<and> (\<forall>k. k \<in> set (HeaderNames m) \<longleftrightarrow> map_of (out_headers out) k \<noteq> None)"
  using s streamValues_lookup [OF d]
  by (simp add: Let_def stored_as_def lookup_val_def HeaderNames_stream del: HeaderNames.simps
      split: option.splits)

lemma stream_roundtrip_witness:
  "let out = \<lparr>out_topic = ''lights'', out_key = ''k'', out_content_type = ''application/json'',
              out_headers = [(''payload'', ''x'')], out_body = Some ''{}''\<rparr>;
       m = StreamIncoming ''g'' ''lights'' \<lparr>xm_id = ''1-0'', xm_values =
             map (\<lambda>(k, v). (k, VStr (str v))) (streamValues out)\<rparr>
   in Body m = Some ''{}'' \<and> Header m ''payload'' = ''x''"
proof -
  define out where "out = \<lparr>out_topic = ''lights'', out_key = ''k'', out_content_type = ''application/json'',
              out_headers = [(''payload'', ''x'')], out_body = Some ''{}''\<rparr>"
  define entry where "entry = \<lparr>xm_id = ''1-0'', xm_values = map (\<lambda>(k, v). (k, VStr (str v))) (streamValues out)\<rparr>"
  have "map_of (map (\<lambda>(k, v). (k, VStr (str v))) l) = (\<lambda>k. map_option (\<lambda>v. VStr (str v)) (map_of l k))" for l
    by (induction l) auto
  then have s: "stored_as (streamValues out) (xm_values entry)" by (simp add: stored_as_def entry_def)
  have sel: "out_topic out = ''lights''" "out_headers out = [(''payload'', ''x'')]" "out_body out = Some ''{}''"
    by (simp_all add: out_def)
  then have d: "distinct (map fst (out_headers out))" by simp
  have "Body (StreamIncoming ''g'' ''lights'' entry) = Some ''{}''
      \<and> Header (StreamIncoming ''g'' ''lights'' entry) ''payload'' = ''x''"
    using stream_roundtrip [OF d s, of "''g''"] unfolding Let_def sel by (simp del: Body.simps Header.simps)
  then show ?thesis unfolding Let_def out_def entry_def .
qed

text \<open>The decoder recognises each field by its exact name and by no other.\<close>

lemma same_field_exact [simp]:
  "same_field ''payload'' ''payload''" "same_field ''content_type'' ''content_type''"
  "same_field ''key'' ''key''" "same_field ''headers'' ''headers''"
  "\<not> same_field ''payload'' ''content_type''" "\<not> same_field ''payload'' ''key''"
  "\<not> same_field ''payload'' ''headers''" "\<not> same_field ''content_type'' ''key''"
  "\<not> same_field ''content_type'' ''headers''" "\<not> same_field ''key'' ''headers''"
  by (simp_all add: same_field_def fold_rune_def)

definition valid_outgoing :: "outgoing \<Rightarrow> bool" where
  "valid_outgoing out \<longleftrightarrow> valid_utf8 (out_content_type out) \<and> valid_utf8 (out_key out)
     \<and> valid_strings (out_headers out)"

lemma sanitize_envelope:
  assumes "valid_outgoing out"
  shows "sanitize_json (json_of_envelope (envelope_of out)) = json_of_envelope (envelope_of out)"
proof -
  have v: "valid_utf8 ''payload''" "valid_utf8 ''content_type''" "valid_utf8 ''key''"
    "valid_utf8 ''headers''"
    by (rule valid_utf8_ascii, simp)+
  then show ?thesis
    using assms
    by (auto simp: json_of_envelope_def envelope_of_def valid_outgoing_def sanitize_valid
        sanitize_json_of_map split: option.splits)
qed

lemma plain_envelope: "plain max_depth (json_of_envelope e)"
  by (auto simp: json_of_envelope_def max_depth_def numeral_eq_Suc plain_json_of_map split: option.splits)

lemma unmarshal_envelope_of:
  assumes "valid_outgoing out"
  shows "\<exists>h. unmarshal_envelope (encodePubSubEnvelope out) = Some ((envelope_of out)\<lparr>env_headers := h\<rparr>)
    \<and> map_of h = map_of (out_headers out)"
proof -
  obtain h where h: "read_map [] (json_of_map (out_headers out)) = Some h" "map_of h = map_of (out_headers out)"
    using read_json_of_map by blast
  have "parse_json (encodePubSubEnvelope out) = Some (json_of_envelope (envelope_of out))"
    unfolding encodePubSubEnvelope_def
    using parse_json_render [OF plain_envelope] sanitize_envelope [OF assms] by simp
  moreover have "\<exists>h. read_envelope_members zero_envelope ms = Some ((envelope_of out)\<lparr>env_headers := h\<rparr>)
      \<and> map_of h = map_of (out_headers out)"
    if "json_of_envelope (envelope_of out) = JObj ms" for ms
    using that h
    by (auto simp: json_of_envelope_def envelope_of_def zero_envelope_def read_bytes_def
        read_string_def b64_decode_encode split: option.splits if_splits)
  ultimately show ?thesis
    by (auto simp: unmarshal_envelope_def json_of_envelope_def)
qed
text \<open>
  C20: a message published in pub/sub mode and decoded by a consumer offers the same topic, key,
  content type, header values and body (nil and empty bodies stay apart), when its strings are
  valid UTF-8: the JSON envelope loses nothing of them.
\<close>

lemma pubsub_roundtrip:
  assumes "valid_outgoing out"
  shows "\<exists>m. decodePubSubEnvelope (out_topic out) (encodePubSubEnvelope out) = Some m
     \<and> Topic m = out_topic out \<and> Key m = out_key out \<and> ContentType m = out_content_type out
     \<and> Body m = out_body out
     \<and> (\<forall>k. Header m k = (case map_of (out_headers out) k of None \<Rightarrow> [] | Some v \<Rightarrow> v))"
proof -
  obtain h where "unmarshal_envelope (encodePubSubEnvelope out) = Some ((envelope_of out)\<lparr>env_headers := h\<rparr>)"
    "map_of h = map_of (out_headers out)"
    using unmarshal_envelope_of [OF assms] by blast
  then show ?thesis by (simp add: decodePubSubEnvelope_def envelope_of_def)
qed

lemma pubsub_roundtrip_witness:
  "\<exists>m. decodePubSubEnvelope ''c'' (encodePubSubEnvelope \<lparr>out_topic = ''c'', out_key = [],
        out_content_type = ''text/plain'', out_headers = [(''h'', ''<v>'')], out_body = Some ''hi''\<rparr>) = Some m
     \<and> Body m = Some ''hi'' \<and> Header m ''h'' = ''<v>''"
proof -
  have "valid_outgoing \<lparr>out_topic = ''c'', out_key = [], out_content_type = ''text/plain'',
      out_headers = [(''h'', ''<v>'')], out_body = Some ''hi''\<rparr>"
    by (simp add: valid_outgoing_def valid_strings_def valid_utf8_ascii)
  from pubsub_roundtrip [OF this] show ?thesis by (auto simp del: Body.simps Header.simps)
qed

lemma parseMode_ok: "parseMode m = Inr m' \<Longrightarrow> m' = ModeStreams \<or> m' = ModePubSub"
  by (auto simp: parseMode_def split: if_splits)

lemma consumer_defaults_simps [simp]:
  "cc_mode (consumer_defaults now m cfg) = m"
  "cc_addr (consumer_defaults now m cfg) = cc_addr cfg"
  "cc_addresses (consumer_defaults now m cfg) = cc_addresses cfg"
  "cc_group (consumer_defaults now m cfg) = cc_group cfg"
  "cc_client (consumer_defaults now m cfg) = cc_client cfg"
  "cc_max_deliveries (consumer_defaults now m cfg) = cc_max_deliveries cfg"
  "cc_dead_letter (consumer_defaults now m cfg) = cc_dead_letter cfg"
  "cc_block (consumer_defaults now m cfg) = (if cc_block cfg = 0 then seconds 5 else cc_block cfg)"
  "cc_count (consumer_defaults now m cfg) = (if cc_count cfg = 0 then 10 else cc_count cfg)"
  "cc_claim_min_idle (consumer_defaults now m cfg) =
     (if cc_claim_min_idle cfg = 0 then seconds 30 else cc_claim_min_idle cfg)"
  "cc_consumer (consumer_defaults now m cfg) =
     (if cc_consumer cfg = [] then default_consumer now else cc_consumer cfg)"
  by (simp_all add: consumer_defaults_def Let_def)

lemma NewConsumer_Inr:
  assumes "NewConsumer now cfg = Inr c"
  obtains m where "parseMode (cc_mode cfg) = Inr m" "cc_addresses cfg \<noteq> []"
    "m = ModeStreams \<Longrightarrow> cc_group cfg \<noteq> []" "con_cfg c = consumer_defaults now m cfg"
    "con_own c \<longleftrightarrow> cc_client cfg = None"
  using assms by (auto simp: NewConsumer_def Let_def split: if_splits option.splits)

text \<open>
  A consumer that \<open>NewConsumer\<close> accepts has a known mode, at least one address, a group in
  streams mode, non-zero block time, batch size and idle time, and a non-empty consumer name; what
  the caller did set is kept.
\<close>

lemma new_consumer_config_ok:
  assumes "NewConsumer now cfg = Inr c"
  shows "(cc_mode (con_cfg c) = ModeStreams \<or> cc_mode (con_cfg c) = ModePubSub)
     \<and> cc_addresses (con_cfg c) = cc_addresses cfg \<and> cc_addresses cfg \<noteq> []
     \<and> (cc_mode (con_cfg c) = ModeStreams \<longrightarrow> cc_group (con_cfg c) \<noteq> [])
     \<and> cc_block (con_cfg c) = (if cc_block cfg = 0 then seconds 5 else cc_block cfg)
     \<and> cc_count (con_cfg c) = (if cc_count cfg = 0 then 10 else cc_count cfg)
     \<and> cc_claim_min_idle (con_cfg c) =
           (if cc_claim_min_idle cfg = 0 then seconds 30 else cc_claim_min_idle cfg)
     \<and> cc_consumer (con_cfg c) \<noteq> []
     \<and> (con_own c \<longleftrightarrow> cc_client cfg = None)"
proof -
  obtain m where "parseMode (cc_mode cfg) = Inr m" "cc_addresses cfg \<noteq> []"
    "m = ModeStreams \<Longrightarrow> cc_group cfg \<noteq> []" "con_cfg c = consumer_defaults now m cfg"
    "con_own c \<longleftrightarrow> cc_client cfg = None"
    using NewConsumer_Inr [OF assms] by blast
  then show ?thesis using parseMode_ok by (simp add: default_consumer_def)
qed

lemma new_consumer_config_ok_witness:
  "\<exists>c. NewConsumer 7 \<lparr>cc_addr = ''a:1'', cc_mode = [], cc_addresses = [''s''], cc_group = ''g'',
       cc_consumer = [], cc_security = \<lparr>sec_username = [], sec_password = [], sec_tls = True,
       sec_insecure = False\<rparr>, cc_block = 0, cc_count = 3, cc_claim_min_idle = 0, cc_max_deliveries = 0,
       cc_dead_letter = False, cc_on_error = False, cc_client = (None :: nat option)\<rparr> = Inr c
     \<and> cc_block (con_cfg c) = seconds 5 \<and> cc_count (con_cfg c) = 3"
proof -
  define cfg where "cfg = \<lparr>cc_addr = ''a:1'', cc_mode = [], cc_addresses = [''s''], cc_group = ''g'',
       cc_consumer = [], cc_security = \<lparr>sec_username = [], sec_password = [], sec_tls = True,
       sec_insecure = False\<rparr>, cc_block = 0, cc_count = 3, cc_claim_min_idle = 0, cc_max_deliveries = 0,
       cc_dead_letter = False, cc_on_error = False, cc_client = (None :: nat option)\<rparr>"
  have "\<exists>c. NewConsumer 7 cfg = Inr c"
    by (simp add: cfg_def NewConsumer_def parseMode_def consumer_defaults_def Let_def ModeStreams_def)
  then obtain c where c: "NewConsumer 7 cfg = Inr c" ..
  have "cc_block cfg = 0" "cc_count cfg = 3" by (simp_all add: cfg_def)
  then show ?thesis
    using c new_consumer_config_ok [OF c] unfolding cfg_def [symmetric] by (intro exI [of _ c]) simp
qed
end
