(* ===== verification/RedisRun.thy ===== *)
theory RedisRun
  imports Redis
begin

text \<open>
  The running half of runtime/redis/redis.go: publishing, the start of a streams consumer, the read
  loop, the reclaimer, dead letters, the pub/sub loop, and the interleaving of read loop and
  reclaimer that \<open>runStreams\<close> starts. A loop is a step iterated a number of times; what is proved
  holds after every number of iterations and for every environment.
\<close>

section \<open>Environment and trace\<close>

datatype client_error = RedisNil | CErr string

fun client_error_text :: "client_error \<Rightarrow> string" where
  "client_error_text RedisNil = ''redis: nil''"
| "client_error_text (CErr t) = t"

datatype run_error =
    CtxErr string
  | CreateGroup string string client_error
  | XReadGroupErr client_error
  | XAutoClaimErr client_error
  | DeadLetterErr client_error
  | DispatchErr string string string
  | RedeliverErr string string string
  | PSubscribeErr client_error
  | DecodeMessageErr
  | PubSubDispatchErr string string
  | InvalidRunMode mode
  | PublishErr client_error

record xadd_args =
  xa_stream :: string
  xa_max_len :: int
  xa_values :: "gval smap"

record read_args =
  ra_group :: string
  ra_consumer :: string
  ra_streams :: "string list"
  ra_count :: int
  ra_block :: int

record claim_args =
  ca_stream :: string
  ca_group :: string
  ca_consumer :: string
  ca_min_idle :: int
  ca_start :: string
  ca_count :: int

type_synonym read_reply = "(string \<times> xmessage list) list"

text \<open>What \<open>select\<close> on the context and the subscription's channel yields.\<close>

datatype next_msg = CtxDone | Closed | Msg string string

datatype event =
    EPublish string string
  | EXAdd xadd_args "client_error option"
  | EXAck string string string
  | EGroup string string string "client_error option"
  | ERead read_args "client_error + read_reply"
  | EClaim claim_args
  | EDispatch incoming
  | ERedeliver incoming
  | EOnError run_error
  | EReady
  | ESleep int
  | ESubscribe "string list"
  | ENext next_msg
  | ECtx "string option"

record 's environment =
  f_publish :: "string \<Rightarrow> string \<Rightarrow> 's \<Rightarrow> client_error option \<times> 's"
  f_xadd :: "xadd_args \<Rightarrow> 's \<Rightarrow> client_error option \<times> 's"
  f_xack :: "string \<Rightarrow> string \<Rightarrow> string \<Rightarrow> 's \<Rightarrow> client_error option \<times> 's"
  f_xgroup :: "string \<Rightarrow> string \<Rightarrow> string \<Rightarrow> 's \<Rightarrow> client_error option \<times> 's"
  f_xread :: "read_args \<Rightarrow> 's \<Rightarrow> (client_error + read_reply) \<times> 's"
  f_claim :: "claim_args \<Rightarrow> 's \<Rightarrow> (client_error + xmessage list \<times> string) \<times> 's"
  f_subscribe :: "string list \<Rightarrow> 's \<Rightarrow> client_error option \<times> 's"
  f_next :: "'s \<Rightarrow> next_msg \<times> 's"
  f_ctx :: "'s \<Rightarrow> string option \<times> 's"
  f_dispatch :: "incoming \<Rightarrow> 's \<Rightarrow> string option \<times> 's"
  f_on_error :: "run_error \<Rightarrow> 's \<Rightarrow> unit \<times> 's"
  f_sleep :: "int \<Rightarrow> 's \<Rightarrow> unit \<times> 's"

record 's world =
  w_state :: 's
  w_trace :: "event list"
  w_ready :: bool

definition perform :: "('s \<Rightarrow> 'r \<times> 's) \<Rightarrow> ('r \<Rightarrow> event) \<Rightarrow> 's world \<Rightarrow> 'r \<times> 's world" where
  "perform f ev w = (case f (w_state w) of
     (r, s') \<Rightarrow> (r, w\<lparr>w_state := s', w_trace := w_trace w @ [ev r]\<rparr>))"

lemma perform_trace [simp]: "w_trace (snd (perform f ev w)) = w_trace w @ [ev (fst (perform f ev w))]"
  by (simp add: perform_def split: prod.splits)

lemma perform_eq_trace: "perform f ev w = (r, w') \<Longrightarrow> w_trace w' = w_trace w @ [ev r] \<and> w_ready w' = w_ready w"
  by (auto simp: perform_def split: prod.splits)

section \<open>Publishing\<close>

definition publish_args :: "'c publisher \<Rightarrow> outgoing \<Rightarrow> xadd_args" where
  "publish_args p out = \<lparr>xa_stream = out_topic out,
     xa_max_len = (if 0 < pub_max_len p then pub_max_len p else 0), xa_values = streamValues out\<rparr>"

definition report_pub :: "'s environment \<Rightarrow> 'c publisher \<Rightarrow> client_error option \<Rightarrow> 's world \<Rightarrow> 's world" where
  "report_pub env p err w =
     (case err of
        Some e \<Rightarrow> if pub_on_error p
                  then snd (perform (f_on_error env (PublishErr e)) (\<lambda>_. EOnError (PublishErr e)) w)
                  else w
      | None \<Rightarrow> w)"

definition Publish :: "'s environment \<Rightarrow> 'c publisher \<Rightarrow> outgoing \<Rightarrow> 's world \<Rightarrow> client_error option \<times> 's world" where
  "Publish env p out w =
     (let (err, w1) =
        (if pub_mode p = ModePubSub then
           perform (f_publish env (out_topic out) (encodePubSubEnvelope out))
             (\<lambda>_. EPublish (out_topic out) (encodePubSubEnvelope out)) w
         else perform (f_xadd env (publish_args p out)) (EXAdd (publish_args p out)) w)
      in (err, report_pub env p err w1))"

section \<open>Loops\<close>

text \<open>\<open>for { body }\<close>: the body runs up to \<open>n\<close> times, until it returns a value.\<close>

fun run_loop :: "nat \<Rightarrow> ('a \<Rightarrow> 'r option \<times> 'a) \<Rightarrow> 'a \<Rightarrow> 'r option \<times> 'a" where
  "run_loop 0 body x = (None, x)"
| "run_loop (Suc n) body x = (case body x of (Some r, y) \<Rightarrow> (Some r, y) | (None, y) \<Rightarrow> run_loop n body y)"

lemma run_loop_invariant:
  assumes "I x" and "\<And>y r z. I y \<Longrightarrow> body y = (r, z) \<Longrightarrow> I z"
  shows "I (snd (run_loop n body x))"
  using assms(1)
proof (induction n arbitrary: x)
  case 0
  then show ?case by simp
next
  case (Suc n)
  obtain r y where b: "body x = (r, y)" by (cases "body x")
  then have "I y" using assms(2) Suc.prems by blast
  then show ?case using b Suc.IH by (cases r) simp_all
qed

text \<open>A loop that has returned does not depend on how many more iterations it was allowed.\<close>

lemma run_loop_more: "run_loop n body x = (Some r, y) \<Longrightarrow> n \<le> m \<Longrightarrow> run_loop m body x = (Some r, y)"
proof (induction n arbitrary: x m)
  case 0
  then show ?case by simp
next
  case (Suc n)
  obtain m' where m: "m = Suc m'" using Suc.prems(2) by (cases m) auto
  obtain q z where b: "body x = (q, z)" by (cases "body x")
  then show ?case using Suc m by (cases q) auto
qed

section \<open>Streams consumer\<close>

definition onError :: "'s environment \<Rightarrow> 'c consumer_config \<Rightarrow> run_error \<Rightarrow> 's world \<Rightarrow> 's world" where
  "onError env cfg e w =
     (if cc_on_error cfg then snd (perform (f_on_error env e) (\<lambda>_. EOnError e) w) else w)"

definition markReady :: "'s world \<Rightarrow> 's world" where
  "markReady w = (if w_ready w then w else w\<lparr>w_ready := True, w_trace := w_trace w @ [EReady]\<rparr>)"

definition first_address :: "'c consumer_config \<Rightarrow> string" where
  "first_address cfg = hd (cc_addresses cfg)"

fun create_groups :: "'s environment \<Rightarrow> string \<Rightarrow> string list \<Rightarrow> 's world \<Rightarrow> run_error option \<times> 's world" where
  "create_groups env grp [] w = (None, w)"
| "create_groups env grp (a # as) w =
     (let (err, w1) = perform (f_xgroup env a grp ''0'') (EGroup a grp ''0'') w in
      case err of
        Some e \<Rightarrow>
          if \<not> contains_str (client_error_text e) ''BUSYGROUP'' then (Some (CreateGroup grp a e), w1)
          else create_groups env grp as w1
      | None \<Rightarrow> create_groups env grp as w1)"

definition dispatch_entry :: "'s environment \<Rightarrow> 'c consumer_config \<Rightarrow> string \<Rightarrow> xmessage \<Rightarrow> 's world \<Rightarrow> 's world" where
  "dispatch_entry env cfg stream entry w =
     (let m = StreamIncoming (cc_group cfg) stream entry;
          (err, w1) = perform (f_dispatch env m) (\<lambda>_. EDispatch m) w
      in case err of
           Some e \<Rightarrow> onError env cfg (DispatchErr stream (xm_id entry) e) w1
         | None \<Rightarrow> w1)"

definition dispatch_reply :: "'s environment \<Rightarrow> 'c consumer_config \<Rightarrow> read_reply \<Rightarrow> 's world \<Rightarrow> 's world" where
  "dispatch_reply env cfg reply w =
     fold (\<lambda>(stream, entries) w. fold (dispatch_entry env cfg stream) entries w) reply w"

definition read_request :: "'c consumer_config \<Rightarrow> read_args" where
  "read_request cfg = \<lparr>ra_group = cc_group cfg, ra_consumer = cc_consumer cfg,
     ra_streams = cc_addresses cfg @ [''>''], ra_count = cc_count cfg, ra_block = cc_block cfg\<rparr>"

text \<open>
  One iteration of \<open>readLoop\<close>. A context that has once reported an error keeps reporting it, so
  the two calls of \<open>ctx.Err()\<close> in \<open>if ctx.Err() != nil { return ctx.Err() }\<close> are one.
\<close>

definition read_step :: "'s environment \<Rightarrow> 'c consumer_config \<Rightarrow> 's world \<Rightarrow> run_error option \<times> 's world" where
  "read_step env cfg w =
     (let (c, w0) = perform (f_ctx env) ECtx w in
      case c of
        Some e \<Rightarrow> (Some (CtxErr e), w0)
      | None \<Rightarrow>
          (let (reply, w1) = perform (f_xread env (read_request cfg)) (ERead (read_request cfg)) w0 in
           case reply of
             Inl err \<Rightarrow>
               if err = RedisNil then (None, w1)
               else (case perform (f_ctx env) ECtx w1 of
                       (Some _, w2) \<Rightarrow> (None, w2)
                     | (None, w2) \<Rightarrow> (Some (XReadGroupErr err), w2))
           | Inr rs \<Rightarrow> (None, dispatch_reply env cfg rs w1)))"

definition readLoop :: "nat \<Rightarrow> 's environment \<Rightarrow> 'c consumer_config \<Rightarrow> 's world \<Rightarrow> run_error option \<times> 's world" where
  "readLoop n env cfg w = run_loop n (read_step env cfg) w"

section \<open>Reclaimer\<close>

definition dead_letter_values :: "string \<Rightarrow> xmessage \<Rightarrow> gval smap" where
  "dead_letter_values stream entry =
     smap_set
       (smap_set (fold (\<lambda>(k, v) m. smap_set m k v) (xm_values entry) [])
          ''dlq_source_id'' (VStr (xm_id entry)))
       ''dlq_source_stream'' (VStr stream)"

definition dead_letter_args :: "string \<Rightarrow> xmessage \<Rightarrow> xadd_args" where
  "dead_letter_args stream entry = \<lparr>xa_stream = stream @ ''.dlq'', xa_max_len = 0,
     xa_values = dead_letter_values stream entry\<rparr>"

definition deadLetter :: "'s environment \<Rightarrow> string \<Rightarrow> xmessage \<Rightarrow> 's world \<Rightarrow> client_error option \<times> 's world" where
  "deadLetter env stream entry w =
     perform (f_xadd env (dead_letter_args stream entry)) (EXAdd (dead_letter_args stream entry)) w"

text \<open>
  \<open>attempts\<close>, a Go map local to the reclaimer; a missing entry reads as 0. The counts are integers:
  an \<open>int64\<close> would wrap only after \<open>2^63\<close> deliveries of one entry.
\<close>

type_synonym attempts = "string \<rightharpoonup> int"

definition attempts_of :: "attempts \<Rightarrow> string \<Rightarrow> int" where
  "attempts_of att i = (case att i of None \<Rightarrow> 0 | Some n \<Rightarrow> n)"

definition give_up :: "'s environment \<Rightarrow> 'c consumer_config \<Rightarrow> xmessage \<Rightarrow> attempts \<times> 's world \<Rightarrow> attempts \<times> 's world" where
  "give_up env cfg entry = (\<lambda>(att, w).
     (att(xm_id entry := None),
      snd (perform (f_xack env (first_address cfg) (cc_group cfg) (xm_id entry))
             (\<lambda>_. EXAck (first_address cfg) (cc_group cfg) (xm_id entry)) w)))"

definition redeliver :: "'s environment \<Rightarrow> 'c consumer_config \<Rightarrow> xmessage \<Rightarrow> 's world \<Rightarrow> 's world" where
  "redeliver env cfg entry w =
     (let m = StreamIncoming (cc_group cfg) (first_address cfg) entry;
          (err, w1) = perform (f_dispatch env m) (\<lambda>_. ERedeliver m) w
      in case err of
           Some e \<Rightarrow> onError env cfg (RedeliverErr (first_address cfg) (xm_id entry) e) w1
         | None \<Rightarrow> w1)"

definition reclaim_entry :: "'s environment \<Rightarrow> 'c consumer_config \<Rightarrow> xmessage \<Rightarrow> attempts \<times> 's world \<Rightarrow> attempts \<times> 's world" where
  "reclaim_entry env cfg entry = (\<lambda>(att, w).
     (let a = attempts_of att (xm_id entry) + 1;
          att1 = att(xm_id entry \<mapsto> a)
      in if cc_max_deliveries cfg \<le> a then
           (if cc_dead_letter cfg then
              (case deadLetter env (first_address cfg) entry w of
                 (Some e, w1) \<Rightarrow> (att1, onError env cfg (DeadLetterErr e) w1)
               | (None, w1) \<Rightarrow> give_up env cfg entry (att1, w1))
            else give_up env cfg entry (att1, w))
         else (att1, redeliver env cfg entry w)))"

record 's reclaim_state =
  rs_cursor :: string
  rs_attempts :: attempts
  rs_world :: "'s world"

definition claim_request :: "'c consumer_config \<Rightarrow> string \<Rightarrow> claim_args" where
  "claim_request cfg cursor = \<lparr>ca_stream = first_address cfg, ca_group = cc_group cfg,
     ca_consumer = cc_consumer cfg, ca_min_idle = cc_claim_min_idle cfg, ca_start = cursor,
     ca_count = cc_count cfg\<rparr>"

definition sleep :: "'s environment \<Rightarrow> int \<Rightarrow> 's world \<Rightarrow> 's world" where
  "sleep env d w = snd (perform (f_sleep env d) (\<lambda>_. ESleep d) w)"

definition reclaim_step :: "'s environment \<Rightarrow> 'c consumer_config \<Rightarrow> 's reclaim_state \<Rightarrow> unit option \<times> 's reclaim_state" where
  "reclaim_step env cfg \<sigma> =
     (let (c, w0) = perform (f_ctx env) ECtx (rs_world \<sigma>) in
      case c of
        Some e \<Rightarrow> (Some (), \<sigma>\<lparr>rs_world := w0\<rparr>)
      | None \<Rightarrow>
          (let (reply, w1) = perform (f_claim env (claim_request cfg (rs_cursor \<sigma>)))
                               (\<lambda>_. EClaim (claim_request cfg (rs_cursor \<sigma>))) w0
           in case reply of
                Inl err \<Rightarrow>
                  (None, \<sigma>\<lparr>rs_world := sleep env (cc_block cfg) (onError env cfg (XAutoClaimErr err) w1)\<rparr>)
              | Inr (messages, next_cursor) \<Rightarrow>
                  (let (att, w2) = fold (reclaim_entry env cfg) messages (rs_attempts \<sigma>, w1)
                   in (None, \<lparr>rs_cursor = next_cursor, rs_attempts = att,
                        rs_world = (if messages = [] then sleep env (cc_block cfg) w2 else w2)\<rparr>))))"

definition runReclaimer :: "nat \<Rightarrow> 's environment \<Rightarrow> 'c consumer_config \<Rightarrow> 's world \<Rightarrow> unit option \<times> 's reclaim_state" where
  "runReclaimer n env cfg w =
     run_loop n (reclaim_step env cfg) \<lparr>rs_cursor = ''0-0'', rs_attempts = Map.empty, rs_world = w\<rparr>"

section \<open>Read loop and reclaimer together\<close>

text \<open>
  \<open>runStreams\<close> creates the groups, signals readiness, and runs the read loop beside the reclaimer
  (started only for a positive \<open>MaxDeliveries\<close>); it returns the read loop's error once the
  reclaimer has ended too. An interleaving is a sequence of iterations of either.
\<close>

datatype reclaimer = NotRunning | Running string attempts

record 's streams_state =
  ss_world :: "'s world"
  ss_read :: "run_error option"
  ss_reclaimer :: reclaimer

definition start_streams :: "'s environment \<Rightarrow> 'c consumer_config \<Rightarrow> 's world \<Rightarrow> run_error \<times> 's world + 's streams_state" where
  "start_streams env cfg w =
     (case create_groups env (cc_group cfg) (cc_addresses cfg) w of
        (Some e, w1) \<Rightarrow> Inl (e, w1)
      | (None, w1) \<Rightarrow> Inr \<lparr>ss_world = markReady w1, ss_read = None,
          ss_reclaimer = (if 0 < cc_max_deliveries cfg then Running ''0-0'' Map.empty else NotRunning)\<rparr>)"

inductive streams_step :: "'s environment \<Rightarrow> 'c consumer_config \<Rightarrow> 's streams_state \<Rightarrow> 's streams_state \<Rightarrow> bool"
  for env cfg where
  read_iteration:
    "ss_read \<sigma> = None \<Longrightarrow> read_step env cfg (ss_world \<sigma>) = (r, w) \<Longrightarrow>
     streams_step env cfg \<sigma> (\<sigma>\<lparr>ss_world := w, ss_read := r\<rparr>)"
| reclaim_iteration:
    "ss_reclaimer \<sigma> = Running cursor att \<Longrightarrow>
     reclaim_step env cfg \<lparr>rs_cursor = cursor, rs_attempts = att, rs_world = ss_world \<sigma>\<rparr> = (r, \<rho>) \<Longrightarrow>
     streams_step env cfg \<sigma>
       (\<sigma>\<lparr>ss_world := rs_world \<rho>,
          ss_reclaimer := (case r of None \<Rightarrow> Running (rs_cursor \<rho>) (rs_attempts \<rho>) | Some _ \<Rightarrow> NotRunning)\<rparr>)"

inductive_cases streams_stepE: "streams_step env cfg \<sigma> \<sigma>'"

inductive streams_reach :: "'s environment \<Rightarrow> 'c consumer_config \<Rightarrow> 's world \<Rightarrow> 's streams_state \<Rightarrow> bool"
  for env cfg w where
  reach_start: "start_streams env cfg w = Inr \<sigma> \<Longrightarrow> streams_reach env cfg w \<sigma>"
| reach_step: "streams_reach env cfg w \<sigma> \<Longrightarrow> streams_step env cfg \<sigma> \<sigma>' \<Longrightarrow> streams_reach env cfg w \<sigma>'"

text \<open>\<open>runStreams\<close> has returned, with this error, when neither loop runs any more.\<close>

definition streams_returned :: "'s streams_state \<Rightarrow> run_error option" where
  "streams_returned \<sigma> = (if ss_reclaimer \<sigma> = NotRunning then ss_read \<sigma> else None)"

section \<open>Pub/sub consumer\<close>

datatype pubsub_result = ReturnedErr run_error | ReturnedCtx "string option"

definition pubsub_step :: "'s environment \<Rightarrow> 'c consumer_config \<Rightarrow> 's world \<Rightarrow> pubsub_result option \<times> 's world" where
  "pubsub_step env cfg w =
     (let (nx, w1) = perform (f_next env) ENext w in
      case nx of
        CtxDone \<Rightarrow> (case perform (f_ctx env) ECtx w1 of (c, w2) \<Rightarrow> (Some (ReturnedCtx c), w2))
      | Closed \<Rightarrow> (case perform (f_ctx env) ECtx w1 of (c, w2) \<Rightarrow> (Some (ReturnedCtx c), w2))
      | Msg channel payload \<Rightarrow>
          (case decodePubSubEnvelope channel payload of
             None \<Rightarrow> (None, onError env cfg DecodeMessageErr w1)
           | Some m \<Rightarrow>
               (let (err, w2) = perform (f_dispatch env m) (\<lambda>_. EDispatch m) w1 in
                case err of
                  Some e \<Rightarrow> (None, onError env cfg (PubSubDispatchErr channel e) w2)
                | None \<Rightarrow> (None, w2))))"

definition runPubSub :: "nat \<Rightarrow> 's environment \<Rightarrow> 'c consumer_config \<Rightarrow> 's world \<Rightarrow> pubsub_result option \<times> 's world" where
  "runPubSub n env cfg w =
     (let (err, w1) = perform (f_subscribe env (cc_addresses cfg)) (\<lambda>_. ESubscribe (cc_addresses cfg)) w in
      case err of
        Some e \<Rightarrow> (Some (ReturnedErr (PSubscribeErr e)), w1)
      | None \<Rightarrow> run_loop n (pubsub_step env cfg) (markReady w1))"

text \<open>\<open>Run\<close> selects the loop by mode.\<close>

datatype run_kind = RunStreams | RunPubSub | RunInvalid run_error

definition run_kind_of :: "'c consumer_config \<Rightarrow> run_kind" where
  "run_kind_of cfg =
     (if cc_mode cfg = ModeStreams then RunStreams
      else if cc_mode cfg = ModePubSub then RunPubSub
      else RunInvalid (InvalidRunMode (cc_mode cfg)))"

section \<open>Read loop\<close>

text \<open>What a trace shows: the entries read, the messages dispatched, the acknowledgements.\<close>

fun entries_read :: "string \<Rightarrow> event list \<Rightarrow> incoming list" where
  "entries_read g [] = []"
| "entries_read g (ERead a (Inr reply) # es) =
     concat (map (\<lambda>(stream, entries). map (StreamIncoming g stream) entries) reply) @ entries_read g es"
| "entries_read g (e # es) = entries_read g es"

fun dispatched :: "event list \<Rightarrow> incoming list" where
  "dispatched [] = []"
| "dispatched (EDispatch m # es) = m # dispatched es"
| "dispatched (e # es) = dispatched es"

fun is_ack :: "event \<Rightarrow> bool" where
  "is_ack (EXAck s g i) = True"
| "is_ack e = False"

lemma entries_read_append [simp]: "entries_read g (xs @ ys) = entries_read g xs @ entries_read g ys"
  by (induction g xs rule: entries_read.induct) simp_all

lemma dispatched_append [simp]: "dispatched (xs @ ys) = dispatched xs @ dispatched ys"
  by (induction xs rule: dispatched.induct) simp_all

lemma onError_trace: "\<exists>es. w_trace (onError env cfg e w) = w_trace w @ es \<and> dispatched es = []
    \<and> entries_read g es = [] \<and> (\<forall>x \<in> set es. x = EOnError e)"
  by (cases "cc_on_error cfg") (simp_all add: onError_def)

lemma dispatch_entry_trace:
  "\<exists>es. w_trace (dispatch_entry env cfg stream entry w) = w_trace w @ es
     \<and> dispatched es = [StreamIncoming (cc_group cfg) stream entry]
     \<and> entries_read g es = [] \<and> filter is_ack es = []"
proof -
  define m where "m = StreamIncoming (cc_group cfg) stream entry"
  obtain err w1 where p: "perform (f_dispatch env m) (\<lambda>_. EDispatch m) w = (err, w1)"
    by (cases "perform (f_dispatch env m) (\<lambda>_. EDispatch m) w")
  have t: "w_trace w1 = w_trace w @ [EDispatch m]" using perform_eq_trace [OF p] by simp
  show ?thesis
  proof (cases err)
    case None
    then show ?thesis using p t by (simp add: dispatch_entry_def Let_def m_def [symmetric])
  next
    case (Some e)
    obtain es where es: "w_trace (onError env cfg (DispatchErr stream (xm_id entry) e) w1) = w_trace w1 @ es"
      "dispatched es = []" "entries_read g es = []"
      "\<forall>x \<in> set es. x = EOnError (DispatchErr stream (xm_id entry) e)"
      using onError_trace [of env cfg _ w1 g] by blast
    have "filter is_ack es = []" using es(4) by (auto simp: filter_empty_conv)
    then show ?thesis
      using p t Some es(1-3) by (simp add: dispatch_entry_def Let_def m_def [symmetric])
  qed
qed

lemma dispatch_entries_trace:
  "\<exists>es. w_trace (fold (dispatch_entry env cfg stream) entries w) = w_trace w @ es
     \<and> dispatched es = map (StreamIncoming (cc_group cfg) stream) entries
     \<and> entries_read g es = [] \<and> filter is_ack es = []"
proof (induction entries arbitrary: w)
  case Nil
  then show ?case by simp
next
  case (Cons e entries)
  obtain es1 where 1: "w_trace (dispatch_entry env cfg stream e w) = w_trace w @ es1"
    "dispatched es1 = [StreamIncoming (cc_group cfg) stream e]" "entries_read g es1 = []" "filter is_ack es1 = []"
    using dispatch_entry_trace by blast
  obtain es2 where 2: "w_trace (fold (dispatch_entry env cfg stream) entries (dispatch_entry env cfg stream e w))
      = w_trace (dispatch_entry env cfg stream e w) @ es2"
    "dispatched es2 = map (StreamIncoming (cc_group cfg) stream) entries" "entries_read g es2 = []"
    "filter is_ack es2 = []"
    using Cons.IH by blast
  show ?case using 1 2 by (intro exI [of _ "es1 @ es2"]) simp
qed

lemma dispatch_reply_trace:
  "\<exists>es. w_trace (dispatch_reply env cfg reply w) = w_trace w @ es
     \<and> dispatched es = entries_read (cc_group cfg) [ERead a (Inr reply)]
     \<and> entries_read g es = [] \<and> filter is_ack es = []"
proof (induction reply arbitrary: w)
  case Nil
  then show ?case by (simp add: dispatch_reply_def)
next
  case (Cons r reply)
  obtain stream entries where r: "r = (stream, entries)" by (cases r)
  define w1 where "w1 = fold (dispatch_entry env cfg stream) entries w"
  obtain es1 where 1: "w_trace w1 = w_trace w @ es1"
    "dispatched es1 = map (StreamIncoming (cc_group cfg) stream) entries" "entries_read g es1 = []"
    "filter is_ack es1 = []"
    unfolding w1_def using dispatch_entries_trace by blast
  obtain es2 where 2: "w_trace (dispatch_reply env cfg reply w1) = w_trace w1 @ es2"
    "dispatched es2 = entries_read (cc_group cfg) [ERead a (Inr reply)]" "entries_read g es2 = []"
    "filter is_ack es2 = []"
    using Cons.IH by blast
  have "dispatch_reply env cfg (r # reply) w = dispatch_reply env cfg reply w1"
    by (simp add: dispatch_reply_def w1_def r)
  then show ?case using 1 2 by (intro exI [of _ "es1 @ es2"]) (simp add: r)
qed
lemma read_step_trace:
  assumes "read_step env cfg w = (r, w')"
  shows "\<exists>es. w_trace w' = w_trace w @ es \<and> dispatched es = entries_read (cc_group cfg) es
    \<and> filter is_ack es = []"
proof -
  obtain c w0 where c: "perform (f_ctx env) ECtx w = (c, w0)" by (cases "perform (f_ctx env) ECtx w")
  have t0: "w_trace w0 = w_trace w @ [ECtx c]" using perform_eq_trace [OF c] by simp
  show ?thesis
  proof (cases c)
    case (Some e)
    then show ?thesis using assms c t0 by (simp add: read_step_def)
  next
    case None
    obtain reply w1 where p: "perform (f_xread env (read_request cfg)) (ERead (read_request cfg)) w0 = (reply, w1)"
      by (cases "perform (f_xread env (read_request cfg)) (ERead (read_request cfg)) w0")
    have t1: "w_trace w1 = w_trace w @ [ECtx None, ERead (read_request cfg) reply]"
      using perform_eq_trace [OF p] t0 None by simp
    show ?thesis
    proof (cases reply)
      case (Inl err)
      obtain c2 w2 where c2: "perform (f_ctx env) ECtx w1 = (c2, w2)" by (cases "perform (f_ctx env) ECtx w1")
      have "w_trace w2 = w_trace w @ [ECtx None, ERead (read_request cfg) reply, ECtx c2]"
        using perform_eq_trace [OF c2] t1 by simp
      then show ?thesis
        using assms c p c2 None Inl t1 by (cases c2; cases "err = RedisNil") (auto simp: read_step_def)
    next
      case (Inr rs)
      obtain es where es: "w_trace (dispatch_reply env cfg rs w1) = w_trace w1 @ es"
        "dispatched es = entries_read (cc_group cfg) [ERead (read_request cfg) (Inr rs)]"
        "entries_read (cc_group cfg) es = []" "filter is_ack es = []"
        using dispatch_reply_trace by blast
      have "w' = dispatch_reply env cfg rs w1" using assms c p None Inr by (simp add: read_step_def)
      then have "w_trace w' = w_trace w @ ([ECtx None, ERead (read_request cfg) (Inr rs)] @ es)"
        using es(1) t1 Inr by simp
      then show ?thesis
        using es(2-4) by (intro exI [of _ "[ECtx None, ERead (read_request cfg) (Inr rs)] @ es"]) simp
    qed
  qed
qed

text \<open>
  C6: the read loop dispatches every entry \<open>XREADGROUP\<close> returned exactly once, stream by stream
  in the order of the reply, whatever the handlers answer, and it acknowledges none of them itself:
  an entry whose handler fails stays pending.
\<close>

lemma read_loop_dispatches_once:
  fixes w :: "'s world"
  shows "\<exists>es. w_trace (snd (readLoop n env cfg w)) = w_trace w @ es
     \<and> dispatched es = entries_read (cc_group cfg) es \<and> filter is_ack es = []"
proof -
  define I where "I = (\<lambda>v :: 's world. \<exists>es. w_trace v = w_trace w @ es
     \<and> dispatched es = entries_read (cc_group cfg) es \<and> filter is_ack es = [])"
  have "I (snd (run_loop n (read_step env cfg) w))"
  proof (rule run_loop_invariant)
    show "I w" by (auto simp: I_def intro: exI [of _ "[]"])
    show "I z" if y: "I y" and s: "read_step env cfg y = (r, z)" for y r z
    proof -
      obtain es where "w_trace y = w_trace w @ es" "dispatched es = entries_read (cc_group cfg) es"
        "filter is_ack es = []" using y unfolding I_def by blast
      moreover obtain es' where "w_trace z = w_trace y @ es'"
        "dispatched es' = entries_read (cc_group cfg) es'" "filter is_ack es' = []"
        using read_step_trace [OF s] by blast
      ultimately show ?thesis unfolding I_def by (intro exI [of _ "es @ es'"]) simp
    qed
  qed
  then show ?thesis by (simp add: I_def readLoop_def)
qed

section \<open>Reclaimer\<close>

text \<open>Redeliveries of an entry since the reclaimer last acknowledged it.\<close>

fun count_step :: "string \<Rightarrow> event \<Rightarrow> int \<Rightarrow> int" where
  "count_step i (ERedeliver (StreamIncoming g s e)) n = (if xm_id e = i then n + 1 else n)"
| "count_step i (EXAck s g j) n = (if j = i then 0 else n)"
| "count_step i e n = n"

definition redelivered :: "string \<Rightarrow> event list \<Rightarrow> int" where
  "redelivered i es = fold (count_step i) es 0"

lemma redelivered_snoc [simp]:
  "redelivered i [] = 0"
  "redelivered i (es @ [e]) = count_step i e (redelivered i es)"
  "redelivered i (es @ [e, e']) = count_step i e' (count_step i e (redelivered i es))"
  by (simp_all add: redelivered_def)

text \<open>
  The acknowledgements of the reclaimer: with dead letters on, each comes after a dead letter that
  Redis accepted, for the same entry and stream.
\<close>

definition dead_letter_of :: "string \<Rightarrow> string \<Rightarrow> event \<Rightarrow> bool" where
  "dead_letter_of s i e \<longleftrightarrow> (case e of
       EXAdd args None \<Rightarrow> xa_stream args = s @ ''.dlq''
         \<and> map_of (xa_values args) ''dlq_source_id'' = Some (VStr i)
         \<and> map_of (xa_values args) ''dlq_source_stream'' = Some (VStr s)
     | _ \<Rightarrow> False)"

fun ack_ok :: "'c consumer_config \<Rightarrow> event list \<Rightarrow> event \<Rightarrow> bool" where
  "ack_ok cfg before (EXAck s g i) \<longleftrightarrow> s = first_address cfg \<and> g = cc_group cfg
     \<and> (cc_dead_letter cfg \<longrightarrow> (\<exists>e \<in> set before. dead_letter_of s i e))"
| "ack_ok cfg before e \<longleftrightarrow> True"

fun acks_ok :: "'c consumer_config \<Rightarrow> event list \<Rightarrow> bool" where
  "acks_ok cfg [] \<longleftrightarrow> True"
| "acks_ok cfg (e # before) \<longleftrightarrow> acks_ok cfg before \<and> ack_ok cfg before e"

lemma ack_ok_not_ack [simp]: "\<not> is_ack e \<Longrightarrow> ack_ok cfg before e"
  by (cases e) auto

lemma acks_ok_append_no_acks:
  "filter is_ack es = [] \<Longrightarrow> acks_ok cfg (rev es @ before) \<longleftrightarrow> acks_ok cfg before"
  by (induction es arbitrary: before) (auto split: if_splits)

text \<open>
  The invariant of the reclaimer on its counts and the trace: the redeliveries of an entry equal its
  attempts, capped one below the limit (at the limit it is given up instead of redelivered).
\<close>

definition reclaim_inv :: "'c consumer_config \<Rightarrow> attempts \<Rightarrow> event list \<Rightarrow> bool" where
  "reclaim_inv cfg att es \<longleftrightarrow>
     (\<forall>i. 0 \<le> attempts_of att i \<and> redelivered i es = min (attempts_of att i) (cc_max_deliveries cfg - 1))
     \<and> acks_ok cfg (rev es)"

text \<open>Events that change neither the counts nor the acknowledgements.\<close>

fun neutral :: "event \<Rightarrow> bool" where
  "neutral (ERedeliver m) = False"
| "neutral (EXAck s g i) = False"
| "neutral e = True"

lemma neutral_count [simp]: "neutral e \<Longrightarrow> count_step i e n = n"
  by (cases e) auto

lemma neutral_ack [simp]: "neutral e \<Longrightarrow> ack_ok cfg b e"
  by (cases e) auto

lemma reclaim_inv_neutral:
  "\<forall>e \<in> set es. neutral e \<Longrightarrow> reclaim_inv cfg att (tr @ es) \<longleftrightarrow> reclaim_inv cfg att tr"
proof (induction es rule: rev_induct)
  case Nil
  then show ?case by simp
next
  case (snoc e es)
  have "reclaim_inv cfg att ((tr @ es) @ [e]) \<longleftrightarrow> reclaim_inv cfg att (tr @ es)"
    unfolding reclaim_inv_def redelivered_snoc using snoc.prems by simp
  then show ?case using snoc by simp
qed

lemma attempts_of_upd [simp]:
  "attempts_of (att(i \<mapsto> a)) j = (if i = j then a else attempts_of att j)"
  "attempts_of (att(i := None)) j = (if i = j then 0 else attempts_of att j)"
  "attempts_of Map.empty j = 0"
  by (simp_all add: attempts_of_def)

lemma dead_letter_of_args: "dead_letter_of s (xm_id entry) (EXAdd (dead_letter_args s entry) None)"
  by (simp add: dead_letter_of_def dead_letter_args_def dead_letter_values_def)

lemma onError_neutral: "\<exists>es. w_trace (onError env cfg e w) = w_trace w @ es \<and> (\<forall>x \<in> set es. neutral x)"
  by (cases "cc_on_error cfg") (simp_all add: onError_def)

lemma reclaim_inv_onError [simp]:
  "reclaim_inv cfg att (w_trace (onError env cfg' e w)) \<longleftrightarrow> reclaim_inv cfg att (w_trace w)"
  using onError_neutral [of env cfg' e w] reclaim_inv_neutral by metis

lemma sleep_trace [simp]: "w_trace (sleep env d w) = w_trace w @ [ESleep d]"
  by (simp add: sleep_def)

lemma reclaim_inv_one_neutral:
  "neutral e \<Longrightarrow> reclaim_inv cfg att (tr @ [e]) \<longleftrightarrow> reclaim_inv cfg att tr"
  by (rule reclaim_inv_neutral) simp
lemma reclaim_inv_give_up:
  assumes "reclaim_inv cfg att0 tr" and "0 < cc_max_deliveries cfg"
    and "\<And>j. j \<noteq> i \<Longrightarrow> attempts_of att j = attempts_of att0 j"
    and "cc_dead_letter cfg \<Longrightarrow> \<exists>e \<in> set tr. dead_letter_of (first_address cfg) i e"
  shows "reclaim_inv cfg (att(i := None)) (tr @ [EXAck (first_address cfg) (cc_group cfg) i])"
  using assms by (auto simp: reclaim_inv_def)

lemma reclaim_inv_redeliver:
  assumes "reclaim_inv cfg att tr" and "attempts_of att (xm_id entry) + 1 < cc_max_deliveries cfg"
  shows "reclaim_inv cfg (att(xm_id entry \<mapsto> attempts_of att (xm_id entry) + 1))
           (tr @ [ERedeliver (StreamIncoming g s entry)])"
  using assms by (auto simp: reclaim_inv_def)

lemma reclaim_inv_stuck:
  assumes "reclaim_inv cfg att tr" and "cc_max_deliveries cfg \<le> attempts_of att i + 1"
  shows "reclaim_inv cfg (att(i \<mapsto> attempts_of att i + 1)) tr"
proof -
  have "0 \<le> attempts_of att i" "redelivered i tr = min (attempts_of att i) (cc_max_deliveries cfg - 1)"
    using assms(1) by (simp_all add: reclaim_inv_def)
  then show ?thesis using assms by (auto simp: reclaim_inv_def)
qed

lemma reclaim_entry_inv:
  assumes "0 < cc_max_deliveries cfg" and "reclaim_inv cfg (fst x) (w_trace (snd x))"
  shows "reclaim_inv cfg (fst (reclaim_entry env cfg entry x)) (w_trace (snd (reclaim_entry env cfg entry x)))"
proof -
  obtain att w where x: "x = (att, w)" by (cases x)
  define i a where "i = xm_id entry" and "a = attempts_of att i + 1"
  have inv: "reclaim_inv cfg att (w_trace w)" using assms(2) x by simp
  show ?thesis
  proof (cases "cc_max_deliveries cfg \<le> a")
    case False
    define m where "m = StreamIncoming (cc_group cfg) (first_address cfg) entry"
    obtain err w1 where p: "perform (f_dispatch env m) (\<lambda>_. ERedeliver m) w = (err, w1)"
      by (cases "perform (f_dispatch env m) (\<lambda>_. ERedeliver m) w")
    have "w_trace w1 = w_trace w @ [ERedeliver m]" using perform_eq_trace [OF p] by simp
    then have "reclaim_inv cfg (att(i \<mapsto> a)) (w_trace w1)"
      using reclaim_inv_redeliver [OF inv, of entry] False by (simp add: m_def i_def a_def)
    then have "reclaim_inv cfg (att(i \<mapsto> a)) (w_trace (redeliver env cfg entry w))"
      using p by (cases err) (simp_all add: redeliver_def Let_def m_def [symmetric])
    then show ?thesis using False by (simp add: x reclaim_entry_def Let_def i_def a_def)
  next
    case True
    have u: "(att(i \<mapsto> a))(i := None) = att(i := None)" by simp
    show ?thesis
    proof (cases "cc_dead_letter cfg")
      case False
      have "reclaim_inv cfg (att(i := None)) (w_trace w @ [EXAck (first_address cfg) (cc_group cfg) i])"
        using False by (intro reclaim_inv_give_up [OF inv assms(1)]) auto
      then show ?thesis
        using True False u by (simp add: x reclaim_entry_def give_up_def Let_def i_def a_def)
    next
      case dl: True
      obtain err w1 where p: "deadLetter env (first_address cfg) entry w = (err, w1)"
        by (cases "deadLetter env (first_address cfg) entry w")
      have t: "w_trace w1 = w_trace w @ [EXAdd (dead_letter_args (first_address cfg) entry) err]"
        using p unfolding deadLetter_def by (auto dest: perform_eq_trace)
      have inv1: "reclaim_inv cfg att (w_trace w1)"
        by (simp add: t reclaim_inv_one_neutral inv)
      show ?thesis
      proof (cases err)
        case (Some e)
        have "reclaim_inv cfg (att(i \<mapsto> a)) (w_trace w1)"
          unfolding a_def using reclaim_inv_stuck [OF inv1] True by (simp add: a_def)
        then show ?thesis
          using True dl p Some by (simp add: x reclaim_entry_def Let_def i_def a_def)
      next
        case None
        have "reclaim_inv cfg (att(i := None)) (w_trace w1 @ [EXAck (first_address cfg) (cc_group cfg) i])"
          using None dead_letter_of_args
          by (intro reclaim_inv_give_up [OF inv1 assms(1)]) (auto simp: t i_def)
        then show ?thesis
          using True dl p None u by (simp add: x reclaim_entry_def give_up_def Let_def i_def a_def)
      qed
    qed
  qed
qed

lemma reclaim_entries_inv:
  assumes "0 < cc_max_deliveries cfg" and "reclaim_inv cfg (fst x) (w_trace (snd x))"
  shows "reclaim_inv cfg (fst (fold (reclaim_entry env cfg) es x)) (w_trace (snd (fold (reclaim_entry env cfg) es x)))"
  using assms(2) by (induction es arbitrary: x) (simp_all add: reclaim_entry_inv [OF assms(1)])

lemma reclaim_step_inv:
  assumes m: "0 < cc_max_deliveries cfg"
    and inv: "reclaim_inv cfg (rs_attempts \<sigma>) (w_trace (rs_world \<sigma>))"
    and step: "reclaim_step env cfg \<sigma> = (r, \<sigma>')"
  shows "reclaim_inv cfg (rs_attempts \<sigma>') (w_trace (rs_world \<sigma>'))"
proof -
  obtain c w0 where c: "perform (f_ctx env) ECtx (rs_world \<sigma>) = (c, w0)"
    by (cases "perform (f_ctx env) ECtx (rs_world \<sigma>)")
  have inv0: "reclaim_inv cfg (rs_attempts \<sigma>) (w_trace w0)"
    using perform_eq_trace [OF c] inv by (simp add: reclaim_inv_one_neutral)
  define rq where "rq = claim_request cfg (rs_cursor \<sigma>)"
  obtain reply w1 where p: "perform (f_claim env rq) (\<lambda>_. EClaim rq) w0 = (reply, w1)"
    by (cases "perform (f_claim env rq) (\<lambda>_. EClaim rq) w0")
  have inv1: "reclaim_inv cfg (rs_attempts \<sigma>) (w_trace w1)"
    using perform_eq_trace [OF p] inv0 by (simp add: reclaim_inv_one_neutral)
  show ?thesis
  proof (cases c)
    case (Some e)
    then show ?thesis using step c inv0 by (auto simp: reclaim_step_def)
  next
    case None
    show ?thesis
    proof (cases reply)
      case (Inl err)
      then show ?thesis
        using step c p None inv1 by (auto simp: reclaim_step_def rq_def Let_def reclaim_inv_one_neutral)
    next
      case (Inr mn)
      obtain messages nx where mn: "mn = (messages, nx)" by (cases mn)
      obtain att w2 where f: "fold (reclaim_entry env cfg) messages (rs_attempts \<sigma>, w1) = (att, w2)"
        by (cases "fold (reclaim_entry env cfg) messages (rs_attempts \<sigma>, w1)")
      have "reclaim_inv cfg att (w_trace w2)"
        using reclaim_entries_inv [OF m, of "(rs_attempts \<sigma>, w1)" env messages] inv1 f by simp
      then show ?thesis
        using step c p None Inr mn f
        by (auto simp: reclaim_step_def rq_def Let_def reclaim_inv_one_neutral)
    qed
  qed
qed
section \<open>The interleaving\<close>

text \<open>Every event an operation adds satisfies \<open>Q\<close>.\<close>

definition extends :: "(event \<Rightarrow> bool) \<Rightarrow> 's world \<Rightarrow> 's world \<Rightarrow> bool" where
  "extends Q w w' \<longleftrightarrow> (\<exists>es. w_trace w' = w_trace w @ es \<and> (\<forall>e \<in> set es. Q e))"

lemma extends_refl [simp]: "extends Q w w"
  by (auto simp: extends_def)

lemma extends_trans: "extends Q u v \<Longrightarrow> extends Q v w \<Longrightarrow> extends Q u w"
  unfolding extends_def by (metis append.assoc UnE set_append)

lemma extends_perform: "perform f ev w = (r, w') \<Longrightarrow> Q (ev r) \<Longrightarrow> extends Q w w'"
  by (drule perform_eq_trace) (auto simp: extends_def)

lemma extends_onError: "Q (EOnError e) \<Longrightarrow> extends Q w (onError env cfg e w)"
  by (cases "cc_on_error cfg") (auto simp: onError_def extends_def)

lemma extends_sleep: "Q (ESleep d) \<Longrightarrow> extends Q w (sleep env d w)"
  by (auto simp: extends_def)

lemma extends_markReady: "Q EReady \<Longrightarrow> extends Q w (markReady w)"
  by (auto simp: extends_def markReady_def)

lemma extends_fold:
  assumes "\<And>x w. extends Q (g w) (g (f x w))"
  shows "extends Q (g w) (g (fold f xs w))"
proof (induction xs arbitrary: w)
  case Nil
  then show ?case by simp
next
  case (Cons x xs)
  show ?case using extends_trans [OF assms Cons.IH] by simp
qed

lemmas extends_fold_world = extends_fold [where g = "\<lambda>w. w"]

lemmas extends_intros = extends_refl extends_onError extends_sleep extends_markReady

text \<open>The events of each part.\<close>

fun read_event :: "event \<Rightarrow> bool" where
  "read_event (ECtx c) = True"
| "read_event (ERead a r) = True"
| "read_event (EDispatch m) = True"
| "read_event (EOnError e) = True"
| "read_event _ = False"

fun start_event :: "event \<Rightarrow> bool" where
  "start_event (EGroup a g i e) = True"
| "start_event EReady = True"
| "start_event _ = False"

fun reclaim_event :: "'c consumer_config \<Rightarrow> event \<Rightarrow> bool" where
  "reclaim_event cfg (ECtx c) = True"
| "reclaim_event cfg (EClaim a) = (ca_stream a = first_address cfg)"
| "reclaim_event cfg (ERedeliver m) = (Topic m = first_address cfg)"
| "reclaim_event cfg (EXAck s g i) = (s = first_address cfg)"
| "reclaim_event cfg (EXAdd a e) = (xa_stream a = first_address cfg @ ''.dlq'')"
| "reclaim_event cfg (EOnError e) = True"
| "reclaim_event cfg (ESleep d) = True"
| "reclaim_event cfg _ = False"

lemma read_event_neutral: "read_event e \<Longrightarrow> neutral e"
  by (cases e) auto

lemma start_event_neutral: "start_event e \<Longrightarrow> neutral e"
  by (cases e) auto

lemma read_step_events:
  assumes "read_step env cfg w = (r, w')"
  shows "extends read_event w w'"
proof -
  have d: "extends read_event u (dispatch_entry env cfg stream entry u)" for stream entry u
  proof -
    obtain err w1 where p: "perform (f_dispatch env (StreamIncoming (cc_group cfg) stream entry))
        (\<lambda>_. EDispatch (StreamIncoming (cc_group cfg) stream entry)) u = (err, w1)"
      by fastforce
    then have "extends read_event u w1" by (rule extends_perform) simp
    then have "extends read_event u (onError env cfg e w1)" for e
      by (rule extends_trans) (simp add: extends_onError)
    then show ?thesis
      using p \<open>extends read_event u w1\<close> by (cases err) (simp_all add: dispatch_entry_def Let_def)
  qed
  have e: "extends read_event u (dispatch_reply env cfg rs u)" for rs u
    unfolding dispatch_reply_def
    by (rule extends_fold_world) (auto intro: extends_fold_world d split: prod.splits)
  obtain c w0 where c: "perform (f_ctx env) ECtx w = (c, w0)" by fastforce
  then have 0: "extends read_event w w0" by (rule extends_perform) simp
  show ?thesis
  proof (cases c)
    case (Some e)
    then show ?thesis using assms c 0 by (simp add: read_step_def)
  next
    case None
    obtain reply w1 where p: "perform (f_xread env (read_request cfg)) (ERead (read_request cfg)) w0 = (reply, w1)"
      by fastforce
    then have 1: "extends read_event w w1" by (intro extends_trans [OF 0] extends_perform) auto
    obtain c2 w2 where c2: "perform (f_ctx env) ECtx w1 = (c2, w2)" by fastforce
    then have 2: "extends read_event w w2" by (intro extends_trans [OF 1] extends_perform) auto
    show ?thesis
      using assms c p c2 None 1 2 extends_trans [OF 1 e]
      by (cases reply; cases c2) (auto simp: read_step_def split: if_splits)
  qed
qed
lemma reclaim_entry_events:
  "extends (reclaim_event cfg) (snd x) (snd (reclaim_entry env cfg entry x))"
proof -
  obtain att w where x: "x = (att, w)" by (cases x)
  have give: "extends (reclaim_event cfg) v (snd (give_up env cfg entry (b, v)))" for b v
    by (auto simp: give_up_def extends_def)
  have on: "extends (reclaim_event cfg) v (onError env cfg e v)" for e v
    by (rule extends_onError) simp
  have re: "extends (reclaim_event cfg) w (redeliver env cfg entry w)"
  proof -
    define m where "m = StreamIncoming (cc_group cfg) (first_address cfg) entry"
    obtain err w1 where p: "perform (f_dispatch env m) (\<lambda>_. ERedeliver m) w = (err, w1)" by fastforce
    then have "extends (reclaim_event cfg) w w1" by (rule extends_perform) (simp add: m_def)
    then show ?thesis
      using p extends_trans [OF _ on] by (cases err) (simp_all add: redeliver_def Let_def m_def [symmetric])
  qed
  obtain err w1 where p: "deadLetter env (first_address cfg) entry w = (err, w1)" by fastforce
  have d: "extends (reclaim_event cfg) w w1"
    using p unfolding deadLetter_def by (rule extends_perform) (simp add: dead_letter_args_def)
  show ?thesis
    using re give p extends_trans [OF d give] extends_trans [OF d on]
    by (cases err) (auto simp: x reclaim_entry_def Let_def)
qed

lemma reclaim_step_events:
  assumes "reclaim_step env cfg \<sigma> = (r, \<sigma>')"
  shows "extends (reclaim_event cfg) (rs_world \<sigma>) (rs_world \<sigma>')"
proof -
  obtain c w0 where c: "perform (f_ctx env) ECtx (rs_world \<sigma>) = (c, w0)" by fastforce
  then have 0: "extends (reclaim_event cfg) (rs_world \<sigma>) w0" by (rule extends_perform) simp
  define rq where "rq = claim_request cfg (rs_cursor \<sigma>)"
  obtain reply w1 where p: "perform (f_claim env rq) (\<lambda>_. EClaim rq) w0 = (reply, w1)" by fastforce
  then have "extends (reclaim_event cfg) w0 w1"
    by (rule extends_perform) (simp add: rq_def claim_request_def)
  note 1 = extends_trans [OF 0 this]
  have sl: "extends (reclaim_event cfg) v (sleep env d v)" for d v
    by (rule extends_sleep) simp
  have on: "extends (reclaim_event cfg) v (onError env cfg e v)" for e v
    by (rule extends_onError) simp
  have f: "extends (reclaim_event cfg) w1 (snd (fold (reclaim_entry env cfg) ms (att, w1)))" for ms att
    using extends_fold [where g = snd and w = "(att, w1)", OF reclaim_entry_events] by simp
  have A: "extends (reclaim_event cfg) (rs_world \<sigma>) (sleep env d (onError env cfg e w1))" for d e
    by (rule extends_trans [OF extends_trans [OF 1 on] sl])
  show ?thesis
  proof (cases c)
    case (Some e)
    then show ?thesis using assms c 0 by (auto simp: reclaim_step_def)
  next
    case None
    show ?thesis
    proof (cases reply)
      case (Inl err)
      then show ?thesis using assms c p None A by (auto simp: reclaim_step_def rq_def Let_def)
    next
      case (Inr mn)
      obtain ms nx where mn: "mn = (ms, nx)" by (cases mn)
      obtain att w2 where fo: "fold (reclaim_entry env cfg) ms (rs_attempts \<sigma>, w1) = (att, w2)" by fastforce
      have B: "extends (reclaim_event cfg) (rs_world \<sigma>) w2"
        using extends_trans [OF 1 f [of ms "rs_attempts \<sigma>"]] fo by simp
      show ?thesis
        using assms c p None Inr mn fo B extends_trans [OF B sl]
        by (auto simp: reclaim_step_def rq_def Let_def)
    qed
  qed
qed

lemma create_groups_events:
  "create_groups env grp as w = (r, w') \<Longrightarrow> extends start_event w w'"
proof (induction env grp as w arbitrary: r w' rule: create_groups.induct)
  case (1 env grp w)
  then show ?case by simp
next
  case (2 env grp a as w)
  obtain err w1 where p: "perform (f_xgroup env a grp ''0'') (EGroup a grp ''0'') w = (err, w1)" by fastforce
  then have 1: "extends start_event w w1" by (rule extends_perform) simp
  show ?case
  proof (cases "\<exists>e. err = Some e \<and> \<not> contains_str (client_error_text e) ''BUSYGROUP''")
    case True
    then show ?thesis using "2.prems" p 1 by auto
  next
    case False
    then have "create_groups env grp as w1 = (r, w')"
      using "2.prems" p by (auto split: option.splits)
    moreover have "create_groups env grp as w1 = (r, w') \<Longrightarrow> extends start_event w1 w'"
      using "2.IH" False p by (cases err) auto
    ultimately show ?thesis using extends_trans [OF 1] by blast
  qed
qed

lemma start_streams_events:
  assumes "start_streams env cfg w = Inr \<sigma>"
  shows "extends start_event w (ss_world \<sigma>)"
proof -
  obtain w1 where g: "create_groups env (cc_group cfg) (cc_addresses cfg) w = (None, w1)"
    and \<sigma>: "ss_world \<sigma> = markReady w1"
    using assms by (auto simp: start_streams_def split: prod.splits option.splits)
  have "extends start_event w1 (markReady w1)" by (rule extends_markReady) simp
  then show ?thesis using extends_trans [OF create_groups_events [OF g]] \<sigma> by simp
qed

lemma extends_mono: "extends P w w' \<Longrightarrow> (\<And>e. P e \<Longrightarrow> Q e) \<Longrightarrow> extends Q w w'"
  by (auto simp: extends_def)

lemma reclaim_inv_extends:
  "extends neutral w w' \<Longrightarrow> reclaim_inv cfg att (w_trace w') \<longleftrightarrow> reclaim_inv cfg att (w_trace w)"
  by (auto simp: extends_def reclaim_inv_neutral)

lemma reclaim_inv_empty: "0 < cc_max_deliveries cfg \<Longrightarrow> reclaim_inv cfg Map.empty []"
  by (simp add: reclaim_inv_def)

text \<open>The invariant of every reachable state, with and without a reclaimer.\<close>

definition streams_inv :: "'c consumer_config \<Rightarrow> 's streams_state \<Rightarrow> bool" where
  "streams_inv cfg \<sigma> \<longleftrightarrow>
     (if 0 < cc_max_deliveries cfg then
        (case ss_reclaimer \<sigma> of
           Running cursor att \<Rightarrow> reclaim_inv cfg att (w_trace (ss_world \<sigma>))
         | NotRunning \<Rightarrow> \<exists>att. reclaim_inv cfg att (w_trace (ss_world \<sigma>)))
      else ss_reclaimer \<sigma> = NotRunning \<and> filter is_ack (w_trace (ss_world \<sigma>)) = [])"

lemma neutral_no_ack: "\<forall>e \<in> set es. neutral e \<Longrightarrow> filter is_ack es = []"
  by (induction es) (auto elim: is_ack.elims)

lemma streams_inv_extends:
  assumes "extends neutral (ss_world \<sigma>) w"
  shows "streams_inv cfg (\<sigma>\<lparr>ss_world := w, ss_read := r\<rparr>) \<longleftrightarrow> streams_inv cfg \<sigma>"
proof -
  obtain es where es: "w_trace w = w_trace (ss_world \<sigma>) @ es" "\<forall>e \<in> set es. neutral e"
    using assms by (auto simp: extends_def)
  then show ?thesis
    using neutral_no_ack [OF es(2)]
    by (simp add: streams_inv_def reclaim_inv_neutral [OF es(2)] split: reclaimer.splits)
qed

lemma streams_reach_inv:
  assumes "streams_reach env cfg w \<sigma>" and "w_trace w = []"
  shows "streams_inv cfg \<sigma>"
  using assms(1)
proof induction
  case (reach_start \<sigma>)
  have e: "extends neutral w (ss_world \<sigma>)"
    using start_streams_events [OF reach_start] extends_mono start_event_neutral by blast
  then obtain es where es: "w_trace (ss_world \<sigma>) = es" "\<forall>x \<in> set es. neutral x"
    using assms(2) by (auto simp: extends_def)
  have r: "ss_reclaimer \<sigma> = (if 0 < cc_max_deliveries cfg then Running ''0-0'' Map.empty else NotRunning)"
    using reach_start by (auto simp: start_streams_def split: prod.splits option.splits)
  show ?case
    using r es(1) neutral_no_ack [OF es(2)]
    by (simp add: streams_inv_def reclaim_inv_neutral [OF es(2), where tr = "[]", simplified]
        reclaim_inv_empty)
next
  case (reach_step \<sigma> \<sigma>')
  from reach_step(2) show ?case
  proof cases
    case (read_iteration r v)
    have "extends neutral (ss_world \<sigma>) v"
      using read_step_events [OF read_iteration(3)] extends_mono read_event_neutral by blast
    then show ?thesis using reach_step.IH read_iteration(1) streams_inv_extends by blast
  next
    case (reclaim_iteration cursor att r \<rho>)
    have m: "0 < cc_max_deliveries cfg" and i: "reclaim_inv cfg att (w_trace (ss_world \<sigma>))"
      using reach_step.IH reclaim_iteration(2) by (auto simp: streams_inv_def split: if_splits)
    have "reclaim_inv cfg (rs_attempts \<rho>) (w_trace (rs_world \<rho>))"
      using reclaim_step_inv [OF m _ reclaim_iteration(3)] i by simp
    then show ?thesis
      using m reclaim_iteration(1) by (cases r) (auto simp: streams_inv_def)
  qed
qed
lemma acks_ok_split:
  "acks_ok cfg (rev (before @ e # after)) \<Longrightarrow> ack_ok cfg (rev before) e"
  by (induction after rule: rev_induct) simp_all

text \<open>
  C2: under every interleaving of read loop and reclaimer and whatever Redis and the handlers do,
  between two acknowledgements of an entry the reclaimer redelivers it fewer than \<open>MaxDeliveries\<close>
  times; with the first delivery by the read loop it is handed out at most \<open>MaxDeliveries\<close> times.
\<close>

lemma redeliveries_bounded:
  assumes "streams_reach env cfg w \<sigma>" and "w_trace w = []" and "0 < cc_max_deliveries cfg"
  shows "redelivered i (w_trace (ss_world \<sigma>)) < cc_max_deliveries cfg"
proof -
  obtain att where "reclaim_inv cfg att (w_trace (ss_world \<sigma>))"
    using streams_reach_inv [OF assms(1,2)] assms(3)
    by (cases "ss_reclaimer \<sigma>") (auto simp: streams_inv_def)
  then have "redelivered i (w_trace (ss_world \<sigma>)) = min (attempts_of att i) (cc_max_deliveries cfg - 1)"
    by (simp add: reclaim_inv_def)
  then show ?thesis by simp
qed

text \<open>
  C4: the consumer acknowledges on its own only when it gives an entry up: every \<open>XACK\<close> it sends
  is the reclaimer's, goes to the first address and the consumer's group, and, with dead letters on,
  comes after Redis accepted a dead letter on \<open><address>.dlq\<close> that names the entry and its stream.
\<close>

lemma acked_only_when_given_up:
  assumes "streams_reach env cfg w \<sigma>" and "w_trace w = []"
    and "w_trace (ss_world \<sigma>) = before @ EXAck s g i # after"
  shows "0 < cc_max_deliveries cfg \<and> s = first_address cfg \<and> g = cc_group cfg
    \<and> (cc_dead_letter cfg \<longrightarrow> (\<exists>e \<in> set before. dead_letter_of s i e))"
proof -
  have inv: "streams_inv cfg \<sigma>" by (rule streams_reach_inv [OF assms(1,2)])
  have m: "0 < cc_max_deliveries cfg"
    using inv assms(3) by (auto simp: streams_inv_def split: if_splits)
  then obtain att where "reclaim_inv cfg att (w_trace (ss_world \<sigma>))"
    using inv by (cases "ss_reclaimer \<sigma>") (auto simp: streams_inv_def)
  then have "acks_ok cfg (rev (before @ EXAck s g i # after))"
    using assms(3) by (simp add: reclaim_inv_def)
  from acks_ok_split [OF this] show ?thesis using m by auto
qed

definition streams_event :: "'c consumer_config \<Rightarrow> event \<Rightarrow> bool" where
  "streams_event cfg e \<longleftrightarrow> start_event e \<or> read_event e \<or> reclaim_event cfg e"

lemma streams_events:
  assumes "streams_reach env cfg w \<sigma>"
  shows "extends (streams_event cfg) w (ss_world \<sigma>)"
  using assms
proof induction
  case (reach_start \<sigma>)
  show ?case
    by (rule extends_mono [OF start_streams_events [OF reach_start]]) (simp add: streams_event_def)
next
  case (reach_step \<sigma> \<sigma>')
  from reach_step(2) show ?case
  proof cases
    case (read_iteration r v)
    have "extends (streams_event cfg) (ss_world \<sigma>) v"
      by (rule extends_mono [OF read_step_events [OF read_iteration(3)]]) (simp add: streams_event_def)
    then show ?thesis using extends_trans [OF reach_step.IH] read_iteration(1) by simp
  next
    case (reclaim_iteration cursor att r \<rho>)
    have "extends (streams_event cfg) (ss_world \<sigma>) (rs_world \<rho>)"
      using reclaim_step_events [OF reclaim_iteration(3)]
      by (simp add: extends_mono streams_event_def)
    then show ?thesis using extends_trans [OF reach_step.IH] reclaim_iteration(1) by simp
  qed
qed

text \<open>
  Only the first address is ever reclaimed: in every reachable state each \<open>XAUTOCLAIM\<close> and each
  redelivery is for \<open>Addresses[0]\<close>, so a pending entry of any other address is never redelivered.
\<close>

lemma only_first_address_reclaimed:
  assumes "streams_reach env cfg w \<sigma>" and "w_trace w = []"
  shows "(\<forall>a. EClaim a \<in> set (w_trace (ss_world \<sigma>)) \<longrightarrow> ca_stream a = hd (cc_addresses cfg))
    \<and> (\<forall>m. ERedeliver m \<in> set (w_trace (ss_world \<sigma>)) \<longrightarrow> Topic m = hd (cc_addresses cfg))"
proof -
  have e: "streams_event cfg e" if "e \<in> set (w_trace (ss_world \<sigma>))" for e
    using streams_events [OF assms(1)] assms(2) that by (auto simp: extends_def)
  show ?thesis by (auto dest!: e simp: streams_event_def first_address_def)
qed

section \<open>A run with one failing entry\<close>

text \<open>
  A concrete environment: every command succeeds, the reclaimer always claims the entry \<open>1-0\<close>,
  and its handler always fails. With a limit of two the entry is redelivered once, then dead-lettered
  and acknowledged.
\<close>

definition demo_entry :: xmessage where
  "demo_entry = \<lparr>xm_id = ''1-0'', xm_values = [(''payload'', VStr ''{}'')]\<rparr>"

definition demo_env :: "unit environment" where
  "demo_env = \<lparr>f_publish = \<lambda>_ _ _. (None, ()), f_xadd = \<lambda>_ _. (None, ()), f_xack = \<lambda>_ _ _ _. (None, ()),
     f_xgroup = \<lambda>_ _ _ _. (Some (CErr ''BUSYGROUP exists''), ()), f_xread = \<lambda>_ _. (Inl RedisNil, ()),
     f_claim = \<lambda>_ _. (Inr ([demo_entry], ''0-0''), ()), f_subscribe = \<lambda>_ _. (None, ()),
     f_next = \<lambda>_. (Msg ''c'' ''{}'', ()), f_ctx = \<lambda>_. (None, ()), f_dispatch = \<lambda>_ _. (Some ''boom'', ()),
     f_on_error = \<lambda>_ _. ((), ()), f_sleep = \<lambda>_ _. ((), ())\<rparr>"

definition demo_cfg :: "unit consumer_config" where
  "demo_cfg = \<lparr>cc_addr = ''a:1'', cc_mode = ModeStreams, cc_addresses = [''s''], cc_group = ''g'',
     cc_consumer = ''me'', cc_security = \<lparr>sec_username = [], sec_password = [], sec_tls = False,
     sec_insecure = False\<rparr>, cc_block = 1, cc_count = 10, cc_claim_min_idle = 1, cc_max_deliveries = 2,
     cc_dead_letter = True, cc_on_error = False, cc_client = None\<rparr>"

definition demo_world :: "unit world" where
  "demo_world = \<lparr>w_state = (), w_trace = [], w_ready = False\<rparr>"

definition demo_trace :: "event list" where
  "demo_trace =
     [EGroup ''s'' ''g'' ''0'' (Some (CErr ''BUSYGROUP exists'')), EReady,
      ECtx None, EClaim (claim_request demo_cfg ''0-0''), ERedeliver (StreamIncoming ''g'' ''s'' demo_entry),
      ECtx None, EClaim (claim_request demo_cfg ''0-0''), EXAdd (dead_letter_args ''s'' demo_entry) None]
     @ EXAck ''s'' ''g'' ''1-0'' # []"

lemma demo_reach:
  "\<exists>\<sigma>. streams_reach demo_env demo_cfg demo_world \<sigma> \<and> w_trace (ss_world \<sigma>) = demo_trace"
proof -
  define w1 :: "unit world" where "w1 = \<lparr>w_state = (), w_trace = take 2 demo_trace, w_ready = True\<rparr>"
  define w2 :: "unit world" where "w2 = \<lparr>w_state = (), w_trace = take 5 demo_trace, w_ready = True\<rparr>"
  define w3 :: "unit world" where "w3 = \<lparr>w_state = (), w_trace = demo_trace, w_ready = True\<rparr>"
  define \<sigma>1 where "\<sigma>1 = \<lparr>ss_world = w1, ss_read = None, ss_reclaimer = Running ''0-0'' Map.empty\<rparr>"
  define \<sigma>2 where "\<sigma>2 = \<lparr>ss_world = w2, ss_read = None, ss_reclaimer = Running ''0-0'' [''1-0'' \<mapsto> 1]\<rparr>"
  have m: "contains_str ''BUSYGROUP exists'' ''BUSYGROUP''" by (simp add: has_prefix_def)
  have "start_streams demo_env demo_cfg demo_world = Inr \<sigma>1"
    using m by (simp add: start_streams_def perform_def demo_env_def demo_cfg_def demo_world_def markReady_def
        \<sigma>1_def w1_def demo_trace_def del: contains_str.simps)
  then have r1: "streams_reach demo_env demo_cfg demo_world \<sigma>1" by (rule reach_start)
  have "reclaim_step demo_env demo_cfg \<lparr>rs_cursor = ''0-0'', rs_attempts = Map.empty, rs_world = ss_world \<sigma>1\<rparr>
      = (None, \<lparr>rs_cursor = ''0-0'', rs_attempts = [''1-0'' \<mapsto> 1], rs_world = w2\<rparr>)"
    by (simp add: reclaim_step_def perform_def demo_env_def reclaim_entry_def redeliver_def onError_def
        \<sigma>1_def w1_def w2_def demo_trace_def first_address_def Let_def demo_entry_def attempts_of_def)
       (simp add: demo_cfg_def claim_request_def first_address_def)
  from streams_step.reclaim_iteration [OF _ this]
  have "streams_step demo_env demo_cfg \<sigma>1 \<sigma>2" by (simp add: \<sigma>1_def \<sigma>2_def)
  with r1 have r2: "streams_reach demo_env demo_cfg demo_world \<sigma>2" by (rule reach_step)
  have "reclaim_step demo_env demo_cfg \<lparr>rs_cursor = ''0-0'', rs_attempts = [''1-0'' \<mapsto> 1], rs_world = ss_world \<sigma>2\<rparr>
      = (None, \<lparr>rs_cursor = ''0-0'', rs_attempts = Map.empty, rs_world = w3\<rparr>)"
    by (simp add: reclaim_step_def perform_def demo_env_def reclaim_entry_def give_up_def deadLetter_def
        onError_def \<sigma>2_def w3_def w2_def demo_trace_def first_address_def Let_def demo_entry_def attempts_of_def)
       (simp add: demo_cfg_def claim_request_def first_address_def)
  from streams_step.reclaim_iteration [OF _ this]
  have "streams_step demo_env demo_cfg \<sigma>2
      (\<sigma>2\<lparr>ss_world := w3, ss_reclaimer := Running ''0-0'' Map.empty\<rparr>)" by (simp add: \<sigma>2_def)
  with r2 have "streams_reach demo_env demo_cfg demo_world
      (\<sigma>2\<lparr>ss_world := w3, ss_reclaimer := Running ''0-0'' Map.empty\<rparr>)" by (rule reach_step)
  then show ?thesis by (intro exI conjI) (auto simp: w3_def)
qed

lemma redeliveries_bounded_witness:
  "\<exists>\<sigma>. streams_reach demo_env demo_cfg demo_world \<sigma> \<and> w_trace (ss_world \<sigma>) = demo_trace
     \<and> redelivered ''1-0'' (w_trace (ss_world \<sigma>)) < 2"
proof -
  obtain \<sigma> where \<sigma>: "streams_reach demo_env demo_cfg demo_world \<sigma>" "w_trace (ss_world \<sigma>) = demo_trace"
    using demo_reach by blast
  moreover have "redelivered ''1-0'' (w_trace (ss_world \<sigma>)) < cc_max_deliveries demo_cfg"
    by (rule redeliveries_bounded [OF \<sigma>(1)]) (simp_all add: demo_world_def demo_cfg_def)
  ultimately show ?thesis by (intro exI [of _ \<sigma>]) (simp add: demo_cfg_def)
qed

lemma acked_only_when_given_up_witness:
  "\<exists>\<sigma> before. streams_reach demo_env demo_cfg demo_world \<sigma>
     \<and> w_trace (ss_world \<sigma>) = before @ [EXAck ''s'' ''g'' ''1-0'']
     \<and> (\<exists>e \<in> set before. dead_letter_of ''s'' ''1-0'' e)"
proof -
  obtain \<sigma> where \<sigma>: "streams_reach demo_env demo_cfg demo_world \<sigma>" "w_trace (ss_world \<sigma>) = demo_trace"
    using demo_reach by blast
  from acked_only_when_given_up [OF \<sigma>(1) _ \<sigma>(2) [unfolded demo_trace_def]]
  have "\<exists>e \<in> set (butlast demo_trace). dead_letter_of ''s'' ''1-0'' e"
    by (simp add: demo_world_def demo_trace_def) (simp add: demo_cfg_def)
  moreover have "demo_trace = butlast demo_trace @ [EXAck ''s'' ''g'' ''1-0'']"
    by (simp add: demo_trace_def)
  ultimately show ?thesis using \<sigma> by metis
qed

lemma only_first_address_reclaimed_witness:
  "\<exists>\<sigma>. streams_reach demo_env demo_cfg demo_world \<sigma>
     \<and> ERedeliver (StreamIncoming ''g'' ''s'' demo_entry) \<in> set (w_trace (ss_world \<sigma>))
     \<and> (\<forall>m. ERedeliver m \<in> set (w_trace (ss_world \<sigma>)) \<longrightarrow> Topic m = ''s'')"
proof -
  obtain \<sigma> where \<sigma>: "streams_reach demo_env demo_cfg demo_world \<sigma>" "w_trace (ss_world \<sigma>) = demo_trace"
    using demo_reach by blast
  have a: "hd (cc_addresses demo_cfg) = ''s''" by (simp add: demo_cfg_def)
  from only_first_address_reclaimed [OF \<sigma>(1)]
  have "\<forall>m. ERedeliver m \<in> set (w_trace (ss_world \<sigma>)) \<longrightarrow> Topic m = ''s''"
    unfolding a by (simp add: demo_world_def)
  moreover have "ERedeliver (StreamIncoming ''g'' ''s'' demo_entry) \<in> set demo_trace"
    by (simp add: demo_trace_def)
  ultimately show ?thesis using \<sigma> by metis
qed

section \<open>Start, cancellation, publishing and pub/sub\<close>

definition tolerated :: "client_error option \<Rightarrow> bool" where
  "tolerated err \<longleftrightarrow> (case err of None \<Rightarrow> True
     | Some e \<Rightarrow> contains_str (client_error_text e) ''BUSYGROUP'')"

definition group_events :: "string \<Rightarrow> string list \<Rightarrow> client_error option list \<Rightarrow> event list" where
  "group_events grp as errs = map (\<lambda>(a, err). EGroup a grp ''0'' err) (zip as errs)"

lemma create_groups_trace:
  "create_groups env grp as w = (r, w') \<Longrightarrow>
   \<exists>errs n. n \<le> length as \<and> length errs = n
     \<and> w_trace w' = w_trace w @ group_events grp (take n as) errs \<and> w_ready w' = w_ready w
     \<and> (case r of
          None \<Rightarrow> n = length as \<and> (\<forall>x \<in> set errs. tolerated x)
        | Some e \<Rightarrow> 0 < n \<and> (\<forall>x \<in> set (butlast errs). tolerated x) \<and> \<not> tolerated (last errs)
            \<and> e = CreateGroup grp (as ! (n - 1)) (the (last errs)))"
proof (induction env grp as w arbitrary: r w' rule: create_groups.induct)
  case (1 env grp w)
  then show ?case by (simp add: group_events_def)
next
  case (2 env grp a as w)
  obtain err w1 where p: "perform (f_xgroup env a grp ''0'') (EGroup a grp ''0'') w = (err, w1)" by fastforce
  have t: "w_trace w1 = w_trace w @ [EGroup a grp ''0'' err]" "w_ready w1 = w_ready w"
    using perform_eq_trace [OF p] by simp_all
  show ?case
  proof (cases "tolerated err")
    case False
    then obtain e where "err = Some e" "\<not> contains_str (client_error_text e) ''BUSYGROUP''"
      by (auto simp: tolerated_def split: option.splits)
    then show ?thesis
      using "2.prems" p t False
      by (intro exI [of _ "[err]"] exI [of _ 1]) (auto simp: group_events_def)
  next
    case True
    then have c: "create_groups env grp as w1 = (r, w')"
      using "2.prems" p by (auto simp: tolerated_def split: option.splits)
    have "\<exists>errs n. n \<le> length as \<and> length errs = n
     \<and> w_trace w' = w_trace w1 @ group_events grp (take n as) errs \<and> w_ready w' = w_ready w1
     \<and> (case r of
          None \<Rightarrow> n = length as \<and> (\<forall>x \<in> set errs. tolerated x)
        | Some e \<Rightarrow> 0 < n \<and> (\<forall>x \<in> set (butlast errs). tolerated x) \<and> \<not> tolerated (last errs)
            \<and> e = CreateGroup grp (as ! (n - 1)) (the (last errs)))"
      using "2.IH" True p c by (cases err) (auto simp: tolerated_def)
    then obtain errs n where i: "n \<le> length as" "length errs = n"
      "w_trace w' = w_trace w1 @ group_events grp (take n as) errs" "w_ready w' = w_ready w1"
      "case r of
          None \<Rightarrow> n = length as \<and> (\<forall>x \<in> set errs. tolerated x)
        | Some e \<Rightarrow> 0 < n \<and> (\<forall>x \<in> set (butlast errs). tolerated x) \<and> \<not> tolerated (last errs)
            \<and> e = CreateGroup grp (as ! (n - 1)) (the (last errs))" by blast
    show ?thesis
      using i t True
      by (intro exI [of _ "err # errs"] exI [of _ "Suc n"])
         (auto simp: group_events_def nth_Cons' split: option.splits)
  qed
qed

text \<open>
  C27: a streams consumer becomes ready, and starts reading, only after the group was created on
  every address in order, an existing group (\<open>BUSYGROUP\<close>) counting as created; the first other error
  stops it: it is returned with the group and the address that gave it, the addresses before were asked in order and
  gave no such error, the addresses after it are not asked, and the consumer does not become ready.
\<close>

lemma start_streams_groups:
  "case start_streams env cfg w of
     Inr \<sigma> \<Rightarrow> (\<exists>errs. length errs = length (cc_addresses cfg) \<and> list_all tolerated errs
        \<and> w_trace (ss_world \<sigma>) = w_trace w @ group_events (cc_group cfg) (cc_addresses cfg) errs
             @ (if w_ready w then [] else [EReady])
        \<and> w_ready (ss_world \<sigma>))
   | Inl (e, w1) \<Rightarrow> (\<exists>n errs x. n < length (cc_addresses cfg) \<and> length errs = n \<and> list_all tolerated errs
        \<and> \<not> contains_str (client_error_text x) ''BUSYGROUP'' \<and> e = CreateGroup (cc_group cfg) (cc_addresses cfg ! n) x
        \<and> w_trace w1 = w_trace w @ group_events (cc_group cfg) (take (Suc n) (cc_addresses cfg)) (errs @ [Some x])
        \<and> w_ready w1 = w_ready w)"
proof -
  obtain r w' where c: "create_groups env (cc_group cfg) (cc_addresses cfg) w = (r, w')" by fastforce
  obtain errs n where i: "n \<le> length (cc_addresses cfg)" "length errs = n"
      "w_trace w' = w_trace w @ group_events (cc_group cfg) (take n (cc_addresses cfg)) errs"
      "w_ready w' = w_ready w"
      "case r of
          None \<Rightarrow> n = length (cc_addresses cfg) \<and> (\<forall>x \<in> set errs. tolerated x)
        | Some e \<Rightarrow> 0 < n \<and> (\<forall>x \<in> set (butlast errs). tolerated x) \<and> \<not> tolerated (last errs)
            \<and> e = CreateGroup (cc_group cfg) (cc_addresses cfg ! (n - 1)) (the (last errs))"
    using create_groups_trace [OF c] by blast
  show ?thesis
  proof (cases r)
    case None
    then show ?thesis
      using i c by (auto simp: start_streams_def markReady_def list_all_iff)
  next
    case (Some e)
    then have f: "\<not> tolerated (last errs)" "0 < n" "\<forall>x \<in> set (butlast errs). tolerated x"
      "e = CreateGroup (cc_group cfg) (cc_addresses cfg ! (n - 1)) (the (last errs))"
      using i by auto
    obtain x where x: "last errs = Some x" "\<not> contains_str (client_error_text x) ''BUSYGROUP''"
      using f(1) by (auto simp: tolerated_def split: option.splits)
    obtain m where m: "n = Suc m" using f(2) by (cases n) auto
    have errs: "errs = butlast errs @ [Some x]" using i(2) f(2) x(1) append_butlast_last_id [of errs] by auto
    have start: "start_streams env cfg w = Inl (e, w')" using c Some by (simp add: start_streams_def)
    show ?thesis unfolding start sum.case prod.case
    proof (intro exI conjI)
      show "length (butlast errs) = m" "m < length (cc_addresses cfg)" using i(1,2) m by simp_all
      show "list_all tolerated (butlast errs)" using f(3) by (simp add: list_all_iff)
      show "e = CreateGroup (cc_group cfg) (cc_addresses cfg ! m) x" using f(4) m x(1) by simp
      show "w_trace w' = w_trace w @ group_events (cc_group cfg) (take (Suc m) (cc_addresses cfg)) (butlast errs @ [Some x])"
        using i(3) m errs by simp
    qed (use x(2) i(4) in simp_all)
  qed
qed

text \<open>
  Once the context is cancelled both loops return at their next iteration, the read loop with
  the context's error, without reading, claiming or dispatching anything more.
\<close>

lemma cancelled_loops_return:
  assumes "f_ctx env (w_state w) = (Some e, s')"
  shows "readLoop (Suc n) env cfg w =
           (Some (CtxErr e), w\<lparr>w_state := s', w_trace := w_trace w @ [ECtx (Some e)]\<rparr>)
    \<and> run_loop (Suc n) (reclaim_step env cfg) \<lparr>rs_cursor = c, rs_attempts = att, rs_world = w\<rparr> =
           (Some (), \<lparr>rs_cursor = c, rs_attempts = att,
             rs_world = w\<lparr>w_state := s', w_trace := w_trace w @ [ECtx (Some e)]\<rparr>\<rparr>)"
  using assms by (simp add: readLoop_def read_step_def reclaim_step_def perform_def)

lemma cancelled_loops_return_witness:
  "fst (readLoop 5 (demo_env\<lparr>f_ctx := \<lambda>s. (Some ''context canceled'', s)\<rparr>) demo_cfg demo_world)
     = Some (CtxErr ''context canceled'')"
  using cancelled_loops_return [of "demo_env\<lparr>f_ctx := \<lambda>s. (Some ''context canceled'', s)\<rparr>" demo_world
      "''context canceled''" "()" 4 demo_cfg]
  by (simp add: demo_world_def)

text \<open>
  \<open>Publish\<close> sends exactly one command, \<open>PUBLISH\<close> of the envelope in pub/sub mode and otherwise
  one \<open>XADD\<close> whose exact length limit is the configured one (none if it is not positive), returns
  the client's error, and reports it through \<open>OnError\<close> exactly when there is one and a handler.
\<close>

lemma publish_one_command:
  "let (err, w') = Publish env p out w in
   w_trace w' = w_trace w
     @ [if pub_mode p = ModePubSub then EPublish (out_topic out) (encodePubSubEnvelope out)
        else EXAdd \<lparr>xa_stream = out_topic out, xa_max_len = max 0 (pub_max_len p),
               xa_values = streamValues out\<rparr> err]
     @ (case err of Some e \<Rightarrow> if pub_on_error p then [EOnError (PublishErr e)] else [] | None \<Rightarrow> [])
   \<and> err = (if pub_mode p = ModePubSub then fst (f_publish env (out_topic out) (encodePubSubEnvelope out) (w_state w))
            else fst (f_xadd env (publish_args p out) (w_state w)))"
  by (auto simp: Publish_def report_pub_def perform_def publish_args_def max_def Let_def
      split: prod.splits option.splits)

text \<open>What the subscription delivered and the codec accepts.\<close>

fun decodable :: "event list \<Rightarrow> incoming list" where
  "decodable [] = []"
| "decodable (ENext (Msg c p) # es) =
     (case decodePubSubEnvelope c p of None \<Rightarrow> decodable es | Some m \<Rightarrow> m # decodable es)"
| "decodable (e # es) = decodable es"

lemma decodable_append [simp]: "decodable (xs @ ys) = decodable xs @ decodable ys"
  by (induction xs rule: decodable.induct) (simp_all split: option.splits)

lemma onError_decodable:
  "\<exists>es. w_trace (onError env cfg e w) = w_trace w @ es \<and> dispatched es = [] \<and> decodable es = []
     \<and> filter is_ack es = []"
  by (cases "cc_on_error cfg") (simp_all add: onError_def)

lemma pubsub_step_trace:
  assumes "pubsub_step env cfg w = (r, w')"
  shows "\<exists>es. w_trace w' = w_trace w @ es \<and> dispatched es = decodable es \<and> filter is_ack es = []"
proof -
  obtain nx w1 where p: "perform (f_next env) ENext w = (nx, w1)" by fastforce
  have t: "w_trace w1 = w_trace w @ [ENext nx]" using perform_eq_trace [OF p] by simp
  obtain c w2 where c: "perform (f_ctx env) ECtx w1 = (c, w2)" by fastforce
  have tc: "w_trace w2 = w_trace w @ [ENext nx, ECtx c]" using perform_eq_trace [OF c] t by simp
  show ?thesis
  proof (cases nx)
    case (Msg ch pl)
    show ?thesis
    proof (cases "decodePubSubEnvelope ch pl")
      case None
      obtain es where "w_trace (onError env cfg DecodeMessageErr w1) = w_trace w1 @ es"
        "dispatched es = []" "decodable es = []" "filter is_ack es = []" using onError_decodable by blast
      then show ?thesis
        using assms p t Msg None
        by (intro exI [of _ "ENext nx # es"]) (auto simp: pubsub_step_def)
    next
      case (Some m)
      obtain err w3 where d: "perform (f_dispatch env m) (\<lambda>_. EDispatch m) w1 = (err, w3)" by fastforce
      have td: "w_trace w3 = w_trace w @ [ENext nx, EDispatch m]" using perform_eq_trace [OF d] t by simp
      show ?thesis
      proof (cases err)
        case None
        then show ?thesis
          using assms p t Msg Some d td
          by (intro exI [of _ "[ENext nx, EDispatch m]"]) (auto simp: pubsub_step_def)
      next
        case e: (Some e)
        obtain es where "w_trace (onError env cfg (PubSubDispatchErr ch e) w3) = w_trace w3 @ es"
          "dispatched es = []" "decodable es = []" "filter is_ack es = []" using onError_decodable by blast
        then show ?thesis
          using assms p t Msg Some d td e
          by (intro exI [of _ "[ENext nx, EDispatch m] @ es"]) (auto simp: pubsub_step_def)
      qed
    qed
  next
    case CtxDone
    then show ?thesis
      using assms p c tc by (intro exI [of _ "[ENext nx, ECtx c]"]) (auto simp: pubsub_step_def)
  next
    case Closed
    then show ?thesis
      using assms p c tc by (intro exI [of _ "[ENext nx, ECtx c]"]) (auto simp: pubsub_step_def)
  qed
qed

text \<open>
  The pub/sub loop dispatches every message whose envelope decodes exactly once and in order of
  arrival, skips the others, and sends no acknowledgement.
\<close>

lemma pubsub_dispatches_once:
  fixes w :: "'s world"
  shows "\<exists>es. w_trace (snd (runPubSub n env cfg w)) = w_trace w @ es
     \<and> dispatched es = decodable es \<and> filter is_ack es = []"
proof -
  define I where "I = (\<lambda>v :: 's world. \<exists>es. w_trace v = w_trace w @ es
     \<and> dispatched es = decodable es \<and> filter is_ack es = [])"
  obtain err w1 where p: "perform (f_subscribe env (cc_addresses cfg)) (\<lambda>_. ESubscribe (cc_addresses cfg)) w = (err, w1)"
    by fastforce
  have t: "w_trace w1 = w_trace w @ [ESubscribe (cc_addresses cfg)]" using perform_eq_trace [OF p] by simp
  have I1: "I w1" unfolding I_def by (intro exI [of _ "[ESubscribe (cc_addresses cfg)]"]) (simp add: t)
  have Im: "I (markReady w1)"
    using I1 unfolding I_def markReady_def
    by (cases "w_ready w1") (auto intro!: exI [of _ "[ESubscribe (cc_addresses cfg), EReady]"] simp: t)
  have "I (snd (run_loop n (pubsub_step env cfg) (markReady w1)))"
  proof (rule run_loop_invariant [where I = I, OF Im])
    show "I z" if y: "I y" and s: "pubsub_step env cfg y = (r, z)" for y r z
    proof -
      obtain es where "w_trace y = w_trace w @ es" "dispatched es = decodable es"
        "filter is_ack es = []" using y unfolding I_def by blast
      moreover obtain es' where "w_trace z = w_trace y @ es'" "dispatched es' = decodable es'"
        "filter is_ack es' = []" using pubsub_step_trace [OF s] by blast
      ultimately show ?thesis unfolding I_def by (intro exI [of _ "es @ es'"]) simp
    qed
  qed
  then have "I (snd (runPubSub n env cfg w))" using p I1 by (cases err) (simp_all add: runPubSub_def)
  then show ?thesis by (simp add: I_def)
qed

text \<open>
  \<open>XREADGROUP\<close> wants as many ids as streams. The request has one id whatever the number of
  addresses, so it is well formed for exactly one address.
\<close>

lemma read_request_balanced:
  "cc_addresses cfg \<noteq> [] \<Longrightarrow>
   (\<exists>ids. ra_streams (read_request cfg) = cc_addresses cfg @ ids \<and> length ids = length (cc_addresses cfg))
   \<longleftrightarrow> length (cc_addresses cfg) = 1"
  by (auto simp: read_request_def)

end
