(* ===== verification/Dom.thy ===== *)
theory Dom
  imports Utf8
begin

text \<open>
  The raw document model, package asyncapi: yaml nodes, the DOM objects the parser reads, and the
  custom decoders of bindings, security requirements and parameter locations. The yaml library's
  \<open>Node.Decode\<close> into strings, lists and maps is a record of functions. A pointer that may be nil is an
  option, a map is the association list of its entries in the order a loop visits them; a JSON
  Schema is represented by the node it was read from, since its type belongs to a library.
  \<open>d_common\<close> says whether the extensions and the position shared by all objects decode.
\<close>

section \<open>Yaml nodes\<close>

datatype ykind = DocumentNode | SequenceNode | MappingNode | ScalarNode | AliasNode | ZeroNode

text \<open>\<open>y_meta\<close> stands for the style, the comments and the position, which the code only copies.\<close>

datatype ynode = YNode (y_kind: ykind) (y_tag: string) (y_value: string) (y_anchor: string)
  (y_alias: "ynode option") (y_meta: string) (y_content: "ynode list")

definition zero_node :: ynode where
  "zero_node = YNode ZeroNode [] [] [] None [] []"

abbreviation scalar :: "string \<Rightarrow> ynode" where
  "scalar s \<equiv> YNode ScalarNode ''!!str'' s [] None [] []"

abbreviation mapping_node :: "ynode list \<Rightarrow> ynode" where
  "mapping_node c \<equiv> YNode MappingNode ''!!map'' [] [] None [] c"

abbreviation sequence_node :: "ynode list \<Rightarrow> ynode" where
  "sequence_node c \<equiv> YNode SequenceNode ''!!seq'' [] [] None [] c"

record decoder =
  d_string :: "ynode \<Rightarrow> string option"
  d_strings :: "ynode \<Rightarrow> string list option"
  d_map :: "ynode \<Rightarrow> ynode smap option"
  d_int :: "ynode \<Rightarrow> int option"
  d_common :: "ynode \<Rightarrow> unit option"

type_synonym raw_schema = ynode
type_synonym extensions = "ynode smap"

section \<open>Bindings, security, locations\<close>

record binding =
  b_version :: string
  b_fields :: "ynode smap"

type_synonym bindings = "binding option smap"

definition is_extension_key :: "string \<Rightarrow> bool" where
  "is_extension_key k \<longleftrightarrow> 1 < length k \<and> k ! 0 = CHR ''x'' \<and> k ! 1 = CHR ''-''"

fun binding_fields :: "decoder \<Rightarrow> ynode smap \<Rightarrow> binding \<Rightarrow> binding option" where
  "binding_fields D [] b = Some b"
| "binding_fields D ((k, v) # raw) b =
     (if k = ''bindingVersion'' then
        (case d_string D v of None \<Rightarrow> None | Some t \<Rightarrow> binding_fields D raw (b\<lparr>b_version := t\<rparr>))
      else if is_extension_key k then binding_fields D raw b
      else binding_fields D raw (b\<lparr>b_fields := smap_set (b_fields b) k v\<rparr>))"

definition decodeBinding :: "decoder \<Rightarrow> ynode \<Rightarrow> binding option" where
  "decodeBinding D n = (case d_map D n of
       None \<Rightarrow> None
     | Some raw \<Rightarrow>
         (case binding_fields D raw \<lparr>b_version = [], b_fields = []\<rparr> of
            None \<Rightarrow> None
          | Some b \<Rightarrow> (case d_common D n of None \<Rightarrow> None | Some _ \<Rightarrow> Some b)))"

text \<open>The protocol fields of a binding never hold the version or a specification extension.\<close>

definition protocol_fields :: "binding \<Rightarrow> bool" where
  "protocol_fields b \<longleftrightarrow> list_all (\<lambda>(k, v). \<not> is_extension_key k \<and> k \<noteq> ''bindingVersion'') (b_fields b)"

lemma protocol_fields_set:
  "protocol_fields b \<Longrightarrow> \<not> is_extension_key k \<Longrightarrow> k \<noteq> ''bindingVersion'' \<Longrightarrow>
   protocol_fields (b\<lparr>b_fields := smap_set (b_fields b) k v\<rparr>)"
proof -
  assume a: "protocol_fields b" "\<not> is_extension_key k" "k \<noteq> ''bindingVersion''"
  have "list_all (\<lambda>(k, v). \<not> is_extension_key k \<and> k \<noteq> ''bindingVersion'') (smap_set m k v)"
    if "list_all (\<lambda>(k, v). \<not> is_extension_key k \<and> k \<noteq> ''bindingVersion'') m" for m
    using that a(2,3) by (induction m k v rule: smap_set.induct) auto
  then show ?thesis using a(1) by (simp add: protocol_fields_def)
qed

lemma binding_fields_protocol:
  "binding_fields D raw b = Some b' \<Longrightarrow> protocol_fields b \<Longrightarrow> protocol_fields b'"
proof (induction raw arbitrary: b)
  case Nil
  then show ?case by simp
next
  case (Cons kv raw)
  obtain k v where kv: "kv = (k, v)" by (cases kv)
  consider (version) t where "k = ''bindingVersion''" "d_string D v = Some t"
    | (ext) "k \<noteq> ''bindingVersion''" "is_extension_key k"
    | (field) "k \<noteq> ''bindingVersion''" "\<not> is_extension_key k"
    using Cons.prems(1) by (cases "k = ''bindingVersion''") (auto simp: kv split: option.splits)
  then show ?case
  proof cases
    case version
    have "protocol_fields (b\<lparr>b_version := t\<rparr>)" using Cons.prems(2) by (simp add: protocol_fields_def)
    then show ?thesis using Cons.IH Cons.prems(1) version by (simp add: kv)
  next
    case ext
    then show ?thesis using Cons.IH Cons.prems by (simp add: kv)
  next
    case field
    then show ?thesis using Cons.IH Cons.prems(1) protocol_fields_set [OF Cons.prems(2)] by (simp add: kv)
  qed
qed

datatype security_requirement = SecRef string | SecSchemes "string list smap"

fun security_schemes :: "decoder \<Rightarrow> ynode smap \<Rightarrow> string list smap \<Rightarrow> string list smap option" where
  "security_schemes D [] m = Some m"
| "security_schemes D ((name, scopes) # raw) m =
     (case (case y_kind scopes of
              SequenceNode \<Rightarrow> d_strings D scopes
            | ScalarNode \<Rightarrow>
                map_option (\<lambda>single. if single \<noteq> [] then [single] else []) (d_string D scopes)
            | _ \<Rightarrow> Some []) of
        None \<Rightarrow> None
      | Some l \<Rightarrow> security_schemes D raw (smap_set m name l))"

definition decodeSecurityRequirement :: "decoder \<Rightarrow> ynode \<Rightarrow> security_requirement option" where
  "decodeSecurityRequirement D n = (case d_map D n of
       None \<Rightarrow> None
     | Some raw \<Rightarrow>
         (case map_of raw ''$ref'' of
            Some r \<Rightarrow>
              if length raw = 1 then map_option SecRef (d_string D r)
              else map_option SecSchemes (security_schemes D raw [])
          | None \<Rightarrow> map_option SecSchemes (security_schemes D raw [])))"

definition decodeParameterLocation :: "decoder \<Rightarrow> string list \<Rightarrow> ynode \<Rightarrow> string list option" where
  "decodeParameterLocation D old n = (case y_kind n of
       ScalarNode \<Rightarrow> map_option (\<lambda>single. if single \<noteq> [] then [single] else old) (d_string D n)
     | SequenceNode \<Rightarrow> d_strings D n
     | _ \<Rightarrow> None)"

section \<open>Objects\<close>

record raw_parameter =
  rp_enum :: "string list"
  rp_default :: string
  rp_description :: string
  rp_location :: "string list"
  rp_examples :: "string list"

record raw_parameter_ref =
  rpr_ref :: string
  rpr_inline :: raw_parameter

record correlation_id =
  ci_description :: string
  ci_location :: string
  ci_ref :: string

record tag =
  tag_name :: string
  tag_description :: string

record raw_message_trait =
  mt_name :: string
  mt_title :: string
  mt_summary :: string
  mt_description :: string
  mt_headers :: "raw_schema option"
  mt_correlation :: "correlation_id option"
  mt_content_type :: string
  mt_bindings :: bindings
  mt_schema_format :: string
  mt_tags :: "tag list"
  mt_ref :: string

record raw_message =
  rm_name :: string
  rm_title :: string
  rm_summary :: string
  rm_description :: string
  rm_headers :: "raw_schema option"
  rm_payload :: "raw_schema option"
  rm_correlation :: "correlation_id option"
  rm_content_type :: string
  rm_bindings :: bindings
  rm_schema_format :: string
  rm_tags :: "tag list"
  rm_traits :: "raw_message_trait option list"
  rm_extensions :: extensions

record raw_message_ref =
  rmr_ref :: string
  rmr_inline :: raw_message

type_synonym raw_messages = "raw_message_ref option smap"

record raw_channel_trait =
  ct_servers :: "string option list"
  ct_parameters :: "raw_parameter_ref option smap"
  ct_title :: string
  ct_summary :: string
  ct_description :: string
  ct_bindings :: bindings
  ct_tags :: "tag list"
  ct_ref :: string

text \<open>A server reference is its \<open>$ref\<close>; a list of them may hold nil.\<close>

record raw_channel =
  rc_address :: string
  rc_servers :: "string option list"
  rc_messages :: raw_messages
  rc_parameters :: "raw_parameter_ref option smap"
  rc_title :: string
  rc_summary :: string
  rc_description :: string
  rc_bindings :: bindings
  rc_tags :: "tag list"
  rc_traits :: "raw_channel_trait option list"
  rc_extensions :: extensions

record raw_channel_ref =
  rcr_ref :: string
  rcr_inline :: raw_channel

record raw_operation_trait =
  ot_title :: string
  ot_summary :: string
  ot_description :: string
  ot_security :: "security_requirement list"
  ot_bindings :: bindings
  ot_tags :: "tag list"
  ot_ref :: string

record raw_reply =
  rr_channel :: "raw_channel_ref option"
  rr_messages :: "raw_message_ref option list"
  rr_title :: string
  rr_summary :: string
  rr_description :: string
  rr_extensions :: extensions

record raw_operation =
  ro_ref :: string
  ro_action :: string
  ro_channel :: "raw_channel_ref option"
  ro_messages :: "raw_message_ref option list"
  ro_title :: string
  ro_summary :: string
  ro_description :: string
  ro_security :: "security_requirement list"
  ro_bindings :: bindings
  ro_traits :: "raw_operation_trait option list"
  ro_tags :: "tag list"
  ro_reply :: "raw_reply option"
  ro_extensions :: extensions

record raw_server =
  rs_ref :: string
  rs_host :: string
  rs_protocol :: string
  rs_protocol_version :: string
  rs_pathname :: string
  rs_title :: string
  rs_summary :: string
  rs_description :: string
  rs_security :: "security_requirement list"
  rs_bindings :: bindings
  rs_tags :: "tag list"

record info =
  info_title :: string
  info_version :: string
  info_description :: string
  info_terms :: string

record spec =
  sp_asyncapi :: string
  sp_id :: string
  sp_info :: info
  sp_default_content_type :: string
  sp_servers :: "raw_server option smap"
  sp_operations :: "raw_operation option smap"

end
