(* ===== verification/ParserModel.thy ===== *)
theory ParserModel
  imports Dom
begin

text \<open>
  The semantic parser, package asyncapi/parser: the parsed model, the redis extension, trait merging,
  references with their caches, channels, messages, operations, servers and the whole document.

  Parameters and messages are shared between channels through pointers and some of their fields are
  written after they were cached, so they live in a store and are referred to by address. The
  reference context, node resolution and schema parsing belong to libraries: they are the fields of
  an environment. Errors keep their kind; positions and the chain of wrapping messages are left out.
\<close>

section \<open>The parsed model\<close>

type_synonym schema = ynode
type_synonym addr = nat

record parameter =
  pa_name :: string
  pa_enum :: "string list"
  pa_default :: string
  pa_description :: string
  pa_location :: "string list"

record message =
  ms_spec_name :: string
  ms_name :: string
  ms_title :: string
  ms_summary :: string
  ms_description :: string
  ms_payload :: "schema option"
  ms_headers :: "schema option"
  ms_content_type :: string
  ms_correlation :: "correlation_id option"
  ms_bindings :: bindings
  ms_tags :: "tag list"
  ms_extensions :: extensions

record redis_channel =
  rcb_type :: string
  rcb_max_len :: int
  rcb_version :: string

record redis_operation =
  rob_group :: string
  rob_version :: string

record channel =
  ch_name :: string
  ch_address :: string
  ch_title :: string
  ch_summary :: string
  ch_description :: string
  ch_messages :: "addr list"
  ch_parameters :: "addr smap"
  ch_servers :: "string list"
  ch_bindings :: bindings
  ch_redis :: "redis_channel option"
  ch_tags :: "tag list"
  ch_extensions :: extensions

record reply =
  re_channel :: channel
  re_messages :: "addr list"
  re_title :: string
  re_summary :: string
  re_description :: string
  re_extensions :: extensions

record operation =
  op_name :: string
  op_action :: string
  op_channel :: "channel option"
  op_messages :: "addr list"
  op_title :: string
  op_summary :: string
  op_description :: string
  op_security :: "security_requirement list"
  op_bindings :: bindings
  op_redis :: "redis_operation option"
  op_reply :: "reply option"
  op_tags :: "tag list"
  op_extensions :: extensions

record server =
  se_name :: string
  se_host :: string
  se_protocol :: string
  se_protocol_version :: string
  se_pathname :: string
  se_title :: string
  se_summary :: string
  se_description :: string
  se_security :: "security_requirement list"
  se_bindings :: bindings
  se_tags :: "tag list"

record api =
  api_version :: string
  api_info :: info
  api_id :: string
  api_default_content_type :: string
  api_servers :: "server smap"
  api_channels :: "channel list"
  api_operations :: "operation list"

definition SendAction :: string where "SendAction = ''send''"
definition ReceiveAction :: string where "ReceiveAction = ''receive''"

datatype perr =
    BadVersion string
  | HostRequired
  | ProtocolRequired
  | Unresolved string
  | Undecodable string
  | ChainedTrait string
  | TraitOverrides string
  | InvalidAction string
  | ChannelRequired
  | AddressRequired
  | UndeclaredParameter string
  | NoMessages
  | ReplyChannelRequired
  | ReplyNoMessages
  | BadSchemaFormat string
  | BadContentType string
  | BadSchema
  | BadRedis string
  | NilDereference
  | OutOfFuel

section \<open>Redis extension\<close>

definition RedisTypeStream :: string where "RedisTypeStream = ''stream''"
definition RedisTypePubSub :: string where "RedisTypePubSub = ''pubsub''"
definition RedisBindingVersion :: string where "RedisBindingVersion = ''0.2.0''"
definition xRedisExtension :: string where "xRedisExtension = ''x-redis''"

record redis_fields =
  rf_fields :: "ynode smap"
  rf_version :: string
  rf_has_field :: bool

definition rf_has :: "redis_fields \<Rightarrow> string \<Rightarrow> bool" where
  "rf_has f key \<longleftrightarrow> map_of (rf_fields f) key \<noteq> None"

definition rf_string :: "decoder \<Rightarrow> redis_fields \<Rightarrow> string \<Rightarrow> string \<Rightarrow> perr + string" where
  "rf_string D f key dst = (case map_of (rf_fields f) key of
       None \<Rightarrow> Inr dst
     | Some n \<Rightarrow> (case d_string D n of None \<Rightarrow> Inl (BadRedis key) | Some v \<Rightarrow> Inr v))"

definition rf_integer :: "decoder \<Rightarrow> redis_fields \<Rightarrow> string \<Rightarrow> int \<Rightarrow> perr + int" where
  "rf_integer D f key dst = (case map_of (rf_fields f) key of
       None \<Rightarrow> Inr dst
     | Some n \<Rightarrow>
         if y_kind n \<noteq> ScalarNode \<or> y_tag n \<noteq> ''!!int'' then Inl (BadRedis key)
         else (case d_int D n of None \<Rightarrow> Inl (BadRedis key) | Some v \<Rightarrow> Inr v))"

fun checkUnknownFields :: "string list \<Rightarrow> ynode smap \<Rightarrow> perr option" where
  "checkUnknownFields known [] = None"
| "checkUnknownFields known ((k, v) # fs) =
     (if is_extension_key k then checkUnknownFields known fs
      else if k \<notin> set known then Some (BadRedis k)
      else checkUnknownFields known fs)"

definition checkBindingVersion :: "redis_fields \<Rightarrow> perr option" where
  "checkBindingVersion f =
     (if rf_version f = [] \<or> rf_version f = RedisBindingVersion then None else Some (BadRedis ''bindingVersion''))"

definition extensionNode :: "extensions \<Rightarrow> ynode" where
  "extensionNode exts = (case map_of exts xRedisExtension of None \<Rightarrow> zero_node | Some n \<Rightarrow> n)"

fun redis_collect :: "decoder \<Rightarrow> ynode smap \<Rightarrow> redis_fields \<Rightarrow> perr + redis_fields" where
  "redis_collect D [] f = Inr f"
| "redis_collect D ((k, v) # raw) f =
     (if k = ''bindingVersion'' then
        (case d_string D v of
           None \<Rightarrow> Inl (BadRedis ''bindingVersion'')
         | Some t \<Rightarrow> redis_collect D raw (f\<lparr>rf_version := t\<rparr>))
      else if is_extension_key k then redis_collect D raw f
      else redis_collect D raw (f\<lparr>rf_fields := smap_set (rf_fields f) k v, rf_has_field := True\<rparr>))"

definition xRedisExtensionFields :: "decoder \<Rightarrow> extensions \<Rightarrow> perr + redis_fields option" where
  "xRedisExtensionFields D exts =
     (let n = extensionNode exts in
      if n = zero_node then Inr None
      else if y_kind n \<noteq> MappingNode then Inl (BadRedis xRedisExtension)
      else case d_map D n of
        None \<Rightarrow> Inl (BadRedis xRedisExtension)
      | Some raw \<Rightarrow> bind_res (redis_collect D raw \<lparr>rf_fields = [], rf_version = [], rf_has_field = False\<rparr>)
                      (\<lambda>f. Inr (Some f)))"

definition rejectUnpublishedBinding :: "bindings \<Rightarrow> perr option" where
  "rejectUnpublishedBinding bs = (case map_of bs ''redis'' of
       Some (Some b) \<Rightarrow>
         if b_fields b = [] \<and> b_version b \<noteq> RedisBindingVersion then None else Some (BadRedis ''bindings.redis'')
     | _ \<Rightarrow> None)"

definition parseRedisChannelBinding :: "decoder \<Rightarrow> bindings \<Rightarrow> extensions \<Rightarrow> perr + redis_channel option" where
  "parseRedisChannelBinding D bs exts =
     guard_res (rejectUnpublishedBinding bs)
       (bind_res (xRedisExtensionFields D exts) (\<lambda>fo.
          case fo of
            None \<Rightarrow> Inr None
          | Some f \<Rightarrow>
              bind_res (rf_string D f ''type'' []) (\<lambda>ty.
              bind_res (rf_integer D f ''maxLen'' 0) (\<lambda>ml.
              guard_res (checkUnknownFields [''type'', ''maxLen''] (rf_fields f))
                (if \<not> rf_has_field f then Inr None
                 else guard_res (checkBindingVersion f)
                   (if \<not> rf_has f ''type'' then Inl (BadRedis ''type'')
                    else if ty \<noteq> RedisTypeStream \<and> ty \<noteq> RedisTypePubSub then Inl (BadRedis ''type'')
                    else if rf_has f ''maxLen'' \<and> ty = RedisTypePubSub then Inl (BadRedis ''maxLen'')
                    else if rf_has f ''maxLen'' \<and> ml < 1 then Inl (BadRedis ''maxLen'')
                    else Inr (Some \<lparr>rcb_type = ty, rcb_max_len = ml, rcb_version = rf_version f\<rparr>)))))))"

definition parseRedisOperationBinding :: "decoder \<Rightarrow> bindings \<Rightarrow> extensions \<Rightarrow> perr + redis_operation option" where
  "parseRedisOperationBinding D bs exts =
     guard_res (rejectUnpublishedBinding bs)
       (bind_res (xRedisExtensionFields D exts) (\<lambda>fo.
          case fo of
            None \<Rightarrow> Inr None
          | Some f \<Rightarrow>
              bind_res (rf_string D f ''consumerGroup'' []) (\<lambda>g.
              guard_res (checkUnknownFields [''consumerGroup''] (rf_fields f))
                (if \<not> rf_has_field f then Inr None
                 else guard_res (checkBindingVersion f)
                   (Inr (Some \<lparr>rob_group = g, rob_version = rf_version f\<rparr>))))))"

definition validateRedisOperationBinding :: "operation \<Rightarrow> perr option" where
  "validateRedisOperationBinding op = (case op_redis op of
       None \<Rightarrow> None
     | Some r \<Rightarrow>
         if rob_group r = [] then None
         else if op_action op \<noteq> ReceiveAction then Some (BadRedis ''consumerGroup'')
         else (case op_channel op of
                 None \<Rightarrow> Some (BadRedis ''consumerGroup'')
               | Some ch \<Rightarrow>
                   (case ch_redis ch of
                      None \<Rightarrow> Some (BadRedis ''consumerGroup'')
                    | Some b \<Rightarrow> if rcb_type b \<noteq> RedisTypeStream then Some (BadRedis ''consumerGroup'') else None)))"

section \<open>Small checks\<close>

definition ptrLastSegment :: "string \<Rightarrow> string" where
  "ptrLastSegment ptr = (case last_index_byte ptr CHR ''/'' of Some i \<Rightarrow> drop (i + 1) ptr | None \<Rightarrow> ptr)"

definition defaultContentType :: "spec \<Rightarrow> string" where
  "defaultContentType s = (if sp_default_content_type s \<noteq> [] then sp_default_content_type s else ''application/json'')"

definition validateInfo :: "info \<Rightarrow> string option" where
  "validateInfo i = (if info_title i = [] then Some ''info.title is required''
     else if info_version i = [] then Some ''info.version is required'' else None)"

text \<open>\<open>strings.SplitN(v, ".", 3)\<close>: at most three parts, the last with the rest of the text.\<close>

fun splitN :: "nat \<Rightarrow> char \<Rightarrow> string \<Rightarrow> string list" where
  "splitN 0 c s = [s]"
| "splitN (Suc 0) c s = [s]"
| "splitN (Suc (Suc n)) c s = (case index_byte s c of
       None \<Rightarrow> [s] | Some i \<Rightarrow> take i s # splitN (Suc n) c (drop (Suc i) s))"

definition parseVersion :: "string \<Rightarrow> perr + string" where
  "parseVersion v =
     (case splitN 3 CHR ''.'' v of
        major # minor # _ \<Rightarrow>
          if major = ''3'' then
            (if minor = ''0'' \<or> minor = ''1'' then Inr v else Inl (BadVersion v))
          else Inl (BadVersion v)
      | _ \<Rightarrow> Inl (BadVersion v))"

definition schema_formats :: "string list" where
  "schema_formats = ['''', ''application/vnd.aai.asyncapi'', ''application/vnd.aai.asyncapi+json'',
     ''application/vnd.aai.asyncapi;version=3.0.0'', ''application/vnd.aai.asyncapi+json;version=3.0.0'',
     ''application/vnd.aai.asyncapi;version=3.1.0'', ''application/vnd.aai.asyncapi+json;version=3.1.0'']"

definition validateSchemaFormat :: "string \<Rightarrow> perr option" where
  "validateSchemaFormat f = (if f \<in> set schema_formats then None else Some (BadSchemaFormat f))"

definition json_content_type :: "string \<Rightarrow> bool" where
  "json_content_type ct \<longleftrightarrow> ct = ''application/json'' \<or> has_suffix ct ''+json''"

definition validateContentType :: "string \<Rightarrow> perr option" where
  "validateContentType ct = (if json_content_type ct then None else Some (BadContentType ct))"

text \<open>The \<open>{token}\<close> parameters of an address; each turn drops at least the two braces.\<close>

function addressTokens :: "string \<Rightarrow> string list" where
  "addressTokens address = (case index_byte address CHR ''{'' of
       None \<Rightarrow> []
     | Some start \<Rightarrow>
         (case index_byte (drop start address) CHR ''}'' of
            None \<Rightarrow> []
          | Some e \<Rightarrow>
              drop (start + 1) (take (start + e) address) # addressTokens (drop (start + e + 1) address)))"
  by pat_completeness auto
termination
  by (relation "measure length") (auto dest!: index_byte_Some)

declare addressTokens.simps [simp del]

definition validateAddressParams :: "channel \<Rightarrow> perr option" where
  "validateAddressParams ch =
     (case List.find (\<lambda>t. map_of (ch_parameters ch) t = None) (addressTokens (ch_address ch)) of
        None \<Rightarrow> None | Some t \<Rightarrow> Some (UndeclaredParameter t))"

section \<open>Trait merging\<close>

definition setString :: "string \<Rightarrow> string \<Rightarrow> string \<Rightarrow> perr + string" where
  "setString dst src field =
     (if src = [] then Inr dst else if dst \<noteq> [] then Inl (TraitOverrides field) else Inr src)"

definition mergeSecurity :: "security_requirement list \<Rightarrow> security_requirement list \<Rightarrow> string \<Rightarrow> perr + security_requirement list" where
  "mergeSecurity dst src field =
     (if src = [] then Inr dst else if dst \<noteq> [] then Inl (TraitOverrides field) else Inr src)"

definition mergeTags :: "tag list \<Rightarrow> tag list \<Rightarrow> string \<Rightarrow> perr + tag list" where
  "mergeTags dst src field =
     (if src = [] then Inr dst else if dst \<noteq> [] then Inl (TraitOverrides field) else Inr src)"

fun mergeBindings :: "bindings \<Rightarrow> bindings \<Rightarrow> perr + bindings" where
  "mergeBindings dst [] = Inr dst"
| "mergeBindings dst ((proto, None) # src) = mergeBindings dst src"
| "mergeBindings dst ((proto, Some b) # src) =
     (if map_of dst proto \<noteq> None then Inl (TraitOverrides (''bindings.'' @ proto))
      else mergeBindings (smap_set dst proto (Some b)) src)"

definition apply_operation_trait :: "raw_operation_trait \<Rightarrow> operation \<Rightarrow> perr + operation" where
  "apply_operation_trait t op =
     bind_res (setString (op_title op) (ot_title t) ''title'') (\<lambda>a.
     bind_res (setString (op_summary op) (ot_summary t) ''summary'') (\<lambda>b.
     bind_res (setString (op_description op) (ot_description t) ''description'') (\<lambda>c.
     bind_res (mergeSecurity (op_security op) (ot_security t) ''security'') (\<lambda>d.
     bind_res (mergeBindings (op_bindings op) (ot_bindings t)) (\<lambda>e.
       Inr (op\<lparr>op_title := a, op_summary := b, op_description := c, op_security := d, op_bindings := e\<rparr>))))))"

definition apply_message_trait :: "raw_message \<Rightarrow> raw_message_trait \<Rightarrow> message \<Rightarrow> perr + message" where
  "apply_message_trait raw t m =
     bind_res (setString (ms_name m) (mt_name t) ''name'') (\<lambda>n.
     bind_res (setString (ms_title m) (mt_title t) ''title'') (\<lambda>a.
     bind_res (setString (ms_summary m) (mt_summary t) ''summary'') (\<lambda>b.
     bind_res (setString (ms_description m) (mt_description t) ''description'') (\<lambda>c.
     bind_res (setString (ms_content_type m) (mt_content_type t) ''contentType'') (\<lambda>d.
     bind_res (mergeBindings (ms_bindings m) (mt_bindings t)) (\<lambda>e.
       if mt_headers t \<noteq> None \<and> rm_headers raw \<noteq> None then Inl (TraitOverrides ''headers'')
       else if mt_correlation t \<noteq> None \<and> ms_correlation m \<noteq> None then Inl (TraitOverrides ''correlationId'')
       else Inr (m\<lparr>ms_name := n, ms_title := a, ms_summary := b, ms_description := c,
                    ms_content_type := d, ms_bindings := e\<rparr>)))))))"

definition apply_channel_trait :: "raw_channel_trait \<Rightarrow> channel \<Rightarrow> perr + channel" where
  "apply_channel_trait t ch =
     bind_res (setString (ch_title ch) (ct_title t) ''title'') (\<lambda>a.
     bind_res (setString (ch_summary ch) (ct_summary t) ''summary'') (\<lambda>b.
     bind_res (setString (ch_description ch) (ct_description t) ''description'') (\<lambda>c.
     bind_res (mergeBindings (ch_bindings ch) (ct_bindings t)) (\<lambda>e.
       Inr (ch\<lparr>ch_title := a, ch_summary := b, ch_description := c, ch_bindings := e\<rparr>)))))"

end
