(* ===== verification/Parser.thy ===== *)
theory Parser
  imports ParserModel
begin

text \<open>
  The stateful half of package asyncapi/parser: the store, the reference context, the caches, and the
  parsing of servers, parameters, messages, channels, replies, operations and the document; then the
  properties of what a successful parse returns.
\<close>

section \<open>State and environment\<close>

type_synonym refkey = "string \<times> string"

text \<open>
  The library calls: \<open>ResolveCtx.Key/AddKey/Delete\<close> on a context of type \<open>'x\<close>,
  \<open>jsonpointer.Resolve\<close> on the document root, \<open>Node.Decode\<close> into each DOM type, and the schema
  parser.
\<close>

record 'x environ =
  e_key :: "'x \<Rightarrow> string \<Rightarrow> refkey option"
  e_add :: "refkey \<Rightarrow> 'x \<Rightarrow> 'x option"
  e_delete :: "refkey \<Rightarrow> 'x \<Rightarrow> 'x"
  e_resolve :: "string \<Rightarrow> ynode option"
  e_server :: "ynode \<Rightarrow> raw_server option"
  e_operation :: "ynode \<Rightarrow> raw_operation option"
  e_channel :: "ynode \<Rightarrow> raw_channel option"
  e_parameter :: "ynode \<Rightarrow> raw_parameter option"
  e_message :: "ynode \<Rightarrow> raw_message_ref option"
  e_operation_trait :: "ynode \<Rightarrow> raw_operation_trait option"
  e_channel_trait :: "ynode \<Rightarrow> raw_channel_trait option"
  e_message_trait :: "ynode \<Rightarrow> raw_message_trait option"
  e_schema :: "raw_schema \<Rightarrow> 'x \<Rightarrow> (schema \<times> 'x) option"
  e_decoder :: decoder
  e_default_content_type :: string

record 'x pstate =
  ps_ctx :: 'x
  ps_channels :: "string \<rightharpoonup> channel"
  ps_messages :: "string \<rightharpoonup> addr"
  ps_parameters :: "string \<rightharpoonup> addr"
  ps_mstore :: "message list"
  ps_pstore :: "parameter list"

type_synonym ('x, 'a) parse = "'x pstate \<Rightarrow> perr + 'a \<times> 'x pstate"

definition preturn :: "'a \<Rightarrow> ('x, 'a) parse" where
  "preturn a = (\<lambda>s. Inr (a, s))"

definition pfail :: "perr \<Rightarrow> ('x, 'a) parse" where
  "pfail e = (\<lambda>s. Inl e)"

definition pbind :: "('x, 'a) parse \<Rightarrow> ('a \<Rightarrow> ('x, 'b) parse) \<Rightarrow> ('x, 'b) parse" where
  "pbind m f = (\<lambda>s. case m s of Inl e \<Rightarrow> Inl e | Inr (a, s') \<Rightarrow> f a s')"

definition plift :: "perr + 'a \<Rightarrow> ('x, 'a) parse" where
  "plift r = (\<lambda>s. map_sum id (\<lambda>a. (a, s)) r)"

definition pguard :: "perr option \<Rightarrow> ('x, unit) parse" where
  "pguard c = (\<lambda>s. case c of None \<Rightarrow> Inr ((), s) | Some e \<Rightarrow> Inl e)"

definition pget :: "('x pstate \<Rightarrow> 'a) \<Rightarrow> ('x, 'a) parse" where
  "pget f = (\<lambda>s. Inr (f s, s))"

definition pmodify :: "('x pstate \<Rightarrow> 'x pstate) \<Rightarrow> ('x, unit) parse" where
  "pmodify f = (\<lambda>s. Inr ((), f s))"

lemma pbind_Inr: "pbind m f s = Inr (b, t) \<longleftrightarrow> (\<exists>a s'. m s = Inr (a, s') \<and> f a s' = Inr (b, t))"
  by (auto simp: pbind_def split: sum.splits)

lemma parse_prims [simp]:
  "preturn a s = Inr (b, t) \<longleftrightarrow> a = b \<and> s = t"
  "pfail e s = Inr (b, t) \<longleftrightarrow> False"
  "plift r s = Inr (b, t) \<longleftrightarrow> r = Inr b \<and> s = t"
  "pguard c s = Inr (u, t) \<longleftrightarrow> c = None \<and> s = t"
  "pget f s = Inr (b, t) \<longleftrightarrow> f s = b \<and> s = t"
  "pmodify g s = Inr (u, t) \<longleftrightarrow> g s = t"
  by (auto simp: preturn_def pfail_def plift_def pguard_def pget_def pmodify_def map_sum_def
      split: option.splits sum.splits)

definition plift_opt :: "perr \<Rightarrow> 'a option \<Rightarrow> ('x, 'a) parse" where
  "plift_opt e o' = (case o' of None \<Rightarrow> pfail e | Some a \<Rightarrow> preturn a)"

lemma plift_opt_Inr [simp]: "plift_opt e o' s = Inr (b, t) \<longleftrightarrow> o' = Some b \<and> s = t"
  by (cases o') (simp_all add: plift_opt_def)

section \<open>References\<close>

definition ref_key :: "'x environ \<Rightarrow> string \<Rightarrow> ('x, refkey) parse" where
  "ref_key E ref = pbind (pget (\<lambda>s. e_key E (ps_ctx s) ref)) (plift_opt (Unresolved ref))"

definition add_key :: "'x environ \<Rightarrow> string \<Rightarrow> refkey \<Rightarrow> ('x, unit) parse" where
  "add_key E ref key =
     pbind (pget (\<lambda>s. e_add E key (ps_ctx s))) (\<lambda>r.
     pbind (plift_opt (Unresolved ref) r) (\<lambda>x. pmodify (\<lambda>s. s\<lparr>ps_ctx := x\<rparr>)))"

definition delete_key :: "'x environ \<Rightarrow> refkey \<Rightarrow> ('x, unit) parse" where
  "delete_key E key = pmodify (\<lambda>s. s\<lparr>ps_ctx := e_delete E key (ps_ctx s)\<rparr>)"

text \<open>\<open>AddKey\<close>, \<open>Resolve\<close>, \<open>Decode\<close>, the body, and the deferred \<open>Delete\<close>.\<close>

definition within_ref :: "'x environ \<Rightarrow> string \<Rightarrow> refkey \<Rightarrow> (ynode \<Rightarrow> 'r option) \<Rightarrow> ('r \<Rightarrow> ('x, 'a) parse) \<Rightarrow> ('x, 'a) parse" where
  "within_ref E ref key dec body =
     pbind (add_key E ref key) (\<lambda>_.
     pbind (plift_opt (Unresolved ref) (e_resolve E (snd key))) (\<lambda>node.
     pbind (plift_opt (Undecodable ref) (dec node)) (\<lambda>raw.
     pbind (body raw) (\<lambda>a.
     pbind (delete_key E key) (\<lambda>_. preturn a)))))"

definition resolve_plain :: "'x environ \<Rightarrow> (ynode \<Rightarrow> 'r option) \<Rightarrow> string \<Rightarrow> ('x, 'r) parse" where
  "resolve_plain E dec ref = pbind (ref_key E ref) (\<lambda>key. within_ref E ref key dec preturn)"

definition resolveServerRef :: "'x environ \<Rightarrow> string \<Rightarrow> ('x, raw_server) parse" where
  "resolveServerRef E ref = resolve_plain E (e_server E) ref"

definition resolveOperationRef :: "'x environ \<Rightarrow> string \<Rightarrow> ('x, raw_operation) parse" where
  "resolveOperationRef E ref = resolve_plain E (e_operation E) ref"

definition resolve_trait :: "'x environ \<Rightarrow> (ynode \<Rightarrow> 'r option) \<Rightarrow> ('r \<Rightarrow> string) \<Rightarrow> 'r \<Rightarrow> ('x, 'r) parse" where
  "resolve_trait E dec refof trait =
     (if refof trait = [] then preturn trait
      else pbind (ref_key E (refof trait)) (\<lambda>key.
        within_ref E (refof trait) key dec (\<lambda>out.
          if refof out \<noteq> [] then pfail (ChainedTrait (refof trait)) else preturn out)))"

definition resolveOperationTrait :: "'x environ \<Rightarrow> raw_operation_trait \<Rightarrow> ('x, raw_operation_trait) parse" where
  "resolveOperationTrait E = resolve_trait E (e_operation_trait E) ot_ref"

definition resolveChannelTrait :: "'x environ \<Rightarrow> raw_channel_trait \<Rightarrow> ('x, raw_channel_trait) parse" where
  "resolveChannelTrait E = resolve_trait E (e_channel_trait E) ct_ref"

definition resolveMessageTrait :: "'x environ \<Rightarrow> raw_message_trait \<Rightarrow> ('x, raw_message_trait) parse" where
  "resolveMessageTrait E = resolve_trait E (e_message_trait E) mt_ref"

section \<open>Parameters\<close>

definition parameterFrom :: "string \<Rightarrow> raw_parameter \<Rightarrow> parameter" where
  "parameterFrom name raw = \<lparr>pa_name = name, pa_enum = rp_enum raw, pa_default = rp_default raw,
     pa_description = rp_description raw, pa_location = rp_location raw\<rparr>"

definition new_parameter :: "parameter \<Rightarrow> ('x, addr) parse" where
  "new_parameter p =
     pbind (pget (\<lambda>s. length (ps_pstore s))) (\<lambda>a.
     pbind (pmodify (\<lambda>s. s\<lparr>ps_pstore := ps_pstore s @ [p]\<rparr>)) (\<lambda>_. preturn a))"

definition rename_parameter :: "addr \<Rightarrow> string \<Rightarrow> ('x, unit) parse" where
  "rename_parameter a name =
     pmodify (\<lambda>s. s\<lparr>ps_pstore := (ps_pstore s)[a := (ps_pstore s ! a)\<lparr>pa_name := name\<rparr>]\<rparr>)"

definition parseParameterPointer :: "'x environ \<Rightarrow> string \<Rightarrow> ('x, addr) parse" where
  "parseParameterPointer E ref =
     pbind (ref_key E ref) (\<lambda>key.
     pbind (pget (\<lambda>s. ps_parameters s (snd key))) (\<lambda>cached.
       case cached of
         Some a \<Rightarrow> preturn a
       | None \<Rightarrow> within_ref E ref key (e_parameter E) (\<lambda>raw.
           pbind (new_parameter (parameterFrom (ptrLastSegment (snd key)) raw)) (\<lambda>a.
           pbind (pmodify (\<lambda>s. s\<lparr>ps_parameters := (ps_parameters s)(snd key \<mapsto> a)\<rparr>)) (\<lambda>_.
             preturn a)))))"

definition parse_parameter :: "'x environ \<Rightarrow> string \<Rightarrow> raw_parameter_ref \<Rightarrow> ('x, addr) parse" where
  "parse_parameter E pname pref =
     (if rpr_ref pref \<noteq> [] then
        pbind (parseParameterPointer E (rpr_ref pref)) (\<lambda>a.
        pbind (rename_parameter a pname) (\<lambda>_. preturn a))
      else new_parameter (parameterFrom pname (rpr_inline pref)))"

fun parse_parameters :: "'x environ \<Rightarrow> raw_parameter_ref option smap \<Rightarrow> string list \<Rightarrow> addr smap \<Rightarrow> ('x, addr smap) parse" where
  "parse_parameters E raws [] out = preturn out"
| "parse_parameters E raws (pname # names) out =
     (case map_of raws pname of
        Some (Some pref) \<Rightarrow>
          pbind (parse_parameter E pname pref) (\<lambda>a.
            parse_parameters E raws names (smap_set out pname a))
      | _ \<Rightarrow> parse_parameters E raws names out)"

section \<open>Messages\<close>

definition new_message :: "message \<Rightarrow> ('x, addr) parse" where
  "new_message m =
     pbind (pget (\<lambda>s. length (ps_mstore s))) (\<lambda>a.
     pbind (pmodify (\<lambda>s. s\<lparr>ps_mstore := ps_mstore s @ [m]\<rparr>)) (\<lambda>_. preturn a))"

fun mergeMessageTraits :: "'x environ \<Rightarrow> raw_message \<Rightarrow> raw_message_trait option list \<Rightarrow> message \<Rightarrow> ('x, message) parse" where
  "mergeMessageTraits E raw [] m = preturn m"
| "mergeMessageTraits E raw (None # ts) m = mergeMessageTraits E raw ts m"
| "mergeMessageTraits E raw (Some t # ts) m =
     pbind (resolveMessageTrait E t) (\<lambda>r.
     pbind (plift (apply_message_trait raw r m)) (mergeMessageTraits E raw ts))"

definition parse_schema :: "'x environ \<Rightarrow> raw_schema option \<Rightarrow> ('x, schema option) parse" where
  "parse_schema E raw = (case raw of
       None \<Rightarrow> preturn None
     | Some r \<Rightarrow>
         pbind (pget (\<lambda>s. e_schema E r (ps_ctx s))) (\<lambda>res.
         pbind (plift_opt BadSchema res) (\<lambda>(sch, x).
         pbind (pmodify (\<lambda>s. s\<lparr>ps_ctx := x\<rparr>)) (\<lambda>_. preturn (Some sch)))))"

definition message_start :: "string \<Rightarrow> raw_message \<Rightarrow> message" where
  "message_start name raw = \<lparr>ms_spec_name = name,
     ms_name = (if rm_name raw = [] then name else rm_name raw), ms_title = rm_title raw,
     ms_summary = rm_summary raw, ms_description = rm_description raw, ms_payload = None,
     ms_headers = None, ms_content_type = rm_content_type raw, ms_correlation = rm_correlation raw,
     ms_bindings = rm_bindings raw, ms_tags = rm_tags raw, ms_extensions = rm_extensions raw\<rparr>"

definition parseMessage :: "'x environ \<Rightarrow> string \<Rightarrow> raw_message \<Rightarrow> ('x, addr) parse" where
  "parseMessage E name raw =
     pbind (pguard (validateSchemaFormat (rm_schema_format raw))) (\<lambda>_.
     pbind (mergeMessageTraits E raw (rm_traits raw) (message_start name raw)) (\<lambda>m.
     pbind (parse_schema E (rm_payload raw)) (\<lambda>payload.
     pbind (parse_schema E (rm_headers raw)) (\<lambda>headers.
       let ct = (if ms_content_type m = [] then e_default_content_type E else ms_content_type m) in
       pbind (pguard (validateContentType ct)) (\<lambda>_.
         new_message (m\<lparr>ms_payload := payload, ms_headers := headers, ms_content_type := ct\<rparr>))))))"

text \<open>
  \<open>parseMessagePointer\<close> follows a chain of references; the fuel bounds its length. The \<open>for\<close> loop
  of the source returns in its first turn.
\<close>

fun parseMessagePointer :: "nat \<Rightarrow> 'x environ \<Rightarrow> string \<Rightarrow> ('x, addr) parse" where
  "parseMessagePointer 0 E ref = pfail OutOfFuel"
| "parseMessagePointer (Suc n) E ref =
     pbind (ref_key E ref) (\<lambda>key.
     pbind (pget (\<lambda>s. ps_messages s (snd key))) (\<lambda>cached.
       case cached of
         Some a \<Rightarrow> preturn a
       | None \<Rightarrow> within_ref E ref key (e_message E) (\<lambda>raw.
           if rmr_ref raw \<noteq> [] then parseMessagePointer n E (rmr_ref raw)
           else
             pbind (parseMessage E (ptrLastSegment (snd key)) (rmr_inline raw)) (\<lambda>a.
             pbind (pmodify (\<lambda>s. s\<lparr>ps_messages := (ps_messages s)(snd key \<mapsto> a)\<rparr>)) (\<lambda>_.
               preturn a)))))"

definition parseMessageRef :: "nat \<Rightarrow> 'x environ \<Rightarrow> raw_message_ref \<Rightarrow> ('x, addr) parse" where
  "parseMessageRef n E ref =
     (if rmr_ref ref \<noteq> [] then parseMessagePointer n E (rmr_ref ref)
      else parseMessage E [] (rmr_inline ref))"

definition name_message :: "addr \<Rightarrow> string \<Rightarrow> ('x, unit) parse" where
  "name_message a name = pmodify (\<lambda>s.
     let m = ps_mstore s ! a in
     if ms_spec_name m = [] then
       s\<lparr>ps_mstore := (ps_mstore s)[a := m\<lparr>ms_spec_name := name,
           ms_name := (if ms_name m = [] then name else ms_name m)\<rparr>]\<rparr>
     else s)"

fun parse_messages :: "nat \<Rightarrow> 'x environ \<Rightarrow> raw_messages \<Rightarrow> string list \<Rightarrow> ('x, addr list) parse" where
  "parse_messages n E raws [] = preturn []"
| "parse_messages n E raws (name # names) =
     (case map_of raws name of
        Some (Some ref) \<Rightarrow>
          pbind (parseMessageRef n E ref) (\<lambda>a.
          pbind (name_message a name) (\<lambda>_.
          pbind (parse_messages n E raws names) (\<lambda>as. preturn (a # as))))
      | _ \<Rightarrow> parse_messages n E raws names)"

definition parseMessagesMap :: "nat \<Rightarrow> 'x environ \<Rightarrow> raw_messages \<Rightarrow> ('x, addr list) parse" where
  "parseMessagesMap n E raws = parse_messages n E raws (sorted_keys raws)"

fun parseMessagesList :: "nat \<Rightarrow> 'x environ \<Rightarrow> raw_message_ref option list \<Rightarrow> ('x, addr list) parse" where
  "parseMessagesList n E [] = preturn []"
| "parseMessagesList n E (None # refs) = parseMessagesList n E refs"
| "parseMessagesList n E (Some ref # refs) =
     pbind (parseMessageRef n E ref) (\<lambda>a.
     pbind (parseMessagesList n E refs) (\<lambda>as. preturn (a # as)))"

section \<open>Channels\<close>

text \<open>A server reference of a channel; one that does not resolve is skipped with a warning.\<close>

definition parseServerRef :: "'x environ \<Rightarrow> string \<Rightarrow> ('x, string option) parse" where
  "parseServerRef E ref = (\<lambda>s. case e_key E (ps_ctx s) ref of
       None \<Rightarrow> Inr (None, s)
     | Some key \<Rightarrow>
         (case e_add E key (ps_ctx s) of
            None \<Rightarrow> Inr (None, s)
          | Some x \<Rightarrow>
              Inr (if e_resolve E (snd key) = None then None else Some (ptrLastSegment (snd key)),
                   s\<lparr>ps_ctx := e_delete E key x\<rparr>)))"

fun channel_servers :: "'x environ \<Rightarrow> string option list \<Rightarrow> ('x, string list) parse" where
  "channel_servers E [] = preturn []"
| "channel_servers E (None # refs) = channel_servers E refs"
| "channel_servers E (Some ref # refs) =
     pbind (parseServerRef E ref) (\<lambda>name.
     pbind (channel_servers E refs) (\<lambda>names.
       preturn (case name of None \<Rightarrow> names | Some nm \<Rightarrow> nm # names)))"

fun trait_servers :: "'x environ \<Rightarrow> string option list \<Rightarrow> channel \<Rightarrow> ('x, channel) parse" where
  "trait_servers E [] ch = preturn ch"
| "trait_servers E (None # refs) ch = trait_servers E refs ch"
| "trait_servers E (Some ref # refs) ch =
     pbind (add_key E ref ([], [])) (\<lambda>_.
       trait_servers E refs
         (ch\<lparr>ch_servers := ch_servers ch @ [ptrLastSegment (trim_prefix ref ''#/servers/'')]\<rparr>))"

fun trait_parameters :: "'x environ \<Rightarrow> raw_parameter_ref option smap \<Rightarrow> channel \<Rightarrow> ('x, channel) parse" where
  "trait_parameters E [] ch = preturn ch"
| "trait_parameters E ((pname, None) # ps) ch = trait_parameters E ps ch"
| "trait_parameters E ((pname, Some pref) # ps) ch =
     (if map_of (ch_parameters ch) pname \<noteq> None then pfail (TraitOverrides (''parameters.'' @ pname))
      else pbind (parse_parameter E pname pref) (\<lambda>a.
        trait_parameters E ps (ch\<lparr>ch_parameters := smap_set (ch_parameters ch) pname a\<rparr>)))"

text \<open>A nil channel trait is dereferenced without a check.\<close>

fun mergeChannelTraits :: "'x environ \<Rightarrow> raw_channel_trait option list \<Rightarrow> channel \<Rightarrow> ('x, channel) parse" where
  "mergeChannelTraits E [] ch = preturn ch"
| "mergeChannelTraits E (None # ts) ch = pfail NilDereference"
| "mergeChannelTraits E (Some t # ts) ch =
     pbind (resolveChannelTrait E t) (\<lambda>r.
     pbind (plift (apply_channel_trait r ch)) (\<lambda>ch1.
     pbind (trait_servers E (ct_servers r) ch1) (\<lambda>ch2.
     pbind (trait_parameters E (ct_parameters r) ch2) (mergeChannelTraits E ts))))"

definition channel_start :: "string \<Rightarrow> raw_channel \<Rightarrow> string list \<Rightarrow> channel" where
  "channel_start name raw servers = \<lparr>ch_name = name, ch_address = rc_address raw, ch_title = rc_title raw,
     ch_summary = rc_summary raw, ch_description = rc_description raw, ch_messages = [],
     ch_parameters = [], ch_servers = servers, ch_bindings = rc_bindings raw, ch_redis = None,
     ch_tags = rc_tags raw, ch_extensions = rc_extensions raw\<rparr>"

definition parseChannel :: "nat \<Rightarrow> 'x environ \<Rightarrow> string \<Rightarrow> raw_channel \<Rightarrow> ('x, channel) parse" where
  "parseChannel n E name raw =
     (if rc_address raw = [] then pfail AddressRequired
      else
        pbind (channel_servers E (rc_servers raw)) (\<lambda>servers.
        pbind (mergeChannelTraits E (rc_traits raw) (channel_start name raw servers)) (\<lambda>ch.
        pbind (plift (parseRedisChannelBinding (e_decoder E) (ch_bindings ch) (rc_extensions raw))) (\<lambda>redis.
        pbind (parse_parameters E (rc_parameters raw) (sorted_keys (rc_parameters raw)) []) (\<lambda>params.
        pbind (if rc_messages raw \<noteq> [] then parseMessagesMap n E (rc_messages raw) else preturn []) (\<lambda>msgs.
          let ch' = ch\<lparr>ch_redis := redis, ch_parameters := params, ch_messages := msgs\<rparr> in
          pbind (pguard (validateAddressParams ch')) (\<lambda>_. preturn ch')))))))"

definition parseChannelPointer :: "nat \<Rightarrow> 'x environ \<Rightarrow> string \<Rightarrow> ('x, channel) parse" where
  "parseChannelPointer n E ref =
     pbind (ref_key E ref) (\<lambda>key.
     pbind (pget (\<lambda>s. ps_channels s (snd key))) (\<lambda>cached.
       case cached of
         Some ch \<Rightarrow> preturn ch
       | None \<Rightarrow> within_ref E ref key (e_channel E) (\<lambda>raw.
           pbind (parseChannel n E (ptrLastSegment (snd key)) raw) (\<lambda>ch.
           pbind (pmodify (\<lambda>s. s\<lparr>ps_channels := (ps_channels s)(snd key \<mapsto> ch)\<rparr>)) (\<lambda>_.
             preturn ch)))))"

definition parseChannelRef :: "nat \<Rightarrow> 'x environ \<Rightarrow> raw_channel_ref \<Rightarrow> string \<Rightarrow> ('x, channel) parse" where
  "parseChannelRef n E ref inline_name =
     (if rcr_ref ref \<noteq> [] then parseChannelPointer n E (rcr_ref ref)
      else parseChannel n E inline_name (rcr_inline ref))"

section \<open>Operations\<close>

fun mergeOperationTraits :: "'x environ \<Rightarrow> raw_operation_trait option list \<Rightarrow> operation \<Rightarrow> ('x, operation) parse" where
  "mergeOperationTraits E [] op = preturn op"
| "mergeOperationTraits E (None # ts) op = mergeOperationTraits E ts op"
| "mergeOperationTraits E (Some t # ts) op =
     pbind (resolveOperationTrait E t) (\<lambda>r.
     pbind (plift (apply_operation_trait r op)) (mergeOperationTraits E ts))"

text \<open>Messages given with the operation or reply win over those of its channel.\<close>

definition linked_messages :: "nat \<Rightarrow> 'x environ \<Rightarrow> perr \<Rightarrow> raw_message_ref option list \<Rightarrow> channel \<Rightarrow> ('x, addr list) parse" where
  "linked_messages n E err refs ch =
     (if refs \<noteq> [] then parseMessagesList n E refs
      else if ch_messages ch \<noteq> [] then preturn (ch_messages ch)
      else pfail err)"

definition parseReply :: "nat \<Rightarrow> 'x environ \<Rightarrow> raw_reply \<Rightarrow> ('x, reply) parse" where
  "parseReply n E raw =
     pbind (plift_opt ReplyChannelRequired (rr_channel raw)) (\<lambda>cref.
     pbind (parseChannelRef n E cref ''reply'') (\<lambda>ch.
     pbind (linked_messages n E ReplyNoMessages (rr_messages raw) ch) (\<lambda>msgs.
       preturn \<lparr>re_channel = ch, re_messages = msgs, re_title = rr_title raw,
                re_summary = rr_summary raw, re_description = rr_description raw, re_extensions = rr_extensions raw\<rparr>)))"

definition operation_start :: "string \<Rightarrow> raw_operation \<Rightarrow> operation" where
  "operation_start name raw = \<lparr>op_name = name, op_action = ro_action raw, op_channel = None,
     op_messages = [], op_title = ro_title raw, op_summary = ro_summary raw,
     op_description = ro_description raw, op_security = ro_security raw, op_bindings = ro_bindings raw,
     op_redis = None, op_reply = None, op_tags = ro_tags raw, op_extensions = ro_extensions raw\<rparr>"

definition valid_action :: "string \<Rightarrow> bool" where
  "valid_action a \<longleftrightarrow> a = SendAction \<or> a = ReceiveAction"

definition parse_operation_body :: "nat \<Rightarrow> 'x environ \<Rightarrow> string \<Rightarrow> raw_operation \<Rightarrow> ('x, operation) parse" where
  "parse_operation_body n E name raw =
     (if \<not> valid_action (ro_action raw) then pfail (InvalidAction (ro_action raw))
      else
        pbind (mergeOperationTraits E (ro_traits raw) (operation_start name raw)) (\<lambda>op0.
        pbind (plift_opt ChannelRequired (ro_channel raw)) (\<lambda>cref.
        pbind (parseChannelRef n E cref name) (\<lambda>ch.
        pbind (plift (parseRedisOperationBinding (e_decoder E) (op_bindings op0) (op_extensions op0))) (\<lambda>redis.
          let op1 = op0\<lparr>op_channel := Some ch, op_redis := redis\<rparr> in
          pbind (pguard (validateRedisOperationBinding op1)) (\<lambda>_.
          pbind (linked_messages n E NoMessages (ro_messages raw) ch) (\<lambda>msgs.
          pbind (case ro_reply raw of
                   None \<Rightarrow> preturn None
                 | Some r \<Rightarrow> pbind (parseReply n E r) (\<lambda>re. preturn (Some re))) (\<lambda>re.
            preturn (op1\<lparr>op_messages := msgs, op_reply := re\<rparr>)))))))))"

definition parseOperation :: "nat \<Rightarrow> 'x environ \<Rightarrow> string \<Rightarrow> raw_operation \<Rightarrow> ('x, operation) parse" where
  "parseOperation n E name raw =
     (if ro_ref raw \<noteq> [] then pbind (resolveOperationRef E (ro_ref raw)) (parse_operation_body n E name)
      else parse_operation_body n E name raw)"

fun parse_operations :: "nat \<Rightarrow> 'x environ \<Rightarrow> raw_operation option smap \<Rightarrow> string list \<Rightarrow> ('x, operation list) parse" where
  "parse_operations n E raws [] = preturn []"
| "parse_operations n E raws (name # names) =
     (case map_of raws name of
        Some (Some raw) \<Rightarrow>
          pbind (parseOperation n E name raw) (\<lambda>op.
          pbind (parse_operations n E raws names) (\<lambda>ops. preturn (op # ops)))
      | _ \<Rightarrow> parse_operations n E raws names)"

definition parseOperations :: "nat \<Rightarrow> 'x environ \<Rightarrow> raw_operation option smap \<Rightarrow> ('x, operation list) parse" where
  "parseOperations n E raws = parse_operations n E raws (sorted_keys raws)"

section \<open>Servers and the document\<close>

definition server_from :: "string \<Rightarrow> raw_server \<Rightarrow> perr + server" where
  "server_from name s =
     (if rs_host s = [] then Inl HostRequired
      else if rs_protocol s = [] then Inl ProtocolRequired
      else Inr \<lparr>se_name = name, se_host = rs_host s, se_protocol = rs_protocol s,
        se_protocol_version = rs_protocol_version s, se_pathname = rs_pathname s, se_title = rs_title s,
        se_summary = rs_summary s, se_description = rs_description s, se_security = rs_security s,
        se_bindings = rs_bindings s, se_tags = rs_tags s\<rparr>)"

fun parseServers :: "'x environ \<Rightarrow> raw_server option smap \<Rightarrow> server smap \<Rightarrow> ('x, server smap) parse" where
  "parseServers E [] out = preturn out"
| "parseServers E ((name, None) # raws) out = parseServers E raws out"
| "parseServers E ((name, Some s) # raws) out =
     pbind (if rs_ref s \<noteq> [] then resolveServerRef E (rs_ref s) else preturn s) (\<lambda>s'.
     pbind (plift (server_from name s')) (\<lambda>srv.
       parseServers E raws (smap_set out name srv)))"

definition DefaultDepthLimit :: nat where "DefaultDepthLimit = 1000"

definition depth_limit :: "nat \<Rightarrow> nat" where
  "depth_limit d = (if d = 0 then DefaultDepthLimit else d)"

definition parse_document :: "nat \<Rightarrow> 'x environ \<Rightarrow> spec \<Rightarrow> ('x, api) parse" where
  "parse_document n E sp =
     pbind (plift (parseVersion (sp_asyncapi sp))) (\<lambda>version.
     pbind (parseServers E (sp_servers sp) []) (\<lambda>servers.
     pbind (parseOperations n E (sp_operations sp)) (\<lambda>ops.
       preturn \<lparr>api_version = version, api_info = sp_info sp, api_id = sp_id sp,
         api_default_content_type = defaultContentType sp, api_servers = servers,
         api_channels = [], api_operations = ops\<rparr>)))"

text \<open>
  \<open>Parse\<close>: a context with the configured depth, empty caches and store. The fuel for message
  chains is the depth limit and one more: every link of a chain adds a key to the context.
\<close>

definition Parse :: "'x environ \<Rightarrow> (nat \<Rightarrow> 'x) \<Rightarrow> nat \<Rightarrow> spec \<Rightarrow> perr + api \<times> 'x pstate" where
  "Parse E new_ctx depth sp =
     parse_document (depth_limit depth + 1) (E\<lparr>e_default_content_type := defaultContentType sp\<rparr>) sp
       \<lparr>ps_ctx = new_ctx (depth_limit depth), ps_channels = Map.empty, ps_messages = Map.empty,
        ps_parameters = Map.empty, ps_mstore = [], ps_pstore = []\<rparr>"

end
