(* ===== verification/ParserProps.thy ===== *)
theory ParserProps
  imports Parser
begin

text \<open>
  What a successful parse guarantees. The proofs use a small Hoare logic for the parser's functions:
  \<open>valid P m Q\<close> says that from a state with the invariant and \<open>P\<close>, if \<open>m\<close> returns, the invariant holds
  again, the store has only grown, and \<open>Q\<close> holds of the result. Assertions are stable under growth, so
  what was learnt about an address or a channel stays true.
\<close>

section \<open>Invariant and triples\<close>

definition grows :: "'x pstate \<Rightarrow> 'x pstate \<Rightarrow> bool" where
  "grows s s' \<longleftrightarrow> length (ps_mstore s) \<le> length (ps_mstore s') \<and> length (ps_pstore s) \<le> length (ps_pstore s')"

definition redis_channel_ok :: "redis_channel \<Rightarrow> bool" where
  "redis_channel_ok b \<longleftrightarrow>
     (rcb_type b = RedisTypeStream \<and> 0 \<le> rcb_max_len b \<or> rcb_type b = RedisTypePubSub \<and> rcb_max_len b = 0)
     \<and> (rcb_version b = [] \<or> rcb_version b = RedisBindingVersion)"

definition messages_ok :: "'x pstate \<Rightarrow> addr list \<Rightarrow> bool" where
  "messages_ok s as \<longleftrightarrow> list_all (\<lambda>a. a < length (ps_mstore s)) as"

definition parameters_ok :: "'x pstate \<Rightarrow> addr smap \<Rightarrow> bool" where
  "parameters_ok s ps \<longleftrightarrow> list_all (\<lambda>(k, a). a < length (ps_pstore s)) ps"

definition wf_channel :: "'x pstate \<Rightarrow> channel \<Rightarrow> bool" where
  "wf_channel s ch \<longleftrightarrow> ch_address ch \<noteq> []
     \<and> list_all (\<lambda>t. map_of (ch_parameters ch) t \<noteq> None) (addressTokens (ch_address ch))
     \<and> pred_option redis_channel_ok (ch_redis ch)
     \<and> messages_ok s (ch_messages ch) \<and> parameters_ok s (ch_parameters ch)"

definition pinv :: "'x pstate \<Rightarrow> bool" where
  "pinv s \<longleftrightarrow>
     list_all (\<lambda>m. json_content_type (ms_content_type m)) (ps_mstore s)
     \<and> (\<forall>k a. ps_messages s k = Some a \<longrightarrow> a < length (ps_mstore s))
     \<and> (\<forall>k a. ps_parameters s k = Some a \<longrightarrow> a < length (ps_pstore s))
     \<and> (\<forall>k c. ps_channels s k = Some c \<longrightarrow> wf_channel s c)"

definition valid :: "('x pstate \<Rightarrow> bool) \<Rightarrow> ('x, 'a) parse \<Rightarrow> ('a \<Rightarrow> 'x pstate \<Rightarrow> bool) \<Rightarrow> bool" where
  "valid P m Q \<longleftrightarrow> (\<forall>s a s'. pinv s \<and> P s \<and> m s = Inr (a, s') \<longrightarrow> pinv s' \<and> grows s s' \<and> Q a s')"

definition stable :: "('x pstate \<Rightarrow> bool) \<Rightarrow> bool" where
  "stable P \<longleftrightarrow> (\<forall>s s'. P s \<and> grows s s' \<longrightarrow> P s')"

named_theorems stab

lemma grows_refl [simp]: "grows s s"
  by (simp add: grows_def)

lemma grows_trans: "grows s t \<Longrightarrow> grows t u \<Longrightarrow> grows s u"
  by (simp add: grows_def)

lemma grows_ctx [simp]: "grows s (s\<lparr>ps_ctx := x\<rparr>)"
  by (simp add: grows_def)

lemma messages_ok_grows: "messages_ok s as \<Longrightarrow> grows s s' \<Longrightarrow> messages_ok s' as"
  by (auto simp: messages_ok_def grows_def list_all_iff)

lemma parameters_ok_grows: "parameters_ok s ps \<Longrightarrow> grows s s' \<Longrightarrow> parameters_ok s' ps"
  by (fastforce simp: parameters_ok_def grows_def list_all_iff)

lemma wf_channel_grows: "wf_channel s ch \<Longrightarrow> grows s s' \<Longrightarrow> wf_channel s' ch"
  using messages_ok_grows parameters_ok_grows by (auto simp: wf_channel_def)

lemma stable_intros [stab]:
  "stable (\<lambda>s. c)"
  "stable (\<lambda>s. a < length (ps_mstore s))"
  "stable (\<lambda>s. a < length (ps_pstore s))"
  "stable (\<lambda>s. messages_ok s as)"
  "stable (\<lambda>s. parameters_ok s ps)"
  "stable (\<lambda>s. wf_channel s ch)"
  by (auto simp: stable_def messages_ok_grows parameters_ok_grows wf_channel_grows)
    (auto simp: grows_def)

lemma stable_conj [stab]: "stable P \<Longrightarrow> stable Q \<Longrightarrow> stable (\<lambda>s. P s \<and> Q s)"
  by (auto simp: stable_def)

lemma stable_opt [stab]:
  "(\<And>x. stable (P x)) \<Longrightarrow> stable (\<lambda>s. pred_option (\<lambda>x. P x s) opt)"
  by (cases opt) (simp_all add: stable_def)

lemma validD:
  "valid P m Q \<Longrightarrow> pinv s \<Longrightarrow> P s \<Longrightarrow> m s = Inr (a, s') \<Longrightarrow> pinv s' \<and> grows s s' \<and> Q a s'"
  by (auto simp: valid_def)

lemma valid_bind:
  assumes "valid P m R" and "\<And>a. valid (R a) (f a) Q"
  shows "valid P (pbind m f) Q"
  unfolding valid_def
proof (intro allI impI, elim conjE)
  fix s b t
  assume s: "pinv s" "P s" and "pbind m f s = Inr (b, t)"
  then obtain a s' where 1: "m s = Inr (a, s')" and 2: "f a s' = Inr (b, t)"
    by (auto simp: pbind_Inr)
  have "pinv s' \<and> grows s s' \<and> R a s'" using validD [OF assms(1) s 1] .
  moreover then have "pinv t \<and> grows s' t \<and> Q b t" using validD [OF assms(2) _ _ 2] by blast
  ultimately show "pinv t \<and> grows s t \<and> Q b t" using grows_trans by blast
qed

lemma valid_weaken: "valid P m Q \<Longrightarrow> (\<And>s. P' s \<Longrightarrow> P s) \<Longrightarrow> (\<And>a s. Q a s \<Longrightarrow> Q' a s) \<Longrightarrow> valid P' m Q'"
  unfolding valid_def by blast

lemma valid_frame: "valid P m Q \<Longrightarrow> stable F \<Longrightarrow> valid (\<lambda>s. P s \<and> F s) m (\<lambda>a s. Q a s \<and> F s)"
  unfolding valid_def stable_def by blast

lemma valid_bind_get: "(\<And>a. valid P (f a) Q) \<Longrightarrow> valid P (pbind (pget g) f) Q"
  unfolding valid_def pbind_Inr by auto

lemma valid_bind_opt: "(\<And>a. r = Some a \<Longrightarrow> valid P (f a) Q) \<Longrightarrow> valid P (pbind (plift_opt e r) f) Q"
  unfolding valid_def pbind_Inr by auto

lemma valid_bind_lift: "(\<And>a. r = Inr a \<Longrightarrow> valid P (f a) Q) \<Longrightarrow> valid P (pbind (plift r) f) Q"
  unfolding valid_def pbind_Inr by auto

lemma valid_bind_guard: "(c = None \<Longrightarrow> valid P (f ()) Q) \<Longrightarrow> valid P (pbind (pguard c) f) Q"
  unfolding valid_def pbind_Inr by auto

text \<open>Sequencing that keeps a stable fact across the first step.\<close>

lemma valid_seq:
  assumes "valid (\<lambda>_. True) m R" and "stable F" and "\<And>a. valid (\<lambda>s. R a s \<and> F s) (f a) Q"
  shows "valid F (pbind m f) Q"
proof (rule valid_bind)
  show "valid F m (\<lambda>a s. R a s \<and> F s)"
    by (rule valid_weaken [OF valid_frame [OF assms(1,2)]]) auto
qed (rule assms(3))

lemma valid_preturn: "valid (\<lambda>s. Q a s) (preturn a) Q"
  by (auto simp: valid_def)

lemma valid_pfail: "valid P (pfail e) Q"
  by (simp add: valid_def)

lemma valid_pget: "valid (\<lambda>s. Q (f s) s) (pget f) Q"
  by (auto simp: valid_def)

lemma valid_pmodify:
  "(\<And>s. pinv s \<Longrightarrow> P s \<Longrightarrow> pinv (g s) \<and> grows s (g s) \<and> Q () (g s)) \<Longrightarrow> valid P (pmodify g) Q"
  by (auto simp: valid_def)

lemma pinv_ctx [simp]: "pinv (s\<lparr>ps_ctx := x\<rparr>) \<longleftrightarrow> pinv s"
  by (simp add: pinv_def wf_channel_def messages_ok_def parameters_ok_def)

lemma stableD:
  assumes "stable P" and "P s" and "grows s s'"
  shows "P s'"
  using assms(1) [unfolded stable_def, rule_format, OF conjI [OF assms(2,3)]] .

lemma stable_ctx: "stable P \<Longrightarrow> P s \<Longrightarrow> P (s\<lparr>ps_ctx := x\<rparr>)"
  by (rule stableD [OF _ _ grows_ctx])

lemma valid_set_ctx: "stable P \<Longrightarrow> valid P (pmodify (\<lambda>s. s\<lparr>ps_ctx := g s\<rparr>)) (\<lambda>_. P)"
  by (rule valid_pmodify) (simp, erule (1) stable_ctx)

section \<open>References\<close>

lemma valid_ref_key: "stable P \<Longrightarrow> valid P (ref_key E ref) (\<lambda>_. P)"
  unfolding ref_key_def by (auto simp: valid_def pbind_Inr)

lemma valid_add_key: "stable P \<Longrightarrow> valid P (add_key E ref key) (\<lambda>_. P)"
  unfolding add_key_def
  by (intro valid_bind_get valid_bind_opt valid_set_ctx)

lemma valid_delete_key: "stable P \<Longrightarrow> valid P (delete_key E key) (\<lambda>_. P)"
  unfolding delete_key_def by (rule valid_set_ctx)

lemma valid_within_ref:
  assumes P: "stable P" and Q: "\<And>a. stable (Q a)" and b: "\<And>raw. valid P (body raw) Q"
  shows "valid P (within_ref E ref key dec body) Q"
  unfolding within_ref_def
  by (rule valid_bind [OF valid_add_key [OF P]], intro valid_bind_opt, rule valid_bind [OF b],
      rule valid_bind [OF valid_delete_key [OF Q]], rule valid_preturn)

lemma valid_resolve_plain: "stable P \<Longrightarrow> valid P (resolve_plain E dec ref) (\<lambda>_. P)"
  unfolding resolve_plain_def
  by (rule valid_bind [OF valid_ref_key], assumption, rule valid_within_ref) (auto intro: valid_preturn)

lemma valid_resolve_trait: "stable P \<Longrightarrow> valid P (resolve_trait E dec refof t) (\<lambda>_. P)"
proof -
  assume P: "stable P"
  have "valid P (within_ref E r key dec
      (\<lambda>out. if refof out \<noteq> [] then pfail e else preturn out)) (\<lambda>_. P)" for r key e
    by (rule valid_within_ref [OF P P]) (simp add: valid_pfail valid_preturn [of "\<lambda>_. P"])
  then have "valid P (pbind (ref_key E r) (\<lambda>key. within_ref E r key dec
      (\<lambda>out. if refof out \<noteq> [] then pfail e else preturn out))) (\<lambda>_. P)" for r e
    by (rule valid_bind [OF valid_ref_key [OF P]])
  then show ?thesis
    unfolding resolve_trait_def using valid_preturn [of "\<lambda>_. P" t] by simp
qed

section \<open>Parameters and messages\<close>

lemma valid_new_parameter: "valid (\<lambda>_. True) (new_parameter p) (\<lambda>a s. a < length (ps_pstore s))"
proof -
  have "pinv (s\<lparr>ps_pstore := ps_pstore s @ [p]\<rparr>) \<and> grows s (s\<lparr>ps_pstore := ps_pstore s @ [p]\<rparr>)"
    if "pinv s" for s :: "'a pstate"
  proof -
    have g: "grows s (s\<lparr>ps_pstore := ps_pstore s @ [p]\<rparr>)" by (simp add: grows_def)
    then show ?thesis using that wf_channel_grows [OF _ g] by (auto simp: pinv_def less_SucI)
  qed
  then show ?thesis by (auto simp: new_parameter_def valid_def pbind_Inr)
qed

lemma valid_rename_parameter: "stable P \<Longrightarrow> valid P (rename_parameter a n) (\<lambda>_. P)"
proof (unfold rename_parameter_def, rule valid_pmodify)
  fix s :: "'a pstate"
  assume P: "stable P" and s: "pinv s" "P s"
  define s' where "s' = s\<lparr>ps_pstore := (ps_pstore s)[a := (ps_pstore s ! a)\<lparr>pa_name := n\<rparr>]\<rparr>"
  have g: "grows s s'" by (simp add: s'_def grows_def)
  have "pinv s'" using s(1) wf_channel_grows [OF _ g] by (auto simp: pinv_def s'_def)
  then show "pinv s' \<and> grows s s' \<and> P s'" using g s(2) P by (auto simp: stable_def)
qed

lemma valid_parseParameterPointer:
  "valid (\<lambda>_. True) (parseParameterPointer E ref) (\<lambda>a s. a < length (ps_pstore s))"
  unfolding parseParameterPointer_def
proof (rule valid_bind [OF valid_ref_key], rule stab, rule valid_bind)
  fix key :: refkey
  show "valid (\<lambda>_. True) (pget (\<lambda>s. ps_parameters s (snd key)))
      (\<lambda>c s. pred_option (\<lambda>a. a < length (ps_pstore s)) c)"
    by (auto simp: valid_def pinv_def option.pred_set elem_set)
  fix cached
  show "valid (\<lambda>s. pred_option (\<lambda>a. a < length (ps_pstore s)) cached)
     (case cached of Some a \<Rightarrow> preturn a
       | None \<Rightarrow> within_ref E ref key (e_parameter E) (\<lambda>raw.
           pbind (new_parameter (parameterFrom (ptrLastSegment (snd key)) raw)) (\<lambda>a.
           pbind (pmodify (\<lambda>s. s\<lparr>ps_parameters := (ps_parameters s)(snd key \<mapsto> a)\<rparr>)) (\<lambda>_. preturn a))))
     (\<lambda>a s. a < length (ps_pstore s))"
  proof (cases cached)
    case None
    have "valid (\<lambda>s. a < length (ps_pstore s))
        (pbind (pmodify (\<lambda>s. s\<lparr>ps_parameters := (ps_parameters s)(snd key \<mapsto> a)\<rparr>)) (\<lambda>_. preturn a))
        (\<lambda>a s. a < length (ps_pstore s))" for a
      by (auto simp: valid_def pbind_Inr pinv_def grows_def wf_channel_def messages_ok_def parameters_ok_def)
    then have "valid (\<lambda>_. True) (pbind (new_parameter (parameterFrom (ptrLastSegment (snd key)) raw)) (\<lambda>a.
           pbind (pmodify (\<lambda>s. s\<lparr>ps_parameters := (ps_parameters s)(snd key \<mapsto> a)\<rparr>)) (\<lambda>_. preturn a)))
        (\<lambda>a s. a < length (ps_pstore s))" for raw
      by (rule valid_bind [OF valid_new_parameter])
    from valid_within_ref [OF _ _ this] show ?thesis unfolding None by (simp add: stab)
  next
    case (Some a)
    then show ?thesis using valid_preturn [of "\<lambda>a s. a < length (ps_pstore s)" a] by simp
  qed
qed

lemma valid_parse_parameter:
  fixes E :: "'x environ"
  shows "valid (\<lambda>_. True) (parse_parameter E pname pref) (\<lambda>a s. a < length (ps_pstore s))"
proof -
  have "valid (\<lambda>s. a < length (ps_pstore s))
      (pbind (rename_parameter a pname) (\<lambda>_. preturn a) :: ('x, addr) parse)
      (\<lambda>a s. a < length (ps_pstore s))" for a
    by (rule valid_bind [OF valid_rename_parameter], rule stab, rule valid_preturn)
  then have "valid (\<lambda>_. True) (pbind (parseParameterPointer E r) (\<lambda>a.
      pbind (rename_parameter a pname) (\<lambda>_. preturn a))) (\<lambda>a s. a < length (ps_pstore s))" for r
    by (rule valid_bind [OF valid_parseParameterPointer])
  then show ?thesis by (simp add: parse_parameter_def valid_new_parameter)
qed

lemma parameters_ok_set:
  "parameters_ok s ps \<Longrightarrow> a < length (ps_pstore s) \<Longrightarrow> parameters_ok s (smap_set ps k a)"
  unfolding parameters_ok_def by (induction ps k a rule: smap_set.induct) auto

lemma valid_parse_parameters:
  "valid (\<lambda>s. parameters_ok s out) (parse_parameters E raws names out) (\<lambda>ps s. parameters_ok s ps)"
proof (induction names arbitrary: out)
  case Nil
  show ?case by (simp add: valid_preturn [of "\<lambda>ps s. parameters_ok s ps"])
next
  case (Cons pname names)
  have "valid (\<lambda>s. a < length (ps_pstore s) \<and> parameters_ok s out)
      (parse_parameters E raws names (smap_set out pname a)) (\<lambda>ps s. parameters_ok s ps)" for a
    by (rule valid_weaken [OF Cons.IH]) (simp_all add: parameters_ok_set)
  then have "valid (\<lambda>s. parameters_ok s out) (pbind (parse_parameter E pname pref) (\<lambda>a.
          parse_parameters E raws names (smap_set out pname a))) (\<lambda>ps s. parameters_ok s ps)" for pref
    by (rule valid_seq [OF valid_parse_parameter, rotated]) (rule stab)
  then show ?case using Cons.IH [of out] by (auto split: option.splits)
qed

text \<open>Steps that only resolve references keep every stable assertion.\<close>

lemma valid_mergeMessageTraits:
  "stable P \<Longrightarrow> valid P (mergeMessageTraits E raw ts m) (\<lambda>_. P)"
proof (induction E raw ts m rule: mergeMessageTraits.induct)
  case (1 E raw m)
  then show ?case using valid_preturn [of "\<lambda>_. P"] by simp
next
  case (2 E raw ts m)
  then show ?case by simp
next
  case (3 E raw t ts m)
  have "valid P (pbind (plift (apply_message_trait raw r m)) (mergeMessageTraits E raw ts)) (\<lambda>_. P)" for r
    using 3 by (intro valid_bind_lift) simp
  then show ?case
    unfolding mergeMessageTraits.simps resolveMessageTrait_def
    by (rule valid_bind [OF valid_resolve_trait [OF "3.prems"]])
qed

lemma valid_mergeOperationTraits:
  "stable P \<Longrightarrow> valid P (mergeOperationTraits E ts op1) (\<lambda>_. P)"
proof (induction E ts op1 rule: mergeOperationTraits.induct)
  case (1 E op1)
  then show ?case using valid_preturn [of "\<lambda>_. P"] by simp
next
  case (2 E ts op1)
  then show ?case by simp
next
  case (3 E t ts op1)
  have "valid P (pbind (plift (apply_operation_trait r op1)) (mergeOperationTraits E ts)) (\<lambda>_. P)" for r
    using 3 by (intro valid_bind_lift) simp
  then show ?case
    unfolding mergeOperationTraits.simps resolveOperationTrait_def
    by (rule valid_bind [OF valid_resolve_trait [OF "3.prems"]])
qed

lemma valid_parse_schema: "stable P \<Longrightarrow> valid P (parse_schema E raw) (\<lambda>_. P)"
proof -
  assume P: "stable P"
  have "valid P (pbind (pmodify (\<lambda>s. s\<lparr>ps_ctx := x\<rparr>)) (\<lambda>_. preturn (Some sch))) (\<lambda>_. P)" for x and sch :: schema
    by (rule valid_bind [OF valid_set_ctx [OF P]], rule valid_preturn)
  then show ?thesis
    unfolding parse_schema_def using valid_preturn [of "\<lambda>_. P"]
    by (auto intro!: valid_bind_get valid_bind_opt split: option.splits)
qed

lemma valid_new_message:
  "json_content_type (ms_content_type m) \<Longrightarrow>
   valid (\<lambda>_. True) (new_message m) (\<lambda>a s. a < length (ps_mstore s))"
proof -
  assume j: "json_content_type (ms_content_type m)"
  have "pinv (s\<lparr>ps_mstore := ps_mstore s @ [m]\<rparr>) \<and> grows s (s\<lparr>ps_mstore := ps_mstore s @ [m]\<rparr>)"
    if "pinv s" for s :: "'a pstate"
  proof -
    have g: "grows s (s\<lparr>ps_mstore := ps_mstore s @ [m]\<rparr>)" by (simp add: grows_def)
    then show ?thesis using that j wf_channel_grows [OF _ g] by (auto simp: pinv_def less_SucI)
  qed
  then show ?thesis by (auto simp: new_message_def valid_def pbind_Inr)
qed

lemma validateContentType_None: "validateContentType ct = None \<Longrightarrow> json_content_type ct"
  by (simp add: validateContentType_def split: if_splits)

lemma valid_parseMessage:
  "valid (\<lambda>_. True) (parseMessage E name raw) (\<lambda>a s. a < length (ps_mstore s))"
  unfolding parseMessage_def Let_def
  by (intro valid_bind_guard valid_bind [OF valid_mergeMessageTraits] valid_bind [OF valid_parse_schema]
      valid_new_message stab)
     (simp add: validateContentType_None)

lemma valid_parseMessagePointer:
  "valid (\<lambda>_. True) (parseMessagePointer n E ref) (\<lambda>a s. a < length (ps_mstore s))"
proof (induction n arbitrary: ref)
  case 0
  then show ?case by (simp add: valid_pfail)
next
  case (Suc n)
  show ?case
    unfolding parseMessagePointer.simps
  proof (rule valid_bind [OF valid_ref_key], rule stab, rule valid_bind)
    fix key :: refkey
    show "valid (\<lambda>_. True) (pget (\<lambda>s. ps_messages s (snd key)))
        (\<lambda>c s. pred_option (\<lambda>a. a < length (ps_mstore s)) c)"
      by (auto simp: valid_def pinv_def option.pred_set elem_set)
    fix cached
    show "valid (\<lambda>s. pred_option (\<lambda>a. a < length (ps_mstore s)) cached)
     (case cached of Some a \<Rightarrow> preturn a
       | None \<Rightarrow> within_ref E ref key (e_message E) (\<lambda>raw.
           if rmr_ref raw \<noteq> [] then parseMessagePointer n E (rmr_ref raw)
           else pbind (parseMessage E (ptrLastSegment (snd key)) (rmr_inline raw)) (\<lambda>a.
             pbind (pmodify (\<lambda>s. s\<lparr>ps_messages := (ps_messages s)(snd key \<mapsto> a)\<rparr>)) (\<lambda>_. preturn a))))
     (\<lambda>a s. a < length (ps_mstore s))"
    proof (cases cached)
      case None
      have "valid (\<lambda>s. a < length (ps_mstore s))
          (pbind (pmodify (\<lambda>s. s\<lparr>ps_messages := (ps_messages s)(snd key \<mapsto> a)\<rparr>)) (\<lambda>_. preturn a))
          (\<lambda>a s. a < length (ps_mstore s))" for a
        by (auto simp: valid_def pbind_Inr pinv_def grows_def wf_channel_def messages_ok_def parameters_ok_def)
      then have "valid (\<lambda>_. True) (pbind (parseMessage E (ptrLastSegment (snd key)) (rmr_inline raw)) (\<lambda>a.
             pbind (pmodify (\<lambda>s. s\<lparr>ps_messages := (ps_messages s)(snd key \<mapsto> a)\<rparr>)) (\<lambda>_. preturn a)))
          (\<lambda>a s. a < length (ps_mstore s))" for raw :: raw_message_ref
        by (rule valid_bind [OF valid_parseMessage])
      then have "valid (\<lambda>_. True) (if rmr_ref raw \<noteq> [] then parseMessagePointer n E (rmr_ref raw)
           else pbind (parseMessage E (ptrLastSegment (snd key)) (rmr_inline raw)) (\<lambda>a.
             pbind (pmodify (\<lambda>s. s\<lparr>ps_messages := (ps_messages s)(snd key \<mapsto> a)\<rparr>)) (\<lambda>_. preturn a)))
          (\<lambda>a s. a < length (ps_mstore s))" for raw :: raw_message_ref
        using Suc.IH by simp
      from valid_within_ref [OF _ _ this] show ?thesis unfolding None by (simp add: stab)
    next
      case (Some a)
      then show ?thesis using valid_preturn [of "\<lambda>a s. a < length (ps_mstore s)" a] by simp
    qed
  qed
qed

lemma valid_parseMessageRef:
  "valid (\<lambda>_. True) (parseMessageRef n E ref) (\<lambda>a s. a < length (ps_mstore s))"
  by (simp add: parseMessageRef_def valid_parseMessagePointer valid_parseMessage)

lemma valid_name_message: "stable P \<Longrightarrow> valid P (name_message a n) (\<lambda>_. P)"
proof (unfold name_message_def, rule valid_pmodify)
  fix s :: "'a pstate"
  assume P: "stable P" and s: "pinv s" "P s"
  define s' where "s' = (let m = ps_mstore s ! a in
     if ms_spec_name m = [] then
       s\<lparr>ps_mstore := (ps_mstore s)[a := m\<lparr>ms_spec_name := n,
           ms_name := (if ms_name m = [] then n else ms_name m)\<rparr>]\<rparr>
     else s)"
  have g: "grows s s'" by (simp add: s'_def grows_def Let_def)
  have "list_all (\<lambda>m. json_content_type (ms_content_type m))
      ((ps_mstore s)[a := (ps_mstore s ! a)\<lparr>ms_spec_name := n, ms_name := x\<rparr>])" for x
  proof (cases "a < length (ps_mstore s)")
    case True
    then show ?thesis
      using s(1) set_update_subset_insert [of "ps_mstore s" a] by (fastforce simp: pinv_def list_all_iff)
  next
    case False
    then show ?thesis using s(1) by (simp add: pinv_def list_update_beyond)
  qed
  moreover have "\<forall>k c. ps_channels s' k = Some c \<longrightarrow> wf_channel s' c"
    using s(1) wf_channel_grows [OF _ g] by (auto simp: pinv_def s'_def Let_def)
  ultimately have "pinv s'" using s(1) by (simp add: pinv_def s'_def Let_def)
  then show "pinv s' \<and> grows s s' \<and> P s'" using g stableD [OF P s(2) g] by simp
qed

lemma messages_ok_Cons [simp]: "messages_ok s (a # as) \<longleftrightarrow> a < length (ps_mstore s) \<and> messages_ok s as"
  by (simp add: messages_ok_def)

lemma messages_ok_Nil [simp]: "messages_ok s []"
  by (simp add: messages_ok_def)

lemma valid_cons_message:
  "valid (\<lambda>_. True) m (\<lambda>as s. messages_ok s as) \<Longrightarrow>
   valid (\<lambda>s. a < length (ps_mstore s)) (pbind m (\<lambda>as. preturn (a # as))) (\<lambda>as s. messages_ok s as)"
proof (rule valid_seq, assumption)
  show "valid (\<lambda>s. messages_ok s as \<and> a < length (ps_mstore s)) (preturn (a # as)) (\<lambda>as s. messages_ok s as)" for as
    by (rule valid_weaken [OF valid_preturn [of "\<lambda>as s. messages_ok s as" "a # as"]]) auto
qed (rule stab)

lemma valid_parse_messages:
  "valid (\<lambda>_. True) (parse_messages n E raws names) (\<lambda>as s. messages_ok s as)"
proof (induction names)
  case Nil
  show ?case by (simp add: valid_def)
next
  case (Cons name names)
  have "valid (\<lambda>s. a < length (ps_mstore s)) (pbind (name_message a name) (\<lambda>_.
          pbind (parse_messages n E raws names) (\<lambda>as. preturn (a # as)))) (\<lambda>as s. messages_ok s as)" for a
    by (rule valid_bind [OF valid_name_message], rule stab, rule valid_cons_message [OF Cons.IH])
  then have "valid (\<lambda>_. True) (pbind (parseMessageRef n E ref) (\<lambda>a. pbind (name_message a name) (\<lambda>_.
          pbind (parse_messages n E raws names) (\<lambda>as. preturn (a # as))))) (\<lambda>as s. messages_ok s as)" for ref
    by (rule valid_bind [OF valid_parseMessageRef])
  then show ?case using Cons.IH by (auto split: option.splits)
qed

lemma valid_parseMessagesList:
  "valid (\<lambda>_. True) (parseMessagesList n E refs) (\<lambda>as s. messages_ok s as)"
proof (induction refs)
  case Nil
  show ?case by (simp add: valid_def)
next
  case (Cons r refs)
  have "valid (\<lambda>_. True) (pbind (parseMessageRef n E ref) (\<lambda>a.
          pbind (parseMessagesList n E refs) (\<lambda>as. preturn (a # as)))) (\<lambda>as s. messages_ok s as)" for ref
    by (rule valid_bind [OF valid_parseMessageRef valid_cons_message [OF Cons.IH]])
  then show ?case using Cons.IH by (cases r) simp_all
qed

section \<open>Channels\<close>

lemma valid_channel_servers: "stable P \<Longrightarrow> valid P (channel_servers E refs) (\<lambda>_. P)"
proof (induction refs)
  case Nil
  then show ?case using valid_preturn [of "\<lambda>_. P"] by simp
next
  case (Cons r refs)
  have s: "valid P (parseServerRef E ref) (\<lambda>_. P)" for ref
    using stable_ctx [OF Cons.prems] by (auto simp: valid_def parseServerRef_def split: option.splits if_splits)
  have "valid P (pbind (channel_servers E refs) (\<lambda>names. preturn (g names))) (\<lambda>_. P)" for g :: "string list \<Rightarrow> string list"
    by (rule valid_bind [OF Cons.IH [OF Cons.prems] valid_preturn])
  then have "valid P (channel_servers E (Some ref # refs)) (\<lambda>_. P)" for ref
    unfolding channel_servers.simps by (rule valid_bind [OF s])
  then show ?case using Cons.IH [OF Cons.prems] by (cases r) simp_all
qed

text \<open>Merging traits changes neither address nor the fields the parser sets afterwards.\<close>

definition same_base :: "channel \<Rightarrow> channel \<Rightarrow> bool" where
  "same_base ch ch' \<longleftrightarrow> ch_address ch' = ch_address ch \<and> ch_name ch' = ch_name ch"

lemma valid_trait_servers: "stable P \<Longrightarrow> valid P (trait_servers E refs ch) (\<lambda>ch' s. P s \<and> same_base ch ch')"
proof (induction E refs ch rule: trait_servers.induct)
  case (1 E ch)
  then show ?case by (simp add: valid_def same_base_def)
next
  case (2 E refs ch)
  then show ?case by simp
next
  case (3 E ref refs ch)
  show ?case
    unfolding trait_servers.simps
    by (rule valid_bind [OF valid_add_key [OF "3.prems"]], rule valid_weaken [OF "3.IH" [OF "3.prems"]])
       (auto simp: same_base_def)
qed

lemma valid_trait_parameters:
  "stable P \<Longrightarrow> valid P (trait_parameters E ps ch) (\<lambda>ch' s. P s \<and> same_base ch ch')"
proof (induction E ps ch rule: trait_parameters.induct)
  case (1 E ch)
  then show ?case by (simp add: valid_def same_base_def)
next
  case (2 E pname ps ch)
  then show ?case by simp
next
  case (3 E pname pref ps ch)
  show ?case
  proof (cases "map_of (ch_parameters ch) pname = None")
    case False
    then show ?thesis by (simp add: valid_pfail)
  next
    case True
    have "valid P (pbind (parse_parameter E pname pref) (\<lambda>a. trait_parameters E ps
        (ch\<lparr>ch_parameters := smap_set (ch_parameters ch) pname a\<rparr>))) (\<lambda>ch' s. P s \<and> same_base ch ch')"
      by (rule valid_seq [OF valid_parse_parameter "3.prems"],
          rule valid_weaken [OF "3.IH" [OF _ "3.prems"]]) (auto simp: True same_base_def)
    then show ?thesis using True by simp
  qed
qed

lemma apply_channel_trait_base: "apply_channel_trait r ch = Inr ch' \<Longrightarrow> same_base ch ch'"
  by (auto simp: apply_channel_trait_def same_base_def)

lemma same_base_trans: "same_base a b \<Longrightarrow> same_base b c \<Longrightarrow> same_base a c"
  by (simp add: same_base_def)

lemma valid_mergeChannelTraits:
  "stable P \<Longrightarrow> valid P (mergeChannelTraits E ts ch) (\<lambda>ch' s. P s \<and> same_base ch ch')"
proof (induction ts arbitrary: ch P)
  case Nil
  then show ?case by (simp add: valid_def same_base_def)
next
  case (Cons t' ts)
  have P': "stable (\<lambda>s. P s \<and> same_base ch c)" for c
    using Cons.prems by (intro stab)
  have c: "valid (\<lambda>s. P s \<and> same_base ch c) (mergeChannelTraits E ts c) (\<lambda>ch' s. P s \<and> same_base ch ch')" for c
    by (rule valid_weaken [OF Cons.IH [OF P']]) (auto intro: same_base_trans)
  have b: "valid (\<lambda>s. P s \<and> same_base ch c) (pbind (trait_parameters E ps c) (mergeChannelTraits E ts))
      (\<lambda>ch' s. P s \<and> same_base ch ch')" for c ps
    by (rule valid_bind [OF valid_trait_parameters [OF P']], rule valid_weaken [OF c])
       (auto intro: same_base_trans)
  have a: "valid (\<lambda>s. P s \<and> same_base ch c) (pbind (trait_servers E ss c) (\<lambda>c2.
      pbind (trait_parameters E ps c2) (mergeChannelTraits E ts))) (\<lambda>ch' s. P s \<and> same_base ch ch')" for c ss ps
    by (rule valid_bind [OF valid_trait_servers [OF P']], rule valid_weaken [OF b])
       (auto intro: same_base_trans)
  show ?case
  proof (cases t')
    case None
    then show ?thesis by (simp add: valid_pfail)
  next
    case (Some t)
    show ?thesis
      unfolding Some mergeChannelTraits.simps resolveChannelTrait_def
      by (rule valid_bind [OF valid_resolve_trait [OF Cons.prems]], rule valid_bind_lift,
          rule valid_weaken [OF a]) (auto dest: apply_channel_trait_base)
  qed
qed

lemma rf_string_default: "rf_string D f key dst = Inr v \<Longrightarrow> \<not> rf_has f key \<Longrightarrow> v = dst"
  by (simp add: rf_string_def rf_has_def)

lemma rf_integer_default: "rf_integer D f key dst = Inr v \<Longrightarrow> \<not> rf_has f key \<Longrightarrow> v = dst"
  by (simp add: rf_integer_def rf_has_def)

lemma parseRedisChannelBinding_ok:
  assumes "parseRedisChannelBinding D bs exts = Inr (Some b)"
  shows "redis_channel_ok b"
proof -
  obtain f ty ml where 1: "rf_string D f ''type'' [] = Inr ty" "rf_integer D f ''maxLen'' 0 = Inr ml"
    "checkBindingVersion f = None" "ty = RedisTypeStream \<or> ty = RedisTypePubSub"
    "\<not> (rf_has f ''maxLen'' \<and> ty = RedisTypePubSub)" "\<not> (rf_has f ''maxLen'' \<and> ml < 1)"
    and b: "b = \<lparr>rcb_type = ty, rcb_max_len = ml, rcb_version = rf_version f\<rparr>"
    using assms by (auto simp: parseRedisChannelBinding_def split: option.splits if_splits)
  have "RedisTypeStream \<noteq> RedisTypePubSub" by (simp add: RedisTypeStream_def RedisTypePubSub_def)
  then show ?thesis
    using 1 rf_integer_default [OF 1(2)] unfolding b
    by (auto simp: redis_channel_ok_def checkBindingVersion_def split: if_splits)
qed

lemma validateAddressParams_None:
  "validateAddressParams ch = None \<Longrightarrow>
   list_all (\<lambda>t. map_of (ch_parameters ch) t \<noteq> None) (addressTokens (ch_address ch))"
  unfolding validateAddressParams_def list_all_iff
  by (auto simp: find_None_iff split: option.splits)

lemma valid_parseChannel:
  "valid (\<lambda>_. True) (parseChannel n E name raw) (\<lambda>ch s. wf_channel s ch)"
proof (cases "rc_address raw = []")
  case True
  then show ?thesis by (simp add: parseChannel_def valid_pfail)
next
  case False
  have fin: "valid (\<lambda>s. messages_ok s msgs \<and> parameters_ok s params)
      (let ch' = ch\<lparr>ch_redis := redis, ch_parameters := params, ch_messages := msgs\<rparr> in
          pbind (pguard (validateAddressParams ch')) (\<lambda>_. preturn ch')) (\<lambda>ch s. wf_channel s ch)"
    if "ch_address ch \<noteq> []" "pred_option redis_channel_ok redis" for ch redis params msgs
    using that unfolding Let_def
    by (intro valid_bind_guard)
       (auto simp: valid_def wf_channel_def dest!: validateAddressParams_None)
  have msgs: "valid (\<lambda>_. True) (if rc_messages raw \<noteq> [] then parseMessagesMap n E (rc_messages raw) else preturn [])
      (\<lambda>as s. messages_ok s as)"
    by (simp add: parseMessagesMap_def valid_parse_messages) (simp add: valid_def)
  have tail: "valid (\<lambda>_. True)
      (pbind (parse_parameters E (rc_parameters raw) (sorted_keys (rc_parameters raw)) []) (\<lambda>params.
        pbind (if rc_messages raw \<noteq> [] then parseMessagesMap n E (rc_messages raw) else preturn []) (\<lambda>msgs.
          let ch' = ch\<lparr>ch_redis := redis, ch_parameters := params, ch_messages := msgs\<rparr> in
          pbind (pguard (validateAddressParams ch')) (\<lambda>_. preturn ch')))) (\<lambda>ch s. wf_channel s ch)"
    if "ch_address ch \<noteq> []" "pred_option redis_channel_ok redis" for ch redis
    by (rule valid_bind [OF valid_weaken [OF valid_parse_parameters]],
        simp add: parameters_ok_def, assumption, rule valid_seq [OF msgs], rule stab, rule fin [OF that])
  have P: "stable (\<lambda>_. True)" by (rule stab)
  show ?thesis
    unfolding parseChannel_def if_not_P [OF False]
  proof (rule valid_bind [OF valid_channel_servers [OF P]], rule valid_bind [OF valid_mergeChannelTraits [OF P]])
    fix servers ch
    show "valid (\<lambda>s. True \<and> same_base (channel_start name raw servers) ch)
      (pbind (plift (parseRedisChannelBinding (e_decoder E) (ch_bindings ch) (rc_extensions raw))) (\<lambda>redis.
        pbind (parse_parameters E (rc_parameters raw) (sorted_keys (rc_parameters raw)) []) (\<lambda>params.
        pbind (if rc_messages raw \<noteq> [] then parseMessagesMap n E (rc_messages raw) else preturn []) (\<lambda>msgs.
          let ch' = ch\<lparr>ch_redis := redis, ch_parameters := params, ch_messages := msgs\<rparr> in
          pbind (pguard (validateAddressParams ch')) (\<lambda>_. preturn ch'))))) (\<lambda>ch s. wf_channel s ch)"
    proof (cases "same_base (channel_start name raw servers) ch")
      case b: True
      then have "ch_address ch \<noteq> []" using False by (simp add: same_base_def channel_start_def)
      moreover have "pred_option redis_channel_ok redis"
        if "parseRedisChannelBinding (e_decoder E) (ch_bindings ch) (rc_extensions raw) = Inr redis" for redis
        using that parseRedisChannelBinding_ok by (cases redis) auto
      ultimately show ?thesis
        by (intro valid_bind_lift) (rule valid_weaken [OF tail], simp_all)
    next
      case b: False
      then show ?thesis by (simp add: valid_def)
    qed
  qed
qed

lemma valid_parseChannelPointer:
  "valid (\<lambda>_. True) (parseChannelPointer n E ref) (\<lambda>ch s. wf_channel s ch)"
  unfolding parseChannelPointer_def
proof (rule valid_bind [OF valid_ref_key], rule stab, rule valid_bind)
  fix key :: refkey
  show "valid (\<lambda>_. True) (pget (\<lambda>s. ps_channels s (snd key))) (\<lambda>c s. pred_option (\<lambda>ch. wf_channel s ch) c)"
    by (auto simp: valid_def pinv_def option.pred_set elem_set)
  fix cached
  show "valid (\<lambda>s. pred_option (\<lambda>ch. wf_channel s ch) cached)
     (case cached of Some ch \<Rightarrow> preturn ch
       | None \<Rightarrow> within_ref E ref key (e_channel E) (\<lambda>raw.
           pbind (parseChannel n E (ptrLastSegment (snd key)) raw) (\<lambda>ch.
           pbind (pmodify (\<lambda>s. s\<lparr>ps_channels := (ps_channels s)(snd key \<mapsto> ch)\<rparr>)) (\<lambda>_. preturn ch))))
     (\<lambda>ch s. wf_channel s ch)"
  proof (cases cached)
    case None
    have "valid (\<lambda>s. wf_channel s ch)
        (pbind (pmodify (\<lambda>s. s\<lparr>ps_channels := (ps_channels s)(snd key \<mapsto> ch)\<rparr>)) (\<lambda>_. preturn ch))
        (\<lambda>ch s. wf_channel s ch)" for ch
      by (auto simp: valid_def pbind_Inr pinv_def grows_def wf_channel_def messages_ok_def parameters_ok_def)
    then have "valid (\<lambda>_. True) (pbind (parseChannel n E (ptrLastSegment (snd key)) raw) (\<lambda>ch.
           pbind (pmodify (\<lambda>s. s\<lparr>ps_channels := (ps_channels s)(snd key \<mapsto> ch)\<rparr>)) (\<lambda>_. preturn ch)))
        (\<lambda>ch s. wf_channel s ch)" for raw
      by (rule valid_bind [OF valid_parseChannel])
    from valid_within_ref [OF _ _ this] show ?thesis unfolding None by (simp add: stab)
  next
    case (Some ch)
    then show ?thesis using valid_preturn [of "\<lambda>ch s. wf_channel s ch" ch] by simp
  qed
qed

lemma valid_parseChannelRef:
  "valid (\<lambda>_. True) (parseChannelRef n E ref nm) (\<lambda>ch s. wf_channel s ch)"
  by (simp add: parseChannelRef_def valid_parseChannelPointer valid_parseChannel)

section \<open>Operations and the document\<close>

text \<open>
  Linked messages: addresses into the store, and none only if the object itself listed nothing but
  nil references.
\<close>

definition linked_ok :: "raw_message_ref option list \<Rightarrow> addr list \<Rightarrow> bool" where
  "linked_ok refs as \<longleftrightarrow> as \<noteq> [] \<or> refs \<noteq> [] \<and> list_all (\<lambda>r. r = None) refs"

lemma parseMessagesList_nonempty:
  "parseMessagesList n E refs s = Inr (as, s') \<Longrightarrow> as = [] \<Longrightarrow> list_all (\<lambda>r. r = None) refs"
proof (induction refs arbitrary: as s s')
  case Nil
  then show ?case by simp
next
  case (Cons r refs)
  then show ?case by (cases r) (auto simp: pbind_Inr)
qed

lemma valid_linked_messages:
  "valid (\<lambda>s. wf_channel s ch) (linked_messages n E err refs ch) (\<lambda>as s. messages_ok s as \<and> linked_ok refs as)"
proof (cases "refs = []")
  case True
  then show ?thesis by (auto simp: linked_messages_def valid_def wf_channel_def linked_ok_def)
next
  case False
  have "valid (\<lambda>s. wf_channel s ch) (parseMessagesList n E refs) (\<lambda>as s. messages_ok s as)"
    by (rule valid_weaken [OF valid_parseMessagesList]) auto
  then show ?thesis
    using False parseMessagesList_nonempty [of n E refs]
    by (auto simp: linked_messages_def valid_def linked_ok_def)
qed

definition wf_reply :: "'x pstate \<Rightarrow> reply \<Rightarrow> bool" where
  "wf_reply s r \<longleftrightarrow> wf_channel s (re_channel r) \<and> messages_ok s (re_messages r)"

definition wf_operation :: "'x pstate \<Rightarrow> operation \<Rightarrow> bool" where
  "wf_operation s op1 \<longleftrightarrow>
     valid_action (op_action op1)
     \<and> (case op_channel op1 of None \<Rightarrow> False | Some ch \<Rightarrow>
          wf_channel s ch
          \<and> (case op_redis op1 of None \<Rightarrow> True | Some r \<Rightarrow>
               rob_group r = [] \<or> op_action op1 = ReceiveAction
                 \<and> (case ch_redis ch of None \<Rightarrow> False | Some b \<Rightarrow> rcb_type b = RedisTypeStream)))
     \<and> messages_ok s (op_messages op1)
     \<and> pred_option (wf_reply s) (op_reply op1)"

lemma wf_reply_grows: "wf_reply s r \<Longrightarrow> grows s s' \<Longrightarrow> wf_reply s' r"
  using wf_channel_grows messages_ok_grows by (auto simp: wf_reply_def)

lemma wf_operation_grows: "wf_operation s op1 \<Longrightarrow> grows s s' \<Longrightarrow> wf_operation s' op1"
  using wf_channel_grows [of s _ s'] messages_ok_grows [of s _ s'] wf_reply_grows [of s _ s']
  by (auto simp: wf_operation_def option.pred_set split: option.splits)

lemma stable_wf [stab]: "stable (\<lambda>s. wf_reply s r)" "stable (\<lambda>s. wf_operation s op1)"
  by (auto simp: stable_def intro: wf_reply_grows wf_operation_grows)

lemma valid_parseReply: "valid (\<lambda>_. True) (parseReply n E raw) (\<lambda>r s. wf_reply s r)"
proof -
  have l: "valid (\<lambda>s. wf_channel s ch) (pbind (linked_messages n E err refs ch) (\<lambda>msgs.
      preturn \<lparr>re_channel = ch, re_messages = msgs, re_title = a, re_summary = b, re_description = c, re_extensions = x\<rparr>))
      (\<lambda>r s. wf_reply s r)" for err refs ch a b c x
  proof (rule valid_bind)
    show "valid (\<lambda>s. wf_channel s ch) (linked_messages n E err refs ch)
        (\<lambda>as s. messages_ok s as \<and> wf_channel s ch)"
      by (rule valid_weaken [OF valid_frame [OF valid_linked_messages, where F = "\<lambda>s. wf_channel s ch"]]) (auto intro: stab)
  qed (auto simp: valid_def wf_reply_def)
  show ?thesis
    unfolding parseReply_def
    by (rule valid_bind_opt, rule valid_bind [OF valid_parseChannelRef], rule l)
qed
lemma validateRedisOperationBinding_None:
  "validateRedisOperationBinding op1 = None \<Longrightarrow> op_channel op1 = Some ch \<Longrightarrow> op_redis op1 = Some r \<Longrightarrow>
   rob_group r = [] \<or> op_action op1 = ReceiveAction
     \<and> (case ch_redis ch of None \<Rightarrow> False | Some b \<Rightarrow> rcb_type b = RedisTypeStream)"
  by (auto simp: validateRedisOperationBinding_def split: if_splits option.splits)

lemma apply_operation_trait_keeps:
  "apply_operation_trait t op1 = Inr op2 \<Longrightarrow> op_action op2 = op_action op1 \<and> op_name op2 = op_name op1"
  by (auto simp: apply_operation_trait_def)

lemma mergeOperationTraits_keeps:
  "mergeOperationTraits E ts op1 s = Inr (op2, s') \<Longrightarrow> op_action op2 = op_action op1 \<and> op_name op2 = op_name op1"
proof (induction ts arbitrary: op1 s)
  case Nil
  then show ?case by simp
next
  case (Cons t ts)
  then show ?case by (cases t) (auto simp: pbind_Inr dest: apply_operation_trait_keeps)
qed

definition operation_post :: "string \<Rightarrow> raw_operation \<Rightarrow> operation \<Rightarrow> 'x pstate \<Rightarrow> bool" where
  "operation_post name raw op1 s \<longleftrightarrow> wf_operation s op1 \<and> op_name op1 = name \<and> op_action op1 = ro_action raw
     \<and> (op_messages op1 \<noteq> [] \<or> ro_messages raw \<noteq> [] \<and> list_all (\<lambda>r. r = None) (ro_messages raw))"

lemma valid_operation_tail:
  fixes E :: "'x environ"
  assumes "op_action op1 = ro_action raw" "op_name op1 = name" "valid_action (op_action op1)"
    "op_channel op1 = Some ch" "validateRedisOperationBinding op1 = None"
  shows "valid (\<lambda>s. wf_channel s ch)
     (pbind (linked_messages n E NoMessages (ro_messages raw) ch) (\<lambda>msgs.
      pbind (case ro_reply raw of None \<Rightarrow> preturn None
               | Some r \<Rightarrow> pbind (parseReply n E r) (\<lambda>re. preturn (Some re))) (\<lambda>re.
        preturn (op1\<lparr>op_messages := msgs, op_reply := re\<rparr>))))
     (operation_post name raw)"
proof (rule valid_bind)
  show "valid (\<lambda>s. wf_channel s ch) (linked_messages n E NoMessages (ro_messages raw) ch)
      (\<lambda>as s. (messages_ok s as \<and> linked_ok (ro_messages raw) as) \<and> wf_channel s ch)"
    by (rule valid_weaken [OF valid_frame [OF valid_linked_messages, where F = "\<lambda>s. wf_channel s ch"]])
       (auto intro: stab)
  fix msgs
  define F where "F = (\<lambda>s :: 'x pstate. (messages_ok s msgs \<and> linked_ok (ro_messages raw) msgs) \<and> wf_channel s ch)"
  have F: "stable F" unfolding F_def by (intro stab)
  have reply: "valid (\<lambda>_. True) (case ro_reply raw of None \<Rightarrow> preturn None
               | Some r \<Rightarrow> pbind (parseReply n E r) (\<lambda>re. preturn (Some re)))
      (\<lambda>re s. pred_option (wf_reply s) re)"
  proof (cases "ro_reply raw")
    case None
    then show ?thesis by (simp add: valid_def)
  next
    case (Some r)
    have "valid (\<lambda>_. True) (pbind (parseReply n E r) (\<lambda>re. preturn (Some re)))
        (\<lambda>re s. pred_option (wf_reply s) re)"
      by (rule valid_bind [OF valid_parseReply]) (simp add: valid_def)
    then show ?thesis by (simp add: Some)
  qed
  have fin: "valid (\<lambda>s. pred_option (wf_reply s) re \<and> F s)
      (preturn (op1\<lparr>op_messages := msgs, op_reply := re\<rparr>) :: ('x, operation) parse)
      (operation_post name raw)" for re
    using assms validateRedisOperationBinding_None [OF assms(5,4)]
    by (auto simp: valid_def F_def operation_post_def wf_operation_def linked_ok_def split: option.splits)
  show "valid (\<lambda>s. (messages_ok s msgs \<and> linked_ok (ro_messages raw) msgs) \<and> wf_channel s ch)
     (pbind (case ro_reply raw of None \<Rightarrow> preturn None
               | Some r \<Rightarrow> pbind (parseReply n E r) (\<lambda>re. preturn (Some re))) (\<lambda>re.
        preturn (op1\<lparr>op_messages := msgs, op_reply := re\<rparr>)))
     (operation_post name raw)"
    unfolding F_def [symmetric] by (rule valid_seq [OF reply F fin])
qed

lemma valid_parse_operation_body:
  "valid (\<lambda>_. True) (parse_operation_body n E name raw) (operation_post name raw)"
proof (cases "valid_action (ro_action raw)")
  case False
  then show ?thesis by (simp add: parse_operation_body_def valid_pfail)
next
  case True
  have P: "stable (\<lambda>_. True)" by (rule stab)
  have m: "valid (\<lambda>_. True) (mergeOperationTraits E (ro_traits raw) (operation_start name raw))
      (\<lambda>op0 s. op_action op0 = ro_action raw \<and> op_name op0 = name)"
    using valid_mergeOperationTraits [OF P, of E "ro_traits raw" "operation_start name raw"]
    by (auto simp: valid_def operation_start_def dest: mergeOperationTraits_keeps)
  have t: "valid (\<lambda>s. wf_channel s ch)
      (pbind (plift (parseRedisOperationBinding (e_decoder E) (op_bindings op0) (op_extensions op0))) (\<lambda>redis.
          let op1 = op0\<lparr>op_channel := Some ch, op_redis := redis\<rparr> in
          pbind (pguard (validateRedisOperationBinding op1)) (\<lambda>_.
          pbind (linked_messages n E NoMessages (ro_messages raw) ch) (\<lambda>msgs.
          pbind (case ro_reply raw of
                   None \<Rightarrow> preturn None
                 | Some r \<Rightarrow> pbind (parseReply n E r) (\<lambda>re. preturn (Some re))) (\<lambda>re.
            preturn (op1\<lparr>op_messages := msgs, op_reply := re\<rparr>)))))) (operation_post name raw)"
    if "op_action op0 = ro_action raw" "op_name op0 = name" for op0 ch
    unfolding Let_def
    by (intro valid_bind_lift valid_bind_guard valid_operation_tail) (simp_all add: that True)
  have "valid (\<lambda>s. op_action op0 = ro_action raw \<and> op_name op0 = name)
      (pbind (plift_opt ChannelRequired (ro_channel raw)) (\<lambda>cref.
        pbind (parseChannelRef n E cref name) (\<lambda>ch.
        pbind (plift (parseRedisOperationBinding (e_decoder E) (op_bindings op0) (op_extensions op0))) (\<lambda>redis.
          let op1 = op0\<lparr>op_channel := Some ch, op_redis := redis\<rparr> in
          pbind (pguard (validateRedisOperationBinding op1)) (\<lambda>_.
          pbind (linked_messages n E NoMessages (ro_messages raw) ch) (\<lambda>msgs.
          pbind (case ro_reply raw of
                   None \<Rightarrow> preturn None
                 | Some r \<Rightarrow> pbind (parseReply n E r) (\<lambda>re. preturn (Some re))) (\<lambda>re.
            preturn (op1\<lparr>op_messages := msgs, op_reply := re\<rparr>)))))))) (operation_post name raw)" for op0
  proof (cases "op_action op0 = ro_action raw \<and> op_name op0 = name")
    case c: True
    show ?thesis
      by (rule valid_weaken [where P = "\<lambda>_. True"], rule valid_bind_opt,
          rule valid_bind [OF valid_parseChannelRef], rule t) (use c in auto)
  qed (auto simp: valid_def)
  from valid_bind [OF m this] show ?thesis using True by (simp add: parse_operation_body_def)
qed
lemma valid_parseOperation:
  "valid (\<lambda>_. True) (parseOperation n E name raw)
     (\<lambda>op1 s. \<exists>raw'. (ro_ref raw = [] \<longrightarrow> raw' = raw) \<and> operation_post name raw' op1 s)"
proof (cases "ro_ref raw = []")
  case True
  then show ?thesis
    by (simp add: parseOperation_def) (rule valid_weaken [OF valid_parse_operation_body], auto)
next
  case False
  have "valid (\<lambda>_. True) (parse_operation_body n E name r)
      (\<lambda>op1 s. \<exists>raw'. (ro_ref raw = [] \<longrightarrow> raw' = raw) \<and> operation_post name raw' op1 s)" for r
    by (rule valid_weaken [OF valid_parse_operation_body]) (use False in auto)
  then have "valid (\<lambda>_. True) (pbind (resolveOperationRef E (ro_ref raw)) (parse_operation_body n E name))
      (\<lambda>op1 s. \<exists>raw'. (ro_ref raw = [] \<longrightarrow> raw' = raw) \<and> operation_post name raw' op1 s)"
    unfolding resolveOperationRef_def by (rule valid_bind [OF valid_resolve_plain [OF stable_intros(1)]])
  then show ?thesis using False by (simp add: parseOperation_def)
qed

text \<open>The entries of a map of pointers that are not nil, in key order.\<close>

definition present :: "'v option smap \<Rightarrow> string list" where
  "present m = filter (\<lambda>k. case map_of m k of Some (Some _) \<Rightarrow> True | _ \<Rightarrow> False) (sorted_keys m)"

lemma valid_parse_operations:
  "valid (\<lambda>_. True) (parse_operations n E raws names)
     (\<lambda>ops s. list_all (wf_operation s) ops
        \<and> map op_name ops = filter (\<lambda>k. case map_of raws k of Some (Some _) \<Rightarrow> True | _ \<Rightarrow> False) names)"
proof (induction names)
  case Nil
  show ?case by (simp add: valid_def)
next
  case (Cons name names)
  show ?case
  proof (cases "\<exists>raw. map_of raws name = Some (Some raw)")
    case True
    then obtain raw where raw: "map_of raws name = Some (Some raw)" by blast
    have p: "valid (\<lambda>_. True) (parseOperation n E name raw) (\<lambda>op1 s. wf_operation s op1 \<and> op_name op1 = name)"
      by (rule valid_weaken [OF valid_parseOperation]) (auto simp: operation_post_def)
    have "valid (\<lambda>s. wf_operation s op1 \<and> op_name op1 = name)
        (pbind (parse_operations n E raws names) (\<lambda>ops. preturn (op1 # ops)))
        (\<lambda>ops s. list_all (wf_operation s) ops
          \<and> map op_name ops = filter (\<lambda>k. case map_of raws k of Some (Some _) \<Rightarrow> True | _ \<Rightarrow> False) (name # names))" for op1
      by (rule valid_seq [OF Cons.IH]) (intro stab, auto simp: valid_def raw)
    from valid_bind [OF p this] show ?thesis by (simp add: raw)
  next
    case False
    then show ?thesis using Cons.IH by (auto split: option.splits)
  qed
qed

definition wf_server :: "string \<Rightarrow> server \<Rightarrow> bool" where
  "wf_server name srv \<longleftrightarrow> se_name srv = name \<and> se_host srv \<noteq> [] \<and> se_protocol srv \<noteq> []"

lemma server_from_wf: "server_from name raw = Inr srv \<Longrightarrow> wf_server name srv"
  by (auto simp: server_from_def wf_server_def split: if_splits)

lemma list_all_smap_set:
  "list_all (\<lambda>(k, v). P k v) m \<Longrightarrow> P k v \<Longrightarrow> list_all (\<lambda>(k, v). P k v) (smap_set m k v)"
  by (induction m k v rule: smap_set.induct) auto

lemma valid_parseServers:
  "list_all (\<lambda>(k, v). wf_server k v) out \<Longrightarrow>
   valid (\<lambda>_. True) (parseServers E raws out) (\<lambda>srvs s. list_all (\<lambda>(k, v). wf_server k v) srvs)"
proof (induction raws arbitrary: out)
  case Nil
  then show ?case by (simp add: valid_def)
next
  case (Cons r raws)
  obtain name so where r: "r = (name, so)" by (cases r)
  show ?case
  proof (cases so)
    case None
    then show ?thesis using Cons by (simp add: r)
  next
    case (Some raw)
    have "valid (\<lambda>_. True) (if rs_ref raw \<noteq> [] then resolveServerRef E (rs_ref raw) else preturn raw) (\<lambda>_ _. True)"
      by (simp add: resolveServerRef_def valid_resolve_plain [OF stable_intros(1)]
          valid_preturn [of "\<lambda>_ _. True"])
    moreover have "valid (\<lambda>_. True) (pbind (plift (server_from name raw')) (\<lambda>srv.
        parseServers E raws (smap_set out name srv))) (\<lambda>srvs s. list_all (\<lambda>(k, v). wf_server k v) srvs)" for raw'
      by (rule valid_bind_lift, rule Cons.IH, rule list_all_smap_set [OF Cons.prems])
         (rule server_from_wf)
    ultimately show ?thesis unfolding r Some parseServers.simps by (rule valid_bind)
  qed
qed

lemma valid_parse_document:
  "valid (\<lambda>_. True) (parse_document n E sp)
     (\<lambda>a s. list_all (wf_operation s) (api_operations a)
        \<and> map op_name (api_operations a) = present (sp_operations sp)
        \<and> list_all (\<lambda>(k, v). wf_server k v) (api_servers a)
        \<and> parseVersion (sp_asyncapi sp) = Inr (api_version a))"
proof -
  have fin: "valid (\<lambda>s. True) (pbind (parseOperations n E (sp_operations sp)) (\<lambda>ops.
       preturn \<lparr>api_version = version, api_info = sp_info sp, api_id = sp_id sp,
         api_default_content_type = defaultContentType sp, api_servers = servers,
         api_channels = [], api_operations = ops\<rparr>))
      (\<lambda>a s. list_all (wf_operation s) (api_operations a)
        \<and> map op_name (api_operations a) = present (sp_operations sp)
        \<and> list_all (\<lambda>(k, v). wf_server k v) (api_servers a)
        \<and> parseVersion (sp_asyncapi sp) = Inr (api_version a))"
    if "parseVersion (sp_asyncapi sp) = Inr version" "list_all (\<lambda>(k, v). wf_server k v) servers" for version servers
    unfolding parseOperations_def
    by (rule valid_bind [OF valid_parse_operations]) (auto simp: valid_def that present_def)
  show ?thesis
    unfolding parse_document_def
  proof (rule valid_bind_lift, rule valid_bind [OF valid_parseServers])
    fix version servers
    assume v: "parseVersion (sp_asyncapi sp) = Inr version"
    show "valid (\<lambda>s. list_all (\<lambda>(k, v). wf_server k v) servers)
        (pbind (parseOperations n E (sp_operations sp)) (\<lambda>ops.
       preturn \<lparr>api_version = version, api_info = sp_info sp, api_id = sp_id sp,
         api_default_content_type = defaultContentType sp, api_servers = servers,
         api_channels = [], api_operations = ops\<rparr>))
      (\<lambda>a s. list_all (wf_operation s) (api_operations a)
        \<and> map op_name (api_operations a) = present (sp_operations sp)
        \<and> list_all (\<lambda>(k, v). wf_server k v) (api_servers a)
        \<and> parseVersion (sp_asyncapi sp) = Inr (api_version a))"
      by (cases "list_all (\<lambda>(k, v). wf_server k v) servers",
          rule valid_weaken [OF fin [OF v]]) (auto simp: valid_def)
  qed simp
qed

text \<open>An operation that is no reference keeps its action; a server that is none its host and protocol.\<close>

definition declared_action :: "raw_operation option smap \<Rightarrow> operation \<Rightarrow> bool" where
  "declared_action raws op1 \<longleftrightarrow> (\<exists>raw. map_of raws (op_name op1) = Some (Some raw) \<and> (ro_ref raw = [] \<longrightarrow> op_action op1 = ro_action raw))"

definition declared_server :: "raw_server option smap \<Rightarrow> string \<Rightarrow> server \<Rightarrow> bool" where
  "declared_server raws k srv \<longleftrightarrow> (\<exists>raw. (k, Some raw) \<in> set raws
     \<and> (rs_ref raw = [] \<longrightarrow> se_host srv = rs_host raw \<and> se_protocol srv = rs_protocol raw))"

lemma valid_parse_actions:
  "valid (\<lambda>_. True) (parse_operations n E raws names) (\<lambda>ops s. list_all (declared_action raws) ops)"
proof (induction names)
  case Nil
  show ?case by (simp add: valid_def)
next
  case (Cons name names)
  show ?case
  proof (cases "\<exists>raw. map_of raws name = Some (Some raw)")
    case True
    then obtain raw where raw: "map_of raws name = Some (Some raw)" by blast
    have p: "valid (\<lambda>_. True) (parseOperation n E name raw) (\<lambda>op1 s. declared_action raws op1)"
      by (rule valid_weaken [OF valid_parseOperation]) (insert raw, auto simp: operation_post_def declared_action_def)
    have "valid (\<lambda>s. declared_action raws op1)
        (pbind (parse_operations n E raws names) (\<lambda>ops. preturn (op1 # ops))) (\<lambda>ops s. list_all (declared_action raws) ops)" for op1
      by (rule valid_seq [OF Cons.IH]) (intro stab, auto simp: valid_def)
    from valid_bind [OF p this] show ?thesis by (simp add: raw)
  next
    case False
    then show ?thesis using Cons.IH by (auto split: option.splits)
  qed
qed

definition servers_of :: "raw_server option smap \<Rightarrow> server smap \<Rightarrow> server smap \<Rightarrow> bool" where
  "servers_of raws out srvs \<longleftrightarrow> distinct (map fst srvs) \<and> fst ` set srvs = fst ` set out \<union> {k. \<exists>raw. (k, Some raw) \<in> set raws}
     \<and> (\<forall>(k, srv) \<in> set srvs. (k, srv) \<in> set out \<or> declared_server raws k srv)"

lemma servers_of_set:
  assumes "servers_of raws (smap_set out name srv) srvs" and "distinct (map fst out)" and "declared_server ((name, Some raw) # raws) name srv"
  shows "servers_of ((name, Some raw) # raws) out srvs"
proof -
  have "(k, v) \<in> set out \<or> declared_server ((name, Some raw) # raws) k v" if "(k, v) \<in> set srvs" for k v
  proof -
    have "(k, v) \<in> set (smap_set out name srv) \<or> declared_server raws k v" using that assms(1) by (auto simp: servers_of_def)
    then show ?thesis using assms(3) unfolding set_smap_set [OF assms(2)] by (auto simp: declared_server_def)
  qed
  then show ?thesis using assms(1) by (auto simp: servers_of_def)
qed

lemma valid_servers_of:
  "distinct (map fst out) \<Longrightarrow> valid (\<lambda>_. True) (parseServers E raws out) (\<lambda>srvs s. servers_of raws out srvs)"
proof (induction raws arbitrary: out)
  case Nil
  then show ?case by (auto simp: valid_def servers_of_def)
next
  case (Cons r raws)
  obtain name so where r: "r = (name, so)" by (cases r)
  show ?case
  proof (cases so)
    case None
    have "servers_of (r # raws) out = servers_of raws out" by (auto simp: servers_of_def declared_server_def r None fun_eq_iff)
    then show ?thesis using Cons by (simp add: r None)
  next
    case (Some raw)
    have get: "valid (\<lambda>_. True) (if rs_ref raw \<noteq> [] then resolveServerRef E (rs_ref raw) else preturn raw)
        (\<lambda>raw' s. rs_ref raw = [] \<longrightarrow> raw' = raw)"
    proof (cases "rs_ref raw = []")
      case True
      then show ?thesis by (simp add: valid_def)
    next
      case False
      then show ?thesis using valid_weaken [OF valid_resolve_plain [OF stable_intros(1)]] by (simp add: resolveServerRef_def)
    qed
    have "valid (\<lambda>s. rs_ref raw = [] \<longrightarrow> raw' = raw) (pbind (plift (server_from name raw')) (\<lambda>srv.
        parseServers E raws (smap_set out name srv))) (\<lambda>srvs s. servers_of (r # raws) out srvs)" for raw'
    proof (rule valid_bind_lift)
      fix srv assume srv: "server_from name raw' = Inr srv"
      show "valid (\<lambda>s. rs_ref raw = [] \<longrightarrow> raw' = raw) (parseServers E raws (smap_set out name srv)) (\<lambda>srvs s. servers_of (r # raws) out srvs)"
      proof (cases "rs_ref raw = [] \<longrightarrow> raw' = raw")
        case True
        then have d: "declared_server ((name, Some raw) # raws) name srv"
          using srv by (auto simp: declared_server_def server_from_def split: if_splits)
        show ?thesis
          by (rule valid_weaken [OF Cons.IH]) (use Cons.prems servers_of_set [OF _ Cons.prems d] r Some in auto)
      qed (auto simp: valid_def)
    qed
    from valid_bind [OF get this] show ?thesis unfolding r Some parseServers.simps .
  qed
qed

lemma valid_document_sources:
  "valid (\<lambda>_. True) (parse_document n E sp)
     (\<lambda>a s. list_all (declared_action (sp_operations sp)) (api_operations a) \<and> servers_of (sp_servers sp) [] (api_servers a))"
proof -
  have fin: "valid (\<lambda>s. servers_of (sp_servers sp) [] servers) (pbind (parseOperations n E (sp_operations sp)) (\<lambda>ops.
       preturn \<lparr>api_version = version, api_info = sp_info sp, api_id = sp_id sp,
         api_default_content_type = defaultContentType sp, api_servers = servers,
         api_channels = [], api_operations = ops\<rparr>))
      (\<lambda>a s. list_all (declared_action (sp_operations sp)) (api_operations a) \<and> servers_of (sp_servers sp) [] (api_servers a))"
    for version servers
    unfolding parseOperations_def
    by (rule valid_seq [OF valid_parse_actions]) (intro stab, auto simp: valid_def)
  show ?thesis
    unfolding parse_document_def
    by (rule valid_bind_lift, rule valid_bind [OF valid_servers_of]) (simp, rule fin)
qed

lemma Parse_post:
  assumes "Parse E new_ctx d sp = Inr (a, s)"
  shows "pinv s \<and> list_all (wf_operation s) (api_operations a)
     \<and> map op_name (api_operations a) = present (sp_operations sp)
     \<and> list_all (\<lambda>(k, v). wf_server k v) (api_servers a)
     \<and> parseVersion (sp_asyncapi sp) = Inr (api_version a)
     \<and> list_all (declared_action (sp_operations sp)) (api_operations a) \<and> servers_of (sp_servers sp) [] (api_servers a)"
proof -
  define s0 where "s0 = \<lparr>ps_ctx = new_ctx (depth_limit d), ps_channels = Map.empty, ps_messages = Map.empty,
        ps_parameters = Map.empty, ps_mstore = [], ps_pstore = []\<rparr>"
  have "pinv s0" by (simp add: s0_def pinv_def)
  moreover have "parse_document (depth_limit d + 1) (E\<lparr>e_default_content_type := defaultContentType sp\<rparr>) sp s0 = Inr (a, s)"
    using assms by (simp add: Parse_def s0_def)
  ultimately show ?thesis using validD [OF valid_parse_document] validD [OF valid_document_sources] by blast
qed

section \<open>A small document\<close>

definition demo_message :: raw_message where
  "demo_message = \<lparr>rm_name = [], rm_title = [], rm_summary = [], rm_description = [], rm_headers = None,
     rm_payload = Some zero_node, rm_correlation = None, rm_content_type = [], rm_bindings = [],
     rm_schema_format = [], rm_tags = [],
     rm_traits = [Some \<lparr>mt_name = ''Light'', mt_title = ''t'', mt_summary = [], mt_description = [],
       mt_headers = None, mt_correlation = None, mt_content_type = ''application/cloudevents+json'',
       mt_bindings = [], mt_schema_format = [], mt_tags = [], mt_ref = []\<rparr>],
     rm_extensions = []\<rparr>"

definition demo_parameter :: raw_parameter where
  "demo_parameter = \<lparr>rp_enum = [], rp_default = [], rp_description = ''d'', rp_location = [], rp_examples = []\<rparr>"

definition demo_channel :: raw_channel where
  "demo_channel = \<lparr>rc_address = ''lights/{id}'', rc_servers = [Some ''#/servers/prod''],
     rc_messages = [(''m'', Some \<lparr>rmr_ref = [], rmr_inline = demo_message\<rparr>)],
     rc_parameters = [(''id'', Some \<lparr>rpr_ref = ''#/components/parameters/lamp'', rpr_inline = demo_parameter\<rparr>)],
     rc_title = [], rc_summary = [], rc_description = [], rc_bindings = [], rc_tags = [], rc_traits = [],
     rc_extensions = [(''x-redis'', mapping_node [])]\<rparr>"

definition demo_operation :: raw_operation where
  "demo_operation = \<lparr>ro_ref = [], ro_action = ''receive'',
     ro_channel = Some \<lparr>rcr_ref = ''#/channels/lights'', rcr_inline = demo_channel\<rparr>, ro_messages = [],
     ro_title = [], ro_summary = [], ro_description = [], ro_security = [], ro_bindings = [],
     ro_traits = [], ro_tags = [], ro_reply = None,
     ro_extensions = [(''x-redis'', mapping_node [scalar ''consumerGroup''])]\<rparr>"

text \<open>The context is the number of keys still allowed; the decoders return the objects above.\<close>

definition demo_decoder :: decoder where
  "demo_decoder = \<lparr>d_string = \<lambda>n. Some (y_value n), d_strings = \<lambda>n. Some [],
     d_map = \<lambda>n. Some (if y_content n = [] then [(''type'', scalar ''stream'')]
                      else [(''consumerGroup'', scalar ''g'')]),
     d_int = \<lambda>n. Some 0, d_common = \<lambda>n. Some ()\<rparr>"

definition demo_environ :: "nat environ" where
  "demo_environ = \<lparr>e_key = \<lambda>x ref. Some ([], ref), e_add = \<lambda>k x. (if x = 0 then None else Some (x - 1)),
     e_delete = \<lambda>k x. x + 1, e_resolve = \<lambda>ptr. Some zero_node, e_server = \<lambda>n. None,
     e_operation = \<lambda>n. Some demo_operation, e_channel = \<lambda>n. Some demo_channel,
     e_parameter = \<lambda>n. Some demo_parameter, e_message = \<lambda>n. None, e_operation_trait = \<lambda>n. None,
     e_channel_trait = \<lambda>n. None, e_message_trait = \<lambda>n. None, e_schema = \<lambda>r x. Some (r, x),
     e_decoder = demo_decoder, e_default_content_type = []\<rparr>"

definition demo_spec :: spec where
  "demo_spec = \<lparr>sp_asyncapi = ''3.0.0'', sp_id = [],
     sp_info = \<lparr>info_title = ''Lights'', info_version = ''1'', info_description = [], info_terms = []\<rparr>,
     sp_default_content_type = [],
     sp_servers = [(''prod'', Some \<lparr>rs_ref = [], rs_host = ''h'', rs_protocol = ''redis'', rs_protocol_version = [],
       rs_pathname = [], rs_title = [], rs_summary = [], rs_description = [], rs_security = [],
       rs_bindings = [], rs_tags = []\<rparr>)],
     sp_operations = [(''onLight'', Some demo_operation), (''b'', None)]\<rparr>"

lemma demo_parses: "\<exists>a s. Parse demo_environ (\<lambda>d. d) 5 demo_spec = Inr (a, s)"
proof -
  have "\<not> isl (Parse demo_environ (\<lambda>d. d) 5 demo_spec)" by code_simp
  then show ?thesis by (cases "Parse demo_environ (\<lambda>d. d) 5 demo_spec") auto
qed

section \<open>Properties\<close>

text \<open>
  C1: every operation of a successfully parsed document is well formed: its action is send or
  receive; its channel, and the channel of its reply, have an address all of whose \<open>{parameters}\<close> are
  declared, and a Redis binding, if any, that is a stream with a non-negative length limit or a
  pub/sub channel without one, of a supported version; a consumer group only appears on receive
  operations of stream channels; and all its messages, the reply's and the channels' exist and have a
  JSON content type.
\<close>

theorem parsed_operations_wellformed:
  assumes "Parse E new_ctx d sp = Inr (a, s)"
  shows "list_all (wf_operation s) (api_operations a)
     \<and> list_all (\<lambda>m. json_content_type (ms_content_type m)) (ps_mstore s)"
  using Parse_post [OF assms] by (simp add: pinv_def)

lemma parsed_operations_wellformed_witness:
  "\<exists>a s. Parse demo_environ (\<lambda>d. d) 5 demo_spec = Inr (a, s) \<and> list_all (wf_operation s) (api_operations a)"
  using demo_parses parsed_operations_wellformed by metis



lemma splitN_3:
  "splitN 3 c s = (case index_byte s c of
     None \<Rightarrow> [s]
   | Some i \<Rightarrow> take i s # (case index_byte (drop (Suc i) s) c of
        None \<Rightarrow> [drop (Suc i) s]
      | Some j \<Rightarrow> [take j (drop (Suc i) s), drop (Suc j) (drop (Suc i) s)]))"
  by (simp add: numeral_eq_Suc del: drop_drop index_byte_None split: option.splits)

lemma index_byte_split: "index_byte s c = Some i \<Longrightarrow> s = take i s @ c # drop (Suc i) s"
  using index_byte_Some [of s c i] split_at_index [of i s] by simp

text \<open>
  \<open>parseVersion\<close> accepts exactly the versions 3.0 and 3.1, with or without a patch part, and
  returns them unchanged.
\<close>

lemma parse_version_accepts:
  "parseVersion v = Inr w \<longleftrightarrow> w = v \<and> (\<exists>minor \<in> {''0'', ''1''}. v = ''3.'' @ minor \<or> (\<exists>rest. v = ''3.'' @ minor @ ''.'' @ rest))"
  (is "_ \<longleftrightarrow> w = v \<and> ?R")
proof -
  have "?R" if sp: "splitN 3 CHR ''.'' v = ''3'' # minor # more" and mi: "minor = ''0'' \<or> minor = ''1''" for minor more
  proof -
    obtain i where i: "index_byte v CHR ''.'' = Some i" "take i v = ''3''"
      using sp by (auto simp: splitN_3 simp del: index_byte_None splitN.simps split: option.splits)
    have v: "v = ''3.'' @ drop (Suc i) v" using index_byte_split [OF i(1)] i(2) by simp
    show ?thesis
    proof (cases "index_byte (drop (Suc i) v) CHR ''.''")
      case None
      then have "drop (Suc i) v = minor" using sp i by (simp add: splitN_3 del: index_byte_None splitN.simps)
      then show ?thesis using v mi by auto
    next
      case (Some j)
      then have tj: "take j (drop (Suc i) v) = minor" using sp i by (simp add: splitN_3 del: index_byte_None splitN.simps)
      have "drop (Suc i) v = take j (drop (Suc i) v) @ ''.'' @ drop (Suc j) (drop (Suc i) v)"
        using index_byte_split [OF Some] unfolding append_Cons append_Nil .
      then have "drop (Suc i) v = minor @ ''.'' @ drop (Suc j) (drop (Suc i) v)" unfolding tj .
      then have "v = ''3.'' @ minor @ ''.'' @ drop (Suc j) (drop (Suc i) v)" using v by metis
      then show ?thesis using mi by blast
    qed
  qed
  then have "parseVersion v = Inr w \<Longrightarrow> w = v \<and> ?R"
    by (auto simp: parseVersion_def simp del: splitN.simps split: list.splits if_splits)
  moreover have "parseVersion v = Inr v" if "?R"
  proof -
    from that obtain minor where m: "minor = ''0'' \<or> minor = ''1''"
      and v: "v = ''3.'' @ minor \<or> (\<exists>rest. v = ''3.'' @ minor @ ''.'' @ rest)" by blast
    show ?thesis using v m by (auto simp: parseVersion_def splitN_3 simp del: splitN.simps)
  qed
  ultimately show ?thesis by blast
qed

fun build_address :: "(string \<times> string) list \<Rightarrow> string \<Rightarrow> string" where
  "build_address [] tail = tail"
| "build_address ((lit, tok) # parts) tail = lit @ ''{'' @ tok @ ''}'' @ build_address parts tail"

lemma addressTokens_cons:
  assumes "CHR ''{'' \<notin> set lit" and "CHR ''}'' \<notin> set tok"
  shows "addressTokens (lit @ ''{'' @ tok @ ''}'' @ rest) = tok # addressTokens rest"
proof -
  have 1: "index_byte (lit @ CHR ''{'' # (tok @ CHR ''}'' # rest)) CHR ''{'' = Some (length lit)"
    by (rule index_byte_append [OF assms(1)])
  have "CHR ''}'' \<notin> set (CHR ''{'' # tok)" using assms(2) by simp
  from index_byte_append [OF this, of rest]
  have 2: "index_byte (CHR ''{'' # tok @ CHR ''}'' # rest) CHR ''}'' = Some (Suc (length tok))" by simp
  show ?thesis
    using 1 2 by (subst addressTokens.simps) simp
qed

lemma addressTokens_none: "CHR ''{'' \<notin> set s \<Longrightarrow> addressTokens s = []"
  using index_byte_None [THEN iffD2, of "CHR ''{''" s] by (subst addressTokens.simps) (simp del: index_byte_None)

text \<open>
  \<open>addressTokens\<close> reads back the parameters of an address built from literal text and
  \<open>{parameter}\<close> parts, in order: literals without \<open>{\<close> and parameters without \<open>}\<close>.
\<close>

lemma address_tokens_of_template:
  assumes "list_all (\<lambda>(lit, tok). CHR ''{'' \<notin> set lit \<and> CHR ''}'' \<notin> set tok) parts"
    and "CHR ''{'' \<notin> set tail"
  shows "addressTokens (build_address parts tail) = map snd parts"
  using assms(1)
proof (induction parts)
  case Nil
  then show ?case using addressTokens_none [OF assms(2)] by simp
next
  case (Cons p parts)
  obtain lit tok where p: "p = (lit, tok)" by (cases p)
  have "CHR ''{'' \<notin> set lit" "CHR ''}'' \<notin> set tok" using Cons.prems by (simp_all add: p)
  from addressTokens_cons [OF this, of "build_address parts tail"]
  show ?case using Cons by (simp add: p)
qed

lemma address_tokens_of_template_witness:
  "addressTokens (build_address [(''a/'', ''id''), (''/b/'', ''x'')] ''/c'') = [''id'', ''x'']"
proof -
  have "list_all (\<lambda>(lit, tok). CHR ''{'' \<notin> set lit \<and> CHR ''}'' \<notin> set tok) [(''a/'', ''id''), (''/b/'', ''x'')]"
    by simp
  then have "addressTokens (build_address [(''a/'', ''id''), (''/b/'', ''x'')] ''/c'') = map snd [(''a/'', ''id''), (''/b/'', ''x'')]"
    by (rule address_tokens_of_template) simp
  then show ?thesis by (simp only: list.map snd_conv)
qed

lemma setString_keeps: "setString dst src f = Inr r \<Longrightarrow> dst \<noteq> [] \<Longrightarrow> r = dst"
  by (auto simp: setString_def split: if_splits)

lemma mergeSecurity_keeps: "mergeSecurity dst src f = Inr r \<Longrightarrow> dst \<noteq> [] \<Longrightarrow> r = dst"
  by (auto simp: mergeSecurity_def split: if_splits)

lemma mergeBindings_keeps:
  "mergeBindings dst src = Inr r \<Longrightarrow> map_of dst p = Some b \<Longrightarrow> map_of r p = Some b"
proof (induction dst src rule: mergeBindings.induct)
  case (3 dst proto b' src)
  then show ?case by (cases "p = proto") (auto split: if_splits)
qed auto

definition keeps_fields :: "operation \<Rightarrow> operation \<Rightarrow> bool" where
  "keeps_fields op1 op2 \<longleftrightarrow>
     (op_title op1 \<noteq> [] \<longrightarrow> op_title op2 = op_title op1)
     \<and> (op_summary op1 \<noteq> [] \<longrightarrow> op_summary op2 = op_summary op1)
     \<and> (op_description op1 \<noteq> [] \<longrightarrow> op_description op2 = op_description op1)
     \<and> (op_security op1 \<noteq> [] \<longrightarrow> op_security op2 = op_security op1)
     \<and> (\<forall>p b. map_of (op_bindings op1) p = Some b \<longrightarrow> map_of (op_bindings op2) p = Some b)
     \<and> op_name op2 = op_name op1 \<and> op_action op2 = op_action op1"

lemma apply_operation_trait_fields: "apply_operation_trait t op1 = Inr op2 \<Longrightarrow> keeps_fields op1 op2"
  by (auto simp: apply_operation_trait_def keeps_fields_def
      dest: setString_keeps mergeSecurity_keeps mergeBindings_keeps)

lemma keeps_fields_trans: "keeps_fields a b \<Longrightarrow> keeps_fields b c \<Longrightarrow> keeps_fields a c"
  unfolding keeps_fields_def by auto

lemma keeps_fields_refl [simp]: "keeps_fields a a"
  by (simp add: keeps_fields_def)

text \<open>
  C16: merging operation traits never overrides: whatever title, summary, description, security
  requirements or binding the operation had is kept, and its name and action stay.
\<close>

theorem operation_traits_never_override:
  "mergeOperationTraits E ts op1 s = Inr (op2, s') \<Longrightarrow> keeps_fields op1 op2"
proof (induction ts arbitrary: op1 s)
  case Nil
  then show ?case by simp
next
  case (Cons t ts)
  show ?case
  proof (cases t)
    case None
    then show ?thesis using Cons by simp
  next
    case (Some tr)
    then obtain r op3 s3 where "apply_operation_trait r op1 = Inr op3"
      "mergeOperationTraits E ts op3 s3 = Inr (op2, s')"
      using Cons.prems by (auto simp: pbind_Inr)
    then show ?thesis using Cons.IH keeps_fields_trans apply_operation_trait_fields by blast
  qed
qed

definition demo_trait :: raw_operation_trait where
  "demo_trait = \<lparr>ot_title = ''T'', ot_summary = [], ot_description = [], ot_security = [],
     ot_bindings = [(''amqp'', Some \<lparr>b_version = [], b_fields = []\<rparr>)], ot_tags = [], ot_ref = []\<rparr>"

lemma operation_traits_never_override_witness:
  "\<exists>op2 s'. mergeOperationTraits demo_environ [None, Some demo_trait]
      (operation_start ''o'' (demo_operation\<lparr>ro_summary := ''S''\<rparr>))
      \<lparr>ps_ctx = 3, ps_channels = Map.empty, ps_messages = Map.empty, ps_parameters = Map.empty,
       ps_mstore = [], ps_pstore = []\<rparr> = Inr (op2, s')
    \<and> op_summary op2 = ''S'' \<and> op_title op2 = ''T''"
proof -
  define s0 where "s0 = \<lparr>ps_ctx = 3 :: nat, ps_channels = Map.empty, ps_messages = Map.empty,
      ps_parameters = Map.empty, ps_mstore = [], ps_pstore = []\<rparr>"
  define op1 where "op1 = operation_start ''o'' (demo_operation\<lparr>ro_summary := ''S''\<rparr>)"
  have "\<exists>op2. mergeOperationTraits demo_environ [None, Some demo_trait] op1 s0 = Inr (op2, s0) \<and> op_title op2 = ''T''"
    by (simp add: pbind_def resolveOperationTrait_def resolve_trait_def demo_trait_def preturn_def plift_def
        apply_operation_trait_def setString_def mergeSecurity_def op1_def operation_start_def demo_operation_def)
  then obtain op2 where m: "mergeOperationTraits demo_environ [None, Some demo_trait] op1 s0 = Inr (op2, s0)"
    and t: "op_title op2 = ''T''" by blast
  have "op_summary op1 = ''S''" by (simp add: op1_def operation_start_def)
  then have "op_summary op2 = ''S''"
    using operation_traits_never_override [OF m] by (simp add: keeps_fields_def)
  then show ?thesis using m t unfolding op1_def s0_def by blast
qed

lemma parse_parameters_keys:
  "parse_parameters E raws names out s = Inr (ps, s') \<Longrightarrow>
   dom (map_of ps) = dom (map_of out) \<union> {k \<in> set names. \<exists>r. map_of raws k = Some (Some r)}"
proof (induction names arbitrary: out s)
  case Nil
  then show ?case by auto
next
  case (Cons name names)
  show ?case
  proof (cases "\<exists>r. map_of raws name = Some (Some r)")
    case True
    then obtain r a s1 where r: "map_of raws name = Some (Some r)"
      and rest: "parse_parameters E raws names (smap_set out name a) s1 = Inr (ps, s')"
      using Cons.prems by (auto simp: pbind_Inr)
    have "dom (map_of (smap_set out name a)) = insert name (dom (map_of out))" by auto
    moreover have "{k \<in> set (name # names). \<exists>r. map_of raws k = Some (Some r)}
        = insert name {k \<in> set names. \<exists>r. map_of raws k = Some (Some r)}"
      using r by auto
    ultimately show ?thesis unfolding Cons.IH [OF rest] by blast
  next
    case False
    then have "parse_parameters E raws names out s = Inr (ps, s')"
      using Cons.prems by (auto split: option.splits)
    from Cons.IH [OF this] show ?thesis using False by auto
  qed
qed

text \<open>
  The parameters of a parsed channel are exactly the non-nil entries of its own \<open>parameters\<close> map:
  what its traits declare is merged and then discarded.
\<close>

lemma channel_parameters_own_only:
  assumes "parseChannel n E name raw s = Inr (ch, s')"
  shows "dom (map_of (ch_parameters ch)) = set (present (rc_parameters raw))"
proof -
  obtain ps s1 s2 where p: "parse_parameters E (rc_parameters raw) (sorted_keys (rc_parameters raw)) [] s1 = Inr (ps, s2)"
    and ch: "ch_parameters ch = ps"
    using assms by (auto simp: parseChannel_def pbind_Inr Let_def split: if_splits)
  have "{k \<in> fst ` set raws. \<exists>r. map_of raws k = Some (Some r)} = set (present raws)" for raws :: "raw_parameter_ref option smap"
    by (auto simp: present_def split: option.splits dest: map_of_SomeD intro: rev_image_eqI)
  then show ?thesis using parse_parameters_keys [OF p] ch by simp
qed

definition trait_only_channel :: raw_channel where
  "trait_only_channel = demo_channel\<lparr>rc_address := ''lights'', rc_parameters := [], rc_messages := [],
     rc_traits := [Some \<lparr>ct_servers = [], ct_parameters = [(''id'', Some \<lparr>rpr_ref = [], rpr_inline = demo_parameter\<rparr>)],
       ct_title = [], ct_summary = [], ct_description = [], ct_bindings = [], ct_tags = [], ct_ref = []\<rparr>]\<rparr>"

definition demo_state :: "nat pstate" where
  "demo_state = \<lparr>ps_ctx = 3, ps_channels = Map.empty, ps_messages = Map.empty, ps_parameters = Map.empty,
     ps_mstore = [], ps_pstore = []\<rparr>"

lemma channel_parameters_own_only_witness:
  "\<exists>ch s'. parseChannel 1 demo_environ ''lights'' trait_only_channel demo_state = Inr (ch, s')
     \<and> dom (map_of (ch_parameters ch)) = {}"
proof -
  have "\<not> isl (parseChannel 1 demo_environ ''lights'' trait_only_channel demo_state)" by code_simp
  then obtain ch s' where p: "parseChannel 1 demo_environ ''lights'' trait_only_channel demo_state = Inr (ch, s')"
    by (cases "parseChannel 1 demo_environ ''lights'' trait_only_channel demo_state") auto
  have "present (rc_parameters trait_only_channel) = []" by code_simp
  then show ?thesis using channel_parameters_own_only [OF p] p by simp
qed

text \<open>
  A referenced parameter is shared: parsing another channel that refers to it under another name
  returns the same address and renames it, so the channels parsed earlier see the new name.
\<close>

lemma shared_parameter_renamed:
  assumes "rpr_ref pref \<noteq> []" and "e_key E (ps_ctx s) (rpr_ref pref) = Some key"
    and "ps_parameters s (snd key) = Some a" and "a < length (ps_pstore s)"
  shows "\<exists>s'. parse_parameter E pname pref s = Inr (a, s') \<and> pa_name (ps_pstore s' ! a) = pname"
  using assms
  by (simp add: parse_parameter_def parseParameterPointer_def ref_key_def rename_parameter_def
      pbind_def pget_def plift_opt_def preturn_def pmodify_def)

lemma shared_parameter_renamed_witness:
  "\<exists>s'. parse_parameter demo_environ ''lamp'' \<lparr>rpr_ref = ''#/p'', rpr_inline = demo_parameter\<rparr>
      (demo_state\<lparr>ps_parameters := [''#/p'' \<mapsto> 0], ps_pstore := [parameterFrom ''id'' demo_parameter]\<rparr>) = Inr (0, s')
    \<and> pa_name (ps_pstore s' ! 0) = ''lamp''"
  by (rule shared_parameter_renamed [where key = "([], ''#/p'')"]) (simp_all add: demo_environ_def demo_state_def)

end
