(* ===== verification/ParserEnds.thy ===== *)
theory ParserEnds
  imports ParserProps
begin

text \<open>
  The parser always ends within its fuel: only a chain of message references consumes fuel, and every
  link of the chain adds a key to the reference context, whose room is bounded by the depth limit.
\<close>

definition ends :: "('x, 'a) parse \<Rightarrow> bool" where
  "ends m \<longleftrightarrow> (\<forall>s. m s \<noteq> Inl OutOfFuel)"

named_theorems ends_intros

lemma ends_bind [ends_intros]: "ends m \<Longrightarrow> (\<And>a. ends (f a)) \<Longrightarrow> ends (pbind m f)"
  by (auto simp: ends_def pbind_def split: sum.splits)

lemma ends_prims [ends_intros]:
  "ends (preturn a)" "e \<noteq> OutOfFuel \<Longrightarrow> ends (pfail e)" "r \<noteq> Inl OutOfFuel \<Longrightarrow> ends (plift r)"
  "c \<noteq> Some OutOfFuel \<Longrightarrow> ends (pguard c)" "ends (pget g)" "ends (pmodify h)"
  "e \<noteq> OutOfFuel \<Longrightarrow> ends (plift_opt e o')"
  by (auto simp: ends_def preturn_def pfail_def plift_def pguard_def pget_def pmodify_def plift_opt_def
      map_sum_def split: sum.splits option.splits)

lemma ends_opt [ends_intros]:
  "(r = None \<Longrightarrow> ends m) \<Longrightarrow> (\<And>a. r = Some a \<Longrightarrow> ends (f a)) \<Longrightarrow> ends (case r of None \<Rightarrow> m | Some a \<Rightarrow> f a)"
  by (cases r) auto

lemma ends_if [ends_intros]: "(b \<Longrightarrow> ends m) \<Longrightarrow> (\<not> b \<Longrightarrow> ends m') \<Longrightarrow> ends (if b then m else m')"
  by simp

lemma ends_refs [ends_intros]:
  "ends (ref_key E ref)" "ends (add_key E ref key)" "ends (delete_key E key)"
  unfolding ref_key_def add_key_def delete_key_def by (intro ends_intros; simp)+

lemma ends_within_ref [ends_intros]: "(\<And>raw. ends (body raw)) \<Longrightarrow> ends (within_ref E ref key dec body)"
  unfolding within_ref_def by (intro ends_intros; simp)

lemma ends_resolve [ends_intros]:
  "ends (resolve_plain E dec ref)" "ends (resolve_trait E dec' refof t)"
  unfolding resolve_plain_def resolve_trait_def by (intro ends_intros; simp)+

lemma ends_parameters [ends_intros]:
  "ends (parseParameterPointer E ref)" "ends (parse_parameter E pname pref)"
  unfolding parse_parameter_def parseParameterPointer_def new_parameter_def rename_parameter_def
  by (intro ends_intros; simp)+

lemma ends_parse_parameters [ends_intros]: "ends (parse_parameters E raws names out)"
  by (induction E raws names out rule: parse_parameters.induct)
    (auto intro!: ends_intros split: option.splits)

lemma bind_res_Inl_iff: "bind_res r f = Inl e \<longleftrightarrow> r = Inl e \<or> (\<exists>a. r = Inr a \<and> f a = Inl e)"
  by (cases r) auto

lemma guard_res_Inl_iff: "guard_res c r = Inl e \<longleftrightarrow> c = Some e \<or> (c = None \<and> r = Inl e)"
  by (cases c) auto

lemmas res_Inl = bind_res_Inl_iff guard_res_Inl_iff

subsection \<open>Steps without a state never report missing fuel\<close>

lemma no_fuel_small [simp]:
  "setString a b f \<noteq> Inl OutOfFuel" "mergeSecurity x y f \<noteq> Inl OutOfFuel"
  "parseVersion v \<noteq> Inl OutOfFuel" "server_from nm raw \<noteq> Inl OutOfFuel"
  "validateSchemaFormat f \<noteq> Some OutOfFuel" "validateContentType f \<noteq> Some OutOfFuel"
  "validateAddressParams ch \<noteq> Some OutOfFuel" "validateRedisOperationBinding op1 \<noteq> Some OutOfFuel"
  "rf_string D g key d \<noteq> Inl OutOfFuel" "rf_integer D g key i \<noteq> Inl OutOfFuel"
  "checkBindingVersion g \<noteq> Some OutOfFuel" "rejectUnpublishedBinding bs \<noteq> Some OutOfFuel"
  by (auto simp: setString_def mergeSecurity_def parseVersion_def server_from_def validateSchemaFormat_def
      validateContentType_def validateAddressParams_def validateRedisOperationBinding_def rf_string_def
      rf_integer_def checkBindingVersion_def rejectUnpublishedBinding_def split: list.splits option.splits if_splits)

lemma no_fuel_mergeBindings [simp]: "mergeBindings a b \<noteq> Inl OutOfFuel"
  by (induction a b rule: mergeBindings.induct) auto

lemma no_fuel_unknown [simp]: "checkUnknownFields known fs \<noteq> Some OutOfFuel"
  by (induction known fs rule: checkUnknownFields.induct) auto

lemma no_fuel_collect [simp]: "redis_collect D raw f \<noteq> Inl OutOfFuel"
  by (induction D raw f rule: redis_collect.induct) (auto split: option.splits)

lemma no_fuel_extension [simp]: "xRedisExtensionFields D exts \<noteq> Inl OutOfFuel"
  by (auto simp: xRedisExtensionFields_def res_Inl Let_def split: option.splits)

lemma no_fuel_traits [simp]:
  "apply_operation_trait t1 op1 \<noteq> Inl OutOfFuel" "apply_message_trait raw t2 m \<noteq> Inl OutOfFuel"
  "apply_channel_trait t3 ch \<noteq> Inl OutOfFuel"
  by (auto simp: apply_operation_trait_def apply_message_trait_def apply_channel_trait_def res_Inl)

lemma no_fuel_redis [simp]:
  "parseRedisChannelBinding D bs exts \<noteq> Inl OutOfFuel" "parseRedisOperationBinding D bs exts \<noteq> Inl OutOfFuel"
  by (auto simp: parseRedisChannelBinding_def parseRedisOperationBinding_def res_Inl split: option.splits)

subsection \<open>Traits, messages and channels\<close>

lemma ends_message_traits [ends_intros]: "ends (mergeMessageTraits E raw ts m)"
  unfolding resolveMessageTrait_def [symmetric]
  by (induction E raw ts m rule: mergeMessageTraits.induct)
    (auto simp: resolveMessageTrait_def intro!: ends_intros)

lemma ends_operation_traits [ends_intros]: "ends (mergeOperationTraits E ts op1)"
  by (induction E ts op1 rule: mergeOperationTraits.induct)
    (auto simp: resolveOperationTrait_def intro!: ends_intros)

lemma ends_trait_servers [ends_intros]: "ends (trait_servers E refs ch)"
  by (induction E refs ch rule: trait_servers.induct) (auto intro!: ends_intros)

lemma ends_trait_parameters [ends_intros]: "ends (trait_parameters E ps ch)"
  by (induction E ps ch rule: trait_parameters.induct) (auto intro!: ends_intros)

lemma ends_channel_traits [ends_intros]: "ends (mergeChannelTraits E ts ch)"
  by (induction E ts ch rule: mergeChannelTraits.induct)
    (auto simp: resolveChannelTrait_def intro!: ends_intros)

lemma ends_parse_schema [ends_intros]: "ends (parse_schema E raw)"
  unfolding parse_schema_def by (intro ends_intros; (simp split: prod.split)?) (auto intro!: ends_intros)

lemma ends_parseMessage [ends_intros]: "ends (parseMessage E name raw)"
  unfolding parseMessage_def new_message_def Let_def by (intro ends_intros; simp)

lemma ends_channel_servers [ends_intros]: "ends (channel_servers E refs)"
proof (induction E refs rule: channel_servers.induct)
  case (3 E ref refs)
  have "ends (parseServerRef E ref)"
    by (auto simp: ends_def parseServerRef_def split: option.splits)
  then show ?case using 3 by (auto intro!: ends_intros)
qed (auto intro!: ends_intros)

subsection \<open>Chains of message references\<close>

text \<open>Every key added to the context leaves it less room.\<close>

definition uses_room :: "'x environ \<Rightarrow> ('x \<Rightarrow> nat) \<Rightarrow> bool" where
  "uses_room E room \<longleftrightarrow> (\<forall>key x x'. e_add E key x = Some x' \<longrightarrow> room x' < room x)"

lemma pbind_Inl: "pbind m f s = Inl e \<longleftrightarrow> m s = Inl e \<or> (\<exists>a s'. m s = Inr (a, s') \<and> f a s' = Inl e)"
  by (auto simp: pbind_def split: sum.splits)

lemma endsD: "ends m \<Longrightarrow> m s \<noteq> Inl OutOfFuel"
  by (simp add: ends_def)

lemma ends_lift_opt: "ends (plift_opt (Unresolved ref) r)" "ends (plift_opt (Undecodable ref) r')"
  by (auto intro!: ends_intros)

lemma parseMessagePointer_ends:
  assumes "uses_room E room"
  shows "room (ps_ctx s) < n \<Longrightarrow> parseMessagePointer n E ref s \<noteq> Inl OutOfFuel"
proof (induction n arbitrary: ref s)
  case (Suc n)
  note 1 = ends_refs [THEN endsD] ends_parseMessage [THEN endsD] ends_lift_opt [THEN endsD]
  have 2: "parseMessagePointer n E ref' s' \<noteq> Inl OutOfFuel"
    if "add_key E ref key s0 = Inr ((), s')" "s0 = s" for ref' s' s0 key
  proof -
    have "room (ps_ctx s') < room (ps_ctx s)"
      using that assms by (cases key) (auto simp: add_key_def pbind_Inr uses_room_def)
    then show ?thesis using Suc by simp
  qed
  show ?case
  proof
    assume "parseMessagePointer (Suc n) E ref s = Inl OutOfFuel"
    then show False
      using 2
      by (auto simp: 1 pbind_Inl within_ref_def ref_key_def pbind_Inr preturn_def pget_def pmodify_def
          split: option.splits if_splits)
  qed
qed simp

lemma parseMessageRef_ends:
  assumes "\<And>ref. ends (parseMessagePointer n E ref)"
  shows "ends (parseMessageRef n E ref)"
  unfolding parseMessageRef_def by (intro ends_intros assms)

lemma parse_messages_ends:
  assumes "\<And>ref. ends (parseMessagePointer n E ref)"
  shows "ends (parse_messages n E raws names)"
proof (induction names)
  case (Cons name names)
  show ?case
    by (auto intro!: ends_intros parseMessageRef_ends [OF assms] Cons simp: name_message_def split: option.split)
qed (simp add: ends_intros)

lemma parseMessagesList_ends:
  assumes "\<And>ref. ends (parseMessagePointer n E ref)"
  shows "ends (parseMessagesList n E refs)"
proof (induction refs)
  case (Cons r refs)
  then show ?case by (cases r) (auto intro!: ends_intros parseMessageRef_ends [OF assms])
qed (simp add: ends_intros)

lemma parseChannelRef_ends:
  assumes "\<And>ref. ends (parseMessagePointer n E ref)"
  shows "ends (parseChannelRef n E ref name)"
proof -
  have "ends (parseChannel n E nm raw)" for nm raw
    unfolding parseChannel_def Let_def parseMessagesMap_def
    by (intro ends_intros parse_messages_ends [OF assms]; simp)
  then show ?thesis
    unfolding parseChannelRef_def parseChannelPointer_def by (intro ends_intros; simp)
qed

lemma linked_messages_ends:
  assumes "\<And>ref. ends (parseMessagePointer n E ref)" and "e \<noteq> OutOfFuel"
  shows "ends (linked_messages n E e refs ch)"
  unfolding linked_messages_def using assms(2) by (intro ends_intros parseMessagesList_ends [OF assms(1)])

lemma parseOperation_ends:
  assumes "\<And>ref. ends (parseMessagePointer n E ref)"
  shows "ends (parseOperation n E name raw)"
proof -
  have reply: "ends (parseReply n E r)" for r
    unfolding parseReply_def by (intro ends_intros parseChannelRef_ends [OF assms] linked_messages_ends [OF assms]; simp)
  have "ends (parse_operation_body n E name raw')" for raw'
    unfolding parse_operation_body_def Let_def
    by (intro ends_intros parseChannelRef_ends [OF assms] linked_messages_ends [OF assms] reply; simp)
  then show ?thesis
    unfolding parseOperation_def resolveOperationRef_def by (intro ends_intros)
qed

lemma parse_operations_ends:
  assumes "\<And>ref. ends (parseMessagePointer n E ref)"
  shows "ends (parse_operations n E raws names)"
proof (induction names)
  case (Cons name names)
  show ?case
    by (auto intro!: ends_intros parseOperation_ends [OF assms] Cons split: option.split)
qed (simp add: ends_intros)

lemma ends_parseServers: "ends (parseServers E raws out)"
  by (induction E raws out rule: parseServers.induct)
    (auto simp: resolveServerRef_def intro!: ends_intros)

lemma parse_document_ends:
  assumes "\<And>ref. ends (parseMessagePointer n E ref)"
  shows "ends (parse_document n E sp)"
  unfolding parse_document_def parseOperations_def
  by (intro ends_intros parse_operations_ends [OF assms] ends_parseServers; simp)

section \<open>Property\<close>

text \<open>
  C21: following message references always ends within the fuel: if every key added to the context
  uses up some of a room that never exceeds the depth limit, parsing does not run out of fuel.
\<close>

theorem parse_ends_within_fuel:
  assumes "uses_room E room" and "\<And>x. room x \<le> depth_limit d"
  shows "Parse E new_ctx d sp \<noteq> Inl OutOfFuel"
proof -
  let ?E = "E\<lparr>e_default_content_type := defaultContentType sp\<rparr>"
  have "uses_room ?E room" using assms(1) by (simp add: uses_room_def)
  then have "ends (parseMessagePointer (depth_limit d + 1) ?E ref)" for ref
    using assms(2) parseMessagePointer_ends unfolding ends_def by (metis less_Suc_eq_le Suc_eq_plus1)
  from parse_document_ends [OF this] show ?thesis
    by (simp add: Parse_def ends_def)
qed

text \<open>A document whose message refers to itself: parsing fails, and ends.\<close>

definition loop_environ :: "nat environ" where
  "loop_environ = demo_environ\<lparr>
     e_add := (\<lambda>key x. if x = 0 then None else Some (min x 5 - 1)),
     e_delete := (\<lambda>key x. x),
     e_message := (\<lambda>n. Some \<lparr>rmr_ref = ''#/m'', rmr_inline = demo_message\<rparr>)\<rparr>"

definition loop_spec :: spec where
  "loop_spec = demo_spec\<lparr>sp_operations := [(''o'', Some (demo_operation\<lparr>
     ro_messages := [Some \<lparr>rmr_ref = ''#/m'', rmr_inline = demo_message\<rparr>]\<rparr>))]\<rparr>"

lemma parse_ends_within_fuel_witness:
  "isl (Parse loop_environ (\<lambda>d. d) 5 loop_spec) \<and> Parse loop_environ (\<lambda>d. d) 5 loop_spec \<noteq> Inl OutOfFuel"
proof
  show "isl (Parse loop_environ (\<lambda>d. d) 5 loop_spec)" by code_simp
  have "uses_room loop_environ (\<lambda>x. min x 5)"
    by (auto simp: uses_room_def loop_environ_def split: if_splits)
  then show "Parse loop_environ (\<lambda>d. d) 5 loop_spec \<noteq> Inl OutOfFuel"
    by (rule parse_ends_within_fuel) (simp add: depth_limit_def)
qed

end
