(* ===== verification/Expand.thy ===== *)
theory Expand
  imports Dom
begin

text \<open>
  Rewriting of the document tree, asyncapi/expand.go and asyncapi/extensions.go: inlining of internal
  references and the renaming of \<open>x-agen-\<close> keys.

  Expansion changes the tree in place while references are looked up in that same tree, so every
  call knows the document around the node at hand as a function \<open>plug\<close> of what the node is replaced
  with; inside a copy the document does not change and \<open>plug\<close> is constant. The pointer lookup
  \<open>jsonpointer.Resolve\<close> is a parameter. References nest as deep as the fuel of \<open>resolveRef\<close>; the
  number of nodes of the document is enough.
\<close>

section \<open>Copies and references\<close>

fun deepCopy :: "ynode \<Rightarrow> ynode" where
  "deepCopy (YNode k t v a al m c) = YNode k t v [] None m (map deepCopy c)"

text \<open>The loop of \<open>internalRef\<close> with its variables \<open>ref\<close> (with \<open>hasRef\<close>) and \<open>extraOK\<close>.\<close>

fun internal_ref_loop :: "ynode list \<Rightarrow> string option \<Rightarrow> bool \<Rightarrow> string option" where
  "internal_ref_loop (k # v # rest) ref ok =
     (if y_kind k \<noteq> ScalarNode then None
      else if y_value k = ''$ref'' then
        internal_ref_loop rest
          (if y_kind v = ScalarNode \<and> has_prefix (y_value v) ''#'' then Some (y_value v) else ref) ok
      else if y_value k = ''summary'' \<or> y_value k = ''description'' then internal_ref_loop rest ref ok
      else internal_ref_loop rest ref False)"
| "internal_ref_loop _ ref ok = (if ok then ref else None)"

definition internalRef :: "ynode \<Rightarrow> string option" where
  "internalRef n = internal_ref_loop (y_content n) None True"

section \<open>Expansion\<close>

datatype xerr = DocumentEmpty | PointerNotFound string | XOutOfFuel

type_synonym resolver = "ynode \<Rightarrow> string \<Rightarrow> xerr + ynode option"

definition with_content :: "ynode \<Rightarrow> ynode list \<Rightarrow> ynode" where
  "with_content n c = YNode (y_kind n) (y_tag n) (y_value n) (y_anchor n) (y_alias n) (y_meta n) c"

lemma with_content_sel [simp]:
  "with_content (with_content n d) c = with_content n c"
  "y_kind (with_content n c) = y_kind n" "y_content (with_content n c) = c" "y_value (with_content n c) = y_value n"
  "with_content n (y_content n) = n"
  by (simp_all add: with_content_def)

lemma size_content: "size_list size (y_content n) < size n"
  by (cases n) simp

text \<open>
  \<open>expandMapping\<close> on a node, on the key/value pairs of a mapping from the first one not yet done,
  and on the items of a sequence.
\<close>

function (sequential) expandMapping :: "resolver \<Rightarrow> (ynode \<Rightarrow> ynode) \<Rightarrow> ynode \<Rightarrow> xerr + ynode"
  and expand_slots :: "resolver \<Rightarrow> (ynode list \<Rightarrow> ynode) \<Rightarrow> ynode list \<Rightarrow> ynode list \<Rightarrow> xerr + ynode list"
  and expand_items :: "resolver \<Rightarrow> (ynode list \<Rightarrow> ynode) \<Rightarrow> ynode list \<Rightarrow> ynode list \<Rightarrow> xerr + ynode list" where
  "expandMapping res plug n =
     (if y_kind n \<noteq> MappingNode then Inr n
      else bind_res (expand_slots res (\<lambda>c. plug (with_content n c)) [] (y_content n))
             (\<lambda>c. Inr (with_content n c)))"
| "expand_slots res plug done (key # val # rest) =
     (if y_kind val = MappingNode then
        (case internalRef val of
           Some ref \<Rightarrow>
             bind_res (res (plug (done @ key # val # rest)) ref) (\<lambda>target.
               expand_slots res plug (done @ [key, case target of Some t \<Rightarrow> t | None \<Rightarrow> val]) rest)
         | None \<Rightarrow>
             bind_res (expandMapping res (\<lambda>v. plug (done @ key # v # rest)) val) (\<lambda>v.
               expand_slots res plug (done @ [key, v]) rest))
      else if y_kind val = SequenceNode then
        bind_res (expand_items res (\<lambda>c. plug (done @ key # with_content val c # rest)) [] (y_content val)) (\<lambda>c.
          expand_slots res plug (done @ [key, with_content val c]) rest)
      else expand_slots res plug (done @ [key, val]) rest)"
| "expand_slots res plug done rest = Inr (done @ rest)"
| "expand_items res plug done [] = Inr done"
| "expand_items res plug done (item # items) =
     bind_res (expandMapping res (\<lambda>x. plug (done @ x # items)) item) (\<lambda>x.
       expand_items res plug (done @ [x]) items)"
  by pat_completeness auto

termination
  apply (relation "measure (\<lambda>x. case x of
      Inl (res, plug, n) \<Rightarrow> 2 * size n + 1
    | Inr (Inl (res, plug, d, c)) \<Rightarrow> 2 * size_list size c
    | Inr (Inr (res, plug, d, c)) \<Rightarrow> 2 * size_list size c)")
          apply (auto simp: size_content less_Suc_eq_le intro: less_imp_le order.strict_trans2)
  subgoal for key v rest using size_content [of v] by linarith
  done

text \<open>
  \<open>resolveRef\<close>: an external reference or one that is being expanded is kept (\<open>None\<close>); another one is
  looked up in the document, copied and the copy expanded.
\<close>

fun resolveRef :: "(string \<Rightarrow> ynode \<Rightarrow> ynode option) \<Rightarrow> nat \<Rightarrow> string list \<Rightarrow> resolver" where
  "resolveRef J n seen root ref =
     (if \<not> has_prefix ref ''#'' then Inr None
      else if ref \<in> set seen then Inr None
      else case J ref root of
        None \<Rightarrow> Inl (PointerNotFound ref)
      | Some target \<Rightarrow>
          (case n of
             0 \<Rightarrow> Inl XOutOfFuel
           | Suc m \<Rightarrow>
               bind_res (expandMapping (resolveRef J m (ref # seen)) (\<lambda>_. root) (deepCopy target))
                 (\<lambda>clone. Inr (Some clone))))"

declare resolveRef.simps [simp del]

definition documentNode :: "ynode \<Rightarrow> ynode" where
  "documentNode root =
     (if y_kind root = DocumentNode \<and> length (y_content root) = 1 then y_content root ! 0 else root)"

fun node_count :: "ynode \<Rightarrow> nat" where
  "node_count (YNode k t v a al m c) = Suc (sum_list (map node_count c))"

text \<open>\<open>Expand\<close> returns the root node after the changes made in place; \<open>None\<close> is a nil root.\<close>

definition expand_root :: "(string \<Rightarrow> ynode \<Rightarrow> ynode option) \<Rightarrow> ynode \<Rightarrow> xerr + ynode" where
  "expand_root J root =
     (let doc = documentNode root in
      bind_res (expandMapping (resolveRef J (node_count doc) []) (\<lambda>d. d) doc) (\<lambda>d.
        Inr (if y_kind root = DocumentNode \<and> length (y_content root) = 1 then with_content root [d] else d)))"

definition Expand :: "(string \<Rightarrow> ynode \<Rightarrow> ynode option) \<Rightarrow> ynode option \<Rightarrow> xerr + ynode" where
  "Expand J root = (case root of None \<Rightarrow> Inl DocumentEmpty | Some r \<Rightarrow> expand_root J r)"

section \<open>Renaming of extension keys\<close>

definition agenExtensionPrefix :: string where "agenExtensionPrefix = ''x-agen-''"

definition rename_key :: "ynode \<Rightarrow> ynode" where
  "rename_key key =
     (if y_kind key = ScalarNode \<and> has_prefix (y_value key) agenExtensionPrefix
      then YNode (y_kind key) (y_tag key) (''x-ogen-'' @ trim_prefix (y_value key) agenExtensionPrefix)
             (y_anchor key) (y_alias key) (y_meta key) (y_content key)
      else key)"

lemma size_elem: "x \<in> set (y_content n) \<Longrightarrow> size x < size n"
  by (cases n) (auto dest!: size_list_estimation' [OF _ order.refl, of _ _ size] simp: less_Suc_eq_le trans_le_add2)

function (sequential) AliasXExtensions :: "ynode \<Rightarrow> ynode"
  and rename_pairs :: "ynode list \<Rightarrow> ynode list" where
  "AliasXExtensions n = (case y_kind n of
       DocumentNode \<Rightarrow>
         (if length (y_content n) = 1 then with_content n (map AliasXExtensions (y_content n)) else n)
     | MappingNode \<Rightarrow> with_content n (rename_pairs (y_content n))
     | SequenceNode \<Rightarrow> with_content n (map AliasXExtensions (y_content n))
     | _ \<Rightarrow> n)"
| "rename_pairs (key # val # rest) = rename_key key # AliasXExtensions val # rename_pairs rest"
| "rename_pairs rest = rest"
  by pat_completeness auto

termination
  by (relation "measure (\<lambda>x. case x of Inl n \<Rightarrow> 2 * size n | Inr c \<Rightarrow> 2 * size_list size c + 1)")
    (auto simp: size_elem, use size_content Suc_double_not_eq_double in \<open>force simp: Suc_lessI\<close>)

declare expandMapping.simps [simp del] AliasXExtensions.simps [simp del]

section \<open>Expansion ends and invents no text\<close>

fun subnodes :: "ynode \<Rightarrow> ynode set" where
  "subnodes (YNode k t v a al m c) = insert (YNode k t v a al m c) (\<Union>x \<in> set c. subnodes x)"

text \<open>The texts of all nodes below a node.\<close>

definition vals :: "ynode \<Rightarrow> string set" where
  "vals n = y_value ` subnodes n"

definition valss :: "ynode list \<Rightarrow> string set" where
  "valss c = (\<Union>n \<in> set c. vals n)"

lemma valss_simps [simp]:
  "valss [] = {}" "valss (x # xs) = vals x \<union> valss xs" "valss (xs @ ys) = valss xs \<union> valss ys"
  by (auto simp: valss_def)

lemma vals_node: "vals (YNode k t v a al m c) = insert v (valss c)"
  by (auto simp: vals_def valss_def)

lemma vals_with_content [simp]: "vals (with_content n c) = insert (y_value n) (valss c)"
  by (simp add: with_content_def vals_node)

lemma vals_unfold: "vals n = insert (y_value n) (valss (y_content n))"
  by (cases n) (simp add: vals_node)

lemma subnodes_trans: "t \<in> subnodes r \<Longrightarrow> subnodes t \<subseteq> subnodes r"
  by (induction r rule: subnodes.induct) auto

lemma vals_subnode: "t \<in> subnodes r \<Longrightarrow> vals t \<subseteq> vals r"
  unfolding vals_def using subnodes_trans by blast

lemma vals_deepCopy [simp]: "vals (deepCopy n) = vals n"
  by (induction n rule: deepCopy.induct) (simp add: vals_node valss_def)

lemma finite_vals [simp]: "finite (vals n)"
proof -
  have "finite (subnodes n)" by (induction n rule: subnodes.induct) auto
  then show ?thesis by (simp add: vals_def)
qed

lemma card_vals: "card (vals n) \<le> node_count n"
proof (induction n rule: subnodes.induct)
  case (1 k t v a al m c)
  have "card (valss c') \<le> sum_list (map node_count c')" if "set c' \<subseteq> set c" for c'
    using that
  proof (induction c')
    case (Cons x xs)
    then have "card (vals x) \<le> node_count x" "card (valss xs) \<le> sum_list (map node_count xs)" using 1 by auto
    then show ?case using card_Un_le [of "vals x" "valss xs"] by simp
  qed simp
  then have "card (valss c) \<le> sum_list (map node_count c)" by simp
  moreover have "finite (valss c)" using finite_vals by (simp add: valss_def)
  ultimately show ?case by (simp add: vals_node card_insert_if)
qed

lemma internal_ref_loop_vals: "internal_ref_loop c ref ok = Some r \<Longrightarrow> r \<in> valss c \<or> ref = Some r"
proof (induction c ref ok rule: internal_ref_loop.induct)
  case (1 k v rest ref ok)
  have "y_value v \<in> vals v" using vals_unfold by simp
  then show ?case using 1 by (auto split: if_splits)
qed (auto split: if_splits)

lemma internalRef_vals: "internalRef n = Some r \<Longrightarrow> r \<in> vals n"
  using internal_ref_loop_vals by (fastforce simp: internalRef_def vals_unfold [of n])

definition tidy :: "string set \<Rightarrow> ('a \<Rightarrow> string set) \<Rightarrow> xerr + 'a \<Rightarrow> bool" where
  "tidy F V r \<longleftrightarrow> r \<noteq> Inl XOutOfFuel \<and> (\<forall>a. r = Inr a \<longrightarrow> V a \<subseteq> F)"

lemma tidy_simps [simp]: "tidy F V (Inr a) \<longleftrightarrow> V a \<subseteq> F" "tidy F V (Inl e) \<longleftrightarrow> e \<noteq> XOutOfFuel"
  by (auto simp: tidy_def)

lemma tidy_bind: "tidy F V r \<Longrightarrow> (\<And>a. r = Inr a \<Longrightarrow> V a \<subseteq> F \<Longrightarrow> tidy F W (f a)) \<Longrightarrow> tidy F W (bind_res r f)"
  by (cases r) (auto simp: tidy_def)

abbreviation opt_vals :: "ynode option \<Rightarrow> string set" where
  "opt_vals t \<equiv> (case t of None \<Rightarrow> {} | Some n \<Rightarrow> vals n)"

definition tidy_resolver :: "string set \<Rightarrow> resolver \<Rightarrow> bool" where
  "tidy_resolver F res \<longleftrightarrow> (\<forall>root ref. vals root \<subseteq> F \<longrightarrow> ref \<in> F \<longrightarrow> tidy F opt_vals (res root ref))"

lemma expand_tidy:
  "tidy_resolver F res \<Longrightarrow> (\<And>x. vals x \<subseteq> F \<Longrightarrow> vals (plug x) \<subseteq> F) \<Longrightarrow> vals n \<subseteq> F \<Longrightarrow>
   tidy F vals (expandMapping res plug n)"
  "tidy_resolver F res \<Longrightarrow> (\<And>c. valss c \<subseteq> F \<Longrightarrow> vals (cplug c) \<subseteq> F) \<Longrightarrow> valss d \<union> valss rest \<subseteq> F \<Longrightarrow>
   tidy F valss (expand_slots res cplug d rest)"
  "tidy_resolver F res \<Longrightarrow> (\<And>c. valss c \<subseteq> F \<Longrightarrow> vals (cplug c) \<subseteq> F) \<Longrightarrow> valss d \<union> valss items \<subseteq> F \<Longrightarrow>
   tidy F valss (expand_items res cplug d items)"
proof (induction res plug n and res cplug d rest and res cplug d items
    rule: expandMapping_expand_slots_expand_items.induct)
  case (1 res plug n)
  have n: "y_value n \<in> F" "valss (y_content n) \<subseteq> F" using "1.prems"(3) vals_unfold [of n] by auto
  show ?case
  proof (cases "y_kind n = MappingNode")
    case True
    have "tidy F valss (expand_slots res (\<lambda>c. plug (with_content n c)) [] (y_content n))"
      using n by (intro "1.IH" [OF _ "1.prems"(1)]) (simp_all add: True "1.prems"(2))
    then show ?thesis using True n by (subst expandMapping.simps) (auto intro!: tidy_bind [where V = valss])
  next
    case False
    then show ?thesis using "1.prems"(3) by (subst expandMapping.simps) simp
  qed
next
  case (2 res cplug d key val rest)
  have v: "valss d \<subseteq> F" "vals key \<subseteq> F" "vals val \<subseteq> F" "valss rest \<subseteq> F" "y_value val \<in> F"
    using "2.prems"(3) vals_unfold [of val] by auto
  consider (ref) ref where "y_kind val = MappingNode" "internalRef val = Some ref"
    | (map) "y_kind val = MappingNode" "internalRef val = None"
    | (seq) "y_kind val = SequenceNode"
    | (other) "y_kind val \<noteq> MappingNode" "y_kind val \<noteq> SequenceNode"
    by (cases "internalRef val") auto
  then show ?case
  proof cases
    case ref
    have "vals (cplug (d @ key # val # rest)) \<subseteq> F" by (rule "2.prems"(2)) (simp add: v)
    moreover have "ref \<in> F" using v(3) internalRef_vals [OF ref(2)] by auto
    ultimately have r: "tidy F opt_vals (res (cplug (d @ key # val # rest)) ref)"
      using "2.prems"(1) unfolding tidy_resolver_def by blast
    have "tidy F valss (expand_slots res cplug (d @ [key, case t of Some t \<Rightarrow> t | None \<Rightarrow> val]) rest)"
      if "opt_vals t \<subseteq> F" "res (cplug (d @ key # val # rest)) ref = Inr t" for t
      using "2.IH"(3) [OF ref(1) ref(2) that(2) "2.prems"(1) "2.prems"(2)] v that(1) by (cases t) simp_all
    with r show ?thesis using ref by (auto intro!: tidy_bind [where V = opt_vals])
  next
    case map
    have "tidy F vals (expandMapping res (\<lambda>v. cplug (d @ key # v # rest)) val)"
      using "2.IH"(1) [OF map "2.prems"(1)] "2.prems"(2) v by simp
    then show ?thesis using map "2.IH"(2) [OF map _ "2.prems"(1) "2.prems"(2)] v by (auto intro!: tidy_bind [where V = vals])
  next
    case seq
    have "valss (y_content val) \<subseteq> F" using v vals_unfold [of val] by auto
    then have "tidy F valss (expand_items res (\<lambda>c. cplug (d @ key # with_content val c # rest)) [] (y_content val))"
      using "2.IH"(4) [OF _ seq "2.prems"(1)] "2.prems"(2) v seq by simp
    then show ?thesis using seq "2.IH"(5) [OF _ seq _ "2.prems"(1) "2.prems"(2)] v by (auto intro!: tidy_bind [where V = valss])
  next
    case other
    then show ?thesis using "2.IH"(6) [OF other "2.prems"(1) "2.prems"(2)] v by simp
  qed
next
  case (5 res cplug d item items)
  have v: "valss d \<subseteq> F" "vals item \<subseteq> F" "valss items \<subseteq> F" using "5.prems"(3) by auto
  have "tidy F vals (expandMapping res (\<lambda>x. cplug (d @ x # items)) item)"
    using "5.IH"(1) [OF "5.prems"(1)] "5.prems"(2) v by simp
  then show ?case using "5.IH"(2) [OF _ "5.prems"(1) "5.prems"(2)] v by (auto intro!: tidy_bind [where V = vals])
qed auto

text \<open>What the pointer lookup is relied on for: what it returns is a node of the document.\<close>

definition returns_nodes :: "(string \<Rightarrow> ynode \<Rightarrow> ynode option) \<Rightarrow> bool" where
  "returns_nodes J \<longleftrightarrow> (\<forall>ref root t. J ref root = Some t \<longrightarrow> t \<in> subnodes root)"

lemma resolveRef_tidy:
  assumes "returns_nodes J" and "finite F"
  shows "card (F - set seen) \<le> n \<Longrightarrow> tidy_resolver F (resolveRef J n seen)"
proof (induction n arbitrary: seen)
  case 0
  then have "F \<subseteq> set seen" using assms(2) by simp
  then show ?case by (auto simp: tidy_resolver_def resolveRef.simps [of J 0])
next
  case (Suc n)
  show ?case unfolding tidy_resolver_def
  proof (intro allI impI)
    fix root ref assume root: "vals root \<subseteq> F" and ref: "ref \<in> F"
    have "tidy F opt_vals (bind_res (expandMapping (resolveRef J n (ref # seen)) (\<lambda>_. root) (deepCopy t))
        (\<lambda>clone. Inr (Some clone)))" if t: "J ref root = Some t" and new: "ref \<notin> set seen" for t
    proof -
      have "F - set (ref # seen) = F - set seen - {ref}" by auto
      then have "card (F - set (ref # seen)) \<le> n" using Suc.prems ref new assms(2) by simp
      note tr = Suc.IH [OF this]
      have "vals t \<subseteq> F" using t assms(1) vals_subnode root unfolding returns_nodes_def by blast
      then have "tidy F vals (expandMapping (resolveRef J n (ref # seen)) (\<lambda>_. root) (deepCopy t))"
        by (intro expand_tidy(1) tr) (simp_all add: root)
      then show ?thesis by (auto intro!: tidy_bind [where V = vals])
    qed
    then show "tidy F opt_vals (resolveRef J (Suc n) seen root ref)"
      by (auto simp: resolveRef.simps [of J "Suc n"] split: option.splits)
  qed
qed

lemma expand_root_tidy:
  assumes "returns_nodes J"
  shows "tidy (vals root) vals (expand_root J root)"
proof -
  let ?doc = "documentNode root"
  have doc: "vals ?doc \<subseteq> vals root"
    by (cases root) (auto simp: documentNode_def vals_node valss_def)
  have "card (vals ?doc - set []) \<le> node_count ?doc" by (simp add: card_vals)
  from resolveRef_tidy [OF assms finite_vals this]
  have "tidy (vals ?doc) vals (expandMapping (resolveRef J (node_count ?doc) []) (\<lambda>d. d) ?doc)"
    by (intro expand_tidy(1)) simp_all
  then have "tidy (vals root) vals (expandMapping (resolveRef J (node_count ?doc) []) (\<lambda>d. d) ?doc)"
    using doc by (auto simp: tidy_def)
  then show ?thesis
    using vals_unfold [of root] by (auto simp: expand_root_def Let_def intro!: tidy_bind [where V = vals])
qed

section \<open>Properties\<close>

text \<open>
  C15: expansion always ends, whatever cycles the references form, and invents no text: when the
  pointer lookup returns nodes of the document, the fuel is enough and every scalar of the result is
  a scalar of the document.
\<close>

theorem expand_ends:
  assumes "returns_nodes J"
  shows "Expand J root \<noteq> Inl XOutOfFuel
    \<and> (\<forall>r n. root = Some r \<and> Expand J root = Inr n \<longrightarrow> vals n \<subseteq> vals r)"
  using expand_root_tidy [OF assms] by (auto simp: Expand_def tidy_def split: option.splits)

text \<open>
  A document with a recursive definition, and the lookup of a pointer \<open>#/key\<close> in its root: the
  reference from outside is inlined once, the one inside its own expansion stays.
\<close>

definition ref_to :: "string \<Rightarrow> ynode" where
  "ref_to r = mapping_node [scalar ''$ref'', scalar r]"

fun find_slot :: "string \<Rightarrow> ynode list \<Rightarrow> ynode option" where
  "find_slot key (k # v # rest) = (if y_value k = key then Some v else find_slot key rest)"
| "find_slot key _ = None"

definition demo_lookup :: "string \<Rightarrow> ynode \<Rightarrow> ynode option" where
  "demo_lookup ref root = find_slot (drop 2 ref) (y_content root)"

definition demo_tree :: ynode where
  "demo_tree = mapping_node [scalar ''node'', mapping_node [scalar ''next'', ref_to ''#/node''],
     scalar ''payload'', ref_to ''#/node'']"

lemma self_subnode: "n \<in> subnodes n"
  by (cases n) simp

lemma content_subnodes: "x \<in> set (y_content n) \<Longrightarrow> x \<in> subnodes n"
  using self_subnode by (cases n) auto

lemma demo_lookup_returns_nodes: "returns_nodes demo_lookup"
proof -
  have "find_slot key c = Some t \<Longrightarrow> t \<in> set c" for key c t
    by (induction key c rule: find_slot.induct) (auto split: if_splits)
  then show ?thesis
    unfolding returns_nodes_def demo_lookup_def using content_subnodes by blast
qed

lemma expand_ends_witness:
  "\<exists>n. Expand demo_lookup (Some demo_tree) = Inr n \<and> vals n \<subseteq> vals demo_tree"
proof -
  have "\<not> isl (Expand demo_lookup (Some demo_tree))" by code_simp
  then obtain n where "Expand demo_lookup (Some demo_tree) = Inr n" by (cases "Expand demo_lookup (Some demo_tree)") auto
  then show ?thesis using expand_ends [OF demo_lookup_returns_nodes, of "Some demo_tree"] by auto
qed

text \<open>
  A reference that is an item of a sequence is never inlined: a mapping whose keys and values are
  all scalars, such as \<open>{$ref: '#/x'}\<close>, is left as it is.
\<close>

lemma sequence_reference_kept:
  "expand_slots res plug done [key, YNode SequenceNode t v a al m [ref_to r]]
    = Inr (done @ [key, YNode SequenceNode t v a al m [ref_to r]])"
  by (simp add: ref_to_def expandMapping.simps with_content_def)

text \<open>A tree in which no mapping is an internal reference.\<close>

definition ref_free :: "ynode \<Rightarrow> bool" where
  "ref_free n \<longleftrightarrow> (\<forall>m \<in> subnodes n. y_kind m = MappingNode \<longrightarrow> internalRef m = None)"

lemma ref_free_content: "ref_free n \<Longrightarrow> x \<in> set (y_content n) \<Longrightarrow> ref_free x"
  by (cases n) (auto simp: ref_free_def)

lemma expand_ref_free:
  "ref_free n \<Longrightarrow> expandMapping res plug n = Inr n"
  "\<forall>x \<in> set rest. ref_free x \<Longrightarrow> expand_slots res cplug d rest = Inr (d @ rest)"
  "\<forall>x \<in> set items. ref_free x \<Longrightarrow> expand_items res cplug d items = Inr (d @ items)"
proof (induction res plug n and res cplug d rest and res cplug d items
    rule: expandMapping_expand_slots_expand_items.induct)
  case (1 res plug n)
  then show ?case by (subst expandMapping.simps) (simp add: ref_free_content)
next
  case (2 res cplug d key val rest)
  have "internalRef val = None" if "y_kind val = MappingNode"
    using 2 that self_subnode by (auto simp: ref_free_def)
  then show ?case using 2 ref_free_content [of val] by auto
qed auto

lemma ref_free_deepCopy: "ref_free n \<Longrightarrow> ref_free (deepCopy n)"
proof (induction n rule: deepCopy.induct)
  case (1 k t v a al m c)
  have loop: "internal_ref_loop (map deepCopy c') o' ok = internal_ref_loop c' o' ok" for c' o' ok
  proof (induction c' o' ok rule: internal_ref_loop.induct)
    case (1 k v rest o' ok)
    have "y_kind (deepCopy n) = y_kind n" "y_value (deepCopy n) = y_value n" for n by (cases n; simp)+
    then show ?case using 1 by (cases "y_value k = ''$ref''") auto
  qed auto
  show ?case
    using 1 by (auto simp: ref_free_def internalRef_def loop)
qed

text \<open>
  A reference to a part without references is replaced by a copy of that part as the document
  holds it at that moment, and the reference-free slots after it are left as they are.
\<close>

lemma flat_reference_inlined:
  assumes "internalRef val = Some ref" and "y_kind val = MappingNode" and "ref \<notin> set seen"
    and "J ref (plug (done @ key # val # rest)) = Some target"
    and "ref_free target" and "\<forall>x \<in> set rest. ref_free x"
  shows "expand_slots (resolveRef J (Suc n) seen) plug done (key # val # rest) = Inr (done @ [key, deepCopy target] @ rest)"
proof -
  have "has_prefix r ''#''" if "internal_ref_loop c o' ok = Some r" "case o' of None \<Rightarrow> True | Some r \<Rightarrow> has_prefix r ''#''" for c o' ok r
    using that by (induction c o' ok rule: internal_ref_loop.induct) (auto split: if_splits option.splits)
  then have "has_prefix ref ''#''" using assms(1) by (auto simp: internalRef_def)
  then have "resolveRef J (Suc n) seen (plug (done @ key # val # rest)) ref = Inr (Some (deepCopy target))"
    using assms by (simp add: resolveRef.simps [of J "Suc n"] expand_ref_free(1) ref_free_deepCopy)
  then show ?thesis
    using assms by (simp add: expand_ref_free(2))
qed

lemma flat_reference_inlined_witness:
  "expand_slots (resolveRef demo_lookup 1 []) mapping_node [scalar ''a'', scalar ''x''] [scalar ''p'', ref_to ''#/a'']
    = Inr ([scalar ''a'', scalar ''x''] @ [scalar ''p'', deepCopy (scalar ''x'')] @ [])"
proof -
  have "expand_slots (resolveRef demo_lookup (Suc 0) []) mapping_node [scalar ''a'', scalar ''x''] (scalar ''p'' # ref_to ''#/a'' # [])
      = Inr ([scalar ''a'', scalar ''x''] @ [scalar ''p'', deepCopy (scalar ''x'')] @ [])"
    by (rule flat_reference_inlined [where ref = "''#/a''"])
      (simp_all add: ref_to_def internalRef_def has_prefix_def demo_lookup_def ref_free_def)
  then show ?thesis by simp
qed

lemma rename_key_idem: "rename_key (rename_key k) = rename_key k"
  by (cases k) (auto simp: rename_key_def has_prefix_def agenExtensionPrefix_def)

lemma alias_kinds:
  "y_kind n = DocumentNode \<Longrightarrow> length (y_content n) = 1 \<Longrightarrow>
     AliasXExtensions n = with_content n (map AliasXExtensions (y_content n))"
  "y_kind n = DocumentNode \<Longrightarrow> length (y_content n) \<noteq> 1 \<Longrightarrow> AliasXExtensions n = n"
  "y_kind n = MappingNode \<Longrightarrow> AliasXExtensions n = with_content n (rename_pairs (y_content n))"
  "y_kind n = SequenceNode \<Longrightarrow> AliasXExtensions n = with_content n (map AliasXExtensions (y_content n))"
  "y_kind n \<in> {ScalarNode, AliasNode, ZeroNode} \<Longrightarrow> AliasXExtensions n = n"
  by (subst AliasXExtensions.simps; auto)+

text \<open>
  Renaming extension keys is idempotent.
\<close>

lemma alias_x_extensions_idempotent:
  "AliasXExtensions (AliasXExtensions n) = AliasXExtensions n"
proof -
  have "AliasXExtensions (AliasXExtensions n) = AliasXExtensions n"
    "rename_pairs (rename_pairs c) = rename_pairs c" for n c
  proof (induction n and c rule: AliasXExtensions_rename_pairs.induct)
    case (1 n)
    have maps: "map AliasXExtensions (map AliasXExtensions (y_content n)) = map AliasXExtensions (y_content n)"
      if "y_kind n = SequenceNode \<or> y_kind n = DocumentNode \<and> length (y_content n) = 1"
      using 1 that by auto
    show ?case
    proof (cases "y_kind n")
      case DocumentNode
      then show ?thesis using maps by (cases "length (y_content n) = 1") (simp_all add: alias_kinds del: map_map)
    next
      case MappingNode
      then show ?thesis using 1 by (simp add: alias_kinds)
    next
      case SequenceNode
      then show ?thesis using maps by (simp add: alias_kinds del: map_map)
    qed (simp_all add: alias_kinds)
  next
    case (2 key val rest)
    then show ?case by (simp add: rename_key_idem)
  qed simp_all
  then show ?thesis by blast
qed

end
