(* ===== verification/Naming.thy ===== *)
theory Naming
  imports Strconv Utf8
begin

text \<open>
  Go names for things of a document, internal/naming and internal/lowering/names.go: initialism rules,
  the name generator, enum variant and discriminator names.

  A name under construction is a list of runes. Only letters and digits of ASCII, and the two runes
  whose lower case is an ASCII letter, ever enter a name, so the case tables of package unicode are
  written out for these; the initialism rules are ASCII texts.
\<close>

section \<open>Character classes\<close>

definition upper_ascii :: "rune \<Rightarrow> bool" where "upper_ascii r \<longleftrightarrow> 65 \<le> r \<and> r \<le> 90"
definition lower_ascii :: "rune \<Rightarrow> bool" where "lower_ascii r \<longleftrightarrow> 97 \<le> r \<and> r \<le> 122"
definition digit_rune :: "rune \<Rightarrow> bool" where "digit_rune r \<longleftrightarrow> 48 \<le> r \<and> r \<le> 57"

text \<open>\<open>unicode.ToLower\<close>: U+0130 and U+212A are the runes outside ASCII with lower case in ASCII.\<close>

definition lower_rune :: "rune \<Rightarrow> rune" where
  "lower_rune r = (if upper_ascii r then r + 32 else if r = 0x130 then 105 else if r = 0x212A then 107 else r)"

definition upper_rune :: "rune \<Rightarrow> rune" where
  "upper_rune r = (if lower_ascii r then r - 32 else r)"

definition upper_letter :: "rune \<Rightarrow> bool" where
  "upper_letter r \<longleftrightarrow> upper_ascii r \<or> r = 0x130 \<or> r = 0x212A"

definition letter_rune :: "rune \<Rightarrow> bool" where
  "letter_rune r \<longleftrightarrow> lower_ascii r \<or> upper_letter r"

definition lower_string :: "string \<Rightarrow> string" where
  "lower_string s = string_of_runes (map lower_rune (runes_of s))"

definition ascii_runes :: "string \<Rightarrow> rune list" where
  "ascii_runes s = map byte_of s"

section \<open>Initialism rules\<close>

type_synonym ruleset = "string \<rightharpoonup> string"

definition Rule :: "ruleset \<Rightarrow> string \<Rightarrow> string option" where
  "Rule m part = m (lower_string part)"

definition put_rule :: "string \<Rightarrow> string \<Rightarrow> ruleset \<Rightarrow> ruleset" where
  "put_rule key v m = m(lower_string key \<mapsto> v)"

definition add_rule :: "ruleset \<Rightarrow> string \<Rightarrow> ruleset" where
  "add_rule m initialism = (if initialism = [] then m else put_rule initialism initialism m)"

definition NewRuleset :: "string list \<Rightarrow> ruleset" where
  "NewRuleset initialisms = foldl add_rule Map.empty initialisms"

definition Merge :: "ruleset \<Rightarrow> ruleset \<Rightarrow> ruleset" where
  "Merge m other = m ++ other"

definition rules :: "string list" where
  "rules = [''ACL'', ''API'', ''ASCII'', ''AWS'', ''CPU'', ''CSS'', ''DNS'', ''EOF'', ''GB'', ''GUID'',
    ''HTML'', ''HTTP'', ''HTTPS'', ''ID'', ''IP'', ''JSON'', ''KB'', ''LHS'', ''MAC'', ''MB'',
    ''QPS'', ''RAM'', ''RHS'', ''RPC'', ''SLA'', ''SMTP'', ''SQL'', ''SSH'', ''SSO'', ''TLS'',
    ''TTL'', ''UI'', ''UID'', ''URI'', ''URL'', ''UTF8'', ''UUID'', ''VM'', ''XML'', ''XMPP'',
    ''XSRF'', ''XSS'', ''SMS'', ''CDN'', ''TCP'', ''UDP'', ''DC'', ''PFS'', ''P2P'',
    ''SHA256'', ''SHA1'', ''MD5'', ''SRP'', ''2FA'', ''OAuth'', ''OAuth2'',
    ''PNG'', ''JPG'', ''GIF'', ''MP4'', ''WEBP'']"

definition DefaultRuleset :: ruleset where
  "DefaultRuleset = NewRuleset rules"

interpretation rule_store: keyed_store lower_string put_rule Rule
  by unfold_locales (simp add: put_rule_def Rule_def)

section \<open>The name generator\<close>

record namer =
  nm_allow_special :: bool
  nm_initialisms :: bool
  nm_rules :: ruleset

fun namedChar :: "rune \<Rightarrow> rune list option" where
  "namedChar r =
     (if r = 43 then Some (ascii_runes ''Plus'')
      else if r = 45 then Some (ascii_runes ''Minus'')
      else if r = 47 then Some (ascii_runes ''Slash'')
      else if r = 60 then Some (ascii_runes ''Less'')
      else if r = 62 then Some (ascii_runes ''Greater'')
      else if r = 61 then Some (ascii_runes ''Eq'')
      else if r = 46 then Some (ascii_runes ''Dot'')
      else None)"

declare namedChar.simps [simp del]

definition isAllowed :: "rune \<Rightarrow> bool" where
  "isAllowed r = (let l = lower_rune r in lower_ascii l \<or> digit_rune l)"

definition checkPart :: "namer \<Rightarrow> rune list \<Rightarrow> rune list" where
  "checkPart g part = (case Rule (nm_rules g) (string_of_runes part) of Some rule \<Rightarrow> runes_of rule | None \<Rightarrow> part)"

text \<open>The loop of \<open>generate\<close>: the parts pushed so far, the part being read and the flag \<open>upper\<close>.\<close>

fun generate_loop :: "namer \<Rightarrow> rune list \<Rightarrow> rune list list \<Rightarrow> rune list \<Rightarrow> bool \<Rightarrow> rune list list" where
  "generate_loop g [] parts part upper = parts @ [checkPart g part]"
| "generate_loop g (r # src) parts part upper =
     (if isAllowed r then
        (if nm_initialisms g \<and> part \<noteq> [] \<and> upper_letter r \<and> \<not> upper_letter (last part)
         then generate_loop g src (parts @ [checkPart g part]) [upper_rune r] False
         else generate_loop g src parts (part @ [if upper then upper_rune r else r]) False)
      else case (if nm_allow_special g then namedChar r else None) of
        Some p \<Rightarrow> generate_loop g src (parts @ [checkPart g part, checkPart g p]) [] True
      | None \<Rightarrow> generate_loop g src (parts @ [checkPart g part]) [] True)"

definition go_keywords :: "string list" where
  "go_keywords = [''break'', ''case'', ''chan'', ''const'', ''continue'', ''default'', ''defer'', ''else'',
     ''fallthrough'', ''for'', ''func'', ''go'', ''goto'', ''if'', ''import'', ''interface'', ''map'',
     ''package'', ''range'', ''return'', ''select'', ''struct'', ''switch'', ''type'', ''var'']"

definition IsIdentifier :: "rune list \<Rightarrow> bool" where
  "IsIdentifier nm \<longleftrightarrow> nm \<noteq> [] \<and> nm \<notin> set (map ascii_runes go_keywords)
     \<and> (letter_rune (hd nm) \<or> hd nm = 95)
     \<and> list_all (\<lambda>r. letter_rune r \<or> r = 95 \<or> digit_rune r) nm"

definition generate :: "namer \<Rightarrow> rune list \<Rightarrow> rune list list + rune list" where
  "generate g src =
     (let parts = generate_loop g src [] [] True;
          nm = concat parts;
          nm' = (if nm \<noteq> [] \<and> digit_rune (hd nm) then 82 # nm else nm)
      in if \<not> IsIdentifier nm' then Inl parts else Inr nm')"

fun clean_loop :: "namer \<Rightarrow> rune list \<Rightarrow> rune list list \<Rightarrow> rune list \<Rightarrow> rune list list" where
  "clean_loop g [] parts part = parts @ [checkPart g part]"
| "clean_loop g (r # src) parts part =
     (if isAllowed r then clean_loop g src parts (part @ [r])
      else case (if nm_allow_special g then namedChar r else None) of
        Some p \<Rightarrow> clean_loop g src (parts @ [checkPart g part, checkPart g p]) []
      | None \<Rightarrow> clean_loop g src (parts @ [checkPart g part]) [])"

definition clean :: "namer \<Rightarrow> rune list \<Rightarrow> rune list" where
  "clean g src = concat (clean_loop g src [] [])"

section \<open>The naming functions\<close>

definition joined :: "string list \<Rightarrow> rune list" where
  "joined strs = runes_of (concat_sep '' '' strs)"

type_synonym name_result = "rune list list + string"

definition name_result :: "rune list list + rune list \<Rightarrow> name_result" where
  "name_result r = (case r of Inl parts \<Rightarrow> Inl parts | Inr nm \<Rightarrow> Inr (string_of_runes nm))"

definition cleanSpecial :: "namer \<Rightarrow> string list \<Rightarrow> string" where
  "cleanSpecial n strs = string_of_runes (clean (n\<lparr>nm_allow_special := True\<rparr>) (joined strs))"

definition pascal :: "namer \<Rightarrow> string list \<Rightarrow> name_result" where
  "pascal n strs = name_result (generate (n\<lparr>nm_allow_special := False\<rparr>) (joined strs))"

definition pascalSpecial :: "namer \<Rightarrow> string list \<Rightarrow> name_result" where
  "pascalSpecial n strs = name_result (generate (n\<lparr>nm_allow_special := True\<rparr>) (joined strs))"

definition pascalNonEmpty :: "namer \<Rightarrow> string list \<Rightarrow> name_result" where
  "pascalNonEmpty n strs =
     (case pascal n strs of
        Inr r \<Rightarrow> if r \<noteq> [] then Inr r else
          (case pascalSpecial n strs of Inl e \<Rightarrow> Inl e | Inr r' \<Rightarrow> if r' \<noteq> [] then Inr r' else Inl [])
      | Inl _ \<Rightarrow>
          (case pascalSpecial n strs of Inl e \<Rightarrow> Inl e | Inr r' \<Rightarrow> if r' \<noteq> [] then Inr r' else Inl []))"

definition firstLower :: "string \<Rightarrow> string" where
  "firstLower s = (case runes_of s of [] \<Rightarrow> [] | c # cs \<Rightarrow> string_of_runes (lower_rune c # cs))"

definition camel :: "namer \<Rightarrow> string list \<Rightarrow> name_result" where
  "camel n s = bind_res (pascal n s) (\<lambda>r. Inr (firstLower r))"

definition camelSpecial :: "namer \<Rightarrow> string list \<Rightarrow> name_result" where
  "camelSpecial n s = bind_res (pascalSpecial n s) (\<lambda>r. Inr (firstLower r))"

definition default_namer :: "bool \<Rightarrow> namer" where
  "default_namer initialisms = \<lparr>nm_allow_special = False, nm_initialisms = initialisms, nm_rules = DefaultRuleset\<rparr>"

definition PascalSpecial :: "string list \<Rightarrow> name_result" where
  "PascalSpecial strs = pascalSpecial (default_namer False) strs"

definition PascalSpecialInitialisms :: "string list \<Rightarrow> name_result" where
  "PascalSpecialInitialisms strs = pascalSpecial (default_namer True) strs"

definition CamelSpecial :: "string list \<Rightarrow> name_result" where
  "CamelSpecial strs = camelSpecial (default_namer False) strs"

definition AfterDot :: "string \<Rightarrow> string" where
  "AfterDot s = (case index_byte s CHR ''.'' of
       Some i \<Rightarrow> if take i s \<noteq> [] then drop (Suc i) s else s
     | None \<Rightarrow> s)"

text \<open>\<open>unicode.ToUpper\<close> is a parameter where it applies to any rune.\<close>

definition Capitalize :: "(rune \<Rightarrow> rune) \<Rightarrow> string \<Rightarrow> string" where
  "Capitalize to_upper s =
     (let (r, n) = decode_rune s in
      if r = rune_error then s else encode_rune (to_upper r) @ drop n s)"

section \<open>Enum variant and discriminator names\<close>

datatype namingStrategy = PascalName | PascalSpecialName | CleanSuffix | IndexSuffix

definition strategies :: "namingStrategy list" where
  "strategies = [PascalName, PascalSpecialName, CleanSuffix, IndexSuffix]"

text \<open>A value is given by what \<open>fmt.Sprintf("%v", v)\<close> prints for it.\<close>

definition variant_text :: "string \<Rightarrow> string" where
  "variant_text v = (if v = [] then ''Empty'' else v)"

definition variant_name :: "namer \<Rightarrow> string \<Rightarrow> namingStrategy \<Rightarrow> string \<Rightarrow> nat \<Rightarrow> name_result" where
  "variant_name n name s v idx = (case s of
       PascalName \<Rightarrow> pascal n [name, variant_text v]
     | PascalSpecialName \<Rightarrow> pascalSpecial n [name, variant_text v]
     | CleanSuffix \<Rightarrow> Inr (name @ ''_'' @ cleanSpecial n [variant_text v])
     | IndexSuffix \<Rightarrow> Inr (name @ ''_'' @ itoa (int idx)))"

text \<open>
  The names a strategy gives to all values, unless one cannot be named or a name is already taken;
  the type name counts as taken.
\<close>

fun variant_names :: "namer \<Rightarrow> string \<Rightarrow> namingStrategy \<Rightarrow> string list \<Rightarrow> nat \<Rightarrow> string set \<Rightarrow> string list option" where
  "variant_names n name s [] idx names = Some []"
| "variant_names n name s (v # vs) idx names =
     (case variant_name n name s v idx of
        Inl _ \<Rightarrow> None
      | Inr k \<Rightarrow> if k \<in> names then None
                 else map_option (Cons k) (variant_names n name s vs (Suc idx) (insert k names)))"

datatype name_err = InvalidVariant string | NoVariantNames

text \<open>\<open>isException\<close>; the texts are visited in the order given, and an undecodable one panics.\<close>

fun special_first :: "string list \<Rightarrow> name_err + bool" where
  "special_first [] = Inr False"
| "special_first (v # vs) =
     (if v = [] then special_first vs
      else let r = fst (decode_rune v) in
        if r = rune_error then Inl (InvalidVariant v)
        else if namedChar r \<noteq> None then Inr True
        else special_first vs)"

definition isException :: "namingStrategy \<Rightarrow> string list \<Rightarrow> name_err + bool" where
  "isException start vs = (if start = PascalName then special_first (map variant_text vs) else Inr False)"

fun pick_strategy :: "namer \<Rightarrow> string \<Rightarrow> string list \<Rightarrow> bool \<Rightarrow> namingStrategy list \<Rightarrow> name_err + namingStrategy \<times> string list" where
  "pick_strategy n name vs allowSpecial [] = Inl NoVariantNames"
| "pick_strategy n name vs allowSpecial (s # ss) =
     (if \<not> allowSpecial \<and> s = PascalSpecialName then pick_strategy n name vs allowSpecial ss
      else case variant_names n name s vs 0 {name} of
        None \<Rightarrow> pick_strategy n name vs allowSpecial ss
      | Some ks \<Rightarrow>
          bind_res (isException s vs) (\<lambda>ex.
            if ex then pick_strategy n name vs allowSpecial ss else Inr (s, ks)))"

text \<open>The returned function, called with the values and indexes it was built from, gives these names.\<close>

definition valueMappingNameGen :: "namer \<Rightarrow> string \<Rightarrow> string list \<Rightarrow> bool \<Rightarrow> name_err + namingStrategy \<times> string list" where
  "valueMappingNameGen n name vs allowSpecial = pick_strategy n name vs allowSpecial strategies"

definition enumVariantNameGen :: "namer \<Rightarrow> string \<Rightarrow> string list \<Rightarrow> name_err + namingStrategy \<times> string list" where
  "enumVariantNameGen n name vs = valueMappingNameGen n name vs True"

definition underscores_to_plus :: "string \<Rightarrow> string" where
  "underscores_to_plus key = map (\<lambda>c. if c = CHR ''_'' then CHR ''+'' else c) key"

definition discriminatorMappingNameGen :: "namer \<Rightarrow> string \<Rightarrow> string list \<Rightarrow> name_err + namingStrategy \<times> string list" where
  "discriminatorMappingNameGen n name keys =
     (if keys = [] then Inl NoVariantNames
      else valueMappingNameGen n name (map underscores_to_plus keys) False)"

section \<open>Names of references\<close>

text \<open>\<open>path.Ext\<close>: from the last dot, if that comes after the last slash.\<close>

definition path_base :: "string \<Rightarrow> string" where
  "path_base p = (case last_index_byte p CHR ''/'' of Some i \<Rightarrow> drop (Suc i) p | None \<Rightarrow> p)"

definition trim_ext :: "string \<Rightarrow> string" where
  "trim_ext f = (case last_index_byte f CHR ''.'' of Some i \<Rightarrow> take i f | None \<Rightarrow> f)"

text \<open>\<open>cleanRef\<close> on the text of a reference; \<open>url_path\<close> is the path \<open>url.Parse\<close> finds, if it parses.\<close>

definition cleanRef :: "(string \<Rightarrow> string option) \<Rightarrow> string \<Rightarrow> string" where
  "cleanRef url_path ref =
     (let (before, after) = (case index_byte ref CHR ''#'' of Some i \<Rightarrow> (take i ref, drop (Suc i) ref) | None \<Rightarrow> (ref, []));
          result =
            (if after \<noteq> [] then after
             else if before = [] then ref
             else case url_path before of None \<Rightarrow> ref | Some p \<Rightarrow> trim_ext (path_base p))
      in case last_index_byte result CHR ''/'' of
           None \<Rightarrow> result
         | Some i \<Rightarrow> if drop (Suc i) result \<noteq> [] then drop (Suc i) result else result)"

section \<open>Facts about characters and rules\<close>

lemma namedChar_Some: "namedChar r = Some p \<Longrightarrow> p \<noteq> [] \<and> upper_ascii (hd p) \<and> list_all letter_rune p"
  by (auto simp: namedChar.simps ascii_runes_def upper_ascii_def letter_rune_def lower_ascii_def upper_letter_def
      split: if_splits)

lemma isAllowed_iff: "isAllowed r \<longleftrightarrow> letter_rune r \<or> digit_rune r"
  by (auto simp: isAllowed_def Let_def lower_rune_def letter_rune_def lower_ascii_def digit_rune_def
      upper_letter_def upper_ascii_def)

text \<open>A text a name may begin with: letters and digits, the first one no lower-case letter.\<close>

definition word_runes :: "rune list \<Rightarrow> bool" where
  "word_runes w \<longleftrightarrow> list_all (\<lambda>r. letter_rune r \<or> digit_rune r) w
     \<and> (w \<noteq> [] \<longrightarrow> upper_letter (hd w) \<or> digit_rune (hd w))"

lemma word_runes_Nil [simp]: "word_runes []"
  by (simp add: word_runes_def)

lemma default_rules: "\<forall>v \<in> set rules. v \<noteq> [] \<and> list_all (\<lambda>c. byte_of c < 128) v \<and> word_runes (map byte_of v)"
  unfolding rules_def word_runes_def letter_rune_def digit_rune_def upper_letter_def upper_ascii_def lower_ascii_def
  by simp

lemma NewRuleset_range:
  assumes "ran m \<subseteq> set vs"
  shows "ran (foldl add_rule m l) \<subseteq> set vs \<union> set l"
  using assms
proof (induction l arbitrary: m vs)
  case (Cons a l)
  have "ran (add_rule m a) \<subseteq> set (a # vs)"
    using Cons.prems by (auto simp: add_rule_def put_rule_def ran_def)
  from Cons.IH [OF this] show ?case by auto
qed simp

lemma default_rule:
  assumes "Rule DefaultRuleset part = Some v"
  shows "v \<noteq> [] \<and> runes_of v = map byte_of v \<and> word_runes (runes_of v)"
proof -
  have "ran DefaultRuleset \<subseteq> set [] \<union> set rules"
    unfolding DefaultRuleset_def NewRuleset_def by (rule NewRuleset_range) simp
  moreover have "v \<in> ran DefaultRuleset" using assms by (auto simp: Rule_def ran_def)
  ultimately have "v \<in> set rules" by auto
  then have "v \<noteq> []" "list_all (\<lambda>c. byte_of c < 128) v" "word_runes (map byte_of v)"
    using default_rules by auto
  then show ?thesis using runes_of_ascii [of v] by (simp add: list_all_iff)
qed

lemma lower_string_eq_Nil [simp]: "lower_string s = [] \<longleftrightarrow> s = []"
proof -
  have "string_of_runes rs = [] \<longleftrightarrow> rs = []" for rs by (cases rs) simp_all
  then show ?thesis by (simp add: lower_string_def)
qed

lemma default_rule_empty: "Rule DefaultRuleset [] = None"
proof -
  have "Rule m [] = None \<Longrightarrow> Rule (foldl add_rule m l) [] = None" for m l
  proof (induction l arbitrary: m)
    case (Cons a l)
    have "Rule (add_rule m a) [] = None"
      using Cons.prems lower_string_eq_Nil [of a] by (auto simp: add_rule_def put_rule_def Rule_def lower_string_def)
    then show ?case using Cons.IH by simp
  qed simp
  then show ?thesis by (simp add: DefaultRuleset_def NewRuleset_def Rule_def)
qed

section \<open>What the generator builds\<close>

lemma checkPart_word:
  assumes "nm_rules g = DefaultRuleset" and "word_runes p"
  shows "word_runes (checkPart g p)" and "checkPart g p = [] \<longleftrightarrow> p = []"
proof -
  show "word_runes (checkPart g p)"
    using assms by (auto simp: checkPart_def dest: default_rule split: option.splits)
  show "checkPart g p = [] \<longleftrightarrow> p = []"
    using assms default_rule_empty by (auto simp: checkPart_def dest: default_rule split: option.splits)
qed

lemma upper_rune_word: "isAllowed r \<Longrightarrow> word_runes [upper_rune r]"
  by (auto simp: isAllowed_iff word_runes_def upper_rune_def letter_rune_def upper_letter_def lower_ascii_def
      upper_ascii_def digit_rune_def)

lemma word_runes_snoc: "word_runes p \<Longrightarrow> isAllowed r \<Longrightarrow> p \<noteq> [] \<Longrightarrow> word_runes (p @ [r])"
  by (auto simp: word_runes_def isAllowed_iff)

lemma namedChar_word: "namedChar r = Some p \<Longrightarrow> word_runes p \<and> p \<noteq> []"
  using namedChar_Some [of r p] by (auto simp: word_runes_def upper_letter_def list_all_iff)

text \<open>The runes of a source that leave a trace in the name.\<close>

definition counts :: "namer \<Rightarrow> rune \<Rightarrow> bool" where
  "counts g r \<longleftrightarrow> isAllowed r \<or> nm_allow_special g \<and> namedChar r \<noteq> None"

lemma generate_loop_words:
  "nm_rules g = DefaultRuleset \<Longrightarrow> list_all word_runes parts \<Longrightarrow> word_runes part \<Longrightarrow> (part = [] \<longleftrightarrow> upper) \<Longrightarrow>
    list_all word_runes (generate_loop g src parts part upper)
    \<and> (concat (generate_loop g src parts part upper) = [] \<longleftrightarrow>
        concat parts = [] \<and> part = [] \<and> list_all (\<lambda>r. \<not> counts g r) src)"
proof (induction g src parts part upper rule: generate_loop.induct)
  case (1 g parts part upper)
  then show ?case using checkPart_word by simp
next
  case (2 g r src parts part upper)
  note part = checkPart_word [OF "2.prems"(1,3)]
  consider (split) "isAllowed r" "nm_initialisms g \<and> part \<noteq> [] \<and> upper_letter r \<and> \<not> upper_letter (last part)"
    | (extend) "isAllowed r" "\<not> (nm_initialisms g \<and> part \<noteq> [] \<and> upper_letter r \<and> \<not> upper_letter (last part))"
    | (named) p where "\<not> isAllowed r" "(if nm_allow_special g then namedChar r else None) = Some p"
    | (skip) "\<not> isAllowed r" "(if nm_allow_special g then namedChar r else None) = None"
    by blast
  then show ?case
  proof cases
    case split
    then show ?thesis
      using "2.IH"(1) [OF split "2.prems"(1)] "2.prems" part upper_rune_word by (simp add: counts_def)
  next
    case extend
    have "word_runes (part @ [if upper then upper_rune r else r])"
      using "2.prems" upper_rune_word [OF extend(1)] word_runes_snoc [OF _ extend(1)] by (cases upper) auto
    then show ?thesis
      using "2.IH"(2) [OF extend "2.prems"(1)] "2.prems" extend by (auto simp: counts_def)
  next
    case named
    then have p: "word_runes p" "p \<noteq> []" "counts g r"
      using namedChar_word by (auto simp: counts_def split: if_splits)
    then show ?thesis
      using "2.IH"(4) [OF named "2.prems"(1)] "2.prems" part checkPart_word [OF "2.prems"(1) p(1)] named by simp
  next
    case skip
    then show ?thesis
      using "2.IH"(3) [OF skip "2.prems"(1)] "2.prems" part by (auto simp: counts_def split: if_splits)
  qed
qed

lemma word_runes_concat: "list_all word_runes ws \<Longrightarrow> word_runes (concat ws)"
  by (induction ws) (auto simp: word_runes_def hd_append)

definition exported_identifier :: "rune list \<Rightarrow> bool" where
  "exported_identifier nm \<longleftrightarrow> nm \<noteq> [] \<and> upper_letter (hd nm) \<and> list_all (\<lambda>r. letter_rune r \<or> digit_rune r) nm"

lemma keyword_lower: "nm \<in> set (map ascii_runes go_keywords) \<Longrightarrow> lower_ascii (hd nm)"
  by (auto simp: go_keywords_def ascii_runes_def lower_ascii_def)

lemma exported_IsIdentifier: "exported_identifier nm \<Longrightarrow> IsIdentifier nm"
proof -
  assume nm: "exported_identifier nm"
  have "nm \<notin> set (map ascii_runes go_keywords)"
    using nm keyword_lower [of nm]
    by (auto simp: exported_identifier_def upper_letter_def upper_ascii_def lower_ascii_def)
  then show ?thesis
    using nm by (auto simp: exported_identifier_def IsIdentifier_def letter_rune_def list_all_iff)
qed

lemma generate_default:
  assumes "nm_rules g = DefaultRuleset"
  shows "(\<exists>nm. generate g src = Inr nm \<and> exported_identifier nm) \<and> list_ex (counts g) src
    \<or> isl (generate g src) \<and> \<not> list_ex (counts g) src"
proof -
  let ?nm = "concat (generate_loop g src [] [] True)"
  have w: "word_runes ?nm" and e: "?nm = [] \<longleftrightarrow> \<not> list_ex (counts g) src"
    using generate_loop_words [OF assms, of "[]" "[]" True src] word_runes_concat by (auto simp: list_ex_iff list_all_iff)
  show ?thesis
  proof (cases "?nm = []")
    case True
    then show ?thesis using e by (simp add: generate_def Let_def IsIdentifier_def)
  next
    case False
    have "exported_identifier (if digit_rune (hd ?nm) then 82 # ?nm else ?nm)"
      using w False by (auto simp: word_runes_def exported_identifier_def upper_letter_def upper_ascii_def letter_rune_def)
    moreover have "list_ex (counts g) src" using e False by blast
    ultimately show ?thesis
      using False exported_IsIdentifier by (simp add: generate_def Let_def del: concat_eq_Nil_conv)
  qed
qed

lemma runes_of_exported: "exported_identifier nm \<Longrightarrow> runes_of (string_of_runes nm) = nm"
  by (rule runes_of_string_of_runes)
    (auto simp: exported_identifier_def list_all_iff letter_rune_def lower_ascii_def upper_letter_def
      upper_ascii_def digit_rune_def valid_rune_def)

section \<open>Properties\<close>

definition nameable :: "rune \<Rightarrow> bool" where
  "nameable r \<longleftrightarrow> letter_rune r \<or> digit_rune r \<or> namedChar r \<noteq> None"

text \<open>
  C34: \<open>PascalSpecial\<close>, with and without initialisms, returns an exported Go identifier made of letters
  and digits when its input has a letter, a digit or a named character, and fails on every other input.
\<close>

theorem pascal_special_exported:
  "case pascalSpecial (default_namer initialisms) strs of
     Inr nm \<Rightarrow> exported_identifier (runes_of nm) \<and> list_ex nameable (joined strs)
   | Inl e \<Rightarrow> \<not> list_ex nameable (joined strs)"
proof -
  let ?g = "(default_namer initialisms)\<lparr>nm_allow_special := True\<rparr>"
  have "counts ?g = nameable"
    by (rule ext) (auto simp: counts_def nameable_def isAllowed_iff)
  then show ?thesis
    using generate_default [of ?g "joined strs"] runes_of_exported
    by (auto simp: pascalSpecial_def name_result_def default_namer_def split: sum.splits)
qed

lemma variant_names_distinct:
  "variant_names n name s vs idx names = Some ks \<Longrightarrow>
   length ks = length vs \<and> distinct ks \<and> set ks \<inter> names = {}
   \<and> (\<forall>i < length vs. variant_name n name s (vs ! i) (idx + i) = Inr (ks ! i))"
proof (induction vs arbitrary: idx names ks)
  case (Cons v vs)
  then obtain k ks' where k: "variant_name n name s v idx = Inr k" "k \<notin> names" "ks = k # ks'"
    "variant_names n name s vs (Suc idx) (insert k names) = Some ks'"
    by (auto split: sum.splits if_splits)
  from Cons.IH [OF k(4)] show ?case
    using k(1-3) by (auto simp: nth_Cons split: nat.split)
qed simp

lemma pick_strategy_names:
  "pick_strategy n name vs a ss = Inr (s, ks) \<Longrightarrow> variant_names n name s vs 0 {name} = Some ks \<and> s \<in> set ss"
  by (induction n name vs a ss rule: pick_strategy.induct) (auto split: if_splits option.splits)

text \<open>
  C19: the names chosen for the variants of an enum or the keys of a discriminator are pairwise
  distinct, differ from the name of the type, and are the ones the returned function gives.
\<close>

theorem variant_names_unique:
  assumes "valueMappingNameGen n name vs a = Inr (s, ks)"
  shows "length ks = length vs \<and> distinct (name # ks)
    \<and> (\<forall>i < length vs. variant_name n name s (vs ! i) i = Inr (ks ! i))"
  using pick_strategy_names [OF assms [unfolded valueMappingNameGen_def]] variant_names_distinct [of n name s vs 0 "{name}" ks]
  by auto

text \<open>Evaluation of names over ASCII texts.\<close>

lemmas name_eval = pascal_def name_result_def generate_def Let_def joined_def isAllowed_def lower_rune_def
  upper_ascii_def lower_ascii_def digit_rune_def checkPart_def Rule_def IsIdentifier_def go_keywords_def
  ascii_runes_def letter_rune_def upper_letter_def upper_rune_def decode_rune_ascii namedChar.simps
  encode_rune_def valid_rune_def string_of_runes_def char_of_eq_iff

lemma variant_names_unique_witness:
  "\<exists>s ks. valueMappingNameGen \<lparr>nm_allow_special = False, nm_initialisms = False, nm_rules = Map.empty\<rparr>
      ''Sign'' [''1'', ''two''] True = Inr (s, ks) \<and> distinct (''Sign'' # ks)"
proof -
  have "valueMappingNameGen \<lparr>nm_allow_special = False, nm_initialisms = False, nm_rules = Map.empty\<rparr>
      ''Sign'' [''1'', ''two''] True = Inr (PascalName, [''Sign1'', ''SignTwo''])"
    by (simp add: valueMappingNameGen_def strategies_def variant_name_def variant_text_def isException_def name_eval)
  from this variant_names_unique [OF this] show ?thesis by blast
qed

end
