(* ===== verification/Validate.thy ===== *)
theory Validate
  imports Strconv Utf8 Complex_Main
begin

text \<open>
  The runtime validators of \<open>runtime/validate\<close>: array lengths and unique items, integers, floats,
  decimals, objects, strings (length, e-mail, host name, pattern, numeric bounds) and the registry
  of custom validators. Each kind of Go error is a constructor, with the data a caller can tell two
  errors of a kind apart by (the range errors repeat the value and the bound, which the caller
  passed); a run-time panic is a constructor too. \<open>int64\<close> and \<open>uint64\<close> are \<open>64 word\<close>.
\<close>

section \<open>Errors and compiled patterns\<close>

datatype verr =
    MaxLengthError int int
  | MinLengthError int int
  | DuplicateElement nat
  | LessThan
  | GreaterThan
  | NotMultipleOf
  | DivideByZeroPanic
  | NotANumber
  | Infinite
  | ExecuteRegex string
  | NoRegexMatch string
  | TooManyProperties int int
  | TooFewProperties int int
  | Blank
  | TooLong
  | SpaceCharacter rune
  | NotPrintable rune
  | InvalidCharacter rune
  | NoAt
  | AtAtStart
  | AtAtEnd
  | MultipleAt
  | ParseAsNumber string

text \<open>\<open>ogenregex.Regexp\<close> is an interface; a value of it is its method table.\<close>

record regexp =
  MatchString :: "string \<Rightarrow> string + bool"
  PatternString :: string

text \<open>The pattern step that ends the integer, float and string validators.\<close>

definition match_pattern :: "regexp option \<Rightarrow> string \<Rightarrow> verr option" where
  "match_pattern p str = (case p of
     None \<Rightarrow> None
   | Some r \<Rightarrow> (case MatchString r str of
       Inl e \<Rightarrow> Some (ExecuteRegex e)
     | Inr m \<Rightarrow> if m then None else Some (NoRegexMatch (PatternString r))))"

lemma match_pattern_None:
  "match_pattern p str = None \<longleftrightarrow> (\<forall>r. p = Some r \<longrightarrow> MatchString r str = Inr True)"
  by (auto simp: match_pattern_def split: option.splits sum.splits)

section \<open>Bounds\<close>

text \<open>
  The three numeric validators compare with their own operators but in one shape:
  \<open>MinSet && (v < Min || MinExclusive && v == Min)\<close> and its mirror image.
\<close>

definition below_min :: "('n \<Rightarrow> 'n \<Rightarrow> bool) \<Rightarrow> ('n \<Rightarrow> 'n \<Rightarrow> bool) \<Rightarrow> bool \<Rightarrow> bool \<Rightarrow> 'n \<Rightarrow> 'n \<Rightarrow> bool" where
  "below_min lt eq isset excl mn v \<longleftrightarrow> isset \<and> (lt v mn \<or> excl \<and> eq v mn)"

definition above_max :: "('n \<Rightarrow> 'n \<Rightarrow> bool) \<Rightarrow> ('n \<Rightarrow> 'n \<Rightarrow> bool) \<Rightarrow> bool \<Rightarrow> bool \<Rightarrow> 'n \<Rightarrow> 'n \<Rightarrow> bool" where
  "above_max lt eq isset excl mx v \<longleftrightarrow> isset \<and> (lt mx v \<or> excl \<and> eq v mx)"

definition at_least :: "bool \<Rightarrow> bool \<Rightarrow> 'r::linorder \<Rightarrow> 'r \<Rightarrow> bool" where
  "at_least isset excl mn v \<longleftrightarrow> (isset \<longrightarrow> (if excl then mn < v else mn \<le> v))"

definition at_most :: "bool \<Rightarrow> bool \<Rightarrow> 'r::linorder \<Rightarrow> 'r \<Rightarrow> bool" where
  "at_most isset excl mx v \<longleftrightarrow> (isset \<longrightarrow> (if excl then v < mx else v \<le> mx))"

locale numeric_compare =
  fixes lt :: "'n \<Rightarrow> 'n \<Rightarrow> bool"
    and eq :: "'n \<Rightarrow> 'n \<Rightarrow> bool"
    and val :: "'n \<Rightarrow> 'r::linorder"
    and num :: "'n \<Rightarrow> bool"
  assumes lt_val: "num a \<Longrightarrow> num b \<Longrightarrow> lt a b \<longleftrightarrow> val a < val b"
    and eq_val: "num a \<Longrightarrow> num b \<Longrightarrow> eq a b \<longleftrightarrow> val a = val b"
begin

lemma not_below_min:
  "num v \<Longrightarrow> (isset \<Longrightarrow> num mn) \<Longrightarrow>
     \<not> below_min lt eq isset excl mn v \<longleftrightarrow> at_least isset excl (val mn) (val v)"
  by (cases isset) (auto simp: below_min_def at_least_def lt_val eq_val)

lemma not_above_max:
  "num v \<Longrightarrow> (isset \<Longrightarrow> num mx) \<Longrightarrow>
     \<not> above_max lt eq isset excl mx v \<longleftrightarrow> at_most isset excl (val mx) (val v)"
  by (cases isset) (auto simp: above_max_def at_most_def lt_val eq_val)

end

section \<open>Arrays\<close>

record array_v =
  ArrMinLength :: int
  ArrMinLengthSet :: bool
  ArrMaxLength :: int
  ArrMaxLengthSet :: bool
  ArrUniqueItems :: bool

definition array_SetMaxLength :: "array_v \<Rightarrow> int \<Rightarrow> array_v" where
  "array_SetMaxLength t v = t\<lparr>ArrMaxLengthSet := True, ArrMaxLength := v\<rparr>"

definition array_SetMinLength :: "array_v \<Rightarrow> int \<Rightarrow> array_v" where
  "array_SetMinLength t v = t\<lparr>ArrMinLengthSet := True, ArrMinLength := v\<rparr>"

definition array_SetUniqueItems :: "array_v \<Rightarrow> bool \<Rightarrow> array_v" where
  "array_SetUniqueItems t v = t\<lparr>ArrUniqueItems := v\<rparr>"

definition array_Set :: "array_v \<Rightarrow> bool" where
  "array_Set t \<longleftrightarrow> ArrMaxLengthSet t \<or> ArrMinLengthSet t \<or> ArrUniqueItems t"

definition validate_length :: "array_v \<Rightarrow> int \<Rightarrow> verr option" where
  "validate_length t v =
     (if ArrMaxLengthSet t \<and> v > ArrMaxLength t then Some (MaxLengthError v (ArrMaxLength t))
      else if ArrMinLengthSet t \<and> v < ArrMinLength t then Some (MinLengthError v (ArrMinLength t))
      else None)"

lemma validate_length_None:
  "validate_length t v = None \<longleftrightarrow>
     at_least (ArrMinLengthSet t) False (ArrMinLength t) v \<and>
     at_most (ArrMaxLengthSet t) False (ArrMaxLength t) v"
  by (auto simp: validate_length_def at_least_def at_most_def)

text \<open>
  \<open>for i, a := range arr { if slices.Contains(arr[i+1:], a) ... }\<close>; \<open>eq\<close> is Go's \<open>==\<close> on the type of the
  items, which is not reflexive on floats and finds 0 and -0 equal.
\<close>

fun unique_items_from :: "('a \<Rightarrow> 'a \<Rightarrow> bool) \<Rightarrow> nat \<Rightarrow> 'a list \<Rightarrow> verr option" where
  "unique_items_from eq i [] = None"
| "unique_items_from eq i (a # rest) =
     (if list_ex (eq a) rest then Some (DuplicateElement i) else unique_items_from eq (Suc i) rest)"

definition unique_items :: "('a \<Rightarrow> 'a \<Rightarrow> bool) \<Rightarrow> 'a list \<Rightarrow> verr option" where
  "unique_items eq arr = (if length arr < 2 then None else unique_items_from eq 0 arr)"

definition repeats_at :: "('a \<Rightarrow> 'a \<Rightarrow> bool) \<Rightarrow> 'a list \<Rightarrow> nat \<Rightarrow> bool" where
  "repeats_at eq arr i \<longleftrightarrow> (\<exists>j. i < j \<and> j < length arr \<and> eq (arr ! i) (arr ! j))"

lemma repeats_at_0: "repeats_at eq (a # rest) 0 \<longleftrightarrow> list_ex (eq a) rest"
proof
  assume "repeats_at eq (a # rest) 0"
  then obtain j where j: "0 < j" "j < length (a # rest)" "eq ((a # rest) ! 0) ((a # rest) ! j)"
    unfolding repeats_at_def by blast
  then obtain k where "j = Suc k" by (cases j) auto
  then show "list_ex (eq a) rest" using j by (auto simp: list_ex_iff)
next
  assume "list_ex (eq a) rest"
  then obtain k where "k < length rest" "eq a (rest ! k)" by (auto simp: list_ex_iff in_set_conv_nth)
  then show "repeats_at eq (a # rest) 0" unfolding repeats_at_def by (intro exI [of _ "Suc k"]) simp
qed

lemma repeats_at_Suc: "repeats_at eq (a # rest) (Suc i) \<longleftrightarrow> repeats_at eq rest i"
proof
  assume "repeats_at eq (a # rest) (Suc i)"
  then obtain j where j: "Suc i < j" "j < length (a # rest)" "eq ((a # rest) ! Suc i) ((a # rest) ! j)"
    unfolding repeats_at_def by blast
  then obtain k where "j = Suc k" by (cases j) auto
  then show "repeats_at eq rest i" using j unfolding repeats_at_def by (intro exI [of _ k]) simp
next
  assume "repeats_at eq rest i"
  then obtain k where "i < k" "k < length rest" "eq (rest ! i) (rest ! k)" unfolding repeats_at_def by blast
  then show "repeats_at eq (a # rest) (Suc i)" unfolding repeats_at_def by (intro exI [of _ "Suc k"]) simp
qed

text \<open>The answer for a list: nothing if no index repeats, otherwise the least that does.\<close>

lemma unique_items_from_spec:
  "case unique_items_from eq n arr of
     None \<Rightarrow> \<forall>i. \<not> repeats_at eq arr i
   | Some e \<Rightarrow> \<exists>i. e = DuplicateElement (n + i) \<and> repeats_at eq arr i \<and> (\<forall>j < i. \<not> repeats_at eq arr j)"
proof (induction arr arbitrary: n)
  case Nil
  then show ?case by (simp add: repeats_at_def)
next
  case (Cons a rest)
  have split: "(\<forall>i. \<not> repeats_at eq (a # rest) i) \<longleftrightarrow> \<not> list_ex (eq a) rest \<and> (\<forall>i. \<not> repeats_at eq rest i)"
    by (metis nat.exhaust repeats_at_0 repeats_at_Suc)
  show ?case
  proof (cases "list_ex (eq a) rest")
    case True
    then show ?thesis by (auto simp: repeats_at_0 intro: exI [of _ 0])
  next
    case False
    show ?thesis
    proof (cases "unique_items_from eq (Suc n) rest")
      case None
      then show ?thesis using Cons.IH [of "Suc n"] False split by simp
    next
      case (Some e)
      then obtain i where i: "e = DuplicateElement (Suc n + i)" "repeats_at eq rest i" "\<forall>j < i. \<not> repeats_at eq rest j"
        using Cons.IH [of "Suc n"] by auto
      have "\<not> repeats_at eq (a # rest) j" if "j < Suc i" for j
        using that False i(3) by (cases j) (auto simp: repeats_at_0 repeats_at_Suc)
      then show ?thesis using Some False i(1,2) by (auto simp: repeats_at_Suc intro!: exI [of _ "Suc i"])
    qed
  qed
qed

section \<open>Integers\<close>

record int_v =
  IntMultipleOf :: "64 word"
  IntMultipleOfSet :: bool
  IntMin :: "64 word"
  IntMinSet :: bool
  IntMinExclusive :: bool
  IntMax :: "64 word"
  IntMaxSet :: bool
  IntMaxExclusive :: bool
  IntPattern :: "regexp option"

definition int_SetMultipleOf :: "int_v \<Rightarrow> 64 word \<Rightarrow> int_v" where
  "int_SetMultipleOf t v = t\<lparr>IntMultipleOfSet := True, IntMultipleOf := v\<rparr>"

definition int_SetMinimum :: "int_v \<Rightarrow> 64 word \<Rightarrow> int_v" where
  "int_SetMinimum t v = t\<lparr>IntMin := v, IntMinSet := True\<rparr>"

definition int_SetMaximum :: "int_v \<Rightarrow> 64 word \<Rightarrow> int_v" where
  "int_SetMaximum t v = t\<lparr>IntMax := v, IntMaxSet := True\<rparr>"

definition int_SetExclusiveMinimum :: "int_v \<Rightarrow> 64 word \<Rightarrow> int_v" where
  "int_SetExclusiveMinimum t v = int_SetMinimum (t\<lparr>IntMinExclusive := True\<rparr>) v"

definition int_SetExclusiveMaximum :: "int_v \<Rightarrow> 64 word \<Rightarrow> int_v" where
  "int_SetExclusiveMaximum t v = int_SetMaximum (t\<lparr>IntMaxExclusive := True\<rparr>) v"

definition int_SetPattern :: "int_v \<Rightarrow> regexp option \<Rightarrow> int_v" where
  "int_SetPattern t v = t\<lparr>IntPattern := v\<rparr>"

definition int_Set :: "int_v \<Rightarrow> bool" where
  "int_Set t \<longleftrightarrow> IntMinSet t \<or> IntMaxSet t \<or> IntMultipleOfSet t \<or> IntPattern t \<noteq> None"

abbreviation int64_less :: "64 word \<Rightarrow> 64 word \<Rightarrow> bool" where
  "int64_less a b \<equiv> sint a < sint b"

definition int_validate :: "int_v \<Rightarrow> 64 word \<Rightarrow> verr option" where
  "int_validate t v =
     (if below_min int64_less (=) (IntMinSet t) (IntMinExclusive t) (IntMin t) v then Some LessThan
      else if above_max int64_less (=) (IntMaxSet t) (IntMaxExclusive t) (IntMax t) v
        then Some GreaterThan
      else
        let v = (if sint v < 0 then v * (- 1) else v) in
        if IntMultipleOfSet t \<and> IntMultipleOf t = 0 then Some DivideByZeroPanic
        else if IntMultipleOfSet t \<and> v mod IntMultipleOf t \<noteq> 0 then Some NotMultipleOf
        else match_pattern (IntPattern t) (itoa (sint v)))"

interpretation int64: numeric_compare int64_less "(=)" "sint :: 64 word \<Rightarrow> int" "\<lambda>_. True"
  by unfold_locales (auto intro: signed_word_eqI)

text \<open>
  \<open>v *= -1\<close> wraps on the smallest \<open>int64\<close>, yet the unsigned remainder that follows is that of the
  true magnitude, because \<open>uint64(-2^63)\<close> is \<open>2^63\<close>.
\<close>

lemma sint_bounds64: "- (2 ^ 63) \<le> sint (v :: 64 word)" "sint (v :: 64 word) < 2 ^ 63"
  using sint_greater_eq [of v] sint_less [of v] by simp_all

lemma uint_of_sint64: "uint (v :: 64 word) = sint v mod 2 ^ 64"
  unfolding uint_sint take_bit_eq_mod by simp

lemma uint_abs64: "uint (if sint v < 0 then v * (- 1) else (v :: 64 word)) = \<bar>sint v\<bar>"
proof (cases "sint v < 0")
  case True
  have "uint (- v) = (- uint v) mod 2 ^ 64"
    using uint_word_ariths(4) [of v] by simp
  also have "\<dots> = (- sint v) mod 2 ^ 64"
    unfolding uint_of_sint64 by (rule mod_minus_eq)
  also have "\<dots> = - sint v"
    using True sint_bounds64(1) [of v] by (intro mod_pos_pos_trivial) auto
  finally show ?thesis using True by simp
next
  case False
  then show ?thesis
    using sint_bounds64(2) [of v] uint_of_sint64 [of v] by simp
qed

lemma int64_multiple_iff:
  assumes "m \<noteq> (0 :: 64 word)"
  shows "(if sint v < 0 then v * (- 1) else v) mod m = 0 \<longleftrightarrow> uint m dvd sint v"
proof -
  let ?a = "if sint v < 0 then v * (- 1) else v"
  have "?a mod m = 0 \<longleftrightarrow> uint (?a mod m) = 0"
    by (simp only: uint_0_iff)
  also have "uint (?a mod m) = \<bar>sint v\<bar> mod uint m"
    unfolding uint_mod uint_abs64 ..
  finally show ?thesis by (simp add: dvd_eq_mod_eq_0 [symmetric])
qed

text \<open>What an \<open>int64\<close> value has to satisfy, over the integers.\<close>

definition int_spec :: "int_v \<Rightarrow> int \<Rightarrow> bool" where
  "int_spec t i \<longleftrightarrow>
     at_least (IntMinSet t) (IntMinExclusive t) (sint (IntMin t)) i \<and>
     at_most (IntMaxSet t) (IntMaxExclusive t) (sint (IntMax t)) i \<and>
     (IntMultipleOfSet t \<longrightarrow> IntMultipleOf t \<noteq> 0 \<and> uint (IntMultipleOf t) dvd i)"

definition int_pattern_text :: "64 word \<Rightarrow> string" where
  "int_pattern_text v = itoa (sint (if sint v < 0 then v * (- 1) else v))"

lemma int_validate_None:
  "int_validate t v = None \<longleftrightarrow>
     int_spec t (sint v) \<and> match_pattern (IntPattern t) (int_pattern_text v) = None"
proof -
  let ?lo = "below_min int64_less (=) (IntMinSet t) (IntMinExclusive t) (IntMin t) v"
  let ?hi = "above_max int64_less (=) (IntMaxSet t) (IntMaxExclusive t) (IntMax t) v"
  have lo: "\<not> ?lo \<longleftrightarrow> at_least (IntMinSet t) (IntMinExclusive t) (sint (IntMin t)) (sint v)"
    by (rule int64.not_below_min) simp_all
  have hi: "\<not> ?hi \<longleftrightarrow> at_most (IntMaxSet t) (IntMaxExclusive t) (sint (IntMax t)) (sint v)"
    by (rule int64.not_above_max) simp_all
  have "int_validate t v = None \<longleftrightarrow> \<not> ?lo \<and> \<not> ?hi \<and>
      (IntMultipleOfSet t \<longrightarrow> IntMultipleOf t \<noteq> 0 \<and>
         (if sint v < 0 then v * (- 1) else v) mod IntMultipleOf t = 0) \<and>
      match_pattern (IntPattern t) (int_pattern_text v) = None"
    unfolding int_validate_def Let_def int_pattern_text_def by auto
  moreover have "(IntMultipleOfSet t \<longrightarrow> IntMultipleOf t \<noteq> 0 \<and>
         (if sint v < 0 then v * (- 1) else v) mod IntMultipleOf t = 0) \<longleftrightarrow>
      (IntMultipleOfSet t \<longrightarrow> IntMultipleOf t \<noteq> 0 \<and> uint (IntMultipleOf t) dvd sint v)"
    by (rule imp_cong [OF refl], rule conj_cong [OF refl]) (rule int64_multiple_iff)
  ultimately show ?thesis
    unfolding lo hi int_spec_def by (simp only: conj_assoc)
qed

lemma int_pattern_text_nonneg:
  "sint v \<noteq> - (2 ^ 63) \<Longrightarrow> int_pattern_text v = utoa (nat \<bar>sint v\<bar>)"
proof -
  assume m: "sint v \<noteq> - (2 ^ 63)"
  let ?a = "if sint v < 0 then v * (- 1) else v"
  have "\<bar>sint v\<bar> < 2 ^ 63" using m sint_bounds64 [of v] by auto
  then have "uint ?a < 2 ^ 63" by (simp only: uint_abs64)
  moreover have "uint a < 2 ^ 63 \<Longrightarrow> sint a = uint a" for a :: "64 word"
  proof -
    have "- (2 ^ 63) \<le> uint a" by (rule order_trans [OF _ uint_ge_0]) simp
    then show "uint a < 2 ^ 63 \<Longrightarrow> sint a = uint a"
      using signed_take_bit_int_eq_self [of 63 "uint a"] by (simp add: sint_uint)
  qed
  ultimately have "sint ?a = uint ?a" by blast
  then have "sint ?a = \<bar>sint v\<bar>" by (simp only: uint_abs64)
  then show ?thesis unfolding int_pattern_text_def by (simp only:) (simp add: itoa_def)
qed

section \<open>Floats\<close>

text \<open>
  A \<open>float64\<close> is not-a-number, an infinity, negative zero, or a finite value, which is a
  rational. Comparison is that of the values; every comparison with not-a-number is false.
\<close>

datatype float64 = NaN | Inf bool | NegZero | Fin rat

fun float_val :: "float64 \<Rightarrow> rat" where
  "float_val (Fin q) = q"
| "float_val _ = 0"

definition is_finite :: "float64 \<Rightarrow> bool" where
  "is_finite f \<longleftrightarrow> (case f of NaN \<Rightarrow> False | Inf _ \<Rightarrow> False | _ \<Rightarrow> True)"

fun float_less :: "float64 \<Rightarrow> float64 \<Rightarrow> bool" where
  "float_less NaN _ = False"
| "float_less _ NaN = False"
| "float_less (Inf neg) b = (neg \<and> b \<noteq> Inf True)"
| "float_less a (Inf neg) = (\<not> neg)"
| "float_less a b = (float_val a < float_val b)"

fun float_eq :: "float64 \<Rightarrow> float64 \<Rightarrow> bool" where
  "float_eq NaN _ = False"
| "float_eq _ NaN = False"
| "float_eq (Inf neg) b = (b = Inf neg)"
| "float_eq a (Inf neg) = False"
| "float_eq a b = (float_val a = float_val b)"

interpretation float64: numeric_compare float_less float_eq float_val is_finite
proof unfold_locales
  fix a b
  assume "is_finite a" "is_finite b"
  then show "float_less a b \<longleftrightarrow> float_val a < float_val b"
    and "float_eq a b \<longleftrightarrow> float_val a = float_val b"
    by (cases a; cases b; simp add: is_finite_def)+
qed

text \<open>
  The decimal text of a float comes from \<open>strconv.FormatFloat\<close>: \<open>g\<close> is the rational that the
  shortest \<open>'g'\<close> form denotes (none for not-a-number and the infinities, which \<open>big.Rat\<close>
  does not read), \<open>f\<close> the \<open>'f'\<close> form the pattern is matched against.
\<close>

record float_format =
  FormatG :: "float64 \<Rightarrow> rat option"
  FormatF :: "float64 \<Rightarrow> string"

record float_v =
  FltMultipleOf :: rat
  FltMultipleOfSet :: bool
  FltMin :: float64
  FltMinSet :: bool
  FltMinExclusive :: bool
  FltMax :: float64
  FltMaxSet :: bool
  FltMaxExclusive :: bool
  FltPattern :: "regexp option"

definition float_SetMultipleOf :: "float_v \<Rightarrow> rat \<Rightarrow> float_v" where
  "float_SetMultipleOf t r = t\<lparr>FltMultipleOfSet := True, FltMultipleOf := r\<rparr>"

definition float_SetMinimum :: "float_v \<Rightarrow> float64 \<Rightarrow> float_v" where
  "float_SetMinimum t v = t\<lparr>FltMin := v, FltMinSet := True\<rparr>"

definition float_SetMaximum :: "float_v \<Rightarrow> float64 \<Rightarrow> float_v" where
  "float_SetMaximum t v = t\<lparr>FltMax := v, FltMaxSet := True\<rparr>"

definition float_SetExclusiveMinimum :: "float_v \<Rightarrow> float64 \<Rightarrow> float_v" where
  "float_SetExclusiveMinimum t v = float_SetMinimum (t\<lparr>FltMinExclusive := True\<rparr>) v"

definition float_SetExclusiveMaximum :: "float_v \<Rightarrow> float64 \<Rightarrow> float_v" where
  "float_SetExclusiveMaximum t v = float_SetMaximum (t\<lparr>FltMaxExclusive := True\<rparr>) v"

definition float_SetPattern :: "float_v \<Rightarrow> regexp option \<Rightarrow> float_v" where
  "float_SetPattern t v = t\<lparr>FltPattern := v\<rparr>"

definition float_Set :: "float_v \<Rightarrow> bool" where
  "float_Set t \<longleftrightarrow> FltMinSet t \<or> FltMaxSet t \<or> FltMultipleOfSet t \<or> FltPattern t \<noteq> None"

text \<open>\<open>val.Quo(val, t.MultipleOf)\<close> panics on a zero divisor, once the text has been read.\<close>

definition float_multiple :: "float_format \<Rightarrow> float_v \<Rightarrow> float64 \<Rightarrow> verr option" where
  "float_multiple fmt t v =
     (if \<not> FltMultipleOfSet t then None
      else case FormatG fmt v of
        None \<Rightarrow> Some NotMultipleOf
      | Some q \<Rightarrow> if FltMultipleOf t = 0 then Some DivideByZeroPanic
                  else if q / FltMultipleOf t \<in> \<int> then None else Some NotMultipleOf)"

definition float_validate_core :: "float_format \<Rightarrow> float_v \<Rightarrow> float64 \<Rightarrow> verr option" where
  "float_validate_core fmt t v =
     (if below_min float_less float_eq (FltMinSet t) (FltMinExclusive t) (FltMin t) v
        then Some LessThan
      else if above_max float_less float_eq (FltMaxSet t) (FltMaxExclusive t) (FltMax t) v
        then Some GreaterThan
      else case float_multiple fmt t v of
        Some e \<Rightarrow> Some e
      | None \<Rightarrow> match_pattern (FltPattern t) (FormatF fmt v))"

definition float_validate :: "float_format \<Rightarrow> float_v \<Rightarrow> float64 \<Rightarrow> verr option" where
  "float_validate fmt t v =
     (case v of
        NaN \<Rightarrow> Some NotANumber
      | Inf _ \<Rightarrow> Some Infinite
      | _ \<Rightarrow> float_validate_core fmt t v)"

definition float_ValidateStringified :: "float_format \<Rightarrow> float_v \<Rightarrow> float64 \<Rightarrow> verr option" where
  "float_ValidateStringified fmt t v = float_validate_core fmt t v"

lemma float_validate_finite:
  "float_validate fmt t v = None \<longleftrightarrow> is_finite v \<and> float_validate_core fmt t v = None"
  by (cases v) (auto simp: float_validate_def is_finite_def)

lemma float_validate_core_None:
  assumes "is_finite v" and "FltMinSet t \<Longrightarrow> is_finite (FltMin t)" and "FltMaxSet t \<Longrightarrow> is_finite (FltMax t)"
  shows "float_validate_core fmt t v = None \<longleftrightarrow>
     at_least (FltMinSet t) (FltMinExclusive t) (float_val (FltMin t)) (float_val v) \<and>
     at_most (FltMaxSet t) (FltMaxExclusive t) (float_val (FltMax t)) (float_val v) \<and>
     float_multiple fmt t v = None \<and>
     match_pattern (FltPattern t) (FormatF fmt v) = None"
  using float64.not_below_min [of v "FltMinSet t" "FltMin t" "FltMinExclusive t", OF assms(1,2)]
    float64.not_above_max [of v "FltMaxSet t" "FltMax t" "FltMaxExclusive t", OF assms(1,3)]
  by (auto simp: float_validate_core_def split: option.splits)

section \<open>Decimals\<close>

text \<open>
  \<open>decimal.Decimal\<close> is a third-party type \<open>'d\<close>: its \<open>Cmp\<close> and the test
  \<open>v.Mod(m).IsZero()\<close> are the parameters of the validator.
\<close>

record 'd decimal_ops =
  Cmp :: "'d \<Rightarrow> 'd \<Rightarrow> int"
  ModIsZero :: "'d \<Rightarrow> 'd \<Rightarrow> bool"

record 'd decimal_v =
  DecMultipleOf :: 'd
  DecMultipleOfSet :: bool
  DecMin :: 'd
  DecMinSet :: bool
  DecMinExclusive :: bool
  DecMax :: 'd
  DecMaxSet :: bool
  DecMaxExclusive :: bool

definition decimal_SetMinimum :: "'d decimal_v \<Rightarrow> 'd \<Rightarrow> 'd decimal_v" where
  "decimal_SetMinimum t v = t\<lparr>DecMin := v, DecMinSet := True\<rparr>"

definition decimal_SetMaximum :: "'d decimal_v \<Rightarrow> 'd \<Rightarrow> 'd decimal_v" where
  "decimal_SetMaximum t v = t\<lparr>DecMax := v, DecMaxSet := True\<rparr>"

definition decimal_SetExclusiveMinimum :: "'d decimal_v \<Rightarrow> 'd \<Rightarrow> 'd decimal_v" where
  "decimal_SetExclusiveMinimum t v = decimal_SetMinimum (t\<lparr>DecMinExclusive := True\<rparr>) v"

definition decimal_SetExclusiveMaximum :: "'d decimal_v \<Rightarrow> 'd \<Rightarrow> 'd decimal_v" where
  "decimal_SetExclusiveMaximum t v = decimal_SetMaximum (t\<lparr>DecMaxExclusive := True\<rparr>) v"

definition decimal_SetMultipleOf :: "'d decimal_v \<Rightarrow> 'd \<Rightarrow> 'd decimal_v" where
  "decimal_SetMultipleOf t d = t\<lparr>DecMultipleOfSet := True, DecMultipleOf := d\<rparr>"

definition decimal_Set :: "'d decimal_v \<Rightarrow> bool" where
  "decimal_Set t \<longleftrightarrow> DecMinSet t \<or> DecMaxSet t \<or> DecMultipleOfSet t"

definition decimal_validate :: "'d decimal_ops \<Rightarrow> 'd decimal_v \<Rightarrow> 'd \<Rightarrow> verr option" where
  "decimal_validate ops t v =
     (if DecMinSet t \<and> (let cmp = Cmp ops v (DecMin t) in cmp < 0 \<or> DecMinExclusive t \<and> cmp = 0)
        then Some LessThan
      else if DecMaxSet t \<and> (let cmp = Cmp ops v (DecMax t) in cmp > 0 \<or> DecMaxExclusive t \<and> cmp = 0)
        then Some GreaterThan
      else if DecMultipleOfSet t \<and> \<not> ModIsZero ops v (DecMultipleOf t) then Some NotMultipleOf
      else None)"

text \<open>\<open>Cmp\<close> is documented to return the sign of the difference.\<close>

definition lawful_cmp :: "'d decimal_ops \<Rightarrow> ('d \<Rightarrow> rat) \<Rightarrow> bool" where
  "lawful_cmp ops val \<longleftrightarrow>
     (\<forall>a b. (Cmp ops a b < 0 \<longleftrightarrow> val a < val b) \<and> (Cmp ops a b = 0 \<longleftrightarrow> val a = val b))"

lemma decimal_validate_None:
  assumes "lawful_cmp ops val"
  shows "decimal_validate ops t v = None \<longleftrightarrow>
     at_least (DecMinSet t) (DecMinExclusive t) (val (DecMin t)) (val v) \<and>
     at_most (DecMaxSet t) (DecMaxExclusive t) (val (DecMax t)) (val v) \<and>
     (DecMultipleOfSet t \<longrightarrow> ModIsZero ops v (DecMultipleOf t))"
proof -
  have lt: "Cmp ops a b < 0 \<longleftrightarrow> val a < val b"
    and eq: "Cmp ops a b = 0 \<longleftrightarrow> val a = val b" for a b
    using assms by (auto simp: lawful_cmp_def)
  have gt: "Cmp ops a b > 0 \<longleftrightarrow> val b < val a" for a b
    using lt [of a b] eq [of a b] by linarith
  show ?thesis
    by (auto simp: decimal_validate_def at_least_def at_most_def lt eq gt Let_def)
qed

section \<open>Objects\<close>

record object_v =
  ObjMinProperties :: int
  ObjMinPropertiesSet :: bool
  ObjMaxProperties :: int
  ObjMaxPropertiesSet :: bool
  ObjMinLength :: int
  ObjMinLengthSet :: bool
  ObjMaxLength :: int
  ObjMaxLengthSet :: bool

definition object_SetMinProperties :: "object_v \<Rightarrow> int \<Rightarrow> object_v" where
  "object_SetMinProperties t v = t\<lparr>ObjMinPropertiesSet := True, ObjMinProperties := v\<rparr>"

definition object_SetMaxProperties :: "object_v \<Rightarrow> int \<Rightarrow> object_v" where
  "object_SetMaxProperties t v = t\<lparr>ObjMaxPropertiesSet := True, ObjMaxProperties := v\<rparr>"

definition object_SetMinLength :: "object_v \<Rightarrow> int \<Rightarrow> object_v" where
  "object_SetMinLength t v = t\<lparr>ObjMinLengthSet := True, ObjMinLength := v\<rparr>"

definition object_SetMaxLength :: "object_v \<Rightarrow> int \<Rightarrow> object_v" where
  "object_SetMaxLength t v = t\<lparr>ObjMaxLengthSet := True, ObjMaxLength := v\<rparr>"

definition object_Set :: "object_v \<Rightarrow> bool" where
  "object_Set t \<longleftrightarrow> ObjMaxPropertiesSet t \<or> ObjMinPropertiesSet t"

definition validate_properties :: "object_v \<Rightarrow> int \<Rightarrow> verr option" where
  "validate_properties t v =
     (if ObjMaxPropertiesSet t \<and> v > ObjMaxProperties t
        then Some (TooManyProperties v (ObjMaxProperties t))
      else if ObjMinPropertiesSet t \<and> v < ObjMinProperties t
        then Some (TooFewProperties v (ObjMinProperties t))
      else None)"

text \<open>
  The length pair is stored but never checked (the source marks it as a TODO): neither
  \<open>Set\<close> nor the validator looks at it.
\<close>

lemma object_length_ignored:
  "validate_properties (object_SetMinLength t a) v = validate_properties t v"
  "validate_properties (object_SetMaxLength t b) v = validate_properties t v"
  "object_Set (object_SetMinLength t a) = object_Set t"
  "object_Set (object_SetMaxLength t b) = object_Set t"
  by (simp_all add: validate_properties_def object_Set_def object_SetMinLength_def
      object_SetMaxLength_def)

section \<open>Strings\<close>

record string_v =
  StrMinLength :: int
  StrMinLengthSet :: bool
  StrMaxLength :: int
  StrMaxLengthSet :: bool
  StrEmail :: bool
  StrRegex :: "regexp option"
  StrHostname :: bool
  StrMinNumeric :: float64
  StrMinNumericSet :: bool
  StrMaxNumeric :: float64
  StrMaxNumericSet :: bool

definition string_SetMaxLength :: "string_v \<Rightarrow> int \<Rightarrow> string_v" where
  "string_SetMaxLength t v = t\<lparr>StrMaxLengthSet := True, StrMaxLength := v\<rparr>"

definition string_SetMinLength :: "string_v \<Rightarrow> int \<Rightarrow> string_v" where
  "string_SetMinLength t v = t\<lparr>StrMinLengthSet := True, StrMinLength := v\<rparr>"

definition string_SetMaximumNumeric :: "string_v \<Rightarrow> float64 \<Rightarrow> string_v" where
  "string_SetMaximumNumeric t v = t\<lparr>StrMaxNumericSet := True, StrMaxNumeric := v\<rparr>"

definition string_SetMinimumNumeric :: "string_v \<Rightarrow> float64 \<Rightarrow> string_v" where
  "string_SetMinimumNumeric t v = t\<lparr>StrMinNumericSet := True, StrMinNumeric := v\<rparr>"

definition string_Set :: "string_v \<Rightarrow> bool" where
  "string_Set t \<longleftrightarrow> StrMaxLengthSet t \<or> StrMinLengthSet t \<or> StrEmail t \<or> StrRegex t \<noteq> None
     \<or> StrHostname t \<or> StrMinNumericSet t \<or> StrMaxNumericSet t"

text \<open>
  \<open>unicode.IsPrint\<close> is a table of the Unicode standard and stays a parameter; \<open>unicode.IsSpace\<close>
  is \<^const>\<open>is_space\<close>. The character loop of the host name check:
\<close>

definition hostname_rune :: "rune \<Rightarrow> bool" where
  "hostname_rune r \<longleftrightarrow> 97 \<le> r \<and> r \<le> 122 \<or> 48 \<le> r \<and> r \<le> 57 \<or> r = 45 \<or> 65 \<le> r \<and> r \<le> 90"

fun check_hostname_runes :: "(rune \<Rightarrow> bool) \<Rightarrow> rune list \<Rightarrow> verr option" where
  "check_hostname_runes is_print [] = None"
| "check_hostname_runes is_print (r # rs) =
     (if r = 46 then check_hostname_runes is_print rs
      else if \<not> hostname_rune r then
        (if is_space r then Some (SpaceCharacter r)
         else if \<not> is_print r then Some (NotPrintable r)
         else Some (InvalidCharacter r))
      else check_hostname_runes is_print rs)"

definition check_hostname :: "(rune \<Rightarrow> bool) \<Rightarrow> string \<Rightarrow> verr option" where
  "check_hostname is_print v =
     (if v = [] then Some Blank
      else if 255 \<le> length (runes_of v) then Some TooLong
      else check_hostname_runes is_print (runes_of v))"

fun check_local_runes :: "(rune \<Rightarrow> bool) \<Rightarrow> rune list \<Rightarrow> verr option" where
  "check_local_runes is_print [] = None"
| "check_local_runes is_print (r # rs) =
     (if is_space r then Some (SpaceCharacter r)
      else if \<not> is_print r then Some (NotPrintable r)
      else if r = 64 then Some MultipleAt
      else check_local_runes is_print rs)"

definition quoted :: "string \<Rightarrow> bool" where
  "quoted local \<longleftrightarrow> 2 \<le> length local \<and> local ! 0 = CHR 0x22 \<and> local ! (length local - 1) = CHR 0x22"

definition check_email :: "(rune \<Rightarrow> bool) \<Rightarrow> string \<Rightarrow> verr option" where
  "check_email is_print v =
     (if v = [] then Some Blank
      else case last_index_byte v CHR ''@'' of
        None \<Rightarrow> Some NoAt
      | Some pos \<Rightarrow>
          if pos = 0 then Some AtAtStart
          else if pos = length v - 1 then Some AtAtEnd
          else if quoted (take pos v) then None
          else check_local_runes is_print (runes_of (take pos v)))"

text \<open>\<open>strconv.ParseFloat\<close> is the parameter \<open>parse_float\<close>.\<close>

definition validate_numeric :: "(string \<Rightarrow> string + float64) \<Rightarrow> string_v \<Rightarrow> string \<Rightarrow> verr option" where
  "validate_numeric parse_float t v = (case parse_float v of
     Inl e \<Rightarrow> Some (ParseAsNumber e)
   | Inr x \<Rightarrow>
       if x = NaN then Some NotANumber
       else if x = Inf True \<or> x = Inf False then Some Infinite
       else if StrMinNumericSet t \<and> float_less x (StrMinNumeric t) then Some LessThan
       else if StrMaxNumericSet t \<and> float_less (StrMaxNumeric t) x then Some GreaterThan
       else None)"

definition string_validate ::
  "(rune \<Rightarrow> bool) \<Rightarrow> (string \<Rightarrow> string + float64) \<Rightarrow> string_v \<Rightarrow> string \<Rightarrow> verr option" where
  "string_validate is_print parse_float t v =
     (case validate_length
          \<lparr>ArrMinLength = StrMinLength t, ArrMinLengthSet = StrMinLengthSet t,
           ArrMaxLength = StrMaxLength t, ArrMaxLengthSet = StrMaxLengthSet t,
           ArrUniqueItems = False\<rparr> (int (length (runes_of v))) of
        Some e \<Rightarrow> Some e
      | None \<Rightarrow>
     (case (if StrEmail t then check_email is_print v else None) of
        Some e \<Rightarrow> Some e
      | None \<Rightarrow>
     (case (if StrHostname t then check_hostname is_print v else None) of
        Some e \<Rightarrow> Some e
      | None \<Rightarrow>
     (case match_pattern (StrRegex t) v of
        Some e \<Rightarrow> Some e
      | None \<Rightarrow>
         if StrMinNumericSet t \<or> StrMaxNumericSet t then validate_numeric parse_float t v else None))))"

lemma check_hostname_runes_None:
  "check_hostname_runes is_print rs = None \<longleftrightarrow> (\<forall>r \<in> set rs. r = 46 \<or> hostname_rune r)"
  by (induction rs) auto

lemma check_local_runes_None:
  "check_local_runes is_print rs = None \<longleftrightarrow> (\<forall>r \<in> set rs. \<not> is_space r \<and> is_print r \<and> r \<noteq> 64)"
  by (induction rs) auto

text \<open>
  An address is accepted exactly when it splits at its last \<open>@\<close> into two non-empty parts and the
  local part is quoted or free of spaces, unprintable characters and further \<open>@\<close>.
\<close>

definition email_spec :: "(rune \<Rightarrow> bool) \<Rightarrow> string \<Rightarrow> string \<Rightarrow> bool" where
  "email_spec is_print local domain \<longleftrightarrow>
     local \<noteq> [] \<and> domain \<noteq> [] \<and> CHR ''@'' \<notin> set domain \<and>
     (quoted local \<or> (\<forall>r \<in> set (runes_of local). \<not> is_space r \<and> is_print r \<and> r \<noteq> 64))"

lemma check_email_split:
  assumes "CHR ''@'' \<notin> set domain"
  shows "check_email is_print (local @ CHR ''@'' # domain) = None \<longleftrightarrow>
     email_spec is_print local domain"
  using assms
  by (auto simp: check_email_def last_index_byte_append check_local_runes_None email_spec_def)

lemma check_email_None:
  "check_email is_print v = None \<longleftrightarrow>
     (\<exists>local domain. v = local @ CHR ''@'' # domain \<and> email_spec is_print local domain)"
proof (cases "last_index_byte v CHR ''@''")
  case None
  then have "CHR ''@'' \<notin> set v" by simp
  moreover have "check_email is_print v \<noteq> None"
    using None by (simp add: check_email_def del: last_index_byte_None)
  ultimately show ?thesis by auto
next
  case (Some i)
  then have i: "i < length v" "v ! i = CHR ''@''" "CHR ''@'' \<notin> set (drop (Suc i) v)"
    using last_index_byte_Some by auto
  then have v: "v = take i v @ CHR ''@'' # drop (Suc i) v"
    using id_take_nth_drop by metis
  have "check_email is_print v = None \<longleftrightarrow> email_spec is_print (take i v) (drop (Suc i) v)"
    using check_email_split [OF i(3)] v by metis
  moreover have "l = take i v \<and> d = drop (Suc i) v"
    if "v = l @ CHR ''@'' # d" "CHR ''@'' \<notin> set d" for l d
    using that Some by (auto simp: last_index_byte_append)
  ultimately show ?thesis
    using v unfolding email_spec_def by metis
qed

section \<open>Custom validators\<close>

text \<open>
  A custom validator returns an error that either is a \<open>*ValidationError\<close> already or carries its
  own message. The registry is a mutable map; \<open>Register\<close> returns the new map or an error.
\<close>

record ('v, 'p) validation_error =
  ValidatorName :: string
  ErrValue :: 'v
  ErrParams :: 'p
  ErrMessage :: string

datatype ('v, 'p) custom_error =
    IsValidationError "('v, 'p) validation_error"
  | OtherError string

type_synonym ('v, 'p) ogen_validator = "'v \<Rightarrow> 'p \<Rightarrow> ('v, 'p) custom_error option"
type_synonym ('v, 'p) registry = "string \<rightharpoonup> ('v, 'p) ogen_validator"

datatype register_error = EmptyValidatorName | NilValidator

definition registry_put ::
  "string \<Rightarrow> ('v, 'p) ogen_validator \<Rightarrow> ('v, 'p) registry \<Rightarrow> ('v, 'p) registry" where
  "registry_put name f r = r(name \<mapsto> f)"

definition registry_get :: "('v, 'p) registry \<Rightarrow> string \<Rightarrow> ('v, 'p) ogen_validator option" where
  "registry_get r name = r name"

definition registry_register ::
  "('v, 'p) registry \<Rightarrow> string \<Rightarrow> ('v, 'p) ogen_validator option \<Rightarrow> register_error + ('v, 'p) registry" where
  "registry_register r name validator =
     (if name = [] then Inl EmptyValidatorName
      else case validator of
        None \<Rightarrow> Inl NilValidator
      | Some f \<Rightarrow> Inr (registry_put name f r))"

definition not_found_message :: "string \<Rightarrow> string" where
  "not_found_message name = ''validator '' @ [CHR 0x27] @ name @ [CHR 0x27] @ '' not found''"

definition registry_validate ::
  "('v, 'p) registry \<Rightarrow> string \<Rightarrow> 'v \<Rightarrow> 'p \<Rightarrow> ('v, 'p) validation_error option" where
  "registry_validate r name value params = (case registry_get r name of
     None \<Rightarrow> Some \<lparr>ValidatorName = name, ErrValue = value, ErrParams = params,
                  ErrMessage = not_found_message name\<rparr>
   | Some f \<Rightarrow> (case f value params of
       None \<Rightarrow> None
     | Some (IsValidationError e) \<Rightarrow> Some e
     | Some (OtherError msg) \<Rightarrow> Some \<lparr>ValidatorName = name, ErrValue = value,
                  ErrParams = params, ErrMessage = msg\<rparr>))"

interpretation registry: keyed_store "\<lambda>name :: string. name"
  "registry_put :: string \<Rightarrow> ('v, 'p) ogen_validator \<Rightarrow> _" registry_get
  by unfold_locales (auto simp: registry_put_def registry_get_def)

lemma registry_register_Inr:
  "registry_register r name v = Inr r' \<longleftrightarrow> name \<noteq> [] \<and> (\<exists>f. v = Some f \<and> r' = registry_put name f r)"
  by (auto simp: registry_register_def split: option.splits)

section \<open>Rendering field errors\<close>

text \<open>\<open>validate.Error\<close> collects the failed fields of a struct; \<open>Error()\<close> prints them in order.\<close>

record field_error =
  FieldName :: string
  FieldMessage :: string

fun render_fields :: "nat \<Rightarrow> field_error list \<Rightarrow> string" where
  "render_fields i [] = []"
| "render_fields i (f # fs) =
     (if i \<noteq> 0 then '','' else []) @ '' '' @ FieldName f @ '' ('' @ FieldMessage f @ '')''
       @ render_fields (Suc i) fs"

definition error_string :: "field_error list \<Rightarrow> string" where
  "error_string fs = ''invalid:'' @ render_fields 0 fs"

section \<open>Properties\<close>

text \<open>
  C18: On a value that is not negative, and on every value if there is no pattern, an integer validator checks in
  this order, and answers with the error of the first check that fails, that the value lies within the set bounds
  (strictly where exclusive), is a multiple of \<open>MultipleOf\<close> as an integer (a zero \<open>MultipleOf\<close> panics), and that the
  pattern matches its decimal text. The multiple test is right for every value, the smallest \<open>int64\<close>
  included, although \<open>v *= -1\<close> overflows there. A negative value with a pattern is left out: its pattern sees
  the text without the sign, see \<open>int_pattern_ignores_sign\<close>.
\<close>
theorem int_validate_accepts:
  assumes "IntPattern t = None \<or> 0 \<le> sint v"
  shows "int_validate t v =
     (if IntMinSet t \<and> (if IntMinExclusive t then sint v \<le> sint (IntMin t) else sint v < sint (IntMin t)) then Some LessThan
      else if IntMaxSet t \<and> (if IntMaxExclusive t then sint (IntMax t) \<le> sint v else sint (IntMax t) < sint v) then Some GreaterThan
      else if IntMultipleOfSet t \<and> IntMultipleOf t = 0 then Some DivideByZeroPanic
      else if IntMultipleOfSet t \<and> \<not> uint (IntMultipleOf t) dvd sint v then Some NotMultipleOf
      else case IntPattern t of None \<Rightarrow> None
      | Some r \<Rightarrow> (case MatchString r (itoa (sint v)) of
          Inl e \<Rightarrow> Some (ExecuteRegex e)
        | Inr True \<Rightarrow> None
        | Inr False \<Rightarrow> Some (NoRegexMatch (PatternString r))))"
proof -
  let ?w = "if sint v < 0 then v * (- 1) else v"
  have lo: "below_min int64_less (=) (IntMinSet t) (IntMinExclusive t) (IntMin t) v
      \<longleftrightarrow> IntMinSet t \<and> (if IntMinExclusive t then sint v \<le> sint (IntMin t) else sint v < sint (IntMin t))"
    using int64.not_below_min [where v = v and isset = "IntMinSet t" and mn = "IntMin t" and excl = "IntMinExclusive t"] by (auto simp: at_least_def split: if_splits)
  have hi: "above_max int64_less (=) (IntMaxSet t) (IntMaxExclusive t) (IntMax t) v
      \<longleftrightarrow> IntMaxSet t \<and> (if IntMaxExclusive t then sint (IntMax t) \<le> sint v else sint (IntMax t) < sint v)"
    using int64.not_above_max [where v = v and isset = "IntMaxSet t" and mx = "IntMax t" and excl = "IntMaxExclusive t"] by (auto simp: at_most_def split: if_splits)
  have pat: "match_pattern (IntPattern t) (itoa (sint ?w)) = (case IntPattern t of None \<Rightarrow> None
      | Some r \<Rightarrow> (case MatchString r (itoa (sint v)) of Inl e \<Rightarrow> Some (ExecuteRegex e)
        | Inr True \<Rightarrow> None | Inr False \<Rightarrow> Some (NoRegexMatch (PatternString r))))"
    using assms by (auto simp: match_pattern_def split: option.splits sum.splits bool.splits)
  show ?thesis
  proof (cases "IntMultipleOf t = 0")
    case True
    show ?thesis unfolding int_validate_def Let_def lo hi pat True
      by (cases "IntMultipleOfSet t") (simp_all only: simp_thms if_True if_False cong: if_cong)
  next
    case False
    show ?thesis unfolding int_validate_def Let_def lo hi pat int64_multiple_iff [OF False] ..
  qed
qed

theorem int_validate_accepts_witness:
  "let t = int_SetMultipleOf (int_SetExclusiveMinimum
         \<lparr>IntMultipleOf = 0, IntMultipleOfSet = False, IntMin = 0, IntMinSet = False,
          IntMinExclusive = False, IntMax = 0, IntMaxSet = False, IntMaxExclusive = False,
          IntPattern = None\<rparr> (- 10)) 4;
       u = int_SetPattern t (Some \<lparr>MatchString = (\<lambda>s. Inr (s = ''8'')), PatternString = ''^8$''\<rparr>)
   in int_validate t (- 8) = None \<and> int_validate t (- 6) = Some NotMultipleOf \<and> int_validate t (- 12) = Some LessThan
     \<and> int_validate u 8 = None \<and> int_validate u 4 = Some (NoRegexMatch ''^8$'')"
proof -
  define t where "t = int_SetMultipleOf (int_SetExclusiveMinimum
         \<lparr>IntMultipleOf = 0, IntMultipleOfSet = False, IntMin = 0, IntMinSet = False,
          IntMinExclusive = False, IntMax = 0, IntMaxSet = False, IntMaxExclusive = False,
          IntPattern = None\<rparr> (- 10)) 4"
  define u where "u = int_SetPattern t (Some \<lparr>MatchString = (\<lambda>s. Inr (s = ''8'')), PatternString = ''^8$''\<rparr>)"
  note defs = t_def u_def int_SetMultipleOf_def int_SetExclusiveMinimum_def int_SetMinimum_def int_SetPattern_def
  have digits: "itoa 8 = ''8''" "itoa 4 = ''4''" by code_simp+
  have "int_validate t (- 8) = None" "int_validate t (- 6) = Some NotMultipleOf" "int_validate t (- 12) = Some LessThan"
    by (subst int_validate_accepts; simp add: defs)+
  moreover have "int_validate u 8 = None" "int_validate u 4 = Some (NoRegexMatch ''^8$'')"
    by (subst int_validate_accepts; simp add: defs digits)+
  ultimately show ?thesis unfolding Let_def t_def [symmetric] u_def [symmetric] by simp
qed

text \<open>
  The pattern of an integer validator never sees a minus sign: two values that differ only in
  sign get the same verdict from a validator that has only a pattern, so a pattern that asks for a
  leading minus rejects the negative numbers it describes.
\<close>
lemma int_pattern_ignores_sign:
  assumes "sint v \<noteq> - (2 ^ 63)" and "\<not> IntMinSet t" and "\<not> IntMaxSet t" and "\<not> IntMultipleOfSet t"
  shows "int_validate t v = int_validate t (- v) \<and>
    int_validate t v = match_pattern (IntPattern t) (utoa (nat \<bar>sint v\<bar>))"
proof -
  have v: "int_validate t w = match_pattern (IntPattern t) (int_pattern_text w)" for w
    using assms(2-4)
    by (simp add: int_validate_def below_min_def above_max_def int_pattern_text_def Let_def)
  have s: "sint (- v) = - sint v"
  proof -
    have "- (2 ^ 63) \<le> - sint v" and "- sint v < 2 ^ 63"
      using assms(1) sint_bounds64 [of v] by auto
    then show ?thesis by (simp add: sint_word_minus signed_take_bit_int_eq_self)
  qed
  then have "sint (- v) \<noteq> - (2 ^ 63)" using sint_bounds64(2) [of v] by auto
  then show ?thesis
    using v int_pattern_text_nonneg [OF assms(1)] int_pattern_text_nonneg [of "- v"] s by simp
qed

theorem int_pattern_ignores_sign_witness:
  "let t = \<lparr>IntMultipleOf = 0, IntMultipleOfSet = False, IntMin = 0, IntMinSet = False,
     IntMinExclusive = False, IntMax = 0, IntMaxSet = False, IntMaxExclusive = False,
     IntPattern = Some \<lparr>MatchString = (\<lambda>s. Inr (hd s = CHR ''-'')), PatternString = ''^-''\<rparr>\<rparr>
   in int_validate t (- 5) = int_validate t (- (- 5)) \<and>
      int_validate t (- 5) = Some (NoRegexMatch ''^-'')"
proof -
  define t where "t = \<lparr>IntMultipleOf = 0, IntMultipleOfSet = False, IntMin = 0, IntMinSet = False,
     IntMinExclusive = False, IntMax = 0, IntMaxSet = False, IntMaxExclusive = False,
     IntPattern = Some \<lparr>MatchString = (\<lambda>s. Inr (hd s = CHR ''-'')), PatternString = ''^-''\<rparr>\<rparr>"
  have "int_validate t (- 5) = int_validate t (- (- 5)) \<and>
      int_validate t (- 5) = match_pattern (IntPattern t) (utoa (nat \<bar>sint (- 5 :: 64 word)\<bar>))"
    by (rule int_pattern_ignores_sign) (simp_all add: t_def)
  moreover have "match_pattern (IntPattern t) (utoa (nat \<bar>sint (- 5 :: 64 word)\<bar>))
      = Some (NoRegexMatch ''^-'')"
    using hd_utoa_digit [of 5] by (auto simp: t_def match_pattern_def)
  ultimately show ?thesis unfolding Let_def t_def [symmetric] by metis
qed

text \<open>
  C33: The quadratic uniqueness check, for the equality \<open>==\<close> of any type of items, returns no error exactly on
  lists where no item equals a later one, and otherwise reports the least index whose item equals a later one. On floats
  this counts 0 and -0 as duplicates and never NaN.
\<close>
theorem unique_items_correct:
  "unique_items eq arr =
     (if \<exists>i j. i < j \<and> j < length arr \<and> eq (arr ! i) (arr ! j)
      then Some (DuplicateElement (LEAST i. \<exists>j. i < j \<and> j < length arr \<and> eq (arr ! i) (arr ! j))) else None)"
proof (cases "unique_items_from eq 0 arr")
  case None
  then have "\<not> repeats_at eq arr i" for i using unique_items_from_spec [where eq = eq and n = 0 and arr = arr] by simp
  then have "\<not> (\<exists>i j. i < j \<and> j < length arr \<and> eq (arr ! i) (arr ! j))" unfolding repeats_at_def by blast
  then show ?thesis using None by (simp add: unique_items_def)
next
  case (Some e)
  then obtain i where i: "e = DuplicateElement i" "repeats_at eq arr i" "\<forall>j < i. \<not> repeats_at eq arr j"
    using unique_items_from_spec [where eq = eq and n = 0 and arr = arr] by auto
  have "(LEAST j. repeats_at eq arr j) = i" using i by (intro Least_equality) (auto simp: not_less [symmetric])
  then have least: "(LEAST i. \<exists>j. i < j \<and> j < length arr \<and> eq (arr ! i) (arr ! j)) = i" by (simp only: repeats_at_def)
  obtain j where j: "i < j" "j < length arr" "eq (arr ! i) (arr ! j)" using i(2) unfolding repeats_at_def by blast
  then have "unique_items eq arr = Some (DuplicateElement i)" using Some i(1) by (simp add: unique_items_def)
  moreover have "\<exists>i j. i < j \<and> j < length arr \<and> eq (arr ! i) (arr ! j)" using j by blast
  ultimately show ?thesis unfolding least by (simp only: if_True)
qed

text \<open>Two zeros of different sign are duplicates, two NaN are not.\<close>

lemma float_duplicates: "unique_items float_eq [Fin 0, NegZero] = Some (DuplicateElement 0)" "unique_items float_eq [NaN, NaN] = None"
  by (simp_all add: unique_items_def eval_nat_numeral)

text \<open>
  The float validator accepts a value exactly when it is finite, lies within the set (finite)
  bounds and passes the multiple and pattern checks; not-a-number and the infinities are rejected
  by \<open>Validate\<close> whatever the bounds.
\<close>
lemma float_validate_accepts:
  assumes "FltMinSet t \<Longrightarrow> is_finite (FltMin t)" and "FltMaxSet t \<Longrightarrow> is_finite (FltMax t)"
  shows "float_validate fmt t v = None \<longleftrightarrow>
     is_finite v \<and>
     at_least (FltMinSet t) (FltMinExclusive t) (float_val (FltMin t)) (float_val v) \<and>
     at_most (FltMaxSet t) (FltMaxExclusive t) (float_val (FltMax t)) (float_val v) \<and>
     float_multiple fmt t v = None \<and>
     match_pattern (FltPattern t) (FormatF fmt v) = None"
  using float_validate_finite float_validate_core_None [OF _ assms] by metis

theorem float_validate_accepts_witness:
  "let t = float_SetExclusiveMaximum (float_SetMinimum
         \<lparr>FltMultipleOf = 0, FltMultipleOfSet = False, FltMin = NaN, FltMinSet = False,
          FltMinExclusive = False, FltMax = NaN, FltMaxSet = False, FltMaxExclusive = False,
          FltPattern = None\<rparr> (Fin 1)) (Fin 2);
       fmt = \<lparr>FormatG = (\<lambda>_. None), FormatF = (\<lambda>_. [])\<rparr>
   in float_validate fmt t (Fin 1) = None \<and> float_validate fmt t (Fin 2) \<noteq> None"
proof -
  define t where "t = float_SetExclusiveMaximum (float_SetMinimum
         \<lparr>FltMultipleOf = 0, FltMultipleOfSet = False, FltMin = NaN, FltMinSet = False,
          FltMinExclusive = False, FltMax = NaN, FltMaxSet = False, FltMaxExclusive = False,
          FltPattern = None\<rparr> (Fin 1)) (Fin 2)"
  define fmt where "fmt = \<lparr>FormatG = (\<lambda>_ :: float64. None :: rat option), FormatF = (\<lambda>_ :: float64. [] :: string)\<rparr>"
  have fin: "is_finite (FltMin t)" "is_finite (FltMax t)"
    by (simp_all add: t_def float_SetExclusiveMaximum_def float_SetMaximum_def
        float_SetMinimum_def is_finite_def)
  show ?thesis
    unfolding Let_def t_def [symmetric] fmt_def [symmetric] float_validate_accepts [OF fin]
    by (simp add: t_def float_SetExclusiveMaximum_def float_SetMaximum_def float_SetMinimum_def
        is_finite_def at_least_def at_most_def float_multiple_def match_pattern_def)
qed

text \<open>
  C32: The string validator accepts a string exactly when its length in code points is within the
  set bounds, it is an e-mail address if one is asked for (it splits at its last \<open>@\<close> into
  non-empty parts, the local one quoted or without spaces, unprintable characters and \<open>@\<close>), a
  host name if asked for (non-empty, fewer than 255 code points, letters, digits, hyphens and dots
  only), the pattern matches it without an error, and, if a numeric bound is set, it is the text of a finite number that is
  not less than the minimum and not greater than the maximum, if these are set.
\<close>
theorem string_validate_accepts:
  "string_validate is_print parse_float t v = None \<longleftrightarrow>
     at_least (StrMinLengthSet t) False (StrMinLength t) (int (length (runes_of v))) \<and>
     at_most (StrMaxLengthSet t) False (StrMaxLength t) (int (length (runes_of v))) \<and>
     (StrEmail t \<longrightarrow>
        (\<exists>local domain. v = local @ CHR ''@'' # domain \<and> email_spec is_print local domain)) \<and>
     (StrHostname t \<longrightarrow>
        v \<noteq> [] \<and> length (runes_of v) < 255 \<and> (\<forall>r \<in> set (runes_of v). r = 46 \<or> hostname_rune r)) \<and>
     (\<forall>r. StrRegex t = Some r \<longrightarrow> MatchString r v = Inr True) \<and>
     (StrMinNumericSet t \<or> StrMaxNumericSet t \<longrightarrow>
        (\<exists>x. parse_float v = Inr x \<and> x \<noteq> NaN \<and> (\<forall>neg. x \<noteq> Inf neg) \<and>
           (StrMinNumericSet t \<longrightarrow> \<not> float_less x (StrMinNumeric t)) \<and>
           (StrMaxNumericSet t \<longrightarrow> \<not> float_less (StrMaxNumeric t) x)))"
proof -
  have num: "validate_numeric parse_float t v = None \<longleftrightarrow>
        (\<exists>x. parse_float v = Inr x \<and> x \<noteq> NaN \<and> (\<forall>neg. x \<noteq> Inf neg) \<and>
           (StrMinNumericSet t \<longrightarrow> \<not> float_less x (StrMinNumeric t)) \<and>
           (StrMaxNumericSet t \<longrightarrow> \<not> float_less (StrMaxNumeric t) x))"
    by (cases "parse_float v") (auto simp: validate_numeric_def all_bool_eq)
  have len: "validate_length
          \<lparr>ArrMinLength = StrMinLength t, ArrMinLengthSet = StrMinLengthSet t,
           ArrMaxLength = StrMaxLength t, ArrMaxLengthSet = StrMaxLengthSet t,
           ArrUniqueItems = False\<rparr> (int (length (runes_of v))) = None \<longleftrightarrow>
     at_least (StrMinLengthSet t) False (StrMinLength t) (int (length (runes_of v))) \<and>
     at_most (StrMaxLengthSet t) False (StrMaxLength t) (int (length (runes_of v)))"
    by (simp add: validate_length_None)
  have host: "check_hostname is_print v = None \<longleftrightarrow>
     v \<noteq> [] \<and> length (runes_of v) < 255 \<and> (\<forall>r \<in> set (runes_of v). r = 46 \<or> hostname_rune r)"
    by (auto simp: check_hostname_def check_hostname_runes_None not_le)
  have chain: "(case a of Some e \<Rightarrow> Some e | None \<Rightarrow> b) = None \<longleftrightarrow> a = None \<and> b = None"
    for a b :: "verr option"
    by (cases a) simp_all
  show ?thesis
    unfolding string_validate_def chain len check_email_None [symmetric] host [symmetric] num [symmetric]
      match_pattern_None [symmetric]
    by auto
qed

theorem string_validate_accepts_witness:
  "let t = string_SetMaxLength
         \<lparr>StrMinLength = 0, StrMinLengthSet = False, StrMaxLength = 0, StrMaxLengthSet = False,
          StrEmail = True, StrRegex = None, StrHostname = False, StrMinNumeric = NaN,
          StrMinNumericSet = False, StrMaxNumeric = NaN, StrMaxNumericSet = False\<rparr> 5;
       u = t\<lparr>StrEmail := False, StrMinNumeric := Fin 2, StrMinNumericSet := True\<rparr>
   in string_validate (\<lambda>_. True) (\<lambda>_. Inl []) t ''a@b.c'' = None
     \<and> string_validate (\<lambda>_. True) (\<lambda>_. Inr (Fin 3)) u ''3'' = None \<and> string_validate (\<lambda>_. True) (\<lambda>_. Inr (Fin 1)) u ''1'' \<noteq> None"
proof -
  define t where "t = string_SetMaxLength
         \<lparr>StrMinLength = 0, StrMinLengthSet = False, StrMaxLength = 0, StrMaxLengthSet = False,
          StrEmail = True, StrRegex = None, StrHostname = False, StrMinNumeric = NaN,
          StrMinNumericSet = False, StrMaxNumeric = NaN, StrMaxNumericSet = False\<rparr> 5"
  have "''a@b.c'' = ''a'' @ CHR ''@'' # ''b.c'' \<and> email_spec (\<lambda>_. True) ''a'' ''b.c''"
    by (simp add: email_spec_def is_space_def)
  then have "\<exists>local domain. ''a@b.c'' = local @ CHR ''@'' # domain \<and> email_spec (\<lambda>_. True) local domain"
    by blast
  then show ?thesis
    unfolding Let_def t_def [symmetric] string_validate_accepts
    by (simp add: t_def string_SetMaxLength_def at_least_def at_most_def)
qed

text \<open>
  After a successful \<open>Register\<close>, \<open>Validate\<close> under that name runs the new validator and
  wraps a plain error into a \<open>ValidationError\<close> that carries the name, the value and the
  parameters; every other name behaves as before, and a name nobody registered yields the
  not-found error, never a success.
\<close>
lemma registry_validate_correct:
  assumes "registry_register r name (Some f) = Inr r'"
  shows "registry_validate r' name value params = (case f value params of
           None \<Rightarrow> None
         | Some (IsValidationError e) \<Rightarrow> Some e
         | Some (OtherError msg) \<Rightarrow> Some \<lparr>ValidatorName = name, ErrValue = value,
             ErrParams = params, ErrMessage = msg\<rparr>) \<and>
    (\<forall>other. other \<noteq> name \<longrightarrow>
       registry_validate r' other value params = registry_validate r other value params) \<and>
    (\<forall>unknown. registry_get r' unknown = None \<longrightarrow>
       registry_validate r' unknown value params = Some \<lparr>ValidatorName = unknown,
         ErrValue = value, ErrParams = params, ErrMessage = not_found_message unknown\<rparr>)"
proof (intro conjI allI impI)
  have r': "r' = registry_put name f r" using assms by (auto simp: registry_register_Inr)
  show "registry_validate r' name value params = (case f value params of
           None \<Rightarrow> None
         | Some (IsValidationError e) \<Rightarrow> Some e
         | Some (OtherError msg) \<Rightarrow> Some \<lparr>ValidatorName = name, ErrValue = value,
             ErrParams = params, ErrMessage = msg\<rparr>)"
    by (simp add: registry_validate_def r' registry.get_put_same)
  show "registry_validate r' other value params = registry_validate r other value params"
    if "other \<noteq> name" for other
    using that by (simp add: registry_validate_def r' registry.get_put_other)
  show "registry_validate r' unknown value params = Some \<lparr>ValidatorName = unknown,
         ErrValue = value, ErrParams = params, ErrMessage = not_found_message unknown\<rparr>"
    if "registry_get r' unknown = None" for unknown
    using that by (simp add: registry_validate_def)
qed

theorem registry_validate_correct_witness:
  "registry_validate (registry_put ''even'' (\<lambda>v _. if even v then None else Some (OtherError ''odd''))
       (\<lambda>_. None)) ''even'' (3 :: int) () =
     Some \<lparr>ValidatorName = ''even'', ErrValue = 3, ErrParams = (), ErrMessage = ''odd''\<rparr>"
proof -
  let ?f = "\<lambda>(v :: int) (_ :: unit). if even v then None else Some (OtherError ''odd'')"
  have "registry_register (\<lambda>_. None) ''even'' (Some ?f) = Inr (registry_put ''even'' ?f (\<lambda>_. None))"
    by (simp add: registry_register_def)
  from registry_validate_correct [OF this, of 3 "()"] show ?thesis by simp
qed

end
