(* ===== verification/Schemas.thy ===== *)
theory Schemas
  imports Naming Validate
begin

text \<open>
  JSON schemas before they are lowered: internal/lowering/schema_transform.go and the flattening of
  \<open>allOf\<close> in schema_gen_sum.go. The schema type belongs to the library that parses documents; what
  the lowering reads of it is a record. Schemas refer to each other by pointer, cycles included, and
  are shared and written to, so they live in a store; a pointer is an address or nil. Positions in the
  document and descriptions are left out. The fuel bounds the depth of recursion, which Go does not.
\<close>

section \<open>Schemas\<close>

text \<open>A decoded JSON value; the members of an object are in the order of their keys.\<close>

datatype jval = VNull | VBool bool | VInt int | VFloat float64 | VString string
  | VArray "jval list" | VObject "(string \<times> jval) list"

type_synonym sref = nat

text \<open>A reference is a location and a pointer; both empty is no reference.\<close>

type_synonym ref_key = "string \<times> string"

record jproperty =
  pr_name :: string
  pr_go_name :: "string option"
  pr_schema :: "sref option"
  pr_required :: bool

record discriminator =
  di_property :: string
  di_mapping :: "(string \<times> sref) list"

record jschema =
  js_ref :: ref_key
  js_type :: string
  js_format :: string
  js_nullable :: bool
  js_deprecated :: bool
  js_enum :: "jval list"
  js_default :: jval
  js_default_set :: bool
  js_const :: jval
  js_const_set :: bool
  js_properties :: "jproperty list"
  js_required :: "string list"
  js_additional :: "bool option"
  js_pattern_props :: "(string \<times> sref option) list"
  js_min_props :: "64 word option"
  js_max_props :: "64 word option"
  js_item :: "sref option"
  js_items :: "sref option list"
  js_min_items :: "64 word option"
  js_max_items :: "64 word option"
  js_unique :: bool
  js_one_of :: "sref option list"
  js_any_of :: "sref option list"
  js_all_of :: "sref option list"
  js_discriminator :: "discriminator option"
  js_maximum :: string
  js_minimum :: string
  js_multiple_of :: string
  js_exclusive_max :: bool
  js_exclusive_min :: bool
  js_min_length :: "64 word option"
  js_max_length :: "64 word option"
  js_pattern :: string
  js_xml :: "string option"
  js_extra_tags :: "string list"
  js_ogen_validate :: "string list"
  js_time_format :: string
  js_ogen_name :: string
  js_ogen_type :: string

definition no_schema :: jschema where
  "no_schema = \<lparr>js_ref = ([], []), js_type = [], js_format = [], js_nullable = False, js_deprecated = False,
     js_enum = [], js_default = VNull, js_default_set = False, js_const = VNull, js_const_set = False,
     js_properties = [], js_required = [], js_additional = None, js_pattern_props = [],
     js_min_props = None, js_max_props = None, js_item = None, js_items = [], js_min_items = None,
     js_max_items = None, js_unique = False, js_one_of = [], js_any_of = [], js_all_of = [],
     js_discriminator = None, js_maximum = [], js_minimum = [], js_multiple_of = [],
     js_exclusive_max = False, js_exclusive_min = False, js_min_length = None, js_max_length = None,
     js_pattern = [], js_xml = None, js_extra_tags = [], js_ogen_validate = [], js_time_format = [],
     js_ogen_name = [], js_ogen_type = []\<rparr>"

type_synonym sstore = "jschema list"

datatype serr =
    SNotImplemented string
  | STypeMismatch string string
  | SFormatMismatch string string
  | SPatternMismatch string string
  | SMultipleOfMismatch string string
  | SDifferentDefaults
  | SDifferentConsts
  | SItemsLength nat nat
  | SMixedItems
  | SInfiniteReference ref_key
  | SNilSchema
  | SIndexRange
  | SUnreachable
  | SOutOfFuel

text \<open>The library's numbers are texts, compared and read as floats.\<close>

record numbers =
  nl_equal :: "string \<Rightarrow> string \<Rightarrow> bool"
  nl_float64 :: "string \<Rightarrow> float64 option"

definition deref :: "sref option \<Rightarrow> sstore \<Rightarrow> serr + sref" where
  "deref p st = (case p of None \<Rightarrow> Inl SNilSchema | Some a \<Rightarrow> Inr a)"

definition shallowSchemaCopy :: "sref option \<Rightarrow> sstore \<Rightarrow> sref option \<times> sstore" where
  "shallowSchemaCopy p st = (case p of None \<Rightarrow> (None, st) | Some a \<Rightarrow> (Some (length st), st @ [st ! a]))"

section \<open>Unions that are no unions\<close>

definition transformSingleOneOf :: "sref option \<Rightarrow> sstore \<Rightarrow> serr + sref option" where
  "transformSingleOneOf p st =
     bind_res (deref p st) (\<lambda>a.
       if js_discriminator (st ! a) = None \<and> length (js_one_of (st ! a)) = 1
       then Inr (js_one_of (st ! a) ! 0) else Inr p)"

text \<open>The last null schema and the last other schema of the two.\<close>

fun null_and_other :: "sref option list \<Rightarrow> sstore \<Rightarrow> sref option \<times> sref option \<Rightarrow> sref option \<times> sref option" where
  "null_and_other [] st acc = acc"
| "null_and_other (p # ps) st (nul, other) =
     (case p of
        None \<Rightarrow> null_and_other ps st (nul, other)
      | Some a \<Rightarrow>
          if js_type (st ! a) = ''null'' then null_and_other ps st (Some a, other)
          else null_and_other ps st (nul, Some a))"

definition transformNullableUnionType :: "sref option \<Rightarrow> sstore \<Rightarrow> sref option \<times> sstore" where
  "transformNullableUnionType p st = (case p of None \<Rightarrow> (None, st) | Some a \<Rightarrow>
     let s = st ! a;
         schemas = (if length (js_any_of s) = 2 then Some (js_any_of s)
                    else if length (js_one_of s) = 2 then Some (js_one_of s) else None) in
     case schemas of None \<Rightarrow> (p, st) | Some ss \<Rightarrow>
       (case null_and_other ss st (None, None) of
          (Some _, Some b) \<Rightarrow> (Some (length st), st @ [(st ! b)\<lparr>js_nullable := True\<rparr>])
        | _ \<Rightarrow> (p, st)))"

definition transformSchema :: "sref option \<Rightarrow> sstore \<Rightarrow> serr + sref option \<times> sstore" where
  "transformSchema p st =
     (if p = None then Inr (None, st)
      else bind_res (transformSingleOneOf p st) (\<lambda>q. Inr (transformNullableUnionType q st)))"

section \<open>References that lead back\<close>

text \<open>The members of a composition, in the order of the branches.\<close>

definition composed_of :: "jschema \<Rightarrow> sref option list" where
  "composed_of s = (if js_one_of s \<noteq> [] then js_one_of s
     else if js_all_of s \<noteq> [] then js_all_of s else js_any_of s)"

fun each_schema :: "(sref \<Rightarrow> ref_key set \<Rightarrow> serr + ref_key set) \<Rightarrow> sref option list \<Rightarrow> ref_key set \<Rightarrow> serr + ref_key set" where
  "each_schema f [] ctx = Inr ctx"
| "each_schema f (None # ps) ctx = each_schema f ps ctx"
| "each_schema f (Some a # ps) ctx = bind_res (f a ctx) (each_schema f ps)"

fun no_recursion :: "nat \<Rightarrow> sstore \<Rightarrow> sref \<Rightarrow> ref_key set \<Rightarrow> serr + ref_key set" where
  "no_recursion 0 st a ctx = Inl SOutOfFuel"
| "no_recursion (Suc n) st a ctx =
     (let r = js_ref (st ! a) in
      if r \<noteq> ([], []) \<and> r \<in> ctx then Inl (SInfiniteReference r)
      else
        bind_res (each_schema (no_recursion n st) (composed_of (st ! a))
                    (if r \<noteq> ([], []) then insert r ctx else ctx))
          (\<lambda>ctx'. Inr (ctx' - {r})))"

definition ensureNoInfiniteRecursion :: "nat \<Rightarrow> sref option \<Rightarrow> sstore \<Rightarrow> serr option" where
  "ensureNoInfiniteRecursion n p st = (case each_schema (no_recursion n st) [p] {} of Inl e \<Rightarrow> Some e | Inr _ \<Rightarrow> None)"

section \<open>Merging\<close>

definition someU64 :: "64 word option \<Rightarrow> 64 word option \<Rightarrow> (64 word \<Rightarrow> 64 word \<Rightarrow> 64 word) \<Rightarrow> 64 word option" where
  "someU64 n1 n2 both = (case (n1, n2) of
       (None, None) \<Rightarrow> None
     | (Some a, None) \<Rightarrow> Some a
     | (None, Some b) \<Rightarrow> Some b
     | (Some a, Some b) \<Rightarrow> Some (both a b))"

definition selectMaxU64 :: "64 word \<Rightarrow> 64 word \<Rightarrow> 64 word" where
  "selectMaxU64 n1 n2 = (if n1 > n2 then n1 else n2)"

definition selectMinU64 :: "64 word \<Rightarrow> 64 word \<Rightarrow> 64 word" where
  "selectMinU64 n1 n2 = (if n1 < n2 then n1 else n2)"

definition someStr :: "string \<Rightarrow> string \<Rightarrow> (string \<Rightarrow> string \<Rightarrow> serr + string) \<Rightarrow> serr + string" where
  "someStr s1 s2 both =
     (if s1 = [] \<and> s2 = [] then Inr []
      else if s2 = [] then Inr s1
      else if s1 = [] then Inr s2
      else both s1 s2)"

definition same_text :: "(string \<Rightarrow> string \<Rightarrow> serr) \<Rightarrow> string \<Rightarrow> string \<Rightarrow> serr + string" where
  "same_text err s1 s2 = (if s1 = s2 then Inr s1 else Inl (err s1 s2))"

definition someNum :: "numbers \<Rightarrow> string \<Rightarrow> string \<Rightarrow> (string \<Rightarrow> string \<Rightarrow> serr + string) \<Rightarrow> serr + string" where
  "someNum L n1 n2 both =
     (if n1 = [] \<and> n2 = [] then Inr []
      else if n2 = [] then Inr n1
      else if n1 = [] then Inr n2
      else if nl_equal L n1 n2 then Inr n1
      else both n1 n2)"

definition maxNum :: "numbers \<Rightarrow> string \<Rightarrow> string \<Rightarrow> serr + string" where
  "maxNum L n1 n2 = (case (nl_float64 L n1, nl_float64 L n2) of
       (Some f1, Some f2) \<Rightarrow> Inr (if float_less f2 f1 then n1 else n2)
     | _ \<Rightarrow> Inl SUnreachable)"

definition minNum :: "numbers \<Rightarrow> string \<Rightarrow> string \<Rightarrow> serr + string" where
  "minNum L n1 n2 = (case (nl_float64 L n1, nl_float64 L n2) of
       (Some f1, Some f2) \<Rightarrow> Inr (if float_less f1 f2 then n1 else n2)
     | _ \<Rightarrow> Inl SUnreachable)"

definition mergeEnums :: "jschema \<Rightarrow> jschema \<Rightarrow> serr + jval list" where
  "mergeEnums s1 s2 =
     (if js_enum s2 = [] then Inr (js_enum s1)
      else if js_enum s1 = [] then Inr (js_enum s2)
      else
        let (small, big) = (if length (js_enum s1) > length (js_enum s2)
                            then (js_enum s2, js_enum s1) else (js_enum s1, js_enum s2));
            result = filter (\<lambda>v. v \<in> set big) small
        in if result = [] then Inl (SNotImplemented ''allOf enum merging'') else Inr result)"

text \<open>A value that is set on one side is taken over; set on both sides it must be the same.\<close>

definition merge_value :: "serr \<Rightarrow> jval \<times> bool \<Rightarrow> jval \<times> bool \<Rightarrow> serr + jval \<times> bool" where
  "merge_value err d1 d2 =
     (if \<not> snd d1 \<and> \<not> snd d2 then Inr (VNull, False)
      else if snd d1 \<and> \<not> snd d2 then Inr (fst d1, True)
      else if \<not> snd d1 \<and> snd d2 then Inr (fst d2, True)
      else if fst d1 \<noteq> fst d2 then Inl err
      else Inr (fst d1, True))"

definition mergeSum :: "string \<Rightarrow> sref option list \<Rightarrow> sref option list \<Rightarrow> serr + sref option list" where
  "mergeSum name s1 s2 =
     (if s1 \<noteq> [] \<and> s2 \<noteq> [] then Inl (SNotImplemented (''allOf with '' @ name))
      else if s1 \<noteq> [] then Inr s1
      else if s2 \<noteq> [] then Inr s2
      else Inr [])"

definition containsValidators :: "jschema \<Rightarrow> bool" where
  "containsValidators s \<longleftrightarrow>
     js_type s \<noteq> [] \<or> js_format s \<noteq> [] \<or> js_nullable s \<or> js_enum s \<noteq> [] \<or> js_default_set s \<or> js_const_set s
     \<or> js_item s \<noteq> None \<or> js_items s \<noteq> [] \<or> js_additional s \<noteq> None \<or> js_pattern_props s \<noteq> []
     \<or> js_properties s \<noteq> [] \<or> js_required s \<noteq> []
     \<or> js_one_of s \<noteq> [] \<or> js_any_of s \<noteq> [] \<or> js_all_of s \<noteq> []
     \<or> js_discriminator s \<noteq> None \<or> js_xml s \<noteq> None
     \<or> js_maximum s \<noteq> [] \<or> js_minimum s \<noteq> [] \<or> js_multiple_of s \<noteq> [] \<or> js_exclusive_min s \<or> js_exclusive_max s
     \<or> js_max_length s \<noteq> None \<or> js_min_length s \<noteq> None \<or> js_pattern s \<noteq> []
     \<or> js_max_items s \<noteq> None \<or> js_min_items s \<noteq> None \<or> js_unique s
     \<or> js_max_props s \<noteq> None \<or> js_min_props s \<noteq> None"

text \<open>How two pointers to schemas are merged, one level down.\<close>

type_synonym merger = "sref option \<Rightarrow> sref option \<Rightarrow> sstore \<Rightarrow> serr + sref option \<times> sstore"

fun merge_all :: "merger \<Rightarrow> sref option \<Rightarrow> sref option list \<Rightarrow> sstore \<Rightarrow> serr + sref option \<times> sstore" where
  "merge_all mg s [] st = Inr (s, st)"
| "merge_all mg s (t # ts) st = bind_res (mg s t st) (\<lambda>(r, st1). merge_all mg r ts st1)"

definition mergeNSchemes :: "merger \<Rightarrow> sref option list \<Rightarrow> sstore \<Rightarrow> serr + sref option \<times> sstore" where
  "mergeNSchemes mg ss st = (case ss of
       [] \<Rightarrow> Inl SUnreachable
     | [s] \<Rightarrow> Inr (shallowSchemaCopy s st)
     | s # rest \<Rightarrow> merge_all mg s rest st)"

text \<open>An operand that is a composition itself is replaced by its merged members.\<close>

definition merge_operand :: "merger \<Rightarrow> sref \<Rightarrow> sstore \<Rightarrow> serr + sref \<times> sstore" where
  "merge_operand mg a st =
     (if js_all_of (st ! a) = [] then Inr (a, st)
      else bind_res (mergeNSchemes mg (js_all_of (st ! a)) st) (\<lambda>(r, st1).
             bind_res (deref r st1) (\<lambda>b. Inr (b, st1))))"

text \<open>The properties in the order of their index, each at the index under which it was recorded.\<close>

record prop_table =
  pt_props :: "(string \<times> jproperty) list"
  pt_order :: "(string \<times> nat) list"
  pt_next :: nat

definition add_property :: "jproperty \<Rightarrow> prop_table \<Rightarrow> prop_table" where
  "add_property p t = \<lparr>pt_props = smap_set (pt_props t) (pr_name p) p,
     pt_order = smap_set (pt_order t) (pr_name p) (pt_next t), pt_next = Suc (pt_next t)\<rparr>"

fun merge_props :: "merger \<Rightarrow> jproperty list \<Rightarrow> prop_table \<Rightarrow> sstore \<Rightarrow> serr + prop_table \<times> sstore" where
  "merge_props mg [] t st = Inr (t, st)"
| "merge_props mg (p # ps) t st = (case map_of (pt_props t) (pr_name p) of
       None \<Rightarrow> merge_props mg ps (add_property p t) st
     | Some q \<Rightarrow>
         bind_res (mg (pr_schema p) (pr_schema q) st) (\<lambda>(s, st1).
           merge_props mg ps
             (t\<lparr>pt_props := smap_set (pt_props t) (pr_name p)
                  \<lparr>pr_name = pr_name p, pr_go_name = None, pr_schema = s, pr_required = pr_required p \<or> pr_required q\<rparr>\<rparr>)
             st1))"

fun place_props :: "string list \<Rightarrow> (string \<times> nat) list \<Rightarrow> (string \<times> jproperty) list \<Rightarrow> jproperty list \<Rightarrow> serr + jproperty list" where
  "place_props required order [] result = Inr result"
| "place_props required order ((name, p) # ps) result =
     (let i = (case map_of order name of Some i \<Rightarrow> i | None \<Rightarrow> 0) in
      if length result \<le> i then Inl SIndexRange
      else place_props required order ps (result[i := p\<lparr>pr_required := pr_required p \<or> name \<in> set required\<rparr>]))"

definition no_property :: jproperty where
  "no_property = \<lparr>pr_name = [], pr_go_name = None, pr_schema = None, pr_required = False\<rparr>"

definition mergeProperties :: "merger \<Rightarrow> jschema \<Rightarrow> jschema \<Rightarrow> sstore \<Rightarrow> serr + jproperty list \<times> sstore" where
  "mergeProperties mg s1 s2 st =
     bind_res (merge_props mg (js_properties s2)
                 (fold add_property (js_properties s1) \<lparr>pt_props = [], pt_order = [], pt_next = 0\<rparr>) st) (\<lambda>(t, st1).
     bind_res (place_props (js_required s1 @ js_required s2) (pt_order t) (pt_props t)
                 (replicate (length (pt_props t)) no_property)) (\<lambda>ps.
       Inr (ps, st1)))"

text \<open>Tuple elements are merged one by one.\<close>

fun merge_items :: "merger \<Rightarrow> sref option list \<Rightarrow> sref option list \<Rightarrow> sstore \<Rightarrow> serr + sref option list \<times> sstore" where
  "merge_items mg (p # ps) (q # qs) st =
     bind_res (mg p q st) (\<lambda>(r, st1). bind_res (merge_items mg ps qs st1) (\<lambda>(rs, st2). Inr (r # rs, st2)))"
| "merge_items mg _ _ st = Inr ([], st)"

text \<open>What is merged without looking at other schemas.\<close>

definition merge_plain :: "numbers \<Rightarrow> jschema \<Rightarrow> jschema \<Rightarrow> serr + jschema" where
  "merge_plain L s1 s2 =
     bind_res (someStr (js_type s1) (js_type s2) (same_text STypeMismatch)) (\<lambda>typ.
     bind_res (someStr (js_format s1) (js_format s2) (same_text SFormatMismatch)) (\<lambda>format.
     bind_res (mergeEnums s1 s2) (\<lambda>enum.
     bind_res (merge_value SDifferentDefaults (js_default s1, js_default_set s1) (js_default s2, js_default_set s2)) (\<lambda>dflt.
     bind_res (merge_value SDifferentConsts (js_const s1, js_const_set s1) (js_const s2, js_const_set s2)) (\<lambda>cnst.
     bind_res (if js_discriminator s1 \<noteq> None \<and> js_discriminator s2 \<noteq> None
               then Inl (SNotImplemented ''merge discriminator'')
               else Inr (if js_discriminator s1 \<noteq> None then js_discriminator s1 else js_discriminator s2)) (\<lambda>disc.
     bind_res (someStr (js_pattern s1) (js_pattern s2) (same_text SPatternMismatch)) (\<lambda>pattern.
     bind_res (someNum L (js_maximum s1) (js_maximum s2) (minNum L)) (\<lambda>maximum.
     bind_res (someNum L (js_minimum s1) (js_minimum s2) (maxNum L)) (\<lambda>minimum.
     bind_res (if js_multiple_of s1 \<noteq> js_multiple_of s2
               then Inl (SMultipleOfMismatch (js_multiple_of s1) (js_multiple_of s2))
               else Inr (js_multiple_of s1)) (\<lambda>multiple.
       Inr (no_schema\<lparr>js_type := typ, js_format := format, js_nullable := js_nullable s1 \<or> js_nullable s2,
         js_enum := enum, js_default := fst dflt, js_default_set := snd dflt,
         js_const := fst cnst, js_const_set := snd cnst, js_discriminator := disc,
         js_max_length := someU64 (js_max_length s1) (js_max_length s2) selectMinU64,
         js_min_length := someU64 (js_min_length s1) (js_min_length s2) selectMaxU64,
         js_pattern := pattern, js_maximum := maximum, js_minimum := minimum,
         js_exclusive_min := js_exclusive_min s1 \<or> js_exclusive_min s2,
         js_multiple_of := multiple\<rparr>)))))))))))"

text \<open>Arrays: the merged elements of two tuples are dropped, as the code drops them.\<close>

definition merge_array :: "merger \<Rightarrow> jschema \<Rightarrow> jschema \<Rightarrow> jschema \<Rightarrow> sstore \<Rightarrow> serr + jschema \<times> sstore" where
  "merge_array mg s1 s2 r st =
     (if js_items s1 \<noteq> [] \<and> js_items s2 \<noteq> [] then
        (if length (js_items s1) \<noteq> length (js_items s2)
         then Inl (SItemsLength (length (js_items s1)) (length (js_items s2)))
         else bind_res (merge_items mg (js_items s1) (js_items s2) st) (\<lambda>(_, st1). Inr (r, st1)))
      else if js_items s1 = [] \<and> js_items s2 = [] then
        bind_res (mg (js_item s1) (js_item s2) st) (\<lambda>(item, st1).
          Inr (r\<lparr>js_item := item,
                 js_min_items := someU64 (js_min_items s1) (js_min_items s2) selectMaxU64,
                 js_max_items := someU64 (js_max_items s1) (js_max_items s2) selectMinU64,
                 js_unique := js_unique s1 \<or> js_unique s2\<rparr>, st1))
      else Inl SMixedItems)"

definition merge_additional :: "merger \<Rightarrow> jschema \<Rightarrow> jschema \<Rightarrow> jschema \<Rightarrow> sstore \<Rightarrow> serr + jschema \<times> sstore" where
  "merge_additional mg s1 s2 r st = (case (js_additional s1, js_additional s2) of
       (None, None) \<Rightarrow> Inr (r, st)
     | (Some a, None) \<Rightarrow> Inr (r\<lparr>js_additional := Some a, js_item := js_item s1\<rparr>, st)
     | (None, Some b) \<Rightarrow> Inr (r\<lparr>js_additional := Some b, js_item := js_item s2\<rparr>, st)
     | (Some a, Some b) \<Rightarrow>
         if a = b then
           bind_res (mg (js_item s1) (js_item s2) st) (\<lambda>(item, st1).
             Inr (r\<lparr>js_additional := Some a, js_item := item\<rparr>, st1))
         else Inl (SNotImplemented ''allOf additionalProperties merging''))"

definition merge_object :: "merger \<Rightarrow> jschema \<Rightarrow> jschema \<Rightarrow> jschema \<Rightarrow> sstore \<Rightarrow> serr + jschema \<times> sstore" where
  "merge_object mg s1 s2 r st =
     (if js_pattern_props s1 \<noteq> [] \<or> js_pattern_props s2 \<noteq> []
      then Inl (SNotImplemented ''allOf with patternProperties'')
      else bind_res (merge_additional mg s1 s2 r st) (\<lambda>(r1, st1).
           bind_res (mergeProperties mg s1 s2 st1) (\<lambda>(props, st2).
             Inr (r1\<lparr>js_min_props := someU64 (js_min_props s1) (js_min_props s2) selectMaxU64,
                     js_max_props := someU64 (js_max_props s1) (js_max_props s2) selectMinU64,
                     js_properties := props\<rparr>, st2))))"

text \<open>The merged maximum's exclusiveness is written to the first operand, not to the result.\<close>

definition merge_full :: "merger \<Rightarrow> numbers \<Rightarrow> sref \<Rightarrow> sref \<Rightarrow> sstore \<Rightarrow> serr + sref option \<times> sstore" where
  "merge_full mg L a b st =
     (let s1 = st ! a; s2 = st ! b in
      bind_res (merge_plain L s1 s2) (\<lambda>r.
      bind_res (merge_array mg s1 s2 r
                  (st[a := s1\<lparr>js_exclusive_max := js_exclusive_max s1 \<or> js_exclusive_max s2\<rparr>])) (\<lambda>(r1, st1).
      bind_res (merge_object mg s1 s2 r1 st1) (\<lambda>(r2, st2).
      bind_res (mergeSum ''oneOf'' (js_one_of s1) (js_one_of s2)) (\<lambda>oneOf.
      bind_res (mergeSum ''anyOf'' (js_any_of s1) (js_any_of s2)) (\<lambda>anyOf.
        Inr (Some (length st2), st2 @ [r2\<lparr>js_one_of := oneOf, js_any_of := anyOf\<rparr>])))))))"

definition merge_step :: "merger \<Rightarrow> numbers \<Rightarrow> merger" where
  "merge_step mg L p q st = (case (p, q) of
       (None, None) \<Rightarrow> Inr (None, st)
     | (Some a, None) \<Rightarrow> Inr (Some a, st)
     | (None, Some b) \<Rightarrow> Inr (Some b, st)
     | (Some a, Some b) \<Rightarrow>
         bind_res (merge_operand mg a st) (\<lambda>(a', st1).
         bind_res (merge_operand mg b st1) (\<lambda>(b', st2).
           case (containsValidators (st2 ! a'), containsValidators (st2 ! b')) of
             (True, False) \<Rightarrow> Inr (shallowSchemaCopy (Some a') st2)
           | (False, True) \<Rightarrow> Inr (shallowSchemaCopy (Some b') st2)
           | _ \<Rightarrow> merge_full mg L a' b' st2)))"

fun mergeSchemes :: "nat \<Rightarrow> numbers \<Rightarrow> merger" where
  "mergeSchemes 0 L = (\<lambda>p q st. Inl SOutOfFuel)"
| "mergeSchemes (Suc n) L = merge_step (mergeSchemes n L) L"

section \<open>Flattening allOf\<close>

definition hasSiblingConstraints :: "jschema \<Rightarrow> bool" where
  "hasSiblingConstraints s \<longleftrightarrow>
     js_properties s \<noteq> [] \<or> js_required s \<noteq> [] \<or> js_additional s \<noteq> None \<or> js_pattern_props s \<noteq> []
     \<or> js_max_props s \<noteq> None \<or> js_min_props s \<noteq> None
     \<or> js_format s \<noteq> [] \<or> js_enum s \<noteq> [] \<or> js_default_set s \<or> js_const_set s \<or> js_discriminator s \<noteq> None
     \<or> js_one_of s \<noteq> [] \<or> js_any_of s \<noteq> []
     \<or> js_item s \<noteq> None \<or> js_items s \<noteq> [] \<or> js_max_items s \<noteq> None \<or> js_min_items s \<noteq> None \<or> js_unique s
     \<or> js_maximum s \<noteq> [] \<or> js_minimum s \<noteq> [] \<or> js_multiple_of s \<noteq> [] \<or> js_exclusive_min s \<or> js_exclusive_max s
     \<or> js_max_length s \<noteq> None \<or> js_min_length s \<noteq> None \<or> js_pattern s \<noteq> []
     \<or> js_xml s \<noteq> None \<or> js_extra_tags s \<noteq> [] \<or> js_ogen_validate s \<noteq> [] \<or> js_time_format s \<noteq> []
     \<or> js_ogen_name s \<noteq> [] \<or> js_ogen_type s \<noteq> []"

definition propagateParentExtensions :: "jschema \<Rightarrow> jschema \<Rightarrow> jschema" where
  "propagateParentExtensions dst parent = dst\<lparr>
     js_xml := (if js_xml dst = None then js_xml parent else js_xml dst),
     js_extra_tags := (if js_extra_tags dst = [] then js_extra_tags parent else js_extra_tags dst),
     js_ogen_validate := (if js_ogen_validate dst = [] then js_ogen_validate parent else js_ogen_validate dst),
     js_time_format := (if js_time_format dst = [] then js_time_format parent else js_time_format dst),
     js_ogen_name := (if js_ogen_name dst = [] then js_ogen_name parent else js_ogen_name dst),
     js_ogen_type := (if js_ogen_type dst = [] then js_ogen_type parent else js_ogen_type dst),
     js_deprecated := js_deprecated dst \<or> js_deprecated parent\<rparr>"

text \<open>The only member of the composition, with the marks of its wrapper.\<close>

definition unwrap_single :: "jschema \<Rightarrow> sref option \<Rightarrow> sstore \<Rightarrow> sref option \<times> sstore" where
  "unwrap_single parent p st = (case p of
       None \<Rightarrow> (Some (length st), st @ [parent])
     | Some a \<Rightarrow>
         let child = st ! a in
         (Some (length st),
          st @ [child\<lparr>js_nullable := js_nullable child \<or> js_nullable parent,
                      js_deprecated := js_deprecated child \<or> js_deprecated parent,
                      js_type := (if js_type child = [] then js_type parent else js_type child),
                      js_ref := (if js_ref child = ([], []) then js_ref parent else js_ref child)\<rparr>]))"

definition mark_merged :: "jschema \<Rightarrow> sref \<Rightarrow> sstore \<Rightarrow> sstore" where
  "mark_merged parent a st =
     (let m = st ! a in
      st[a := propagateParentExtensions
                (m\<lparr>js_nullable := js_nullable m \<or> js_nullable parent,
                   js_type := (if js_type m = [] then js_type parent else js_type m),
                   js_ref := js_ref parent\<rparr>) parent])"

definition flattenAllOfSchema :: "nat \<Rightarrow> numbers \<Rightarrow> sref option \<Rightarrow> sstore \<Rightarrow> serr + sref option \<times> sstore" where
  "flattenAllOfSchema n L p st = (case p of None \<Rightarrow> Inr (None, st) | Some a \<Rightarrow>
     if js_all_of (st ! a) = [] then Inr (p, st)
     else guard_res (ensureNoInfiniteRecursion n p st)
       (let parent = (st ! a)\<lparr>js_all_of := []\<rparr>;
            members = js_all_of (st ! a);
            siblings = hasSiblingConstraints parent in
        if length members = 1 \<and> \<not> siblings then Inr (unwrap_single parent (members ! 0) st)
        else
          let st0 = st @ [parent];
              toMerge = (if siblings then members @ [Some (length st)] else members) in
          bind_res (mergeNSchemes (mergeSchemes n L) toMerge st0) (\<lambda>(r, st1).
          bind_res (deref r st1) (\<lambda>m.
            Inr (r, mark_merged (st1 ! length st) m st1)))))"

end
