(* ===== verification/Types.thy ===== *)
theory Types
  imports Schemas
begin

text \<open>
  The types of the generated code, internal/ir. Types point to each other, cycles included, and are
  changed while they are shared, so they live in a store and a pointer to a type is its address; a
  pointer that may be nil is an option. Here: the store, constructors, the traversals that add a
  feature and decide whether validation is needed, interfaces, and recursion.
\<close>

section \<open>The store of types\<close>

datatype kind = KindPrimitive | KindArray | KindMap | KindAlias | KindConst | KindEnum | KindStruct
  | KindPointer | KindInterface | KindGeneric | KindSum | KindAny | KindStream

datatype nil_semantic = NilUnset | NilInvalid | NilOptional | NilNull

record generic_variant =
  gv_nullable :: bool
  gv_optional :: bool

text \<open>What is read of a JSON schema here.\<close>

record type_schema =
  ts_type :: string
  ts_format :: string
  ts_unique_items :: bool
  ts_ogen_type :: string
  ts_ogen_name :: string
  ts_ref :: ref_key
  ts_time_format :: string

record validators =
  vs_string :: string_v
  vs_int :: int_v
  vs_float :: float_v
  vs_decimal :: "string decimal_v"
  vs_array :: array_v
  vs_object :: object_v
  vs_ogen :: "string list"

type_synonym tref = nat

text \<open>
  Of the property a field stands for, what is read here: its name, whether it is required, whether its
  schema is nullable, and the constant of its schema.
\<close>

record field_spec =
  fp_name :: string
  fp_required :: bool
  fp_nullable :: bool
  fp_const :: "jval option"

datatype inline_field = InlineNone | InlineAdditional | InlinePattern | InlineSum

text \<open>A field; \<open>fd_json\<close> is its JSON tag.\<close>

record field =
  fd_name :: string
  fd_type :: "tref option"
  fd_json :: string
  fd_inline :: inline_field
  fd_spec :: "field_spec option"

definition plain_field :: "string \<Rightarrow> tref option \<Rightarrow> field" where
  "plain_field name t = \<lparr>fd_name = name, fd_type = t, fd_json = [], fd_inline = InlineNone, fd_spec = None\<rparr>"

text \<open>A type of another package; which encodings it offers is a set of bits.\<close>

record external_type =
  ex_package_path :: string
  ex_package_name :: string
  ex_import_alias :: string
  ex_type_name :: string
  ex_encode :: int
  ex_decode :: int
  ex_pointer :: bool

definition no_external :: external_type where
  "no_external = \<lparr>ex_package_path = [], ex_package_name = [], ex_import_alias = [], ex_type_name = [],
     ex_encode = 0, ex_decode = 0, ex_pointer = False\<rparr>"

text \<open>How the variants of a sum type are told apart.\<close>

record sum_spec_map =
  sm_key :: string
  sm_type :: tref
  sm_discriminator_type :: "tref option"
  sm_name :: string

record unique_variant =
  uv_name :: string
  uv_type :: string
  uv_field_type :: string
  uv_nullable :: bool
  uv_elem_type :: string
  uv_elem_type_id :: string

record value_discriminator =
  vd_field :: string
  vd_values :: "string smap"

record sum_spec =
  ss_unique :: "field list"
  ss_default_mapping :: string
  ss_discriminator :: string
  ss_mapping :: "sum_spec_map list"
  ss_type_discriminator :: bool
  ss_unique_field_types :: "string smap"
  ss_unique_fields :: "unique_variant list smap"
  ss_value_discriminators :: "value_discriminator smap"

definition no_sum_spec :: sum_spec where
  "no_sum_spec = \<lparr>ss_unique = [], ss_default_mapping = [], ss_discriminator = [], ss_mapping = [],
     ss_type_discriminator = False, ss_unique_field_types = [], ss_unique_fields = [], ss_value_discriminators = []\<rparr>"

record itype =
  ty_kind :: kind
  ty_name :: string
  ty_primitive :: string
  ty_alias_to :: "tref option"
  ty_pointer_to :: "tref option"
  ty_sum_of :: "tref option list"
  ty_item :: "tref option"
  ty_fields :: "field list"
  ty_implements :: "tref list"
  ty_implementations :: "tref list"
  ty_methods :: "string smap"
  ty_declared :: "string list"
  ty_schema :: "type_schema option"
  ty_nil :: nil_semantic
  ty_generic_of :: "tref option"
  ty_variant :: generic_variant
  ty_external :: external_type
  ty_validators :: validators
  ty_features :: "string list"
  ty_enum_variants :: "(string \<times> jval) list"
  ty_map_pattern :: string
  ty_deny_additional :: bool
  ty_tuple :: bool
  ty_sum_spec :: sum_spec

type_synonym store = "itype list"

text \<open>Panics: a nil pointer is dereferenced, or a branch the code calls unreachable is taken.\<close>

datatype terr = NilType | Unreachable | TOutOfFuel

definition no_validators :: validators where
  "no_validators = \<lparr>
     vs_string = \<lparr>StrMinLength = 0, StrMinLengthSet = False, StrMaxLength = 0, StrMaxLengthSet = False,
       StrEmail = False, StrRegex = None, StrHostname = False, StrMinNumeric = Fin 0,
       StrMinNumericSet = False, StrMaxNumeric = Fin 0, StrMaxNumericSet = False\<rparr>,
     vs_int = \<lparr>IntMultipleOf = 0, IntMultipleOfSet = False, IntMin = 0, IntMinSet = False,
       IntMinExclusive = False, IntMax = 0, IntMaxSet = False, IntMaxExclusive = False, IntPattern = None\<rparr>,
     vs_float = \<lparr>FltMultipleOf = 0, FltMultipleOfSet = False, FltMin = Fin 0, FltMinSet = False,
       FltMinExclusive = False, FltMax = Fin 0, FltMaxSet = False, FltMaxExclusive = False, FltPattern = None\<rparr>,
     vs_decimal = \<lparr>DecMultipleOf = [], DecMultipleOfSet = False, DecMin = [], DecMinSet = False,
       DecMinExclusive = False, DecMax = [], DecMaxSet = False, DecMaxExclusive = False\<rparr>,
     vs_array = \<lparr>ArrMinLength = 0, ArrMinLengthSet = False, ArrMaxLength = 0, ArrMaxLengthSet = False,
       ArrUniqueItems = False\<rparr>,
     vs_object = \<lparr>ObjMinProperties = 0, ObjMinPropertiesSet = False, ObjMaxProperties = 0,
       ObjMaxPropertiesSet = False, ObjMinLength = 0, ObjMinLengthSet = False, ObjMaxLength = 0,
       ObjMaxLengthSet = False\<rparr>,
     vs_ogen = []\<rparr>"

text \<open>The composite literal \<open>Type{Kind: k, Name: n}\<close>.\<close>

definition new_type :: "kind \<Rightarrow> string \<Rightarrow> itype" where
  "new_type k n = \<lparr>ty_kind = k, ty_name = n, ty_primitive = [], ty_alias_to = None, ty_pointer_to = None,
     ty_sum_of = [], ty_item = None, ty_fields = [], ty_implements = [], ty_implementations = [],
     ty_methods = [], ty_declared = [], ty_schema = None, ty_nil = NilUnset, ty_generic_of = None,
     ty_variant = \<lparr>gv_nullable = False, gv_optional = False\<rparr>, ty_external = no_external,
     ty_validators = no_validators, ty_features = [], ty_enum_variants = [], ty_map_pattern = [],
     ty_deny_additional = False, ty_tuple = False, ty_sum_spec = no_sum_spec\<rparr>"

definition alloc :: "store \<Rightarrow> itype \<Rightarrow> tref \<times> store" where
  "alloc st t = (length st, st @ [t])"

section \<open>Primitive types and constructors\<close>

definition integer_primitives :: "string list" where
  "integer_primitives = [''int'', ''int8'', ''int16'', ''int32'', ''int64'',
     ''uint'', ''uint8'', ''uint16'', ''uint32'', ''uint64'']"

definition IsInteger :: "itype \<Rightarrow> bool" where
  "IsInteger t \<longleftrightarrow> ty_primitive t \<in> set integer_primitives"

definition IsFloat :: "itype \<Rightarrow> bool" where
  "IsFloat t \<longleftrightarrow> ty_primitive t = ''float32'' \<or> ty_primitive t = ''float64''"

definition IsDecimal :: "itype \<Rightarrow> bool" where
  "IsDecimal t \<longleftrightarrow> ty_primitive t = ''decimal.Decimal''"

definition IsNumeric :: "itype \<Rightarrow> bool" where
  "IsNumeric t \<longleftrightarrow> IsInteger t \<or> IsFloat t \<or> IsDecimal t"

definition IsExternal :: "itype \<Rightarrow> bool" where
  "IsExternal t \<longleftrightarrow> (case ty_schema t of None \<Rightarrow> False | Some s \<Rightarrow> ts_ogen_type s \<noteq> [])"

definition Primitive :: "string \<Rightarrow> type_schema option \<Rightarrow> itype" where
  "Primitive typ schema = (new_type KindPrimitive [])\<lparr>ty_primitive := typ, ty_schema := schema\<rparr>"

definition Array :: "store \<Rightarrow> tref \<Rightarrow> nil_semantic \<Rightarrow> type_schema option \<Rightarrow> itype" where
  "Array st item sem schema = (new_type KindArray [])\<lparr>ty_item := Some item, ty_schema := schema,
     ty_nil := sem, ty_features := ty_features (st ! item)\<rparr>"

definition Alias :: "store \<Rightarrow> string \<Rightarrow> tref \<Rightarrow> itype" where
  "Alias st name to = (new_type KindAlias name)\<lparr>ty_alias_to := Some to,
     ty_validators := ty_validators (st ! to), ty_features := ty_features (st ! to)\<rparr>"

definition Interface :: "string \<Rightarrow> itype" where
  "Interface name = new_type KindInterface name"

definition Pointer :: "store \<Rightarrow> tref \<Rightarrow> nil_semantic \<Rightarrow> itype" where
  "Pointer st to sem = (new_type KindPointer [])\<lparr>ty_pointer_to := Some to, ty_nil := sem,
     ty_features := ty_features (st ! to)\<rparr>"

definition variant_prefix :: "generic_variant \<Rightarrow> string" where
  "variant_prefix v = (if gv_optional v then ''Opt'' else []) @ (if gv_nullable v then ''Nil'' else [])"

definition Generic :: "store \<Rightarrow> string \<Rightarrow> tref \<Rightarrow> generic_variant \<Rightarrow> itype" where
  "Generic st name gof v = (new_type KindGeneric (variant_prefix v @ name))\<lparr>ty_generic_of := Some gof,
     ty_variant := v, ty_features := ty_features (st ! gof)\<rparr>"

definition Any :: "type_schema option \<Rightarrow> itype" where
  "Any schema = (new_type KindAny [])\<lparr>ty_schema := schema\<rparr>"

definition Stream :: "string \<Rightarrow> type_schema option \<Rightarrow> itype" where
  "Stream name schema = (new_type KindStream name)\<lparr>ty_schema := schema\<rparr>"

section \<open>Features\<close>

definition HasFeature :: "itype \<Rightarrow> string \<Rightarrow> bool" where
  "HasFeature t feature \<longleftrightarrow> feature \<in> set (ty_features t)"

text \<open>The pointers that \<open>AddFeature\<close> follows, in order.\<close>

definition feature_children :: "itype \<Rightarrow> tref option list" where
  "feature_children t = (case ty_kind t of
       KindAlias \<Rightarrow> [ty_alias_to t]
     | KindArray \<Rightarrow> [ty_item t]
     | KindGeneric \<Rightarrow> [ty_generic_of t]
     | KindMap \<Rightarrow> ty_item t # map fd_type (ty_fields t)
     | KindPointer \<Rightarrow> [ty_pointer_to t]
     | KindStruct \<Rightarrow> map fd_type (ty_fields t)
     | KindSum \<Rightarrow> ty_sum_of t
     | _ \<Rightarrow> [])"

fun each_type :: "(tref option \<Rightarrow> store \<Rightarrow> terr + store) \<Rightarrow> tref option list \<Rightarrow> store \<Rightarrow> terr + store" where
  "each_type f [] st = Inr st"
| "each_type f (c # cs) st = bind_res (f c st) (each_type f cs)"

text \<open>The fuel bounds the depth of the recursion, at most one more than the number of types.\<close>

fun add_feature :: "nat \<Rightarrow> string \<Rightarrow> tref option \<Rightarrow> store \<Rightarrow> terr + store" where
  "add_feature n feature None st = Inl NilType"
| "add_feature n feature (Some a) st =
     (if HasFeature (st ! a) feature then Inr st
      else case n of
        0 \<Rightarrow> Inl TOutOfFuel
      | Suc m \<Rightarrow>
          each_type (add_feature m feature) (feature_children (st ! a))
            (st[a := (st ! a)\<lparr>ty_features := ty_features (st ! a) @ [feature]\<rparr>]))"

declare add_feature.simps [simp del]

definition AddFeature :: "string \<Rightarrow> tref option \<Rightarrow> store \<Rightarrow> terr + store" where
  "AddFeature feature t st = add_feature (length st) feature t st"

section \<open>Validation\<close>

text \<open>What a type needs by itself, and the pointers followed when it needs nothing.\<close>

definition needs_locally :: "itype \<Rightarrow> bool" where
  "needs_locally t =
     (let v = ty_validators t in
      case ty_kind t of
        KindPrimitive \<Rightarrow>
          (if IsFloat t then True
           else if IsNumeric t then int_Set (vs_int v) \<or> decimal_Set (vs_decimal v)
           else if string_Set (vs_string v) \<and> (ty_primitive t = ''string'' \<or> ty_primitive t = ''[]byte'') then True
           else vs_ogen v \<noteq> [])
      | KindEnum \<Rightarrow> True
      | KindPointer \<Rightarrow> ty_nil t = NilInvalid
      | KindArray \<Rightarrow> ty_nil t = NilInvalid \<or> array_Set (vs_array v) \<or> vs_ogen v \<noteq> []
      | KindStruct \<Rightarrow> vs_ogen v \<noteq> []
      | KindMap \<Rightarrow> object_Set (vs_object v) \<or> vs_ogen v \<noteq> []
      | _ \<Rightarrow> False)"

definition validation_children :: "itype \<Rightarrow> tref option list" where
  "validation_children t = (case ty_kind t of
       KindSum \<Rightarrow> ty_sum_of t
     | KindAlias \<Rightarrow> [ty_alias_to t]
     | KindPointer \<Rightarrow> [ty_pointer_to t]
     | KindGeneric \<Rightarrow> [ty_generic_of t]
     | KindArray \<Rightarrow> [ty_item t]
     | KindStruct \<Rightarrow> map fd_type (ty_fields t)
     | KindMap \<Rightarrow> [ty_item t]
     | _ \<Rightarrow> [])"

fun any_type :: "(tref option \<Rightarrow> terr + bool) \<Rightarrow> tref option list \<Rightarrow> terr + bool" where
  "any_type f [] = Inr False"
| "any_type f (c # cs) = bind_res (f c) (\<lambda>b. if b then Inr True else any_type f cs)"

text \<open>\<open>needValidation\<close> with the path of types being visited; nil needs nothing.\<close>

fun need_validation :: "nat \<Rightarrow> tref list \<Rightarrow> store \<Rightarrow> tref option \<Rightarrow> terr + bool" where
  "need_validation n path st None = Inr False"
| "need_validation n path st (Some a) =
     (if a \<in> set path then Inr False
      else if ty_kind (st ! a) = KindConst then Inl Unreachable
      else if needs_locally (st ! a) then Inr True
      else case n of
        0 \<Rightarrow> Inl TOutOfFuel
      | Suc m \<Rightarrow> any_type (need_validation m (a # path) st) (validation_children (st ! a)))"

declare need_validation.simps [simp del]

definition NeedValidation :: "store \<Rightarrow> tref option \<Rightarrow> terr + bool" where
  "NeedValidation st t = need_validation (length st) [] st t"

section \<open>Features spread to everything reachable\<close>

text \<open>No pointer dangles, and a pointer that the traversals follow is not nil.\<close>

definition sound_store :: "store \<Rightarrow> bool" where
  "sound_store st \<longleftrightarrow>
     (\<forall>t \<in> set st. \<forall>c \<in> set (feature_children t) \<union> set (validation_children t). \<exists>a < length st. c = Some a)"

definition marked :: "string \<Rightarrow> store \<Rightarrow> tref set" where
  "marked f st = {a. a < length st \<and> HasFeature (st ! a) f}"

definition edge :: "store \<Rightarrow> tref \<Rightarrow> tref \<Rightarrow> bool" where
  "edge st a b \<longleftrightarrow> a < length st \<and> Some b \<in> set (feature_children (st ! a))"

text \<open>Two stores that differ in features only.\<close>

definition same_shape :: "store \<Rightarrow> store \<Rightarrow> bool" where
  "same_shape st st' \<longleftrightarrow> length st' = length st
     \<and> (\<forall>a < length st. st' ! a = (st ! a)\<lparr>ty_features := ty_features (st' ! a)\<rparr>)"

definition feature_closed :: "string \<Rightarrow> store \<Rightarrow> bool" where
  "feature_closed f st \<longleftrightarrow> (\<forall>a \<in> marked f st. \<forall>b. edge st a b \<longrightarrow> b \<in> marked f st)"

lemma feature_children_update [simp]: "feature_children (t\<lparr>ty_features := fs\<rparr>) = feature_children t"
  by (cases "ty_kind t") (simp_all add: feature_children_def)

lemma validation_children_update [simp]: "validation_children (t\<lparr>ty_features := fs\<rparr>) = validation_children t"
  by (cases "ty_kind t") (simp_all add: validation_children_def)

lemma same_shape_refl [simp]: "same_shape st st"
  by (simp add: same_shape_def)

lemma same_shape_trans:
  assumes "same_shape a b" and "same_shape b c"
  shows "same_shape a c"
proof -
  have "c ! i = (a ! i)\<lparr>ty_features := ty_features (c ! i)\<rparr>" if "i < length a" for i
  proof -
    have "c ! i = (b ! i)\<lparr>ty_features := ty_features (c ! i)\<rparr>" "b ! i = (a ! i)\<lparr>ty_features := ty_features (b ! i)\<rparr>"
      using assms that by (auto simp: same_shape_def)
    then show ?thesis by (metis itype.update_convs(19) itype.surjective)
  qed
  then show ?thesis using assms by (simp add: same_shape_def)
qed

lemma same_shape_children:
  assumes "same_shape st st'" and "a < length st"
  shows "feature_children (st' ! a) = feature_children (st ! a)"
  using assms feature_children_update unfolding same_shape_def by metis

lemma same_shape_edge: "same_shape st st' \<Longrightarrow> edge st' a b \<longleftrightarrow> edge st a b"
  using same_shape_children by (auto simp: edge_def same_shape_def)

lemma sound_children: "sound_store st \<Longrightarrow> a < length st \<Longrightarrow> c \<in> set (feature_children (st ! a)) \<Longrightarrow> \<exists>b < length st. c = Some b"
  unfolding sound_store_def using nth_mem by blast

lemma sound_same_shape:
  assumes "sound_store st" and "same_shape st st'"
  shows "sound_store st'"
  unfolding sound_store_def
proof
  fix t assume "t \<in> set st'"
  then obtain a where a: "a < length st" "t = st' ! a"
    using assms(2) by (auto simp: in_set_conv_nth same_shape_def)
  then have "t = (st ! a)\<lparr>ty_features := ty_features t\<rparr>" using assms(2) by (simp add: same_shape_def)
  then have "feature_children t = feature_children (st ! a)" "validation_children t = validation_children (st ! a)"
    using feature_children_update validation_children_update by metis+
  then show "\<forall>c \<in> set (feature_children t) \<union> set (validation_children t). \<exists>a < length st'. c = Some a"
    using assms(1) nth_mem [OF a(1)] assms(2) unfolding sound_store_def same_shape_def by auto
qed

text \<open>What a call guarantees: it marks its target, what it newly marks has only marked successors.\<close>

definition spread :: "string \<Rightarrow> store \<Rightarrow> store \<Rightarrow> tref set \<Rightarrow> bool" where
  "spread f st st' roots \<longleftrightarrow> same_shape st st' \<and> marked f st \<subseteq> marked f st' \<and> roots \<subseteq> marked f st'
     \<and> (\<forall>a \<in> marked f st' - marked f st. (\<forall>b. edge st a b \<longrightarrow> b \<in> marked f st') \<and> (\<exists>r \<in> roots. (edge st)\<^sup>*\<^sup>* r a))
     \<and> (\<forall>g a. g \<noteq> f \<longrightarrow> a < length st \<longrightarrow> HasFeature (st' ! a) g = HasFeature (st ! a) g)"

lemma spreadD:
  assumes "spread f st st' R"
  shows "same_shape st st'" and "marked f st \<subseteq> marked f st'" and "R \<subseteq> marked f st'"
    and "\<And>a b. a \<in> marked f st' \<Longrightarrow> a \<notin> marked f st \<Longrightarrow> edge st a b \<Longrightarrow> b \<in> marked f st'"
    and "\<And>a. a \<in> marked f st' \<Longrightarrow> a \<notin> marked f st \<Longrightarrow> \<exists>r \<in> R. (edge st)\<^sup>*\<^sup>* r a"
    and "\<And>g a. g \<noteq> f \<Longrightarrow> a < length st \<Longrightarrow> HasFeature (st' ! a) g = HasFeature (st ! a) g"
  using assms by (simp_all add: spread_def)

lemma spread_trans:
  assumes "spread f st st1 R1" and "spread f st1 st2 R2"
  shows "spread f st st2 (R1 \<union> R2)"
proof -
  have ss: "same_shape st st1" "same_shape st1 st2" using assms by (auto simp: spread_def)
  have e: "edge st1 = edge st" using same_shape_edge [OF ss(1)] by (intro ext) simp
  have len: "length st1 = length st" using ss by (simp add: same_shape_def)
  have m: "marked f st \<subseteq> marked f st1" "marked f st1 \<subseteq> marked f st2"
    "R1 \<subseteq> marked f st1" "R2 \<subseteq> marked f st2" using assms by (auto simp: spread_def)
  have new1: "b \<in> marked f st1" if "a \<in> marked f st1 - marked f st" "edge st a b" for a b
    using assms(1) that by (auto simp: spread_def)
  have new2: "b \<in> marked f st2" if "a \<in> marked f st2 - marked f st1" "edge st a b" for a b
    using assms(2) that e by (auto simp: spread_def)
  have reach1: "\<exists>r \<in> R1. (edge st)\<^sup>*\<^sup>* r a" if "a \<in> marked f st1 - marked f st" for a
    using assms(1) that by (auto simp: spread_def)
  have reach2: "\<exists>r \<in> R2. (edge st)\<^sup>*\<^sup>* r a" if "a \<in> marked f st2 - marked f st1" for a
    using assms(2) that e by (auto simp: spread_def)
  have other: "HasFeature (st2 ! a) g = HasFeature (st ! a) g" if "g \<noteq> f" "a < length st" for g a
    using assms that len by (simp add: spread_def)
  show ?thesis
    unfolding spread_def
  proof (intro conjI ballI allI impI)
    show "same_shape st st2" by (rule same_shape_trans [OF ss])
    show "marked f st \<subseteq> marked f st2" "R1 \<union> R2 \<subseteq> marked f st2" using m by auto
  next
    fix a b assume "a \<in> marked f st2 - marked f st" "edge st a b"
    then show "b \<in> marked f st2" using new1 new2 m(2) by (cases "a \<in> marked f st1") auto
  next
    fix a assume "a \<in> marked f st2 - marked f st"
    then show "\<exists>r \<in> R1 \<union> R2. (edge st)\<^sup>*\<^sup>* r a" using reach1 reach2 by (cases "a \<in> marked f st1") auto
  next
    fix g a assume "g \<noteq> f" "a < length st"
    then show "HasFeature (st2 ! a) g = HasFeature (st ! a) g" by (rule other)
  qed
qed

lemma each_spread:
  assumes "\<And>c st1. same_shape st st1 \<Longrightarrow> marked f st \<subseteq> marked f st1 \<Longrightarrow> c < length st \<Longrightarrow>
      \<exists>st2. g (Some c) st1 = Inr st2 \<and> spread f st1 st2 {c}"
  shows "\<forall>c \<in> set cs. \<exists>a < length st. c = Some a \<Longrightarrow> same_shape st st1 \<Longrightarrow> marked f st \<subseteq> marked f st1 \<Longrightarrow>
    \<exists>st2. each_type g cs st1 = Inr st2 \<and> spread f st1 st2 {a. Some a \<in> set cs}"
proof (induction cs arbitrary: st1)
  case Nil
  then show ?case by (simp add: spread_def)
next
  case (Cons c cs)
  then obtain a where a: "c = Some a" "a < length st" by auto
  from assms [OF Cons.prems(2,3) a(2)] obtain st2 where st2: "g (Some a) st1 = Inr st2" "spread f st1 st2 {a}" by blast
  then have "same_shape st1 st2" "marked f st1 \<subseteq> marked f st2" by (simp_all add: spread_def)
  then have "same_shape st st2" "marked f st \<subseteq> marked f st2"
    using Cons.prems(2,3) same_shape_trans by auto
  from Cons.IH [OF _ this] Cons.prems(1) obtain st3
    where st3: "each_type g cs st2 = Inr st3" "spread f st2 st3 {a. Some a \<in> set cs}" by auto
  have "{x. Some x \<in> set (c # cs)} = {a} \<union> {a. Some a \<in> set cs}" using a by auto
  then show ?case using a st2 st3 spread_trans [OF st2(2) st3(2)] by auto
qed

lemma add_feature_spread:
  "sound_store st \<Longrightarrow> a < length st \<Longrightarrow> card ({..<length st} - marked f st) \<le> n \<Longrightarrow>
   \<exists>st'. add_feature n f (Some a) st = Inr st' \<and> spread f st st' {a}"
proof (induction n arbitrary: a st)
  case 0
  then have "a \<in> marked f st" by auto
  then show ?case
    using 0 by (auto simp: add_feature.simps marked_def spread_def)
next
  case (Suc n)
  show ?case
  proof (cases "HasFeature (st ! a) f")
    case True
    then show ?thesis using Suc.prems by (auto simp: add_feature.simps marked_def spread_def)
  next
    case False
    let ?s = "st[a := (st ! a)\<lparr>ty_features := ty_features (st ! a) @ [f]\<rparr>]"
    have shape: "same_shape st ?s" using Suc.prems(2) by (auto simp: same_shape_def nth_list_update)
    have mk: "marked f ?s = insert a (marked f st)"
      using Suc.prems(2) by (auto simp: marked_def nth_list_update HasFeature_def)
    have "{..<length st} - marked f ?s = {..<length st} - marked f st - {a}" using mk by auto
    moreover have "a \<in> {..<length st} - marked f st" using False Suc.prems(2) by (simp add: marked_def)
    ultimately have c: "card ({..<length st} - marked f ?s) \<le> n" using Suc.prems(3) by simp
    have step: "\<exists>st2. add_feature n f (Some b) st1 = Inr st2 \<and> spread f st1 st2 {b}"
      if "same_shape ?s st1" "marked f ?s \<subseteq> marked f st1" "b < length ?s" for b st1
    proof (rule Suc.IH)
      have len: "length st1 = length st" using that(1) by (simp add: same_shape_def)
      show "sound_store st1" using sound_same_shape [OF sound_same_shape [OF Suc.prems(1) shape] that(1)] .
      show "b < length st1" using that(3) len by simp
      have "card ({..<length st} - marked f st1) \<le> card ({..<length st} - marked f ?s)"
        by (rule card_mono) (use that(2) in auto)
      then show "card ({..<length st1} - marked f st1) \<le> n" using c len by simp
    qed
    let ?cs = "feature_children (st ! a)"
    have "\<forall>c \<in> set ?cs. \<exists>b < length ?s. c = Some b" using sound_children [OF Suc.prems(1,2)] by auto
    from each_spread [where st = ?s and g = "add_feature n f", OF step this same_shape_refl subset_refl] obtain st2
      where st2: "each_type (add_feature n f) ?cs ?s = Inr st2" "spread f ?s st2 {b. Some b \<in> set ?cs}"
      by auto
    have e: "edge ?s = edge st" using same_shape_edge [OF shape] by (intro ext) simp
    have edges: "edge st a b \<longleftrightarrow> Some b \<in> set ?cs" for b using Suc.prems(2) by (simp add: edge_def)
    have other: "HasFeature (?s ! b) g = HasFeature (st ! b) g" if "g \<noteq> f" "b < length st" for g b
      using that Suc.prems(2) by (auto simp: HasFeature_def nth_list_update)
    have "spread f st st2 {a}"
      unfolding spread_def
    proof (intro conjI ballI allI impI)
      show "same_shape st st2" using same_shape_trans [OF shape spreadD(1) [OF st2(2)]] .
      show "marked f st \<subseteq> marked f st2" "{a} \<subseteq> marked f st2" using spreadD(2) [OF st2(2)] mk by auto
    next
      fix x b assume x: "x \<in> marked f st2 - marked f st" and b: "edge st x b"
      show "b \<in> marked f st2"
      proof (cases "x = a")
        case True
        then show ?thesis using spreadD(3) [OF st2(2)] b edges by auto
      next
        case False
        then show ?thesis using spreadD(4) [OF st2(2), of x b] x mk b e by simp
      qed
    next
      fix x assume x: "x \<in> marked f st2 - marked f st"
      show "\<exists>r \<in> {a}. (edge st)\<^sup>*\<^sup>* r x"
      proof (cases "x = a")
        case False
        then obtain r where "edge st a r" "(edge st)\<^sup>*\<^sup>* r x"
          using spreadD(5) [OF st2(2), of x] x mk e edges by auto
        then show ?thesis by (meson converse_rtranclp_into_rtranclp singletonI)
      qed simp
    next
      fix g b assume g: "g \<noteq> f" and b: "b < length st"
      have "HasFeature (st2 ! b) g = HasFeature (?s ! b) g" using spreadD(6) [OF st2(2) g, of b] b by simp
      then show "HasFeature (st2 ! b) g = HasFeature (st ! b) g" using other [OF g b] by simp
    qed
    then show ?thesis using st2(1) False by (simp add: add_feature.simps)
  qed
qed

section \<open>Validation is reachability\<close>

definition vedge :: "store \<Rightarrow> tref set \<Rightarrow> tref \<Rightarrow> tref \<Rightarrow> bool" where
  "vedge st P a b \<longleftrightarrow> a < length st \<and> \<not> needs_locally (st ! a)
     \<and> Some b \<in> set (validation_children (st ! a)) \<and> b \<notin> P"

text \<open>A type that needs validation lies at the end of a path that avoids \<open>P\<close> and never turns back.\<close>

inductive needy :: "store \<Rightarrow> tref set \<Rightarrow> tref \<Rightarrow> bool" for st where
  here: "a \<notin> P \<Longrightarrow> needs_locally (st ! a) \<Longrightarrow> needy st P a"
| step: "a \<notin> P \<Longrightarrow> a < length st \<Longrightarrow> \<not> needs_locally (st ! a) \<Longrightarrow> Some b \<in> set (validation_children (st ! a)) \<Longrightarrow>
     needy st (insert a P) b \<Longrightarrow> needy st P a"

inductive_cases needyE: "needy st P a"
inductive_simps needy_unfold: "needy st P a"

lemma needy_reaches: "needy st P a \<Longrightarrow> \<exists>b. (vedge st {})\<^sup>*\<^sup>* a b \<and> needs_locally (st ! b)"
proof (induction rule: needy.induct)
  case (step a P b)
  then have "vedge st {} a b" by (simp add: vedge_def)
  then show ?case using step.IH by (meson converse_rtranclp_into_rtranclp)
qed blast

lemma leave_for_good:
  assumes "(vedge st P)\<^sup>*\<^sup>* a y"
  shows "a = y \<or> (\<exists>b. vedge st P a b \<and> b \<noteq> a \<and> (vedge st (insert a P))\<^sup>*\<^sup>* b y)"
  using assms
proof (induction rule: rtranclp_induct)
  case (step y z)
  show ?case
  proof (cases "z = a")
    case False
    then have "vedge st (insert a P) y z" if "y \<noteq> a" using step.hyps(2) by (simp add: vedge_def)
    then show ?thesis using step False by (cases "y = a") (auto intro: rtranclp.rtrancl_into_rtrancl)
  qed simp
qed simp

lemma reaches_needy:
  "card ({..<length st} - P) = n \<Longrightarrow> a \<notin> P \<Longrightarrow> (vedge st P)\<^sup>*\<^sup>* a y \<Longrightarrow> needs_locally (st ! y) \<Longrightarrow> needy st P a"
proof (induction n arbitrary: P a rule: less_induct)
  case (less n)
  from leave_for_good [OF less.prems(3)] show ?case
  proof
    assume "a = y"
    then show ?thesis using less.prems by (auto intro: needy.here)
  next
    assume "\<exists>b. vedge st P a b \<and> b \<noteq> a \<and> (vedge st (insert a P))\<^sup>*\<^sup>* b y"
    then obtain b where b: "vedge st P a b" "b \<noteq> a" "(vedge st (insert a P))\<^sup>*\<^sup>* b y" by blast
    have "{..<length st} - insert a P \<subset> {..<length st} - P" using b(1) less.prems(2) by (auto simp: vedge_def)
    then have "card ({..<length st} - insert a P) < n"
      using less.prems(1) psubset_card_mono [of "{..<length st} - P"] by auto
    from less.IH [OF this refl _ b(3) less.prems(4)] have "needy st (insert a P) b"
      using b by (auto simp: vedge_def)
    then show ?thesis using b(1) less.prems(2) by (auto simp: vedge_def intro: needy.step)
  qed
qed

lemma any_type_results:
  "\<forall>c \<in> set cs. f c = Inr (p c) \<Longrightarrow> any_type f cs = Inr (\<exists>c \<in> set cs. p c)"
  by (induction cs) auto

lemma need_validation_needy:
  assumes "sound_store st" and "\<forall>t \<in> set st. ty_kind t \<noteq> KindConst"
  shows "a < length st \<Longrightarrow> card ({..<length st} - set path) \<le> n \<Longrightarrow>
    need_validation n path st (Some a) = Inr (needy st (set path) a)"
proof (induction n arbitrary: a path)
  case 0
  then have "a \<in> set path" by auto
  then have "\<not> needy st (set path) a" by (subst needy_unfold) simp
  then show ?case using \<open>a \<in> set path\<close> by (simp add: need_validation.simps)
next
  case (Suc n)
  have nc: "ty_kind (st ! a) \<noteq> KindConst" using assms(2) Suc.prems(1) by simp
  show ?case
  proof (cases "a \<in> set path \<or> needs_locally (st ! a)")
    case True
    moreover have "needy st (set path) a \<longleftrightarrow> a \<notin> set path"
      using True by (subst needy_unfold) auto
    ultimately show ?thesis
      using nc True by (cases "a \<in> set path") (simp_all add: need_validation.simps)
  next
    case False
    have "{..<length st} - set (a # path) = {..<length st} - set path - {a}" by auto
    then have c: "card ({..<length st} - set (a # path)) \<le> n" using Suc.prems False by simp
    let ?cs = "validation_children (st ! a)"
    have some: "\<exists>b < length st. c = Some b" if "c \<in> set ?cs" for c
      using assms(1) nth_mem [OF Suc.prems(1)] that by (auto simp: sound_store_def)
    have "need_validation n (a # path) st c = Inr (needy st (insert a (set path)) (the c))" if "c \<in> set ?cs" for c
      using some [OF that] Suc.IH [OF _ c] by auto
    then have "any_type (need_validation n (a # path) st) ?cs = Inr (\<exists>c \<in> set ?cs. needy st (insert a (set path)) (the c))"
      by (intro any_type_results) simp
    moreover have "(\<exists>c \<in> set ?cs. needy st (insert a (set path)) (the c)) = needy st (set path) a"
    proof
      assume "\<exists>c \<in> set ?cs. needy st (insert a (set path)) (the c)"
      then obtain b where "Some b \<in> set ?cs" "needy st (insert a (set path)) b" using some by fastforce
      then show "needy st (set path) a" using False Suc.prems(1) by (auto intro: needy.step [rotated 3])
    next
      assume "needy st (set path) a"
      then show "\<exists>c \<in> set ?cs. needy st (insert a (set path)) (the c)"
        using False by (subst (asm) needy_unfold) force
    qed
    ultimately show ?thesis using False nc by (simp add: need_validation.simps)
  qed
qed

section \<open>Properties\<close>

text \<open>
  C28: adding a feature to a type ends, also on cyclic types, changes nothing but features, marks exactly
  the types reachable from it besides those marked before, and keeps the invariant that whatever a
  marked type is built from is marked.
\<close>

theorem add_feature_reaches:
  assumes "sound_store st" and "feature_closed f st" and "a < length st"
  shows "\<exists>st'. AddFeature f (Some a) st = Inr st' \<and> same_shape st st' \<and> feature_closed f st'
    \<and> (\<forall>b < length st. HasFeature (st' ! b) f \<longleftrightarrow> HasFeature (st ! b) f \<or> (edge st)\<^sup>*\<^sup>* a b)
    \<and> (\<forall>g. g \<noteq> f \<longrightarrow> (\<forall>b < length st. HasFeature (st' ! b) g = HasFeature (st ! b) g))"
proof -
  have "card ({..<length st} - marked f st) \<le> length st"
    using card_mono [of "{..<length st}" "{..<length st} - marked f st"] by simp
  from add_feature_spread [OF assms(1,3) this] obtain st'
    where st': "add_feature (length st) f (Some a) st = Inr st'" "spread f st st' {a}" by blast
  have shape: "same_shape st st'" by (rule spreadD(1) [OF st'(2)])
  then have len: "length st' = length st" by (simp add: same_shape_def)
  have closed: "b \<in> marked f st'" if "x \<in> marked f st'" "edge st x b" for x b
    using that spreadD(2,4) [OF st'(2)] assms(2) by (cases "x \<in> marked f st") (auto simp: feature_closed_def)
  have fwd: "b \<in> marked f st'" if "(edge st)\<^sup>*\<^sup>* a b" for b
    using that
  proof (induction rule: rtranclp_induct)
    case base
    then show ?case using spreadD(3) [OF st'(2)] by simp
  next
    case (step y z)
    then show ?case using closed [of y z] by simp
  qed
  have bwd: "(edge st)\<^sup>*\<^sup>* a b" if "b \<in> marked f st'" "b \<notin> marked f st" for b
    using spreadD(5) [OF st'(2) that] by simp
  have iff: "HasFeature (st' ! b) f \<longleftrightarrow> HasFeature (st ! b) f \<or> (edge st)\<^sup>*\<^sup>* a b" if "b < length st" for b
  proof -
    have "b \<in> marked f st' \<longleftrightarrow> HasFeature (st' ! b) f" "b \<in> marked f st \<longleftrightarrow> HasFeature (st ! b) f"
      using that len by (simp_all add: marked_def)
    then show ?thesis using fwd [of b] bwd [of b] spreadD(2) [OF st'(2)] by blast
  qed
  have "feature_closed f st'"
    unfolding feature_closed_def using closed same_shape_edge [OF shape] by simp
  then show ?thesis
    unfolding AddFeature_def using st'(1) shape iff spreadD(6) [OF st'(2)] by (intro exI [of _ st']) simp
qed

text \<open>A struct that points back to itself, and an array of it.\<close>

definition demo_store :: store where
  "demo_store = [
     (new_type KindStruct ''Node'')\<lparr>ty_fields := [plain_field ''Next'' (Some 1), plain_field ''Id'' (Some 3)]\<rparr>,
     (new_type KindPointer [])\<lparr>ty_pointer_to := Some 0, ty_nil := NilOptional\<rparr>,
     (new_type KindArray [])\<lparr>ty_item := Some 0\<rparr>,
     (new_type KindPrimitive [])\<lparr>ty_primitive := ''string''\<rparr>]"

lemma demo_store_sound: "sound_store demo_store"
  by (simp add: sound_store_def demo_store_def new_type_def plain_field_def feature_children_def validation_children_def)

lemma add_feature_reaches_witness:
  "\<exists>st'. AddFeature ''json'' (Some 2) demo_store = Inr st' \<and> HasFeature (st' ! 3) ''json''"
proof -
  have "\<forall>t \<in> set demo_store. ty_features t = []" by (simp add: demo_store_def new_type_def)
  then have "marked ''json'' demo_store = {}" by (auto simp: marked_def HasFeature_def)
  then have "feature_closed ''json'' demo_store" by (simp add: feature_closed_def)
  from add_feature_reaches [OF demo_store_sound this, of 2] obtain st'
    where st': "AddFeature ''json'' (Some 2) demo_store = Inr st'"
      "\<forall>b < length demo_store. HasFeature (st' ! b) ''json'' \<longleftrightarrow> HasFeature (demo_store ! b) ''json'' \<or> (edge demo_store)\<^sup>*\<^sup>* 2 b"
    by (auto simp: demo_store_def)
  have "edge demo_store 2 0" "edge demo_store 0 3"
    by (simp_all add: edge_def demo_store_def new_type_def plain_field_def feature_children_def)
  then have "(edge demo_store)\<^sup>*\<^sup>* 2 3" by (meson converse_rtranclp_into_rtranclp rtranclp.rtrancl_refl)
  then show ?thesis using st' by (auto simp: demo_store_def)
qed

text \<open>
  C29: \<open>NeedValidation\<close>, which only remembers the path it is on, ends on cyclic types and is true exactly
  when a type that needs validation by itself is reachable.
\<close>

theorem need_validation_reachable:
  assumes "sound_store st" and "\<forall>t \<in> set st. ty_kind t \<noteq> KindConst" and "a < length st"
  shows "NeedValidation st (Some a) = Inr (\<exists>b. (vedge st {})\<^sup>*\<^sup>* a b \<and> needs_locally (st ! b))"
proof -
  have "need_validation (length st) [] st (Some a) = Inr (needy st {} a)"
    using need_validation_needy [OF assms, of "[]" "length st"] by simp
  moreover have "needy st {} a \<longleftrightarrow> (\<exists>b. (vedge st {})\<^sup>*\<^sup>* a b \<and> needs_locally (st ! b))"
    using needy_reaches reaches_needy [OF refl, of a "{}"] by blast
  ultimately show ?thesis by (simp add: NeedValidation_def)
qed

lemma need_validation_reachable_witness:
  "NeedValidation demo_store (Some 2) = Inr (\<exists>b. (vedge demo_store {})\<^sup>*\<^sup>* 2 b \<and> needs_locally (demo_store ! b))"
  by (rule need_validation_reachable [OF demo_store_sound]) (simp_all add: demo_store_def new_type_def)

end
