(* ===== verification/TypeStore.thy ===== *)
theory TypeStore
  imports Types
begin

text \<open>
  Interfaces and the table of named types: internal/ir/type_iface.go, internal/lowering/tstorage.go
  and genctx.go. The table maps the name of a public type, or a schema reference with an encoding,
  to the type.
\<close>

section \<open>Interfaces\<close>

definition CanHaveMethods :: "itype \<Rightarrow> bool" where
  "CanHaveMethods t \<longleftrightarrow> ty_kind t \<notin> {KindPrimitive, KindArray, KindPointer, KindAny}"

definition set_add :: "'a \<Rightarrow> 'a list \<Rightarrow> 'a list" where
  "set_add x xs = (if x \<in> set xs then xs else xs @ [x])"

lemma set_set_add [simp]: "set (set_add x xs) = insert x (set xs)"
  by (auto simp: set_add_def)

text \<open>Both ends of the relation are updated, also when the two addresses are the same.\<close>

definition Implement :: "tref \<Rightarrow> tref \<Rightarrow> store \<Rightarrow> terr + store" where
  "Implement t i st =
     (if \<not> CanHaveMethods (st ! t) \<or> ty_kind (st ! i) \<noteq> KindInterface then Inl Unreachable
      else
        let st1 = st[i := (st ! i)\<lparr>ty_implementations := set_add t (ty_implementations (st ! i))\<rparr>]
        in Inr (st1[t := (st1 ! t)\<lparr>ty_implements := set_add i (ty_implements (st1 ! t))\<rparr>]))"

definition Unimplement :: "tref \<Rightarrow> tref \<Rightarrow> store \<Rightarrow> terr + store" where
  "Unimplement t i st =
     (if \<not> CanHaveMethods (st ! t) \<or> ty_kind (st ! i) \<noteq> KindInterface then Inl Unreachable
      else
        let st1 = st[i := (st ! i)\<lparr>ty_implementations := removeAll t (ty_implementations (st ! i))\<rparr>]
        in Inr (st1[t := (st1 ! t)\<lparr>ty_implements := removeAll i (ty_implements (st1 ! t))\<rparr>]))"

definition AddMethodSignature :: "tref \<Rightarrow> string \<Rightarrow> string \<Rightarrow> store \<Rightarrow> terr + store" where
  "AddMethodSignature t name signature st =
     (if ty_kind (st ! t) \<noteq> KindInterface then Inl Unreachable
      else Inr (st[t := (st ! t)\<lparr>ty_methods := smap_set (ty_methods (st ! t)) name (name @ signature)\<rparr>]))"

definition AddMethod :: "tref \<Rightarrow> string \<Rightarrow> store \<Rightarrow> terr + store" where
  "AddMethod t name st = AddMethodSignature t name ''()'' st"

definition DeclareMethod :: "tref \<Rightarrow> string \<Rightarrow> store \<Rightarrow> terr + store" where
  "DeclareMethod t method st =
     (if \<not> CanHaveMethods (st ! t) then Inl Unreachable
      else Inr (st[t := (st ! t)\<lparr>ty_declared := set_add method (ty_declared (st ! t))\<rparr>]))"

definition HasDeclaredMethod :: "store \<Rightarrow> tref option \<Rightarrow> string \<Rightarrow> bool" where
  "HasDeclaredMethod st t method = (case t of None \<Rightarrow> False | Some a \<Rightarrow> method \<in> set (ty_declared (st ! a)))"

text \<open>\<open>maps.Copy\<close>, the method tables of all implemented interfaces, and the sorted signatures.\<close>

definition copy_map :: "'v smap \<Rightarrow> 'v smap \<Rightarrow> 'v smap" where
  "copy_map dst src = foldl (\<lambda>m (k, v). smap_set m k v) dst src"

definition Methods :: "store \<Rightarrow> tref \<Rightarrow> terr + string list" where
  "Methods st t =
     (if ty_kind (st ! t) = KindInterface then
        Inr (map (\<lambda>n. the (map_of (ty_methods (st ! t)) n)) (sorted_keys (ty_methods (st ! t))))
      else if ty_kind (st ! t) \<in> {KindStruct, KindMap, KindAlias, KindEnum, KindGeneric, KindSum, KindStream} then
        let ms = foldl (\<lambda>m i. copy_map m (ty_methods (st ! i))) [] (ty_implements (st ! t))
        in Inr (map (\<lambda>n. the (map_of ms n)) (sorted_keys ms))
      else Inl Unreachable)"

definition ListImplementations :: "store \<Rightarrow> tref \<Rightarrow> terr + tref list" where
  "ListImplementations st t =
     (if ty_kind (st ! t) \<noteq> KindInterface then Inl Unreachable
      else Inr (sort_key (\<lambda>a. ty_name (st ! a)) (ty_implementations (st ! t))))"

section \<open>The table of types\<close>

type_synonym schema_key = "string \<times> string \<times> string"

record tstorage =
  tst_refs :: "(schema_key \<times> tref) list"
  tst_types :: "tref smap"

definition newTStorage :: tstorage where
  "newTStorage = \<lparr>tst_refs = [], tst_types = []\<rparr>"

datatype save_err = NameConflict string | RefConflict schema_key | Panic terr

definition public_kinds :: "kind list" where
  "public_kinds = [KindInterface, KindStruct, KindMap, KindEnum, KindAlias, KindGeneric, KindSum, KindStream]"

fun add_features :: "string list \<Rightarrow> tref \<Rightarrow> store \<Rightarrow> terr + store" where
  "add_features [] t st = Inr st"
| "add_features (f # fs) t st = bind_res (AddFeature f (Some t) st) (add_features fs t)"

fun implement_all :: "tref list \<Rightarrow> tref \<Rightarrow> store \<Rightarrow> terr + store" where
  "implement_all [] t st = Inr st"
| "implement_all (i # is) t st = bind_res (Implement t i st) (implement_all is t)"

text \<open>A type replaces another one of the same name: it takes over its features and interfaces.\<close>

definition inherit :: "tref \<Rightarrow> tref \<Rightarrow> store \<Rightarrow> terr + store" where
  "inherit t conf st =
     bind_res (add_features (ty_features (st ! conf)) t st) (\<lambda>st1.
       implement_all (ty_implements (st ! conf)) t st1)"

definition put_type :: "tstorage \<Rightarrow> string \<Rightarrow> tref \<Rightarrow> tstorage" where
  "put_type s name t = s\<lparr>tst_types := smap_set (tst_types s) name t\<rparr>"

text \<open>The comparison of two generic types dereferences both \<open>GenericOf\<close>.\<close>

definition saveType :: "tref \<Rightarrow> tstorage \<times> store \<Rightarrow> save_err + tstorage \<times> store" where
  "saveType t = (\<lambda>(s, st).
     if ty_kind (st ! t) \<notin> set public_kinds then Inl (Panic Unreachable)
     else case map_of (tst_types s) (ty_name (st ! t)) of
       None \<Rightarrow> Inr (put_type s (ty_name (st ! t)) t, st)
     | Some conf \<Rightarrow>
         if ty_kind (st ! t) \<noteq> KindGeneric then Inl (NameConflict (ty_name (st ! t)))
         else case (ty_generic_of (st ! t), ty_generic_of (st ! conf)) of
           (Some g, Some g') \<Rightarrow>
             if ty_external (st ! g) = ty_external (st ! g') then
               bind_res (map_err Panic (inherit t conf st)) (\<lambda>st1. Inr (put_type s (ty_name (st ! t)) t, st1))
             else Inl (NameConflict (ty_name (st ! t)))
         | _ \<Rightarrow> Inl (Panic NilType))"

definition saveRef :: "schema_key \<Rightarrow> tref \<Rightarrow> tstorage \<times> store \<Rightarrow> save_err + tstorage \<times> store" where
  "saveRef key t = (\<lambda>(s, st).
     if map_of (tst_refs s) key \<noteq> None then Inl (RefConflict key)
     else if map_of (tst_types s) (ty_name (st ! t)) \<noteq> None then Inl (NameConflict (ty_name (st ! t)))
     else Inr (put_type (s\<lparr>tst_refs := (key, t) # tst_refs s\<rparr>) (ty_name (st ! t)) t, st))"

definition base_of :: "store \<Rightarrow> tref \<Rightarrow> tref" where
  "base_of st t = (case ty_generic_of (st ! t) of Some g \<Rightarrow> g | None \<Rightarrow> t)"

definition sameBase :: "store \<Rightarrow> tref \<Rightarrow> tref \<Rightarrow> bool" where
  "sameBase st t1 t2 \<longleftrightarrow>
     (let a = st ! base_of st t1; b = st ! base_of st t2 in
      ty_kind a = KindAlias \<and> ty_kind b = KindAlias \<and> ty_name a = ty_name b
      \<or> ty_kind a = KindPrimitive \<and> ty_kind b = KindPrimitive \<and> ty_primitive a = ty_primitive b
      \<or> ty_kind a = ty_kind b \<and> (case (ty_schema a, ty_schema b) of
            (Some x, Some y) \<Rightarrow> ts_type x = ts_type y \<and> ty_name a = ty_name b
          | _ \<Rightarrow> False))"

text \<open>\<open>merge\<close>: check the references, check the types, then copy both tables.\<close>

fun check_refs :: "tstorage \<Rightarrow> store \<Rightarrow> (schema_key \<times> tref) list \<Rightarrow> save_err option" where
  "check_refs s st [] = None"
| "check_refs s st ((ref, t) # refs) =
     (if map_of (tst_refs s) ref \<noteq> None then Some (RefConflict ref)
      else if map_of (tst_types s) (ty_name (st ! t)) \<noteq> None then Some (NameConflict (ty_name (st ! t)))
      else check_refs s st refs)"

fun check_types :: "tstorage \<Rightarrow> tref smap \<Rightarrow> store \<Rightarrow> save_err + store" where
  "check_types s [] st = Inr st"
| "check_types s ((name, t) # types) st =
     (case map_of (tst_types s) name of
        None \<Rightarrow> check_types s types st
      | Some conf \<Rightarrow>
          if ty_kind (st ! t) = KindGeneric \<and> sameBase st t conf then
            bind_res (map_err Panic (inherit t conf st)) (check_types s types)
          else Inl (NameConflict name))"

definition copy_refs :: "store \<Rightarrow> (schema_key \<times> tref) list \<Rightarrow> tstorage \<Rightarrow> tstorage" where
  "copy_refs st refs s =
     foldl (\<lambda>s (ref, t). put_type (s\<lparr>tst_refs := (ref, t) # tst_refs s\<rparr>) (ty_name (st ! t)) t) s refs"

definition merge :: "tstorage \<Rightarrow> tstorage \<times> store \<Rightarrow> save_err + tstorage \<times> store" where
  "merge other = (\<lambda>(s, st).
     guard_res (check_refs s st (tst_refs other))
       (bind_res (check_types s (tst_types other) st) (\<lambda>st1.
         let s1 = copy_refs st1 (tst_refs other) s
         in Inr (s1\<lparr>tst_types := copy_map (tst_types s1) (tst_types other)\<rparr>, st1))))"

record genctx =
  gx_global :: tstorage
  gx_local :: tstorage

definition lookupRef :: "genctx \<Rightarrow> schema_key \<Rightarrow> tref option" where
  "lookupRef g key = (case map_of (tst_refs (gx_global g)) key of
       Some t \<Rightarrow> Some t
     | None \<Rightarrow> map_of (tst_refs (gx_local g)) key)"

end
