(* ===== verification/Collections.thy ===== *)
theory Collections
  imports Prelude "HOL-Library.Word" "HOL-Library.Signed_Division"
begin

text \<open>
  Bit sets in byte slices, internal/bitset/bitset.go, with the set of naturals they stand for, and the
  slice helpers of internal/xslices.
\<close>

unbundle bit_operations_syntax

section \<open>Bit sets\<close>

type_synonym bitset = "8 word list"

text \<open>\<open>set << uint8(bitIdx)\<close>; a shift by eight or more gives zero.\<close>

definition bit_mask :: "bool \<Rightarrow> int \<Rightarrow> 8 word" where
  "bit_mask v bitIdx = push_bit (unat (word_of_int bitIdx :: 8 word)) (if v then 1 else 0)"

text \<open>The slice grows to hold the byte; a negative byte index panics (\<open>None\<close>).\<close>

definition bitset_Set :: "bitset \<Rightarrow> int \<Rightarrow> bool \<Rightarrow> bitset option" where
  "bitset_Set r i v =
     (let maskIdx = i sdiv 8;
          r1 = r @ replicate (nat (maskIdx + 1) - length r) 0;
          bitIdx = i smod 8
      in if maskIdx < 0 then None
         else Some (r1[nat maskIdx := r1 ! nat maskIdx OR bit_mask v bitIdx]))"

text \<open>The loop of \<open>Build\<close>: the index of the element is the index of the bit.\<close>

fun build_loop :: "(nat \<Rightarrow> 'a \<Rightarrow> bool) \<Rightarrow> nat \<Rightarrow> 'a list \<Rightarrow> bitset \<Rightarrow> bitset" where
  "build_loop cb i [] r = r"
| "build_loop cb i (x # xs) r =
     (let maskIdx = i div 8;
          r1 = (if length r \<le> maskIdx then r @ [0] else r)
      in build_loop cb (Suc i) xs (r1[maskIdx := r1 ! maskIdx OR bit_mask (cb i x) (int (i mod 8))]))"

definition Build :: "'a list \<Rightarrow> (nat \<Rightarrow> 'a \<Rightarrow> bool) \<Rightarrow> bitset" where
  "Build s cb = build_loop cb 0 s [0]"

section \<open>The set that is meant\<close>

definition members :: "bitset \<Rightarrow> nat set" where
  "members r = {n. n div 8 < length r \<and> bit (r ! (n div 8)) (n mod 8)}"

lemma members_append_zero [simp]: "members (r @ replicate k 0) = members r"
proof (rule set_eqI)
  fix n
  show "n \<in> members (r @ replicate k 0) \<longleftrightarrow> n \<in> members r"
  proof (cases "n div 8 < length r")
    case True
    then show ?thesis by (simp add: members_def nth_append)
  next
    case False
    then have "n div 8 < length r + k \<Longrightarrow> (r @ replicate k 0) ! (n div 8) = 0" by (simp add: nth_append)
    then show ?thesis using False by (simp add: members_def)
  qed
qed

lemma bit_mask_bit:
  assumes "k < 8" and "j < 8"
  shows "bit (bit_mask v (int k)) j \<longleftrightarrow> v \<and> j = k"
proof -
  have "unat (word_of_int (int k) :: 8 word) = k"
    using assms(1) by (simp add: unsigned_of_nat take_bit_nat_eq_self)
  then show ?thesis using assms by (auto simp: bit_mask_def bit_simps)
qed

lemma members_update:
  assumes "n div 8 < length r"
  shows "members (r[n div 8 := r ! (n div 8) OR bit_mask v (int (n mod 8))]) = (if v then insert n (members r) else members r)"
proof -
  let ?new = "r ! (n div 8) OR bit_mask v (int (n mod 8))"
  have "m \<in> members (r[n div 8 := ?new]) \<longleftrightarrow> m \<in> members r \<or> v \<and> m = n" for m
  proof (cases "m div 8 = n div 8")
    case True
    have "m = n" if "m mod 8 = n mod 8"
      using div_mult_mod_eq [of m 8] div_mult_mod_eq [of n 8] unfolding True that by (rule trans [OF sym])
    then have same: "m mod 8 = n mod 8 \<longleftrightarrow> m = n" by blast
    have mask: "bit (bit_mask v (int (n mod 8))) (m mod 8) \<longleftrightarrow> v \<and> m mod 8 = n mod 8" by (rule bit_mask_bit) simp_all
    have "m \<in> members (r[n div 8 := ?new]) \<longleftrightarrow> bit ?new (m mod 8)"
      unfolding members_def mem_Collect_eq True length_list_update nth_list_update_eq [OF assms] using assms by blast
    also have "\<dots> \<longleftrightarrow> bit (r ! (m div 8)) (m mod 8) \<or> v \<and> m = n" unfolding bit_or_iff mask same True ..
    also have "\<dots> \<longleftrightarrow> m \<in> members r \<or> v \<and> m = n"
      unfolding members_def mem_Collect_eq True using assms by blast
    finally show ?thesis .
  next
    case False
    then have other: "r[n div 8 := ?new] ! (m div 8) = r ! (m div 8)" by (intro nth_list_update_neq) simp
    have "m \<noteq> n" using False by blast
    then show ?thesis unfolding members_def mem_Collect_eq length_list_update other by blast
  qed
  then have eq: "members (r[n div 8 := ?new]) = {m. m \<in> members r \<or> v \<and> m = n}"
    by (intro set_eqI) (simp only: mem_Collect_eq)
  show ?thesis
  proof (cases v)
    case True
    show ?thesis unfolding eq if_P [OF True] using True by blast
  next
    case False
    show ?thesis unfolding eq if_not_P [OF False] using False by blast
  qed
qed

lemma sdiv_nat: "0 \<le> (i :: int) \<Longrightarrow> i sdiv 8 = i div 8" "0 \<le> (i :: int) \<Longrightarrow> i smod 8 = i mod 8"
  by (simp_all add: signed_divide_int_def signed_modulo_int_def minus_mult_div_eq_mod mult.commute sgn_if)

lemma bitset_Set_refines:
  assumes "0 \<le> i"
  shows "\<exists>r'. bitset_Set r i v = Some r' \<and> members r' = (if v then insert (nat i) (members r) else members r)
    \<and> length r' = max (length r) (Suc (nat i div 8))"
proof -
  define n where "n = nat i"
  have i: "i = int n" using assms by (simp add: n_def)
  let ?r = "r @ replicate (Suc (n div 8) - length r) 0"
  have idx: "nat (i sdiv 8) = n div 8" "i smod 8 = int (n mod 8)" "\<not> i sdiv 8 < 0" "nat (i sdiv 8 + 1) = Suc (n div 8)"
    using assms by (simp_all add: sdiv_nat i zmod_int nat_div_distrib flip: zdiv_int)
  have run: "bitset_Set r i v = Some (?r[n div 8 := ?r ! (n div 8) OR bit_mask v (int (n mod 8))])"
    unfolding bitset_Set_def Let_def using idx by (simp only: if_False)
  have len: "length ?r = max (length r) (Suc (n div 8))" by simp
  then have "n div 8 < length ?r" by simp
  from members_update [OF this, of v] show ?thesis using run len n_def by (simp add: members_append_zero)
qed

lemma build_loop_refines:
  "0 < length r \<Longrightarrow> length r = max 1 ((i + 7) div 8) \<Longrightarrow> members r \<subseteq> {..<i} \<Longrightarrow>
   members (build_loop cb i xs r) = members r \<union> {i + k |k. k < length xs \<and> cb (i + k) (xs ! k)}
   \<and> length (build_loop cb i xs r) = max 1 ((i + length xs + 7) div 8)"
proof (induction xs arbitrary: i r)
  case (Cons x xs)
  let ?r1 = "if length r \<le> i div 8 then r @ [0] else r"
  let ?r2 = "?r1[i div 8 := ?r1 ! (i div 8) OR bit_mask (cb i x) (int (i mod 8))]"
  have len: "length ?r1 = max 1 ((Suc i + 7) div 8)"
    using Cons.prems(2) by (auto simp: max_def split: if_splits)
  have in_range: "i div 8 < length ?r1" using len by (auto simp: max_def)
  have "members ?r1 = members r" using members_append_zero [of r 1] by simp
  then have r2: "members ?r2 = (if cb i x then insert i (members r) else members r)"
    using members_update [OF in_range, of "cb i x"] by simp
  have "members ?r2 \<subseteq> {..<Suc i}" using r2 Cons.prems(3) by auto
  moreover have "length ?r2 = max 1 ((Suc i + 7) div 8)" using len by simp
  ultimately have IH: "members (build_loop cb (Suc i) xs ?r2) = members ?r2 \<union> {Suc i + k |k. k < length xs \<and> cb (Suc i + k) (xs ! k)}"
      "length (build_loop cb (Suc i) xs ?r2) = max 1 ((Suc i + length xs + 7) div 8)"
    using Cons.IH [of ?r2 "Suc i"] len in_range by auto
  have "{i + k |k. k < length (x # xs) \<and> cb (i + k) ((x # xs) ! k)}
      = (if cb i x then {i} else {}) \<union> {Suc i + k |k. k < length xs \<and> cb (Suc i + k) (xs ! k)}"
    by (auto simp: less_Suc_eq_0_disj)
  then show ?case using IH r2 by (simp add: Let_def)
qed auto

text \<open>
  C39: a bit set implements a set of naturals: building it from a slice gives the indices whose elements satisfy the
  predicate, in one byte for every eight elements begun and one byte for the empty slice. Setting a bit to true adds its
  index, setting a bit that is not set to false leaves the set without it, and the slice grows no further than the byte
  of the index. A bit that is set is not cleared, see \<open>Set_does_not_clear\<close>.
\<close>

theorem bitset_refines_set:
  assumes "v \<or> i \<notin> members r"
  shows "members (Build s cb) = {n. n < length s \<and> cb n (s ! n)} \<and> length (Build s cb) = max 1 ((length s + 7) div 8)
   \<and> bitset_Set r (int i) v \<noteq> None
   \<and> members (the (bitset_Set r (int i) v)) = (if v then insert i (members r) else members r - {i})
   \<and> length (the (bitset_Set r (int i) v)) = max (length r) (Suc (i div 8))"
proof -
  have "members [0] = {}" by (auto simp: members_def)
  then have "members (Build s cb) = {0 + k |k. k < length s \<and> cb (0 + k) (s ! k)}"
      "length (Build s cb) = max 1 ((length s + 7) div 8)"
    using build_loop_refines [of "[0]" 0 cb s] by (simp_all add: Build_def)
  moreover obtain r' where "bitset_Set r (int i) v = Some r'" "members r' = (if v then insert i (members r) else members r)"
      "length r' = max (length r) (Suc (i div 8))"
    using bitset_Set_refines [of "int i" r v] by auto
  ultimately show ?thesis using assms by auto
qed

lemma bitset_refines_set_witness:
  "members (the (bitset_Set [] 9 True)) = {9} \<and> length (the (bitset_Set [] 9 True)) = 2
   \<and> members (the (bitset_Set [] 9 False)) = {}"
proof -
  have m: "members [] = {}" by (simp add: members_def)
  have "members (the (bitset_Set [] (int 9) True)) = {9} \<and> length (the (bitset_Set [] (int 9) True)) = 2"
    using bitset_refines_set [of True 9 "[]" "[] :: nat list" "\<lambda>_ _. True"] unfolding m by simp
  moreover have "members (the (bitset_Set [] (int 9) False)) = {}"
    using bitset_refines_set [of False 9 "[]" "[] :: nat list" "\<lambda>_ _. True"] unfolding m by simp
  ultimately show ?thesis by simp
qed

lemma Set_does_not_clear: "i \<in> members r \<Longrightarrow> i \<in> members (the (bitset_Set r (int i) False))"
  using bitset_Set_refines [of "int i" r False] by auto

section \<open>Slices\<close>

text \<open>\<open>Filter\<close> works in place: the kept elements are moved to the front, and the slice is cut.\<close>

fun filter_loop :: "('a \<Rightarrow> bool) \<Rightarrow> nat \<Rightarrow> nat \<Rightarrow> 'a list \<Rightarrow> nat \<times> 'a list" where
  "filter_loop keep 0 n s = (n, s)"
| "filter_loop keep (Suc k) n s =
     (let v = s ! (length s - Suc k) in
      if keep v then filter_loop keep k (Suc n) (s[n := v]) else filter_loop keep k n s)"

definition slice_filter :: "'a list \<Rightarrow> ('a \<Rightarrow> bool) \<Rightarrow> 'a list" where
  "slice_filter s keep = (let (n, s') = filter_loop keep (length s) 0 s in take n s')"

definition FindFunc :: "'a list \<Rightarrow> ('a \<Rightarrow> bool) \<Rightarrow> 'a option" where
  "FindFunc s equal = List.find equal s"

text \<open>The range reads each element before a kept one overwrites it.\<close>

lemma filter_loop_filters:
  "length done0 \<le> length mid \<Longrightarrow> n = length done0 \<Longrightarrow> s = done0 @ drop (length done0) mid @ rest \<Longrightarrow>
   (let (m, s') = filter_loop keep (length rest) n s in take m s') = done0 @ filter keep rest"
proof (induction rest arbitrary: done0 mid n s)
  case (Cons x rest)
  have nth: "s ! (length s - Suc (length rest)) = x"
    using Cons.prems by (simp add: nth_append)
  show ?case
  proof (cases "keep x")
    case True
    have "s[n := x] = (done0 @ [x]) @ drop (length (done0 @ [x])) (mid @ [x]) @ rest"
    proof (cases "length done0 = length mid")
      case False
      then have "length done0 < length mid" using Cons.prems(1) by simp
      then have "drop (length done0) mid = mid ! length done0 # drop (Suc (length done0)) mid"
        by (rule Cons_nth_drop_Suc [symmetric])
      then show ?thesis using Cons.prems False by (simp add: list_update_append)
    qed (use Cons.prems in \<open>simp add: list_update_append\<close>)
    then show ?thesis
      using True nth Cons.IH [of "done0 @ [x]" "mid @ [x]" "Suc n" "s[n := x]"] Cons.prems by (simp add: Let_def)
  next
    case False
    then show ?thesis
      using nth Cons.IH [of done0 "mid @ [x]" n s] Cons.prems by (simp add: Let_def)
  qed
qed simp

lemma slice_filter_is_filter: "slice_filter s keep = filter keep s"
  using filter_loop_filters [of "[]" "[]" 0 s s keep] by (simp add: slice_filter_def)

end
