(* ===== verification/TypeJson.thy ===== *)
theory TypeJson
  imports TypeStore Collections
begin

text \<open>
  Names and encodings of types: \<open>Go\<close>, \<open>NamePostfix\<close> and the mapping of discriminators (internal/ir/type.go), the rules for
  JSON (json.go, field.go), external types (external.go), and the helpers that choose codec functions
  (template_helpers.go). Functions that follow pointers from type to type take fuel, one for each
  pointer; a panic is an error.
\<close>

unbundle bit_operations_syntax

section \<open>External types\<close>

definition ExternalNative :: int where "ExternalNative = 1"
definition ExternalJSON :: int where "ExternalJSON = 2"
definition ExternalText :: int where "ExternalText = 4"
definition ExternalBinary :: int where "ExternalBinary = 8"

lemmas external_bits = ExternalNative_def ExternalJSON_def ExternalText_def ExternalBinary_def

definition ex_has :: "int \<Rightarrow> int \<Rightarrow> bool" where
  "ex_has e kind \<longleftrightarrow> e AND kind \<noteq> 0"

text \<open>Every bit up to the highest set one is tried; the four encodings are the lowest.\<close>

definition external_text :: "int \<Rightarrow> string" where
  "external_text e =
     (if e = 0 then ''External''
      else concat_sep ''|''
        (concat (map (\<lambda>(i, name). if ex_has e i then [name] else [])
          [(ExternalNative, ''Native''), (ExternalJSON, ''JSON''), (ExternalText, ''Text''), (ExternalBinary, ''Binary'')])))"

definition external_primitive :: "external_type \<Rightarrow> string" where
  "external_primitive e =
     (let pkg = (if ex_import_alias e \<noteq> [] then ex_import_alias e else ex_package_name e) in
      (if pkg \<noteq> [] then pkg @ ''.'' else []) @ ex_type_name e)"

datatype path_err = Unmatched | ExpectedDot | NoDot | PathIndex | LoadFailed

text \<open>
  The runes of the path are indexed up to its length in bytes. \<open>find_close\<close> is the loop for the closing
  parenthesis; an index past the runes panics.
\<close>

function find_close :: "rune list \<Rightarrow> nat \<Rightarrow> nat \<Rightarrow> path_err + nat" where
  "find_close runes n j =
     (if n \<le> j then Inr j
      else if length runes \<le> j then Inl PathIndex
      else if runes ! j = byte_of CHR '')'' then Inr j
      else find_close runes n (Suc j))"
  by pat_completeness auto
termination
  by (relation "measure (\<lambda>(runes, n, j). n - j)") auto

declare find_close.simps [simp del]

text \<open>\<open>runes[i] == c\<close> after \<open>i < n\<close>.\<close>

definition rune_is :: "rune list \<Rightarrow> nat \<Rightarrow> nat \<Rightarrow> char \<Rightarrow> path_err + bool" where
  "rune_is runes n i c =
     (if n \<le> i then Inr False
      else if length runes \<le> i then Inl PathIndex
      else Inr (runes ! i = byte_of c))"

definition parseTypePath :: "string \<Rightarrow> path_err + string \<times> string \<times> bool" where
  "parseTypePath input =
     (let n = length input; runes = runes_of input in
      bind_res (rune_is runes n 0 CHR ''*'') (\<lambda>isPointer.
      let i = (if isPointer then 1 else 0) in
      bind_res (rune_is runes n i CHR ''('') (\<lambda>paren.
        if paren then
          bind_res (find_close runes n (Suc i)) (\<lambda>j.
            if j = n then Inl Unmatched
            else bind_res (rune_is runes n (Suc j) CHR ''.'') (\<lambda>dot.
              if \<not> dot then Inl ExpectedDot
              else Inr (string_of_runes (take (j - Suc i) (drop (Suc i) runes)),
                        string_of_runes (drop (Suc (Suc j)) runes), isPointer)))
        else (case last_index_byte (drop i input) CHR ''.'' of
            None \<Rightarrow> Inl NoDot
          | Some d \<Rightarrow> Inr (take d (drop i input), drop (Suc d) (drop i input), isPointer)))))"

text \<open>\<open>loadExternal\<close> asks the Go toolchain for the package's name and the encodings of the type.\<close>

type_synonym type_loader = "string \<Rightarrow> string \<Rightarrow> (string \<times> int \<times> int) option"

definition getExternalType :: "type_loader \<Rightarrow> string \<Rightarrow> path_err + external_type" where
  "getExternalType load input =
     bind_res (parseTypePath input) (\<lambda>(pkgPath, typeName, isPointer).
       case load pkgPath typeName of
         None \<Rightarrow> Inl LoadFailed
       | Some (pkgName, encode, decode) \<Rightarrow>
           Inr \<lparr>ex_package_path = pkgPath, ex_package_name = pkgName, ex_import_alias = [], ex_type_name = typeName,
                 ex_encode = encode, ex_decode = decode, ex_pointer = isPointer\<rparr>)"

definition External :: "type_loader \<Rightarrow> type_schema \<Rightarrow> path_err + itype" where
  "External load s =
     (if CHR ''/'' \<notin> set (ts_ogen_type s) \<and> CHR ''.'' \<notin> set (ts_ogen_type s) then
        Inr ((new_type KindPrimitive [])\<lparr>ty_primitive := ts_ogen_type s, ty_schema := Some s,
               ty_external := no_external\<lparr>ex_type_name := ts_ogen_type s\<rparr>\<rparr>)
      else bind_res (getExternalType load (ts_ogen_type s)) (\<lambda>ex.
        Inr ((new_type KindPrimitive [])\<lparr>ty_primitive := external_primitive ex, ty_schema := Some s, ty_external := ex\<rparr>)))"

section \<open>Go names\<close>

fun go_name :: "nat \<Rightarrow> store \<Rightarrow> tref option \<Rightarrow> terr + string" where
  "go_name n st None = Inl NilType"
| "go_name 0 st (Some a) = Inl TOutOfFuel"
| "go_name (Suc n) st (Some a) =
     (let t = st ! a in case ty_kind t of
        KindPrimitive \<Rightarrow> Inr (ty_primitive t)
      | KindAny \<Rightarrow> Inr (if HasFeature t ''uri'' then ''any'' else ''jx.Raw'')
      | KindArray \<Rightarrow> bind_res (go_name n st (ty_item t)) (\<lambda>s. Inr (''[]'' @ s))
      | KindPointer \<Rightarrow> bind_res (go_name n st (ty_pointer_to t)) (\<lambda>s. Inr (''*'' @ s))
      | KindConst \<Rightarrow> Inl Unreachable
      | _ \<Rightarrow> Inr (ty_name t))"

definition kind_text :: "kind \<Rightarrow> string" where
  "kind_text k = (case k of KindPrimitive \<Rightarrow> ''primitive'' | KindArray \<Rightarrow> ''array'' | KindMap \<Rightarrow> ''map''
     | KindAlias \<Rightarrow> ''alias'' | KindConst \<Rightarrow> ''const'' | KindEnum \<Rightarrow> ''enum'' | KindStruct \<Rightarrow> ''struct''
     | KindPointer \<Rightarrow> ''pointer'' | KindInterface \<Rightarrow> ''interface'' | KindGeneric \<Rightarrow> ''generic''
     | KindSum \<Rightarrow> ''sum'' | KindAny \<Rightarrow> ''any'' | KindStream \<Rightarrow> ''stream'')"

text \<open>\<open>Equal\<close> of equal.go: kind, primitive and Go name.\<close>

definition type_equal :: "store \<Rightarrow> tref \<Rightarrow> tref \<Rightarrow> terr + bool" where
  "type_equal st a b =
     (if ty_kind (st ! a) \<noteq> ty_kind (st ! b) \<or> ty_primitive (st ! a) \<noteq> ty_primitive (st ! b) then Inr False
      else bind_res (go_name (Suc (length st)) st (Some a)) (\<lambda>x.
           bind_res (go_name (Suc (length st)) st (Some b)) (\<lambda>y. Inr (x = y))))"

text \<open>The formats that \<open>NamePostfix\<close> and \<open>Format\<close> name alike; the numeric ones are treated apart.\<close>

definition numeric_formats :: "string list" where
  "numeric_formats = [''int'', ''int8'', ''int16'', ''int32'', ''int64'',
     ''uint'', ''uint8'', ''uint16'', ''uint32'', ''uint64'', ''float32'', ''float64'']"

definition type_prefix :: "type_schema \<Rightarrow> string \<Rightarrow> string" where
  "type_prefix s f = (if ts_type s = ''string'' then ''String'' @ Capitalize upper_rune f else f)"

definition format_names :: "type_schema \<Rightarrow> string smap" where
  "format_names s = [(''uuid'', ''UUID''), (''date'', ''Date''), (''time'', ''Time''), (''date-time'', ''DateTime''),
     (''http-date'', ''HTTPDate''), (''duration'', ''Duration''), (''ip'', ''IP''), (''ipv4'', ''IPv4''),
     (''ipv6'', ''IPv6''), (''uri'', ''URI''),
     (''unix'', type_prefix s ''UnixSeconds''), (''unix-seconds'', type_prefix s ''UnixSeconds''),
     (''unix-nano'', type_prefix s ''UnixNano''), (''unix-micro'', type_prefix s ''UnixMicro''),
     (''unix-milli'', type_prefix s ''UnixMilli''), (''decimal'', type_prefix s ''Decimal'')]"

definition primitive_postfix :: "itype \<Rightarrow> type_schema \<Rightarrow> string" where
  "primitive_postfix t s =
     (let f = ts_format s in
      if f \<in> set numeric_formats then
        (if ts_type s \<noteq> ''string'' then ty_primitive t else ''String'' @ Capitalize upper_rune f)
      else (case map_of (format_names s) f of Some name \<Rightarrow> name | None \<Rightarrow> ty_primitive t))"

fun name_postfix :: "nat \<Rightarrow> store \<Rightarrow> tref option \<Rightarrow> terr + string" where
  "name_postfix n st None = Inl NilType"
| "name_postfix 0 st (Some a) = Inl TOutOfFuel"
| "name_postfix (Suc n) st (Some a) =
     (let t = st ! a in case ty_kind t of
        KindPrimitive \<Rightarrow>
          (if ty_primitive t = ''struct{}'' then Inr ''Null''
           else (case ty_schema t of
               None \<Rightarrow> Inl NilType
             | Some s \<Rightarrow> if ts_ogen_type s \<noteq> [] \<and> ts_ogen_name s \<noteq> [] then Inr (ts_ogen_name s)
                         else Inr (primitive_postfix t s)))
      | KindArray \<Rightarrow> bind_res (name_postfix n st (ty_item t)) (\<lambda>s. Inr (s @ ''Array''))
      | KindAny \<Rightarrow> Inr ''Any''
      | KindPointer \<Rightarrow> bind_res (name_postfix n st (ty_pointer_to t)) (\<lambda>s. Inr (s @ ''Pointer''))
      | KindConst \<Rightarrow> Inl Unreachable
      | _ \<Rightarrow> Inr (ty_name t))"

section \<open>JSON\<close>

text \<open>The fields that are encoded, given the names to leave out.\<close>

definition json_fields :: "string list \<Rightarrow> itype \<Rightarrow> field list" where
  "json_fields except t = filter (\<lambda>f. \<not> (fd_json f = [] \<or> fd_json f \<in> set except)) (ty_fields t)"

definition AnyFields :: "string list \<Rightarrow> itype \<Rightarrow> bool" where
  "AnyFields except t \<longleftrightarrow>
     list_ex (\<lambda>f. fd_inline f \<noteq> InlineNone \<or> fd_json f \<noteq> [] \<and> fd_json f \<notin> set except) (ty_fields t)"

definition field_const :: "field \<Rightarrow> jval option" where
  "field_const f = (case fd_spec f of None \<Rightarrow> None | Some s \<Rightarrow> fp_const s)"

fun needs_receiver :: "string list \<Rightarrow> field list \<Rightarrow> bool" where
  "needs_receiver except [] = False"
| "needs_receiver except (f # fs) =
     (if fd_inline f \<noteq> InlineNone then True
      else if fd_json f = [] \<or> fd_json f \<in> set except then needs_receiver except fs
      else if field_const f = None then True
      else needs_receiver except fs)"

text \<open>A field that may be absent, by its type.\<close>

definition field_optional :: "itype \<Rightarrow> bool" where
  "field_optional t \<longleftrightarrow> ty_kind t = KindGeneric \<and> gv_optional (ty_variant t)
     \<or> ty_kind t \<in> {KindStruct, KindMap, KindEnum, KindPointer, KindSum, KindAlias}
       \<and> (ty_nil t = NilOptional \<or> ty_nil t = NilInvalid)
     \<or> ty_kind t = KindArray \<and> ty_nil t = NilOptional
     \<or> ty_kind t = KindAny"

fun first_required :: "store \<Rightarrow> field list \<Rightarrow> nat \<Rightarrow> terr + nat option" where
  "first_required st [] i = Inr None"
| "first_required st (f # fs) i = (case fd_type f of
       None \<Rightarrow> Inl NilType
     | Some a \<Rightarrow> if field_optional (st ! a) then first_required st fs (Suc i) else Inr (Some i))"

definition FirstRequiredIndex :: "store \<Rightarrow> field list \<Rightarrow> terr + nat option" where
  "FirstRequiredIndex st fs = first_required st fs 0"

definition spec_required :: "field \<Rightarrow> bool" where
  "spec_required f \<longleftrightarrow> (case fd_spec f of None \<Rightarrow> False | Some s \<Rightarrow> fp_required s)"

definition HasRequired :: "field list \<Rightarrow> bool" where
  "HasRequired fs \<longleftrightarrow> list_ex spec_required fs"

definition RequiredMask :: "field list \<Rightarrow> bitset" where
  "RequiredMask fs = Build fs (\<lambda>_. spec_required)"

definition AdditionalProps :: "itype \<Rightarrow> field option" where
  "AdditionalProps t = find (\<lambda>f. fd_inline f = InlineAdditional) (ty_fields t)"

definition PatternProps :: "itype \<Rightarrow> field list" where
  "PatternProps t = filter (\<lambda>f. fd_inline f = InlinePattern) (ty_fields t)"

definition SumProps :: "itype \<Rightarrow> field list" where
  "SumProps t = filter (\<lambda>f. fd_inline f = InlineSum) (ty_fields t)"

definition json_format :: "itype \<Rightarrow> string" where
  "json_format t = (case ty_schema t of None \<Rightarrow> [] | Some s \<Rightarrow>
     let f = ts_format s in
     if f = ''mac'' then ''MAC''
     else if f \<in> set numeric_formats then
       (if ts_type s \<noteq> ''string'' then [] else ''String'' @ Capitalize upper_rune f)
     else (case map_of (format_names s) f of Some name \<Rightarrow> name | None \<Rightarrow> []))"

definition schema_type_is :: "itype \<Rightarrow> string \<Rightarrow> bool" where
  "schema_type_is t ty \<longleftrightarrow> (case ty_schema t of None \<Rightarrow> False | Some s \<Rightarrow> ts_type s = ty)"

definition string_primitives :: "string list" where
  "string_primitives = [''string'', ''time.Duration'', ''uuid.UUID'', ''net.HardwareAddr'', ''netip.Addr'', ''url.URL'', ''[]byte'']"

text \<open>The JSON type a value of the type is encoded as; empty if there is none.\<close>

fun json_type :: "nat \<Rightarrow> store \<Rightarrow> tref option \<Rightarrow> terr + string" where
  "json_type n st None = Inl NilType"
| "json_type 0 st (Some a) = Inl TOutOfFuel"
| "json_type (Suc n) st (Some a) =
     (let t = st ! a in
      if IsNumeric t then Inr (if schema_type_is t ''string'' then ''String'' else ''Number'')
      else if ty_kind t = KindArray then Inr ''Array''
      else if ty_kind t = KindStruct \<or> ty_kind t = KindMap then Inr ''Object''
      else if ty_kind t = KindGeneric then json_type n st (ty_generic_of t)
      else if ty_kind t = KindAlias then json_type n st (ty_alias_to t)
      else if ty_primitive t = ''bool'' then Inr ''Bool''
      else if ty_primitive t = ''time.Time'' then Inr (if schema_type_is t ''integer'' then ''Number'' else ''String'')
      else if ty_primitive t \<in> set string_primitives then Inr ''String''
      else if ty_primitive t = ''struct{}'' then Inr ''Null''
      else Inr [])"

fun collect_each :: "(tref option \<Rightarrow> terr + string list) \<Rightarrow> tref option list \<Rightarrow> terr + string list" where
  "collect_each f [] = Inr []"
| "collect_each f (c # cs) = bind_res (f c) (\<lambda>xs. bind_res (collect_each f cs) (\<lambda>ys. Inr (xs @ ys)))"

fun collect_types :: "nat \<Rightarrow> store \<Rightarrow> tref option \<Rightarrow> terr + string list" where
  "collect_types n st None = Inl NilType"
| "collect_types 0 st (Some a) = Inl TOutOfFuel"
| "collect_types (Suc n) st (Some a) =
     (if ty_kind (st ! a) \<noteq> KindSum then Inl Unreachable
      else collect_each (\<lambda>v. bind_res (json_type (Suc (length st)) st v) (\<lambda>typ.
             if typ = [] then collect_types n st v else Inr [typ])) (ty_sum_of (st ! a)))"

definition SumTypes :: "nat \<Rightarrow> store \<Rightarrow> tref \<Rightarrow> terr + string" where
  "SumTypes n st a = bind_res (collect_types n st (Some a)) (\<lambda>types.
     Inr (concat_sep '','' (sort (map (\<lambda>k. ''jx.'' @ k) (remdups types)))))"

definition json_raw :: "itype \<Rightarrow> bool" where
  "json_raw t \<longleftrightarrow> ty_kind t \<in> {KindPrimitive, KindEnum, KindAny}
     \<and> (IsNumeric t \<or> ty_primitive t \<in> {''bool'', ''string'', ''[]byte''} \<or> ty_kind t = KindAny)"

definition unsigned_primitives :: "string list" where
  "unsigned_primitives = [''uint'', ''uint8'', ''uint16'', ''uint32'', ''uint64'']"

definition json_fn :: "itype \<Rightarrow> string" where
  "json_fn t =
     (if \<not> json_raw t then []
      else if ty_kind t = KindAny then ''Raw''
      else if ty_primitive t = ''string'' then ''Str''
      else if ty_primitive t = ''[]byte'' then ''Base64''
      else if ty_primitive t \<in> set unsigned_primitives then
        map (\<lambda>c. if c = CHR ''u'' then CHR ''U'' else if c = CHR ''i'' then CHR ''I'' else c) (take 2 (ty_primitive t)) @ drop 2 (ty_primitive t)
      else Capitalize upper_rune (ty_primitive t))"

definition json_decode :: "itype \<Rightarrow> string" where
  "json_decode t = (if ty_kind t = KindAny then ''RawAppend(nil)'' else json_fn t @ ''()'')"

definition IsBase64 :: "itype \<Rightarrow> bool" where
  "IsBase64 t \<longleftrightarrow> ty_primitive t = ''[]byte''"

text \<open>\<open>quote\<close> is \<open>strconv.Quote\<close>.\<close>

definition TimeFormat :: "(string \<Rightarrow> string) \<Rightarrow> itype \<Rightarrow> string" where
  "TimeFormat quote t = (case ty_schema t of
     None \<Rightarrow> [] | Some s \<Rightarrow> if ts_time_format s = [] then [] else quote (ts_time_format s))"

definition externalType :: "type_schema \<Rightarrow> int \<Rightarrow> int \<Rightarrow> int" where
  "externalType s e prefer =
     (if ex_has e ExternalNative then ExternalNative
      else if ex_has e ExternalBinary \<and> ts_type s = ''string'' \<and> (ts_format s = ''byte'' \<or> ts_format s = ''base64'')
      then ExternalBinary
      else if ex_has e prefer then prefer
      else if ex_has e ExternalJSON then ExternalJSON
      else if ex_has e ExternalText then ExternalText
      else 0)"

definition external_schema :: "itype \<Rightarrow> type_schema option" where
  "external_schema t = (case ty_schema t of Some s \<Rightarrow> if ts_ogen_type s \<noteq> [] then Some s else None | None \<Rightarrow> None)"

definition json_encoder :: "itype \<Rightarrow> string" where
  "json_encoder t = (case external_schema t of
       Some s \<Rightarrow>
         let ext = externalType s (ex_encode (ty_external t)) ExternalJSON in
         (if ts_type s = ''string'' \<and> ext = ExternalText then ''String'' else []) @ external_text ext
     | None \<Rightarrow> json_format t)"

definition json_decoder :: "itype \<Rightarrow> string" where
  "json_decoder t = (case external_schema t of
       Some s \<Rightarrow>
         let ext = externalType s (ex_decode (ty_external t)) ExternalJSON in
         (if ts_type s = ''string'' \<and> ext = ExternalText then ''String'' else []) @ external_text ext
         @ ''['' @ ty_primitive t @ '']''
     | None \<Rightarrow> json_format t)"

datatype sum_json = SumJSONPrimitive | SumJSONFields | SumJSONDiscriminator | SumJSONTypeDiscriminator

fun some_unique :: "store \<Rightarrow> tref option list \<Rightarrow> terr + bool" where
  "some_unique st [] = Inr False"
| "some_unique st (None # vs) = Inl NilType"
| "some_unique st (Some a # vs) = (if ss_unique (ty_sum_spec (st ! a)) \<noteq> [] then Inr True else some_unique st vs)"

definition json_sum :: "store \<Rightarrow> itype \<Rightarrow> terr + sum_json" where
  "json_sum st t =
     (let spec = ty_sum_spec t in
      if ss_discriminator spec \<noteq> [] then Inr SumJSONDiscriminator
      else if ss_type_discriminator spec then Inr SumJSONTypeDiscriminator
      else if ss_unique_fields spec \<noteq> [] \<or> ss_value_discriminators spec \<noteq> [] then Inr SumJSONFields
      else bind_res (some_unique st (ty_sum_of t)) (\<lambda>b. Inr (if b then SumJSONFields else SumJSONPrimitive)))"

end
