(* ===== verification/TypeValidators.thy ===== *)
theory TypeValidators
  imports TypeJson
begin

text \<open>
  Validators read from a schema: the \<open>Set\<close> functions of internal/ir/validation.go. Regular expressions and
  the reading of numbers belong to libraries and are the fields of a record. The theorems connect the
  schema to what the validators of the runtime accept.
\<close>

section \<open>Reading a schema\<close>

record schema_lib =
  sl_numbers :: numbers
  sl_uint64 :: "string \<Rightarrow> 64 word option"
  sl_int64 :: "string \<Rightarrow> 64 word option"
  sl_rat :: "string \<Rightarrow> rat option"
  sl_decimal :: "string \<Rightarrow> string option"
  sl_compile :: "string \<Rightarrow> regexp option"

datatype set_err = BadPattern string | BadNumber string

text \<open>A number that is not given sets nothing; otherwise it must be readable.\<close>

definition set_number :: "(string \<Rightarrow> 'n option) \<Rightarrow> string \<Rightarrow> ('v \<Rightarrow> 'n \<Rightarrow> 'v) \<Rightarrow> 'v \<Rightarrow> set_err + 'v" where
  "set_number parse num f v =
     (if num = [] then Inr v
      else (case parse num of None \<Rightarrow> Inl (BadNumber num) | Some x \<Rightarrow> Inr (f v x)))"

definition set_pattern :: "schema_lib \<Rightarrow> string \<Rightarrow> ('v \<Rightarrow> regexp option \<Rightarrow> 'v) \<Rightarrow> 'v \<Rightarrow> set_err + 'v" where
  "set_pattern L pattern f v =
     (if pattern = [] then Inr v
      else (case sl_compile L pattern of None \<Rightarrow> Inl (BadPattern pattern) | Some r \<Rightarrow> Inr (f v (Some r))))"

text \<open>\<open>int(*n)\<close> reads the 64 bits as a signed number.\<close>

definition set_count :: "64 word option \<Rightarrow> ('v \<Rightarrow> int \<Rightarrow> 'v) \<Rightarrow> 'v \<Rightarrow> 'v" where
  "set_count n f v = (case n of None \<Rightarrow> v | Some m \<Rightarrow> f v (sint m))"

definition SetString :: "schema_lib \<Rightarrow> jschema \<Rightarrow> string_v \<Rightarrow> set_err + string_v" where
  "SetString L s v =
     bind_res (set_pattern L (js_pattern s) (\<lambda>v r. v\<lparr>StrRegex := r\<rparr>) v) (\<lambda>v1.
     let v2 = set_count (js_min_length s) string_SetMinLength (set_count (js_max_length s) string_SetMaxLength v1) in
     bind_res (set_number (nl_float64 (sl_numbers L)) (js_maximum s) string_SetMaximumNumeric v2) (\<lambda>v3.
     bind_res (set_number (nl_float64 (sl_numbers L)) (js_minimum s) string_SetMinimumNumeric v3) (\<lambda>v4.
     let v5 = (if js_format s = ''email'' then v4\<lparr>StrEmail := True\<rparr> else v4) in
       Inr (if js_format s = ''hostname'' then v5\<lparr>StrHostname := True\<rparr> else v5))))"

definition SetInt :: "schema_lib \<Rightarrow> jschema \<Rightarrow> int_v \<Rightarrow> set_err + int_v" where
  "SetInt L s v =
     bind_res (set_number (sl_uint64 L) (js_multiple_of s) int_SetMultipleOf v) (\<lambda>v1.
     bind_res (set_number (sl_int64 L) (js_maximum s) int_SetMaximum v1) (\<lambda>v2.
     bind_res (set_number (sl_int64 L) (js_minimum s) int_SetMinimum v2) (\<lambda>v3.
       set_pattern L (js_pattern s) int_SetPattern
         (v3\<lparr>IntMaxExclusive := js_exclusive_max s, IntMinExclusive := js_exclusive_min s\<rparr>))))"

definition SetFloat :: "schema_lib \<Rightarrow> jschema \<Rightarrow> float_v \<Rightarrow> set_err + float_v" where
  "SetFloat L s v =
     bind_res (set_number (sl_rat L) (js_multiple_of s) float_SetMultipleOf v) (\<lambda>v1.
     bind_res (set_number (nl_float64 (sl_numbers L)) (js_maximum s) float_SetMaximum v1) (\<lambda>v2.
     bind_res (set_number (nl_float64 (sl_numbers L)) (js_minimum s) float_SetMinimum v2) (\<lambda>v3.
       set_pattern L (js_pattern s) float_SetPattern
         (v3\<lparr>FltMaxExclusive := js_exclusive_max s, FltMinExclusive := js_exclusive_min s\<rparr>))))"

definition SetDecimal :: "schema_lib \<Rightarrow> jschema \<Rightarrow> string decimal_v \<Rightarrow> set_err + string decimal_v" where
  "SetDecimal L s v =
     bind_res (set_number (sl_decimal L) (js_multiple_of s) decimal_SetMultipleOf v) (\<lambda>v1.
     bind_res (set_number (sl_decimal L) (js_maximum s) decimal_SetMaximum v1) (\<lambda>v2.
     bind_res (set_number (sl_decimal L) (js_minimum s) decimal_SetMinimum v2) (\<lambda>v3.
       Inr (v3\<lparr>DecMaxExclusive := js_exclusive_max s, DecMinExclusive := js_exclusive_min s\<rparr>))))"

definition SetArray :: "jschema \<Rightarrow> array_v \<Rightarrow> array_v" where
  "SetArray s v =
     (let v1 = set_count (js_min_items s) array_SetMinLength (set_count (js_max_items s) array_SetMaxLength v)
      in if js_unique s then array_SetUniqueItems v1 True else v1)"

definition SetObject :: "jschema \<Rightarrow> object_v \<Rightarrow> object_v" where
  "SetObject s v =
     set_count (js_max_length s) object_SetMaxLength
       (set_count (js_min_length s) object_SetMinLength
         (set_count (js_min_props s) object_SetMinProperties
           (set_count (js_max_props s) object_SetMaxProperties v)))"

text \<open>The names of the custom validators; their parameters are copied unchanged.\<close>

definition SetOgenValidate :: "jschema \<Rightarrow> string list \<Rightarrow> string list" where
  "SetOgenValidate s ogen = foldl (\<lambda>xs k. set_add k xs) ogen (js_ogen_validate s)"

section \<open>Lowered constraints and runtime checks\<close>

lemma set_number_Inr:
  "set_number parse num f v = Inr v' \<longleftrightarrow> num = [] \<and> v' = v \<or> num \<noteq> [] \<and> (\<exists>x. parse num = Some x \<and> v' = f v x)"
  by (auto simp: set_number_def split: option.splits)

lemma set_pattern_Inr:
  "set_pattern L p f v = Inr v' \<longleftrightarrow> p = [] \<and> v' = v \<or> p \<noteq> [] \<and> (\<exists>r. sl_compile L p = Some r \<and> v' = f v (Some r))"
  by (auto simp: set_pattern_def split: option.splits)

lemmas set_defs = set_number_Inr set_pattern_Inr int_SetMultipleOf_def int_SetMaximum_def int_SetMinimum_def
  int_SetPattern_def

text \<open>A bound, a divisor or a pattern of the schema that is given constrains the value as it says.\<close>

definition schema_integer :: "schema_lib \<Rightarrow> jschema \<Rightarrow> 64 word \<Rightarrow> bool" where
  "schema_integer L s x \<longleftrightarrow>
     (js_maximum s \<noteq> [] \<longrightarrow> (\<exists>m. sl_int64 L (js_maximum s) = Some m \<and> (if js_exclusive_max s then sint x < sint m else sint x \<le> sint m)))
   \<and> (js_minimum s \<noteq> [] \<longrightarrow> (\<exists>m. sl_int64 L (js_minimum s) = Some m \<and> (if js_exclusive_min s then sint m < sint x else sint m \<le> sint x)))
   \<and> (js_multiple_of s \<noteq> [] \<longrightarrow> (\<exists>d. sl_uint64 L (js_multiple_of s) = Some d \<and> d \<noteq> 0 \<and> uint d dvd sint x))
   \<and> (js_pattern s \<noteq> [] \<longrightarrow> (\<exists>r. sl_compile L (js_pattern s) = Some r \<and> MatchString r (itoa (sint x)) = Inr True))"

text \<open>
  C31: an integer schema that can be lowered yields a validator of the runtime that accepts exactly the 64 bit
  integers the schema describes: between its bounds, exclusive or not, a multiple of its divisor, and
  with a decimal text that its pattern matches. If the schema has a pattern this is said of the integers that are not
  negative only, because the runtime drops the sign before it matches.
\<close>

theorem integer_schema_accepts:
  assumes "SetInt L s (vs_int no_validators) = Inr v"
    and sign: "js_pattern s = [] \<or> 0 \<le> sint x"
  shows "int_validate v x = None \<longleftrightarrow> schema_integer L s x"
proof -
  have "IntMaxSet v \<longleftrightarrow> js_maximum s \<noteq> []" "js_maximum s \<noteq> [] \<Longrightarrow> sl_int64 L (js_maximum s) = Some (IntMax v)"
    "IntMinSet v \<longleftrightarrow> js_minimum s \<noteq> []" "js_minimum s \<noteq> [] \<Longrightarrow> sl_int64 L (js_minimum s) = Some (IntMin v)"
    "IntMultipleOfSet v \<longleftrightarrow> js_multiple_of s \<noteq> []"
    "js_multiple_of s \<noteq> [] \<Longrightarrow> sl_uint64 L (js_multiple_of s) = Some (IntMultipleOf v)"
    "IntMaxExclusive v = js_exclusive_max s" "IntMinExclusive v = js_exclusive_min s"
    "js_pattern s = [] \<Longrightarrow> IntPattern v = None" "js_pattern s \<noteq> [] \<Longrightarrow> sl_compile L (js_pattern s) = IntPattern v \<and> IntPattern v \<noteq> None"
    using assms(1) by (auto simp: SetInt_def set_defs no_validators_def)
  note v = this
  have same: "js_pattern s = [] \<or> int_pattern_text x = itoa (sint x)" using sign by (auto simp: int_pattern_text_def)
  have pat: "match_pattern (IntPattern v) t = None \<longleftrightarrow>
      (js_pattern s \<noteq> [] \<longrightarrow> (\<exists>r. sl_compile L (js_pattern s) = Some r \<and> MatchString r t = Inr True))" for t
    using v(9,10) by (cases "js_pattern s = []") (auto simp: match_pattern_None)
  show ?thesis
    unfolding int_validate_None int_spec_def schema_integer_def pat at_least_def at_most_def
    using v(1-8) same by (cases "js_maximum s = []"; cases "js_minimum s = []"; cases "js_multiple_of s = []") auto
qed

definition demo_lib :: schema_lib where
  "demo_lib = \<lparr>sl_numbers = \<lparr>nl_equal = (=), nl_float64 = (\<lambda>t. if t = ''5'' then Some (Fin 5) else None)\<rparr>,
     sl_uint64 = (\<lambda>t. if t = ''2'' then Some 2 else None), sl_int64 = (\<lambda>t. if t = ''5'' then Some 5 else None),
     sl_rat = (\<lambda>_. None), sl_decimal = Some, sl_compile = (\<lambda>_. None)\<rparr>"

lemma integer_schema_accepts_witness:
  "\<exists>v. SetInt demo_lib (no_schema\<lparr>js_minimum := ''5'', js_exclusive_min := True, js_multiple_of := ''2''\<rparr>) (vs_int no_validators) = Inr v
    \<and> int_validate v 6 = None \<and> int_validate v 5 \<noteq> None \<and> int_validate v (- 6) \<noteq> None"
proof -
  let ?s = "no_schema\<lparr>js_minimum := ''5'', js_exclusive_min := True, js_multiple_of := ''2''\<rparr>"
  obtain v where v: "SetInt demo_lib ?s (vs_int no_validators) = Inr v"
    by (simp add: SetInt_def set_number_def set_pattern_def demo_lib_def no_schema_def)
  have "int_validate v x = None \<longleftrightarrow> schema_integer demo_lib ?s x" for x
    by (rule integer_schema_accepts [OF v]) (simp add: no_schema_def)
  then have "int_validate v 6 = None \<and> int_validate v 5 \<noteq> None \<and> int_validate v (- 6) \<noteq> None"
    by (simp add: schema_integer_def no_schema_def demo_lib_def)
  then show ?thesis using v by blast
qed

lemma sint_of_uint: "sint (m :: 64 word) = (if uint m < 2 ^ 63 then uint m else uint m - 2 ^ 64)"
proof (cases "sint m < 0")
  case True
  have "sint m mod 2 ^ 64 = (sint m + 2 ^ 64) mod 2 ^ 64" by simp
  also have "\<dots> = sint m + 2 ^ 64" using True sint_bounds64 [of m] by (intro mod_pos_pos_trivial) simp_all
  finally show ?thesis using uint_of_sint64 [of m] True sint_bounds64 [of m] by auto
next
  case False
  have "sint m mod 2 ^ 64 = sint m" using False sint_bounds64 [of m] by (intro mod_pos_pos_trivial) simp_all
  then show ?thesis using uint_of_sint64 [of m] False sint_bounds64 [of m] by auto
qed

text \<open>
  Counts are 64 bit words in the schema and signed integers in the validator. Below the sign bit the
  validator checks what the schema says; a larger maximum turns negative and every value is rejected.
\<close>

lemmas set_array_defs = SetArray_def set_count_def array_SetMaxLength_def array_SetMinLength_def
  array_SetUniqueItems_def no_validators_def validate_length_def Let_def

lemma array_schema_accepts:
  assumes "\<And>m. js_max_items s = Some m \<Longrightarrow> uint m < 2 ^ 63" and "\<And>m. js_min_items s = Some m \<Longrightarrow> uint m < 2 ^ 63"
  shows "validate_length (SetArray s (vs_array no_validators)) n = None \<longleftrightarrow>
    (\<forall>m. js_max_items s = Some m \<longrightarrow> n \<le> uint m) \<and> (\<forall>m. js_min_items s = Some m \<longrightarrow> uint m \<le> n)"
  using assms by (cases "js_max_items s"; cases "js_min_items s") (auto simp: set_array_defs sint_of_uint)

lemma huge_maximum_rejects:
  assumes "js_max_items s = Some m" and "2 ^ 63 \<le> uint m" and "0 \<le> n"
  shows "validate_length (SetArray s (vs_array no_validators)) n \<noteq> None"
proof -
  have "sint m < 0" using assms(2) uint_lt2p [of m] by (simp add: sint_of_uint)
  then show ?thesis using assms(1,3) by (cases "js_min_items s") (auto simp: set_array_defs)
qed

end
