(* ===== verification/Generator.thy ===== *)
theory Generator
  imports ParserModel TypeValidators
begin

text \<open>
  The generator, gen/generator.go and gen/write.go: features, filters, Go names, channels, message
  envelopes, operations with their sum types, the redis wiring, and the choice of files written.

  The parsed model arrives with the identity of its channel objects (\<open>ao_channel\<close>, \<open>ao_reply\<close>), because
  channels that several operations share are built once per object; messages and parameters are
  looked up by address. The lowering of a JSON schema to types is a function of the state it may
  change; it answers no type when an unsupported schema is ignored.
\<close>

section \<open>Features and filters\<close>

definition Publisher :: string where "Publisher = ''publisher''"
definition Subscriber :: string where "Subscriber = ''subscriber''"
definition Middleware :: string where "Middleware = ''middleware''"
definition Fakes :: string where "Fakes = ''fakes''"
definition Unimplemented :: string where "Unimplemented = ''unimplemented''"
definition DebugExampleTests :: string where "DebugExampleTests = ''debug_example_tests''"

lemmas feature_defs = Publisher_def Subscriber_def Middleware_def Fakes_def Unimplemented_def DebugExampleTests_def

definition DefaultFeatures :: "string list" where
  "DefaultFeatures = [Publisher, Subscriber, Middleware]"

definition AllFeatures :: "string list" where
  "AllFeatures = [Publisher, Subscriber, Middleware, Fakes, Unimplemented, DebugExampleTests]"

datatype gerr =
    UnknownFeature string
  | NotImplemented string
  | BadName string
  | NotExported string
  | OperationConflict string
  | SaveError save_err
  | GPanic terr
  | RedisTypeRequired string
  | RedisTypeMixed string
  | RedisGroupRequired string
  | RedisGroupMixed string
  | RedisMaxLenMixed string
  | DepthExceeded
  | SchemaError serr
  | ExternalError path_err
  | ValidatorError set_err
  | FieldConflict string
  | AlikeVariants "string list"
  | EnumValueError nat
  | EnumNameError name_err
  | DefaultTypeError string
  | MappingNotFound string
  | ObjectSumVariant string
  | GFuel
  | InfiniteRecursion string string

fun featureKnown :: "string \<Rightarrow> string list \<Rightarrow> bool" where
  "featureKnown p [] = False"
| "featureKnown p (known # fs) = (if known = p then True else featureKnown p fs)"

fun enable_features :: "string list \<Rightarrow> string set \<Rightarrow> gerr + string set" where
  "enable_features [] f = Inr f"
| "enable_features (p # ps) f =
     (if \<not> featureKnown p AllFeatures then Inl (UnknownFeature p) else enable_features ps (insert p f))"

fun disable_features :: "string list \<Rightarrow> string set \<Rightarrow> gerr + string set" where
  "disable_features [] f = Inr f"
| "disable_features (p # ps) f =
     (if \<not> featureKnown p AllFeatures then Inl (UnknownFeature p) else disable_features ps (f - {p}))"

definition BuildFeatures :: "string list \<Rightarrow> string list \<Rightarrow> bool \<Rightarrow> gerr + string set" where
  "BuildFeatures enable disable disableAll =
     (if disableAll then Inr {}
      else bind_res (enable_features enable (set DefaultFeatures)) (disable_features disable))"

record options =
  go_features :: "string set option"
  go_operations_regex :: "(string \<Rightarrow> bool) option"
  go_actions :: "string list"
  go_ignore :: "string list"
  go_initialisms :: bool

fun contains :: "string list \<Rightarrow> string \<Rightarrow> bool" where
  "contains [] v = False"
| "contains (item # s) v = (if item = v then True else contains s v)"

fun containsPrefix :: "string list \<Rightarrow> string \<Rightarrow> bool" where
  "containsPrefix [] p = False"
| "containsPrefix (item # s) p = (if has_prefix item p then True else containsPrefix s p)"

text \<open>\<open>fail\<close>: the error that is left, if any.\<close>

definition gfail :: "options \<Rightarrow> gerr \<Rightarrow> gerr option" where
  "gfail opt err = (case err of
       NotImplemented name \<Rightarrow>
         if contains (go_ignore opt) ''all'' \<or> contains (go_ignore opt) name
            \<or> containsPrefix (go_ignore opt) ''schema.'' \<and> contains (go_ignore opt) (''schema.'' @ name)
         then None else Some err
     | _ \<Rightarrow> Some err)"

section \<open>Servers\<close>

definition knownProtocols :: "string list" where
  "knownProtocols = [''redis'', ''kafka'', ''kafka-secure'', ''mqtt'', ''mqtt5'', ''amqp'', ''amqp1'', ''nats'',
     ''websockets'', ''ws'', ''googlepubsub'', ''pulsar'', ''sns'', ''sqs'', ''ibmmq'', ''solace'', ''jms'',
     ''mercure'', ''stomp'', ''http'']"

definition protocolsWithBackend :: "string list" where
  "protocolsWithBackend = [''redis'']"

record ir_server =
  sv_name :: string
  sv_go_name :: string
  sv_host :: string
  sv_protocol :: string
  sv_protocol_version :: string
  sv_description :: string

fun broker_loop :: "ir_server list \<Rightarrow> string \<Rightarrow> bool \<times> string" where
  "broker_loop [] protocol = (protocol \<noteq> [], protocol)"
| "broker_loop (s # ss) protocol =
     (if sv_protocol s \<notin> set protocolsWithBackend then (False, sv_protocol s)
      else if protocol = [] then broker_loop ss (sv_protocol s)
      else if protocol = sv_protocol s then broker_loop ss protocol
      else (False, protocol))"

definition brokerBackend :: "ir_server list \<Rightarrow> bool \<times> string" where
  "brokerBackend servers = broker_loop servers []"

section \<open>Text helpers\<close>

definition lowerFirst :: "string \<Rightarrow> string" where
  "lowerFirst s = (case s of [] \<Rightarrow> [] | c # cs \<Rightarrow> lower_string [c] @ cs)"

text \<open>\<open>sortStrings\<close>: insertion sort by swaps; \<open>sink\<close> is the inner loop.\<close>

fun sink :: "nat \<Rightarrow> string list \<Rightarrow> string list" where
  "sink 0 s = s"
| "sink (Suc j) s = (if s ! Suc j < s ! j then sink j (s[Suc j := s ! j, j := s ! Suc j]) else s)"

fun sort_from :: "nat \<Rightarrow> nat \<Rightarrow> string list \<Rightarrow> string list" where
  "sort_from i 0 s = s"
| "sort_from i (Suc n) s = sort_from (Suc i) n (sink i s)"

definition sortStrings :: "string list \<Rightarrow> string list" where
  "sortStrings s = sort_from 1 (length s - 1) s"

definition sortedServerKeys :: "'v smap \<Rightarrow> string list" where
  "sortedServerKeys m = sortStrings (map fst m)"

fun split_on :: "char \<Rightarrow> string \<Rightarrow> string list" where
  "split_on c [] = [[]]"
| "split_on c (x # xs) =
     (if x = c then [] # split_on c xs else (case split_on c xs of [] \<Rightarrow> [[x]] | p # ps \<Rightarrow> (x # p) # ps))"

definition trim_right_newlines :: "string \<Rightarrow> string" where
  "trim_right_newlines s = rev (dropWhile (\<lambda>c. c = chr_of 10) (rev s))"

fun replace_pair :: "char \<Rightarrow> char \<Rightarrow> char \<Rightarrow> string \<Rightarrow> string" where
  "replace_pair a b r (x # y # s) = (if x = a \<and> y = b then r # replace_pair a b r s else x # replace_pair a b r (y # s))"
| "replace_pair a b r s = s"

text \<open>\<open>strings.TrimSpace\<close>, on the encoded runes of the text.\<close>

function rune_chunks :: "string \<Rightarrow> string list" where
  "rune_chunks s = (if s = [] then [] else take (snd (decode_rune s)) s # rune_chunks (drop (snd (decode_rune s)) s))"
  by pat_completeness auto
termination
  by (relation "measure length") (auto simp: decode_rune_width)

declare rune_chunks.simps [simp del]

definition space_chunk :: "string \<Rightarrow> bool" where
  "space_chunk c \<longleftrightarrow> is_space (fst (decode_rune c))"

definition trim_space :: "string \<Rightarrow> string" where
  "trim_space s = concat (rev (dropWhile space_chunk (rev (dropWhile space_chunk (rune_chunks s)))))"

definition prettyDescription :: "operation \<Rightarrow> string list" where
  "prettyDescription op =
     (let doc = (if op_description op = [] then op_summary op else op_description op) in
      if doc = [] then [] else split_on (chr_of 10) (trim_right_newlines doc))"

section \<open>Names\<close>

text \<open>Part of the generator's state: the store of types, the table of named types, the names given
  to schema references, and the structs already checked for recursion.\<close>

record lstate =
  ls_store :: store
  ls_types :: tstorage
  ls_ref_names :: "string \<rightharpoonup> string"
  ls_used :: "string set"
  ls_checked :: "tref list"
  ls_schemas :: sstore

definition pascalName :: "options \<Rightarrow> string list \<Rightarrow> gerr + string" where
  "pascalName opt parts =
     (let joined = concat_sep '' '' parts in
      map_err (\<lambda>_. BadName joined)
        (if go_initialisms opt then PascalSpecialInitialisms [joined] else PascalSpecial [joined]))"

definition clean_segment :: "string \<Rightarrow> string" where
  "clean_segment seg =
     trim_space (map (\<lambda>c. if c = CHR ''.'' then CHR '' '' else c)
       (replace_pair CHR ''~'' CHR ''0'' CHR ''~'' (replace_pair CHR ''~'' CHR ''1'' CHR ''/'' seg)))"

definition ref_candidates :: "string list \<Rightarrow> string list list" where
  "ref_candidates segments =
     (if 3 \<le> length segments \<and> segments ! 0 = ''components'' \<and> segments ! 1 = ''schemas''
      then [drop 2 segments]
      else map (\<lambda>n. drop (length segments - n) segments) [2..<Suc (length segments)])"

fun try_candidates :: "options \<Rightarrow> string \<Rightarrow> string list list \<Rightarrow> lstate \<Rightarrow> gerr + string \<times> lstate" where
  "try_candidates opt ref [] s = Inr ([], s)"
| "try_candidates opt ref (tail # cs) s =
     (if tail = [] then try_candidates opt ref cs s
      else bind_res (pascalName opt tail) (\<lambda>name.
        if name = [] \<or> name \<in> ls_used s then try_candidates opt ref cs s
        else Inr (name, s\<lparr>ls_used := insert name (ls_used s), ls_ref_names := (ls_ref_names s)(ref \<mapsto> name)\<rparr>)))"

text \<open>
  A reference is the location of a file and a pointer into it. Names are kept by pointer; the empty name leaves the choice to
  the default rule.
\<close>

definition nameSchemaRef :: "options \<Rightarrow> string \<times> string \<Rightarrow> lstate \<Rightarrow> gerr + string \<times> lstate" where
  "nameSchemaRef opt ref s =
     (let ptr = trim_prefix (snd ref) ''#/'' in
      if snd ref \<noteq> [] \<and> ptr = snd ref then Inr ([], s)
      else case ls_ref_names s (snd ref) of
        Some name \<Rightarrow> Inr (name, s)
      | None \<Rightarrow> try_candidates opt (snd ref) (ref_candidates (map clean_segment (split_on CHR ''/'' ptr))) s)"

definition reserveName :: "string \<Rightarrow> lstate \<Rightarrow> lstate" where
  "reserveName name s = (if name = [] then s else s\<lparr>ls_used := insert name (ls_used s)\<rparr>)"

text \<open>\<open>unicode.IsUpper\<close> and \<open>unicode.ToUpper\<close> on any rune.\<close>

record case_tables =
  ct_is_upper :: "rune \<Rightarrow> bool"
  ct_to_upper :: "rune \<Rightarrow> rune"

fun name_extension :: "case_tables \<Rightarrow> string list \<Rightarrow> extensions \<Rightarrow> (gerr + string) option" where
  "name_extension U [] exts = None"
| "name_extension U (key # keys) exts = (case map_of exts key of
       Some node \<Rightarrow>
         if y_kind node \<noteq> ScalarNode \<or> y_value node = [] then name_extension U keys exts
         else if \<not> ct_is_upper U (fst (decode_rune (y_value node))) then Some (Inl (NotExported (y_value node)))
         else Some (Inr (y_value node))
     | None \<Rightarrow> name_extension U keys exts)"

definition goNameOf :: "case_tables \<Rightarrow> options \<Rightarrow> extensions \<Rightarrow> string \<Rightarrow> gerr + string" where
  "goNameOf U opt exts specName =
     (case name_extension U [''x-agen-name'', ''x-ogen-name''] exts of
        Some r \<Rightarrow> r
      | None \<Rightarrow> pascalName opt [specName])"

section \<open>Channels, messages, operations\<close>

record ir_param =
  ip_name :: string
  ip_go_name :: string
  ip_enum :: "string list"
  ip_default :: string
  ip_description :: string

record ir_channel =
  ic_name :: string
  ic_go_name :: string
  ic_address :: string
  ic_description :: string
  ic_params :: "ir_param list"

record ir_message =
  im_name :: string
  im_spec_name :: string
  im_title :: string
  im_description :: string
  im_type :: tref
  im_headers :: "tref option"
  im_payload :: "tref option"
  im_content_type :: string
  im_marker :: string

record ir_operation =
  io_name :: string
  io_id :: string
  io_action :: string
  io_description :: string
  io_channel :: nat
  io_messages :: "addr list"
  io_sum :: "tref option"
  io_godoc :: "string list"

text \<open>A parsed operation with the identity of its channel and of the channel of its reply.\<close>

record api_operation = operation +
  ao_channel :: nat
  ao_reply :: nat

text \<open>What the generator reads besides its state: \<open>gi_schemas\<close> are the schemas of the document, \<open>gi_lower\<close> is the schema lowering.\<close>

record ginput =
  gi_tables :: case_tables
  gi_options :: options
  gi_message :: "addr \<Rightarrow> message"
  gi_parameter :: "addr \<Rightarrow> parameter"
  gi_schemas :: sstore
  gi_lower :: "string \<Rightarrow> schema \<Rightarrow> lstate \<Rightarrow> gerr + tref option \<times> lstate"

text \<open>Channels are numbered in the order they were built.\<close>

record gstate =
  gs_lower :: lstate
  gs_servers :: "ir_server list"
  gs_channels :: "ir_channel list"
  gs_seen :: "nat \<rightharpoonup> nat"
  gs_operations :: "ir_operation list"
  gs_messages :: "addr \<rightharpoonup> ir_message"
  gs_sums :: "string \<rightharpoonup> tref"

definition param_go_name :: "ginput \<Rightarrow> string \<Rightarrow> string" where
  "param_go_name G name =
     (let plain = Capitalize (ct_to_upper (gi_tables G)) name in
      if go_initialisms (gi_options G) then
        (case PascalSpecialInitialisms [name] of Inr n \<Rightarrow> n | Inl _ \<Rightarrow> plain)
      else plain)"

definition channel_param :: "ginput \<Rightarrow> parameter \<Rightarrow> ir_param" where
  "channel_param G p = \<lparr>ip_name = pa_name p, ip_go_name = param_go_name G (pa_name p), ip_enum = pa_enum p,
     ip_default = pa_default p, ip_description = pa_description p\<rparr>"

text \<open>The parameters in the order of the address; the parser made sure each is declared.\<close>

fun channel_params :: "ginput \<Rightarrow> channel \<Rightarrow> string list \<Rightarrow> ir_param list" where
  "channel_params G ch [] = []"
| "channel_params G ch (token # tokens) = (case map_of (ch_parameters ch) token of
       None \<Rightarrow> channel_params G ch tokens
     | Some a \<Rightarrow> channel_param G (gi_parameter G a) # channel_params G ch tokens)"

definition buildChannel :: "ginput \<Rightarrow> channel \<Rightarrow> gstate \<Rightarrow> gerr + ir_channel \<times> gstate" where
  "buildChannel G ch g =
     bind_res (goNameOf (gi_tables G) (gi_options G) (ch_extensions ch) (ch_name ch)) (\<lambda>goName.
       Inr (\<lparr>ic_name = ch_name ch, ic_go_name = goName, ic_address = ch_address ch,
              ic_description = ch_description ch,
              ic_params = channel_params G ch (addressTokens (ch_address ch))\<rparr>,
            g\<lparr>gs_lower := reserveName goName (gs_lower g)\<rparr>))"

text \<open>A schema of the message under a name: lowered, then marked for JSON; no type panics there.\<close>

definition lower_part :: "ginput \<Rightarrow> string \<Rightarrow> schema option \<Rightarrow> lstate \<Rightarrow> gerr + tref option \<times> lstate" where
  "lower_part G name sch l = (case sch of
       None \<Rightarrow> Inr (None, l)
     | Some sc \<Rightarrow>
         bind_res (gi_lower G name sc l) (\<lambda>(t, l1).
         bind_res (map_err GPanic (AddFeature ''json'' t (ls_store l1))) (\<lambda>st.
           Inr (t, l1\<lparr>ls_store := st\<rparr>))))"

definition save_type :: "tref \<Rightarrow> lstate \<Rightarrow> gerr + lstate" where
  "save_type t l = map_err SaveError
     (bind_res (saveType t (ls_types l, ls_store l)) (\<lambda>(ts, st). Inr (l\<lparr>ls_types := ts, ls_store := st\<rparr>)))"

text \<open>The schema of an envelope is made of its documentation only.\<close>

definition envelope_schema :: type_schema where
  "envelope_schema = \<lparr>ts_type = [], ts_format = [], ts_unique_items = False, ts_ogen_type = [], ts_ogen_name = [],
     ts_ref = ([], []), ts_time_format = []\<rparr>"

definition buildMessage :: "ginput \<Rightarrow> message \<Rightarrow> gstate \<Rightarrow> gerr + ir_message \<times> gstate" where
  "buildMessage G msg g =
     bind_res (goNameOf (gi_tables G) (gi_options G) (ms_extensions msg) (ms_name msg)) (\<lambda>name.
     let l0 = reserveName (name @ ''Headers'') (reserveName (name @ ''Payload'') (reserveName name (gs_lower g))) in
     bind_res (lower_part G (name @ ''Payload'') (ms_payload msg) l0) (\<lambda>(payload, l1).
     bind_res (lower_part G (name @ ''Headers'') (ms_headers msg) l1) (\<lambda>(headers, l2).
     let fields = (if ms_payload msg \<noteq> None then [plain_field ''Payload'' payload] else [])
            @ (if ms_headers msg \<noteq> None then [plain_field ''Headers'' headers] else []);
         (t, st) = alloc (ls_store l2) ((new_type KindStruct name)\<lparr>ty_schema := Some envelope_schema, ty_fields := fields\<rparr>) in
     bind_res (save_type t (l2\<lparr>ls_store := st\<rparr>)) (\<lambda>l3.
       Inr (\<lparr>im_name = name, im_spec_name = ms_spec_name msg, im_title = ms_title msg,
              im_description = ms_description msg, im_type = t, im_headers = headers, im_payload = payload,
              im_content_type = ms_content_type msg, im_marker = []\<rparr>,
            g\<lparr>gs_lower := l3\<rparr>)))))"

fun build_messages :: "ginput \<Rightarrow> addr list \<Rightarrow> gstate \<Rightarrow> gerr + gstate" where
  "build_messages G [] g = Inr g"
| "build_messages G (a # as) g = (case gs_messages g a of
       Some _ \<Rightarrow> build_messages G as g
     | None \<Rightarrow>
         bind_res (buildMessage G (gi_message G a) g) (\<lambda>(m, g1).
           build_messages G as (g1\<lparr>gs_messages := (gs_messages g1)(a \<mapsto> m)\<rparr>)))"

text \<open>Every message type implements the interface of the sum and records its marker method.\<close>

fun implement_messages :: "tref \<Rightarrow> string \<Rightarrow> addr list \<Rightarrow> gstate \<Rightarrow> gerr + gstate" where
  "implement_messages iface marker [] g = Inr g"
| "implement_messages iface marker (a # as) g =
     (let m = the (gs_messages g a) in
      bind_res (map_err GPanic (Implement (im_type m) iface (ls_store (gs_lower g)))) (\<lambda>st.
        implement_messages iface marker as
          (g\<lparr>gs_lower := (gs_lower g)\<lparr>ls_store := st\<rparr>,
             gs_messages := (gs_messages g)(a \<mapsto> m\<lparr>im_marker := marker\<rparr>)\<rparr>)))"

text \<open>The key of a set of messages: their sorted names, joined with a zero byte.\<close>

definition sum_key :: "gstate \<Rightarrow> addr list \<Rightarrow> string" where
  "sum_key g as = concat_sep [chr_of 0] (sortStrings (map (\<lambda>a. im_spec_name (the (gs_messages g a))) as))"

definition build_sum :: "ginput \<Rightarrow> string \<Rightarrow> addr list \<Rightarrow> gstate \<Rightarrow> gerr + tref \<times> gstate" where
  "build_sum G channelGoName as g =
     (let key = sum_key g as in
      case gs_sums g key of
        Some iface \<Rightarrow> Inr (iface, g)
      | None \<Rightarrow>
          let marker = lowerFirst channelGoName @ ''Message'';
              (iface, st) = alloc (ls_store (gs_lower g)) (Interface (channelGoName @ ''Message'')) in
          bind_res (map_err GPanic (AddMethod iface marker st)) (\<lambda>st1.
          bind_res (implement_messages iface marker as (g\<lparr>gs_lower := (gs_lower g)\<lparr>ls_store := st1\<rparr>\<rparr>)) (\<lambda>g1.
          bind_res (save_type iface (gs_lower g1)) (\<lambda>l.
            Inr (iface, g1\<lparr>gs_lower := l, gs_sums := (gs_sums g1)(key \<mapsto> iface)\<rparr>)))))"

definition build_operation_channel :: "ginput \<Rightarrow> api_operation \<Rightarrow> gstate \<Rightarrow> gerr + nat \<times> gstate" where
  "build_operation_channel G op g =
     (case gs_seen g (ao_channel op) of
        Some i \<Rightarrow> Inr (i, g)
      | None \<Rightarrow>
          (case op_channel op of
             None \<Rightarrow> Inl (GPanic NilType)
           | Some ch \<Rightarrow>
               bind_res (buildChannel G ch g) (\<lambda>(c, g1).
                 let i = length (gs_channels g1) in
                 Inr (i, g1\<lparr>gs_seen := (gs_seen g1)(ao_channel op \<mapsto> i), gs_channels := gs_channels g1 @ [c]\<rparr>))))"

definition buildOperation :: "ginput \<Rightarrow> api_operation \<Rightarrow> gstate \<Rightarrow> gerr + ir_operation \<times> gstate" where
  "buildOperation G op g =
     bind_res (goNameOf (gi_tables G) (gi_options G) (op_extensions op) (op_name op)) (\<lambda>goName.
     bind_res (build_operation_channel G op (g\<lparr>gs_lower := reserveName goName (gs_lower g)\<rparr>)) (\<lambda>(i, g1).
     bind_res (build_messages G (op_messages op) g1) (\<lambda>g2.
     bind_res (if 1 < length (op_messages op)
               then bind_res (build_sum G (ic_go_name (gs_channels g2 ! i)) (op_messages op) g2) (\<lambda>(t, g3). Inr (Some t, g3))
               else Inr (None, g2)) (\<lambda>(sum, g3).
       Inr (\<lparr>io_name = goName, io_id = op_name op, io_action = op_action op, io_description = op_description op,
              io_channel = i, io_messages = op_messages op, io_sum = sum, io_godoc = prettyDescription (operation.truncate op)\<rparr>,
            g3)))))"

section \<open>Redis wiring\<close>

text \<open>One turn of the loop of \<open>redisBindingDefaults\<close> on the results so far: mode, group, length.\<close>

definition declared_group :: "operation \<Rightarrow> string" where
  "declared_group op = (case op_redis op of None \<Rightarrow> [] | Some b \<Rightarrow> rob_group b)"

definition redis_mode_step :: "channel \<Rightarrow> redis_channel \<Rightarrow> string \<Rightarrow> gerr + string" where
  "redis_mode_step ch r mode =
     (if mode = [] then Inr (rcb_type r)
      else if mode \<noteq> rcb_type r then Inl (RedisTypeMixed (ch_name ch)) else Inr mode)"

definition redis_group_step :: "operation \<Rightarrow> string \<Rightarrow> string \<Rightarrow> gerr + string" where
  "redis_group_step op mode grp =
     (if declared_group op = [] then
        (if mode = RedisTypeStream then Inl (RedisGroupRequired (op_name op)) else Inr grp)
      else if grp = [] then Inr (declared_group op)
      else if grp \<noteq> declared_group op then Inl (RedisGroupMixed (op_name op)) else Inr grp)"

definition redis_max_len_step :: "channel \<Rightarrow> redis_channel \<Rightarrow> int \<Rightarrow> gerr + int" where
  "redis_max_len_step ch r maxLen =
     (if rcb_max_len r = 0 then Inr maxLen
      else if maxLen = 0 then Inr (rcb_max_len r)
      else if maxLen \<noteq> rcb_max_len r then Inl (RedisMaxLenMixed (ch_name ch)) else Inr maxLen)"

definition redis_defaults_step :: "operation \<Rightarrow> string \<times> string \<times> int \<Rightarrow> gerr + string \<times> string \<times> int" where
  "redis_defaults_step op = (\<lambda>(mode, grp, maxLen). case op_channel op of
       None \<Rightarrow> Inr (mode, grp, maxLen)
     | Some ch \<Rightarrow>
         (case ch_redis ch of
            None \<Rightarrow> Inl (RedisTypeRequired (ch_name ch))
          | Some r \<Rightarrow>
              bind_res (redis_mode_step ch r mode) (\<lambda>mode'.
                if op_action op = ReceiveAction then
                  bind_res (redis_group_step op mode' grp) (\<lambda>grp'. Inr (mode', grp', maxLen))
                else if op_action op = SendAction then
                  bind_res (redis_max_len_step ch r maxLen) (\<lambda>ml. Inr (mode', grp, ml))
                else Inr (mode', grp, maxLen))))"

fun redis_defaults_loop :: "operation list \<Rightarrow> string \<times> string \<times> int \<Rightarrow> gerr + string \<times> string \<times> int" where
  "redis_defaults_loop [] acc = Inr acc"
| "redis_defaults_loop (op # ops) acc = bind_res (redis_defaults_step op acc) (redis_defaults_loop ops)"

definition redisBindingDefaults :: "operation list \<Rightarrow> gerr + string \<times> string \<times> int" where
  "redisBindingDefaults ops = redis_defaults_loop ops ([], [], 0)"

section \<open>The whole build\<close>

fun build_servers :: "ginput \<Rightarrow> server smap \<Rightarrow> string list \<Rightarrow> gerr + ir_server list" where
  "build_servers G servers [] = Inr []"
| "build_servers G servers (name # names) =
     (let s = the (map_of servers name) in
      if se_protocol s \<notin> set knownProtocols then
        guard_res (gfail (gi_options G) (NotImplemented (''protocol '' @ se_protocol s)))
          (build_servers G servers names)
      else
        bind_res (pascalName (gi_options G) [se_name s]) (\<lambda>goName.
        bind_res (build_servers G servers names) (\<lambda>rest.
          Inr (\<lparr>sv_name = se_name s, sv_go_name = goName, sv_host = se_host s, sv_protocol = se_protocol s,
                 sv_protocol_version = se_protocol_version s, sv_description = se_description s\<rparr> # rest))))"

definition keep_operation :: "options \<Rightarrow> api_operation \<Rightarrow> bool" where
  "keep_operation opt op \<longleftrightarrow>
     (case go_operations_regex opt of None \<Rightarrow> True | Some r \<Rightarrow> r (op_name op))
     \<and> (go_actions opt = [] \<or> contains (go_actions opt) (op_action op))"

text \<open>The reply of a receive operation is published: a send operation of its own.\<close>

definition synthetic_reply :: "api_operation \<Rightarrow> reply \<Rightarrow> api_operation" where
  "synthetic_reply op r = \<lparr>op_name = op_name op @ ''Reply'', op_action = SendAction, op_channel = Some (re_channel r),
     op_messages = re_messages r, op_title = re_title r, op_summary = re_summary r,
     op_description = re_description r, op_security = [], op_bindings = [], op_redis = None, op_reply = None,
     op_tags = [], op_extensions = re_extensions r, ao_channel = ao_reply op, ao_reply = 0\<rparr>"

definition synthetic_of :: "api_operation \<Rightarrow> api_operation list" where
  "synthetic_of op = (case op_reply op of
       Some r \<Rightarrow> if op_action op = ReceiveAction then [synthetic_reply op r] else []
     | None \<Rightarrow> [])"

fun build_operations :: "ginput \<Rightarrow> api_operation list \<Rightarrow> string set \<Rightarrow> gstate \<Rightarrow> gerr + string set \<times> gstate" where
  "build_operations G [] names g = Inr (names, g)"
| "build_operations G (op # ops) names g =
     bind_res (buildOperation G op g) (\<lambda>(irOp, g1).
       if io_name irOp \<in> names then Inl (OperationConflict (io_name irOp))
       else build_operations G ops (insert (io_name irOp) names)
              (g1\<lparr>gs_operations := gs_operations g1 @ [irOp]\<rparr>))"

definition gstate_start :: "sstore \<Rightarrow> ir_server list \<Rightarrow> gstate" where
  "gstate_start schemas servers = \<lparr>gs_lower = \<lparr>ls_store = [], ls_types = newTStorage, ls_ref_names = Map.empty, ls_used = {},
       ls_checked = [], ls_schemas = schemas\<rparr>,
     gs_servers = servers, gs_channels = [], gs_seen = Map.empty, gs_operations = [], gs_messages = Map.empty,
     gs_sums = Map.empty\<rparr>"

text \<open>\<open>build\<close>: the state and the redis wiring (mode, group, maximal length).\<close>

definition build :: "ginput \<Rightarrow> server smap \<Rightarrow> api_operation list \<Rightarrow> gerr + gstate \<times> string \<times> string \<times> int" where
  "build G servers operations =
     bind_res (build_servers G servers (sortedServerKeys servers)) (\<lambda>srvs.
       let ops = filter (keep_operation (gi_options G)) operations;
           synthetic = concat (map synthetic_of ops) in
       bind_res (build_operations G ops {} (gstate_start (gi_schemas G) srvs)) (\<lambda>(names, g).
       bind_res (build_operations G synthetic names g) (\<lambda>(_, g').
         if fst (brokerBackend srvs) then
           bind_res (redisBindingDefaults (map operation.truncate (ops @ synthetic))) (\<lambda>w. Inr (g', w))
         else Inr (g', [], [], 0))))"

section \<open>The files written\<close>

definition IsSend :: "ir_operation \<Rightarrow> bool" where "IsSend op \<longleftrightarrow> io_action op = ''send''"
definition IsReceive :: "ir_operation \<Rightarrow> bool" where "IsReceive op \<longleftrightarrow> io_action op = ''receive''"
definition HasParams :: "ir_channel \<Rightarrow> bool" where "HasParams c \<longleftrightarrow> ic_params c \<noteq> []"

definition sendOperations :: "ir_operation list \<Rightarrow> ir_operation list" where
  "sendOperations ops = filter IsSend ops"

definition receiveOperations :: "ir_operation list \<Rightarrow> ir_operation list" where
  "receiveOperations ops = filter IsReceive ops"

text \<open>The unique channels without parameters, in order of first use.\<close>

fun receive_channels :: "ir_channel list \<Rightarrow> ir_operation list \<Rightarrow> nat list \<Rightarrow> nat list" where
  "receive_channels chs [] seen = []"
| "receive_channels chs (op # ops) seen =
     (let i = io_channel op in
      if HasParams (chs ! i) \<or> i \<in> set seen then receive_channels chs ops seen
      else i # receive_channels chs ops (i # seen))"

definition ReceiveChannels :: "ir_channel list \<Rightarrow> ir_operation list \<Rightarrow> nat list" where
  "ReceiveChannels chs ops = receive_channels chs (receiveOperations ops) []"

definition AnyOperationEnabled :: "ir_operation list \<Rightarrow> bool" where
  "AnyOperationEnabled ops \<longleftrightarrow> ops \<noteq> []"

definition ClientEnabled :: "string set \<Rightarrow> ir_operation list \<Rightarrow> bool" where
  "ClientEnabled features ops \<longleftrightarrow> Publisher \<in> features \<and> sendOperations ops \<noteq> []"

definition ServerEnabled :: "string set \<Rightarrow> ir_server list \<Rightarrow> ir_operation list \<Rightarrow> bool" where
  "ServerEnabled features servers ops \<longleftrightarrow>
     fst (brokerBackend servers) \<and> Subscriber \<in> features \<and> receiveOperations ops \<noteq> []"

definition hasAnyType :: "(tref \<Rightarrow> bool) \<Rightarrow> lstate \<Rightarrow> bool" where
  "hasAnyType check l \<longleftrightarrow> list_ex (\<lambda>(name, t). check t) (tst_types (ls_types l))"

definition hasJSON :: "lstate \<Rightarrow> bool" where
  "hasJSON l \<longleftrightarrow> hasAnyType (\<lambda>t. HasFeature (ls_store l ! t) ''json'') l"

definition hasValidators :: "lstate \<Rightarrow> bool" where
  "hasValidators l \<longleftrightarrow> hasAnyType (\<lambda>t. NeedValidation (ls_store l) (Some t) = Inr True) l"

definition hasInterfaces :: "lstate \<Rightarrow> bool" where
  "hasInterfaces l \<longleftrightarrow> hasAnyType (\<lambda>t. ty_kind (ls_store l ! t) = KindInterface) l"

text \<open>The templates with their conditions; whether a type has a field with a default is a parameter.\<close>

definition templates :: "string set \<Rightarrow> bool \<Rightarrow> gstate \<Rightarrow> (string \<times> bool) list" where
  "templates features defaults g =
     (let ops = gs_operations g; l = gs_lower g;
          receive = Subscriber \<in> features \<and> receiveOperations ops \<noteq> [] in
      [(''schemas'', True),
       (''interfaces'', hasInterfaces l),
       (''json'', hasJSON l),
       (''validators'', hasValidators l),
       (''defaults'', defaults),
       (''cfg'', True),
       (''servers'', gs_servers g \<noteq> []),
       (''operations'', AnyOperationEnabled ops),
       (''msg'', True),
       (''handlers'', receive),
       (''subscriber'', receive),
       (''server'', ServerEnabled features (gs_servers g) ops),
       (''client'', ClientEnabled features ops),
       (''middleware'', Middleware \<in> features \<and> receive),
       (''unimplemented'', Unimplemented \<in> features \<and> receive),
       (''fakes'', Fakes \<in> features)])"

definition written_files :: "string set \<Rightarrow> bool \<Rightarrow> gstate \<Rightarrow> string list" where
  "written_files features defaults g =
     map (\<lambda>(name, _). ''aas_'' @ name @ ''_gen.go'') (filter snd (templates features defaults g))"

end
