(* ===== verification/Paths.thy ===== *)
theory Paths
  imports Generator
begin

text \<open>
  Slash-separated paths, as \<open>path/filepath\<close> of the standard library computes with them: \<open>Clean\<close>,
  \<open>Join\<close>, \<open>Dir\<close>, \<open>IsAbs\<close> and \<open>Abs\<close>, with the facts on cleaned paths that the command line needs.
\<close>

definition slash :: char where "slash = CHR ''/''"

section \<open>Splitting at slashes\<close>

lemma split_on_ne [simp]: "split_on c s \<noteq> []"
  by (induction s) (auto split: list.splits)

lemma split_on_pieces: "p \<in> set (split_on c s) \<Longrightarrow> c \<notin> set p"
proof (induction s arbitrary: p)
  case (Cons x s)
  then show ?case by (cases "split_on c s") (auto split: if_splits)
qed simp

lemma split_on_plain: "c \<notin> set s \<Longrightarrow> split_on c s = [s]"
  by (induction s) auto

lemma split_on_append: "c \<notin> set p \<Longrightarrow> split_on c (p @ c # s) = p # split_on c s"
  by (induction p) auto

lemma split_on_join:
  "cs \<noteq> [] \<Longrightarrow> \<forall>p \<in> set cs. c \<notin> set p \<Longrightarrow> split_on c (concat_sep [c] cs) = cs"
proof (induction "[c]" cs rule: concat_sep.induct)
  case (2 x)
  then show ?case by (simp add: split_on_plain)
next
  case (3 x y ys)
  then show ?case using split_on_append [of c x "concat_sep [c] (y # ys)"] by simp
qed simp

text \<open>The length of pieces, each with its separator.\<close>

definition weight :: "string list \<Rightarrow> nat" where
  "weight ps = sum_list (map (\<lambda>p. Suc (length p)) ps)"

lemma weight_simps [simp]:
  "weight [] = 0" "weight (p # ps) = Suc (length p) + weight ps" "weight (ps @ qs) = weight ps + weight qs"
  "weight (rev ps) = weight ps"
  by (simp_all add: weight_def rev_map [symmetric])

lemma weight_split: "weight (split_on c s) = Suc (length s)"
  by (induction s) (auto split: list.splits)

lemma length_join: "cs \<noteq> [] \<Longrightarrow> Suc (length (concat_sep [c] cs)) = weight cs"
  by (induction "[c]" cs rule: concat_sep.induct) auto

section \<open>\<open>Clean\<close>\<close>

text \<open>One element of the path on the elements kept so far, the last one first.\<close>

definition clean_step :: "bool \<Rightarrow> string \<Rightarrow> string list \<Rightarrow> string list" where
  "clean_step rooted c kept =
     (if c = [] \<or> c = ''.'' then kept
      else if c = ''..'' then
        (case kept of
           [] \<Rightarrow> if rooted then [] else [''..'']
         | last1 # rest \<Rightarrow> if last1 = ''..'' then ''..'' # kept else rest)
      else c # kept)"

definition kept_elements :: "string \<Rightarrow> string list" where
  "kept_elements p = rev (fold (clean_step (has_prefix p [slash])) (split_on slash p) [])"

definition path_clean :: "string \<Rightarrow> string" where
  "path_clean p =
     (let body = concat_sep [slash] (kept_elements p) in
      if has_prefix p [slash] then slash # body else if body = [] then ''.'' else body)"

definition path_join :: "string list \<Rightarrow> string" where
  "path_join ps = (case filter (\<lambda>p. p \<noteq> []) ps of [] \<Rightarrow> [] | qs \<Rightarrow> path_clean (concat_sep [slash] qs))"

text \<open>\<open>Dir\<close> cleans the path up to its last slash.\<close>

definition path_dir :: "string \<Rightarrow> string" where
  "path_dir p = path_clean (case last_index_byte p slash of None \<Rightarrow> [] | Some i \<Rightarrow> take (Suc i) p)"

definition path_is_abs :: "string \<Rightarrow> bool" where
  "path_is_abs p \<longleftrightarrow> has_prefix p [slash]"

text \<open>\<open>Abs\<close> fails when there is no working directory to start from.\<close>

definition path_abs :: "string option \<Rightarrow> string \<Rightarrow> string option" where
  "path_abs cwd p =
     (if path_is_abs p then Some (path_clean p) else map_option (\<lambda>d. path_join [d, p]) cwd)"

section \<open>Cleaned paths\<close>

text \<open>Elements of a path that has been split: no slash, and not empty.\<close>

definition plain_element :: "string \<Rightarrow> bool" where
  "plain_element e \<longleftrightarrow> e \<noteq> [] \<and> slash \<notin> set e"

lemma fold_clean_plain:
  "\<forall>c \<in> set cs. slash \<notin> set c \<Longrightarrow> \<forall>e \<in> set kept. plain_element e \<Longrightarrow>
   e \<in> set (fold (clean_step r) cs kept) \<Longrightarrow> plain_element e"
proof (induction cs arbitrary: kept)
  case (Cons c cs)
  have "\<forall>e \<in> set (clean_step r c kept). plain_element e"
    using Cons.prems(1,2)
    by (cases kept) (auto simp: clean_step_def plain_element_def slash_def split: if_splits)
  then show ?case using Cons.IH [of "clean_step r c kept"] Cons.prems(1,3) by simp
qed simp

lemma kept_plain: "e \<in> set (kept_elements p) \<Longrightarrow> plain_element e"
  using fold_clean_plain [of "split_on slash p" "[]" e] split_on_pieces [of _ slash p] by (auto simp: kept_elements_def)

lemma fold_clean_weight: "weight (fold (clean_step r) cs kept) \<le> weight cs + weight kept"
proof (induction cs arbitrary: kept)
  case (Cons c cs)
  have "weight (clean_step r c kept) \<le> Suc (length c) + weight kept"
    by (cases kept) (auto simp: clean_step_def)
  then show ?case using Cons.IH [of "clean_step r c kept"] by simp
qed simp

lemma kept_weight: "weight (kept_elements p) \<le> Suc (length p) - (if has_prefix p [slash] then 1 else 0)"
proof (cases "has_prefix p [slash]")
  case True
  then obtain q where p: "p = slash # q" by (auto simp: has_prefix_iff)
  then have "kept_elements p = rev (fold (clean_step True) (split_on slash q) [])"
    using True by (simp add: kept_elements_def clean_step_def)
  then show ?thesis using fold_clean_weight [of True "split_on slash q" "[]"] p True by (simp add: weight_split)
next
  case False
  then show ?thesis
    using fold_clean_weight [of False "split_on slash p" "[]"] by (simp add: kept_elements_def weight_split)
qed

lemma path_clean_length: "length (path_clean p) \<le> max 1 (length p)"
proof (cases "kept_elements p = []")
  case True
  then show ?thesis by (simp add: path_clean_def)
next
  case False
  let ?body = "concat_sep [slash] (kept_elements p)"
  have "Suc (length ?body) = weight (kept_elements p)" using length_join [OF False] by simp
  then have "length ?body + (if has_prefix p [slash] then 1 else 0) \<le> length p"
    using kept_weight [of p] by (auto split: if_splits simp: has_prefix_iff)
  then show ?thesis by (auto simp: path_clean_def Let_def)
qed

lemma plain_last: "\<forall>e \<in> set cs. plain_element e \<Longrightarrow> cs \<noteq> [] \<Longrightarrow>
   concat_sep [slash] cs \<noteq> [] \<and> last (concat_sep [slash] cs) \<noteq> slash"
proof (induction "[slash]" cs rule: concat_sep.induct)
  case (2 x)
  then have "x \<noteq> []" "slash \<notin> set x" by (simp_all add: plain_element_def)
  then show ?case by (metis concat_sep.simps(2) last_in_set)
qed (auto simp: plain_element_def)

lemma path_clean_ne [simp]: "path_clean p \<noteq> []"
  by (simp add: path_clean_def Let_def)

lemma path_clean_last: "last (path_clean p) = slash \<Longrightarrow> path_clean p = [slash]"
proof (cases "kept_elements p = []")
  case True
  assume "last (path_clean p) = slash"
  then show ?thesis using True by (auto simp: path_clean_def slash_def split: if_splits)
next
  case False
  have body: "concat_sep [slash] (kept_elements p) \<noteq> []" "last (concat_sep [slash] (kept_elements p)) \<noteq> slash"
    using plain_last [OF _ False] kept_plain by blast+
  assume "last (path_clean p) = slash"
  then show ?thesis using body by (simp add: path_clean_def Let_def split: if_splits)
qed

text \<open>A cleaned path has no two slashes in a row.\<close>

lemma path_clean_no_url:
  assumes "slash \<notin> set scheme" and "scheme \<noteq> []"
  shows "\<not> has_prefix (path_clean p) (scheme @ [slash, slash])"
proof
  assume "has_prefix (path_clean p) (scheme @ [slash, slash])"
  then obtain rest where url: "path_clean p = scheme @ slash # slash # rest" by (auto simp: has_prefix_iff)
  have "hd scheme \<noteq> slash" using assms by (metis hd_in_set)
  then have "hd (path_clean p) \<noteq> slash" using url assms(2) by simp
  then have body: "path_clean p = concat_sep [slash] (kept_elements p) \<or> path_clean p = ''.''"
    by (auto simp: path_clean_def Let_def split: if_splits)
  have "slash \<in> set (path_clean p)" using url by simp
  then have joined: "path_clean p = concat_sep [slash] (kept_elements p)" using body by (auto simp: slash_def)
  have "kept_elements p \<noteq> []" using joined by auto
  then have "split_on slash (path_clean p) = kept_elements p"
    using split_on_join [of "kept_elements p" slash] kept_plain joined by (simp add: plain_element_def)
  moreover have "[] \<in> set (split_on slash (path_clean p))"
    using url split_on_append [OF assms(1)] by simp
  ultimately show False using kept_plain [of "[]" p] by (simp add: plain_element_def)
qed

section \<open>Going up\<close>

text \<open>A measure that every step to another directory lowers.\<close>

definition up_measure :: "string \<Rightarrow> nat" where
  "up_measure p = (if p = ''.'' then 0 else Suc (2 * length p + (if p \<noteq> [] \<and> last p = slash then 1 else 0)))"

lemma path_clean_empty: "path_clean [] = ''.''"
  by (simp add: path_clean_def kept_elements_def clean_step_def has_prefix_def)

lemma up_measure_bound: "q \<noteq> [] \<Longrightarrow> last q \<noteq> slash \<Longrightarrow> up_measure q \<le> Suc (2 * length q)"
  by (simp add: up_measure_def)

lemma path_dir_measure:
  assumes "path_dir p \<noteq> p"
  shows "up_measure (path_dir p) < up_measure p"
proof (cases "last_index_byte p slash")
  case None
  have "path_dir p = ''.''" unfolding path_dir_def None option.case by (rule path_clean_empty)
  then show ?thesis using assms by (simp add: up_measure_def)
next
  case (Some i)
  then have i: "i < length p" "p ! i = slash" using last_index_byte_Some [OF Some] by auto
  let ?q = "take (Suc i) p"
  have dir: "path_dir p = path_clean ?q" using Some by (simp add: path_dir_def)
  have ne: "p \<noteq> ''.''" using i by (auto simp: slash_def)
  have len: "length (path_clean ?q) \<le> Suc i" using path_clean_length [of ?q] i(1) by simp
  show ?thesis
  proof (cases "last (path_clean ?q) = slash")
    case True
    then have root: "path_dir p = [slash]" using path_clean_last dir by simp
    then have "1 < length p" using assms i by (cases p) (auto simp: nth_Cons split: nat.splits)
    then show ?thesis using root ne by (simp add: up_measure_def slash_def)
  next
    case False
    have bound: "up_measure (path_dir p) \<le> Suc (2 * Suc i)"
      using up_measure_bound [OF path_clean_ne False] len dir by simp
    show ?thesis
    proof (cases "Suc i = length p")
      case True
      then have "p \<noteq> []" "length p - 1 = i" by auto
      then have "last p = slash" "p \<noteq> []" using i(2) by (simp_all add: last_conv_nth)
      then show ?thesis using bound True ne by (simp add: up_measure_def)
    next
      case False
      then show ?thesis using bound i ne by (simp add: up_measure_def)
    qed
  qed
qed

end
