(* ===== verification/Cli.thy ===== *)
theory Cli
  imports Paths Expand
begin

text \<open>
  The configuration file and the command: internal/config/config.go and cmd/agen/main.go. A run is the
  list of what it does to the world once the configuration is read, in order, and its result; the file system, the network, yaml,
  regular expressions, and the stages that other theories model in detail are given by a \<open>host\<close>.
\<close>

section \<open>Configuration\<close>

record config =
  tg_package :: string
  tg_dir :: string
  tg_spec :: string
  pc_infer_types :: bool
  pc_allow_remote :: bool
  pc_depth_limit :: int
  pc_ignore :: "string list"
  gc_enable :: "string list"
  gc_disable :: "string list"
  gc_disable_all :: bool
  fl_regex :: string
  fl_actions :: "string list"
  gc_initialisms :: bool
  ex_output :: string

text \<open>The zero value, \<open>&agenconfig.Config{}\<close>.\<close>

definition zero_config :: config where
  "zero_config = \<lparr>tg_package = [], tg_dir = [], tg_spec = [], pc_infer_types = False, pc_allow_remote = False,
     pc_depth_limit = 0, pc_ignore = [], gc_enable = [], gc_disable = [], gc_disable_all = False, fl_regex = [],
     fl_actions = [], gc_initialisms = False, ex_output = []\<rparr>"

datatype cli_err =
    ReadConfig | DecodeConfig | BadAction string | NoSpec | TooManyArgs | CleanTarget
  | ParseUrl | FetchSpec | AbsPath | ReadSpec | ParseYaml | DecodeSpec | VersionMissing | OldVersion string
  | ParseFailed | FeatureError gerr | BadRegex | GenerateFailed | CreateDir | WriteFailed
  | ExpandFailed xerr | MarshalFailed | WriteExpanded | EmptyRoot

record parse_config =
  pp_remote :: bool
  pp_infer_types :: bool
  pp_depth_limit :: int
  pp_root_file :: string

text \<open>The world, and the stages of the pipeline: \<open>'s\<close> is a decoded document, \<open>'a\<close> a parsed one, \<open>'g\<close> a
  generator.\<close>

record ('s, 'a, 'g) host =
  h_cwd :: "string option"
  h_is_file :: "string \<Rightarrow> bool"
  h_read :: "string \<Rightarrow> bytes option"
  h_config :: "bytes \<Rightarrow> config option"
  h_url :: "string \<Rightarrow> bool"
  h_get :: "string \<Rightarrow> bytes option"
  h_remove :: "string \<Rightarrow> bool"
  h_mkdir :: "string \<Rightarrow> bool"
  h_yaml :: "bytes \<Rightarrow> ynode option"
  h_decode :: "ynode \<Rightarrow> 's option"
  h_version :: "'s \<Rightarrow> string"
  h_parse :: "'s \<Rightarrow> ynode \<Rightarrow> string \<Rightarrow> parse_config \<Rightarrow> 'a option"
  h_regex :: "string \<Rightarrow> (string \<Rightarrow> bool) option"
  h_generator :: "'a \<Rightarrow> options \<Rightarrow> 'g option"
  h_write_source :: "'g \<Rightarrow> string \<Rightarrow> string \<Rightarrow> bool"
  h_lookup :: "string \<Rightarrow> ynode \<Rightarrow> ynode option"
  h_marshal :: "ynode \<Rightarrow> bytes option"
  h_write_file :: "string \<Rightarrow> bytes \<Rightarrow> bool"

definition configFiles :: "string list" where
  "configFiles = [''agen.yml'', ''agen.yaml'', ''.agen.yml'', ''.agen.yaml'']"

fun find_config :: "(string \<Rightarrow> bool) \<Rightarrow> string \<Rightarrow> string list \<Rightarrow> string option" where
  "find_config is_file dir [] = None"
| "find_config is_file dir (f # fs) =
     (let p = path_join [dir, f] in if is_file p then Some p else find_config is_file dir fs)"

text \<open>The walk ends because a directory that is not its own parent has a smaller one.\<close>

function AutoDiscover :: "(string \<Rightarrow> bool) \<Rightarrow> string \<Rightarrow> string \<times> bool" where
  "AutoDiscover is_file dir =
     (case find_config is_file dir configFiles of
        Some p \<Rightarrow> (p, True)
      | None \<Rightarrow> let parent = path_dir dir in
          if parent = dir then ([], False) else AutoDiscover is_file parent)"
  by pat_completeness auto
termination
  by (relation "measure (up_measure \<circ> snd)") (auto simp: path_dir_measure)

declare AutoDiscover.simps [simp del]

definition setDefaults :: "config \<Rightarrow> cli_err + config" where
  "setDefaults c =
     (let c1 = (if tg_dir c = [] then c\<lparr>tg_dir := ''./api''\<rparr> else c) in
      case List.find (\<lambda>a. a \<noteq> ''send'' \<and> a \<noteq> ''receive'') (fl_actions c1) of
        Some a \<Rightarrow> Inl (BadAction a)
      | None \<Rightarrow> Inr c1)"

text \<open>A relative path of the file is taken from the directory of the file; an error of \<open>Abs\<close> leaves it.\<close>

definition from_config :: "string option \<Rightarrow> string \<Rightarrow> string \<Rightarrow> string" where
  "from_config cwd path p =
     (if path_is_abs p then p
      else case path_abs cwd (path_join [path_dir path, p]) of Some q \<Rightarrow> q | None \<Rightarrow> p)"

definition Load :: "('s, 'a, 'g) host \<Rightarrow> string \<Rightarrow> cli_err + config" where
  "Load h path = (case h_read h path of
       None \<Rightarrow> Inl ReadConfig
     | Some data \<Rightarrow> (case h_config h data of
         None \<Rightarrow> Inl DecodeConfig
       | Some c \<Rightarrow>
           bind_res (setDefaults c) (\<lambda>c1.
             let c2 = c1\<lparr>tg_spec := from_config (h_cwd h) path (tg_spec c1)\<rparr>
             in Inr (c2\<lparr>tg_dir := from_config (h_cwd h) path (tg_dir c2)\<rparr>))))"

section \<open>What a run does\<close>

datatype act =
    RemoveAll string
  | HttpGet string
  | ReadFile string
  | MkdirAll string
  | WriteSource string string
  | WriteFile string bytes

type_synonym 'x cli = "act list \<times> (cli_err + 'x)"

definition cbind :: "'x cli \<Rightarrow> ('x \<Rightarrow> 'y cli) \<Rightarrow> 'y cli" where
  "cbind m f = (case m of (as, Inl e) \<Rightarrow> (as, Inl e) | (as, Inr x) \<Rightarrow> (case f x of (bs, r) \<Rightarrow> (as @ bs, r)))"

definition cpure :: "'x \<Rightarrow> 'x cli" where "cpure x = ([], Inr x)"

definition cfail :: "cli_err \<Rightarrow> 'x cli" where "cfail e = ([], Inl e)"

text \<open>What may fail without touching the world, and an act with its outcome.\<close>

definition attempt :: "cli_err \<Rightarrow> 'x option \<Rightarrow> 'x cli" where
  "attempt e r = (case r of None \<Rightarrow> cfail e | Some x \<Rightarrow> cpure x)"

definition act_for :: "act \<Rightarrow> cli_err \<Rightarrow> 'x option \<Rightarrow> 'x cli" where
  "act_for a e r = ([a], case r of None \<Rightarrow> Inl e | Some x \<Rightarrow> Inr x)"

definition done_if :: "bool \<Rightarrow> unit option" where
  "done_if b = (if b then Some () else None)"

definition checkVersionEarly :: "string \<Rightarrow> cli_err option" where
  "checkVersionEarly version =
     (if version = [] then Some VersionMissing
      else let major = (case index_byte version CHR ''.'' of None \<Rightarrow> version | Some i \<Rightarrow> take i version) in
        if major = ''2'' \<or> major = ''1'' then Some (OldVersion version) else None)"

text \<open>The data of the document and its URL.\<close>

definition loadSpec :: "('s, 'a, 'g) host \<Rightarrow> string \<Rightarrow> (bytes \<times> string) cli" where
  "loadSpec h path =
     (if has_prefix path ''http://'' \<or> has_prefix path ''https://'' then
        cbind (attempt ParseUrl (done_if (h_url h path))) (\<lambda>_.
        cbind (act_for (HttpGet path) FetchSpec (h_get h path)) (\<lambda>data. cpure (data, path)))
      else
        cbind (attempt AbsPath (path_abs (h_cwd h) path)) (\<lambda>abs.
        cbind (act_for (ReadFile abs) ReadSpec (h_read h abs)) (\<lambda>data.
        cbind (attempt ParseUrl (done_if (h_url h (''file://'' @ abs)))) (\<lambda>_.
          cpure (data, ''file://'' @ abs)))))"

definition cli_options :: "config \<Rightarrow> string set \<Rightarrow> (string \<Rightarrow> bool) option \<Rightarrow> options" where
  "cli_options cfg features regex = \<lparr>go_features = Some features, go_operations_regex = regex,
     go_actions = fl_actions cfg, go_ignore = pc_ignore cfg, go_initialisms = gc_initialisms cfg\<rparr>"

definition root_file :: "('s, 'a, 'g) host \<Rightarrow> string \<Rightarrow> string" where
  "root_file h specPath = (case path_abs (h_cwd h) specPath of Some p \<Rightarrow> p | None \<Rightarrow> specPath)"

text \<open>The document expanded for \<open>expand.output\<close>; \<open>root.Content[0]\<close> panics on an empty root.\<close>

definition write_expanded :: "('s, 'a, 'g) host \<Rightarrow> string \<Rightarrow> ynode \<Rightarrow> unit cli" where
  "write_expanded h out doc =
     (if out = [] then cpure ()
      else case Expand (h_lookup h) (Some doc) of
        Inl e \<Rightarrow> cfail (ExpandFailed e)
      | Inr expanded \<Rightarrow> (case y_content expanded of
          [] \<Rightarrow> cfail EmptyRoot
        | body # _ \<Rightarrow>
            cbind (attempt MarshalFailed (h_marshal h body)) (\<lambda>data.
              act_for (WriteFile out data) WriteExpanded (done_if (h_write_file h out data)))))"

text \<open>The first stages: from the configuration to the parsed document, with the yaml root.\<close>

definition parse_stages :: "('s, 'a, 'g) host \<Rightarrow> config \<Rightarrow> ('a \<times> ynode) cli" where
  "parse_stages h cfg =
     (let specPath = path_clean (tg_spec cfg) in
      cbind (loadSpec h specPath) (\<lambda>(data, rootURL).
      cbind (attempt ParseYaml (h_yaml h data)) (\<lambda>node.
        let doc = AliasXExtensions node in
      cbind (attempt DecodeSpec (h_decode h doc)) (\<lambda>spec.
      case checkVersionEarly (h_version h spec) of
        Some e \<Rightarrow> cfail e
      | None \<Rightarrow>
          cbind (attempt ParseFailed (h_parse h spec doc rootURL
            \<lparr>pp_remote = pc_allow_remote cfg, pp_infer_types = pc_infer_types cfg,
              pp_depth_limit = pc_depth_limit cfg, pp_root_file = root_file h specPath\<rparr>)) (\<lambda>api.
            cpure (api, doc))))))"

definition compile_filter :: "('s, 'a, 'g) host \<Rightarrow> string \<Rightarrow> (string \<Rightarrow> bool) option cli" where
  "compile_filter h r =
     (if r = [] then cpure None else cbind (attempt BadRegex (h_regex h r)) (\<lambda>m. cpure (Some m)))"

definition package_name :: "config \<Rightarrow> string" where
  "package_name cfg = (if tg_package cfg = [] then ''api'' else tg_package cfg)"

definition Generate :: "('s, 'a, 'g) host \<Rightarrow> config \<Rightarrow> unit cli" where
  "Generate h cfg =
     cbind (parse_stages h cfg) (\<lambda>(api, doc).
     case BuildFeatures (gc_enable cfg) (gc_disable cfg) (gc_disable_all cfg) of
       Inl e \<Rightarrow> cfail (FeatureError e)
     | Inr features \<Rightarrow>
         cbind (compile_filter h (fl_regex cfg)) (\<lambda>regex.
         cbind (attempt GenerateFailed (h_generator h api (cli_options cfg features regex))) (\<lambda>g.
         cbind (act_for (MkdirAll (tg_dir cfg)) CreateDir (done_if (h_mkdir h (tg_dir cfg)))) (\<lambda>_.
         cbind (act_for (WriteSource (tg_dir cfg) (package_name cfg)) WriteFailed
                  (done_if (h_write_source h g (tg_dir cfg) (package_name cfg)))) (\<lambda>_.
           write_expanded h (ex_output cfg) doc)))))"

record flags =
  fg_config :: string
  fg_target :: string
  fg_package :: string
  fg_clean :: bool

text \<open>The positional arguments override the configuration.\<close>

definition with_args :: "string list \<Rightarrow> config \<Rightarrow> cli_err + config" where
  "with_args args cfg = (case args of
       [] \<Rightarrow> if tg_spec cfg = [] then Inl NoSpec else Inr cfg
     | [spec] \<Rightarrow> Inr (cfg\<lparr>tg_spec := spec\<rparr>)
     | [spec, dir] \<Rightarrow> Inr (cfg\<lparr>tg_spec := spec, tg_dir := dir\<rparr>)
     | _ \<Rightarrow> Inl TooManyArgs)"

definition with_flags :: "flags \<Rightarrow> config \<Rightarrow> config" where
  "with_flags f cfg =
     (let c1 = (if fg_target f \<noteq> [] then cfg\<lparr>tg_dir := fg_target f\<rparr> else cfg)
      in if fg_package f \<noteq> [] then c1\<lparr>tg_package := fg_package f\<rparr> else c1)"

definition config_path :: "('s, 'a, 'g) host \<Rightarrow> flags \<Rightarrow> string" where
  "config_path h f =
     (if fg_config f = [] then
        (case AutoDiscover (h_is_file h) ''.'' of (p, True) \<Rightarrow> p | (_, False) \<Rightarrow> [])
      else fg_config f)"

definition run_config :: "('s, 'a, 'g) host \<Rightarrow> flags \<Rightarrow> string list \<Rightarrow> cli_err + config" where
  "run_config h f args =
     bind_res (if config_path h f = [] then Inr zero_config else Load h (config_path h f)) (\<lambda>cfg.
     bind_res (with_args args cfg) (\<lambda>cfg1.
       if tg_spec cfg1 = [] then Inl NoSpec else Inr (with_flags f cfg1)))"

definition run :: "('s, 'a, 'g) host \<Rightarrow> flags \<Rightarrow> string list \<Rightarrow> unit cli" where
  "run h f args = (case run_config h f args of
       Inl e \<Rightarrow> cfail e
     | Inr cfg \<Rightarrow>
         cbind (if fg_clean f \<and> tg_dir cfg \<noteq> []
                then act_for (RemoveAll (tg_dir cfg)) CleanTarget (done_if (h_remove h (tg_dir cfg)))
                else cpure ()) (\<lambda>_.
           Generate h cfg))"

end
