(* ===== verification/CliProps.thy ===== *)
theory CliProps
  imports Cli
begin

text \<open>
  What a run of the command does: no document is ever fetched, nothing is written before every stage has
  succeeded, and which configuration a run has.
\<close>

section \<open>Acts of composed stages\<close>

lemma cbind_acts: "set (fst (cbind m f)) = set (fst m) \<union> (case snd m of Inl _ \<Rightarrow> {} | Inr x \<Rightarrow> set (fst (f x)))"
  by (cases m; cases "snd m") (auto simp: cbind_def split: prod.splits)

lemma cbind_result: "snd (cbind m f) = bind_res (snd m) (\<lambda>x. snd (f x))"
  by (cases m; cases "snd m") (auto simp: cbind_def split: prod.splits)

lemma cbind_done: "snd m = Inr x \<Longrightarrow> cbind m f = (fst m @ fst (f x), snd (f x))"
  by (cases m) (auto simp: cbind_def split: prod.splits)

lemma cbind_stop: "snd m = Inl e \<Longrightarrow> cbind m f = (fst m, Inl e)"
  by (cases m) (auto simp: cbind_def)

lemma plain_acts [simp]:
  "fst (cpure x) = []" "snd (cpure x) = Inr x" "fst (cfail e) = []" "snd (cfail e) = Inl e"
  "fst (attempt e r) = []" "fst (act_for a e r) = [a]"
  "snd (attempt e r) = Inr y \<longleftrightarrow> r = Some y" "snd (act_for a e r) = Inr y \<longleftrightarrow> r = Some y"
  "snd (attempt e None) = Inl e" "snd (attempt e (Some x)) = Inr x"
  by (auto simp: cpure_def cfail_def attempt_def act_for_def split: option.splits)

lemma done_if_Some [simp]: "done_if b = Some y \<longleftrightarrow> b"
  by (simp add: done_if_def)

section \<open>Fetching\<close>

lemma loadSpec_cleaned:
  "loadSpec h (path_clean p) =
     cbind (attempt AbsPath (path_abs (h_cwd h) (path_clean p))) (\<lambda>abs.
     cbind (act_for (ReadFile abs) ReadSpec (h_read h abs)) (\<lambda>data.
     cbind (attempt ParseUrl (done_if (h_url h (''file://'' @ abs)))) (\<lambda>_.
       cpure (data, ''file://'' @ abs))))"
proof -
  have "\<not> has_prefix (path_clean p) ''http://''" "\<not> has_prefix (path_clean p) ''https://''"
    using path_clean_no_url [of "''http:''" p] path_clean_no_url [of "''https:''" p] by (simp_all add: slash_def)
  then show ?thesis by (simp add: loadSpec_def)
qed

text \<open>What the stages up to the parsed document do: read one file at most.\<close>

lemma parse_stages_acts: "set (fst (parse_stages h cfg)) \<subseteq> range ReadFile"
  unfolding parse_stages_def Let_def loadSpec_cleaned
  by (auto simp: cbind_acts cbind_result split: sum.splits option.splits prod.splits)

text \<open>Only these acts follow.\<close>

definition output_act :: "config \<Rightarrow> act \<Rightarrow> bool" where
  "output_act cfg a \<longleftrightarrow> a = MkdirAll (tg_dir cfg) \<or> a = WriteSource (tg_dir cfg) (package_name cfg)
     \<or> (\<exists>data. a = WriteFile (ex_output cfg) data \<and> ex_output cfg \<noteq> [])"

lemma write_expanded_acts: "a \<in> set (fst (write_expanded h (ex_output cfg) doc)) \<Longrightarrow> output_act cfg a"
  by (auto simp: write_expanded_def output_act_def cbind_acts split: if_splits sum.splits list.splits option.splits)

text \<open>All stages before the first output have succeeded.\<close>

definition ready_to_write :: "('s, 'a, 'g) host \<Rightarrow> config \<Rightarrow> bool" where
  "ready_to_write h cfg \<longleftrightarrow> (\<exists>api doc features regex g. snd (parse_stages h cfg) = Inr (api, doc)
     \<and> BuildFeatures (gc_enable cfg) (gc_disable cfg) (gc_disable_all cfg) = Inr features
     \<and> snd (compile_filter h (fl_regex cfg)) = Inr regex
     \<and> h_generator h api (cli_options cfg features regex) = Some g)"

lemma compile_filter_acts [simp]: "fst (compile_filter h r) = []"
  by (auto simp: compile_filter_def cbind_def attempt_def cfail_def cpure_def split: option.splits)

lemma generate_acts:
  "a \<in> set (fst (Generate h cfg)) \<Longrightarrow> a \<in> range ReadFile \<or> output_act cfg a \<and> ready_to_write h cfg"
  using parse_stages_acts [of h cfg] write_expanded_acts [of a h cfg] unfolding Generate_def ready_to_write_def
  by (auto simp: cbind_acts cbind_result output_act_def split: sum.splits prod.splits)

lemma run_acts:
  "a \<in> set (fst (run h f args)) \<Longrightarrow> \<exists>cfg. run_config h f args = Inr cfg
     \<and> (a = RemoveAll (tg_dir cfg) \<and> fg_clean f \<or> a \<in> set (fst (Generate h cfg)))"
  by (auto simp: run_def cbind_acts cpure_def split: sum.splits if_splits)

text \<open>
  No run ever fetches a document over the network: the path of the document is cleaned before it is
  looked at, and a cleaned path does not start with a URL scheme.
\<close>

lemma no_spec_is_fetched: "HttpGet url \<notin> set (fst (run h f args))"
proof
  assume "HttpGet url \<in> set (fst (run h f args))"
  then obtain cfg where "HttpGet url \<in> set (fst (Generate h cfg))" using run_acts by fastforce
  then show False using generate_acts by (fastforce simp: output_act_def)
qed

text \<open>
  C36: nothing is written before every stage has succeeded: a directory is created and files are written
  only after the document was read, decoded and parsed, the features and the filter are known and the
  generator was built, and only in the target directory and the file for the expanded document.
\<close>

theorem writes_only_when_ready:
  assumes "a \<in> set (fst (run h f args))" and "a \<notin> range ReadFile \<union> range RemoveAll"
  shows "\<exists>cfg. run_config h f args = Inr cfg \<and> output_act cfg a \<and> ready_to_write h cfg"
proof -
  obtain cfg where cfg: "run_config h f args = Inr cfg"
    "a = RemoveAll (tg_dir cfg) \<and> fg_clean f \<or> a \<in> set (fst (Generate h cfg))"
    using run_acts [OF assms(1)] by blast
  then have "a \<in> set (fst (Generate h cfg))" using assms(2) by auto
  then show ?thesis using generate_acts cfg(1) assms(2) by blast
qed

text \<open>Looking for a configuration in a relative directory never leaves it.\<close>

lemma discover_here: "AutoDiscover is_file ''.'' = (case find_config is_file ''.'' configFiles of Some p \<Rightarrow> (p, True) | None \<Rightarrow> ([], False))"
proof -
  have "path_dir ''.'' = ''.''"
    by (simp add: path_dir_def slash_def path_clean_def kept_elements_def clean_step_def has_prefix_def)
  then show ?thesis by (subst AutoDiscover.simps) (simp add: Let_def split: option.splits)
qed

text \<open>A world in which everything succeeds, and a run in it.\<close>

definition kind_host :: "(unit, unit, unit) host" where
  "kind_host = \<lparr>h_cwd = Some ''/work'', h_is_file = \<lambda>p. False, h_read = \<lambda>p. Some [], h_config = \<lambda>d. None,
     h_url = \<lambda>u. True, h_get = \<lambda>u. None, h_remove = \<lambda>p. True, h_mkdir = \<lambda>p. True,
     h_yaml = \<lambda>d. Some (scalar ''spec''), h_decode = \<lambda>n. Some (), h_version = \<lambda>s. ''3.0.0'',
     h_parse = \<lambda>s n u c. Some (), h_regex = \<lambda>r. None, h_generator = \<lambda>a opt. Some (),
     h_write_source = \<lambda>g d p. True, h_lookup = \<lambda>r n. None, h_marshal = \<lambda>n. None, h_write_file = \<lambda>p d. True\<rparr>"

definition plain_flags :: flags where
  "plain_flags = \<lparr>fg_config = [], fg_target = [], fg_package = [], fg_clean = False\<rparr>"

lemma no_config_here: "config_path kind_host plain_flags = []"
proof -
  have "find_config (\<lambda>p. False) ''.'' configFiles = None" by (simp add: configFiles_def Let_def)
  then show ?thesis by (simp add: config_path_def kind_host_def plain_flags_def discover_here)
qed

lemma writes_only_when_ready_witness:
  "\<exists>cfg. run_config kind_host plain_flags [''a.yml'', ''out''] = Inr cfg \<and> ready_to_write kind_host cfg"
proof -
  let ?cfg = "zero_config\<lparr>tg_spec := ''a.yml'', tg_dir := ''out''\<rparr>"
  have cfg: "run_config kind_host plain_flags [''a.yml'', ''out''] = Inr ?cfg"
    using no_config_here by (simp add: run_config_def with_args_def with_flags_def plain_flags_def)
  have "BuildFeatures [] [] False = Inr (set DefaultFeatures)" by (simp add: BuildFeatures_def)
  then have "MkdirAll ''out'' \<in> set (fst (Generate kind_host ?cfg))"
    by (simp add: Generate_def parse_stages_def Let_def loadSpec_cleaned cbind_def attempt_def act_for_def cpure_def
        done_if_def compile_filter_def write_expanded_def kind_host_def path_abs_def checkVersionEarly_def zero_config_def)
  then have "MkdirAll ''out'' \<in> set (fst (run kind_host plain_flags [''a.yml'', ''out'']))"
    unfolding run_def cfg by (simp add: cbind_acts plain_flags_def)
  from writes_only_when_ready [OF this] show ?thesis by auto
qed

section \<open>The configuration of a run\<close>

text \<open>
  Without a configuration file and with only a document given, the target directory of a run is
  empty: the default \<open>./api\<close> is filled in for configuration files alone.
\<close>

lemma no_default_dir_without_file:
  assumes "config_path h f = []" and "fg_target f = []" and "spec \<noteq> []"
  shows "\<exists>cfg. run_config h f [spec] = Inr cfg \<and> tg_dir cfg = [] \<and> tg_spec cfg = spec"
  using assms by (auto simp: run_config_def with_args_def with_flags_def zero_config_def Let_def)

lemma no_default_dir_without_file_witness:
  "\<exists>cfg. run_config kind_host plain_flags [''a.yml''] = Inr cfg \<and> tg_dir cfg = []"
  using no_default_dir_without_file [OF no_config_here, of "''a.yml''"] by (auto simp: plain_flags_def)

text \<open>A configuration file without a document gives its own directory as the document.\<close>

lemma absent_spec_is_directory:
  assumes "h_read h path = Some data" and "h_config h data = Some c" and "tg_spec c = []"
    and "setDefaults c = Inr c1" and "h_cwd h = Some cwd"
  shows "\<exists>cfg. Load h path = Inr cfg \<and> path_abs (Some cwd) (path_join [path_dir path]) = Some (tg_spec cfg)"
proof -
  have "tg_spec c1 = []" using assms(3,4) by (auto simp: setDefaults_def Let_def split: option.splits if_splits)
  moreover have "path_join [path_dir path, []] = path_join [path_dir path]" by (simp add: path_join_def)
  moreover have "\<not> path_is_abs []" by (simp add: path_is_abs_def has_prefix_def)
  ultimately show ?thesis
    using assms(1,2,4,5) by (auto simp: Load_def from_config_def path_abs_def Let_def)
qed

text \<open>
  The configuration file is the first one that exists in the directory or the nearest directory above
  it that has one; none is found exactly when none of them has one.
\<close>

lemma nearest_config:
  "AutoDiscover is_file dir =
     (if \<exists>n. find_config is_file ((path_dir ^^ n) dir) configFiles \<noteq> None
      then (the (find_config is_file ((path_dir ^^ (LEAST n. find_config is_file ((path_dir ^^ n) dir) configFiles \<noteq> None)) dir) configFiles), True)
      else ([], False))"
proof (induction is_file dir rule: AutoDiscover.induct)
  case (1 is_file dir)
  let ?found = "\<lambda>d n. find_config is_file ((path_dir ^^ n) d) configFiles \<noteq> None"
  have up: "(path_dir ^^ n) (path_dir dir) = (path_dir ^^ Suc n) dir" for n by (simp add: funpow_swap1)
  show ?case
  proof (cases "find_config is_file dir configFiles")
    case (Some p)
    then have "?found dir 0" by simp
    moreover from this have "(LEAST n. ?found dir n) = 0" by (rule Least_eq_0)
    ultimately show ?thesis using Some by (subst AutoDiscover.simps) (auto intro: exI [of _ 0])
  next
    case None
    show ?thesis
    proof (cases "path_dir dir = dir")
      case True
      then have "(path_dir ^^ n) dir = dir" for n by (induction n) auto
      then show ?thesis using None True by (subst AutoDiscover.simps) simp
    next
      case False
      have shift: "(\<exists>n. ?found dir n) \<longleftrightarrow> (\<exists>n. ?found (path_dir dir) n)"
        using None up by (metis funpow_0 not0_implies_Suc)
      show ?thesis
      proof (cases "\<exists>n. ?found (path_dir dir) n")
        case True
        then obtain n where "?found dir n" using shift by blast
        then have "(LEAST n. ?found dir n) = Suc (LEAST n. ?found dir (Suc n))" using None by (intro Least_Suc) auto
        then show ?thesis using 1 [OF None refl False] True shift None False up by (subst AutoDiscover.simps) simp
      next
        case f: False
        then show ?thesis using 1 [OF None refl False] shift None False by (subst AutoDiscover.simps) simp
      qed
    qed
  qed
qed

end
