(* ===== verification/Codec.thy ===== *)
theory Codec
  imports Validate
begin

text \<open>
  Texts written into fixed buffers by runtime/codec: durations (std_duration.go), UUIDs (uuid.go),
  integers in strings (int.go, uint.go). A buffer is the list of its bytes, an offset of \<open>None\<close> is an
  index out of range, which panics.
\<close>

unbundle bit_operations_syntax

section \<open>Writing backwards\<close>

text \<open>\<open>w--; buf[w] = c\<close> on the offset and the buffer.\<close>

type_synonym backward = "nat \<times> char list"

definition put :: "char \<Rightarrow> backward \<Rightarrow> backward option" where
  "put c = (\<lambda>(w, buf). if w = 0 then None else Some (w - 1, buf[w - 1 := c]))"

definition ascii_digit :: "64 word \<Rightarrow> char" where
  "ascii_digit d = digit_char (unat d)"

text \<open>The loop of \<open>fmtFrac\<close>; the result is the state, the flag and the rest of the value.\<close>

fun fmt_frac_loop :: "nat \<Rightarrow> backward \<Rightarrow> bool \<Rightarrow> 64 word \<Rightarrow> (backward \<times> bool \<times> 64 word) option" where
  "fmt_frac_loop 0 st flag v = Some (st, flag, v)"
| "fmt_frac_loop (Suc prec) st flag v =
     (let digit = v mod 10; flag' = (flag \<or> digit \<noteq> 0) in
      Option.bind (if flag' then put (ascii_digit digit) st else Some st) (\<lambda>st'.
        fmt_frac_loop prec st' flag' (v div 10)))"

definition fmtFrac :: "backward \<Rightarrow> 64 word \<Rightarrow> nat \<Rightarrow> (backward \<times> 64 word) option" where
  "fmtFrac st v prec =
     Option.bind (fmt_frac_loop prec st False v) (\<lambda>(st1, flag, rest).
     Option.bind (if flag then put CHR ''.'' st1 else Some st1) (\<lambda>st2. Some (st2, rest)))"

function fmt_int_loop :: "64 word \<Rightarrow> backward \<Rightarrow> backward option" where
  "fmt_int_loop v st =
     (if v = 0 then Some st else Option.bind (put (ascii_digit (v mod 10)) st) (fmt_int_loop (v div 10)))"
  by pat_completeness auto
termination
proof (relation "measure (unat \<circ> fst)")
  fix v :: "64 word" and st z
  assume "v \<noteq> 0"
  then have "unat v div 10 < unat v" by (simp add: unat_gt_0 [symmetric] del: unat_gt_0)
  then show "((v div 10, z), v, st) \<in> measure (unat \<circ> fst)" by (simp add: unat_div)
qed simp

declare fmt_int_loop.simps [simp del]

definition fmtInt :: "backward \<Rightarrow> 64 word \<Rightarrow> backward option" where
  "fmtInt st v = (if v = 0 then put CHR ''0'' st else fmt_int_loop v st)"

section \<open>Durations\<close>

definition Microsecond :: "64 word" where "Microsecond = 1000"
definition Millisecond :: "64 word" where "Millisecond = 1000000"
definition Second :: "64 word" where "Second = 1000000000"

definition micro_sign :: string where "micro_sign = [chr_of 194, chr_of 181]"

text \<open>Below a second: the unit is written first, from the right; \<open>copy\<close> writes both bytes of the sign.\<close>

definition below_second :: "64 word \<Rightarrow> backward \<Rightarrow> backward option" where
  "below_second u st =
     Option.bind (put CHR ''s'' st) (\<lambda>st1.
     Option.bind
       (if u < Microsecond then map_option (\<lambda>s. (s, 0)) (put CHR ''n'' st1)
        else if u < Millisecond then
          map_option (\<lambda>s. (s, 3)) (Option.bind (put (micro_sign ! 1) st1) (put (micro_sign ! 0)))
        else map_option (\<lambda>s. (s, 6)) (put CHR ''m'' st1)) (\<lambda>(st2, prec).
     Option.bind (fmtFrac st2 u prec) (\<lambda>(st3, u1). fmtInt st3 u1)))"

definition hours_part :: "64 word \<Rightarrow> backward \<Rightarrow> backward option" where
  "hours_part u st = (if u = 0 then Some st else Option.bind (put CHR ''h'' st) (\<lambda>st1. fmtInt st1 u))"

definition minutes_part :: "64 word \<Rightarrow> backward \<Rightarrow> backward option" where
  "minutes_part u st =
     (if u = 0 then Some st
      else Option.bind (put CHR ''m'' st) (\<lambda>st1.
           Option.bind (fmtInt st1 (u mod 60)) (hours_part (u div 60))))"

definition from_second :: "64 word \<Rightarrow> backward \<Rightarrow> backward option" where
  "from_second u st =
     Option.bind (put CHR ''s'' st) (\<lambda>st1.
     Option.bind (fmtFrac st1 u 9) (\<lambda>(st2, u1).
     Option.bind (fmtInt st2 (u1 mod 60)) (minutes_part (u1 div 60))))"

definition formatDuration :: "char list \<Rightarrow> 64 word \<Rightarrow> backward option" where
  "formatDuration buf d =
     (let neg = d <s 0; u = (if neg then - d else d); w = length buf in
      if u = 0 then Some (w - 2, replicate (w - 2) (chr_of 0) @ ''0s'')
      else
        Option.bind (if u < Second then below_second u (w, buf) else from_second u (w, buf)) (\<lambda>st.
          if neg then put CHR ''-'' st else Some st))"

definition duration_bytes :: "64 word \<Rightarrow> string option" where
  "duration_bytes v = map_option (\<lambda>(w, buf). drop w buf) (formatDuration (replicate 32 (chr_of 0)) v)"

section \<open>What the text of a duration is\<close>

text \<open>The fraction of \<open>prec\<close> digits without trailing zeros, and without a point when it is zero.\<close>

fun frac_digits :: "nat \<Rightarrow> nat \<Rightarrow> string" where
  "frac_digits 0 v = []"
| "frac_digits (Suc p) v =
     (if v mod 10 = 0 then frac_digits p (v div 10)
      else rev (map (\<lambda>i. digit_char (v div 10 ^ i mod 10)) [0..<Suc p]))"

definition frac_text :: "nat \<Rightarrow> nat \<Rightarrow> string" where
  "frac_text p v = (if frac_digits p v = [] then [] else ''.'' @ frac_digits p v)"

definition clock_text :: "nat \<Rightarrow> string" where
  "clock_text s =
     (if 60 \<le> s then
        (if 3600 \<le> s then utoa (s div 3600) @ ''h'' else []) @ utoa (s div 60 mod 60) @ ''m'' else [])
     @ utoa (s mod 60)"

definition duration_text :: "nat \<Rightarrow> string" where
  "duration_text n =
     (if n = 0 then ''0s''
      else if n < 1000 then utoa n @ ''ns''
      else if n < 1000000 then utoa (n div 1000) @ frac_text 3 n @ micro_sign @ ''s''
      else if n < 1000000000 then utoa (n div 1000000) @ frac_text 6 n @ ''ms''
      else clock_text (n div 1000000000) @ frac_text 9 n @ ''s'')"

section \<open>Writers\<close>

text \<open>A writer puts a text in front of what is in the buffer, if there is room.\<close>

definition writes :: "(backward \<Rightarrow> backward option) \<Rightarrow> string \<Rightarrow> bool" where
  "writes m t \<longleftrightarrow> (\<forall>w buf. w \<le> length buf \<longrightarrow> length t \<le> w \<longrightarrow>
     (\<exists>buf'. m (w, buf) = Some (w - length t, buf') \<and> length buf' = length buf
        \<and> drop (w - length t) buf' = t @ drop w buf))"

lemma writesD:
  assumes "writes m t" and "w \<le> length buf" and "length t \<le> w"
  obtains buf' where "m (w, buf) = Some (w - length t, buf')" "length buf' = length buf"
    "drop (w - length t) buf' = t @ drop w buf"
  using assms unfolding writes_def by blast

lemma writes_put: "writes (put c) [c]"
  unfolding writes_def
proof (intro allI impI)
  fix w and buf :: "char list"
  assume w: "w \<le> length buf" "length [c] \<le> w"
  then obtain k where k: "w = Suc k" by (cases w) auto
  then have "drop k (buf[k := c]) = buf[k := c] ! k # drop (Suc k) (buf[k := c])"
    using w(1) by (intro Cons_nth_drop_Suc [symmetric]) simp
  then have "drop (w - 1) (buf[w - 1 := c]) = c # drop w buf" using k w(1) by simp
  then show "\<exists>buf'. put c (w, buf) = Some (w - length [c], buf') \<and> length buf' = length buf
      \<and> drop (w - length [c]) buf' = [c] @ drop w buf"
    using w(2) by (simp add: put_def)
qed

lemma writes_none: "writes Some []"
  by (simp add: writes_def)

lemma writes_bind:
  assumes "writes m t" and "writes n u"
  shows "writes (\<lambda>st. Option.bind (m st) n) (u @ t)"
  unfolding writes_def
proof (intro allI impI)
  fix w and buf :: "char list"
  assume w: "w \<le> length buf" "length (u @ t) \<le> w"
  obtain b1 where b1: "m (w, buf) = Some (w - length t, b1)" "length b1 = length buf" "drop (w - length t) b1 = t @ drop w buf"
    using writesD [OF assms(1), of w buf] w by auto
  have room: "w - length t \<le> length b1" "length u \<le> w - length t" using w b1(2) by simp_all
  obtain b2 where "n (w - length t, b1) = Some (w - length t - length u, b2)" "length b2 = length b1"
    "drop (w - length t - length u) b2 = u @ drop (w - length t) b1"
    by (rule writesD [OF assms(2) room])
  then show "\<exists>buf'. Option.bind (m (w, buf)) n = Some (w - length (u @ t), buf') \<and> length buf' = length buf
      \<and> drop (w - length (u @ t)) buf' = (u @ t) @ drop w buf"
    using b1 by (simp add: add.commute)
qed

lemma unat_mod10: "unat ((v :: 64 word) mod 10) = unat v mod 10"
  by (simp add: unat_mod)

lemma unat_div10: "unat ((v :: 64 word) div 10) = unat v div 10"
  by (simp add: unat_div)

lemma writes_int_loop: "v \<noteq> 0 \<Longrightarrow> writes (fmt_int_loop v) (utoa (unat v))"
proof (induction "unat v" arbitrary: v rule: less_induct)
  case less
  have digit: "ascii_digit (v mod 10) = digit_char (unat v mod 10)" by (simp add: ascii_digit_def unat_mod10)
  have loop: "fmt_int_loop v = (\<lambda>st. Option.bind (put (ascii_digit (v mod 10)) st) (fmt_int_loop (v div 10)))"
    using less.prems by (simp add: fun_eq_iff fmt_int_loop.simps [of v])
  show ?case
  proof (cases "unat v < 10")
    case True
    then have "unat (v div 10) = 0" by (simp add: unat_div10)
    then have "v div 10 = 0" by (simp only: unat_eq_0)
    moreover have "fmt_int_loop 0 = Some" by (simp add: fun_eq_iff fmt_int_loop.simps)
    moreover have "utoa (unat v) = [] @ [digit_char (unat v mod 10)]" using True by (simp add: utoa.simps)
    ultimately show ?thesis
      unfolding loop digit using writes_bind [OF writes_put writes_none, of "digit_char (unat v mod 10)"] by simp
  next
    case False
    then have "unat (v div 10) \<noteq> 0" "unat (v div 10) < unat v" by (simp_all add: unat_div10)
    then have "writes (fmt_int_loop (v div 10)) (utoa (unat (v div 10)))"
      using less.hyps [of "v div 10"] by (metis unat_0)
    moreover have "utoa (unat v) = utoa (unat (v div 10)) @ [digit_char (unat v mod 10)]"
      using False by (subst utoa.simps) (simp add: unat_div10)
    ultimately show ?thesis unfolding loop digit using writes_bind [OF writes_put] by simp
  qed
qed

lemma writes_int: "writes (\<lambda>st. fmtInt st v) (utoa (unat v))"
proof (cases "v = 0")
  case True
  then have "utoa (unat v) = ''0''" by (simp add: utoa.simps digit_char_def char_of_eq_iff)
  then show ?thesis using True writes_put [of "CHR ''0''"] by (simp add: fmtInt_def)
next
  case False
  then show ?thesis using writes_int_loop by (simp add: fmtInt_def)
qed

text \<open>All digits once the flag is set, most significant first.\<close>

definition all_digits :: "nat \<Rightarrow> nat \<Rightarrow> string" where
  "all_digits p n = rev (map (\<lambda>i. digit_char (n div 10 ^ i mod 10)) [0..<p])"

lemma all_digits_Suc: "all_digits (Suc p) n = all_digits p (n div 10) @ [digit_char (n mod 10)]"
proof -
  have "[0..<Suc p] = 0 # map Suc [0..<p]" by (simp add: map_Suc_upt upt_conv_Cons)
  then show ?thesis by (simp add: all_digits_def comp_def div_mult2_eq rev_map)
qed

lemma frac_loop_set:
  "w \<le> length buf \<Longrightarrow> p \<le> w \<Longrightarrow> \<exists>buf'. fmt_frac_loop p (w, buf) True v = Some ((w - p, buf'), True, word_of_nat (unat v div 10 ^ p))
     \<and> length buf' = length buf \<and> drop (w - p) buf' = all_digits p (unat v) @ drop w buf"
proof (induction p arbitrary: w buf v)
  case 0
  then show ?case by (simp add: all_digits_def)
next
  case (Suc p)
  obtain b1 where b1: "put (ascii_digit (v mod 10)) (w, buf) = Some (w - 1, b1)" "length b1 = length buf"
      "drop (w - 1) b1 = ascii_digit (v mod 10) # drop w buf"
    using writesD [OF writes_put, of w buf "ascii_digit (v mod 10)"] Suc.prems by auto
  have room: "w - 1 \<le> length b1" "p \<le> w - 1" using Suc.prems b1(2) by simp_all
  obtain b2 where "fmt_frac_loop p (w - 1, b1) True (v div 10)
        = Some ((w - 1 - p, b2), True, word_of_nat (unat (v div 10) div 10 ^ p))"
      "length b2 = length b1" "drop (w - 1 - p) b2 = all_digits p (unat (v div 10)) @ drop (w - 1) b1"
    using Suc.IH [OF room] by blast
  then show ?case
    using b1 by (simp add: Let_def all_digits_Suc unat_div10 ascii_digit_def unat_mod10 div_mult2_eq)
qed

lemma frac_digits_all: "frac_digits (Suc p) v = (if v mod 10 = 0 then frac_digits p (v div 10) else all_digits (Suc p) v)"
  by (simp add: all_digits_def)

declare frac_digits.simps(2) [simp del]

lemma length_frac_digits: "length (frac_digits p v) \<le> p"
proof (induction p arbitrary: v)
  case (Suc p)
  show ?case
  proof (cases "v mod 10 = 0")
    case True
    then show ?thesis using le_SucI [OF Suc.IH [of "v div 10"]] by (simp add: frac_digits_all)
  qed (simp add: frac_digits_all all_digits_def)
qed simp

lemma frac_loop_unset:
  "w \<le> length buf \<Longrightarrow> length (frac_digits p (unat v)) \<le> w \<Longrightarrow> \<exists>buf'. fmt_frac_loop p (w, buf) False v
       = Some ((w - length (frac_digits p (unat v)), buf'), frac_digits p (unat v) \<noteq> [], word_of_nat (unat v div 10 ^ p))
     \<and> length buf' = length buf \<and> drop (w - length (frac_digits p (unat v))) buf' = frac_digits p (unat v) @ drop w buf"
proof (induction p arbitrary: w buf v)
  case (Suc p)
  show ?case
  proof (cases "v mod 10 = 0")
    case True
    then have zero: "unat v mod 10 = 0" using unat_mod10 [of v] by simp
    have "w \<le> length buf" "length (frac_digits p (unat (v div 10))) \<le> w"
      using Suc.prems zero by (simp_all add: frac_digits_all unat_div10)
    from Suc.IH [OF this] show ?thesis
      using True zero by (simp add: Let_def frac_digits_all unat_div10 div_mult2_eq)
  next
    case False
    then have "unat (v mod 10) \<noteq> 0" by (simp only: unat_eq_0 not_False_eq_True)
    then have nz: "unat v mod 10 \<noteq> 0" by (simp only: unat_mod10 not_False_eq_True)
    have len: "length (all_digits (Suc p) (unat v)) = Suc p" by (simp add: all_digits_def)
    have ne: "all_digits (Suc p) (unat v) \<noteq> []" using len by auto
    have room: "Suc p \<le> w" using Suc.prems(2) nz len by (simp add: frac_digits_all)
    have "fmt_frac_loop (Suc p) (w, buf) False v = fmt_frac_loop (Suc p) (w, buf) True v"
      using False by (simp add: Let_def)
    moreover obtain buf' where "fmt_frac_loop (Suc p) (w, buf) True v
        = Some ((w - Suc p, buf'), True, word_of_nat (unat v div 10 ^ Suc p))" "length buf' = length buf"
        "drop (w - Suc p) buf' = all_digits (Suc p) (unat v) @ drop w buf"
      using frac_loop_set [OF Suc.prems(1) room] by blast
    ultimately show ?thesis using nz len ne by (simp del: fmt_frac_loop.simps power_Suc add: frac_digits_all)
  qed
qed simp

lemma fmtFrac_result:
  assumes "w \<le> length buf" and "length (frac_text p (unat v)) \<le> w"
  shows "\<exists>buf'. fmtFrac (w, buf) v p = Some ((w - length (frac_text p (unat v)), buf'), word_of_nat (unat v div 10 ^ p))
     \<and> length buf' = length buf \<and> drop (w - length (frac_text p (unat v))) buf' = frac_text p (unat v) @ drop w buf"
proof -
  let ?d = "frac_digits p (unat v)"
  have "length ?d \<le> w" using assms(2) by (simp add: frac_text_def split: if_splits)
  then obtain b1 where b1: "fmt_frac_loop p (w, buf) False v = Some ((w - length ?d, b1), ?d \<noteq> [], word_of_nat (unat v div 10 ^ p))"
      "length b1 = length buf" "drop (w - length ?d) b1 = ?d @ drop w buf"
    using frac_loop_unset [OF assms(1)] by blast
  show ?thesis
  proof (cases "?d = []")
    case True
    then show ?thesis using b1 by (simp add: fmtFrac_def frac_text_def)
  next
    case False
    then have room: "w - length ?d \<le> length b1" "length ''.'' \<le> w - length ?d"
      using assms b1(2) by (simp_all add: frac_text_def)
    obtain b2 where "put CHR ''.'' (w - length ?d, b1) = Some (w - length ?d - 1, b2)" "length b2 = length b1"
        "drop (w - length ?d - 1) b2 = ''.'' @ drop (w - length ?d) b1"
      using writesD [OF writes_put room] by auto
    then show ?thesis using b1 False by (simp add: fmtFrac_def frac_text_def)
  qed
qed

lemma writes_frac:
  assumes "writes (f (word_of_nat (unat v div 10 ^ p))) t"
  shows "writes (\<lambda>st. Option.bind (fmtFrac st v p) (\<lambda>(st1, r). f r st1)) (t @ frac_text p (unat v))"
  unfolding writes_def
proof (intro allI impI)
  fix w and buf :: "char list"
  let ?n = "length (frac_text p (unat v))"
  assume w: "w \<le> length buf" "length (t @ frac_text p (unat v)) \<le> w"
  then obtain b1 where b1: "fmtFrac (w, buf) v p = Some ((w - ?n, b1), word_of_nat (unat v div 10 ^ p))"
      "length b1 = length buf" "drop (w - ?n) b1 = frac_text p (unat v) @ drop w buf"
    using fmtFrac_result [of w buf p v] by auto
  have room: "w - ?n \<le> length b1" "length t \<le> w - ?n" using w b1(2) by simp_all
  obtain b2 where "f (word_of_nat (unat v div 10 ^ p)) (w - ?n, b1) = Some (w - ?n - length t, b2)"
      "length b2 = length b1" "drop (w - ?n - length t) b2 = t @ drop (w - ?n) b1"
    by (rule writesD [OF assms room])
  then show "\<exists>buf'. Option.bind (fmtFrac (w, buf) v p) (\<lambda>(st1, r). f r st1) = Some (w - length (t @ frac_text p (unat v)), buf')
      \<and> length buf' = length buf
      \<and> drop (w - length (t @ frac_text p (unat v))) buf' = (t @ frac_text p (unat v)) @ drop w buf"
    using b1 by (simp add: add.commute)
qed

section \<open>The duration is the text\<close>

lemma unat_word_of: "n < 2 ^ 64 \<Longrightarrow> unat (word_of_nat n :: 64 word) = n"
  by (simp add: unsigned_of_nat take_bit_nat_eq_self)

lemma below_second_writes:
  assumes "u \<noteq> 0" and "u < Second"
  shows "writes (below_second u) (duration_text (unat u))"
proof -
  have small: "unat u < 1000000000" "unat u \<noteq> 0"
    using assms by (simp_all add: Second_def word_less_nat_alt unat_eq_0)
  have rest: "writes (\<lambda>st. Option.bind (fmtFrac st u p) (\<lambda>(st1, r). fmtInt st1 r)) (utoa (unat u div 10 ^ p) @ frac_text p (unat u))" for p
  proof -
    have "unat u div 10 ^ p < 2 ^ 64" using small(1) by (simp add: div_less_dividend order_le_less_trans [OF div_le_dividend])
    then show ?thesis using writes_frac [of "\<lambda>r st. fmtInt st r" u p "utoa (unat u div 10 ^ p)"] writes_int [of "word_of_nat (unat u div 10 ^ p)"]
      by (simp add: unat_word_of)
  qed
  have unit: "writes (\<lambda>st. Option.bind (map_option (\<lambda>s. (s, p)) (m st)) (\<lambda>(st2, prec). Option.bind (fmtFrac st2 u prec) (\<lambda>(st3, u1). fmtInt st3 u1)))
      (utoa (unat u div 10 ^ p) @ frac_text p (unat u) @ t)" if "writes m t" for m t p
  proof -
    have eq: "(\<lambda>st. Option.bind (map_option (\<lambda>s. (s, p)) (m st)) (\<lambda>(st2, prec). Option.bind (fmtFrac st2 u prec) (\<lambda>(st3, u1). fmtInt st3 u1)))
        = (\<lambda>st. Option.bind (m st) (\<lambda>st2. Option.bind (fmtFrac st2 u p) (\<lambda>(st3, u1). fmtInt st3 u1)))"
      by (rule ext) (auto split: bind_splits simp: map_option_case split: option.splits)
    show ?thesis unfolding eq using writes_bind [OF that rest [of p]] by simp
  qed
  have sign: "writes (\<lambda>st. Option.bind (put (micro_sign ! 1) st) (put (micro_sign ! 0))) micro_sign"
    using writes_bind [OF writes_put writes_put, of "micro_sign ! 1" "micro_sign ! 0"] by (simp add: micro_sign_def)
  have zero: "frac_text 0 (unat u) = []" by (simp add: frac_text_def)
  consider "u < Microsecond" | "\<not> u < Microsecond" "u < Millisecond" | "\<not> u < Microsecond" "\<not> u < Millisecond" by blast
  then show ?thesis
  proof cases
    case 1
    then show ?thesis
      using writes_bind [OF writes_put unit [OF writes_put, of 0 "CHR ''n''"], of "CHR ''s''"] small zero
      by (simp add: below_second_def [abs_def] duration_text_def Microsecond_def word_less_nat_alt)
  next
    case 2
    then show ?thesis
      using writes_bind [OF writes_put unit [OF sign, of 3], of "CHR ''s''"] small
      by (simp add: below_second_def [abs_def] duration_text_def Microsecond_def Millisecond_def word_less_nat_alt)
  next
    case 3
    then show ?thesis
      using writes_bind [OF writes_put unit [OF writes_put, of 6 "CHR ''m''"], of "CHR ''s''"] small
      by (simp add: below_second_def [abs_def] duration_text_def Microsecond_def Millisecond_def word_less_nat_alt)
  qed
qed

lemma unat_div60: "unat ((v :: 64 word) div 60) = unat v div 60" "unat ((v :: 64 word) mod 60) = unat v mod 60"
  by (simp_all add: unat_div unat_mod)

lemma from_second_writes:
  assumes "\<not> u < Second"
  shows "writes (from_second u) (duration_text (unat u))"
proof -
  have large: "1000000000 \<le> unat u" using assms by (simp add: Second_def word_less_nat_alt)
  define s where "s = (word_of_nat (unat u div 10 ^ 9) :: 64 word)"
  have s: "unat s = unat u div 1000000000"
    unfolding s_def using order_le_less_trans [OF div_le_dividend unsigned_less [of u]] by (simp add: unat_word_of)
  have hours: "writes (hours_part (s div 60 div 60)) (if 3600 \<le> unat s then utoa (unat s div 3600) @ ''h'' else [])"
  proof (cases "s div 60 div 60 = 0")
    case True
    then have "unat (s div 60 div 60) = 0" by simp
    then have "unat s div 60 div 60 = 0" by (simp only: unat_div60)
    then have "\<not> 3600 \<le> unat s" by (simp add: div_mult2_eq [symmetric])
    then show ?thesis using True writes_none by (simp add: hours_part_def [abs_def])
  next
    case False
    then have "unat (s div 60 div 60) \<noteq> 0" by (simp only: unat_eq_0 not_False_eq_True)
    then have "unat s div 60 div 60 \<noteq> 0" by (simp only: unat_div60 not_False_eq_True)
    then have "3600 \<le> unat s" by (simp add: div_mult2_eq [symmetric])
    moreover have "unat (s div 60 div 60) = unat s div 3600" by (simp add: unat_div60 div_mult2_eq [symmetric])
    ultimately show ?thesis
      using False writes_bind [OF writes_put writes_int, of "CHR ''h''" "s div 60 div 60"] by (simp add: hours_part_def [abs_def])
  qed
  have minutes: "writes (minutes_part (s div 60)) (if 60 \<le> unat s then
      (if 3600 \<le> unat s then utoa (unat s div 3600) @ ''h'' else []) @ utoa (unat s div 60 mod 60) @ ''m'' else [])"
  proof (cases "s div 60 = 0")
    case True
    then have "unat (s div 60) = 0" by simp
    then have "\<not> 60 \<le> unat s" by (simp add: unat_div60)
    then show ?thesis using True writes_none by (simp add: minutes_part_def [abs_def])
  next
    case False
    then have "unat (s div 60) \<noteq> 0" by (simp only: unat_eq_0 not_False_eq_True)
    then have "60 \<le> unat s" by (simp add: unat_div60)
    moreover have "unat (s div 60 mod 60) = unat s div 60 mod 60" by (simp add: unat_div60)
    ultimately show ?thesis
      using False writes_bind [OF writes_put writes_bind [OF writes_int [of "s div 60 mod 60"] hours], of "CHR ''m''"]
      by (simp add: minutes_part_def [abs_def])
  qed
  have "writes (\<lambda>st. Option.bind (fmtInt st (s mod 60)) (minutes_part (s div 60))) (clock_text (unat s))"
    using writes_bind [OF writes_int [of "s mod 60"] minutes] by (simp add: clock_text_def unat_div60)
  then have "writes (\<lambda>st. Option.bind (fmtFrac st u 9) (\<lambda>(st2, u1). Option.bind (fmtInt st2 (u1 mod 60)) (minutes_part (u1 div 60))))
      (clock_text (unat s) @ frac_text 9 (unat u))"
    using writes_frac [of "\<lambda>u1 st2. Option.bind (fmtInt st2 (u1 mod 60)) (minutes_part (u1 div 60))" u 9] s_def by simp
  from writes_bind [OF writes_put this, of "CHR ''s''"] show ?thesis
    using large s by (simp add: from_second_def [abs_def] duration_text_def)
qed

section \<open>How long it can be\<close>

lemma length_utoa: "n < 10 ^ k \<Longrightarrow> 0 < k \<Longrightarrow> length (utoa n) \<le> k"
proof (induction n arbitrary: k rule: utoa.induct)
  case (1 n)
  show ?case
  proof (cases "n < 10")
    case True
    then show ?thesis using 1(3) by (simp add: utoa.simps)
  next
    case False
    then obtain j where k: "k = Suc j" "0 < j" using 1(2,3) by (cases k; cases "k - 1") auto
    have "n div 10 < 10 ^ j" using 1(2) k(1) by (simp add: less_mult_imp_div_less mult.commute)
    then have "length (utoa (n div 10)) \<le> j" using 1(1) [OF False] k(2) by simp
    then show ?thesis using False k(1) by (subst utoa.simps) simp
  qed
qed

lemma length_frac_text: "length (frac_text p n) \<le> Suc p"
  using length_frac_digits [of p n] by (simp add: frac_text_def)

lemma length_clock_text:
  assumes "s < 36000000000"
  shows "length (clock_text s) \<le> 13"
proof -
  have "length (utoa (s div 3600)) \<le> 7"
    using assms by (intro length_utoa) (simp_all add: less_mult_imp_div_less)
  moreover have "length (utoa (s div 60 mod 60)) \<le> 2" "length (utoa (s mod 60)) \<le> 2"
    by (intro length_utoa; simp add: order_less_trans [OF mod_less_divisor])+
  ultimately show ?thesis
    unfolding clock_text_def by (cases "60 \<le> s"; cases "3600 \<le> s"; simp only: if_True if_False length_append list.size; linarith)
qed

lemma length_duration_text:
  assumes "n \<le> 2 ^ 63"
  shows "length (duration_text n) \<le> 24"
proof -
  have digits: "length (utoa m) \<le> 3" if "m < 1000" for m using length_utoa [of m 3] that by simp
  have small: "n < 1000000 \<Longrightarrow> n div 1000 < 1000" "n < 1000000000 \<Longrightarrow> n div 1000000 < 1000"
    by (simp_all add: less_mult_imp_div_less)
  have "n div 1000000000 < 36000000000" using assms by (simp add: less_mult_imp_div_less)
  then have clock: "length (clock_text (n div 1000000000)) \<le> 13" by (rule length_clock_text)
  show ?thesis
    using digits [of n] digits [of "n div 1000"] digits [of "n div 1000000"] small clock
      length_frac_text [of 3 n] length_frac_text [of 6 n] length_frac_text [of 9 n]
    by (auto simp: duration_text_def micro_sign_def)
qed

lemma unat_magnitude:
  "unat (if v <s 0 then - v else v :: 64 word) = nat \<bar>sint v\<bar>" "nat \<bar>sint (v :: 64 word)\<bar> \<le> 2 ^ 63"
proof -
  have sign: "v <s 0 \<longleftrightarrow> sint v < 0" by (simp add: word_sless_alt)
  have bounds: "- (2 ^ 63) \<le> sint v" "sint v < 2 ^ 63" by (rule sint_bounds64)+
  then show "nat \<bar>sint v\<bar> \<le> 2 ^ 63" by (simp add: nat_le_iff)
  have "uint (- v) = - uint v mod 2 ^ 64" using uint_word_ariths(4) [of v] by simp
  also have "\<dots> = - sint v mod 2 ^ 64" by (simp only: uint_of_sint64 mod_minus_eq)
  finally have neg: "uint (- v) = - sint v" if "sint v < 0"
    using that bounds by (simp add: mod_pos_pos_trivial)
  have pos: "uint v = sint v" if "\<not> sint v < 0"
    using that bounds uint_of_sint64 [of v] by (simp add: mod_pos_pos_trivial)
  show "unat (if v <s 0 then - v else v) = nat \<bar>sint v\<bar>"
  proof (cases "sint v < 0")
    case True
    then have "unat (- v) = nat (- sint v)" using neg by (simp only: unat_eq_nat_uint)
    then show ?thesis using True sign by (simp only: if_True abs_of_neg)
  next
    case False
    then have "uint v = sint v" using pos by blast
    then have "unat v = nat (sint v)" by (simp only: unat_eq_nat_uint)
    then show ?thesis using False sign by simp
  qed
qed

lemma formatDuration_result:
  assumes "length buf = 32"
  shows "\<exists>w buf'. formatDuration buf d = Some (w, buf') \<and> 7 \<le> w \<and> length buf' = 32
     \<and> drop w buf' = (if sint d < 0 then ''-'' else []) @ duration_text (nat \<bar>sint d\<bar>)"
proof -
  define u where "u = (if d <s 0 then - d else d)"
  define tx where "tx = duration_text (unat u)"
  have mag: "unat u = nat \<bar>sint d\<bar>" "unat u \<le> 2 ^ 63"
    unfolding u_def by (rule unat_magnitude(1), simp only: unat_magnitude)
  have sign: "d <s 0 \<longleftrightarrow> sint d < 0" by (simp add: word_sless_alt)
  show ?thesis
  proof (cases "u = 0")
    case True
    then have zero: "\<bar>sint d\<bar> = 0" using mag(1) by simp
    have "formatDuration buf d = Some (30, replicate 30 (chr_of 0) @ ''0s'')"
      using assms True unfolding formatDuration_def Let_def u_def [symmetric] by simp
    then show ?thesis using zero by (simp add: duration_text_def)
  next
    case False
    define body where "body = (if u < Second then below_second u else from_second u)"
    have writes: "writes body tx"
      unfolding body_def tx_def using below_second_writes [OF False] from_second_writes by simp
    have run: "formatDuration buf d = Option.bind (body (32, buf)) (\<lambda>st. if d <s 0 then put CHR ''-'' st else Some st)"
      using False assms unfolding formatDuration_def Let_def u_def [symmetric] body_def by simp
    have len: "length tx \<le> 24" unfolding tx_def by (rule length_duration_text [OF mag(2)])
    then have start: "32 \<le> length buf" "length tx \<le> 32" using assms by simp_all
    obtain b1 where b1: "body (32, buf) = Some (32 - length tx, b1)" "length b1 = length buf"
        "drop (32 - length tx) b1 = tx @ drop 32 buf"
      by (rule writesD [OF writes start])
    have tx: "tx = duration_text (nat \<bar>sint d\<bar>)" unfolding tx_def mag(1) ..
    show ?thesis
    proof (cases "sint d < 0")
      case True
      have room: "32 - length tx \<le> length b1" "length ''-'' \<le> 32 - length tx" using len b1(2) assms by simp_all
      obtain b2 where b2: "put CHR ''-'' (32 - length tx, b1) = Some (32 - length tx - length ''-'', b2)" "length b2 = length b1"
          "drop (32 - length tx - length ''-'') b2 = ''-'' @ drop (32 - length tx) b1"
        by (rule writesD [OF writes_put room])
      have "formatDuration buf d = Some (32 - length tx - length ''-'', b2)" using run b1(1) b2(1) True sign by simp
      moreover have "7 \<le> 32 - length tx - length ''-''" using len by simp
      moreover have "drop (32 - length tx - length ''-'') b2 = ''-'' @ tx" using b2(3) b1(3) assms by simp
      moreover have "length b2 = 32" using b2(2) b1(2) assms by simp
      ultimately have "formatDuration buf d = Some (32 - length tx - length ''-'', b2) \<and> 7 \<le> 32 - length tx - length ''-''
          \<and> length b2 = 32 \<and> drop (32 - length tx - length ''-'') b2 = ''-'' @ tx" by blast
      then show ?thesis unfolding tx if_P [OF True] by blast
    next
      case False
      have "formatDuration buf d = Some (32 - length tx, b1)" using run b1(1) False sign by simp
      moreover have "7 \<le> 32 - length tx" using len by simp
      moreover have "drop (32 - length tx) b1 = tx" using b1(3) assms by simp
      moreover have "length b1 = 32" using b1(2) assms by simp
      ultimately have "formatDuration buf d = Some (32 - length tx, b1) \<and> 7 \<le> 32 - length tx
          \<and> length b1 = 32 \<and> drop (32 - length tx) b1 = [] @ tx" by simp
      then show ?thesis unfolding tx if_not_P [OF False] by blast
    qed
  qed
qed

text \<open>
  C40: the text written backwards into the 32 bytes is the text of the duration for every 64-bit number
  of nanoseconds: no index is out of range, at least seven bytes are left, and the sign, the unit, the
  fraction without trailing zeros and the hours and minutes are those of its magnitude.
\<close>

theorem formatDuration_writes_text:
  "\<exists>w buf'. formatDuration (replicate 32 (chr_of 0)) d = Some (w, buf') \<and> 7 \<le> w \<and> length buf' = 32
     \<and> drop w buf' = (if sint d < 0 then ''-'' else []) @ duration_text (nat \<bar>sint d\<bar>)"
  by (rule formatDuration_result) simp

section \<open>UUIDs\<close>

definition hextable :: string where "hextable = ''0123456789abcdef''"

text \<open>The two digits of a byte at an offset.\<close>

definition put_hex :: "nat \<Rightarrow> 8 word \<Rightarrow> char list \<Rightarrow> char list" where
  "put_hex i b dst = dst[i := hextable ! unat (drop_bit 4 b), Suc i := hextable ! unat (b AND 0x0f)]"

definition put_group :: "nat \<Rightarrow> 8 word list \<Rightarrow> nat \<Rightarrow> nat \<Rightarrow> char list \<Rightarrow> char list" where
  "put_group off v j n dst = fold (\<lambda>k. put_hex (off + 2 * k) (v ! (j + k))) [0..<n] dst"

definition hexEncode :: "char list \<Rightarrow> 8 word list \<Rightarrow> char list" where
  "hexEncode dst v =
     (let d0 = put_group 0 v 0 4 dst;
          d1 = put_group 9 v 4 2 (d0[8 := CHR ''-'']);
          d2 = put_group 14 v 6 2 (d1[13 := CHR ''-'']);
          d3 = put_group 19 v 8 2 (d2[18 := CHR ''-''])
      in put_group 24 v 10 6 (d3[23 := CHR ''-'']))"

definition EncodeUUID :: "8 word list \<Rightarrow> string" where
  "EncodeUUID v = CHR ''\"'' # hexEncode (replicate 36 (chr_of 0)) v @ [CHR ''\"'']"

text \<open>The text of a UUID: its bytes in hexadecimal, in five groups.\<close>

definition hex_text :: "8 word list \<Rightarrow> string" where
  "hex_text bs = concat (map (\<lambda>b. [hextable ! unat (drop_bit 4 b), hextable ! unat (b AND 0x0f)]) bs)"

definition uuid_text :: "8 word list \<Rightarrow> string" where
  "uuid_text v = hex_text (take 4 v) @ ''-'' @ hex_text (take 2 (drop 4 v)) @ ''-'' @ hex_text (take 2 (drop 6 v))
     @ ''-'' @ hex_text (take 2 (drop 8 v)) @ ''-'' @ hex_text (drop 10 v)"

lemma sixteen: "length v = 16 \<Longrightarrow> \<exists>a b c d e f g h i j k l m n q r. v = [a, b, c, d, e, f, g, h, i, j, k, l, m, n, q, r]"
  by (simp add: numeral_eq_Suc length_Suc_conv) blast

lemma hexEncode_text:
  assumes "length v = 16" and "length dst = 36"
  shows "hexEncode dst v = uuid_text v"
proof -
  obtain a b c d e f g h i j k l m n q r where v: "v = [a, b, c, d, e, f, g, h, i, j, k, l, m, n, q, r]"
    using sixteen [OF assms(1)] by blast
  show ?thesis
    using assms(2) unfolding v
    by (simp add: hexEncode_def put_group_def put_hex_def uuid_text_def hex_text_def numeral_eq_Suc length_Suc_conv Let_def) auto
qed

section \<open>Integers in strings\<close>

text \<open>The JSON decoder: the content of a string, and a number of some size at the start of a text.\<close>

record jx =
  jx_str_bytes :: "string \<Rightarrow> string option"
  jx_int :: "nat \<Rightarrow> string \<Rightarrow> int option"
  jx_uint :: "nat \<Rightarrow> string \<Rightarrow> nat option"
  jx_uuid :: "string \<Rightarrow> 8 word list option"

text \<open>The quotes and the digits go into 32 bytes; digits that do not fit would be lost.\<close>

definition quoted :: "string \<Rightarrow> string option" where
  "quoted digits = (if length digits \<le> 30 then Some (CHR ''\"'' # digits @ [CHR ''\"'']) else None)"

definition encodeStringInt :: "'a::len word \<Rightarrow> string option" where
  "encodeStringInt v = quoted (itoa (sint (scast v :: 64 word)))"

definition encodeStringUint :: "'a::len word \<Rightarrow> string option" where
  "encodeStringUint v = quoted (utoa (unat (ucast v :: 64 word)))"

definition decode_string_int :: "jx \<Rightarrow> string \<Rightarrow> 'a::len word option" where
  "decode_string_int J raw =
     Option.bind (jx_str_bytes J raw) (\<lambda>s. map_option word_of_int (jx_int J (LENGTH('a)) s))"

definition decode_string_uint :: "jx \<Rightarrow> string \<Rightarrow> 'a::len word option" where
  "decode_string_uint J raw =
     Option.bind (jx_str_bytes J raw) (\<lambda>s. map_option word_of_nat (jx_uint J (LENGTH('a)) s))"

text \<open>One pair for every width; \<open>int\<close> and \<open>uint\<close> have 64 bits.\<close>

definition EncodeStringInt :: "64 word \<Rightarrow> string option" where "EncodeStringInt = encodeStringInt"
definition DecodeStringInt :: "jx \<Rightarrow> string \<Rightarrow> 64 word option" where "DecodeStringInt = decode_string_int"
definition EncodeStringInt8 :: "8 word \<Rightarrow> string option" where "EncodeStringInt8 = encodeStringInt"
definition DecodeStringInt8 :: "jx \<Rightarrow> string \<Rightarrow> 8 word option" where "DecodeStringInt8 = decode_string_int"
definition EncodeStringInt16 :: "16 word \<Rightarrow> string option" where "EncodeStringInt16 = encodeStringInt"
definition DecodeStringInt16 :: "jx \<Rightarrow> string \<Rightarrow> 16 word option" where "DecodeStringInt16 = decode_string_int"
definition EncodeStringInt32 :: "32 word \<Rightarrow> string option" where "EncodeStringInt32 = encodeStringInt"
definition DecodeStringInt32 :: "jx \<Rightarrow> string \<Rightarrow> 32 word option" where "DecodeStringInt32 = decode_string_int"
definition EncodeStringInt64 :: "64 word \<Rightarrow> string option" where "EncodeStringInt64 = encodeStringInt"
definition DecodeStringInt64 :: "jx \<Rightarrow> string \<Rightarrow> 64 word option" where "DecodeStringInt64 = decode_string_int"

definition EncodeStringUint :: "64 word \<Rightarrow> string option" where "EncodeStringUint = encodeStringUint"
definition DecodeStringUint :: "jx \<Rightarrow> string \<Rightarrow> 64 word option" where "DecodeStringUint = decode_string_uint"
definition EncodeStringUint8 :: "8 word \<Rightarrow> string option" where "EncodeStringUint8 = encodeStringUint"
definition DecodeStringUint8 :: "jx \<Rightarrow> string \<Rightarrow> 8 word option" where "DecodeStringUint8 = decode_string_uint"
definition EncodeStringUint16 :: "16 word \<Rightarrow> string option" where "EncodeStringUint16 = encodeStringUint"
definition DecodeStringUint16 :: "jx \<Rightarrow> string \<Rightarrow> 16 word option" where "DecodeStringUint16 = decode_string_uint"
definition EncodeStringUint32 :: "32 word \<Rightarrow> string option" where "EncodeStringUint32 = encodeStringUint"
definition DecodeStringUint32 :: "jx \<Rightarrow> string \<Rightarrow> 32 word option" where "DecodeStringUint32 = decode_string_uint"
definition EncodeStringUint64 :: "64 word \<Rightarrow> string option" where "EncodeStringUint64 = encodeStringUint"
definition DecodeStringUint64 :: "jx \<Rightarrow> string \<Rightarrow> 64 word option" where "DecodeStringUint64 = decode_string_uint"

lemmas string_codec_defs =
  EncodeStringInt_def DecodeStringInt_def EncodeStringInt8_def DecodeStringInt8_def
  EncodeStringInt16_def DecodeStringInt16_def EncodeStringInt32_def DecodeStringInt32_def
  EncodeStringInt64_def DecodeStringInt64_def EncodeStringUint_def DecodeStringUint_def
  EncodeStringUint8_def DecodeStringUint8_def EncodeStringUint16_def DecodeStringUint16_def
  EncodeStringUint32_def DecodeStringUint32_def EncodeStringUint64_def DecodeStringUint64_def

definition DecodeUUID :: "jx \<Rightarrow> string \<Rightarrow> 8 word list option" where
  "DecodeUUID J raw = Option.bind (jx_str_bytes J raw) (jx_uuid J)"

text \<open>What the decoder is documented to do: texts without quotes and escapes are themselves, and the
  decimal text of a number in range is that number.\<close>

definition plain_char :: "char \<Rightarrow> bool" where
  "plain_char c \<longleftrightarrow> is_digit c \<or> c = CHR ''-'' \<or> c \<in> set hextable"

definition jx_ok :: "jx \<Rightarrow> bool" where
  "jx_ok J \<longleftrightarrow> (\<forall>s. list_all plain_char s \<longrightarrow> jx_str_bytes J (CHR ''\"'' # s @ [CHR ''\"'']) = Some s)
     \<and> (\<forall>bits i. 0 < bits \<longrightarrow> - (2 ^ (bits - 1)) \<le> i \<longrightarrow> i < 2 ^ (bits - 1) \<longrightarrow> jx_int J bits (itoa i) = Some i)
     \<and> (\<forall>bits n. n < 2 ^ bits \<longrightarrow> jx_uint J bits (utoa n) = Some n)"

lemma jx_okD:
  assumes "jx_ok J"
  shows "list_all plain_char s \<Longrightarrow> jx_str_bytes J (CHR ''\"'' # s @ [CHR ''\"'']) = Some s"
    and "0 < bits \<Longrightarrow> - (2 ^ (bits - 1)) \<le> i \<Longrightarrow> i < 2 ^ (bits - 1) \<Longrightarrow> jx_int J bits (itoa i) = Some i"
    and "n < 2 ^ bits \<Longrightarrow> jx_uint J bits (utoa n) = Some n"
  using assms unfolding jx_ok_def by blast+

lemma plain_utoa: "list_all plain_char (utoa n)"
  using utoa_digits [of n] by (auto simp: list_all_iff plain_char_def)

lemma plain_itoa: "list_all plain_char (itoa i)"
  using plain_utoa by (simp add: itoa_def plain_char_def)

lemma int_string_roundtrip:
  fixes v :: "'a::len word"
  assumes "jx_ok J" and "LENGTH('a) \<le> 64"
  shows "\<exists>raw. encodeStringInt v = Some raw \<and> decode_string_int J raw = Some v"
proof -
  have same: "sint (scast v :: 64 word) = sint v" using assms(2) by (simp add: sint_up_scast is_up)
  have range: "- (2 ^ (LENGTH('a) - 1)) \<le> sint v" "sint v < 2 ^ (LENGTH('a) - 1)"
    using sint_greater_eq [of v] sint_less [of v] by simp_all
  have "\<bar>sint (scast v :: 64 word)\<bar> \<le> 2 ^ 63" using sint_bounds64 [of "scast v"] by (simp add: abs_le_iff)
  then have "nat \<bar>sint v\<bar> < 10 ^ 20" unfolding same by (simp add: nat_less_iff)
  then have "length (utoa (nat \<bar>sint v\<bar>)) \<le> 20" by (rule length_utoa) simp
  then have "length (itoa (sint v)) \<le> 30" by (auto simp: itoa_def split: if_splits)
  then have "encodeStringInt v = Some (CHR ''\"'' # itoa (sint v) @ [CHR ''\"''])"
    by (simp add: encodeStringInt_def quoted_def same)
  then show ?thesis
    using jx_okD(1) [OF assms(1) plain_itoa] jx_okD(2) [OF assms(1) len_gt_0 range] by (simp add: decode_string_int_def)
qed

lemma uint_string_roundtrip:
  fixes v :: "'a::len word"
  assumes "jx_ok J" and "LENGTH('a) \<le> 64"
  shows "\<exists>raw. encodeStringUint v = Some raw \<and> decode_string_uint J raw = Some v"
proof -
  have range: "unat v < 2 ^ LENGTH('a)" by (rule unsigned_less)
  have "(2::nat) ^ LENGTH('a) \<le> 2 ^ 64" using assms(2) by (intro power_increasing) simp_all
  then have small: "unat v < 2 ^ 64" using range by (rule order_less_le_trans [rotated])
  have same: "unat (ucast v :: 64 word) = unat v"
    unfolding unsigned_ucast_eq using small by (simp add: take_bit_nat_eq_self)
  have "(2::nat) ^ 64 \<le> 10 ^ 20" by simp
  then have "unat v < 10 ^ 20" using small by (rule order_less_le_trans [rotated])
  then have "length (utoa (unat v)) \<le> 20" by (rule length_utoa) simp
  then have "encodeStringUint v = Some (CHR ''\"'' # utoa (unat v) @ [CHR ''\"''])"
    by (simp add: encodeStringUint_def quoted_def same)
  then show ?thesis
    using jx_okD(1) [OF assms(1) plain_utoa] jx_okD(3) [OF assms(1) range] by (simp add: decode_string_uint_def)
qed

text \<open>
  An integer of any width, signed or unsigned, that is encoded as a JSON string fits into the buffer
  and is decoded to itself, given that the decoder reads plain strings and decimal numbers as documented.
\<close>

lemma string_integers_roundtrip:
  assumes "jx_ok J"
  shows "(\<exists>raw. EncodeStringInt v = Some raw \<and> DecodeStringInt J raw = Some v)
    \<and> (\<exists>raw. EncodeStringInt8 v8 = Some raw \<and> DecodeStringInt8 J raw = Some v8)
    \<and> (\<exists>raw. EncodeStringInt16 v16 = Some raw \<and> DecodeStringInt16 J raw = Some v16)
    \<and> (\<exists>raw. EncodeStringInt32 v32 = Some raw \<and> DecodeStringInt32 J raw = Some v32)
    \<and> (\<exists>raw. EncodeStringInt64 v = Some raw \<and> DecodeStringInt64 J raw = Some v)
    \<and> (\<exists>raw. EncodeStringUint v = Some raw \<and> DecodeStringUint J raw = Some v)
    \<and> (\<exists>raw. EncodeStringUint8 v8 = Some raw \<and> DecodeStringUint8 J raw = Some v8)
    \<and> (\<exists>raw. EncodeStringUint16 v16 = Some raw \<and> DecodeStringUint16 J raw = Some v16)
    \<and> (\<exists>raw. EncodeStringUint32 v32 = Some raw \<and> DecodeStringUint32 J raw = Some v32)
    \<and> (\<exists>raw. EncodeStringUint64 v = Some raw \<and> DecodeStringUint64 J raw = Some v)"
  unfolding string_codec_defs
  by (intro conjI int_string_roundtrip uint_string_roundtrip assms) simp_all

text \<open>A decoder for plain strings and decimal numbers.\<close>

definition plain_jx :: jx where
  "plain_jx = \<lparr>jx_str_bytes = \<lambda>s. Some (butlast (tl s)),
     jx_int = \<lambda>bits s. case parse_int bits s of Inr i \<Rightarrow> Some i | Inl _ \<Rightarrow> None,
     jx_uint = \<lambda>bits s. case parse_uint bits s of Inr n \<Rightarrow> Some n | Inl _ \<Rightarrow> None,
     jx_uuid = \<lambda>s. None\<rparr>"

lemma plain_jx_ok: "jx_ok plain_jx"
  by (simp add: jx_ok_def plain_jx_def parse_int_itoa parse_uint_utoa)

lemma string_integers_roundtrip_witness:
  "\<exists>raw. EncodeStringInt8 (- 128) = Some raw \<and> DecodeStringInt8 plain_jx raw = Some (- 128)"
  using string_integers_roundtrip [OF plain_jx_ok, of _ "- 128"] by blast

end
