(* ===== verification/TypeStoreProps.thy ===== *)
theory TypeStoreProps
  imports TypeStore
begin

text \<open>
  The interface relation and the table of named types keep their shape: what implementing leaves in
  the store, and what saving a type does to the table.
\<close>

section \<open>Implementing\<close>

text \<open>What implementing an interface leaves in the store.\<close>

definition implementing :: "store \<Rightarrow> tref \<Rightarrow> tref \<Rightarrow> bool" where
  "implementing st t i \<longleftrightarrow> i \<in> set (ty_implements (st ! t)) \<and> t \<in> set (ty_implementations (st ! i))"

lemma Implement_result:
  assumes "Implement t i st = Inr st'" and "t < length st" and "i < length st"
  shows "implementing st' t i" and "length st' = length st" and "ty_kind (st' ! i) = KindInterface"
    and "\<And>u j. implementing st u j \<Longrightarrow> implementing st' u j"
    and "\<And>a. ty_name (st' ! a) = ty_name (st ! a) \<and> ty_kind (st' ! a) = ty_kind (st ! a) \<and> ty_methods (st' ! a) = ty_methods (st ! a)"
    and "\<And>a. ty_features (st' ! a) = ty_features (st ! a)"
proof -
  have st': "st' = (let st1 = st[i := (st ! i)\<lparr>ty_implementations := set_add t (ty_implementations (st ! i))\<rparr>]
        in st1[t := (st1 ! t)\<lparr>ty_implements := set_add i (ty_implements (st1 ! t))\<rparr>])"
    and kind: "ty_kind (st ! i) = KindInterface"
    using assms(1) by (auto simp: Implement_def Let_def split: if_splits)
  show "implementing st' t i" "length st' = length st" "ty_kind (st' ! i) = KindInterface"
    using assms(2,3) kind by (auto simp: st' implementing_def Let_def nth_list_update)
  show "implementing st' u j" if "implementing st u j" for u j
    using that assms(2,3) by (auto simp: st' implementing_def Let_def nth_list_update)
  show "ty_name (st' ! a) = ty_name (st ! a) \<and> ty_kind (st' ! a) = ty_kind (st ! a) \<and> ty_methods (st' ! a) = ty_methods (st ! a)"
    and "ty_features (st' ! a) = ty_features (st ! a)" for a
    using assms(2,3) by (auto simp: st' Let_def nth_list_update)
qed

text \<open>Two stores whose types have the same names and kinds.\<close>

definition same_names :: "store \<Rightarrow> store \<Rightarrow> bool" where
  "same_names st st' \<longleftrightarrow> length st' = length st
     \<and> (\<forall>a < length st. ty_name (st' ! a) = ty_name (st ! a) \<and> ty_kind (st' ! a) = ty_kind (st ! a))"

lemma same_names_trans: "same_names a b \<Longrightarrow> same_names b c \<Longrightarrow> same_names a c"
  by (simp add: same_names_def)

lemma same_shape_names: "same_shape st st' \<Longrightarrow> same_names st st'"
  unfolding same_shape_def same_names_def by (metis itype.select_convs(1,2) itype.surjective itype.update_convs(19))

lemma implement_all_result:
  "implement_all is t st = Inr st' \<Longrightarrow> t < length st \<Longrightarrow> \<forall>i \<in> set is. i < length st \<Longrightarrow>
   same_names st st' \<and> (\<forall>i \<in> set is. implementing st' t i)
   \<and> (\<forall>u j. implementing st u j \<longrightarrow> implementing st' u j) \<and> ty_features (st' ! t) = ty_features (st ! t)"
proof (induction "is" arbitrary: st)
  case Nil
  then show ?case by (simp add: same_names_def)
next
  case (Cons i "is")
  then obtain st1 where st1: "Implement t i st = Inr st1" and rest: "implement_all is t st1 = Inr st'" by auto
  have "i < length st" using Cons.prems(3) by simp
  note r = Implement_result [OF st1 Cons.prems(2) this]
  have IH: "same_names st1 st'" "\<forall>i \<in> set is. implementing st' t i"
      "\<forall>u j. implementing st1 u j \<longrightarrow> implementing st' u j" "ty_features (st' ! t) = ty_features (st1 ! t)"
    using Cons.IH [OF rest] Cons.prems(2,3) r(2) by simp_all
  have "same_names st st1" using r(2,5) by (simp add: same_names_def)
  then have "same_names st st'" using IH(1) same_names_trans by blast
  then show ?case using IH r(1,4,6) by auto
qed

lemma add_features_result:
  "sound_store st \<Longrightarrow> t < length st \<Longrightarrow>
   \<exists>st'. add_features fs t st = Inr st' \<and> same_shape st st' \<and> (\<forall>f \<in> set fs. HasFeature (st' ! t) f)
     \<and> (\<forall>f. HasFeature (st ! t) f \<longrightarrow> HasFeature (st' ! t) f)"
proof (induction fs arbitrary: st)
  case (Cons f fs)
  have "card ({..<length st} - marked f st) \<le> length st"
    using card_Diff_subset_Int [of "{..<length st}"] card_mono [of "{..<length st}" "{..<length st} - marked f st"] by auto
  from add_feature_spread [OF Cons.prems this] obtain st1
    where st1: "AddFeature f (Some t) st = Inr st1" and spread: "spread f st st1 {t}"
    unfolding AddFeature_def by auto
  have shape: "same_shape st st1" using spreadD(1) [OF spread] .
  have len: "length st1 = length st" using shape by (simp add: same_shape_def)
  have "t \<in> marked f st1" using spreadD(3) [OF spread] by simp
  then have has: "HasFeature (st1 ! t) f" by (simp add: marked_def)
  have keeps: "HasFeature (st1 ! t) g" if "HasFeature (st ! t) g" for g
    using spreadD(6) [OF spread _ Cons.prems(2), of g] has that by (cases "g = f") auto
  have "t < length st1" using Cons.prems(2) len by simp
  from Cons.IH [OF sound_same_shape [OF Cons.prems(1) shape] this] obtain st'
    where st': "add_features fs t st1 = Inr st'" "same_shape st1 st'" "\<forall>f \<in> set fs. HasFeature (st' ! t) f"
      "\<forall>f. HasFeature (st1 ! t) f \<longrightarrow> HasFeature (st' ! t) f" by blast
  then show ?case using st1 has keeps same_shape_trans [OF shape st'(2)] by auto
qed simp

section \<open>The table\<close>

text \<open>The names in the table are the names of its types, which are public.\<close>

definition table_ok :: "tstorage \<times> store \<Rightarrow> bool" where
  "table_ok = (\<lambda>(s, st). distinct (map fst (tst_types s))
     \<and> (\<forall>name t. map_of (tst_types s) name = Some t \<longrightarrow>
          t < length st \<and> ty_name (st ! t) = name \<and> ty_kind (st ! t) \<in> set public_kinds))"

lemma table_ok_put:
  assumes "table_ok (s, st)" and "same_names st st'" and "t < length st" and "ty_kind (st ! t) \<in> set public_kinds"
  shows "table_ok (put_type s (ty_name (st ! t)) t, st')"
  using assms unfolding table_ok_def same_names_def put_type_def by auto

lemma inherit_result:
  assumes "inherit t conf st = Inr st'" and "sound_store st" and "t < length st" and "conf < length st"
    and "\<forall>i \<in> set (ty_implements (st ! conf)). i < length st"
  shows "same_names st st' \<and> (\<forall>f. HasFeature (st ! conf) f \<longrightarrow> HasFeature (st' ! t) f)
    \<and> (\<forall>i \<in> set (ty_implements (st ! conf)). implementing st' t i)"
proof -
  obtain st1 where st1: "add_features (ty_features (st ! conf)) t st = Inr st1" "same_shape st st1"
      "\<forall>f \<in> set (ty_features (st ! conf)). HasFeature (st1 ! t) f"
    using add_features_result [OF assms(2,3), of "ty_features (st ! conf)"] by blast
  have "ty_implements (st1 ! conf) = ty_implements (st ! conf)"
    using st1(2) assms(4) unfolding same_shape_def
    by (metis itype.select_convs(9) itype.surjective itype.update_convs(19))
  then have impl: "implement_all (ty_implements (st ! conf)) t st1 = Inr st'"
    using assms(1) st1(1) by (simp add: inherit_def)
  have len: "length st1 = length st" using st1(2) by (simp add: same_shape_def)
  have "t < length st1" "\<forall>i \<in> set (ty_implements (st ! conf)). i < length st1" using assms(3,5) len by simp_all
  from implement_all_result [OF impl this] show ?thesis
    using st1(3) same_names_trans [OF same_shape_names [OF st1(2)]] by (auto simp: HasFeature_def)
qed

text \<open>
  C30: saving a type keeps the table: the name of the type now leads to it and every other entry is as
  before. A name that was taken is only given to a generic type, of a type that is external exactly like the one the old
  type is made of, and the new type has all features of the old one and implements all its interfaces. Whether the
  two wrap the same type is not compared.
\<close>

theorem saveType_keeps_table:
  assumes "saveType t (s, st) = Inr (s', st')" and "table_ok (s, st)" and "sound_store st" and "t < length st"
    and "\<forall>a < length st. \<forall>i \<in> set (ty_implements (st ! a)). i < length st"
  shows "table_ok (s', st') \<and> map_of (tst_types s') = (map_of (tst_types s))(ty_name (st ! t) \<mapsto> t)
    \<and> (\<forall>conf. map_of (tst_types s) (ty_name (st ! t)) = Some conf \<longrightarrow> ty_kind (st ! t) = KindGeneric
        \<and> (\<exists>g g'. ty_generic_of (st ! t) = Some g \<and> ty_generic_of (st ! conf) = Some g' \<and> ty_external (st ! g) = ty_external (st ! g'))
        \<and> (\<forall>f. HasFeature (st ! conf) f \<longrightarrow> HasFeature (st' ! t) f)
        \<and> (\<forall>i \<in> set (ty_implements (st ! conf)). implementing st' t i))"
proof -
  have public: "ty_kind (st ! t) \<in> set public_kinds" using assms(1) by (simp add: saveType_def split: if_splits)
  show ?thesis
  proof (cases "map_of (tst_types s) (ty_name (st ! t))")
    case None
    then have "s' = put_type s (ty_name (st ! t)) t" "st' = st"
      using assms(1) by (auto simp: saveType_def split: if_splits)
    moreover have "same_names st st" by (simp add: same_names_def)
    ultimately show ?thesis using None table_ok_put [OF assms(2) _ assms(4) public] by (simp add: put_type_def)
  next
    case (Some conf)
    then have s': "inherit t conf st = Inr st'" "s' = put_type s (ty_name (st ! t)) t" "ty_kind (st ! t) = KindGeneric"
      using assms(1) by (auto simp: saveType_def map_err_def split: if_splits option.splits sum.splits)
    have ext: "\<exists>g g'. ty_generic_of (st ! t) = Some g \<and> ty_generic_of (st ! conf) = Some g' \<and> ty_external (st ! g) = ty_external (st ! g')"
      using assms(1) Some by (auto simp: saveType_def split: if_splits option.splits)
    have conf: "conf < length st" using assms(2) Some by (simp add: table_ok_def)
    have "\<forall>i \<in> set (ty_implements (st ! conf)). i < length st" using assms(5) conf by blast
    note r = inherit_result [OF s'(1) assms(3,4) conf this]
    have "table_ok (s', st')" using table_ok_put [OF assms(2) _ assms(4) public] r s'(2) by simp
    then show ?thesis using Some r s' ext by (simp add: put_type_def)
  qed
qed

definition opt_store :: store where
  "opt_store = [
     (new_type KindPrimitive [])\<lparr>ty_primitive := ''string''\<rparr>,
     (new_type KindGeneric ''OptString'')\<lparr>ty_generic_of := Some 0, ty_features := [''json'']\<rparr>,
     (new_type KindGeneric ''OptString'')\<lparr>ty_generic_of := Some 0\<rparr>]"

definition opt_table :: tstorage where
  "opt_table = \<lparr>tst_refs = [], tst_types = [(''OptString'', 1)]\<rparr>"

lemma saveType_keeps_table_witness:
  "\<exists>s' st'. saveType 2 (opt_table, opt_store) = Inr (s', st') \<and> HasFeature (st' ! 2) ''json''
     \<and> map_of (tst_types s') ''OptString'' = Some 2"
proof -
  have "\<exists>s' st'. saveType 2 (opt_table, opt_store) = Inr (s', st')"
    by (simp add: saveType_def opt_table_def opt_store_def new_type_def public_kinds_def inherit_def AddFeature_def
        add_feature.simps HasFeature_def feature_children_def)
  then obtain s' st' where r: "saveType 2 (opt_table, opt_store) = Inr (s', st')" by auto
  have "table_ok (opt_table, opt_store)"
    by (simp add: table_ok_def opt_table_def opt_store_def new_type_def public_kinds_def)
  moreover have "sound_store opt_store"
    by (simp add: sound_store_def opt_store_def new_type_def feature_children_def validation_children_def)
  moreover have "\<forall>a < length opt_store. \<forall>i \<in> set (ty_implements (opt_store ! a)). i < length opt_store"
    by (auto simp: opt_store_def new_type_def nth_Cons split: nat.splits)
  ultimately show ?thesis
    using saveType_keeps_table [OF r] r by (auto simp: opt_table_def opt_store_def new_type_def HasFeature_def)
qed

end
