(* ===== verification/GeneratorProps.thy ===== *)
theory GeneratorProps
  imports Generator TypeStoreProps "HOL-Library.Multiset"
begin

text \<open>
  What the generator guarantees: sorting, unique names of schema references, unique operations and
  shared channels, the redis wiring, and what happens to an ignored schema.
\<close>

section \<open>Sorting\<close>

lemma sink_inserts:
  "sorted as \<Longrightarrow> \<exists>zs. sink (length as) (as @ x # bs) = zs @ bs \<and> sorted zs \<and> mset zs = mset (x # as)"
proof (induction as arbitrary: bs rule: rev_induct)
  case Nil
  then show ?case by simp
next
  case (snoc y as)
  have nth: "(as @ y # x # bs) ! Suc (length as) = x" "(as @ y # x # bs) ! length as = y"
    by (simp_all add: nth_append)
  show ?case
  proof (cases "x < y")
    case True
    have swap: "(as @ y # x # bs)[Suc (length as) := y, length as := x] = as @ x # y # bs"
      by (simp add: list_update_append)
    from snoc obtain zs where zs: "sink (length as) (as @ x # y # bs) = zs @ y # bs" "sorted zs" "mset zs = mset (x # as)"
      by (auto simp: sorted_append)
    have "\<forall>z \<in> set zs. z \<le> y"
      using snoc.prems True mset_eq_setD [OF zs(3)] by (auto simp: sorted_append)
    then have "sorted (zs @ [y])" using zs(2) by (simp add: sorted_append)
    then show ?thesis
      using True zs nth swap by (intro exI [of _ "zs @ [y]"]) simp
  next
    case False
    have "sorted (as @ [y, x])" using snoc.prems False by (auto simp: sorted_append)
    then show ?thesis using False nth by (intro exI [of _ "as @ [y, x]"]) simp
  qed
qed

lemma sort_from_sorts:
  "sorted as \<Longrightarrow> \<exists>zs. sort_from (length as) (length bs) (as @ bs) = zs \<and> sorted zs \<and> mset zs = mset (as @ bs)"
proof (induction bs arbitrary: as)
  case (Cons x bs)
  from sink_inserts [OF Cons.prems, of x bs] obtain zs
    where zs: "sink (length as) (as @ x # bs) = zs @ bs" "sorted zs" "mset zs = mset (x # as)" by blast
  have len: "length zs = Suc (length as)" using zs(3) by (metis length_Cons size_mset)
  have "sort_from (Suc (length as)) (length bs) (zs @ bs) = sort_from (length zs) (length bs) (zs @ bs)"
    using len by simp
  then show ?case using Cons.IH [OF zs(2)] zs by simp
qed simp

text \<open>
  \<open>sortStrings\<close> sorts: its swaps yield the sorted list of the same strings.
\<close>

lemma sort_strings_sorts: "sortStrings s = sort s"
proof (cases s)
  case Nil
  then show ?thesis by (simp add: sortStrings_def)
next
  case (Cons x xs)
  have "sorted (sortStrings s) \<and> mset (sortStrings s) = mset s"
    using sort_from_sorts [of "[x]" xs] Cons by (auto simp: sortStrings_def)
  then show ?thesis by (metis properties_for_sort)
qed

section \<open>Names of schema references\<close>

text \<open>Names given to references are taken, not empty, and belong to one reference each.\<close>

definition names_ok :: "lstate \<Rightarrow> bool" where
  "names_ok s \<longleftrightarrow> (\<forall>r n. ls_ref_names s r = Some n \<longrightarrow> n \<noteq> [] \<and> n \<in> ls_used s)
     \<and> (\<forall>r r' n. ls_ref_names s r = Some n \<longrightarrow> ls_ref_names s r' = Some n \<longrightarrow> r = r')"

lemma names_okD: "names_ok s \<Longrightarrow> ls_ref_names s r = Some n \<Longrightarrow> n \<noteq> [] \<and> n \<in> ls_used s"
  by (simp add: names_ok_def)

lemma names_ok_same: "names_ok s \<Longrightarrow> ls_ref_names s r = Some n \<Longrightarrow> ls_ref_names s r' = Some n \<Longrightarrow> r = r'"
  unfolding names_ok_def by blast



lemma reserveName_ok: "names_ok s \<Longrightarrow> names_ok (reserveName n s)"
proof (cases "n = []")
  case False
  assume s: "names_ok s"
  have names: "ls_ref_names (reserveName n s) = ls_ref_names s" and used: "ls_used (reserveName n s) = insert n (ls_used s)"
    using False by (simp_all add: reserveName_def)
  show ?thesis
    unfolding names_ok_def names used
    using names_okD [OF s] names_ok_same [OF s] by blast
qed (simp add: reserveName_def)










definition demo_options :: options where
  "demo_options = \<lparr>go_features = None, go_operations_regex = None, go_actions = [], go_ignore = [], go_initialisms = False\<rparr>"






section \<open>The redis wiring\<close>

text \<open>
  One operation agrees with a wiring: its channel declares the mode, a receive operation declares the
  group (which only pubsub mode lets it omit), a send channel declares the length or none.
\<close>

definition op_agrees :: "operation \<Rightarrow> string \<Rightarrow> string \<Rightarrow> int \<Rightarrow> bool" where
  "op_agrees op1 mode grp maxLen \<longleftrightarrow> (case op_channel op1 of
       None \<Rightarrow> True
     | Some ch \<Rightarrow> (case ch_redis ch of
         None \<Rightarrow> False
       | Some r \<Rightarrow> rcb_type r = mode
           \<and> (op_action op1 = ReceiveAction \<longrightarrow>
                declared_group op1 = grp \<and> grp \<noteq> [] \<or> declared_group op1 = [] \<and> mode \<noteq> RedisTypeStream)
           \<and> (op_action op1 = SendAction \<longrightarrow> rcb_max_len r = 0 \<or> rcb_max_len r = maxLen)))"

lemma actions_differ [simp]: "SendAction \<noteq> ReceiveAction" "ReceiveAction \<noteq> SendAction"
  by (simp_all add: SendAction_def ReceiveAction_def)

text \<open>What is decided stays decided.\<close>

definition settles :: "string \<times> string \<times> int \<Rightarrow> string \<times> string \<times> int \<Rightarrow> bool" where
  "settles = (\<lambda>(m0, g0, l0) (m, g, l). (m0 = [] \<or> m = m0) \<and> (g0 = [] \<or> g = g0) \<and> (l0 = 0 \<or> l = l0))"

lemma settles_refl [simp]: "settles w w"
  by (cases w) (simp add: settles_def)

lemma settles_trans: "settles u v \<Longrightarrow> settles v w \<Longrightarrow> settles u w"
  by (auto simp: settles_def)

text \<open>The redis type of every channel is a word, as the parser makes sure.\<close>

definition typed_channel :: "operation \<Rightarrow> bool" where
  "typed_channel op1 \<longleftrightarrow> (\<forall>ch r. op_channel op1 = Some ch \<longrightarrow> ch_redis ch = Some r \<longrightarrow> rcb_type r \<noteq> [])"

lemma step_sound:
  assumes "redis_defaults_step op1 w0 = Inr w1" and "typed_channel op1" and "settles w1 (m, g, l)"
  shows "settles w0 w1 \<and> op_agrees op1 m g l"
proof (cases "op_channel op1")
  case None
  then show ?thesis using assms(1) by (cases w0) (simp add: redis_defaults_step_def op_agrees_def)
next
  case (Some ch)
  then obtain r where r: "ch_redis ch = Some r"
    using assms(1) by (cases w0; cases "ch_redis ch") (auto simp: redis_defaults_step_def)
  obtain m0 g0 l0 where w0: "w0 = (m0, g0, l0)" by (cases w0)
  have ne: "rcb_type r \<noteq> []" using assms(2) Some r by (simp add: typed_channel_def)
  consider (recv) g1 where "op_action op1 = ReceiveAction" "redis_group_step op1 (rcb_type r) g0 = Inr g1" "w1 = (rcb_type r, g1, l0)"
    | (send) l1 where "op_action op1 = SendAction" "redis_max_len_step ch r l0 = Inr l1" "w1 = (rcb_type r, g0, l1)"
    | (other) "op_action op1 \<noteq> ReceiveAction" "op_action op1 \<noteq> SendAction" "w1 = (rcb_type r, g0, l0)"
    using assms(1) Some r w0
    by (auto simp: redis_defaults_step_def redis_mode_step_def split: if_splits)
  moreover have "m0 = [] \<or> m0 = rcb_type r"
    using assms(1) Some r w0 by (auto simp: redis_defaults_step_def redis_mode_step_def split: if_splits)
  ultimately show ?thesis
    using assms(3) Some r w0 ne
    by cases (auto simp: settles_def op_agrees_def redis_group_step_def redis_max_len_step_def split: if_splits)
qed

lemma loop_sound:
  "redis_defaults_loop ops w0 = Inr (m, g, l) \<Longrightarrow> \<forall>op1 \<in> set ops. typed_channel op1 \<Longrightarrow>
   settles w0 (m, g, l) \<and> (\<forall>op1 \<in> set ops. op_agrees op1 m g l)"
proof (induction ops arbitrary: w0)
  case (Cons op1 ops)
  then obtain w1 where w1: "redis_defaults_step op1 w0 = Inr w1" "redis_defaults_loop ops w1 = Inr (m, g, l)" by auto
  have later: "settles w1 (m, g, l)" "\<forall>op1 \<in> set ops. op_agrees op1 m g l"
    using Cons.IH [OF w1(2)] Cons.prems(2) by auto
  have "settles w0 w1 \<and> op_agrees op1 m g l"
    using step_sound [OF w1(1) _ later(1)] Cons.prems(2) by simp
  then show ?case using later settles_trans [of w0 w1] by simp
qed simp

lemma step_complete:
  assumes "op_agrees op1 m g l" and "typed_channel op1" and "settles w0 (m, g, l)"
  shows "\<exists>w1. redis_defaults_step op1 w0 = Inr w1 \<and> settles w1 (m, g, l)"
proof (cases "op_channel op1")
  case None
  then show ?thesis using assms(3) by (cases w0) (simp add: redis_defaults_step_def)
next
  case (Some ch)
  then obtain r where r: "ch_redis ch = Some r" using assms(1) by (auto simp: op_agrees_def split: option.splits)
  obtain m0 g0 l0 where w0: "w0 = (m0, g0, l0)" by (cases w0)
  have mode: "redis_mode_step ch r m0 = Inr m" "rcb_type r = m"
    using assms Some r w0 by (auto simp: op_agrees_def settles_def redis_mode_step_def)
  consider (recv) "op_action op1 = ReceiveAction" | (send) "op_action op1 = SendAction"
    | (other) "op_action op1 \<noteq> ReceiveAction" "op_action op1 \<noteq> SendAction" by blast
  then show ?thesis
  proof cases
    case recv
    then have "\<exists>g1. redis_group_step op1 m g0 = Inr g1 \<and> (g1 = [] \<or> g = g1)"
      using assms Some r w0 by (auto simp: op_agrees_def settles_def redis_group_step_def)
    then show ?thesis using recv Some r w0 mode assms(3) by (auto simp: redis_defaults_step_def settles_def)
  next
    case send
    then have "\<exists>l1. redis_max_len_step ch r l0 = Inr l1 \<and> (l1 = 0 \<or> l = l1)"
      using assms Some r w0 by (auto simp: op_agrees_def settles_def redis_max_len_step_def)
    then show ?thesis using send Some r w0 mode assms(3) by (auto simp: redis_defaults_step_def settles_def)
  next
    case other
    then show ?thesis using Some r w0 mode assms(3) by (auto simp: redis_defaults_step_def settles_def)
  qed
qed

lemma loop_complete:
  "\<forall>op1 \<in> set ops. op_agrees op1 m g l \<and> typed_channel op1 \<Longrightarrow> settles w0 (m, g, l) \<Longrightarrow>
   \<exists>w. redis_defaults_loop ops w0 = Inr w"
proof (induction ops arbitrary: w0)
  case Nil
  show ?case by (cases w0) simp
next
  case (Cons op1 ops)
  then obtain w1 where "redis_defaults_step op1 w0 = Inr w1" "settles w1 (m, g, l)"
    using step_complete [of op1 m g l w0] by auto
  then show ?case using Cons by simp
qed

text \<open>
  C8: the redis wiring is derived exactly when all operations agree on one: every channel declares the
  mode, in stream mode every receive operation declares the group, the declared lengths are equal;
  and the result is a wiring they all agree with.
\<close>

theorem redis_defaults_agree:
  assumes "\<forall>op1 \<in> set ops. typed_channel op1"
  shows "(\<forall>m g l. redisBindingDefaults ops = Inr (m, g, l) \<longrightarrow> (\<forall>op1 \<in> set ops. op_agrees op1 m g l))
    \<and> ((\<exists>w. redisBindingDefaults ops = Inr w) \<longleftrightarrow> (\<exists>m g l. \<forall>op1 \<in> set ops. op_agrees op1 m g l))"
proof -
  have sound: "\<forall>op1 \<in> set ops. op_agrees op1 m g l" if "redisBindingDefaults ops = Inr (m, g, l)" for m g l
    using loop_sound [of ops "([], [], 0)" m g l] that assms by (simp add: redisBindingDefaults_def)
  moreover have "\<exists>w. redisBindingDefaults ops = Inr w" if "\<forall>op1 \<in> set ops. op_agrees op1 m g l" for m g l
    using loop_complete [of ops m g l "([], [], 0)"] that assms by (simp add: redisBindingDefaults_def settles_def)
  ultimately show ?thesis by (metis prod_cases3)
qed

section \<open>Operations and channels\<close>

text \<open>What is built around an operation leaves the operations and the channels alone.\<close>

definition same_channels :: "gstate \<Rightarrow> gstate \<Rightarrow> bool" where
  "same_channels g g' \<longleftrightarrow> gs_channels g' = gs_channels g \<and> gs_seen g' = gs_seen g
     \<and> gs_operations g' = gs_operations g \<and> gs_servers g' = gs_servers g"

lemma same_channels_refl [simp]: "same_channels g g"
  by (simp add: same_channels_def)

lemma same_channels_trans: "same_channels g g' \<Longrightarrow> same_channels g' g'' \<Longrightarrow> same_channels g g''"
  by (simp add: same_channels_def)

lemma buildMessage_same: "buildMessage G msg g = Inr (m, g') \<Longrightarrow> same_channels g g'"
  unfolding buildMessage_def Let_def
  by (auto simp: alloc_def same_channels_def)

lemma build_messages_same: "build_messages G as g = Inr g' \<Longrightarrow> same_channels g g'"
proof (induction as arbitrary: g)
  case (Cons a as)
  show ?case
  proof (cases "gs_messages g a")
    case None
    then obtain m g1 where "buildMessage G (gi_message G a) g = Inr (m, g1)"
      and rest: "build_messages G as (g1\<lparr>gs_messages := (gs_messages g1)(a \<mapsto> m)\<rparr>) = Inr g'"
      using Cons.prems by (auto )
    then have "same_channels g g1" using buildMessage_same by blast
    then show ?thesis using Cons.IH [OF rest] by (simp add: same_channels_def)
  qed (use Cons in simp)
qed simp

lemma implement_messages_same: "implement_messages iface marker as g = Inr g' \<Longrightarrow> same_channels g g'"
proof (induction as arbitrary: g)
  case (Cons a as)
  then obtain st where
    "implement_messages iface marker as
       (g\<lparr>gs_lower := (gs_lower g)\<lparr>ls_store := st\<rparr>,
          gs_messages := (gs_messages g)(a \<mapsto> (the (gs_messages g a))\<lparr>im_marker := marker\<rparr>)\<rparr>) = Inr g'"
    by (auto simp: Let_def)
  from Cons.IH [OF this] show ?case by (simp add: same_channels_def)
qed simp

lemma build_sum_same:
  assumes "build_sum G cn as g = Inr (t, g')"
  shows "same_channels g g'"
proof (cases "gs_sums g (sum_key g as)")
  case None
  then obtain g0 g1 l where "implement_messages (fst (alloc (ls_store (gs_lower g)) (Interface (cn @ ''Message''))))
        (lowerFirst cn @ ''Message'') as g0 = Inr g1"
    and "same_channels g g0" and "g' = g1\<lparr>gs_lower := l, gs_sums := (gs_sums g1)(sum_key g as \<mapsto> t)\<rparr>"
    using assms by (auto simp: build_sum_def Let_def same_channels_def split: prod.splits)
  then show ?thesis using implement_messages_same [of _ _ as g0 g1] by (simp add: same_channels_def)
qed (use assms in \<open>simp add: build_sum_def Let_def\<close>)

text \<open>Numbers of channels are bound to one channel object each.\<close>

definition numbered :: "gstate \<Rightarrow> bool" where
  "numbered g \<longleftrightarrow> (\<forall>c i. gs_seen g c = Some i \<longrightarrow> i < length (gs_channels g))
     \<and> (\<forall>c d i. gs_seen g c = Some i \<longrightarrow> gs_seen g d = Some i \<longrightarrow> c = d)"

definition keeps_numbers :: "gstate \<Rightarrow> gstate \<Rightarrow> bool" where
  "keeps_numbers g g' \<longleftrightarrow> numbered g' \<and> gs_seen g \<subseteq>\<^sub>m gs_seen g'"

lemma build_operation_channel_numbers:
  assumes "build_operation_channel G op g = Inr (i, g')" and "numbered g"
  shows "keeps_numbers g g' \<and> gs_seen g' (ao_channel op) = Some i \<and> gs_operations g' = gs_operations g"
proof (cases "gs_seen g (ao_channel op)")
  case None
  then obtain ch c g1 where ch: "op_channel op = Some ch" and c: "buildChannel G ch g = Inr (c, g1)"
    and i: "i = length (gs_channels g1)"
    and g': "g' = g1\<lparr>gs_seen := (gs_seen g1)(ao_channel op \<mapsto> i), gs_channels := gs_channels g1 @ [c]\<rparr>"
    using assms(1) by (auto simp: build_operation_channel_def Let_def split: option.splits)
  have same: "same_channels g g1" using c by (auto simp: buildChannel_def same_channels_def)
  have seen: "gs_seen g' = (gs_seen g)(ao_channel op \<mapsto> i)" "length (gs_channels g') = Suc (length (gs_channels g))"
    "gs_operations g' = gs_operations g" "i = length (gs_channels g)"
    using same g' i by (simp_all add: same_channels_def)
  have "numbered g'"
    unfolding numbered_def seen(1,2) using assms(2) seen(4) unfolding numbered_def
    by (metis fun_upd_apply less_SucI lessI nat_neq_iff option.inject)
  then show ?thesis using seen None unfolding keeps_numbers_def map_le_def by (auto simp: dom_def)
next
  case (Some j)
  then show ?thesis using assms by (simp add: build_operation_channel_def keeps_numbers_def)
qed

text \<open>An operation of the result belongs to a parsed operation.\<close>

definition built_from :: "gstate \<Rightarrow> api_operation \<Rightarrow> ir_operation \<Rightarrow> bool" where
  "built_from g op o1 \<longleftrightarrow> io_id o1 = op_name op \<and> io_action o1 = op_action op \<and> io_messages o1 = op_messages op
     \<and> gs_seen g (ao_channel op) = Some (io_channel o1)"

lemma buildOperation_built:
  assumes "buildOperation G op g = Inr (o1, g')" and "numbered g"
  shows "keeps_numbers g g' \<and> gs_operations g' = gs_operations g \<and> built_from g' op o1"
proof -
  obtain goName i g1 g2 sum where
    ch: "build_operation_channel G op (g\<lparr>gs_lower := reserveName goName (gs_lower g)\<rparr>) = Inr (i, g1)"
    and msgs: "build_messages G (op_messages op) g1 = Inr g2"
    and sum: "(if 1 < length (op_messages op)
               then bind_res (build_sum G (ic_go_name (gs_channels g2 ! i)) (op_messages op) g2) (\<lambda>(t, g3). Inr (Some t, g3))
               else Inr (None, g2)) = Inr (sum, g')"
    and o1: "io_id o1 = op_name op" "io_action o1 = op_action op" "io_channel o1 = i" "io_messages o1 = op_messages op"
    using assms(1) unfolding buildOperation_def by (clarsimp split: prod.splits)
  have "same_channels g2 g'"
    using sum build_sum_same by (auto split: if_splits)
  then have same: "same_channels g1 g'" using build_messages_same [OF msgs] same_channels_trans by blast
  have "numbered (g\<lparr>gs_lower := reserveName goName (gs_lower g)\<rparr>)" using assms(2) by (simp add: numbered_def)
  from build_operation_channel_numbers [OF ch this] show ?thesis
    using same o1 by (simp add: keeps_numbers_def numbered_def same_channels_def built_from_def)
qed

lemma built_from_mono: "built_from g op o1 \<Longrightarrow> keeps_numbers g g' \<Longrightarrow> built_from g' op o1"
  unfolding built_from_def keeps_numbers_def map_le_def by (metis domI)

lemma built_in_range:
  assumes "numbered g" and "list_all2 (built_from g) ops os"
  shows "list_all (\<lambda>o1. io_channel o1 < length (gs_channels g)) os"
  using assms(2) by (induction rule: list_all2_induct) (use assms(1) in \<open>auto simp: built_from_def numbered_def\<close>)

lemma built_maps:
  "list_all2 (built_from g) ops os \<Longrightarrow> map io_id os = map op_name ops \<and> map io_action os = map op_action ops"
  by (induction rule: list_all2_induct) (auto simp: built_from_def)

lemma built_share:
  "numbered g \<Longrightarrow> built_from g p o1 \<Longrightarrow> built_from g q o2 \<Longrightarrow> ao_channel p = ao_channel q \<longleftrightarrow> io_channel o1 = io_channel o2"
  unfolding built_from_def numbered_def by (metis option.inject)

lemma list_all2_product:
  assumes "list_all2 R xs ys" and "list_all2 S us vs"
  shows "list_all2 (\<lambda>(x, u) (y, v). R x y \<and> S u v) (List.product xs us) (List.product ys vs)"
  using assms(1)
proof (induction rule: list_all2_induct)
  case (Cons x xs y ys)
  have "list_all2 (\<lambda>(x, u) (y, v). R x y \<and> S u v) (map (Pair x) us) (map (Pair y) vs)"
    using assms(2) Cons(1) by (simp add: list_all2_map1 list_all2_map2 list_all2_mono)
  then show ?case using Cons by (simp add: list_all2_appendI)
qed simp

lemma built_products:
  assumes "numbered g" and "list_all2 (built_from g) ops os"
  shows "list_all2 (\<lambda>(p, q) (o1, o2). ao_channel p = ao_channel q \<longleftrightarrow> io_channel o1 = io_channel o2)
    (List.product ops ops) (List.product os os)"
  using list_all2_product [OF assms(2,2)] by (rule list_all2_mono) (auto simp: built_share [OF assms(1)])

lemma build_operations_built:
  assumes "build_operations G ops names g = Inr (names', g')" and "numbered g"
    and "list_all2 (built_from g) done0 (gs_operations g)"
    and "distinct (map io_name (gs_operations g))" and "set (map io_name (gs_operations g)) = names"
  shows "numbered g' \<and> list_all2 (built_from g') (done0 @ ops) (gs_operations g')
    \<and> distinct (map io_name (gs_operations g')) \<and> set (map io_name (gs_operations g')) = names'"
  using assms
proof (induction ops arbitrary: names g done0)
  case (Cons op ops)
  then obtain o1 g1 where o1: "buildOperation G op g = Inr (o1, g1)" "io_name o1 \<notin> names"
    and rest: "build_operations G ops (insert (io_name o1) names) (g1\<lparr>gs_operations := gs_operations g1 @ [o1]\<rparr>) = Inr (names', g')"
    by (auto split: if_splits)
  have b: "keeps_numbers g g1" "gs_operations g1 = gs_operations g" "built_from g1 op o1"
    using buildOperation_built [OF o1(1) Cons.prems(2)] by auto
  let ?g = "g1\<lparr>gs_operations := gs_operations g1 @ [o1]\<rparr>"
  have same: "built_from ?g = built_from g1" by (simp add: built_from_def fun_eq_iff)
  have "list_all2 (built_from g1) done0 (gs_operations g)"
    using Cons.prems(3) built_from_mono [OF _ b(1)] by (rule list_all2_mono)
  then have "list_all2 (built_from ?g) (done0 @ [op]) (gs_operations ?g)"
    using b same by (simp add: list_all2_appendI)
  moreover have "numbered ?g" using b(1) by (simp add: keeps_numbers_def numbered_def)
  moreover have "distinct (map io_name (gs_operations ?g))" "set (map io_name (gs_operations ?g)) = insert (io_name o1) names"
    using Cons.prems(4,5) o1(2) b(2) by auto
  ultimately show ?case using Cons.IH [OF rest, of "done0 @ [op]"] by simp
qed simp

text \<open>The operations to build: the kept ones, then the replies that receivers publish.\<close>

definition all_operations :: "options \<Rightarrow> api_operation list \<Rightarrow> api_operation list" where
  "all_operations opt operations =
     filter (keep_operation opt) operations @ concat (map synthetic_of (filter (keep_operation opt) operations))"

text \<open>
  C5: the generated operations are the kept ones in their order, followed by one send operation per
  reply of a receive operation; their Go names differ, each refers to an existing channel, and two
  of them share a channel exactly when they are on the same channel object.
\<close>

theorem build_operations_of_document:
  assumes "build G servers operations = Inr (g, w)"
  shows "map io_id (gs_operations g) = map op_name (all_operations (gi_options G) operations)
    \<and> map io_action (gs_operations g) = map op_action (all_operations (gi_options G) operations)
    \<and> distinct (map io_name (gs_operations g))
    \<and> list_all (\<lambda>o1. io_channel o1 < length (gs_channels g)) (gs_operations g)
    \<and> list_all2 (\<lambda>(p, q) (o1, o2). ao_channel p = ao_channel q \<longleftrightarrow> io_channel o1 = io_channel o2)
        (List.product (all_operations (gi_options G) operations) (all_operations (gi_options G) operations))
        (List.product (gs_operations g) (gs_operations g))"
proof -
  let ?ops = "all_operations (gi_options G) operations"
  obtain srvs names g1 names2 where
    first: "build_operations G (filter (keep_operation (gi_options G)) operations) {} (gstate_start (gi_schemas G) srvs) = Inr (names, g1)"
    and second: "build_operations G (concat (map synthetic_of (filter (keep_operation (gi_options G)) operations))) names g1
      = Inr (names2, g)"
    using assms unfolding build_def Let_def by (auto split: if_splits)
  have "numbered g1 \<and> list_all2 (built_from g1) ([] @ filter (keep_operation (gi_options G)) operations) (gs_operations g1)
    \<and> distinct (map io_name (gs_operations g1)) \<and> set (map io_name (gs_operations g1)) = names"
    by (rule build_operations_built [OF first]) (simp_all add: gstate_start_def numbered_def)
  then have all: "numbered g" "list_all2 (built_from g) ?ops (gs_operations g)" "distinct (map io_name (gs_operations g))"
    using build_operations_built [OF second, of "filter (keep_operation (gi_options G)) operations"]
    by (auto simp: all_operations_def)
  have related: "list_all (\<lambda>o1. io_channel o1 < length (gs_channels g)) (gs_operations g)"
    using all(1,2) by (rule built_in_range)
  show ?thesis
    using all related built_maps [OF all(2)] built_products [OF all(1,2)] by simp
qed

definition lamp_channel :: channel where
  "lamp_channel = \<lparr>ch_name = ''lamp'', ch_address = ''lamp'', ch_title = [], ch_summary = [], ch_description = [],
     ch_messages = [], ch_parameters = [], ch_servers = [], ch_bindings = [], ch_redis = None, ch_tags = [],
     ch_extensions = [(''x-agen-name'', scalar ''Lamp'')]\<rparr>"

definition lamp_operation :: "string \<Rightarrow> string \<Rightarrow> api_operation" where
  "lamp_operation name action = \<lparr>op_name = name, op_action = action, op_channel = Some lamp_channel,
     op_messages = [], op_title = [], op_summary = [], op_description = [], op_security = [], op_bindings = [],
     op_redis = None, op_reply = None, op_tags = [],
     op_extensions = [(''x-agen-name'', scalar name)], ao_channel = 7, ao_reply = 0\<rparr>"

definition demo_input :: ginput where
  "demo_input = \<lparr>gi_tables = \<lparr>ct_is_upper = \<lambda>r. 65 \<le> r \<and> r \<le> 90, ct_to_upper = \<lambda>r. if 97 \<le> r \<and> r \<le> 122 then r - 32 else r\<rparr>,
     gi_options = demo_options, gi_message = \<lambda>a. undefined, gi_parameter = \<lambda>a. undefined,
     gi_schemas = [], gi_lower = \<lambda>name sc l. Inr (None, l)\<rparr>"

lemma build_operations_of_document_witness:
  "\<exists>g w. build demo_input [] [lamp_operation ''TurnOn'' SendAction, lamp_operation ''TurnedOn'' ReceiveAction] = Inr (g, w)
     \<and> map io_id (gs_operations g) = [''TurnOn'', ''TurnedOn''] \<and> list_all (\<lambda>o1. io_channel o1 < length (gs_channels g)) (gs_operations g)"
proof -
  let ?ops = "[lamp_operation ''TurnOn'' SendAction, lamp_operation ''TurnedOn'' ReceiveAction]"
  have "\<exists>g w. build demo_input [] ?ops = Inr (g, w)"
    by (simp add: build_def build_operation_channel_def buildOperation_def buildChannel_def lamp_operation_def
        lamp_channel_def demo_input_def demo_options_def gstate_start_def goNameOf_def keep_operation_def
        synthetic_of_def sortedServerKeys_def sortStrings_def brokerBackend_def reserveName_def decode_rune_ascii
        Let_def)
  then obtain g w where b: "build demo_input [] ?ops = Inr (g, w)" by blast
  have "all_operations (gi_options demo_input) ?ops = ?ops"
    by (simp add: all_operations_def demo_input_def demo_options_def keep_operation_def synthetic_of_def lamp_operation_def)
  then show ?thesis
    using build_operations_of_document [OF b] b by (intro exI [of _ g] exI [of _ w]) (simp add: lamp_operation_def)
qed

section \<open>Sums of messages\<close>

abbreviation (input) types_of :: "gstate \<Rightarrow> store" where "types_of g \<equiv> ls_store (gs_lower g)"

lemma implement_messages_result:
  "implement_messages i marker as g = Inr g' \<Longrightarrow> i < length (types_of g) \<Longrightarrow>
   \<forall>a \<in> set as. \<exists>m. gs_messages g a = Some m \<and> im_type m < length (types_of g) \<Longrightarrow>
   length (types_of g') = length (types_of g)
   \<and> (\<forall>u j. implementing (types_of g) u j \<longrightarrow> implementing (types_of g') u j)
   \<and> (\<forall>b. ty_name (types_of g' ! b) = ty_name (types_of g ! b) \<and> ty_kind (types_of g' ! b) = ty_kind (types_of g ! b)
        \<and> ty_methods (types_of g' ! b) = ty_methods (types_of g ! b))
   \<and> ls_types (gs_lower g') = ls_types (gs_lower g) \<and> gs_sums g' = gs_sums g
   \<and> (\<forall>a. gs_messages g' a = (if a \<in> set as then map_option (im_marker_update (\<lambda>_. marker)) (gs_messages g a) else gs_messages g a))
   \<and> (\<forall>a \<in> set as. implementing (types_of g') (im_type (the (gs_messages g a))) i)"
proof (induction as arbitrary: g)
  case (Cons a as)
  obtain m where m: "gs_messages g a = Some m" "im_type m < length (types_of g)" using Cons.prems(3) by auto
  obtain st where st: "Implement (im_type m) i (types_of g) = Inr st"
    and rest: "implement_messages i marker as
       (g\<lparr>gs_lower := (gs_lower g)\<lparr>ls_store := st\<rparr>, gs_messages := (gs_messages g)(a \<mapsto> m\<lparr>im_marker := marker\<rparr>)\<rparr>) = Inr g'"
    using Cons.prems(1) m by (auto simp: Let_def map_err_def split: sum.splits)
  let ?g = "g\<lparr>gs_lower := (gs_lower g)\<lparr>ls_store := st\<rparr>, gs_messages := (gs_messages g)(a \<mapsto> m\<lparr>im_marker := marker\<rparr>)\<rparr>"
  note impl = Implement_result [OF st m(2) Cons.prems(2)]
  have types: "types_of ?g = st" by simp
  have pre: "\<forall>b \<in> set as. \<exists>m. gs_messages ?g b = Some m \<and> im_type m < length (types_of ?g)"
    using Cons.prems(3) m impl(2) by auto
  have "i < length (types_of ?g)" using Cons.prems(2) impl(2) by simp
  note IH = Cons.IH [OF rest this pre, unfolded types]
  have names: "\<forall>b. im_type (the (gs_messages ?g b)) = im_type (the (gs_messages g b))" using m by simp
  have "\<forall>b \<in> set (a # as). implementing (types_of g') (im_type (the (gs_messages g b))) i"
    using IH names impl(1) m by auto
  moreover have "\<forall>b. gs_messages g' b = (if b \<in> set (a # as) then map_option (im_marker_update (\<lambda>_. marker)) (gs_messages g b) else gs_messages g b)"
    using IH m by auto
  ultimately show ?case using IH impl(2,4,5) by simp
qed simp

text \<open>
  A new sum type is an interface that every message type of the operation implements, in both
  directions of the relation; each message gets the marker method, and the interface is in the table
  of types under its name, which nothing else had.
\<close>

lemma new_sum_is_implemented:
  assumes "gs_sums g (sum_key g as) = None" and "build_sum G channelName as g = Inr (i, g')"
    and "\<forall>a \<in> set as. \<exists>m. gs_messages g a = Some m \<and> im_type m < length (types_of g)"
  shows "gs_sums g' (sum_key g as) = Some i \<and> ty_kind (types_of g' ! i) = KindInterface
    \<and> map_of (tst_types (ls_types (gs_lower g))) (channelName @ ''Message'') = None
    \<and> map_of (tst_types (ls_types (gs_lower g'))) (channelName @ ''Message'') = Some i
    \<and> (\<forall>a \<in> set as. \<exists>m. gs_messages g' a = Some m \<and> im_marker m = lowerFirst channelName @ ''Message''
          \<and> implementing (types_of g') (im_type m) i)"
proof -
  let ?iface = "(Interface (channelName @ ''Message''))"
  let ?marker = "lowerFirst channelName @ ''Message''"
  obtain st1 g1 l where add: "AddMethod (length (types_of g)) ?marker (types_of g @ [?iface]) = Inr st1"
    and impl: "implement_messages (length (types_of g)) ?marker as (g\<lparr>gs_lower := (gs_lower g)\<lparr>ls_store := st1\<rparr>\<rparr>) = Inr g1"
    and save: "save_type (length (types_of g)) (gs_lower g1) = Inr l"
    and i: "i = length (types_of g)"
    and g': "g' = g1\<lparr>gs_lower := l, gs_sums := (gs_sums g1)(sum_key g as \<mapsto> i)\<rparr>"
    using assms(1,2) by (auto simp: build_sum_def Let_def alloc_def map_err_def split: sum.splits)
  have st1: "length st1 = Suc (length (types_of g))" "ty_kind (st1 ! i) = KindInterface"
      "ty_name (st1 ! i) = channelName @ ''Message''"
    using add i by (auto simp: AddMethod_def AddMethodSignature_def Interface_def new_type_def split: if_splits)
  let ?g = "g\<lparr>gs_lower := (gs_lower g)\<lparr>ls_store := st1\<rparr>\<rparr>"
  have "i < length (types_of ?g)" using st1(1) i by simp
  moreover have "\<forall>a \<in> set as. \<exists>m. gs_messages ?g a = Some m \<and> im_type m < length (types_of ?g)"
    using assms(3) st1(1) by force
  ultimately have r: "length (types_of g1) = length st1" "ty_name (types_of g1 ! i) = channelName @ ''Message''"
     "ty_kind (types_of g1 ! i) = KindInterface" "ls_types (gs_lower g1) = ls_types (gs_lower g)"
     "\<And>a. a \<in> set as \<Longrightarrow> gs_messages g1 a = map_option (im_marker_update (\<lambda>_. ?marker)) (gs_messages g a)"
     "\<And>a. a \<in> set as \<Longrightarrow> implementing (types_of g1) (im_type (the (gs_messages g a))) i"
    using implement_messages_result [OF impl [folded i]] st1 by simp_all
  have l: "map_of (tst_types (ls_types (gs_lower g))) (channelName @ ''Message'') = None"
      "ls_store l = types_of g1" "ls_types l = put_type (ls_types (gs_lower g)) (channelName @ ''Message'') i"
    using save r(2,3,4) i by (auto simp: save_type_def saveType_def map_err_def split: if_splits option.splits sum.splits)
  have messages: "\<exists>m. gs_messages g' a = Some m \<and> im_marker m = ?marker \<and> implementing (types_of g') (im_type m) i"
    if "a \<in> set as" for a
    using r(5,6) [OF that] assms(3) that l(2) by (auto simp: g')
  show ?thesis
    using l r(3) messages by (simp add: g' put_type_def)
qed

text \<open>Two messages of one operation.\<close>

definition envelope :: "tref \<Rightarrow> string \<Rightarrow> ir_message" where
  "envelope t name = \<lparr>im_name = name, im_spec_name = name, im_title = [], im_description = [], im_type = t,
     im_headers = None, im_payload = None, im_content_type = [], im_marker = []\<rparr>"

definition two_messages :: gstate where
  "two_messages = (gstate_start [] [])\<lparr>
     gs_lower := (gs_lower (gstate_start [] []))\<lparr>ls_store := [new_type KindStruct ''On'', new_type KindStruct ''Off'']\<rparr>,
     gs_messages := [1 \<mapsto> envelope 0 ''On'', 2 \<mapsto> envelope 1 ''Off'']\<rparr>"

lemma new_sum_is_implemented_witness:
  "\<exists>i g'. build_sum demo_input ''Lamp'' [1, 2] two_messages = Inr (i, g')
     \<and> (\<exists>m. gs_messages g' 2 = Some m \<and> implementing (types_of g') (im_type m) i)"
proof -
  have none: "gs_sums two_messages (sum_key two_messages [1, 2]) = None"
    by (simp add: two_messages_def gstate_start_def)
  then have "\<exists>i g'. build_sum demo_input ''Lamp'' [1, 2] two_messages = Inr (i, g')"
    by (simp add: build_sum_def Let_def alloc_def two_messages_def gstate_start_def envelope_def AddMethod_def
        AddMethodSignature_def Interface_def new_type_def Implement_def CanHaveMethods_def save_type_def saveType_def
        newTStorage_def public_kinds_def put_type_def)
  then obtain i g' where b: "build_sum demo_input ''Lamp'' [1, 2] two_messages = Inr (i, g')" by blast
  have "\<forall>a \<in> set [1, 2 :: addr]. \<exists>m. gs_messages two_messages a = Some m \<and> im_type m < length (types_of two_messages)"
    by (simp add: two_messages_def gstate_start_def envelope_def)
  from new_sum_is_implemented [OF none b this] show ?thesis using b by auto
qed

section \<open>Ignored schemas\<close>

text \<open>
  A payload schema that is not supported but ignored, so that lowering answers no type and no error,
  panics: the message builder marks the missing type for JSON.
\<close>

lemma ignored_schema_panics:
  assumes "goNameOf (gi_tables G) (gi_options G) (ms_extensions msg) (ms_name msg) = Inr name"
    and "ms_payload msg = Some sc"
    and "\<And>l. \<exists>l'. gi_lower G (name @ ''Payload'') sc l = Inr (None, l')"
  shows "buildMessage G msg g = Inl (GPanic NilType)"
proof -
  have "lower_part G (name @ ''Payload'') (Some sc) l = Inl (GPanic NilType)" for l
    using assms(3) [of l] by (auto simp: lower_part_def AddFeature_def add_feature.simps)
  then show ?thesis using assms(1,2) by (simp add: buildMessage_def Let_def)
qed

definition lamp_message :: message where
  "lamp_message = \<lparr>ms_spec_name = ''lamp'', ms_name = ''lamp'', ms_title = [], ms_summary = [], ms_description = [],
     ms_payload = Some (scalar ''unsupported''), ms_headers = None, ms_content_type = [], ms_correlation = None,
     ms_bindings = [], ms_tags = [], ms_extensions = [(''x-agen-name'', scalar ''Lamp'')]\<rparr>"

lemma ignored_schema_panics_witness: "buildMessage demo_input lamp_message two_messages = Inl (GPanic NilType)"
  by (rule ignored_schema_panics [where name = "''Lamp''" and sc = "scalar ''unsupported''"])
    (simp_all add: goNameOf_def demo_input_def lamp_message_def decode_rune_ascii)

section \<open>The redis wiring, applied\<close>

definition wired :: "string \<Rightarrow> operation" where
  "wired mode = (operation.truncate (lamp_operation ''TurnOn'' SendAction))
     \<lparr>op_channel := Some (lamp_channel\<lparr>ch_redis := Some \<lparr>rcb_type = mode, rcb_max_len = 0, rcb_version = []\<rparr>\<rparr>)\<rparr>"

lemma redis_defaults_agree_witness:
  "\<nexists>w. redisBindingDefaults [wired ''stream'', wired ''pubsub''] = Inr w"
proof -
  have "\<forall>op1 \<in> set [wired ''stream'', wired ''pubsub'']. typed_channel op1" by (simp add: typed_channel_def wired_def)
  from redis_defaults_agree [OF this] show ?thesis by (simp add: op_agrees_def wired_def)
qed

end
