(* ===== verification/Templates.thy ===== *)
theory Templates
  imports GeneratorProps ParserProps
begin

text \<open>
  The helpers of the templates, gen/templates.go, and the collection of the texts of validators over all
  types, gen/write.go.
\<close>

section \<open>Formats of addresses\<close>

text \<open>\<open>replaceParamsSprintf\<close>: every parameter of an address becomes a verb.\<close>

function replaceParamsSprintf :: "string \<Rightarrow> string" where
  "replaceParamsSprintf address = (case index_byte address CHR ''{'' of
       None \<Rightarrow> address
     | Some start \<Rightarrow>
         (case index_byte (drop start address) CHR ''}'' of
            None \<Rightarrow> address
          | Some e \<Rightarrow> take start address @ ''%s'' @ replaceParamsSprintf (drop (start + e + 1) address)))"
  by pat_completeness auto
termination
  by (relation "measure length") (auto dest!: index_byte_Some)

declare replaceParamsSprintf.simps [simp del]

text \<open>\<open>fmt.Sprintf\<close> on a format with \<open>%s\<close> and \<open>%%\<close> only; another verb or a missing argument is reported in the
  text, which is left open here (\<open>None\<close>).\<close>

fun go_sprintf :: "string \<Rightarrow> string list \<Rightarrow> string option" where
  "go_sprintf [] args = (if args = [] then Some [] else None)"
| "go_sprintf (c # s) args =
     (if c \<noteq> CHR ''%'' then map_option (Cons c) (go_sprintf s args)
      else case s of
        [] \<Rightarrow> None
      | v # rest \<Rightarrow>
          if v = CHR ''s'' then (case args of [] \<Rightarrow> None | a # as \<Rightarrow> map_option (append a) (go_sprintf rest as))
          else if v = CHR ''%'' then map_option (Cons CHR ''%'') (go_sprintf rest args)
          else None)"

lemma sprintf_plain: "CHR ''%'' \<notin> set p \<Longrightarrow> go_sprintf (p @ s) args = map_option (append p) (go_sprintf s args)"
  by (induction p) (auto simp: map_option_case split: option.splits)

lemma replace_cons:
  assumes "CHR ''{'' \<notin> set lit" and "CHR ''}'' \<notin> set tok"
  shows "replaceParamsSprintf (lit @ CHR ''{'' # tok @ CHR ''}'' # rest) = lit @ ''%s'' @ replaceParamsSprintf rest"
proof -
  have at: "index_byte (p @ c # s) c = Some (length p)" if "c \<notin> set p" for p s :: string and c
    using that by (induction p) auto
  have start: "index_byte (lit @ CHR ''{'' # tok @ CHR ''}'' # rest) CHR ''{'' = Some (length lit)"
    using at [OF assms(1)] by simp
  have "drop (length lit) (lit @ CHR ''{'' # tok @ CHR ''}'' # rest) = (CHR ''{'' # tok) @ CHR ''}'' # rest" by simp
  moreover have "index_byte ((CHR ''{'' # tok) @ CHR ''}'' # rest) CHR ''}'' = Some (length (CHR ''{'' # tok))"
    by (rule at) (use assms(2) in simp)
  ultimately show ?thesis by (subst replaceParamsSprintf.simps) (simp add: start)
qed

lemma replace_none: "CHR ''{'' \<notin> set s \<Longrightarrow> replaceParamsSprintf s = s"
proof -
  assume "CHR ''{'' \<notin> set s"
  then have "index_byte s CHR ''{'' = None" by (simp only: index_byte_None not_False_eq_True)
  then show ?thesis by (subst replaceParamsSprintf.simps) (simp del: index_byte_None)
qed

text \<open>An address with the values put in place of its parameters.\<close>

fun filled_address :: "(string \<times> string) list \<Rightarrow> string \<Rightarrow> string list \<Rightarrow> string" where
  "filled_address [] ending args = ending"
| "filled_address ((lit, tok) # ps) ending args = lit @ hd args @ filled_address ps ending (tl args)"

text \<open>
  Formatting the generated format of an address with one value for each parameter puts the values in
  their places, when the literal text of the address has no percent sign.
\<close>

lemma address_format_fills:
  assumes "\<forall>(lit, tok) \<in> set ps. CHR ''{'' \<notin> set lit \<and> CHR ''%'' \<notin> set lit \<and> CHR ''}'' \<notin> set tok"
    and "CHR ''{'' \<notin> set rest" and "CHR ''%'' \<notin> set rest" and "length args = length ps"
  shows "go_sprintf (replaceParamsSprintf (build_address ps rest)) args = Some (filled_address ps rest args)"
  using assms(1,4)
proof (induction ps arbitrary: args)
  case Nil
  then show ?case using assms(2,3) sprintf_plain [of rest "[]" "[]"] by (simp add: replace_none)
next
  case (Cons p ps)
  obtain lit tok where p: "p = (lit, tok)" by (cases p)
  obtain a as where args: "args = a # as" using Cons.prems(2) by (cases args) auto
  have lit: "CHR ''{'' \<notin> set lit" "CHR ''%'' \<notin> set lit" "CHR ''}'' \<notin> set tok" using Cons.prems(1) p by auto
  have "go_sprintf (replaceParamsSprintf (build_address ps rest)) as = Some (filled_address ps rest as)"
    using Cons.IH [of as] Cons.prems args by simp
  then have "go_sprintf (''%s'' @ replaceParamsSprintf (build_address ps rest)) args = Some (a @ filled_address ps rest as)"
    using args by simp
  then show ?case
    using p args lit sprintf_plain [OF lit(2)] replace_cons [OF lit(1,3)] by simp
qed

lemma address_format_fills_witness:
  "go_sprintf (replaceParamsSprintf ''lights.{id}.on'') [''7''] = Some ''lights.7.on''"
  using address_format_fills [of "[(''lights.'', ''id'')]" "''.on''" "[''7'']"] by simp

text \<open>A percent sign in the address is read as the start of a verb.\<close>

lemma percent_is_not_escaped: "go_sprintf (replaceParamsSprintf ''load-100%{id}'') [''7''] = None"
proof -
  have "replaceParamsSprintf ''load-100%{id}'' = ''load-100%%s''"
    using replace_cons [of "''load-100%''" "''id''" "[]"] replace_none [of "[]"] by simp
  then show ?thesis by simp
qed

section \<open>Names in templates\<close>

record elem =
  el_sub :: bool
  el_type :: "tref option"
  el_var :: string
  el_first :: bool

definition NextVar :: "elem \<Rightarrow> string" where
  "NextVar e = (if \<not> el_sub e then ''elem'' else el_var e @ ''Elem'')"

definition sub_array_elem :: "elem \<Rightarrow> tref option \<Rightarrow> elem" where
  "sub_array_elem parent t = \<lparr>el_sub = True, el_type = t, el_var = NextVar parent, el_first = False\<rparr>"

definition pointer_elem :: "store \<Rightarrow> elem \<Rightarrow> elem" where
  "pointer_elem st parent = sub_array_elem parent (Option.bind (el_type parent) (\<lambda>a. ty_pointer_to (st ! a)))"

definition array_elem :: "tref option \<Rightarrow> elem" where
  "array_elem t = \<lparr>el_sub = True, el_type = t, el_var = ''elem'', el_first = False\<rparr>"

definition field_elem :: "field \<Rightarrow> bool \<Rightarrow> elem" where
  "field_elem f first = \<lparr>el_sub = False, el_type = fd_type f, el_var = ''s.'' @ fd_name f, el_first = first\<rparr>"

definition LocalVar :: "nat \<Rightarrow> string" where
  "LocalVar depth = ''defaultVal'' @ utoa depth"

text \<open>The variables of nested elements, one below the other, are longer and longer.\<close>

lemma nested_vars_differ:
  "m < n \<Longrightarrow> el_sub e \<Longrightarrow>
   length (el_var (((\<lambda>p. sub_array_elem p t) ^^ m) e)) < length (el_var (((\<lambda>p. sub_array_elem p t) ^^ n) e))"
proof (induction n)
  case (Suc n)
  have sub: "el_sub (((\<lambda>p. sub_array_elem p t) ^^ k) e)" for k
    by (induction k) (use Suc.prems(2) in \<open>simp_all add: sub_array_elem_def\<close>)
  have "length (el_var (((\<lambda>p. sub_array_elem p t) ^^ n) e)) < length (el_var (((\<lambda>p. sub_array_elem p t) ^^ Suc n) e))"
    using sub [of n] by (simp add: sub_array_elem_def NextVar_def)
  then show ?case using Suc by (cases "m = n") auto
qed simp

definition EncodeFn :: "bool \<Rightarrow> ir_operation \<Rightarrow> ir_message \<Rightarrow> string" where
  "EncodeFn variant op m = (if variant then ''encode'' @ io_name op @ im_name m else ''encode'' @ io_name op @ ''Message'')"

definition DecodeFn :: "ir_operation \<Rightarrow> ir_message \<Rightarrow> string" where
  "DecodeFn op m = ''decode'' @ io_name op @ im_name m"

definition msg_needs_validation :: "store \<Rightarrow> ir_message \<Rightarrow> terr + bool" where
  "msg_needs_validation st m = NeedValidation st (Some (im_type m))"

text \<open>The names are not separated: two operations may get one function name.\<close>

lemma decode_names_collide:
  "io_name op1 = ''Turn'' \<Longrightarrow> im_name m1 = ''OnLight'' \<Longrightarrow> io_name op2 = ''TurnOn'' \<Longrightarrow> im_name m2 = ''Light'' \<Longrightarrow>
   DecodeFn op1 m1 = DecodeFn op2 m2"
  by (simp add: DecodeFn_def)

definition splitLines :: "string \<Rightarrow> string list" where
  "splitLines s = (let t = trim_right_newlines s in if t = [] then [] else split_on (chr_of 10) t)"

section \<open>Variants of sums\<close>

definition jxTypeArray :: string where "jxTypeArray = ''jx.Array''"

fun dedupe_loop :: "(unique_variant \<Rightarrow> string) \<Rightarrow> unique_variant list \<Rightarrow> string set \<Rightarrow> unique_variant list" where
  "dedupe_loop key [] seen = []"
| "dedupe_loop key (v # vs) seen =
     (if key v = [] \<or> key v \<notin> seen
      then v # dedupe_loop key vs (if key v \<noteq> [] then insert (key v) seen else seen)
      else dedupe_loop key vs seen)"

definition dedupeVariantsByType :: "unique_variant list \<Rightarrow> unique_variant list" where
  "dedupeVariantsByType vs = dedupe_loop uv_field_type vs {}"

definition dedupeVariantsByArrayElementType :: "unique_variant list \<Rightarrow> unique_variant list" where
  "dedupeVariantsByArrayElementType vs = dedupe_loop uv_elem_type vs {}"

definition needsArrayElementDiscrimination :: "unique_variant list \<Rightarrow> bool" where
  "needsArrayElementDiscrimination vs \<longleftrightarrow> 2 \<le> length vs \<and> list_all (\<lambda>v. uv_field_type v = jxTypeArray) vs
     \<and> 1 < length (remdups (filter (\<lambda>t. t \<noteq> []) (map uv_elem_type vs)))"

lemma dedupe_keys: "set (map key (dedupe_loop key vs seen)) - {[]} = (set (map key vs) - {[]}) - seen"
proof (induction key vs seen rule: dedupe_loop.induct)
  case (2 key v vs seen)
  consider "key v = []" | "key v \<noteq> []" "key v \<notin> seen" | "key v \<noteq> []" "key v \<in> seen" by blast
  then show ?case
  proof cases
    case 1
    then show ?thesis using 2(1) by simp
  next
    case 2
    then have "set (map key (dedupe_loop key vs (insert (key v) seen))) - {[]} = (set (map key vs) - {[]}) - insert (key v) seen"
      using "2.IH"(1) by simp
    then have "insert (key v) (set (map key (dedupe_loop key vs (insert (key v) seen)))) - {[]}
        = (insert (key v) (set (map key vs)) - {[]}) - seen"
      using 2 by blast
    then show ?thesis using 2 by simp
  next
    case 3
    then show ?thesis using 2(2) by (simp add: insert_Diff_if)
  qed
qed simp

lemma dedupe_distinct: "distinct (filter (\<lambda>k. k \<noteq> []) (map key (dedupe_loop key vs seen)))"
proof (induction key vs seen rule: dedupe_loop.induct)
  case (2 key v vs seen)
  show ?case
  proof (cases "key v = [] \<or> key v \<notin> seen")
    case True
    have "key v \<noteq> [] \<Longrightarrow> key v \<notin> set (map key (dedupe_loop key vs (insert (key v) seen)))"
      using dedupe_keys [of key vs "insert (key v) seen"] by blast
    then show ?thesis using 2(1) [OF True] True by auto
  next
    case False
    from 2(2) [OF this] show ?thesis using False by simp
  qed
qed simp

lemma dedupe_keeps_unknown: "filter (\<lambda>v. key v = []) (dedupe_loop key vs seen) = filter (\<lambda>v. key v = []) vs"
  by (induction key vs seen rule: dedupe_loop.induct) (auto split: if_splits)

section \<open>Collecting over all types\<close>

definition type_pointers :: "itype \<Rightarrow> tref option list" where
  "type_pointers t = map fd_type (ty_fields t) @ ty_sum_of t
     @ [ty_alias_to t, ty_pointer_to t, ty_generic_of t, ty_item t]"

text \<open>The recursive closure \<open>add\<close> with its set \<open>seen\<close>, as a stack of the calls to come.\<close>

function visit :: "store \<Rightarrow> tref option list \<Rightarrow> tref list \<Rightarrow> tref list" where
  "visit st [] seen = seen"
| "visit st (None # work) seen = visit st work seen"
| "visit st (Some a # work) seen =
     (if a \<in> set seen \<or> length st \<le> a then visit st work seen
      else visit st (type_pointers (st ! a) @ work) (seen @ [a]))"
  by pat_completeness auto
termination
proof (relation "measures [\<lambda>(st, work, seen). card ({..<length st} - set seen), \<lambda>(st, work, seen). length work]")
  fix st :: store and a work seen
  assume "\<not> (a \<in> set seen \<or> length st \<le> a)"
  then have a: "a \<in> {..<length st} - set seen" by simp
  have "{..<length st} - set (seen @ [a]) = ({..<length st} - set seen) - {a}" by auto
  then have "card ({..<length st} - set (seen @ [a])) < card ({..<length st} - set seen)"
    using card_Diff1_less [OF _ a] by simp
  then show "((st, type_pointers (st ! a) @ work, seen @ [a]), st, Some a # work, seen)
      \<in> measures [\<lambda>(st, work, seen). card ({..<length st} - set seen), \<lambda>(st, work, seen). length work]"
    by (simp del: set_append)
qed simp_all

definition collectStrings :: "(itype \<Rightarrow> string list) \<Rightarrow> store \<Rightarrow> tref list \<Rightarrow> string list" where
  "collectStrings cb st roots = sort (remdups (concat (map (\<lambda>a. cb (st ! a)) (visit st (map Some roots) []))))"

text \<open>One type points to another.\<close>

definition points :: "store \<Rightarrow> tref \<Rightarrow> tref \<Rightarrow> bool" where
  "points st a b \<longleftrightarrow> b < length st \<and> Some b \<in> set (type_pointers (st ! a))"

lemma visit_closed:
  "\<forall>a \<in> set seen. \<forall>b. points st a b \<longrightarrow> b \<in> set seen \<or> Some b \<in> set work \<Longrightarrow>
   set seen \<subseteq> set (visit st work seen)
   \<and> (\<forall>a. Some a \<in> set work \<longrightarrow> a < length st \<longrightarrow> a \<in> set (visit st work seen))
   \<and> (\<forall>a \<in> set (visit st work seen). \<forall>b. points st a b \<longrightarrow> b \<in> set (visit st work seen))"
proof (induction st work seen rule: visit.induct)
  case (3 st a work seen)
  show ?case
  proof (cases "a \<in> set seen \<or> length st \<le> a")
    case True
    have "\<forall>c \<in> set seen. \<forall>b. points st c b \<longrightarrow> b \<in> set seen \<or> Some b \<in> set work"
    proof (intro ballI allI impI)
      fix c b assume "c \<in> set seen" "points st c b"
      moreover from this have "b \<in> set seen \<or> Some b \<in> set (Some a # work)" using 3(3) by blast
      ultimately show "b \<in> set seen \<or> Some b \<in> set work" using True by (auto simp: points_def)
    qed
    from 3(1) [OF True this] show ?thesis using True by auto
  next
    case False
    have "\<forall>c \<in> set (seen @ [a]). \<forall>b. points st c b \<longrightarrow> b \<in> set (seen @ [a]) \<or> Some b \<in> set (type_pointers (st ! a) @ work)"
    proof (intro ballI allI impI)
      fix c b assume "c \<in> set (seen @ [a])" "points st c b"
      then consider "c = a" | "b \<in> set seen \<or> Some b \<in> set (Some a # work)" using 3(3) by auto
      then show "b \<in> set (seen @ [a]) \<or> Some b \<in> set (type_pointers (st ! a) @ work)"
        using \<open>points st c b\<close> by cases (auto simp: points_def)
    qed
    from 3(2) [OF False this] show ?thesis using False by auto
  qed
qed auto

lemma visit_reachable:
  "b \<in> set (visit st work seen) \<Longrightarrow> b \<in> set seen \<or> (\<exists>a. Some a \<in> set work \<and> a < length st \<and> (points st)\<^sup>*\<^sup>* a b)"
proof (induction st work seen rule: visit.induct)
  case (3 st a work seen)
  show ?case
  proof (cases "a \<in> set seen \<or> length st \<le> a")
    case True
    then show ?thesis using 3(1) 3(3) by auto
  next
    case False
    then consider "b \<in> set (seen @ [a])" | c where "Some c \<in> set (type_pointers (st ! a) @ work)" "c < length st" "(points st)\<^sup>*\<^sup>* c b"
      using 3(2) 3(3) by auto
    then show ?thesis
    proof cases
      case 1
      then show ?thesis using False by auto
    next
      case 2
      show ?thesis
      proof (cases "Some c \<in> set work")
        case True
        then show ?thesis using 2 by auto
      next
        case c: False
        then have "points st a c" using 2 by (simp add: points_def)
        then have "(points st)\<^sup>*\<^sup>* a b" using 2(3) by (rule converse_rtranclp_into_rtranclp)
        then show ?thesis using False by auto
      qed
    qed
  qed
qed auto

lemma visit_is_reachable:
  "set (visit st (map Some roots) []) = {b. \<exists>a \<in> set roots. a < length st \<and> (points st)\<^sup>*\<^sup>* a b}"
proof (intro equalityI subsetI)
  fix b assume "b \<in> set (visit st (map Some roots) [])"
  from visit_reachable [OF this] show "b \<in> {b. \<exists>a \<in> set roots. a < length st \<and> (points st)\<^sup>*\<^sup>* a b}" by auto
next
  fix b assume "b \<in> {b. \<exists>a \<in> set roots. a < length st \<and> (points st)\<^sup>*\<^sup>* a b}"
  then obtain a where a: "a \<in> set roots" "a < length st" "(points st)\<^sup>*\<^sup>* a b" by blast
  have closed: "a \<in> set (visit st (map Some roots) [])"
      "\<And>c d. c \<in> set (visit st (map Some roots) []) \<Longrightarrow> points st c d \<Longrightarrow> d \<in> set (visit st (map Some roots) [])"
    using visit_closed [of "[]" st "map Some roots"] a(1,2) by auto
  from a(3) show "b \<in> set (visit st (map Some roots) [])"
    by (induction rule: rtranclp_induct) (auto intro: closed)
qed

text \<open>
  The texts collected for the generated validators are, each once and sorted, those of exactly the
  types reachable from the given ones through fields, variants, aliases, pointers, generics and items;
  types that refer to themselves are visited once.
\<close>

lemma collectStrings_reachable:
  "sorted (collectStrings cb st roots) \<and> distinct (collectStrings cb st roots)
   \<and> set (collectStrings cb st roots) = (\<Union>b \<in> {b. \<exists>a \<in> set roots. a < length st \<and> (points st)\<^sup>*\<^sup>* a b}. set (cb (st ! b)))"
  unfolding collectStrings_def by (simp add: visit_is_reachable [symmetric])

end
