(* ===== verification/SchemasProps.thy ===== *)
theory SchemasProps
  imports Schemas
begin

text \<open>
  What merging two schemas means: for the keywords that constrain a value by itself, the merged schema
  admits what both admit. Where the code departs from that (exclusive bounds, tuples, nested
  compositions, required properties, recursive schemas) a lemma shows it.
\<close>

section \<open>The meaning of a schema for one value\<close>

definition in_range :: "64 word option \<Rightarrow> 64 word option \<Rightarrow> nat \<Rightarrow> bool" where
  "in_range low high n \<longleftrightarrow> (case low of None \<Rightarrow> True | Some m \<Rightarrow> unat m \<le> n) \<and> (case high of None \<Rightarrow> True | Some m \<Rightarrow> n \<le> unat m)"

definition number_below :: "numbers \<Rightarrow> string \<Rightarrow> bool \<Rightarrow> float64 \<Rightarrow> bool" where
  "number_below L t exclusive x \<longleftrightarrow> t = [] \<or>
     (case nl_float64 L t of None \<Rightarrow> False | Some f \<Rightarrow> if exclusive then float_less x f else \<not> float_less f x)"

definition number_above :: "numbers \<Rightarrow> string \<Rightarrow> bool \<Rightarrow> float64 \<Rightarrow> bool" where
  "number_above L t exclusive x \<longleftrightarrow> t = [] \<or>
     (case nl_float64 L t of None \<Rightarrow> False | Some f \<Rightarrow> if exclusive then float_less f x else \<not> float_less x f)"

fun has_type :: "jval \<Rightarrow> string \<Rightarrow> bool" where
  "has_type VNull t \<longleftrightarrow> t = ''null''"
| "has_type (VBool b) t \<longleftrightarrow> t = ''boolean''"
| "has_type (VInt i) t \<longleftrightarrow> t = ''integer'' \<or> t = ''number''"
| "has_type (VFloat f) t \<longleftrightarrow> t = ''number''"
| "has_type (VString s) t \<longleftrightarrow> t = ''string''"
| "has_type (VArray vs) t \<longleftrightarrow> t = ''array''"
| "has_type (VObject kvs) t \<longleftrightarrow> t = ''object''"

definition number_ok :: "numbers \<Rightarrow> jschema \<Rightarrow> float64 \<Rightarrow> bool" where
  "number_ok L s x \<longleftrightarrow> number_below L (js_maximum s) (js_exclusive_max s) x
     \<and> number_above L (js_minimum s) (js_exclusive_min s) x"

text \<open>\<open>matches\<close> is the regular expression library.\<close>

fun facets :: "numbers \<Rightarrow> (string \<Rightarrow> string \<Rightarrow> bool) \<Rightarrow> jschema \<Rightarrow> jval \<Rightarrow> bool" where
  "facets L matches s (VString t) \<longleftrightarrow> in_range (js_min_length s) (js_max_length s) (length (runes_of t))
     \<and> (js_pattern s = [] \<or> matches (js_pattern s) t)"
| "facets L matches s (VInt i) \<longleftrightarrow> number_ok L s (Fin (of_int i))"
| "facets L matches s (VFloat f) \<longleftrightarrow> number_ok L s f"
| "facets L matches s (VArray vs) \<longleftrightarrow> in_range (js_min_items s) (js_max_items s) (length vs)
     \<and> (js_unique s \<longrightarrow> distinct vs)"
| "facets L matches s (VObject kvs) \<longleftrightarrow> in_range (js_min_props s) (js_max_props s) (length kvs)"
| "facets L matches s _ \<longleftrightarrow> True"

definition admits :: "numbers \<Rightarrow> (string \<Rightarrow> string \<Rightarrow> bool) \<Rightarrow> jschema \<Rightarrow> jval \<Rightarrow> bool" where
  "admits L matches s v \<longleftrightarrow> (js_type s = [] \<or> has_type v (js_type s)) \<and> (js_enum s = [] \<or> v \<in> set (js_enum s))
     \<and> (js_const_set s \<longrightarrow> v = js_const s) \<and> facets L matches s v"

text \<open>What is documented of the library's numbers: equal ones are the same float, and no text is NaN or infinite.\<close>

definition numbers_ok :: "numbers \<Rightarrow> bool" where
  "numbers_ok L \<longleftrightarrow> (\<forall>a b. nl_equal L a b \<longrightarrow> nl_float64 L a = nl_float64 L b)
     \<and> (\<forall>a f. nl_float64 L a = Some f \<longrightarrow> is_finite f)"

definition number_valued :: "jval \<Rightarrow> bool" where
  "number_valued v \<longleftrightarrow> (case v of VFloat f \<Rightarrow> is_finite f | _ \<Rightarrow> True)"

section \<open>Keyword by keyword\<close>

lemma in_range_someU64:
  "in_range (someU64 min1 min2 selectMaxU64) (someU64 max1 max2 selectMinU64) n \<longleftrightarrow> in_range min1 max1 n \<and> in_range min2 max2 n"
  by (auto simp: in_range_def someU64_def selectMaxU64_def selectMinU64_def word_less_nat_alt split: option.splits)

lemma finite_less: "is_finite a \<Longrightarrow> is_finite b \<Longrightarrow> float_less a b \<longleftrightarrow> float_val a < float_val b"
  by (cases a; cases b; simp add: is_finite_def)

lemma below_someNum:
  assumes "numbers_ok L" and "is_finite x" and "someNum L t1 t2 (minNum L) = Inr t"
  shows "number_below L t False x \<longleftrightarrow> number_below L t1 False x \<and> number_below L t2 False x"
proof -
  have eq: "nl_float64 L t1 = nl_float64 L t2" if "nl_equal L t1 t2" using assms(1) that by (simp add: numbers_ok_def)
  have fin: "is_finite f" if "nl_float64 L u = Some f" for u f using assms(1) that by (auto simp: numbers_ok_def)
  show ?thesis
  proof (cases "t1 = [] \<or> t2 = [] \<or> nl_equal L t1 t2")
    case True
    then show ?thesis using assms(3) eq by (auto simp: someNum_def number_below_def split: if_splits)
  next
    case False
    then obtain f1 f2 where f: "nl_float64 L t1 = Some f1" "nl_float64 L t2 = Some f2" "t = (if float_less f1 f2 then t1 else t2)"
      using assms(3) by (auto simp: someNum_def minNum_def split: option.splits)
    then have "is_finite f1" "is_finite f2" using fin by blast+
    then show ?thesis using f False assms(2) by (auto simp: number_below_def finite_less)
  qed
qed

lemma above_someNum:
  assumes "numbers_ok L" and "is_finite x" and "someNum L t1 t2 (maxNum L) = Inr t"
  shows "number_above L t False x \<longleftrightarrow> number_above L t1 False x \<and> number_above L t2 False x"
proof -
  have eq: "nl_float64 L t1 = nl_float64 L t2" if "nl_equal L t1 t2" using assms(1) that by (simp add: numbers_ok_def)
  have fin: "is_finite f" if "nl_float64 L u = Some f" for u f using assms(1) that by (auto simp: numbers_ok_def)
  show ?thesis
  proof (cases "t1 = [] \<or> t2 = [] \<or> nl_equal L t1 t2")
    case True
    then show ?thesis using assms(3) eq by (auto simp: someNum_def number_above_def split: if_splits)
  next
    case False
    then obtain f1 f2 where f: "nl_float64 L t1 = Some f1" "nl_float64 L t2 = Some f2" "t = (if float_less f2 f1 then t1 else t2)"
      using assms(3) by (auto simp: someNum_def maxNum_def split: option.splits)
    then have "is_finite f1" "is_finite f2" using fin by blast+
    then show ?thesis using f False assms(2) by (auto simp: number_above_def finite_less)
  qed
qed

lemma merged_text: "someStr s1 s2 (same_text err) = Inr s \<Longrightarrow>
    s = (if s1 = [] then s2 else s1) \<and> (s1 \<noteq> [] \<longrightarrow> s2 \<noteq> [] \<longrightarrow> s1 = s2)"
  by (auto simp: someStr_def same_text_def split: if_splits)

lemma merged_enum:
  assumes "mergeEnums s1 s2 = Inr e"
  shows "(e = [] \<or> v \<in> set e) \<longleftrightarrow> (js_enum s1 = [] \<or> v \<in> set (js_enum s1)) \<and> (js_enum s2 = [] \<or> v \<in> set (js_enum s2))"
  using assms by (auto simp: mergeEnums_def Let_def filter_empty_conv split: if_splits)

lemma merged_value:
  "merge_value err (c1, b1) (c2, b2) = Inr (c, b) \<Longrightarrow> (b \<longrightarrow> v = c) \<longleftrightarrow> (b1 \<longrightarrow> v = c1) \<and> (b2 \<longrightarrow> v = c2)"
  by (auto simp: merge_value_def split: if_splits)

section \<open>The merged schema\<close>

text \<open>The keywords of the result that come from \<open>merge_plain\<close>, \<open>merge_array\<close> and \<open>merge_object\<close>.\<close>

lemma merge_array_keeps:
  assumes "merge_array mg s1 s2 r st = Inr (r1, st1)"
  shows "js_type r1 = js_type r" "js_enum r1 = js_enum r" "js_const r1 = js_const r" "js_const_set r1 = js_const_set r"
    "js_min_length r1 = js_min_length r" "js_max_length r1 = js_max_length r" "js_pattern r1 = js_pattern r"
    "js_maximum r1 = js_maximum r" "js_minimum r1 = js_minimum r"
    "js_exclusive_max r1 = js_exclusive_max r" "js_exclusive_min r1 = js_exclusive_min r"
  using assms by (auto simp: merge_array_def split: if_splits)

lemma merge_array_bounds:
  assumes "merge_array mg s1 s2 r st = Inr (r1, st1)" and "js_items s1 = []"
  shows "js_min_items r1 = someU64 (js_min_items s1) (js_min_items s2) selectMaxU64"
    "js_max_items r1 = someU64 (js_max_items s1) (js_max_items s2) selectMinU64"
    "js_unique r1 = (js_unique s1 \<or> js_unique s2)"
  using assms by (auto simp: merge_array_def split: if_splits)

lemma merge_object_keeps:
  assumes "merge_object mg s1 s2 r st = Inr (r1, st1)"
  shows "js_type r1 = js_type r" "js_enum r1 = js_enum r" "js_const r1 = js_const r" "js_const_set r1 = js_const_set r"
    "js_min_length r1 = js_min_length r" "js_max_length r1 = js_max_length r" "js_pattern r1 = js_pattern r"
    "js_maximum r1 = js_maximum r" "js_minimum r1 = js_minimum r"
    "js_exclusive_max r1 = js_exclusive_max r" "js_exclusive_min r1 = js_exclusive_min r"
    "js_min_items r1 = js_min_items r" "js_max_items r1 = js_max_items r" "js_unique r1 = js_unique r"
    "js_min_props r1 = someU64 (js_min_props s1) (js_min_props s2) selectMaxU64"
    "js_max_props r1 = someU64 (js_max_props s1) (js_max_props s2) selectMinU64"
  using assms by (auto simp: merge_object_def merge_additional_def split: if_splits option.splits)

lemma merge_plain_keywords:
  assumes "merge_plain L s1 s2 = Inr r"
  shows "someStr (js_type s1) (js_type s2) (same_text STypeMismatch) = Inr (js_type r)"
    and "mergeEnums s1 s2 = Inr (js_enum r)"
    and "merge_value SDifferentConsts (js_const s1, js_const_set s1) (js_const s2, js_const_set s2) = Inr (js_const r, js_const_set r)"
    and "someStr (js_pattern s1) (js_pattern s2) (same_text SPatternMismatch) = Inr (js_pattern r)"
    and "someNum L (js_maximum s1) (js_maximum s2) (minNum L) = Inr (js_maximum r)"
    and "someNum L (js_minimum s1) (js_minimum s2) (maxNum L) = Inr (js_minimum r)"
    and "js_min_length r = someU64 (js_min_length s1) (js_min_length s2) selectMaxU64"
    and "js_max_length r = someU64 (js_max_length s1) (js_max_length s2) selectMinU64"
    and "\<not> js_exclusive_max r" and "js_exclusive_min r = (js_exclusive_min s1 \<or> js_exclusive_min s2)"
  using assms by (auto simp: merge_plain_def no_schema_def)

lemma merge_full_admits:
  assumes "numbers_ok L" and "number_valued v" and "merge_full mg L a b st = Inr (Some c, st')"
    and "s1 = st ! a" and "s2 = st ! b" and "js_items s1 = [] \<or> (\<forall>vs. v \<noteq> VArray vs)"
    and "\<not> js_exclusive_max s1" and "\<not> js_exclusive_max s2" and "\<not> js_exclusive_min s1" and "\<not> js_exclusive_min s2"
  shows "admits L matches (st' ! c) v \<longleftrightarrow> admits L matches s1 v \<and> admits L matches s2 v"
proof -
  obtain r r1 r2 st1 st2 one any_of where plain: "merge_plain L s1 s2 = Inr r"
    and arr: "merge_array mg s1 s2 r (st[a := s1\<lparr>js_exclusive_max := js_exclusive_max s1 \<or> js_exclusive_max s2\<rparr>]) = Inr (r1, st1)"
    and obj: "merge_object mg s1 s2 r1 st1 = Inr (r2, st2)"
    and c: "st' ! c = r2\<lparr>js_one_of := one, js_any_of := any_of\<rparr>"
    using assms(3-5) by (auto simp: merge_full_def Let_def nth_append)
  note keeps = merge_array_keeps [OF arr] merge_object_keeps [OF obj]
  note plain = merge_plain_keywords [OF plain]
  have ty: "js_type (st' ! c) = [] \<or> has_type v (js_type (st' ! c)) \<longleftrightarrow>
      (js_type s1 = [] \<or> has_type v (js_type s1)) \<and> (js_type s2 = [] \<or> has_type v (js_type s2))"
    using merged_text [OF plain(1)] by (auto simp: c keeps)
  have en: "js_enum (st' ! c) = [] \<or> v \<in> set (js_enum (st' ! c)) \<longleftrightarrow>
      (js_enum s1 = [] \<or> v \<in> set (js_enum s1)) \<and> (js_enum s2 = [] \<or> v \<in> set (js_enum s2))"
    using merged_enum [OF plain(2), of v] by (simp add: c keeps)
  have co: "(js_const_set (st' ! c) \<longrightarrow> v = js_const (st' ! c)) \<longleftrightarrow>
      (js_const_set s1 \<longrightarrow> v = js_const s1) \<and> (js_const_set s2 \<longrightarrow> v = js_const s2)"
    using merged_value [OF plain(3), of v] by (simp add: c keeps)
  have pat: "js_pattern (st' ! c) = [] \<or> matches (js_pattern (st' ! c)) t \<longleftrightarrow>
      (js_pattern s1 = [] \<or> matches (js_pattern s1) t) \<and> (js_pattern s2 = [] \<or> matches (js_pattern s2) t)" for t
    using merged_text [OF plain(4)] by (auto simp: c keeps)
  have num: "number_ok L (st' ! c) x \<longleftrightarrow> number_ok L s1 x \<and> number_ok L s2 x" if "is_finite x" for x
    using below_someNum [OF assms(1) that plain(5)] above_someNum [OF assms(1) that plain(6)] plain(9,10) assms(7-10)
    by (auto simp: number_ok_def c keeps)
  have fin: "is_finite (Fin q)" for q by (simp add: is_finite_def)
  have "facets L matches (st' ! c) v \<longleftrightarrow> facets L matches s1 v \<and> facets L matches s2 v"
  proof (cases v)
    case (VString t)
    have "in_range (js_min_length (st' ! c)) (js_max_length (st' ! c)) n \<longleftrightarrow>
        in_range (js_min_length s1) (js_max_length s1) n \<and> in_range (js_min_length s2) (js_max_length s2) n" for n
      by (simp add: c keeps plain(7,8) in_range_someU64)
    then show ?thesis using VString pat [of t] by auto
  next
    case (VArray vs)
    then have "js_items s1 = []" using assms(6) by simp
    note bounds = merge_array_bounds [OF arr this]
    have "in_range (js_min_items (st' ! c)) (js_max_items (st' ! c)) n \<longleftrightarrow>
        in_range (js_min_items s1) (js_max_items s1) n \<and> in_range (js_min_items s2) (js_max_items s2) n" for n
      by (simp add: c keeps bounds in_range_someU64)
    moreover have "js_unique (st' ! c) = (js_unique s1 \<or> js_unique s2)" by (simp add: c keeps bounds)
    ultimately show ?thesis using VArray by auto
  next
    case (VObject kvs)
    have "in_range (js_min_props (st' ! c)) (js_max_props (st' ! c)) n \<longleftrightarrow>
        in_range (js_min_props s1) (js_max_props s1) n \<and> in_range (js_min_props s2) (js_max_props s2) n" for n
      by (simp add: c keeps in_range_someU64)
    then show ?thesis using VObject by auto
  next
    case (VInt i)
    then show ?thesis using num [OF fin] by simp
  next
    case (VFloat f)
    then show ?thesis using num [of f] assms(2) by (simp add: number_valued_def)
  qed simp_all
  then show ?thesis unfolding admits_def using ty en co by blast
qed

section \<open>Properties\<close>

text \<open>
  C35: merging two schemas that both constrain something, have no \<open>allOf\<close> of their own and no exclusive bound
  refines their conjunction: whenever the merge succeeds, the merged schema admits a value exactly if
  both schemas do, as far as type, enumeration, constant, lengths, pattern, counts and numeric bounds go. For arrays this
  is said only if the schemas are no tuples: the merge of two tuples drops the counts.
\<close>

theorem merge_is_conjunction:
  assumes "numbers_ok L" and "number_valued v"
    and "mergeSchemes n L (Some a) (Some b) st = Inr (Some c, st')"
    and "containsValidators (st ! a)" and "containsValidators (st ! b)"
    and "js_all_of (st ! a) = []" and "js_all_of (st ! b) = []" and "js_items (st ! a) = [] \<or> (\<forall>vs. v \<noteq> VArray vs)"
    and "\<not> js_exclusive_max (st ! a)" and "\<not> js_exclusive_max (st ! b)"
    and "\<not> js_exclusive_min (st ! a)" and "\<not> js_exclusive_min (st ! b)"
  shows "admits L matches (st' ! c) v \<longleftrightarrow> admits L matches (st ! a) v \<and> admits L matches (st ! b) v"
proof (cases n)
  case (Suc m)
  then have "merge_full (mergeSchemes m L) L a b st = Inr (Some c, st')"
    using assms(3-7) by (simp add: merge_step_def merge_operand_def)
  from merge_full_admits [OF assms(1,2) this refl refl assms(8-12)] show ?thesis .
qed (use assms(3) in simp)

definition demo_numbers :: numbers where
  "demo_numbers = \<lparr>nl_equal = (=), nl_float64 = (\<lambda>t. if t = ''3'' then Some (Fin 3) else if t = ''5'' then Some (Fin 5) else None)\<rparr>"

lemma demo_numbers_ok: "numbers_ok demo_numbers"
  by (auto simp: numbers_ok_def demo_numbers_def is_finite_def split: if_splits)

lemma merge_is_conjunction_witness:
  "\<exists>c st'. mergeSchemes 2 demo_numbers (Some 0) (Some 1)
      [no_schema\<lparr>js_type := ''integer'', js_minimum := ''3''\<rparr>, no_schema\<lparr>js_minimum := ''5'', js_enum := [VInt 4, VInt 6]\<rparr>] = Inr (Some c, st')
    \<and> admits demo_numbers (\<lambda>_ _. True) (st' ! c) (VInt 6) \<and> \<not> admits demo_numbers (\<lambda>_ _. True) (st' ! c) (VInt 4)"
proof -
  let ?st = "[no_schema\<lparr>js_type := ''integer'', js_minimum := ''3''\<rparr>, no_schema\<lparr>js_minimum := ''5'', js_enum := [VInt 4, VInt 6]\<rparr>]"
  have "\<exists>c st'. mergeSchemes (Suc (Suc 0)) demo_numbers (Some 0) (Some 1) ?st = Inr (Some c, st')"
    by (simp add: merge_step_def merge_operand_def merge_full_def merge_plain_def merge_array_def merge_object_def
        merge_additional_def mergeProperties_def containsValidators_def no_schema_def someStr_def same_text_def mergeEnums_def
        merge_value_def someNum_def maxNum_def demo_numbers_def mergeSum_def Let_def)
  then obtain c st' where m: "mergeSchemes 2 demo_numbers (Some 0) (Some 1) ?st = Inr (Some c, st')"
    by (auto simp: numeral_2_eq_2)
  have "admits demo_numbers (\<lambda>_ _. True) (st' ! c) v \<longleftrightarrow>
      admits demo_numbers (\<lambda>_ _. True) (?st ! 0) v \<and> admits demo_numbers (\<lambda>_ _. True) (?st ! 1) v"
    if "number_valued v" for v
    by (rule merge_is_conjunction [OF demo_numbers_ok that m]) (simp_all add: no_schema_def containsValidators_def)
  from this [of "VInt 6"] this [of "VInt 4"]
  have "admits demo_numbers (\<lambda>_ _. True) (st' ! c) (VInt 6) \<and> \<not> admits demo_numbers (\<lambda>_ _. True) (st' ! c) (VInt 4)"
    by (simp add: number_valued_def)
      (simp add: admits_def number_ok_def number_below_def number_above_def demo_numbers_def no_schema_def)
  then show ?thesis using m by blast
qed

section \<open>Merged properties\<close>

definition table_ok :: "prop_table \<Rightarrow> bool" where
  "table_ok t \<longleftrightarrow> distinct (map fst (pt_props t)) \<and> pt_next t = length (pt_props t)
     \<and> pt_order t = zip (map fst (pt_props t)) [0..<length (pt_props t)]
     \<and> (\<forall>(n, p) \<in> set (pt_props t). pr_name p = n)"

text \<open>A property is required if one of the properties it was merged from is.\<close>

definition requires :: "jproperty set \<Rightarrow> prop_table \<Rightarrow> bool" where
  "requires A t \<longleftrightarrow> (\<forall>(n, p) \<in> set (pt_props t). pr_required p \<longleftrightarrow> (\<exists>q \<in> A. pr_name q = n \<and> pr_required q))"

lemma add_property_ok:
  assumes "table_ok t" and "pr_name p \<notin> fst ` set (pt_props t)" and "requires A t" and "\<forall>q \<in> A. pr_name q \<in> fst ` set (pt_props t)"
  shows "table_ok (add_property p t)" and "pt_props (add_property p t) = pt_props t @ [(pr_name p, p)]"
    and "requires (insert p A) (add_property p t)"
proof -
  have "smap_set (pt_props t) (pr_name p) p = pt_props t @ [(pr_name p, p)]" using assms(2) by (intro smap_set_new) (simp add: map_of_eq_None_iff)
  moreover have "smap_set (pt_order t) (pr_name p) (pt_next t) = pt_order t @ [(pr_name p, pt_next t)]"
    using assms(1,2) by (intro smap_set_new) (auto simp: table_ok_def map_of_eq_None_iff dest!: set_zip_leftD)
  ultimately show "table_ok (add_property p t)" and pp: "pt_props (add_property p t) = pt_props t @ [(pr_name p, p)]"
    using assms(1,2) by (simp_all add: table_ok_def add_property_def)
  have other: "\<forall>q \<in> A. pr_name q \<noteq> pr_name p" using assms(2,4) by metis
  have "\<forall>(n, q) \<in> set (pt_props t). n \<noteq> pr_name p" using assms(2) by force
  with other show "requires (insert p A) (add_property p t)"
    using assms(3) pp other by (auto simp: requires_def split: prod.splits)
qed

lemma add_properties_ok:
  assumes "distinct (map pr_name ps)"
  shows "table_ok t \<Longrightarrow> requires A t \<Longrightarrow> pr_name ` set ps \<inter> fst ` set (pt_props t) = {} \<Longrightarrow>
    \<forall>q \<in> A. pr_name q \<in> fst ` set (pt_props t) \<Longrightarrow>
    table_ok (fold add_property ps t) \<and> requires (A \<union> set ps) (fold add_property ps t)
    \<and> map fst (pt_props (fold add_property ps t)) = map fst (pt_props t) @ map pr_name ps"
  using assms
proof (induction ps arbitrary: t A)
  case (Cons p ps)
  have new: "pr_name p \<notin> fst ` set (pt_props t)" using Cons.prems by auto
  note step = add_property_ok [OF Cons.prems(1) new Cons.prems(2,4)]
  have "table_ok (fold add_property ps (add_property p t)) \<and> requires (insert p A \<union> set ps) (fold add_property ps (add_property p t))
    \<and> map fst (pt_props (fold add_property ps (add_property p t))) = map fst (pt_props (add_property p t)) @ map pr_name ps"
    by (rule Cons.IH) (use Cons.prems step in auto)
  then show ?case using step(2) by simp
qed simp

lemma merge_props_ok:
  "merge_props mg ps t st = Inr (t', st') \<Longrightarrow> distinct (map pr_name ps) \<Longrightarrow> table_ok t \<Longrightarrow> requires A t \<Longrightarrow>
    \<forall>q \<in> A. pr_name q \<in> fst ` set (pt_props t) \<Longrightarrow>
    table_ok t' \<and> requires (A \<union> set ps) t'
    \<and> map fst (pt_props t') = map fst (pt_props t) @ filter (\<lambda>n. n \<notin> fst ` set (pt_props t)) (map pr_name ps)"
proof (induction mg ps t st arbitrary: A rule: merge_props.induct)
  case (2 mg p ps t st)
  show ?case
  proof (cases "map_of (pt_props t) (pr_name p)")
    case None
    then have new: "pr_name p \<notin> fst ` set (pt_props t)" by (simp add: map_of_eq_None_iff)
    note step = add_property_ok [OF "2.prems"(3) new "2.prems"(4,5)]
    have "table_ok t' \<and> requires (insert p A \<union> set ps) t'
      \<and> map fst (pt_props t') = map fst (pt_props (add_property p t))
          @ filter (\<lambda>n. n \<notin> fst ` set (pt_props (add_property p t))) (map pr_name ps)"
      by (rule "2.IH"(1) [OF None]) (use "2.prems" None step in auto)
    moreover have "n \<noteq> pr_name p" if "n \<in> set (map pr_name ps)" for n
      using "2.prems"(2) that by (metis distinct.simps(2) list.simps(9))
    then have "filter (\<lambda>n. n \<notin> fst ` set (pt_props (add_property p t))) (map pr_name ps)
        = filter (\<lambda>n. n \<notin> fst ` set (pt_props t)) (map pr_name ps)"
      by (intro filter_cong refl) (auto simp: step(2))
    ultimately show ?thesis using step(2) new by simp
  next
    case (Some q)
    then obtain s st1 where s: "mg (pr_schema p) (pr_schema q) st = Inr (s, st1)"
      "merge_props mg ps (t\<lparr>pt_props := smap_set (pt_props t) (pr_name p)
         \<lparr>pr_name = pr_name p, pr_go_name = None, pr_schema = s, pr_required = pr_required p \<or> pr_required q\<rparr>\<rparr>) st1 = Inr (t', st')"
      using "2.prems"(1) by auto
    let ?t = "t\<lparr>pt_props := smap_set (pt_props t) (pr_name p)
         \<lparr>pr_name = pr_name p, pr_go_name = None, pr_schema = s, pr_required = pr_required p \<or> pr_required q\<rparr>\<rparr>"
    have mem: "(pr_name p, q) \<in> set (pt_props t)" using Some by (rule map_of_SomeD)
    then have old: "pr_name p \<in> fst ` set (pt_props t)" by force
    have keys: "map fst (pt_props ?t) = map fst (pt_props t)" using old by (simp add: map_fst_smap_set)
    then have keyset: "fst ` set (pt_props ?t) = fst ` set (pt_props t)" by (metis list.set_map)
    have len: "length (pt_props ?t) = length (pt_props t)" using keys by (metis length_map)
    have d: "distinct (map fst (pt_props t))" using "2.prems"(3) by (simp add: table_ok_def)
    have ok: "table_ok ?t"
      unfolding table_ok_def using "2.prems"(3) keys len by (auto simp: table_ok_def set_smap_set [OF d])
    have req: "requires (insert p A) ?t"
      using "2.prems"(4) mem d by (auto simp: requires_def set_smap_set split: prod.splits)
    have "table_ok t' \<and> requires (insert p A \<union> set ps) t'
      \<and> map fst (pt_props t') = map fst (pt_props ?t) @ filter (\<lambda>n. n \<notin> fst ` set (pt_props ?t)) (map pr_name ps)"
      by (rule "2.IH"(2) [OF Some s(1) refl s(2)]) (use "2.prems" ok req keyset old in auto)
    with old show ?thesis unfolding keys keyset by simp
  qed
qed auto

lemma place_props_marks:
  assumes "distinct (map fst (xs @ ys))" and "length zs = length xs"
  shows "place_props req (zip (map fst (xs @ ys)) [0..<length (xs @ ys)]) ys (zs @ replicate (length ys) no_property)
      = Inr (zs @ map (\<lambda>(n, p). p\<lparr>pr_required := pr_required p \<or> n \<in> set req\<rparr>) ys)"
  using assms
proof (induction ys arbitrary: xs zs)
  case (Cons y ys)
  obtain n p where y: "y = (n, p)" by (cases y)
  let ?order = "zip (map fst (xs @ y # ys)) [0..<length (xs @ y # ys)]"
  let ?p = "p\<lparr>pr_required := pr_required p \<or> n \<in> set req\<rparr>"
  have "?order ! length xs = (n, length xs)" "length xs < length ?order" by (simp_all add: nth_append y)
  then have "(n, length xs) \<in> set ?order" by (metis nth_mem)
  then have "map_of ?order n = Some (length xs)" using Cons.prems(1) by (intro map_of_is_SomeI) simp_all
  then have "place_props req ?order (y # ys) (zs @ replicate (length (y # ys)) no_property)
      = place_props req ?order ys ((zs @ [?p]) @ replicate (length ys) no_property)"
    using Cons.prems(2) by (simp add: y Let_def list_update_append)
  also have "\<dots> = Inr ((zs @ [?p]) @ map (\<lambda>(n, p). p\<lparr>pr_required := pr_required p \<or> n \<in> set req\<rparr>) ys)"
    using Cons.IH [of "xs @ [y]" "zs @ [?p]"] Cons.prems by simp
  finally show ?case by (simp add: y)
qed simp

text \<open>
  Merging the properties of two schemas with distinct names keeps all names, those of the first schema
  first and in order, and requires a property exactly when one side lists or declares it as required.
\<close>

lemma merged_properties:
  assumes "mergeProperties mg s1 s2 st = Inr (ps, st')"
    and "distinct (map pr_name (js_properties s1))" and "distinct (map pr_name (js_properties s2))"
  shows "map pr_name ps = map pr_name (js_properties s1)
      @ filter (\<lambda>n. n \<notin> pr_name ` set (js_properties s1)) (map pr_name (js_properties s2))
    \<and> (\<forall>p \<in> set ps. pr_required p \<longleftrightarrow> pr_name p \<in> set (js_required s1 @ js_required s2)
      \<or> (\<exists>q \<in> set (js_properties s1) \<union> set (js_properties s2). pr_name q = pr_name p \<and> pr_required q))"
proof -
  let ?t0 = "\<lparr>pt_props = [], pt_order = [], pt_next = 0\<rparr>"
  let ?t1 = "fold add_property (js_properties s1) ?t0"
  obtain t where t: "merge_props mg (js_properties s2) ?t1 st = Inr (t, st')"
    "place_props (js_required s1 @ js_required s2) (pt_order t) (pt_props t) (replicate (length (pt_props t)) no_property) = Inr ps"
    using assms(1) by (auto simp: mergeProperties_def)
  have "table_ok ?t0" "requires {} ?t0" by (simp_all add: table_ok_def requires_def)
  from add_properties_ok [OF assms(2) this] have t1: "table_ok ?t1" "requires (set (js_properties s1)) ?t1"
    "map fst (pt_props ?t1) = map pr_name (js_properties s1)" by auto
  then have names: "fst ` set (pt_props ?t1) = pr_name ` set (js_properties s1)" by (metis list.set_map)
  from merge_props_ok [OF t(1) assms(3) t1(1,2)] names
  have t2: "table_ok t" "requires (set (js_properties s1) \<union> set (js_properties s2)) t"
    "map fst (pt_props t) = map pr_name (js_properties s1)
      @ filter (\<lambda>n. n \<notin> pr_name ` set (js_properties s1)) (map pr_name (js_properties s2))"
    using t1(3) by auto
  have ps: "ps = map (\<lambda>(n, p). p\<lparr>pr_required := pr_required p \<or> n \<in> set (js_required s1 @ js_required s2)\<rparr>) (pt_props t)"
    using place_props_marks [of "[]" "pt_props t" "[]" "js_required s1 @ js_required s2"] t(2) t2(1)
    by (simp add: table_ok_def)
  have "map pr_name ps = map fst (pt_props t)"
    using t2(1) by (auto simp: ps table_ok_def)
  then have names': "map pr_name ps = map pr_name (js_properties s1)
      @ filter (\<lambda>n. n \<notin> pr_name ` set (js_properties s1)) (map pr_name (js_properties s2))" using t2(3) by simp
  have "\<forall>p \<in> set ps. pr_required p \<longleftrightarrow> pr_name p \<in> set (js_required s1 @ js_required s2)
      \<or> (\<exists>q \<in> set (js_properties s1) \<union> set (js_properties s2). pr_name q = pr_name p \<and> pr_required q)"
  proof
    fix p assume "p \<in> set ps"
    then obtain n q where q: "(n, q) \<in> set (pt_props t)"
      "p = q\<lparr>pr_required := pr_required q \<or> n \<in> set (js_required s1 @ js_required s2)\<rparr>" by (auto simp: ps)
    have n: "pr_name q = n" using q(1) t2(1) by (auto simp: table_ok_def)
    have "pr_required q \<longleftrightarrow> (\<exists>r \<in> set (js_properties s1) \<union> set (js_properties s2). pr_name r = n \<and> pr_required r)"
      using q(1) t2(2) unfolding requires_def by blast
    then show "pr_required p \<longleftrightarrow> pr_name p \<in> set (js_required s1 @ js_required s2)
      \<or> (\<exists>q \<in> set (js_properties s1) \<union> set (js_properties s2). pr_name q = pr_name p \<and> pr_required q)"
      using n by (simp add: q(2) disj_commute)
  qed
  with names' show ?thesis by blast
qed

lemma merged_properties_witness:
  "\<exists>ps st'. mergeProperties (mergeSchemes 1 demo_numbers)
      (no_schema\<lparr>js_properties := [no_property\<lparr>pr_name := ''id''\<rparr>], js_required := [''name'']\<rparr>)
      (no_schema\<lparr>js_properties := [no_property\<lparr>pr_name := ''name''\<rparr>, no_property\<lparr>pr_name := ''id''\<rparr>]\<rparr>) [] = Inr (ps, st')
    \<and> map pr_name ps = [''id'', ''name'']"
proof -
  let ?s1 = "no_schema\<lparr>js_properties := [no_property\<lparr>pr_name := ''id''\<rparr>], js_required := [''name'']\<rparr>"
  let ?s2 = "no_schema\<lparr>js_properties := [no_property\<lparr>pr_name := ''name''\<rparr>, no_property\<lparr>pr_name := ''id''\<rparr>]\<rparr>"
  let ?mg = "mergeSchemes (Suc 0) demo_numbers"
  have "\<exists>ps st'. mergeProperties ?mg ?s1 ?s2 [] = Inr (ps, st')"
    by (simp add: mergeProperties_def merge_step_def add_property_def no_schema_def no_property_def)
  then obtain ps st' where m: "mergeProperties ?mg ?s1 ?s2 [] = Inr (ps, st')" by blast
  have "map pr_name ps = [''id'', ''name'']"
    using merged_properties [OF m] by (simp add: no_schema_def no_property_def)
  then show ?thesis using m by auto
qed

section \<open>Where merging departs from the conjunction\<close>

lemmas merge_defs = merge_step_def merge_operand_def merge_full_def merge_plain_def merge_array_def merge_object_def
  merge_additional_def mergeProperties_def mergeNSchemes_def containsValidators_def no_schema_def no_property_def
  someStr_def same_text_def mergeEnums_def merge_value_def someNum_def maxNum_def minNum_def mergeSum_def someU64_def
  add_property_def shallowSchemaCopy_def deref_def Let_def

text \<open>An exclusive maximum of either side is lost: the exclusiveness is written to the operand.\<close>

lemma exclusive_maximum_lost:
  "\<exists>c st'. mergeSchemes 2 demo_numbers (Some 0) (Some 1)
      [no_schema\<lparr>js_maximum := ''5'', js_exclusive_max := True\<rparr>, no_schema\<lparr>js_type := ''integer''\<rparr>] = Inr (Some c, st')
    \<and> admits demo_numbers matches (st' ! c) (VInt 5)
    \<and> \<not> admits demo_numbers matches (no_schema\<lparr>js_maximum := ''5'', js_exclusive_max := True\<rparr>) (VInt 5)"
  by (simp add: merge_defs numeral_2_eq_2 admits_def number_ok_def number_below_def number_above_def demo_numbers_def)

text \<open>An exclusive minimum is moved to the larger bound, which neither side excludes.\<close>

lemma exclusive_minimum_moves:
  "\<exists>c st'. mergeSchemes 2 demo_numbers (Some 0) (Some 1)
      [no_schema\<lparr>js_minimum := ''3'', js_exclusive_min := True\<rparr>, no_schema\<lparr>js_minimum := ''5''\<rparr>] = Inr (Some c, st')
    \<and> \<not> admits demo_numbers matches (st' ! c) (VInt 5)
    \<and> admits demo_numbers matches (no_schema\<lparr>js_minimum := ''3'', js_exclusive_min := True\<rparr>) (VInt 5)
    \<and> admits demo_numbers matches (no_schema\<lparr>js_minimum := ''5''\<rparr>) (VInt 5)"
  by (simp add: merge_defs numeral_2_eq_2 admits_def number_ok_def number_below_def number_above_def demo_numbers_def)

lemma merged_items_empty:
  "merge_plain L s1 s2 = Inr r \<Longrightarrow> js_items r = []"
  "merge_array mg s1 s2 r st = Inr (r1, st1) \<Longrightarrow> js_items r1 = js_items r"
  "merge_object mg s1 s2 r st = Inr (r1, st1) \<Longrightarrow> js_items r1 = js_items r"
  by (auto simp: merge_plain_def no_schema_def merge_array_def merge_object_def merge_additional_def
      split: if_splits option.splits)

text \<open>Two tuples merge to a schema without elements.\<close>

lemma merged_tuple_is_empty:
  assumes "mergeSchemes n L (Some a) (Some b) st = Inr (Some c, st')"
    and "containsValidators (st ! a)" and "containsValidators (st ! b)"
    and "js_all_of (st ! a) = []" and "js_all_of (st ! b) = []" and "js_items (st ! a) \<noteq> []"
  shows "js_items (st' ! c) = []"
proof (cases n)
  case (Suc m)
  then have "merge_full (mergeSchemes m L) L a b st = Inr (Some c, st')"
    using assms by (simp add: merge_step_def merge_operand_def)
  then obtain r r1 r2 st1 st2 st3 where "merge_plain L (st ! a) (st ! b) = Inr r"
    "merge_array (mergeSchemes m L) (st ! a) (st ! b) r st3 = Inr (r1, st1)"
    "merge_object (mergeSchemes m L) (st ! a) (st ! b) r1 st1 = Inr (r2, st2)" "js_items (st' ! c) = js_items r2"
    by (auto simp: merge_full_def Let_def nth_append)
  then show ?thesis using merged_items_empty assms(6) by metis
qed (use assms(1) in simp)

text \<open>A composition among the members loses the keywords next to its own members.\<close>

lemma nested_siblings_lost:
  "\<exists>c st'. mergeSchemes 2 demo_numbers (Some 0) (Some 1)
      [no_schema\<lparr>js_all_of := [Some 1], js_enum := [VInt 4]\<rparr>, no_schema\<lparr>js_type := ''integer''\<rparr>] = Inr (Some c, st')
    \<and> js_enum (st' ! c) = []"
  by (simp add: merge_defs numeral_2_eq_2)

text \<open>A requirement on a property that only a later member declares is lost.\<close>

lemma later_requirement_lost:
  "\<exists>c st' p. mergeNSchemes (mergeSchemes 2 demo_numbers) [Some 0, Some 1, Some 2]
      [no_schema\<lparr>js_required := [''id'']\<rparr>, no_schema\<lparr>js_type := ''object''\<rparr>,
       no_schema\<lparr>js_properties := [no_property\<lparr>pr_name := ''id''\<rparr>]\<rparr>] = Inr (Some c, st')
    \<and> js_properties (st' ! c) = [p] \<and> pr_name p = ''id'' \<and> \<not> pr_required p"
  by (simp add: merge_defs numeral_2_eq_2)

text \<open>A schema with a property of its own kind, such as a list node.\<close>

definition linked :: "string \<Rightarrow> sref \<Rightarrow> jschema" where
  "linked name self = no_schema\<lparr>js_ref := ([], name), js_type := ''object'',
     js_properties := [\<lparr>pr_name = ''next'', pr_go_name = None, pr_schema = Some self, pr_required = False\<rparr>]\<rparr>"

text \<open>
  Two schemas each of which has a property of its own kind, a shape every document may have, are never
  merged: whatever the depth, merging runs out of it, so the generator overflows its stack.
\<close>

lemma recursive_schemas_never_merge:
  "flattenAllOfSchema n L (Some 2)
     [linked ''a'' 0, linked ''b'' 1, no_schema\<lparr>js_all_of := [Some 0, Some 1]\<rparr>] = Inl SOutOfFuel"
proof -
  have step: "mergeSchemes n L (Some a) (Some b) st = Inl SOutOfFuel"
    if "a = 0 \<and> b = 1 \<or> a = 1 \<and> b = 0" "2 \<le> length st" "st ! 0 = linked ''a'' 0" "st ! 1 = linked ''b'' 1" for n a b st
    using that
  proof (induction n arbitrary: a b)
    case (Suc n)
    then have "n = 0 \<or> mergeSchemes n L (Some b) (Some a) st = Inl SOutOfFuel" by auto
    moreover have "st[a := (st ! a)\<lparr>js_exclusive_max := js_exclusive_max (st ! a) \<or> js_exclusive_max (st ! b)\<rparr>] = st"
      using Suc.prems by (auto simp: linked_def no_schema_def intro!: list_update_same_conv [THEN iffD2])
    ultimately show ?case
      using Suc.prems
      by (cases n) (auto simp: merge_defs linked_def)
  qed simp
  show ?thesis
  proof (cases n)
    case (Suc m)
    have "each_schema (no_recursion n [linked ''a'' 0, linked ''b'' 1, no_schema\<lparr>js_all_of := [Some 0, Some 1]\<rparr>]) [Some 2] {}
      = (if m = 0 then Inl SOutOfFuel else Inr {})"
      using Suc by (cases m) (auto simp: Let_def composed_of_def linked_def no_schema_def)
    then show ?thesis
      using step [of 0 1] by (cases m) (auto simp: flattenAllOfSchema_def ensureNoInfiniteRecursion_def no_schema_def hasSiblingConstraints_def
          mergeNSchemes_def Let_def)
  qed (simp add: flattenAllOfSchema_def ensureNoInfiniteRecursion_def no_schema_def)
qed

end
