(* ===== verification/Lowering.thy ===== *)
theory Lowering
  imports Generator
begin

text \<open>
  The pieces of the schema lowering (internal/lowering) that look at one type or schema at a time: optional and
  nullable wrappers (\<open>boxType\<close> of generics.go), recursion between structs (internal/ir/recursion.go), primitive
  and enum types (schema_gen_primitive.go), default values, and the registration of types
  (schema_gen.go).
\<close>

section \<open>The state of one lowering\<close>

text \<open>
  What the lowering is given: libraries, case conversion, the naming mode, the ignore list, the hook that
  names references, and the fuel of the recursions that Go leaves unbounded.
\<close>

record lower_env =
  le_lib :: schema_lib
  le_load :: type_loader
  le_upper :: "rune \<Rightarrow> rune"
  le_initialisms :: bool
  le_fail :: "gerr \<Rightarrow> gerr option"
  le_name_ref :: "ref_key \<Rightarrow> lstate \<Rightarrow> gerr + string \<times> lstate"
  le_float_text :: "float64 \<Rightarrow> string"
  le_fuel :: nat

text \<open>\<open>schemaGen\<close>: side types and referenced types of this lowering, on top of the state that persists.\<close>

record sgen =
  sg_l :: lstate
  sg_side :: "tref list"
  sg_refs :: "(ref_key \<times> tref) list"
  sg_imports :: "string smap"

type_synonym 'a lowered = "gerr + 'a \<times> sgen"

abbreviation sg_store :: "sgen \<Rightarrow> store" where
  "sg_store g \<equiv> ls_store (sg_l g)"

abbreviation sg_schemas :: "sgen \<Rightarrow> sstore" where
  "sg_schemas g \<equiv> ls_schemas (sg_l g)"

definition put_store :: "store \<Rightarrow> sgen \<Rightarrow> sgen" where
  "put_store st g = g\<lparr>sg_l := (sg_l g)\<lparr>ls_store := st\<rparr>\<rparr>"

definition put_schemas :: "sstore \<Rightarrow> sgen \<Rightarrow> sgen" where
  "put_schemas ss g = g\<lparr>sg_l := (sg_l g)\<lparr>ls_schemas := ss\<rparr>\<rparr>"

definition new_itype :: "itype \<Rightarrow> sgen \<Rightarrow> tref \<times> sgen" where
  "new_itype t g = (length (sg_store g), put_store (sg_store g @ [t]) g)"

definition update_type :: "tref \<Rightarrow> (itype \<Rightarrow> itype) \<Rightarrow> sgen \<Rightarrow> sgen" where
  "update_type a f g = put_store ((sg_store g)[a := f (sg_store g ! a)]) g"

definition gerr_of :: "serr \<Rightarrow> gerr" where
  "gerr_of e = (case e of SNotImplemented n \<Rightarrow> NotImplemented n | _ \<Rightarrow> SchemaError e)"

definition le_namer :: "lower_env \<Rightarrow> namer" where
  "le_namer E = default_namer (le_initialisms E)"

definition sg_pascal_special :: "lower_env \<Rightarrow> string list \<Rightarrow> gerr + string" where
  "sg_pascal_special E strs = map_err (\<lambda>_. BadName (concat_sep '' '' strs)) (pascalSpecial (le_namer E) strs)"

definition EncodingJSON :: string where "EncodingJSON = ''application/json''"

text \<open>What a type keeps of its schema.\<close>

definition schema_view :: "jschema \<Rightarrow> type_schema" where
  "schema_view s = \<lparr>ts_type = js_type s, ts_format = js_format s, ts_unique_items = js_unique s,
     ts_ogen_type = js_ogen_type s, ts_ogen_name = js_ogen_name s, ts_ref = js_ref s, ts_time_format = js_time_format s\<rparr>"

definition schema_view_of :: "sref option \<Rightarrow> sgen \<Rightarrow> type_schema option" where
  "schema_view_of p g = map_option (\<lambda>a. schema_view (sg_schemas g ! a)) p"

section \<open>Registration\<close>

definition refs_set :: "ref_key \<Rightarrow> tref \<Rightarrow> (ref_key \<times> tref) list \<Rightarrow> (ref_key \<times> tref) list" where
  "refs_set r t refs = (r, t) # filter (\<lambda>(r', _). r' \<noteq> r) refs"

text \<open>A referenced type is registered under its reference, behind an alias if it has no name of its own.\<close>

definition regtype :: "string \<Rightarrow> tref \<Rightarrow> sgen \<Rightarrow> tref \<times> sgen" where
  "regtype name a g =
     (let t = sg_store g ! a;
          ref = (case ty_schema t of None \<Rightarrow> ([], []) | Some s \<Rightarrow> ts_ref s) in
      if ref \<noteq> ([], []) then
        let (b, g1) = (if ty_kind t \<in> {KindPrimitive, KindArray, KindAny}
                       then new_itype (Alias (sg_store g) name a) g else (a, g))
        in (b, g1\<lparr>sg_refs := refs_set ref b (sg_refs g1)\<rparr>)
      else if ty_kind t \<in> {KindStruct, KindMap, KindEnum, KindSum} then (a, g\<lparr>sg_side := sg_side g @ [a]\<rparr>)
      else (a, g))"

definition reg_new :: "string \<Rightarrow> itype \<Rightarrow> sgen \<Rightarrow> tref \<times> sgen" where
  "reg_new name t g = (let (a, g1) = new_itype t g in regtype name a g1)"

section \<open>Wrappers\<close>

text \<open>\<open>CanGeneric\<close> looks through aliases.\<close>

fun can_generic :: "nat \<Rightarrow> store \<Rightarrow> tref option \<Rightarrow> terr + bool" where
  "can_generic n st None = Inl NilType"
| "can_generic 0 st (Some a) = Inl TOutOfFuel"
| "can_generic (Suc n) st (Some a) =
     (let t = st ! a in
      if ty_kind t = KindAlias then can_generic n st (ty_alias_to t)
      else Inr (\<not> (ty_kind t = KindStruct \<and> ty_fields t = []) \<and> \<not> (ty_kind t = KindSum \<and> ty_sum_of t = [])
        \<and> ty_kind t \<in> {KindPrimitive, KindEnum, KindStruct, KindMap, KindSum}))"

definition NullableOptional :: "generic_variant \<Rightarrow> bool" where
  "NullableOptional v \<longleftrightarrow> gv_optional v \<and> gv_nullable v"

definition OnlyOptional :: "generic_variant \<Rightarrow> bool" where
  "OnlyOptional v \<longleftrightarrow> gv_optional v \<and> \<not> gv_nullable v"

definition OnlyNullable :: "generic_variant \<Rightarrow> bool" where
  "OnlyNullable v \<longleftrightarrow> gv_nullable v \<and> \<not> gv_optional v"

definition any_variant :: "generic_variant \<Rightarrow> bool" where
  "any_variant v \<longleftrightarrow> gv_nullable v \<or> gv_optional v"

definition genericPostfix :: "store \<Rightarrow> tref \<Rightarrow> gerr + string" where
  "genericPostfix st a =
     bind_res (map_err GPanic (name_postfix (Suc (length st)) st (Some a))) (\<lambda>p.
       map_err (\<lambda>_. BadName p) (pascal (default_namer False) [AfterDot p]))"

definition box_generic :: "tref \<Rightarrow> tref \<Rightarrow> generic_variant \<Rightarrow> store \<Rightarrow> gerr + tref \<times> store" where
  "box_generic named of_type v st =
     bind_res (genericPostfix st named) (\<lambda>postfix. Inr (alloc st (Generic st postfix of_type v)))"

text \<open>A slice has room for one of the two: its nil is marked, on the shared type itself.\<close>

definition box_slice :: "tref \<Rightarrow> tref \<Rightarrow> generic_variant \<Rightarrow> store \<Rightarrow> gerr + tref \<times> store" where
  "box_slice a d v st =
     (if OnlyOptional v \<or> OnlyNullable v then
        let sem = (if OnlyOptional v then NilOptional else NilNull);
            st1 = st[a := (st ! a)\<lparr>ty_nil := sem\<rparr>]
        in Inr (a, st1[d := (st1 ! d)\<lparr>ty_nil := sem\<rparr>])
      else box_generic a a v st)"

definition box_pointer :: "tref \<Rightarrow> generic_variant \<Rightarrow> store \<Rightarrow> gerr + tref \<times> store" where
  "box_pointer a v st =
     (if OnlyOptional v then Inr (alloc st (Pointer st a NilOptional))
      else if OnlyNullable v then Inr (alloc st (Pointer st a NilNull))
      else
        bind_res (genericPostfix st a) (\<lambda>postfix.
          let (p, st1) = alloc st (Pointer st a NilNull)
          in Inr (alloc st1 (Generic st1 postfix p \<lparr>gv_nullable = False, gv_optional = True\<rparr>))))"

definition boxType :: "tref \<Rightarrow> generic_variant \<Rightarrow> store \<Rightarrow> gerr + tref \<times> store" where
  "boxType a v st =
     (case (if ty_kind (st ! a) = KindAlias then ty_alias_to (st ! a) else Some a) of
        None \<Rightarrow> Inl (GPanic NilType)
      | Some d \<Rightarrow>
          let t = st ! d in
          if ty_kind t = KindAny \<or> ty_kind t = KindStream \<or> \<not> any_variant v then Inr (a, st)
          else if ty_primitive t = ''struct{}'' \<and> OnlyNullable v then Inr (a, st)
          else
            let v' = (if ty_primitive t = ''struct{}'' then v\<lparr>gv_nullable := False\<rparr> else v) in
            if ty_kind t = KindArray \<or> ty_primitive t = ''[]byte'' then box_slice a d v' st
            else bind_res (map_err GPanic (can_generic (Suc (length st)) st (Some a))) (\<lambda>gen.
              if gen then box_generic a a v' st else box_pointer a v' st))"

section \<open>Recursive structs\<close>

text \<open>
  \<open>reflect.DeepEqual\<close> on two types, as far as their fields are modelled: all that is no pointer is equal, and what pointers lead to is
  deeply equal; a pair that was compared before is not compared again.
\<close>

definition deep_children :: "itype \<Rightarrow> tref option list" where
  "deep_children t = [ty_alias_to t, ty_pointer_to t, ty_item t, ty_generic_of t] @ ty_sum_of t
     @ map fd_type (ty_fields t)
     @ map fd_type (ss_unique (ty_sum_spec t))
     @ map (Some \<circ> sm_type) (ss_mapping (ty_sum_spec t)) @ map sm_discriminator_type (ss_mapping (ty_sum_spec t))"

definition erase_field :: "field \<Rightarrow> field" where
  "erase_field f = f\<lparr>fd_type := None\<rparr>"

definition erase_spec :: "sum_spec \<Rightarrow> sum_spec" where
  "erase_spec s = s\<lparr>ss_unique := map erase_field (ss_unique s),
     ss_mapping := map (\<lambda>m. m\<lparr>sm_type := 0, sm_discriminator_type := None\<rparr>) (ss_mapping s)\<rparr>"

definition deep_shape :: "itype \<Rightarrow> itype" where
  "deep_shape t = t\<lparr>ty_alias_to := None, ty_pointer_to := None, ty_item := None, ty_generic_of := None,
     ty_sum_of := map (\<lambda>_. None) (ty_sum_of t), ty_fields := map erase_field (ty_fields t),
     ty_implements := sort (ty_implements t), ty_implementations := sort (ty_implementations t),
     ty_sum_spec := erase_spec (ty_sum_spec t)\<rparr>"

fun deep_equal :: "nat \<Rightarrow> store \<Rightarrow> (tref \<times> tref) list \<Rightarrow> (tref option \<times> tref option) list \<Rightarrow> terr + bool" where
  "deep_equal n st seen [] = Inr True"
| "deep_equal n st seen ((None, None) # ps) = deep_equal n st seen ps"
| "deep_equal n st seen ((None, Some b) # ps) = Inr False"
| "deep_equal n st seen ((Some a, None) # ps) = Inr False"
| "deep_equal 0 st seen ((Some a, Some b) # ps) = Inl TOutOfFuel"
| "deep_equal (Suc n) st seen ((Some a, Some b) # ps) =
     (if a = b \<or> (a, b) \<in> set seen then deep_equal n st seen ps
      else if deep_shape (st ! a) \<noteq> deep_shape (st ! b) then Inr False
      else deep_equal n st ((a, b) # seen) (zip (deep_children (st ! a)) (deep_children (st ! b)) @ ps))"

text \<open>The kinds that cannot cause recursion, and the pointers that can.\<close>

definition recursion_stops :: "kind \<Rightarrow> bool" where
  "recursion_stops k \<longleftrightarrow> k \<in> {KindPrimitive, KindEnum, KindAny, KindPointer, KindArray, KindMap}"

definition recursion_children :: "itype \<Rightarrow> terr + tref option list" where
  "recursion_children t = (case ty_kind t of
       KindAlias \<Rightarrow> Inr [ty_alias_to t]
     | KindGeneric \<Rightarrow> Inr [ty_generic_of t]
     | KindStruct \<Rightarrow> Inr (map fd_type (ty_fields t))
     | KindSum \<Rightarrow> Inr (ty_sum_of t)
     | _ \<Rightarrow> Inl Unreachable)"

text \<open>\<open>recursive\<close> with the path of types being visited; \<open>same\<close> is deep equality with the struct.\<close>

fun recursive :: "nat \<Rightarrow> (tref \<Rightarrow> terr + bool) \<Rightarrow> store \<Rightarrow> tref \<Rightarrow> tref list \<Rightarrow> tref option \<Rightarrow> terr + bool" where
  "recursive n same st s path None = Inl NilType"
| "recursive 0 same st s path (Some a) = Inl TOutOfFuel"
| "recursive (Suc n) same st s path (Some a) =
     (if recursion_stops (ty_kind (st ! s)) \<or> recursion_stops (ty_kind (st ! a)) then Inr False
      else bind_res (if s = a then Inr True else same a) (\<lambda>eq.
        if eq \<or> a \<in> set path then Inr True
        else bind_res (recursion_children (st ! a)) (any_type (recursive n same st s (a # path)))))"

definition RecursiveTo :: "nat \<Rightarrow> store \<Rightarrow> tref \<Rightarrow> tref option \<Rightarrow> terr + bool" where
  "RecursiveTo n st s target =
     recursive (Suc (length st)) (\<lambda>a. deep_equal n st [] [(Some s, Some a)]) st s [] target"

text \<open>The type that a field of a struct gets: a pointer if the struct is contained in it.\<close>

definition field_variant :: "field_spec \<Rightarrow> generic_variant" where
  "field_variant f = \<lparr>gv_nullable = fp_nullable f, gv_optional = \<not> fp_required f\<rparr>"

definition unbox_recursive :: "string \<Rightarrow> string \<Rightarrow> generic_variant \<Rightarrow> tref \<Rightarrow> store \<Rightarrow> gerr + tref \<times> store" where
  "unbox_recursive sname fname v a st =
     (let a' = (if ty_kind (st ! a) = KindGeneric then ty_generic_of (st ! a) else Some a) in
      case a' of None \<Rightarrow> Inl (GPanic NilType) | Some t \<Rightarrow>
        if OnlyOptional v then Inr (alloc st (Pointer st t NilOptional))
        else if OnlyNullable v then Inr (alloc st (Pointer st t NilNull))
        else if NullableOptional v then
          bind_res (boxType t \<lparr>gv_nullable = False, gv_optional = True\<rparr> st) (\<lambda>(b, st1).
            Inr (alloc st1 (Pointer st1 b NilNull)))
        else Inl (InfiniteRecursion sname fname))"

fun check_fields :: "nat \<Rightarrow> tref \<Rightarrow> nat \<Rightarrow> field list \<Rightarrow> store \<Rightarrow> gerr + store" where
  "check_fields n s i [] st = Inr st"
| "check_fields n s i (f # fs) st = (case fd_spec f of
       None \<Rightarrow> check_fields n s (Suc i) fs st
     | Some spec \<Rightarrow>
         bind_res (map_err GPanic (RecursiveTo n st s (fd_type f))) (\<lambda>rec.
         bind_res (if rec then bind_res (unbox_recursive (ty_name (st ! s)) (fd_name f) (field_variant spec) (the (fd_type f)) st)
                           (\<lambda>(b, st1). Inr (Some b, st1))
                   else Inr (fd_type f, st)) (\<lambda>(b, st1).
           check_fields n s (Suc i) fs
             (st1[s := (st1 ! s)\<lparr>ty_fields := (ty_fields (st1 ! s))[i := f\<lparr>fd_type := b\<rparr>]\<rparr>]))))"

definition checkStructRecursions :: "nat \<Rightarrow> tref \<Rightarrow> store \<Rightarrow> gerr + store" where
  "checkStructRecursions n s st = check_fields n s 0 (ty_fields (st ! s)) st"

section \<open>Primitive types\<close>

definition integer_formats :: "string smap" where
  "integer_formats = [('''', ''int''), (''int8'', ''int8''), (''int16'', ''int16''), (''int32'', ''int32''),
     (''int64'', ''int64''), (''uint'', ''uint''), (''uint8'', ''uint8''), (''uint16'', ''uint16''),
     (''uint32'', ''uint32''), (''uint64'', ''uint64''), (''unix'', ''time.Time''), (''unix-seconds'', ''time.Time''),
     (''unix-nano'', ''time.Time''), (''unix-micro'', ''time.Time''), (''unix-milli'', ''time.Time'')]"

definition number_formats :: "string smap" where
  "number_formats = [(''float'', ''float32''), (''double'', ''float64''), (''int32'', ''int32''),
     (''int64'', ''int64''), (''decimal'', ''decimal.Decimal''), ('''', ''float64'')]"

definition string_formats :: "string smap" where
  "string_formats = [(''byte'', ''[]byte''), (''base64'', ''[]byte''), (''date-time'', ''time.Time''),
     (''date'', ''time.Time''), (''time'', ''time.Time''), (''http-date'', ''time.Time''),
     (''duration'', ''time.Duration''), (''uuid'', ''uuid.UUID''), (''mac'', ''net.HardwareAddr''),
     (''ip'', ''netip.Addr''), (''ipv4'', ''netip.Addr''), (''ipv6'', ''netip.Addr''), (''uri'', ''url.URL''),
     (''password'', ''string''), (''email'', ''string''), (''binary'', ''string''), (''hostname'', ''string''),
     ('''', ''string''), (''int'', ''int''), (''int8'', ''int8''), (''int16'', ''int16''), (''int32'', ''int32''),
     (''int64'', ''int64''), (''uint'', ''uint''), (''uint8'', ''uint8''), (''uint16'', ''uint16''),
     (''uint32'', ''uint32''), (''uint64'', ''uint64''), (''unix'', ''time.Time''), (''unix-seconds'', ''time.Time''),
     (''unix-nano'', ''time.Time''), (''unix-micro'', ''time.Time''), (''unix-milli'', ''time.Time''),
     (''float32'', ''float32''), (''float64'', ''float64''), (''decimal'', ''decimal.Decimal'')]"

definition TypeFormatMapping :: "string smap smap" where
  "TypeFormatMapping = [(''integer'', integer_formats), (''number'', number_formats), (''string'', string_formats),
     (''boolean'', [('''', ''bool'')]), (''null'', [('''', ''struct{}'')])]"

definition format_lookup :: "string \<Rightarrow> string \<Rightarrow> string option" where
  "format_lookup typ format = (case map_of TypeFormatMapping typ of None \<Rightarrow> None | Some m \<Rightarrow> map_of m format)"

text \<open>An unknown format falls back to the type's default; an unknown type gives no primitive.\<close>

definition parseSimple :: "jschema \<Rightarrow> itype" where
  "parseSimple s =
     (let t = (case format_lookup (js_type s) (js_format s) of Some t \<Rightarrow> t
               | None \<Rightarrow> (case format_lookup (js_type s) [] of Some t \<Rightarrow> t | None \<Rightarrow> []))
      in Primitive t (Some (schema_view s)))"

text \<open>\<open>fmt.Sprint\<close> of a value of a scalar schema.\<close>

definition value_text :: "lower_env \<Rightarrow> jval \<Rightarrow> string" where
  "value_text E v = (case v of VString s \<Rightarrow> s | VInt i \<Rightarrow> itoa i | VBool b \<Rightarrow> if b then ''true'' else ''false''
     | VFloat f \<Rightarrow> le_float_text E f | _ \<Rightarrow> ''<nil>'')"

text \<open>A value of an enum, by its type; texts may be given as numbers or booleans and are coerced.\<close>

definition enum_value :: "lower_env \<Rightarrow> string \<Rightarrow> jval \<Rightarrow> jval option" where
  "enum_value E typ v =
     (if typ = ''integer'' then (case v of VInt i \<Rightarrow> Some v | _ \<Rightarrow> None)
      else if typ = ''number'' then (case v of VInt i \<Rightarrow> Some v | VFloat f \<Rightarrow> Some v | _ \<Rightarrow> None)
      else if typ = ''string'' then (case v of VString s \<Rightarrow> Some v | VInt i \<Rightarrow> Some (VString (value_text E v))
         | VFloat f \<Rightarrow> Some (VString (value_text E v)) | VBool b \<Rightarrow> Some (VString (value_text E v)) | _ \<Rightarrow> None)
      else if typ = ''boolean'' then (case v of VBool b \<Rightarrow> Some v | _ \<Rightarrow> None)
      else if v = VNull then Some v else None)"

fun enum_values :: "lower_env \<Rightarrow> string \<Rightarrow> jval list \<Rightarrow> nat \<Rightarrow> gerr + jval list" where
  "enum_values E typ [] i = Inr []"
| "enum_values E typ (v # vs) i = (case enum_value E typ v of
       None \<Rightarrow> Inl (EnumValueError i)
     | Some w \<Rightarrow> bind_res (enum_values E typ vs (Suc i)) (\<lambda>ws. Inr (w # ws)))"

definition validateEnumValues :: "lower_env \<Rightarrow> jschema \<Rightarrow> gerr + jval list" where
  "validateEnumValues E s =
     (if js_type s \<in> {''object'', ''array'', ''''} then Inl (NotImplemented ''non-primitive enum'')
      else if js_type s \<in> {''integer'', ''number'', ''string'', ''boolean'', ''null''}
      then enum_values E (js_type s) (js_enum s) 0
      else Inl (GPanic Unreachable))"

definition time_formats :: "string list" where
  "time_formats = [''date'', ''time'', ''date-time'', ''http-date'']"

definition enum_type :: "lower_env \<Rightarrow> string \<Rightarrow> itype \<Rightarrow> sref \<Rightarrow> sgen \<Rightarrow> itype lowered" where
  "enum_type E name t sa g =
     (let s = sg_schemas g ! sa in
      if js_format s \<noteq> [] \<and> (\<not> IsNumeric t \<and> js_type s \<noteq> ''string''
           \<or> js_type s = ''string'' \<and> js_format s \<in> set time_formats)
      then Inl (NotImplemented ''enum format'')
      else bind_res (validateEnumValues E s) (\<lambda>values.
           bind_res (map_err EnumNameError (enumVariantNameGen (le_namer E) name (map (value_text E) values))) (\<lambda>(_, names).
             let s' = s\<lparr>js_enum := values\<rparr> in
             Inr ((new_type KindEnum name)\<lparr>ty_primitive := ty_primitive t, ty_enum_variants := zip names values,
                    ty_schema := Some (schema_view s')\<rparr>,
                  put_schemas ((sg_schemas g)[sa := s']) g))))"

definition primitive_type :: "lower_env \<Rightarrow> string \<Rightarrow> sref \<Rightarrow> sgen \<Rightarrow> itype lowered" where
  "primitive_type E name sa g =
     (let s = sg_schemas g ! sa; t = parseSimple s in
      if js_const_set s \<or> js_enum s = [] then Inr (t, g) else enum_type E name t sa g)"

text \<open>The validators a scalar type gets from its schema.\<close>

definition scalar_validators :: "schema_lib \<Rightarrow> jschema \<Rightarrow> itype \<Rightarrow> gerr + itype" where
  "scalar_validators L s t =
     (let v = ty_validators t in
      bind_res (map_err ValidatorError
        (if js_type s = ''string'' then bind_res (SetString L s (vs_string v)) (\<lambda>x. Inr (v\<lparr>vs_string := x\<rparr>))
         else if js_type s = ''integer'' then bind_res (SetInt L s (vs_int v)) (\<lambda>x. Inr (v\<lparr>vs_int := x\<rparr>))
         else if js_type s = ''number'' then
           (if IsDecimal t then bind_res (SetDecimal L s (vs_decimal v)) (\<lambda>x. Inr (v\<lparr>vs_decimal := x\<rparr>))
            else bind_res (SetFloat L s (vs_float v)) (\<lambda>x. Inr (v\<lparr>vs_float := x\<rparr>)))
         else Inr v)) (\<lambda>v'.
        Inr (t\<lparr>ty_validators := v'\<lparr>vs_ogen := SetOgenValidate s (vs_ogen v')\<rparr>\<rparr>)))"

section \<open>Default values\<close>

fun unsupported_default :: "nat \<Rightarrow> sstore \<Rightarrow> sref \<Rightarrow> gerr + string" where
  "unsupported_default 0 st a = Inl GFuel"
| "unsupported_default (Suc n) st a =
     (if js_items (st ! a) \<noteq> [] then Inr ''tuple array defaults''
      else (case js_item (st ! a) of
          None \<Rightarrow> Inr ''array defaults with free-form items''
        | Some b \<Rightarrow>
            if js_type (st ! b) = ''array'' then unsupported_default n st b
            else if js_type (st ! b) = [] \<and> js_one_of (st ! b) = [] \<and> js_any_of (st ! b) = []
            then Inr ''array defaults with free-form items''
            else Inr []))"

fun check_all :: "('a \<Rightarrow> gerr option) \<Rightarrow> 'a list \<Rightarrow> gerr option" where
  "check_all f [] = None"
| "check_all f (x # xs) = (case f x of Some e \<Rightarrow> Some e | None \<Rightarrow> check_all f xs)"

text \<open>The value must have the type the schema declares, all the way down; fuel bounds the nesting of the value.\<close>

fun checkDefaultType :: "nat \<Rightarrow> sstore \<Rightarrow> sref option \<Rightarrow> jval \<Rightarrow> gerr option" where
  "checkDefaultType n st None v = None"
| "checkDefaultType 0 st (Some a) v = Some GFuel"
| "checkDefaultType (Suc n) st (Some a) v =
     (let s = st ! a; bad = Some (DefaultTypeError (js_type s)) in
      if v = VNull \<and> js_nullable s then None
      else if js_one_of s \<noteq> [] \<or> js_any_of s \<noteq> [] then None
      else if js_type s = ''object'' then (case v of
          VObject m \<Rightarrow>
            (case check_all (\<lambda>p. case map_of m (pr_name p) of None \<Rightarrow> None | Some pv \<Rightarrow> checkDefaultType n st (pr_schema p) pv)
                    (js_properties s) of
               Some e \<Rightarrow> Some e
             | None \<Rightarrow>
                 if js_item s = None then None
                 else check_all (\<lambda>(k, w). if k \<in> pr_name ` set (js_properties s) then None
                                          else checkDefaultType n st (js_item s) w) m)
        | _ \<Rightarrow> bad)
      else if js_type s = ''array'' then (case v of
          VArray vs \<Rightarrow> if js_item s = None then None else check_all (checkDefaultType n st (js_item s)) vs
        | _ \<Rightarrow> bad)
      else if js_type s = ''integer'' then (case v of VInt i \<Rightarrow> None | _ \<Rightarrow> bad)
      else if js_type s = ''number'' then (case v of VInt i \<Rightarrow> None | VFloat f \<Rightarrow> None | _ \<Rightarrow> bad)
      else if js_type s = ''string'' then (case v of VString x \<Rightarrow> None | _ \<Rightarrow> bad)
      else if js_type s = ''boolean'' then (case v of VBool b \<Rightarrow> None | _ \<Rightarrow> bad)
      else if js_type s = ''null'' then (if v = VNull then None else bad)
      else bad)"

text \<open>What keeps a default from being rendered; empty if nothing does.\<close>

definition default_problem :: "nat \<Rightarrow> sstore \<Rightarrow> sref \<Rightarrow> gerr + string" where
  "default_problem n st a =
     (let s = st ! a in
      if js_type s = ''object'' then Inr ''object defaults''
      else if js_type s = ''array'' then unsupported_default n st a
      else if js_type s = [] \<or> js_any_of s \<noteq> [] \<or> js_one_of s \<noteq> [] then Inr ''complex defaults''
      else Inr [])"

text \<open>An unsupported default that is ignored is dropped from the schema.\<close>

definition lower_default :: "lower_env \<Rightarrow> sref \<Rightarrow> sgen \<Rightarrow> gerr + sgen" where
  "lower_default E a g =
     (let st = sg_schemas g in
      if \<not> js_default_set (st ! a) then Inr g
      else bind_res (default_problem (le_fuel E) st a) (\<lambda>problem.
        if problem = [] then
          guard_res (checkDefaultType (le_fuel E) st (Some a) (js_default (st ! a))) (Inr g)
        else guard_res (le_fail E (NotImplemented problem))
          (Inr (put_schemas (st[a := (st ! a)\<lparr>js_default_set := False\<rparr>]) g))))"

section \<open>External types\<close>

text \<open>The first numbered alias of the package that is not taken.\<close>

fun free_alias :: "nat \<Rightarrow> nat \<Rightarrow> string \<Rightarrow> string set \<Rightarrow> string" where
  "free_alias 0 i pkg taken = pkg @ itoa (int i)"
| "free_alias (Suc n) i pkg taken =
     (if pkg @ itoa (int i) \<in> taken then free_alias n (Suc i) pkg taken else pkg @ itoa (int i))"

definition import_names :: "string smap \<Rightarrow> string list" where
  "import_names imports = map (\<lambda>(k, v). if v \<noteq> [] then v else path_base k) imports"

definition import_alias :: "string smap \<Rightarrow> external_type \<Rightarrow> string" where
  "import_alias imports ex =
     (case map_of imports (ex_package_path ex) of
        Some alias \<Rightarrow> alias
      | None \<Rightarrow>
          if ex_package_name ex \<in> set (import_names imports)
          then free_alias (length imports) 2 (ex_package_name ex) (set (import_names imports))
          else ex_import_alias ex)"

definition lower_external :: "lower_env \<Rightarrow> string \<Rightarrow> sref \<Rightarrow> sgen \<Rightarrow> tref lowered" where
  "lower_external E name sa g =
     bind_res (map_err ExternalError (External (le_load E) (schema_view (sg_schemas g ! sa)))) (\<lambda>t.
       let ex = ty_external t in
       if ex_package_path ex = [] then Inr (reg_new name t g)
       else
         let ex' = ex\<lparr>ex_import_alias := import_alias (sg_imports g) ex\<rparr>;
             g1 = g\<lparr>sg_imports := smap_set (sg_imports g) (ex_package_path ex) (ex_import_alias ex')\<rparr>
         in Inr (reg_new name (t\<lparr>ty_external := ex', ty_primitive := external_primitive ex'\<rparr>) g1))"

end
