(* ===== verification/Sums.thy ===== *)
theory Sums
  imports Lowering
begin

text \<open>
  Sum types (schema_gen_sum.go): the identity of field types, which kind of discriminator tells the variants
  apart, explicit and implicit mappings, and the inference of a discriminator from the fields and enum values that are
  unique to a variant. A Go map that is ranged over is a list in the order of the loop.
\<close>

section \<open>Identity of field types\<close>

text \<open>Wrappers are looked through; what is left is the type that decides.\<close>

fun unwrap_generic :: "nat \<Rightarrow> store \<Rightarrow> tref \<Rightarrow> terr + tref" where
  "unwrap_generic 0 st a = Inl TOutOfFuel"
| "unwrap_generic (Suc n) st a =
     (if ty_kind (st ! a) \<noteq> KindGeneric then Inr a
      else (case ty_generic_of (st ! a) of None \<Rightarrow> Inr a | Some b \<Rightarrow> unwrap_generic n st b))"

definition primitive_id :: "string \<Rightarrow> string" where
  "primitive_id p =
     (if p = ''bool'' then ''boolean''
      else if p \<in> set integer_primitives then ''integer''
      else if p = ''float32'' \<or> p = ''float64'' then ''number''
      else if p = ''string'' \<or> p = ''[]byte'' then ''string''
      else if p = ''struct{}'' then ''null''
      else ''primitive_'' @ p)"

fun field_type_id :: "nat \<Rightarrow> store \<Rightarrow> tref option \<Rightarrow> terr + string" where
  "field_type_id n st None = Inr ''any''"
| "field_type_id 0 st (Some a) = Inl TOutOfFuel"
| "field_type_id (Suc n) st (Some a) =
     bind_res (unwrap_generic (Suc (length st)) st a) (\<lambda>b.
       let t = st ! b in case ty_kind t of
         KindAny \<Rightarrow> Inr ''any''
       | KindPrimitive \<Rightarrow> Inr (primitive_id (ty_primitive t))
       | KindArray \<Rightarrow> bind_res (field_type_id n st (ty_item t)) (\<lambda>i. Inr (''array['' @ i @ '']''))
       | KindEnum \<Rightarrow> Inr (''enum_'' @ ty_name t)
       | KindStruct \<Rightarrow> Inr ''object''
       | KindMap \<Rightarrow> bind_res (field_type_id n st (ty_item t)) (\<lambda>i. Inr (''map['' @ i @ '']''))
       | KindSum \<Rightarrow> Inr ''sum''
       | KindAlias \<Rightarrow> if ty_alias_to t = None then Inr ''alias'' else field_type_id n st (ty_alias_to t)
       | KindPointer \<Rightarrow> if ty_pointer_to t = None then Inr ''pointer'' else field_type_id n st (ty_pointer_to t)
       | k \<Rightarrow> Inr (kind_text k))"

definition getFieldTypeID :: "store \<Rightarrow> tref option \<Rightarrow> terr + string" where
  "getFieldTypeID st t = field_type_id (Suc (length st)) st t"

definition jx_type_of_id :: "bool \<Rightarrow> string \<Rightarrow> string" where
  "jx_type_of_id is_string i =
     (if i = ''boolean'' then ''jx.Bool''
      else if i = ''integer'' \<or> i = ''number'' then (if is_string then ''jx.String'' else ''jx.Number'')
      else if i = ''string'' then ''jx.String''
      else if i = ''null'' then ''jx.Null''
      else if i = ''object'' then ''jx.Object''
      else if has_prefix i ''array['' then ''jx.Array''
      else if has_prefix i ''map['' then ''jx.Object''
      else if has_prefix i ''enum_'' then ''jx.String''
      else [])"

text \<open>The schema of the field type is read after its identity; a field without type panics there.\<close>

definition jxTypeForFieldType :: "store \<Rightarrow> tref option \<Rightarrow> terr + string" where
  "jxTypeForFieldType st t =
     bind_res (getFieldTypeID st t) (\<lambda>i. case t of
       None \<Rightarrow> Inr (jx_type_of_id False i)
     | Some a \<Rightarrow> Inr (jx_type_of_id (schema_type_is (st ! a) ''string'') i))"

text \<open>Element identity and JSON type of an array, both empty for other types or without \<open>Item\<close>.\<close>

definition trim_suffix :: "string \<Rightarrow> string \<Rightarrow> string" where
  "trim_suffix s p = (if has_suffix s p then take (length s - length p) s else s)"

definition getArrayElementTypeInfo :: "store \<Rightarrow> tref option \<Rightarrow> terr + string \<times> string" where
  "getArrayElementTypeInfo st t =
     bind_res (getFieldTypeID st t) (\<lambda>i.
       case t of None \<Rightarrow> Inr ([], []) | Some a \<Rightarrow>
         if \<not> has_prefix i ''array['' \<or> ty_item (st ! a) = None then Inr ([], [])
         else bind_res (jxTypeForFieldType st (ty_item (st ! a))) (\<lambda>e.
           Inr (trim_suffix (trim_prefix i ''array['') '']'', e)))"

section \<open>Discriminator by JSON type\<close>

definition variant_json_type :: "bool \<Rightarrow> store \<Rightarrow> tref option \<Rightarrow> terr + string" where
  "variant_json_type isOneOf st v =
     bind_res (json_type (Suc (length st)) st v) (\<lambda>typ. case v of
       None \<Rightarrow> Inl NilType
     | Some a \<Rightarrow> Inr (if schema_type_is (st ! a) ''integer'' \<and> typ = ''Number'' \<and> \<not> isOneOf then ''Integer'' else typ))"

fun collect_variant_types :: "nat \<Rightarrow> bool \<Rightarrow> store \<Rightarrow> tref option list \<Rightarrow> string set \<Rightarrow> terr + string set" where
  "collect_variant_types n isOneOf st [] types = Inr types"
| "collect_variant_types 0 isOneOf st (v # vs) types = Inl TOutOfFuel"
| "collect_variant_types (Suc n) isOneOf st (v # vs) types =
     bind_res (variant_json_type isOneOf st v) (\<lambda>typ.
     bind_res (if typ \<noteq> [] then Inr (insert typ types)
               else if ty_kind (st ! the v) = KindSum
               then collect_variant_types n isOneOf st (ty_sum_of (st ! the v)) types
               else Inr types) (\<lambda>types'.
       collect_variant_types n isOneOf st vs types'))"

text \<open>
  The loop over the variants: whether the types are still distinguishable, the types so far, and whether
  a variant is itself a sum. The types of such a variant are added without a check.
\<close>

fun type_discriminator_loop :: "nat \<Rightarrow> bool \<Rightarrow> store \<Rightarrow> tref option list \<Rightarrow> string set \<Rightarrow> bool \<Rightarrow> terr + (string set \<times> bool) option" where
  "type_discriminator_loop n isOneOf st [] types hasSum = Inr (Some (types, hasSum))"
| "type_discriminator_loop n isOneOf st (v # vs) types hasSum =
     bind_res (variant_json_type isOneOf st v) (\<lambda>typ.
       let t = st ! the v in
       if ty_kind t = KindSum then
         bind_res (json_sum st t) (\<lambda>k.
         bind_res (if k = SumJSONDiscriminator \<or> k = SumJSONFields then Inr (insert ''Object'' types)
                   else collect_variant_types n isOneOf st (ty_sum_of t) types) (\<lambda>types'.
           type_discriminator_loop n isOneOf st vs types' True))
       else if typ = [] \<or> typ \<in> types then Inr None
       else type_discriminator_loop n isOneOf st vs (insert typ types) hasSum)"

definition canUseTypeDiscriminator :: "nat \<Rightarrow> bool \<Rightarrow> store \<Rightarrow> tref option list \<Rightarrow> terr + bool" where
  "canUseTypeDiscriminator n isOneOf st variants =
     bind_res (type_discriminator_loop n isOneOf st variants {} False) (\<lambda>r. case r of
       None \<Rightarrow> Inr False
     | Some (types, hasSum) \<Rightarrow> Inr (\<not> (''Integer'' \<in> types \<and> ''Number'' \<in> types \<and> hasSum)))"

section \<open>Explicit and implicit mappings\<close>

definition fields_named :: "string \<Rightarrow> field list \<Rightarrow> field list" where
  "fields_named prop fs = filter (\<lambda>f. case fd_spec f of Some s \<Rightarrow> fp_name s = prop | None \<Rightarrow> False) fs"

text \<open>The type of the last field that stands for the discriminator property.\<close>

definition discriminator_type :: "string \<Rightarrow> itype \<Rightarrow> tref option" where
  "discriminator_type prop t = (case rev (fields_named prop (ty_fields t)) of [] \<Rightarrow> None | f # _ \<Rightarrow> fd_type f)"

definition variant_ref :: "sstore \<Rightarrow> itype \<Rightarrow> sref option \<Rightarrow> gerr + ref_key" where
  "variant_ref ss t p = (case ty_schema t of
       Some s \<Rightarrow> Inr (ts_ref s)
     | None \<Rightarrow> (case p of None \<Rightarrow> Inl (GPanic NilType) | Some a \<Rightarrow> Inr (js_ref (ss ! a))))"

text \<open>
  The first variant with the reference of a mapping. \<open>variants\<close> is indexed like the sum's variants, which may have a
  leading null variant more: past its end the index panics.
\<close>

fun find_variant :: "store \<Rightarrow> sstore \<Rightarrow> string \<Rightarrow> ref_key \<Rightarrow> tref option list \<Rightarrow> sref option list \<Rightarrow> nat \<Rightarrow> gerr + (tref \<times> tref option) option" where
  "find_variant st ss prop r [] variants i = Inr None"
| "find_variant st ss prop r (None # vs) variants i = Inl (GPanic NilType)"
| "find_variant st ss prop r (Some a # vs) variants i =
     (let t = st ! a in
      if ty_kind t \<noteq> KindStruct \<and> ty_kind t \<noteq> KindMap then Inl (NotImplemented ''unsupported sum type variant'')
      else bind_res (if ty_schema t = None \<and> length variants \<le> i then Inl (GPanic NilType)
                     else variant_ref ss t (if i < length variants then variants ! i else None)) (\<lambda>vr.
             if vr = r then Inr (Some (a, discriminator_type prop t))
             else find_variant st ss prop r vs variants (Suc i)))"

text \<open>The mappings found before the first error, and that error.\<close>

fun explicit_mappings :: "store \<Rightarrow> sstore \<Rightarrow> string \<Rightarrow> (string \<times> sref) list \<Rightarrow> tref option list \<Rightarrow> sref option list \<Rightarrow> sum_spec_map list \<times> gerr option" where
  "explicit_mappings st ss prop [] sum_of variants = ([], None)"
| "explicit_mappings st ss prop ((k, v) # ms) sum_of variants =
     (case find_variant st ss prop (js_ref (ss ! v)) sum_of variants 0 of
        Inl e \<Rightarrow> ([], Some e)
      | Inr None \<Rightarrow> ([], Some (MappingNotFound k))
      | Inr (Some (a, d)) \<Rightarrow>
          let (rest, e) = explicit_mappings st ss prop ms sum_of variants
          in (\<lparr>sm_key = k, sm_type = a, sm_discriminator_type = d, sm_name = []\<rparr> # rest, e))"

text \<open>The JSON type of the discriminator field per variant, by the name of the variant.\<close>

fun discriminator_field_types :: "store \<Rightarrow> string \<Rightarrow> tref list \<Rightarrow> string smap \<Rightarrow> gerr + string smap" where
  "discriminator_field_types st prop [] m = Inr m"
| "discriminator_field_types st prop (a # as) m =
     (case find (\<lambda>f. fd_json f = prop) (json_fields [] (st ! a)) of
        None \<Rightarrow> discriminator_field_types st prop as m
      | Some f \<Rightarrow> bind_res (map_err GPanic (jxTypeForFieldType st (fd_type f))) (\<lambda>jx.
          discriminator_field_types st prop as (smap_set m (ty_name (st ! a)) jx)))"

text \<open>\<open>allSameAndEmpty\<close>: the loop gives up at the first type that differs from a first, non-empty one.\<close>

fun same_and_empty :: "string list \<Rightarrow> string \<Rightarrow> bool \<Rightarrow> bool" where
  "same_and_empty [] first ok = ok"
| "same_and_empty (x # xs) first ok =
     (if first = [] then same_and_empty xs x (ok \<and> x = [])
      else if x \<noteq> first then False
      else same_and_empty xs first (ok \<and> x = []))"

definition value_based :: "string smap \<Rightarrow> bool" where
  "value_based m \<longleftrightarrow> 1 < length m \<and> same_and_empty (map snd m) [] True"

definition name_mappings :: "lower_env \<Rightarrow> string \<Rightarrow> sum_spec_map list \<Rightarrow> gerr + sum_spec_map list" where
  "name_mappings E sum_name ms =
     bind_res (map_err EnumNameError (discriminatorMappingNameGen (le_namer E) sum_name (map sm_key ms))) (\<lambda>(_, names).
       Inr (map (\<lambda>(m, n). m\<lparr>sm_name := n\<rparr>) (zip ms names)))"

definition sort_mappings :: "sum_spec_map list \<Rightarrow> sum_spec_map list" where
  "sort_mappings ms = sort_key sm_key ms"

text \<open>
  \<open>handleExplicitDiscriminator\<close>: whether the discriminator was handled, with the sum's specification. An error about a
  mapping is reported as not handled, which makes the callers drop it; the mappings found before it stay.
\<close>

definition finish_discriminator :: "lower_env \<Rightarrow> store \<Rightarrow> itype \<Rightarrow> string \<Rightarrow> sum_spec_map list \<Rightarrow> gerr + bool \<times> sum_spec" where
  "finish_discriminator E st sm prop ms =
     bind_res (discriminator_field_types st prop (map sm_type ms) []) (\<lambda>types.
       if value_based types then Inl (NotImplemented ''value-based discriminator'')
       else bind_res (name_mappings E (ty_name sm) ms) (\<lambda>named.
         Inr (True, (ty_sum_spec sm)\<lparr>ss_discriminator := prop, ss_mapping := sort_mappings named\<rparr>)))"

definition handleExplicitDiscriminator :: "lower_env \<Rightarrow> store \<Rightarrow> sstore \<Rightarrow> itype \<Rightarrow> jschema \<Rightarrow> sref option list \<Rightarrow> gerr + bool \<times> sum_spec" where
  "handleExplicitDiscriminator E st ss sm s variants =
     (case js_discriminator s of
        None \<Rightarrow> Inr (False, ty_sum_spec sm)
      | Some d \<Rightarrow>
          (case explicit_mappings st ss (di_property d) (di_mapping d) (ty_sum_of sm) variants of
             (ms, Some (GPanic e)) \<Rightarrow> Inl (GPanic e)
           | (ms, Some e) \<Rightarrow> Inr (False, (ty_sum_spec sm)\<lparr>ss_mapping := ms\<rparr>)
           | ([], None) \<Rightarrow> Inr (False, ty_sum_spec sm)
           | (ms, None) \<Rightarrow> finish_discriminator E st sm (di_property d) ms))"

text \<open>The value of the discriminator that a variant fixes by a constant or an enum of one value.\<close>

definition implicitDiscriminatorKey :: "store \<Rightarrow> itype \<Rightarrow> string \<Rightarrow> string option" where
  "implicitDiscriminatorKey st t prop = (case fields_named prop (ty_fields t) of
       [] \<Rightarrow> None
     | f # _ \<Rightarrow> (case field_const f of
           Some (VString v) \<Rightarrow> Some v
         | _ \<Rightarrow> (case fd_type f of None \<Rightarrow> None | Some a \<Rightarrow>
             if ty_kind (st ! a) = KindEnum then
               (case ty_enum_variants (st ! a) of [(_, VString v)] \<Rightarrow> Some v | _ \<Rightarrow> None)
             else None)))"

definition schemaName :: "ref_key \<Rightarrow> string option" where
  "schemaName r = (case index_byte (snd r) CHR ''#'' of
       None \<Rightarrow> None
     | Some i \<Rightarrow>
         if drop (Suc i) (snd r) \<noteq> [] \<and> hd (drop (Suc i) (snd r)) = CHR ''/'' \<and> drop (Suc (Suc i)) (snd r) \<noteq> []
         then Some (path_base (drop (Suc (Suc i)) (snd r))) else None)"

definition implicit_key :: "store \<Rightarrow> sstore \<Rightarrow> string \<Rightarrow> itype \<Rightarrow> sref option \<Rightarrow> gerr + string" where
  "implicit_key st ss prop t p = bind_res (variant_ref ss t p) (\<lambda>r.
     case implicitDiscriminatorKey st t prop of
       Some k \<Rightarrow> Inr k
     | None \<Rightarrow> (case schemaName r of None \<Rightarrow> Inl (NotImplemented ''complicated reference'') | Some k \<Rightarrow> Inr k))"

fun implicit_mappings :: "store \<Rightarrow> sstore \<Rightarrow> string \<Rightarrow> tref option list \<Rightarrow> sref option list \<Rightarrow> nat \<Rightarrow> string set \<Rightarrow> gerr + sum_spec_map list" where
  "implicit_mappings st ss prop [] variants i keys = Inr []"
| "implicit_mappings st ss prop (None # vs) variants i keys = Inl (GPanic NilType)"
| "implicit_mappings st ss prop (Some a # vs) variants i keys =
     bind_res (if ty_schema (st ! a) = None \<and> length variants \<le> i then Inl (GPanic NilType)
               else implicit_key st ss prop (st ! a) (if i < length variants then variants ! i else None)) (\<lambda>k.
       if k \<in> keys then Inl (NotImplemented ''duplicate mapping key'')
       else bind_res (implicit_mappings st ss prop vs variants (Suc i) (insert k keys)) (\<lambda>rest.
         Inr (\<lparr>sm_key = k, sm_type = a, sm_discriminator_type = None, sm_name = []\<rparr> # rest)))"

definition implicit_spec :: "lower_env \<Rightarrow> store \<Rightarrow> sstore \<Rightarrow> itype \<Rightarrow> string \<Rightarrow> sref option list \<Rightarrow> gerr + sum_spec" where
  "implicit_spec E st ss sm prop variants =
     bind_res (implicit_mappings st ss prop (ty_sum_of sm) variants 0 {}) (\<lambda>ms.
       if ms = [] then Inr (ty_sum_spec sm)
       else bind_res (name_mappings E (ty_name sm) ms) (\<lambda>named.
         Inr ((ty_sum_spec sm)\<lparr>ss_discriminator := prop, ss_mapping := sort_mappings named\<rparr>)))"

end
