(* ===== verification/SumFields.thy ===== *)
theory SumFields
  imports Sums
begin

text \<open>
  The fourth way to tell variants apart (\<open>oneOf\<close> in schema_gen_sum.go): by fields, given by name and type, that only one variant
  has, and by the values of an enum field that all variants have. The maps keyed by the name of a
  variant or field are association lists.
\<close>

section \<open>Unique fields\<close>

type_synonym signature = "string \<times> string"

fun field_signatures :: "store \<Rightarrow> field list \<Rightarrow> gerr + signature list" where
  "field_signatures st [] = Inr []"
| "field_signatures st (f # fs) =
     bind_res (map_err GPanic (getFieldTypeID st (fd_type f))) (\<lambda>i.
     bind_res (field_signatures st fs) (\<lambda>sigs. Inr ((fd_json f, i) # sigs)))"

fun variant_signatures :: "store \<Rightarrow> tref list \<Rightarrow> signature list smap \<Rightarrow> gerr + signature list smap" where
  "variant_signatures st [] m = Inr m"
| "variant_signatures st (a # as) m =
     (if ty_kind (st ! a) \<noteq> KindStruct then Inl (NotImplemented ''discriminator inference'')
      else bind_res (field_signatures st (json_fields [] (st ! a))) (\<lambda>sigs.
             variant_signatures st as (smap_set m (ty_name (st ! a)) sigs)))"

text \<open>A signature is common if two variants of different names have it.\<close>

definition common_signature :: "signature list smap \<Rightarrow> signature \<Rightarrow> bool" where
  "common_signature m sig \<longleftrightarrow>
     list_ex (\<lambda>(k, sigs). sig \<in> set sigs \<and> list_ex (\<lambda>(k', sigs'). k' \<noteq> k \<and> sig \<in> set sigs') m) m"

definition unique_signatures :: "signature list smap \<Rightarrow> signature list smap" where
  "unique_signatures m = map (\<lambda>(k, sigs). (k, filter (\<lambda>sig. \<not> common_signature m sig) sigs)) m"

definition signatures_of :: "signature list smap \<Rightarrow> string \<Rightarrow> signature list" where
  "signatures_of m k = (case map_of m k of Some sigs \<Rightarrow> sigs | None \<Rightarrow> [])"

definition no_unique_fields :: "signature list smap \<Rightarrow> string list \<Rightarrow> string list" where
  "no_unique_fields uniq names = filter (\<lambda>k. signatures_of uniq k = []) names"

text \<open>At most one variant may do without a unique field; it becomes the default.\<close>

definition default_variant :: "signature list smap \<Rightarrow> string list \<Rightarrow> gerr + string" where
  "default_variant uniq names =
     (let without = remdups (no_unique_fields uniq names) in
      if 1 < length without then Inl (AlikeVariants without)
      else Inr (case no_unique_fields uniq names of [] \<Rightarrow> [] | k # _ \<Rightarrow> k))"

section \<open>Filling the specification\<close>

definition field_nullable :: "store \<Rightarrow> tref option \<Rightarrow> bool" where
  "field_nullable st t = (case t of None \<Rightarrow> False | Some a \<Rightarrow>
     ty_kind (st ! a) = KindGeneric \<and> gv_nullable (ty_variant (st ! a))
     \<or> ty_kind (st ! a) = KindPointer \<and> ty_nil (st ! a) = NilNull)"

text \<open>\<open>Unique\<close> and \<open>UniqueFieldTypes\<close> of the variant, which every sum it is part of writes to.\<close>

definition add_unique :: "tref \<Rightarrow> field \<Rightarrow> string \<Rightarrow> store \<Rightarrow> store" where
  "add_unique a f jx st =
     (let spec = ty_sum_spec (st ! a);
          spec1 = (if list_ex (\<lambda>g. fd_json g = fd_json f) (ss_unique spec) then spec
                   else spec\<lparr>ss_unique := ss_unique spec @ [f]\<rparr>);
          spec2 = (if jx = [] then spec1
                   else spec1\<lparr>ss_unique_field_types := smap_set (ss_unique_field_types spec1) (fd_json f) jx\<rparr>)
      in st[a := (st ! a)\<lparr>ty_sum_spec := spec2\<rparr>])"

definition add_variant :: "string \<Rightarrow> unique_variant \<Rightarrow> unique_variant list smap \<Rightarrow> unique_variant list smap" where
  "add_variant name v m = smap_set m name ((case map_of m name of Some vs \<Rightarrow> vs | None \<Rightarrow> []) @ [v])"

fun fill_fields :: "string \<Rightarrow> signature list smap \<Rightarrow> tref \<Rightarrow> field list \<Rightarrow> store \<times> unique_variant list smap \<Rightarrow> gerr + store \<times> unique_variant list smap" where
  "fill_fields sum_name uniq a [] acc = Inr acc"
| "fill_fields sum_name uniq a (f # fs) (st, m) =
     bind_res (map_err GPanic (getFieldTypeID st (fd_type f))) (\<lambda>i.
       if (fd_json f, i) \<notin> set (signatures_of uniq (ty_name (st ! a))) then fill_fields sum_name uniq a fs (st, m)
       else
         bind_res (map_err GPanic (jxTypeForFieldType st (fd_type f))) (\<lambda>jx.
         bind_res (map_err GPanic (getArrayElementTypeInfo st (fd_type f))) (\<lambda>(elem_id, elem_jx).
           fill_fields sum_name uniq a fs
             (add_unique a f jx st,
              add_variant (fd_json f)
                \<lparr>uv_name = ty_name (st ! a), uv_type = ty_name (st ! a) @ sum_name, uv_field_type = jx,
                  uv_nullable = field_nullable st (fd_type f), uv_elem_type = elem_jx, uv_elem_type_id = elem_id\<rparr> m))))"

fun fill_variants :: "string \<Rightarrow> signature list smap \<Rightarrow> tref list \<Rightarrow> store \<times> unique_variant list smap \<Rightarrow> gerr + store \<times> unique_variant list smap" where
  "fill_variants sum_name uniq [] acc = Inr acc"
| "fill_variants sum_name uniq (a # as) (st, m) =
     bind_res (fill_fields sum_name uniq a (json_fields [] (st ! a)) (st, m)) (fill_variants sum_name uniq as)"

text \<open>The variants in the order of their names.\<close>

definition variants_by_name :: "store \<Rightarrow> tref list \<Rightarrow> tref list" where
  "variants_by_name st as = sort_key (\<lambda>a. ty_name (st ! a)) as"

section \<open>Discriminating values\<close>

datatype value_use = CannotUse | Overlap "string list" | UseValues "string smap"

text \<open>The type below generic and pointer wrappers.\<close>

fun unwrap_type :: "nat \<Rightarrow> store \<Rightarrow> tref \<Rightarrow> terr + tref" where
  "unwrap_type 0 st a = Inl TOutOfFuel"
| "unwrap_type (Suc n) st a =
     (let t = st ! a in
      if ty_kind t = KindGeneric then (case ty_generic_of t of Some b \<Rightarrow> unwrap_type n st b | None \<Rightarrow> Inr a)
      else if ty_kind t = KindPointer then (case ty_pointer_to t of Some b \<Rightarrow> unwrap_type n st b | None \<Rightarrow> Inr a)
      else Inr a)"

fun string_values :: "(string \<times> jval) list \<Rightarrow> string list option" where
  "string_values [] = Some []"
| "string_values ((n, VString s) # vs) = map_option (Cons s) (string_values vs)"
| "string_values (v # vs) = None"

text \<open>The values of the field in one variant: none if the variant has no such field or it is no enum of texts.\<close>

definition variant_values :: "store \<Rightarrow> string \<Rightarrow> tref list \<Rightarrow> string \<Rightarrow> unique_variant \<Rightarrow> gerr + string list option" where
  "variant_values st sum_name sum_of field_name v =
     (case find (\<lambda>a. ty_name (st ! a) @ sum_name = uv_type v) sum_of of
        None \<Rightarrow> Inr None
      | Some a \<Rightarrow>
          (case find (\<lambda>f. fd_json f = field_name) (json_fields [] (st ! a)) of
             None \<Rightarrow> Inr None
           | Some f \<Rightarrow>
               (case fd_type f of None \<Rightarrow> Inr None | Some t \<Rightarrow>
                  bind_res (map_err GPanic (unwrap_type (Suc (length st)) st t)) (\<lambda>b.
                    if ty_kind (st ! b) \<noteq> KindEnum then Inr None
                    else (case string_values (ty_enum_variants (st ! b)) of
                        Some (x # xs) \<Rightarrow> Inr (Some (x # xs))
                      | _ \<Rightarrow> Inr None)))))"

fun all_values :: "store \<Rightarrow> string \<Rightarrow> tref list \<Rightarrow> string \<Rightarrow> unique_variant list \<Rightarrow> string list smap \<Rightarrow> gerr + string list smap option" where
  "all_values st sum_name sum_of field_name [] m = Inr (Some m)"
| "all_values st sum_name sum_of field_name (v # vs) m =
     bind_res (variant_values st sum_name sum_of field_name v) (\<lambda>r. case r of
       None \<Rightarrow> Inr None
     | Some xs \<Rightarrow> all_values st sum_name sum_of field_name vs (smap_set m (uv_type v) xs))"

text \<open>Values that two variants share.\<close>

definition shared_values :: "string list smap \<Rightarrow> string list" where
  "shared_values m = sort (remdups (filter
     (\<lambda>x. 1 < length (filter (\<lambda>(_, xs). x \<in> set xs) m)) (concat (map snd m))))"

definition value_table :: "string list smap \<Rightarrow> string smap" where
  "value_table m = concat (map (\<lambda>(k, xs). map (\<lambda>x. (x, k)) (remdups xs)) m)"

definition canUseValueDiscrimination :: "store \<Rightarrow> string \<Rightarrow> tref list \<Rightarrow> string \<Rightarrow> unique_variant list \<Rightarrow> gerr + value_use" where
  "canUseValueDiscrimination st sum_name sum_of field_name vs =
     (if length vs < 2 then Inr CannotUse
      else bind_res (all_values st sum_name sum_of field_name vs []) (\<lambda>r. case r of
          None \<Rightarrow> Inr CannotUse
        | Some m \<Rightarrow>
            if length m \<noteq> length vs then Inr CannotUse
            else if shared_values m \<noteq> [] then Inr (Overlap (shared_values m))
            else Inr (UseValues (value_table m))))"

section \<open>Fields that cannot discriminate\<close>

text \<open>Some variant has a field whose name no variant of another name has.\<close>

definition other_unique_fields :: "store \<Rightarrow> tref list \<Rightarrow> bool" where
  "other_unique_fields st sum_of =
     list_ex (\<lambda>a. list_ex (\<lambda>f. \<not> list_ex (\<lambda>b. ty_name (st ! b) \<noteq> ty_name (st ! a)
         \<and> list_ex (\<lambda>g. fd_json g = fd_json f) (json_fields [] (st ! b))) sum_of)
       (json_fields [] (st ! a))) sum_of"

definition arrays_differ :: "unique_variant list \<Rightarrow> bool" where
  "arrays_differ vs \<longleftrightarrow> list_all (\<lambda>v. uv_field_type v = ''jx.Array'') vs
     \<and> 1 < length (remdups (filter (\<lambda>t. t \<noteq> []) (map uv_elem_type vs)))"

text \<open>The state of the check: the fields kept, the value discriminators, and the fields that failed.\<close>

record check_state =
  ck_fields :: "unique_variant list smap"
  ck_values :: "value_discriminator smap"
  ck_failed :: "string list"

definition check_field :: "store \<Rightarrow> string \<Rightarrow> tref list \<Rightarrow> string \<times> unique_variant list \<Rightarrow> check_state \<Rightarrow> gerr + check_state" where
  "check_field st sum_name sum_of = (\<lambda>(name, vs) c.
     if length vs < 2 \<or> 1 < length (remdups (filter (\<lambda>t. t \<noteq> []) (map uv_field_type vs))) then Inr c
     else bind_res (canUseValueDiscrimination st sum_name sum_of name vs) (\<lambda>r. case r of
         Overlap _ \<Rightarrow> Inr (c\<lparr>ck_failed := ck_failed c @ [name]\<rparr>)
       | UseValues m \<Rightarrow>
           Inr (c\<lparr>ck_values := smap_set (ck_values c) name \<lparr>vd_field = name, vd_values = m\<rparr>,
                  ck_fields := filter (\<lambda>(k, _). k \<noteq> name) (ck_fields c)\<rparr>)
       | CannotUse \<Rightarrow>
           if arrays_differ vs \<and> other_unique_fields st sum_of then Inr c
           else Inr (c\<lparr>ck_failed := ck_failed c @ [name]\<rparr>)))"

fun check_all_fields :: "store \<Rightarrow> string \<Rightarrow> tref list \<Rightarrow> unique_variant list smap \<Rightarrow> check_state \<Rightarrow> gerr + check_state" where
  "check_all_fields st sum_name sum_of [] c = Inr c"
| "check_all_fields st sum_name sum_of (e # es) c =
     bind_res (check_field st sum_name sum_of e c) (check_all_fields st sum_name sum_of es)"

section \<open>The inference\<close>

text \<open>The specification of the sum at \<open>a\<close>; the variants are written to on the way.\<close>

definition infer_fields :: "tref \<Rightarrow> tref list \<Rightarrow> store \<Rightarrow> gerr + store" where
  "infer_fields a variants st =
     bind_res (variant_signatures st variants []) (\<lambda>sigs.
     let uniq = unique_signatures sigs; sum_name = ty_name (st ! a) in
     bind_res (default_variant uniq (map (\<lambda>v. ty_name (st ! v)) variants)) (\<lambda>dflt.
     bind_res (fill_variants sum_name uniq (variants_by_name st variants) (st, [])) (\<lambda>(st1, fields).
     bind_res (check_all_fields st1 sum_name variants fields \<lparr>ck_fields = fields, ck_values = [], ck_failed = []\<rparr>) (\<lambda>c.
       if ck_failed c \<noteq> [] \<and> ck_values c = []
       then Inl (NotImplemented ''type-based discrimination with same jxType'')
       else Inr (st1[a := (st1 ! a)\<lparr>ty_sum_spec := (ty_sum_spec (st1 ! a))\<lparr>
                   ss_default_mapping := (if dflt = [] then ss_default_mapping (ty_sum_spec (st1 ! a)) else dflt),
                   ss_unique_fields := ck_fields c, ss_value_discriminators := ck_values c\<rparr>\<rparr>])))))"

end
