(* ===== verification/SchemaGen.thy ===== *)
theory SchemaGen
  imports SumFields
begin

text \<open>
  The lowering of a schema to a type: \<open>generate\<close> and \<open>generate2\<close> of internal/lowering/schema_gen.go and the sums of
  schema_gen_sum.go. Both call each other and themselves, so each branch is a function of the two
  for the level below, and the recursion is tied at the end. The depth counts the calls of \<open>generate\<close>,
  which the code limits; the fuel counts the calls of \<open>generate2\<close>, which it does not.
\<close>

type_synonym generate_fn = "string \<Rightarrow> sref option \<Rightarrow> bool \<Rightarrow> sgen \<Rightarrow> tref lowered"
type_synonym generate2_fn = "string \<Rightarrow> sref option \<Rightarrow> sgen \<Rightarrow> tref lowered"

definition lift_store :: "gerr + 'a \<times> store \<Rightarrow> sgen \<Rightarrow> 'a lowered" where
  "lift_store r g = bind_res r (\<lambda>(x, st). Inr (x, put_store st g))"

definition any_new :: "sref option \<Rightarrow> sgen \<Rightarrow> tref \<times> sgen" where
  "any_new p g = new_itype (Any (schema_view_of p g)) g"

section \<open>Objects\<close>

text \<open>A field of the struct, unless its name is taken.\<close>

definition addField :: "tref \<Rightarrow> field \<Rightarrow> sgen \<Rightarrow> gerr + sgen" where
  "addField s f g =
     (if fd_name f \<in> fd_name ` set (ty_fields (sg_store g ! s)) then Inl (FieldConflict (fd_name f))
      else Inr (update_type s (\<lambda>t. t\<lparr>ty_fields := ty_fields t @ [f]\<rparr>) g))"

definition property_field_name :: "lower_env \<Rightarrow> jproperty \<Rightarrow> nat \<Rightarrow> gerr + string" where
  "property_field_name E p i = (case pr_go_name p of
       Some n \<Rightarrow> Inr n
     | None \<Rightarrow>
         let n = trim_space (pr_name p) in
         sg_pascal_special E [if n = [] then ''Field'' @ itoa (int i) else n])"

text \<open>The specification of a field; reading the tags of a property without schema panics.\<close>

definition property_spec :: "jproperty \<Rightarrow> sgen \<Rightarrow> gerr + field_spec" where
  "property_spec p g = (case pr_schema p of
       None \<Rightarrow> Inl (GPanic NilType)
     | Some a \<Rightarrow>
         let s = sg_schemas g ! a in
         Inr \<lparr>fp_name = pr_name p, fp_required = pr_required p, fp_nullable = js_nullable s,
               fp_const = (if js_const_set s then Some (js_const s) else None)\<rparr>)"

fun lower_properties :: "lower_env \<Rightarrow> generate_fn \<Rightarrow> string \<Rightarrow> tref \<Rightarrow> jproperty list \<Rightarrow> nat \<Rightarrow> sgen \<Rightarrow> gerr + sgen" where
  "lower_properties E gen name s [] i g = Inr g"
| "lower_properties E gen name s (p # ps) i g =
     bind_res (sg_pascal_special E [name, pr_name p]) (\<lambda>typeName.
     bind_res (gen typeName (pr_schema p) (\<not> pr_required p) g) (\<lambda>(t, g1).
     bind_res (property_field_name E p i) (\<lambda>fieldName.
     bind_res (property_spec p g1) (\<lambda>spec.
     bind_res (addField s \<lparr>fd_name = fieldName, fd_type = Some t, fd_json = pr_name p, fd_inline = InlineNone, fd_spec = Some spec\<rparr> g1)
       (lower_properties E gen name s ps (Suc i))))))"

definition lower_item :: "generate_fn \<Rightarrow> string \<Rightarrow> sref option \<Rightarrow> sgen \<Rightarrow> tref lowered" where
  "lower_item gen prefix item g =
     (if item = None then Inr (any_new None g) else gen (prefix @ ''Item'') item False g)"

definition inline_new_field :: "string \<Rightarrow> tref \<Rightarrow> inline_field \<Rightarrow> field" where
  "inline_new_field name t inl = \<lparr>fd_name = name, fd_type = Some t, fd_json = [], fd_inline = inl, fd_spec = None\<rparr>"

definition lower_additional :: "generate_fn \<Rightarrow> string \<Rightarrow> tref \<Rightarrow> sref option \<Rightarrow> sgen \<Rightarrow> gerr + sgen" where
  "lower_additional gen name s item g =
     bind_res (if ty_kind (sg_store g ! s) = KindMap then Inr (s, g)
               else
                 let (m, g1) = reg_new name (new_type KindMap (ty_name (sg_store g ! s) @ ''Additional'')) g
                 in bind_res (addField s (inline_new_field ''AdditionalProps'' m InlineAdditional) g1) (\<lambda>g2. Inr (m, g2)))
       (\<lambda>(m, g1).
         bind_res (lower_item gen (ty_name (sg_store g1 ! m)) item g1) (\<lambda>(i, g2).
           Inr (update_type m (\<lambda>t. t\<lparr>ty_item := Some i\<rparr>) g2)))"

text \<open>One map per pattern; the position of a pattern's schema is read, so a missing one panics.\<close>

fun lower_patterns :: "generate_fn \<Rightarrow> string \<Rightarrow> tref \<Rightarrow> (string \<times> sref option) list \<Rightarrow> nat \<Rightarrow> sgen \<Rightarrow> gerr + sgen" where
  "lower_patterns gen name s [] idx g = Inr g"
| "lower_patterns gen name s ((pattern, sch) # ps) idx g =
     (let suffix = ''Pattern'' @ itoa (int idx);
          mapName = ty_name (sg_store g ! s) @ suffix;
          (m, g1) = reg_new name ((new_type KindMap mapName)\<lparr>ty_map_pattern := pattern\<rparr>) g in
      bind_res (lower_item gen mapName sch g1) (\<lambda>(i, g2).
        if sch = None then Inl (GPanic NilType)
        else
          bind_res (addField s (inline_new_field (suffix @ ''Props'') m InlinePattern)
                      (update_type m (\<lambda>t. t\<lparr>ty_item := Some i\<rparr>) g2))
            (lower_patterns gen name s ps (Suc idx))))"

definition lower_all_patterns :: "generate_fn \<Rightarrow> string \<Rightarrow> tref \<Rightarrow> (string \<times> sref option) list \<Rightarrow> sgen \<Rightarrow> gerr + sgen" where
  "lower_all_patterns gen name s patterns g =
     (case patterns of
        [] \<Rightarrow> Inr g
      | (pattern, sch) # _ \<Rightarrow>
          if ty_kind (sg_store g ! s) = KindMap then
            let g1 = update_type s (\<lambda>t. t\<lparr>ty_map_pattern := pattern\<rparr>) g in
            bind_res (lower_item gen (ty_name (sg_store g1 ! s)) sch g1) (\<lambda>(i, g2).
              Inr (update_type s (\<lambda>t. t\<lparr>ty_item := Some i\<rparr>) g2))
          else lower_patterns gen name s patterns 0 g)"

definition add_sum_field :: "tref \<Rightarrow> string \<Rightarrow> tref option \<Rightarrow> sgen \<Rightarrow> gerr + sgen" where
  "add_sum_field s name t g = (case t of None \<Rightarrow> Inr g | Some a \<Rightarrow> addField s (inline_new_field name a InlineSum) g)"

text \<open>Only patterns, or only additional properties, make a map.\<close>

definition object_kind :: "jschema \<Rightarrow> kind" where
  "object_kind s =
     (let additional = (js_additional s = Some True) in
      if js_properties s = [] \<and>
         (\<not> additional \<and> length (js_pattern_props s) = 1 \<or> additional \<and> js_pattern_props s = [])
      then KindMap else KindStruct)"

definition object_type :: "string \<Rightarrow> jschema \<Rightarrow> itype" where
  "object_type name s = (new_type (object_kind s) name)\<lparr>ty_schema := Some (schema_view s),
     ty_deny_additional := (js_additional s = Some False),
     ty_validators := no_validators\<lparr>vs_object := SetObject s (vs_object no_validators),
       vs_ogen := SetOgenValidate s (vs_ogen no_validators)\<rparr>\<rparr>"

definition lower_object :: "lower_env \<Rightarrow> generate_fn \<Rightarrow> string \<Rightarrow> sref \<Rightarrow> tref option \<Rightarrow> tref option \<Rightarrow> sgen \<Rightarrow> tref lowered" where
  "lower_object E gen name sa any_of one_of g =
     (let s = sg_schemas g ! sa; (a, g1) = reg_new name (object_type name s) g in
      bind_res (lower_properties E gen name a (js_properties s) 0 g1) (\<lambda>g2.
      bind_res (if js_additional s = Some True then lower_additional gen name a (js_item s) g2 else Inr g2) (\<lambda>g3.
      bind_res (lower_all_patterns gen name a (js_pattern_props s) g3) (\<lambda>g4.
      bind_res (add_sum_field a ''AnyOf'' any_of g4) (\<lambda>g5.
      bind_res (add_sum_field a ''OneOf'' one_of g5) (\<lambda>g6. Inr (a, g6)))))))"

section \<open>Arrays and tuples\<close>

fun lower_tuple :: "generate_fn \<Rightarrow> string \<Rightarrow> tref \<Rightarrow> sref option list \<Rightarrow> nat \<Rightarrow> sgen \<Rightarrow> gerr + sgen" where
  "lower_tuple gen name a [] i g = Inr g"
| "lower_tuple gen name a (None # items) i g = Inl (GPanic NilType)"
| "lower_tuple gen name a (Some b # items) i g =
     (let own = js_ogen_name (sg_schemas g ! b);
          fieldName = (if own \<noteq> [] then own else ''V'' @ itoa (int i)) in
      bind_res (gen (name @ fieldName) (Some b) False g) (\<lambda>(t, g1).
        lower_tuple gen name a items (Suc i)
          (update_type a (\<lambda>u. u\<lparr>ty_fields := ty_fields u @ [plain_field fieldName (Some t)]\<rparr>) g1)))"

definition array_type :: "jschema \<Rightarrow> itype" where
  "array_type s = (new_type KindArray [])\<lparr>ty_schema := Some (schema_view s), ty_nil := NilInvalid,
     ty_validators := no_validators\<lparr>vs_array := SetArray s (vs_array no_validators),
       vs_ogen := SetOgenValidate s (vs_ogen no_validators)\<rparr>\<rparr>"

text \<open>The array is registered, perhaps behind an alias, before its item is lowered.\<close>

definition lower_array :: "generate_fn \<Rightarrow> string \<Rightarrow> sref \<Rightarrow> sgen \<Rightarrow> tref lowered" where
  "lower_array gen name sa g =
     (let s = sg_schemas g ! sa in
      if js_items s \<noteq> [] then
        let (a, g1) = reg_new name ((new_type KindStruct name)\<lparr>ty_schema := Some (schema_view s), ty_tuple := True\<rparr>) g
        in bind_res (lower_tuple gen name a (js_items s) 0 g1) (\<lambda>g2. Inr (a, g2))
      else
        let (a, g1) = new_itype (array_type s) g; (r, g2) = regtype name a g1 in
        bind_res (if js_item s = None then Inr (any_new None g2) else gen (name @ ''Item'') (js_item s) False g2) (\<lambda>(i, g3).
          Inr (r, update_type a (\<lambda>t. t\<lparr>ty_item := Some i\<rparr>) g3)))"

definition lower_scalar :: "lower_env \<Rightarrow> string \<Rightarrow> sref \<Rightarrow> sgen \<Rightarrow> tref lowered" where
  "lower_scalar E name sa g =
     bind_res (primitive_type E name sa g) (\<lambda>(t, g1).
     bind_res (scalar_validators (le_lib E) (sg_schemas g1 ! sa) t) (\<lambda>t'.
       Inr (reg_new name t' g1)))"

section \<open>Enums of objects\<close>

fun infer_schema :: "jval \<Rightarrow> jschema" where
  "infer_schema (VString s) = no_schema\<lparr>js_type := ''string''\<rparr>"
| "infer_schema (VInt i) = no_schema\<lparr>js_type := ''integer''\<rparr>"
| "infer_schema (VFloat f) = no_schema\<lparr>js_type := ''number''\<rparr>"
| "infer_schema (VBool b) = no_schema\<lparr>js_type := ''boolean''\<rparr>"
| "infer_schema VNull = no_schema\<lparr>js_type := ''null''\<rparr>"
| "infer_schema (VArray vs) = no_schema\<lparr>js_type := ''array''\<rparr>"
| "infer_schema (VObject m) = no_schema\<lparr>js_type := ''object''\<rparr>"

text \<open>The type of a member; arrays of anything are arrays of null, as the code infers them.\<close>

definition inferTypeFromValue :: "jval \<Rightarrow> sgen \<Rightarrow> tref \<times> sgen" where
  "inferTypeFromValue v g =
     (let sch = Some (schema_view (infer_schema v)) in case v of
        VString s \<Rightarrow> new_itype (Primitive ''string'' sch) g
      | VInt i \<Rightarrow> new_itype (Primitive ''int64'' sch) g
      | VFloat f \<Rightarrow> new_itype (Primitive ''float64'' sch) g
      | VBool b \<Rightarrow> new_itype (Primitive ''bool'' sch) g
      | VNull \<Rightarrow> new_itype (Primitive ''struct{}'' sch) g
      | VArray vs \<Rightarrow>
          let (n, g1) = new_itype (Primitive ''struct{}'' None) g
          in new_itype (Array (sg_store g1) n NilInvalid sch) g1
      | VObject m \<Rightarrow> new_itype (Any sch) g)"

fun object_values :: "jval list \<Rightarrow> (string \<times> jval) list list option" where
  "object_values [] = Some []"
| "object_values (VObject m # vs) = map_option (Cons m) (object_values vs)"
| "object_values (v # vs) = None"

text \<open>The text fields of all objects with their values in order, then the first with a different value everywhere.\<close>

definition text_members :: "(string \<times> jval) list \<Rightarrow> (string \<times> string) list" where
  "text_members m = concat (map (\<lambda>(k, v). case v of VString s \<Rightarrow> [(k, s)] | _ \<Rightarrow> []) m)"

definition string_fields :: "(string \<times> jval) list list \<Rightarrow> string list smap" where
  "string_fields objs = foldl (\<lambda>acc (k, s). smap_set acc k ((case map_of acc k of Some vs \<Rightarrow> vs | None \<Rightarrow> []) @ [s]))
     [] (concat (map text_members objs))"

definition findEnumDiscriminator :: "(rune \<Rightarrow> rune) \<Rightarrow> (string \<times> jval) list list \<Rightarrow> (string \<times> string list) option" where
  "findEnumDiscriminator up objs =
     map_option (\<lambda>(k, vs). (k, map (Capitalize up) vs))
       (find (\<lambda>(k, vs). length vs = length objs \<and> distinct vs) (string_fields objs))"

fun enum_fields :: "(rune \<Rightarrow> rune) \<Rightarrow> (string \<times> jval) list \<Rightarrow> sgen \<Rightarrow> field list \<times> sgen" where
  "enum_fields up [] g = ([], g)"
| "enum_fields up ((k, v) # m) g =
     (let (t, g1) = inferTypeFromValue v g; (fs, g2) = enum_fields up m g1 in
      (\<lparr>fd_name = Capitalize up k, fd_type = Some t, fd_json = k, fd_inline = InlineNone,
         fd_spec = Some \<lparr>fp_name = k, fp_required = True, fp_nullable = False, fp_const = None\<rparr>\<rparr> # fs, g2))"

fun enum_variants :: "(rune \<Rightarrow> rune) \<Rightarrow> string \<Rightarrow> ((string \<times> jval) list \<times> string) list \<Rightarrow> sgen \<Rightarrow> tref list \<times> sgen" where
  "enum_variants up name [] g = ([], g)"
| "enum_variants up name ((m, vname) # vs) g =
     (let (fs, g1) = enum_fields up m g;
          (a, g2) = reg_new (name @ vname)
            ((new_type KindStruct (name @ vname))\<lparr>ty_schema := Some (schema_view (infer_schema (VObject m))),
               ty_fields := sort_key fd_name fs\<rparr>) g1;
          (as, g3) = enum_variants up name vs g2
      in (a # as, g3))"

definition value_variants :: "string \<Rightarrow> string \<Rightarrow> (string \<times> jval) list list \<Rightarrow> string list \<Rightarrow> string smap" where
  "value_variants name field_name objs vnames =
     foldl (\<lambda>acc (m, n). case map_of m field_name of Some (VString v) \<Rightarrow> smap_set acc v (name @ n @ name) | _ \<Rightarrow> acc)
       [] (zip objs vnames)"

definition object_enum :: "lower_env \<Rightarrow> string \<Rightarrow> sref \<Rightarrow> sgen \<Rightarrow> tref lowered" where
  "object_enum E name sa g =
     (let s = sg_schemas g ! sa in case object_values (js_enum s) of
        None \<Rightarrow> Inl (EnumValueError 0)
      | Some objs \<Rightarrow>
          let found = findEnumDiscriminator (le_upper E) objs;
              vnames = (case found of Some (_, ns) \<Rightarrow> ns
                        | None \<Rightarrow> map (\<lambda>i. ''Variant'' @ itoa (int i)) [0..<length objs]);
              (a, g1) = reg_new name ((new_type KindSum name)\<lparr>ty_schema := Some (schema_view s)\<rparr>) g;
              (variants, g2) = enum_variants (le_upper E) name (zip objs vnames) g1;
              spec = (case found of
                  Some (f, ns) \<Rightarrow> no_sum_spec\<lparr>ss_value_discriminators :=
                    [(f, \<lparr>vd_field = f, vd_values = value_variants name f objs ns\<rparr>)]\<rparr>
                | None \<Rightarrow> no_sum_spec\<lparr>ss_type_discriminator := True\<rparr>)
          in Inr (a, update_type a (\<lambda>t. t\<lparr>ty_sum_of := map Some variants, ty_sum_spec := spec\<rparr>) g2))"

section \<open>Sums\<close>

text \<open>The name of a variant; \<open>Type\<close> is the discriminator field of the generated struct.\<close>

definition variantFieldName :: "(rune \<Rightarrow> rune) \<Rightarrow> store \<Rightarrow> tref \<Rightarrow> gerr + string" where
  "variantFieldName up st a =
     bind_res (map_err GPanic (name_postfix (Suc (length st)) st (Some a))) (\<lambda>p.
       Inr (if Capitalize up p = ''Type'' then ''TypeValue'' else Capitalize up p))"

fun lower_variants :: "lower_env \<Rightarrow> generate2_fn \<Rightarrow> string \<Rightarrow> sref option list \<Rightarrow> nat \<Rightarrow> string set \<Rightarrow> sgen \<Rightarrow> tref list lowered" where
  "lower_variants E gen2 name [] i names g = Inr ([], g)"
| "lower_variants E gen2 name (p # ps) i names g =
     bind_res (gen2 (name @ itoa (int i)) p g) (\<lambda>(t, g1).
     bind_res (variantFieldName (le_upper E) (sg_store g1) t) (\<lambda>n.
       let g2 = update_type t (\<lambda>u. u\<lparr>ty_name := n\<rparr>) g1 in
       if n \<in> names then Inl (NotImplemented ''sum types with same names'')
       else bind_res (lower_variants E gen2 name ps (Suc i) (insert n names) g2) (\<lambda>(ts, g3). Inr (t # ts, g3))))"

definition collectSumVariants :: "lower_env \<Rightarrow> generate2_fn \<Rightarrow> string \<Rightarrow> sref option list \<Rightarrow> sgen \<Rightarrow> tref list lowered" where
  "collectSumVariants E gen2 name ps g =
     (let nullable = list_ex (\<lambda>p. case p of Some a \<Rightarrow> js_nullable (sg_schemas g ! a) | None \<Rightarrow> False) ps;
          (nulls, g1) = (if nullable
                         then let (a, g') = new_itype ((Primitive ''struct{}'' None)\<lparr>ty_name := ''Null''\<rparr>) g in ([a], g')
                         else ([], g)) in
      bind_res (lower_variants E gen2 name ps 0 {} g1) (\<lambda>(ts, g2). Inr (nulls @ ts, g2)))"

text \<open>Variants of an \<open>anyOf\<close> without own validators take over those of the union.\<close>

definition inherit_validators :: "schema_lib \<Rightarrow> jschema \<Rightarrow> itype \<Rightarrow> set_err + itype" where
  "inherit_validators L s t =
     (let v = ty_validators t in
      if ty_kind t = KindPrimitive \<or> ty_kind t = KindEnum then
        (if IsInteger t then
           (if int_Set (vs_int v) then Inr t else bind_res (SetInt L s (vs_int v)) (\<lambda>x. Inr (t\<lparr>ty_validators := v\<lparr>vs_int := x\<rparr>\<rparr>)))
         else if IsFloat t then
           (if float_Set (vs_float v) then Inr t else bind_res (SetFloat L s (vs_float v)) (\<lambda>x. Inr (t\<lparr>ty_validators := v\<lparr>vs_float := x\<rparr>\<rparr>)))
         else if IsDecimal t then
           (if decimal_Set (vs_decimal v) then Inr t
            else bind_res (SetDecimal L s (vs_decimal v)) (\<lambda>x. Inr (t\<lparr>ty_validators := v\<lparr>vs_decimal := x\<rparr>\<rparr>)))
         else if string_Set (vs_string v) then Inr t
         else bind_res (SetString L s (vs_string v)) (\<lambda>x. Inr (t\<lparr>ty_validators := v\<lparr>vs_string := x\<rparr>\<rparr>)))
      else if ty_kind t = KindArray then
        Inr (if array_Set (vs_array v) then t else t\<lparr>ty_validators := v\<lparr>vs_array := SetArray s (vs_array v)\<rparr>\<rparr>)
      else if ty_kind t = KindMap \<or> ty_kind t = KindStruct then
        Inr (if object_Set (vs_object v) then t else t\<lparr>ty_validators := v\<lparr>vs_object := SetObject s (vs_object v)\<rparr>\<rparr>)
      else Inr t)"

fun inherit_all :: "schema_lib \<Rightarrow> jschema \<Rightarrow> tref list \<Rightarrow> store \<Rightarrow> set_err + store" where
  "inherit_all L s [] st = Inr st"
| "inherit_all L s (a # as) st = bind_res (inherit_validators L s (st ! a)) (\<lambda>t. inherit_all L s as (st[a := t]))"

text \<open>A sum inside a struct is not registered under the struct's reference.\<close>

definition sum_type :: "string \<Rightarrow> bool \<Rightarrow> jschema \<Rightarrow> itype" where
  "sum_type name side s = (new_type KindSum name)\<lparr>ty_schema := (if side then None else Some (schema_view s))\<rparr>"

definition set_spec :: "tref \<Rightarrow> sum_spec \<Rightarrow> sgen \<Rightarrow> sgen" where
  "set_spec a spec g = update_type a (\<lambda>t. t\<lparr>ty_sum_spec := spec\<rparr>) g"

definition mark_type_discriminator :: "tref \<Rightarrow> sgen \<Rightarrow> sgen" where
  "mark_type_discriminator a g = update_type a (\<lambda>t. t\<lparr>ty_sum_spec := (ty_sum_spec t)\<lparr>ss_type_discriminator := True\<rparr>\<rparr>) g"

definition lower_any_of :: "lower_env \<Rightarrow> generate2_fn \<Rightarrow> string \<Rightarrow> sref \<Rightarrow> bool \<Rightarrow> sgen \<Rightarrow> tref lowered" where
  "lower_any_of E gen2 name sa side g =
     guard_res (map_option gerr_of (ensureNoInfiniteRecursion (le_fuel E) (Some sa) (sg_schemas g)))
       (let s = sg_schemas g ! sa; (a, g1) = reg_new name (sum_type name side s) g in
        bind_res (collectSumVariants E gen2 name (js_any_of s) g1) (\<lambda>(variants, g2).
        let g3 = update_type a (\<lambda>t. t\<lparr>ty_sum_of := map Some variants\<rparr>) g2 in
        bind_res (map_err GPanic (canUseTypeDiscriminator (le_fuel E) False (sg_store g3) (map Some variants))) (\<lambda>by_type.
          if by_type then
            bind_res (map_err ValidatorError (inherit_all (le_lib E) s variants (sg_store (mark_type_discriminator a g3)))) (\<lambda>st.
              Inr (a, put_store st g3))
          else
            bind_res (handleExplicitDiscriminator E (sg_store g3) (sg_schemas g3) (sg_store g3 ! a) s (js_any_of s)) (\<lambda>(handled, spec).
              if handled then Inr (a, set_spec a spec g3) else Inl (NotImplemented ''complex anyOf'')))))"

text \<open>A discriminator with a mapping must not be the same unnameable JSON type in all variants.\<close>

definition early_discriminator_check :: "jschema \<Rightarrow> store \<Rightarrow> tref list \<Rightarrow> gerr option" where
  "early_discriminator_check s st variants = (case js_discriminator s of
       None \<Rightarrow> None
     | Some d \<Rightarrow>
         if di_mapping d = [] then None
         else (case discriminator_field_types st (di_property d) variants [] of
             Inl e \<Rightarrow> Some e
           | Inr types \<Rightarrow> if value_based types then Some (NotImplemented ''value-based discriminator'') else None))"

text \<open>By JSON type if the variants have different ones, by unique fields otherwise.\<close>

definition infer_one_of :: "lower_env \<Rightarrow> tref \<Rightarrow> tref list \<Rightarrow> sgen \<Rightarrow> gerr + sgen" where
  "infer_one_of E a variants g =
     bind_res (map_err GPanic (canUseTypeDiscriminator (le_fuel E) True (sg_store g) (map Some variants))) (\<lambda>by_type.
       if by_type then Inr (mark_type_discriminator a g)
       else bind_res (infer_fields a variants (sg_store g)) (\<lambda>st. Inr (put_store st g)))"

definition discriminate_one_of :: "lower_env \<Rightarrow> tref \<Rightarrow> jschema \<Rightarrow> tref list \<Rightarrow> sgen \<Rightarrow> gerr + sgen" where
  "discriminate_one_of E a s variants g =
     bind_res (handleExplicitDiscriminator E (sg_store g) (sg_schemas g) (sg_store g ! a) s (js_one_of s)) (\<lambda>(handled, spec).
     let g1 = set_spec a spec g in
     if handled then Inr g1
     else (case js_discriminator s of
         Some d \<Rightarrow>
           if ss_mapping spec = [] then
             bind_res (implicit_spec E (sg_store g1) (sg_schemas g1) (sg_store g1 ! a) (di_property d) (js_one_of s)) (\<lambda>spec'.
               Inr (set_spec a spec' g1))
           else infer_one_of E a variants g1
       | None \<Rightarrow> infer_one_of E a variants g1))"

definition lower_one_of :: "lower_env \<Rightarrow> generate2_fn \<Rightarrow> string \<Rightarrow> sref \<Rightarrow> bool \<Rightarrow> sgen \<Rightarrow> tref lowered" where
  "lower_one_of E gen2 name sa side g =
     guard_res (map_option gerr_of (ensureNoInfiniteRecursion (le_fuel E) (Some sa) (sg_schemas g)))
       (bind_res (collectSumVariants E gen2 name (js_one_of (sg_schemas g ! sa)) g) (\<lambda>(variants, g1).
        let s = sg_schemas g1 ! sa in
        guard_res (early_discriminator_check s (sg_store g1) variants)
          (let (a, g2) = reg_new name (sum_type name side s) g1;
               g3 = update_type a (\<lambda>t. t\<lparr>ty_sum_of := map Some variants\<rparr>) g2 in
           bind_res (discriminate_one_of E a s variants g3) (\<lambda>g4. Inr (a, g4)))))"

text \<open>The schemas beside an object must be objects too; a missing one panics.\<close>

fun checkOnlyObjectVariants :: "sstore \<Rightarrow> sref option list \<Rightarrow> gerr option" where
  "checkOnlyObjectVariants ss [] = None"
| "checkOnlyObjectVariants ss (None # ps) = Some (GPanic NilType)"
| "checkOnlyObjectVariants ss (Some a # ps) =
     (if js_type (ss ! a) = ''object'' then checkOnlyObjectVariants ss ps else Some (ObjectSumVariant (js_type (ss ! a))))"

section \<open>Schemas\<close>

text \<open>The type that already stands for a reference, from earlier lowerings or from this one.\<close>

definition known_ref :: "ref_key \<Rightarrow> sgen \<Rightarrow> tref option" where
  "known_ref r g = (case map_of (tst_refs (ls_types (sg_l g))) (fst r, snd r, EncodingJSON) of
       Some t \<Rightarrow> Some t
     | None \<Rightarrow> map_of (sg_refs g) r)"

definition ref_name :: "lower_env \<Rightarrow> string \<Rightarrow> ref_key \<Rightarrow> sgen \<Rightarrow> string lowered" where
  "ref_name E name r g =
     (if r = ([], []) then Inr (name, g)
      else bind_res (le_name_ref E r (sg_l g)) (\<lambda>(n, l). Inr (n, g\<lparr>sg_l := l\<rparr>)))"

definition own_name :: "jschema \<Rightarrow> string \<Rightarrow> string" where
  "own_name s name =
     (if js_ogen_name s \<noteq> [] then js_ogen_name s
      else if name \<noteq> [] \<and> is_digit (hd name) then CHR ''R'' # name
      else name)"

definition empty_unique_items :: "sstore \<Rightarrow> jschema \<Rightarrow> bool" where
  "empty_unique_items ss s \<longleftrightarrow>
     js_unique s \<and> (case js_item s of None \<Rightarrow> True | Some i \<Rightarrow> js_type (ss ! i) = [])"

text \<open>The switch on the declared type; \<open>any_of\<close> and \<open>one_of\<close> are the sums an object carries.\<close>

definition lower_typed :: "lower_env \<Rightarrow> generate_fn \<Rightarrow> string \<Rightarrow> sref \<Rightarrow> tref option \<Rightarrow> tref option \<Rightarrow> sgen \<Rightarrow> tref lowered" where
  "lower_typed E gen name sa any_of one_of g =
     (let typ = js_type (sg_schemas g ! sa) in
      if typ = ''object'' then lower_object E gen name sa any_of one_of g
      else if typ = ''array'' then lower_array gen name sa g
      else if typ \<in> {''string'', ''integer'', ''number'', ''boolean'', ''null''} then lower_scalar E name sa g
      else if typ = [] then Inr (reg_new name (Any (schema_view_of (Some sa) g)) g)
      else Inl (GPanic Unreachable))"

text \<open>A union beside \<open>type: object\<close> becomes a field of the object, under a name of its own.\<close>

definition lower_union :: "(string \<Rightarrow> sref \<Rightarrow> bool \<Rightarrow> sgen \<Rightarrow> tref lowered) \<Rightarrow> (tref \<Rightarrow> sgen \<Rightarrow> tref lowered)
    \<Rightarrow> (jschema \<Rightarrow> sref option list) \<Rightarrow> string \<Rightarrow> sref \<Rightarrow> sgen \<Rightarrow> tref lowered" where
  "lower_union of_parts object parts name sa g =
     (if js_type (sg_schemas g ! sa) = ''object'' then
        bind_res (of_parts (name @ ''Sum'') sa True g) (\<lambda>(t, g1).
          guard_res (checkOnlyObjectVariants (sg_schemas g1) (parts (sg_schemas g1 ! sa))) (object t g1))
      else of_parts name sa False g)"

definition lower_all_of :: "lower_env \<Rightarrow> generate2_fn \<Rightarrow> string \<Rightarrow> sref \<Rightarrow> sgen \<Rightarrow> tref lowered" where
  "lower_all_of E gen2 name sa g =
     bind_res (map_err gerr_of (flattenAllOfSchema (le_fuel E) (sl_numbers (le_lib E)) (Some sa) (sg_schemas g))) (\<lambda>(p, ss).
       gen2 name p (put_schemas ss g))"

definition lower_composed :: "lower_env \<Rightarrow> generate_fn \<Rightarrow> generate2_fn \<Rightarrow> string \<Rightarrow> sref \<Rightarrow> sgen \<Rightarrow> tref lowered" where
  "lower_composed E gen gen2 name sa g =
     (let s = sg_schemas g ! sa in
      if js_any_of s \<noteq> [] then
        lower_union (lower_any_of E gen2) (\<lambda>t. lower_typed E gen name sa (Some t) None) js_any_of name sa g
      else if js_all_of s \<noteq> [] then lower_all_of E gen2 name sa g
      else if js_one_of s \<noteq> [] then
        lower_union (lower_one_of E gen2) (\<lambda>t. lower_typed E gen name sa None (Some t)) js_one_of name sa g
      else if js_enum s \<noteq> [] \<and> js_type s = ''object'' then object_enum E name sa g
      else if js_enum s \<noteq> [] \<and> js_type s \<in> {''array'', []} then Inr (reg_new name (Any (Some (schema_view s))) g)
      else lower_typed E gen name sa None None g)"

text \<open>One call of \<open>generate2\<close>; \<open>gen\<close> and \<open>gen2\<close> are the functions for the schemas below.\<close>

definition generate2_step :: "lower_env \<Rightarrow> generate_fn \<Rightarrow> generate2_fn \<Rightarrow> generate2_fn" where
  "generate2_step E gen gen2 name p g = (case p of
       None \<Rightarrow> Inr (any_new None g)
     | Some sa \<Rightarrow>
         let r = js_ref (sg_schemas g ! sa) in
         (case (if r = ([], []) then None else known_ref r g) of
            Some t \<Rightarrow> Inr (t, g)
          | None \<Rightarrow>
              bind_res (ref_name E name r g) (\<lambda>(n, g1).
                let own = own_name (sg_schemas g1 ! sa) n in
                if js_ogen_type (sg_schemas g1 ! sa) \<noteq> [] then lower_external E own sa g1
                else bind_res (lower_default E sa g1) (\<lambda>g2.
                  if empty_unique_items (sg_schemas g2) (sg_schemas g2 ! sa) then Inl (NotImplemented ''empty uniqueItems'')
                  else lower_composed E gen gen2 own sa g2))))"

text \<open>\<open>generate\<close>: transform, flatten, lower, box; a generic wrapper is a side type.\<close>

definition box_lowered :: "bool \<Rightarrow> bool \<Rightarrow> tref \<Rightarrow> sgen \<Rightarrow> tref lowered" where
  "box_lowered optional nullable t g =
     bind_res (boxType t \<lparr>gv_nullable = nullable, gv_optional = optional\<rparr> (sg_store g)) (\<lambda>(b, st).
       let g1 = put_store st g in
       Inr (b, if ty_kind (st ! b) = KindGeneric then g1\<lparr>sg_side := sg_side g1 @ [b]\<rparr> else g1))"

definition prepare_schema :: "lower_env \<Rightarrow> sref option \<Rightarrow> sstore \<Rightarrow> gerr + sref option \<times> sstore" where
  "prepare_schema E p ss =
     map_err gerr_of (bind_res (transformSchema p ss) (\<lambda>(p1, ss1).
       flattenAllOfSchema (le_fuel E) (sl_numbers (le_lib E)) p1 ss1))"

definition nullable_schema :: "sref option \<Rightarrow> sgen \<Rightarrow> bool" where
  "nullable_schema p g = (case p of None \<Rightarrow> False | Some a \<Rightarrow> js_nullable (sg_schemas g ! a))"

definition generate_step :: "lower_env \<Rightarrow> generate2_fn \<Rightarrow> generate_fn" where
  "generate_step E gen2 name p optional g =
     bind_res (prepare_schema E p (sg_schemas g)) (\<lambda>(p1, ss).
     bind_res (gen2 name p1 (put_schemas ss g)) (\<lambda>(t, g1).
       box_lowered optional (nullable_schema p1 g1) t g1))"

text \<open>
  The recursion: the fuel \<open>n\<close> counts down with every level, the depth \<open>d\<close> only through \<open>generate\<close>. The first is a
  device of the model, the second the limit of the code.
\<close>

primrec lower_bare :: "nat \<Rightarrow> lower_env \<Rightarrow> nat \<Rightarrow> generate2_fn" where
  "lower_bare 0 E d = (\<lambda>name p g. Inl GFuel)"
| "lower_bare (Suc n) E d =
     generate2_step E
       (case d of 0 \<Rightarrow> (\<lambda>name p optional g. Inl DepthExceeded) | Suc d' \<Rightarrow> generate_step E (lower_bare n E d'))
       (lower_bare n E d)"

definition lower_schema :: "nat \<Rightarrow> lower_env \<Rightarrow> nat \<Rightarrow> generate_fn" where
  "lower_schema n E d = (case d of 0 \<Rightarrow> (\<lambda>name p optional g. Inl DepthExceeded) | Suc d' \<Rightarrow> generate_step E (lower_bare n E d'))"

end
