(* ===== verification/Engine.thy ===== *)
theory Engine
  imports SchemaGen
begin

text \<open>
  The lowering engine, internal/lowering/engine.go: one lowering with its own side types and references, their
  registration in the shared table, the check for recursive structs, and the engine as the generator
  uses it (\<open>gi_lower\<close>).
\<close>

section \<open>Imports and references\<close>

definition plain_imports :: "string list" where
  "plain_imports = [''bytes'', ''context'', ''fmt'', ''io'', ''math'', ''math/big'', ''math/bits'', ''mime'', ''net'',
     ''net/http'', ''net/netip'', ''net/url'', ''regexp'', ''sort'', ''strconv'', ''strings'', ''sync'', ''time'',
     ''github.com/go-faster/errors'', ''github.com/go-faster/jx'', ''github.com/google/uuid'',
     ''github.com/shopspring/decimal'']"

definition defaultImports :: "string smap" where
  "defaultImports = map (\<lambda>p. (p, [])) plain_imports @
     [(''github.com/NefixEstrada/agen/runtime/conv'', ''conv''),
      (''github.com/NefixEstrada/agen/runtime/codec'', ''json''),
      (''github.com/NefixEstrada/agen/runtime/ogenregex'', ''ogenregex''),
      (''github.com/NefixEstrada/agen/runtime/validate'', ''validate'')]"

text \<open>
  The name of a reference: the generator's choice, or the cleaned reference if it has none. \<open>show_ref\<close> is the text of a
  reference, \<open>url_path\<close> the path of a URL; both belong to libraries.
\<close>

definition engine_name_ref :: "options \<Rightarrow> (ref_key \<Rightarrow> string) \<Rightarrow> (string \<Rightarrow> string option) \<Rightarrow> ref_key \<Rightarrow> lstate \<Rightarrow> gerr + string \<times> lstate" where
  "engine_name_ref opt show_ref url_path r l =
     bind_res (nameSchemaRef opt r l) (\<lambda>(n, l1).
       if n \<noteq> [] then Inr (n, l1)
       else
         let plain = cleanRef url_path (show_ref r) in
         bind_res (map_err (\<lambda>_. BadName plain) (pascal (default_namer (go_initialisms opt)) [plain])) (\<lambda>name. Inr (name, l1)))"

section \<open>One lowering\<close>

definition newSchemaGen :: "lstate \<Rightarrow> sgen" where
  "newSchemaGen l = \<lparr>sg_l = l, sg_side = [], sg_refs = [], sg_imports = defaultImports\<rparr>"

fun save_side :: "tref list \<Rightarrow> tstorage \<times> store \<Rightarrow> save_err + tstorage \<times> store" where
  "save_side [] s = Inr s"
| "save_side (t # ts) s = bind_res (saveType t s) (save_side ts)"

fun save_refs :: "(ref_key \<times> tref) list \<Rightarrow> tstorage \<times> store \<Rightarrow> save_err + tstorage \<times> store" where
  "save_refs [] s = Inr s"
| "save_refs ((r, t) # refs) s = bind_res (saveRef (fst r, snd r, EncodingJSON) t s) (save_refs refs)"

definition saveSchemaTypes :: "sgen \<Rightarrow> tstorage \<times> store \<Rightarrow> save_err + tstorage \<times> store" where
  "saveSchemaTypes g s = bind_res (save_side (sg_side g) s) (save_refs (sg_refs g))"

text \<open>Every struct is checked once in the life of the engine.\<close>

fun check_candidates :: "nat \<Rightarrow> tref list \<Rightarrow> tref list \<times> store \<Rightarrow> gerr + tref list \<times> store" where
  "check_candidates n [] s = Inr s"
| "check_candidates n (t # ts) (checked, st) =
     (if ty_kind (st ! t) \<noteq> KindStruct \<or> t \<in> set checked then check_candidates n ts (checked, st)
      else bind_res (checkStructRecursions n t st) (\<lambda>st1. check_candidates n ts (t # checked, st1)))"

definition finish_lowering :: "nat \<Rightarrow> tref \<Rightarrow> sgen \<Rightarrow> gerr + lstate" where
  "finish_lowering n t g =
     (let l = sg_l g in
      bind_res (map_err SaveError (saveSchemaTypes g (ls_types l, ls_store l))) (\<lambda>(types, st).
      bind_res (check_candidates n (t # sg_side g @ map snd (sg_refs g)) (ls_checked l, st)) (\<lambda>(checked, st1).
        Inr (l\<lparr>ls_types := types, ls_store := st1, ls_checked := checked\<rparr>))))"

text \<open>Errors that unwind the stack are not filtered: panics, and the depth limit that is recovered.\<close>

definition unwinds :: "gerr \<Rightarrow> bool" where
  "unwinds e = (case e of DepthExceeded \<Rightarrow> True | GFuel \<Rightarrow> True | GPanic t \<Rightarrow> True | _ \<Rightarrow> False)"

text \<open>
  \<open>Generate\<close>. A failed lowering that is ignored answers no type; what it wrote on the way is not modelled, because
  the generator panics on such an answer.
\<close>

definition Generate :: "nat \<Rightarrow> lower_env \<Rightarrow> nat \<Rightarrow> string \<Rightarrow> sref option \<Rightarrow> bool \<Rightarrow> lstate \<Rightarrow> gerr + tref option \<times> lstate" where
  "Generate n E depth name p optional l =
     (case lower_schema n E depth name p optional (newSchemaGen l) of
        Inr (t, g) \<Rightarrow> bind_res (finish_lowering (le_fuel E) t g) (\<lambda>l1. Inr (Some t, l1))
      | Inl e \<Rightarrow>
          (case (if unwinds e then Some e else le_fail E e) of
             Some e' \<Rightarrow> Inl e'
           | None \<Rightarrow> Inr (None, l)))"

definition defaultSchemaDepthLimit :: nat where
  "defaultSchemaDepthLimit = 1000"

section \<open>The engine of the generator\<close>

record engine_libs =
  el_schema :: schema_lib
  el_load :: type_loader
  el_show_ref :: "ref_key \<Rightarrow> string"
  el_url_path :: "string \<Rightarrow> string option"
  el_float_text :: "float64 \<Rightarrow> string"

definition engine_env :: "case_tables \<Rightarrow> options \<Rightarrow> engine_libs \<Rightarrow> nat \<Rightarrow> lower_env" where
  "engine_env U opt L n = \<lparr>le_lib = el_schema L, le_load = el_load L, le_upper = ct_to_upper U,
     le_initialisms = go_initialisms opt, le_fail = gfail opt,
     le_name_ref = engine_name_ref opt (el_show_ref L) (el_url_path L), le_float_text = el_float_text L, le_fuel = n\<rparr>"

text \<open>The lowering the generator is built with; \<open>schema_at\<close> finds the parsed schema of a message part.\<close>

definition engine_lower :: "case_tables \<Rightarrow> options \<Rightarrow> engine_libs \<Rightarrow> nat \<Rightarrow> (schema \<Rightarrow> sref) \<Rightarrow> string \<Rightarrow> schema \<Rightarrow> lstate
    \<Rightarrow> gerr + tref option \<times> lstate" where
  "engine_lower U opt L n schema_at name sc l =
     Generate n (engine_env U opt L n) defaultSchemaDepthLimit name (Some (schema_at sc)) False l"

end
