(* ===== verification/LoweringProps.thy ===== *)
theory LoweringProps
  imports Engine
begin

text \<open>
  Lowering keeps the store of types sound. While an array or a map waits for its item it is pending; every function
  of the lowering leaves the types that are not pending with pointers to existing types only, adds to the store
  without changing the kind of a type, and forgets no reference. The facts are proved once for any
  naming hook that leaves the types alone, and used for the engine the generator runs.
\<close>

lemma nth_update_in: "j < length xs \<Longrightarrow> xs[i := x] ! j = (if i = j then x else xs ! j)"
  by (cases "i < length xs") (auto simp: nth_list_update list_update_beyond)

section \<open>Sound types\<close>

definition points :: "nat \<Rightarrow> tref option \<Rightarrow> bool" where
  "points n c \<longleftrightarrow> (\<exists>a < n. c = Some a)"

lemma points_simps [simp]: "\<not> points n None" "points n (Some a) \<longleftrightarrow> a < n"
  by (auto simp: points_def)

lemma points_mono: "points n c \<Longrightarrow> n \<le> m \<Longrightarrow> points m c"
  by (auto simp: points_def)

definition fields_point :: "nat \<Rightarrow> itype \<Rightarrow> bool" where
  "fields_point n t \<longleftrightarrow> list_all (\<lambda>f. points n (fd_type f)) (ty_fields t)"

text \<open>What a type of each kind is made of exists; a pending type has no item yet.\<close>

definition sound_type :: "nat \<Rightarrow> itype \<Rightarrow> bool" where
  "sound_type n t \<longleftrightarrow> fields_point n t \<and> (case ty_kind t of
       KindAlias \<Rightarrow> points n (ty_alias_to t)
     | KindPointer \<Rightarrow> points n (ty_pointer_to t)
     | KindGeneric \<Rightarrow> points n (ty_generic_of t)
     | KindArray \<Rightarrow> points n (ty_item t)
     | KindMap \<Rightarrow> points n (ty_item t)
     | KindSum \<Rightarrow> list_all (points n) (ty_sum_of t)
     | _ \<Rightarrow> True)"

definition ready :: "tref set \<Rightarrow> nat \<Rightarrow> tref \<Rightarrow> itype \<Rightarrow> bool" where
  "ready P n a t \<longleftrightarrow> (if a \<in> P then fields_point n t else sound_type n t)"

definition types_ok :: "tref set \<Rightarrow> store \<Rightarrow> bool" where
  "types_ok P st \<longleftrightarrow> (\<forall>a < length st. ready P (length st) a (st ! a))"

lemma sound_type_children:
  "sound_type n t \<Longrightarrow> \<forall>c \<in> set (feature_children t) \<union> set (validation_children t). \<exists>a < n. c = Some a"
  by (cases "ty_kind t") (auto simp: sound_type_def fields_point_def feature_children_def validation_children_def points_def list_all_iff)

lemma types_ok_sound: "types_ok {} st \<Longrightarrow> sound_store st"
  unfolding types_ok_def sound_store_def using sound_type_children by (auto simp: ready_def all_set_conv_all_nth)

lemma fields_point_mono: "fields_point n t \<Longrightarrow> n \<le> m \<Longrightarrow> fields_point m t"
  by (auto simp: fields_point_def list_all_iff intro: points_mono)

lemma sound_type_mono: "sound_type n t \<Longrightarrow> n \<le> m \<Longrightarrow> sound_type m t"
  by (cases "ty_kind t") (auto simp: sound_type_def list_all_iff intro: points_mono fields_point_mono)

lemma sound_ready: "sound_type n t \<Longrightarrow> ready P n a t"
  by (simp add: ready_def sound_type_def)

lemma ready_mono: "ready P n a t \<Longrightarrow> n \<le> m \<Longrightarrow> ready P m a t"
  by (auto simp: ready_def intro: sound_type_mono fields_point_mono split: if_splits)

definition same_kinds :: "store \<Rightarrow> store \<Rightarrow> bool" where
  "same_kinds st st' \<longleftrightarrow> length st \<le> length st' \<and> (\<forall>a < length st. ty_kind (st' ! a) = ty_kind (st ! a))"

lemma same_kinds_refl [simp, intro]: "same_kinds st st"
  by (simp add: same_kinds_def)

lemma same_kinds_trans: "same_kinds a b \<Longrightarrow> same_kinds b c \<Longrightarrow> same_kinds a c"
  by (auto simp: same_kinds_def)

lemma same_kindsD: "same_kinds st st' \<Longrightarrow> length st \<le> length st'"
  "same_kinds st st' \<Longrightarrow> a < length st \<Longrightarrow> ty_kind (st' ! a) = ty_kind (st ! a)"
  by (auto simp: same_kinds_def)

text \<open>Adding a type, and replacing one by a sound one of the same kind.\<close>

lemma types_ok_add:
  assumes "types_ok P st" and "ready Q (Suc (length st)) (length st) t" and "Q = P \<or> Q = insert (length st) P"
  shows "types_ok Q (st @ [t])" and "same_kinds st (st @ [t])"
proof -
  have "ready Q (Suc (length st)) a (st ! a)" if "a < length st" for a
  proof -
    have "ready Q (length st) a (st ! a)" using assms(1,3) that by (auto simp: types_ok_def ready_def)
    then show ?thesis by (rule ready_mono) simp
  qed
  then show "types_ok Q (st @ [t])" using assms(2) by (auto simp: types_ok_def nth_append less_Suc_eq)
  show "same_kinds st (st @ [t])" by (simp add: same_kinds_def nth_append)
qed

lemma types_ok_update:
  assumes "types_ok P st" and "ty_kind t = ty_kind (st ! a)" and "a < length st \<Longrightarrow> ready P (length st) a t"
  shows "types_ok P (st[a := t])" and "same_kinds st (st[a := t])"
  using assms by (auto simp: types_ok_def same_kinds_def nth_update_in)

lemma types_ok_done:
  assumes "types_ok (insert a P) st" and "sound_type (length st) t"
  shows "types_ok P (st[a := t])"
  using assms sound_ready by (auto simp: types_ok_def nth_update_in) (simp add: ready_def)

section \<open>Lowering steps\<close>

abbreviation sg_len :: "sgen \<Rightarrow> nat" where
  "sg_len g \<equiv> length (sg_store g)"

definition refs_ok :: "sgen \<Rightarrow> bool" where
  "refs_ok g \<longleftrightarrow> (\<forall>a \<in> set (sg_side g) \<union> snd ` set (sg_refs g) \<union> snd ` set (tst_refs (ls_types (sg_l g))). a < sg_len g)"

definition gen_ok :: "tref set \<Rightarrow> sgen \<Rightarrow> bool" where
  "gen_ok P g \<longleftrightarrow> types_ok P (sg_store g) \<and> refs_ok g"

definition grows :: "sgen \<Rightarrow> sgen \<Rightarrow> bool" where
  "grows g g' \<longleftrightarrow> same_kinds (sg_store g) (sg_store g') \<and> ls_types (sg_l g') = ls_types (sg_l g)
     \<and> ls_checked (sg_l g') = ls_checked (sg_l g) \<and> fst ` set (sg_refs g) \<subseteq> fst ` set (sg_refs g')"

text \<open>The step from \<open>g\<close> to \<open>g'\<close> keeps everything sound that is not pending.\<close>

definition keeps :: "tref set \<Rightarrow> sgen \<Rightarrow> sgen \<Rightarrow> bool" where
  "keeps P g g' \<longleftrightarrow> gen_ok P g' \<and> grows g g'"

lemma gen_grows_refl [simp, intro]: "grows g g"
  by (simp add: grows_def)

lemma gen_grows_trans: "grows a b \<Longrightarrow> grows b c \<Longrightarrow> grows a c"
  unfolding grows_def by (elim conjE) (intro conjI, erule (1) same_kinds_trans, simp, simp, erule (1) subset_trans)

lemma keeps_refl: "gen_ok P g \<Longrightarrow> keeps P g g"
  by (simp add: keeps_def)

lemma keeps_trans: "keeps Q a b \<Longrightarrow> keeps P b c \<Longrightarrow> keeps P a c"
  unfolding keeps_def by (blast intro: gen_grows_trans)

lemma keepsD:
  assumes "keeps P g g'"
  shows "gen_ok P g'" and "sg_len g \<le> sg_len g'" and "a < sg_len g \<Longrightarrow> ty_kind (sg_store g' ! a) = ty_kind (sg_store g ! a)"
  using assms by (auto simp: keeps_def grows_def same_kinds_def)

lemma put_store_simps [simp]:
  "sg_store (put_store st g) = st" "sg_side (put_store st g) = sg_side g" "sg_refs (put_store st g) = sg_refs g"
  "sg_schemas (put_store st g) = sg_schemas g" "ls_types (sg_l (put_store st g)) = ls_types (sg_l g)"
  "ls_checked (sg_l (put_store st g)) = ls_checked (sg_l g)" "sg_imports (put_store st g) = sg_imports g"
  by (simp_all add: put_store_def)

lemma put_schemas_simps [simp]:
  "sg_store (put_schemas ss g) = sg_store g" "sg_side (put_schemas ss g) = sg_side g" "sg_refs (put_schemas ss g) = sg_refs g"
  "sg_schemas (put_schemas ss g) = ss" "ls_types (sg_l (put_schemas ss g)) = ls_types (sg_l g)"
  "ls_checked (sg_l (put_schemas ss g)) = ls_checked (sg_l g)"
  by (simp_all add: put_schemas_def)

lemma keeps_put_store:
  assumes "gen_ok P g" and "types_ok Q st" and "same_kinds (sg_store g) st"
  shows "keeps Q g (put_store st g)"
proof -
  have "sg_len g \<le> length st" by (rule same_kindsD(1) [OF assms(3)])
  then have "refs_ok (put_store st g)"
    using assms(1) unfolding gen_ok_def refs_ok_def put_store_simps by (blast intro: less_le_trans)
  then show ?thesis using assms(2,3) by (simp add: keeps_def gen_ok_def grows_def)
qed

lemma keeps_put_schemas: "gen_ok P g \<Longrightarrow> keeps P g (put_schemas ss g)"
  by (auto simp: keeps_def gen_ok_def grows_def refs_ok_def)

lemma gen_ok_put_schemas [simp]: "gen_ok P (put_schemas ss g) \<longleftrightarrow> gen_ok P g"
  by (simp add: gen_ok_def refs_ok_def)

lemma new_itype_keeps:
  assumes "new_itype t g = (a, g')" and "gen_ok P g"
  shows "sound_type (Suc (sg_len g)) t \<Longrightarrow> keeps P g g'" and "fields_point (Suc (sg_len g)) t \<Longrightarrow> keeps (insert a P) g g'"
    and "a < sg_len g'" and "a = sg_len g" and "sg_store g' ! a = t" and "sg_schemas g' = sg_schemas g"
proof -
  have g': "a = sg_len g" "g' = put_store (sg_store g @ [t]) g" using assms(1) by (auto simp: new_itype_def)
  have ok: "types_ok P (sg_store g)" using assms(2) by (simp add: gen_ok_def)
  note add = types_ok_add [OF ok, of _ t]
  show "sound_type (Suc (sg_len g)) t \<Longrightarrow> keeps P g g'"
    unfolding g' by (rule keeps_put_store [OF assms(2)]) (auto intro: add sound_ready)
  show "fields_point (Suc (sg_len g)) t \<Longrightarrow> keeps (insert a P) g g'"
    unfolding g' by (rule keeps_put_store [OF assms(2)], rule add(1), simp add: ready_def, simp)
      (simp add: same_kinds_def nth_append)
  show "a < sg_len g'" "a = sg_len g" "sg_store g' ! a = t" "sg_schemas g' = sg_schemas g" by (simp_all add: g')
qed

lemma update_keeps:
  assumes "gen_ok P g" and "ty_kind (f (sg_store g ! a)) = ty_kind (sg_store g ! a)"
    and "ready P (sg_len g) a (sg_store g ! a) \<Longrightarrow> ready P (sg_len g) a (f (sg_store g ! a))"
  shows "keeps P g (update_type a f g)"
proof -
  have "types_ok P (sg_store g)" using assms(1) by (simp add: gen_ok_def)
  moreover have "ready P (sg_len g) a (f (sg_store g ! a))" if "a < sg_len g"
    using that calculation assms(3) by (simp add: types_ok_def)
  ultimately show ?thesis
    unfolding update_type_def using types_ok_update [OF _ assms(2)] by (intro keeps_put_store [OF assms(1)]) blast+
qed

lemma update_done:
  assumes "gen_ok (insert a P) g" and "ty_kind (f (sg_store g ! a)) = ty_kind (sg_store g ! a)"
    and "sound_type (sg_len g) (f (sg_store g ! a))"
  shows "keeps P g (update_type a f g)"
proof -
  have "types_ok (insert a P) (sg_store g)" using assms(1) by (simp add: gen_ok_def)
  from types_ok_done [OF this assms(3)] show ?thesis
    unfolding update_type_def using assms(2)
    by (intro keeps_put_store [OF assms(1)]) (auto simp: same_kinds_def nth_update_in)
qed

lemma update_type_simps [simp]:
  "sg_len (update_type a f g) = sg_len g" "sg_schemas (update_type a f g) = sg_schemas g"
  by (simp_all add: update_type_def)

section \<open>Registration and wrappers\<close>

text \<open>What a type points to does not depend on its other parts.\<close>

lemma fields_point_update [simp]:
  "fields_point n (t\<lparr>ty_name := x1\<rparr>) = fields_point n t"
  "fields_point n (t\<lparr>ty_nil := x2\<rparr>) = fields_point n t"
  "fields_point n (t\<lparr>ty_map_pattern := x3\<rparr>) = fields_point n t"
  "fields_point n (t\<lparr>ty_sum_spec := x4\<rparr>) = fields_point n t"
  "fields_point n (t\<lparr>ty_validators := x5\<rparr>) = fields_point n t"
  "fields_point n (t\<lparr>ty_features := x6\<rparr>) = fields_point n t"
  "fields_point n (t\<lparr>ty_schema := x7\<rparr>) = fields_point n t"
  "fields_point n (t\<lparr>ty_external := x8\<rparr>) = fields_point n t"
  "fields_point n (t\<lparr>ty_primitive := x9\<rparr>) = fields_point n t"
  "fields_point n (t\<lparr>ty_enum_variants := x10\<rparr>) = fields_point n t"
  "fields_point n (t\<lparr>ty_item := y1\<rparr>) = fields_point n t"
  "fields_point n (t\<lparr>ty_sum_of := y2\<rparr>) = fields_point n t"
  by (simp_all add: fields_point_def)

lemma sound_type_update [simp]:
  "sound_type n (t\<lparr>ty_name := x1\<rparr>) = sound_type n t"
  "sound_type n (t\<lparr>ty_nil := x2\<rparr>) = sound_type n t"
  "sound_type n (t\<lparr>ty_map_pattern := x3\<rparr>) = sound_type n t"
  "sound_type n (t\<lparr>ty_sum_spec := x4\<rparr>) = sound_type n t"
  "sound_type n (t\<lparr>ty_validators := x5\<rparr>) = sound_type n t"
  "sound_type n (t\<lparr>ty_features := x6\<rparr>) = sound_type n t"
  "sound_type n (t\<lparr>ty_schema := x7\<rparr>) = sound_type n t"
  "sound_type n (t\<lparr>ty_external := x8\<rparr>) = sound_type n t"
  "sound_type n (t\<lparr>ty_primitive := x9\<rparr>) = sound_type n t"
  "sound_type n (t\<lparr>ty_enum_variants := x10\<rparr>) = sound_type n t"
  by (cases "ty_kind t"; simp add: sound_type_def)+

lemma new_type_points [simp]: "fields_point n (new_type k name)"
  by (simp add: fields_point_def new_type_def)

lemma new_type_sound [simp]: "k \<in> {KindPrimitive, KindEnum, KindAny, KindStruct, KindSum} \<Longrightarrow> sound_type n (new_type k name)"
  by (auto simp: sound_type_def new_type_def fields_point_def)

lemma plain_types_sound [simp]:
  "sound_type n (Primitive p s)" "sound_type n (Any s)"
  by (simp_all add: Primitive_def Any_def new_type_sound)

lemma wrapper_types_sound [simp]:
  "sound_type n (Alias st name a) \<longleftrightarrow> a < n" "sound_type n (Pointer st a sem) \<longleftrightarrow> a < n"
  "sound_type n (Generic st name a v) \<longleftrightarrow> a < n" "sound_type n (Array st a sem s) \<longleftrightarrow> a < n"
  by (simp_all add: Alias_def Pointer_def Generic_def Array_def new_type_def sound_type_def fields_point_def)

lemma keeps_side:
  assumes "gen_ok P g" and "a < sg_len g"
  shows "keeps P g (g\<lparr>sg_side := sg_side g @ [a]\<rparr>)"
  using assms by (auto simp: keeps_def gen_ok_def refs_ok_def grows_def)

lemma keeps_refs:
  assumes "gen_ok P g" and "a < sg_len g"
  shows "keeps P g (g\<lparr>sg_refs := refs_set r a (sg_refs g)\<rparr>)"
proof -
  have dom: "fst ` set (sg_refs g) \<subseteq> fst ` set (refs_set r a (sg_refs g))" by (force simp: refs_set_def)
  have sub: "snd ` set (refs_set r a (sg_refs g)) \<subseteq> insert a (snd ` set (sg_refs g))" by (auto simp: refs_set_def)
  have ok: "\<forall>x \<in> set (sg_side g) \<union> snd ` set (sg_refs g) \<union> snd ` set (tst_refs (ls_types (sg_l g))). x < sg_len g"
    using assms(1) unfolding gen_ok_def refs_ok_def by (rule conjunct2)
  have "refs_ok (g\<lparr>sg_refs := refs_set r a (sg_refs g)\<rparr>)"
    unfolding refs_ok_def
  proof
    fix x assume "x \<in> set (sg_side (g\<lparr>sg_refs := refs_set r a (sg_refs g)\<rparr>)) \<union> snd ` set (sg_refs (g\<lparr>sg_refs := refs_set r a (sg_refs g)\<rparr>))
      \<union> snd ` set (tst_refs (ls_types (sg_l (g\<lparr>sg_refs := refs_set r a (sg_refs g)\<rparr>))))"
    then have "x = a \<or> x \<in> set (sg_side g) \<union> snd ` set (sg_refs g) \<union> snd ` set (tst_refs (ls_types (sg_l g)))"
      using sub by auto
    then have "x < sg_len g" using ok assms(2) by blast
    then show "x < sg_len (g\<lparr>sg_refs := refs_set r a (sg_refs g)\<rparr>)" by simp
  qed
  then show ?thesis using assms(1) dom by (simp add: keeps_def gen_ok_def grows_def)
qed

lemma regtype_keeps:
  assumes "regtype name a g = (b, g')" and "gen_ok P g" and "a < sg_len g"
  shows "keeps P g g'" and "b < sg_len g'"
    and "ty_kind (sg_store g ! a) \<notin> {KindPrimitive, KindArray, KindAny} \<Longrightarrow> b = a \<and> sg_store g' = sg_store g"
    and "sg_schemas g' = sg_schemas g"
proof -
  define ref where "ref = (case ty_schema (sg_store g ! a) of None \<Rightarrow> ([], []) | Some s \<Rightarrow> ts_ref s)"
  have "keeps P g g' \<and> b < sg_len g' \<and> sg_schemas g' = sg_schemas g
    \<and> (ty_kind (sg_store g ! a) \<notin> {KindPrimitive, KindArray, KindAny} \<longrightarrow> b = a \<and> sg_store g' = sg_store g)"
  proof (cases "ref = ([], [])")
    case True
    then have "(b, g') = (if ty_kind (sg_store g ! a) \<in> {KindStruct, KindMap, KindEnum, KindSum}
        then (a, g\<lparr>sg_side := sg_side g @ [a]\<rparr>) else (a, g))"
      using assms(1) by (simp add: regtype_def ref_def Let_def)
    then show ?thesis using assms(2,3) by (auto intro: keeps_side keeps_refl split: if_splits)
  next
    case False
    obtain c g1 where c: "(if ty_kind (sg_store g ! a) \<in> {KindPrimitive, KindArray, KindAny}
        then new_itype (Alias (sg_store g) name a) g else (a, g)) = (c, g1)" by fastforce
    then have r: "b = c" "g' = g1\<lparr>sg_refs := refs_set ref c (sg_refs g1)\<rparr>"
      using assms(1) False by (auto simp: regtype_def ref_def Let_def)
    have "keeps P g g1 \<and> c < sg_len g1 \<and> sg_schemas g1 = sg_schemas g
      \<and> (ty_kind (sg_store g ! a) \<notin> {KindPrimitive, KindArray, KindAny} \<longrightarrow> c = a \<and> sg_store g1 = sg_store g)"
    proof (cases "ty_kind (sg_store g ! a) \<in> {KindPrimitive, KindArray, KindAny}")
      case True
      then have n: "new_itype (Alias (sg_store g) name a) g = (c, g1)" using c by simp
      show ?thesis using new_itype_keeps [OF n assms(2)] assms(3) True by simp
    next
      case False
      then show ?thesis using c assms(2,3) by (auto intro: keeps_refl)
    qed
    moreover from this have "keeps P g1 g'" unfolding r(2) by (intro keeps_refs keepsD(1)) auto
    ultimately show ?thesis using keeps_trans r by auto
  qed
  then show "keeps P g g'" "b < sg_len g'" "sg_schemas g' = sg_schemas g"
    "ty_kind (sg_store g ! a) \<notin> {KindPrimitive, KindArray, KindAny} \<Longrightarrow> b = a \<and> sg_store g' = sg_store g" by auto
qed

lemma reg_new_keeps:
  assumes "reg_new name t g = (b, g')" and "gen_ok P g" and "sound_type (Suc (sg_len g)) t"
  shows "keeps P g g'" and "b < sg_len g'"
proof -
  obtain a g1 where a: "new_itype t g = (a, g1)" and r: "regtype name a g1 = (b, g')"
    using assms(1) by (auto simp: reg_new_def split: prod.splits)
  note n = new_itype_keeps [OF a assms(2)]
  have k: "keeps P g g1" by (rule n(1) [OF assms(3)])
  show "keeps P g g'" "b < sg_len g'"
    using regtype_keeps [OF r keepsD(1) [OF k] n(3)] keeps_trans [OF k] by auto
qed

lemma reg_new_named:
  assumes "reg_new name t g = (b, g')" and "gen_ok P g" and "ty_kind t \<notin> {KindPrimitive, KindArray, KindAny}"
    and "fields_point (Suc (sg_len g)) t"
  shows "keeps (insert b P) g g'" and "b < sg_len g'" and "sg_store g' ! b = t" and "b = sg_len g"
    and "sg_schemas g' = sg_schemas g"
proof -
  obtain a g1 where a: "new_itype t g = (a, g1)" and r: "regtype name a g1 = (b, g')"
    using assms(1) by (auto simp: reg_new_def split: prod.splits)
  note n = new_itype_keeps [OF a assms(2)]
  have k: "keeps (insert a P) g g1" by (rule n(2) [OF assms(4)])
  note rk = regtype_keeps [OF r keepsD(1) [OF k] n(3)]
  have "b = a" "sg_store g' = sg_store g1" using rk(3) n(5) assms(3) by simp_all
  then show "keeps (insert b P) g g'" "b < sg_len g'" "sg_store g' ! b = t" "b = sg_len g" "sg_schemas g' = sg_schemas g"
    using keeps_trans [OF k rk(1)] rk(2,4) n by simp_all
qed

text \<open>The reference of a schema is noted with the type made for it.\<close>

definition refers :: "ref_key \<Rightarrow> itype \<Rightarrow> bool" where
  "refers r t \<longleftrightarrow> (\<exists>v. ty_schema t = Some v \<and> ts_ref v = r)"

definition ref_noted :: "jschema \<Rightarrow> sgen \<Rightarrow> bool" where
  "ref_noted s g \<longleftrightarrow> js_ref s \<noteq> ([], []) \<longrightarrow> js_ref s \<in> fst ` set (sg_refs g)"

lemma ref_noted_keeps: "ref_noted s g \<Longrightarrow> keeps P g g' \<Longrightarrow> ref_noted s g'"
  by (auto simp: keeps_def grows_def ref_noted_def)

lemma regtype_ref_noted:
  assumes "regtype name a g = (b, g')" and "refers (js_ref s) (sg_store g ! a)"
  shows "ref_noted s g'"
  using assms by (auto simp: regtype_def refers_def ref_noted_def refs_set_def Let_def split: if_splits prod.splits)

lemma reg_new_ref_noted:
  assumes "reg_new name t g = (b, g')" and "refers (js_ref s) t"
  shows "ref_noted s g'"
proof -
  obtain a g1 where "new_itype t g = (a, g1)" and r: "regtype name a g1 = (b, g')"
    using assms(1) by (auto simp: reg_new_def split: prod.splits)
  then have "sg_store g1 ! a = t" by (auto simp: new_itype_def)
  then show ?thesis using regtype_ref_noted [OF r] assms(2) by simp
qed

lemma refers_view [simp]: "refers (js_ref s) (t\<lparr>ty_schema := Some (schema_view s)\<rparr>)"
  by (simp add: refers_def schema_view_def)

lemma refers_update [simp]:
  "refers r (t\<lparr>ty_validators := v\<rparr>) = refers r t" "refers r (t\<lparr>ty_nil := n\<rparr>) = refers r t"
  "refers r (t\<lparr>ty_tuple := b\<rparr>) = refers r t"
  by (simp_all add: refers_def)

text \<open>The wrappers work on the store alone.\<close>

definition store_step :: "tref set \<Rightarrow> store \<Rightarrow> store \<Rightarrow> bool" where
  "store_step P st st' \<longleftrightarrow> types_ok P st' \<and> same_kinds st st'"

lemma store_step_refl: "types_ok P st \<Longrightarrow> store_step P st st"
  by (simp add: store_step_def)

lemma store_step_trans: "store_step P a b \<Longrightarrow> store_step P b c \<Longrightarrow> store_step P a c"
  unfolding store_step_def by (blast intro: same_kinds_trans)

lemma store_step_update:
  assumes "types_ok P st" and "ty_kind t = ty_kind (st ! a)"
    and "ready P (length st) a (st ! a) \<Longrightarrow> ready P (length st) a t"
  shows "store_step P st (st[a := t])"
proof -
  have "ready P (length st) a t" if "a < length st" using assms(1,3) that by (simp add: types_ok_def)
  then show ?thesis using types_ok_update [OF assms(1,2)] by (simp add: store_step_def)
qed

lemma store_step_alloc:
  assumes "types_ok P st" and "sound_type (Suc (length st)) t" and "alloc st t = (b, st')"
  shows "store_step P st st'" and "b < length st'"
  using assms types_ok_add [OF assms(1), of P t] by (auto simp: alloc_def store_step_def sound_ready)

lemma box_slice_step:
  assumes "box_slice a d v st = Inr (b, st')" and "types_ok P st" and "a < length st"
  shows "store_step P st st' \<and> b < length st'"
proof -
  have mark: "store_step P st' (st'[c := (st' ! c)\<lparr>ty_nil := sem\<rparr>])" if "types_ok P st'" for c sem st'
    by (rule store_step_update [OF that]) (simp_all add: ready_def)
  show ?thesis
  proof (cases "OnlyOptional v \<or> OnlyNullable v")
    case True
    then obtain sem where st': "b = a" "st' = (st[a := (st ! a)\<lparr>ty_nil := sem\<rparr>])
        [d := ((st[a := (st ! a)\<lparr>ty_nil := sem\<rparr>]) ! d)\<lparr>ty_nil := sem\<rparr>]"
      using assms(1) by (auto simp: box_slice_def Let_def)
    from mark [OF assms(2), of a sem] have "store_step P st (st[a := (st ! a)\<lparr>ty_nil := sem\<rparr>])" .
    moreover from this have "store_step P (st[a := (st ! a)\<lparr>ty_nil := sem\<rparr>]) st'"
      unfolding st'(2) by (intro mark) (simp add: store_step_def)
    ultimately show ?thesis using store_step_trans assms(3) st' by auto
  next
    case False
    then obtain x where x: "alloc st (Generic st x a v) = (b, st')"
      using assms(1) by (auto simp: box_slice_def box_generic_def)
    show ?thesis using store_step_alloc [OF assms(2) _ x] assms(3) by simp
  qed
qed

lemma box_pointer_step:
  assumes "box_pointer a v st = Inr (b, st')" and "types_ok P st" and "a < length st"
  shows "store_step P st st' \<and> b < length st'"
proof (cases "OnlyOptional v \<or> OnlyNullable v")
  case True
  then obtain sem where x: "alloc st (Pointer st a sem) = (b, st')"
    using assms(1) by (auto simp: box_pointer_def split: if_splits)
  show ?thesis using store_step_alloc [OF assms(2) _ x] assms(3) by simp
next
  case False
  then obtain q st1 name v' where q: "alloc st (Pointer st a NilNull) = (q, st1)" and x: "alloc st1 (Generic st1 name q v') = (b, st')"
    using assms(1) False by (cases "alloc st (Pointer st a NilNull)") (auto simp: box_pointer_def Let_def)
  have p: "store_step P st st1" "q < length st1" using store_step_alloc [OF assms(2) _ q] assms(3) by simp_all
  have "types_ok P st1" using p(1) by (simp add: store_step_def)
  from store_step_alloc [OF this _ x] p show ?thesis using store_step_trans by auto
qed

lemma boxType_step:
  assumes "boxType a v st = Inr (b, st')" and "types_ok P st" and "a < length st"
  shows "store_step P st st' \<and> b < length st'"
proof -
  have "(b, st') = (a, st) \<or> (\<exists>d v'. box_slice a d v' st = Inr (b, st')) \<or> (\<exists>v' name. alloc st (Generic st name a v') = (b, st'))
    \<or> (\<exists>v'. box_pointer a v' st = Inr (b, st'))"
    using assms(1) unfolding boxType_def box_generic_def Let_def by (auto split: option.splits if_splits)
  moreover have "store_step P st st' \<and> b < length st'" if "alloc st (Generic st name a v') = (b, st')" for name v'
    using store_step_alloc [OF assms(2) _ that] assms(3) by simp
  ultimately show ?thesis
    using store_step_refl [OF assms(2)] box_slice_step [OF _ assms(2,3)] box_pointer_step [OF _ assms(2,3)] assms(3)
    by (elim disjE exE) auto
qed

lemma keeps_store_step: "gen_ok P g \<Longrightarrow> store_step P (sg_store g) st \<Longrightarrow> keeps P g (put_store st g)"
  unfolding store_step_def by (blast intro: keeps_put_store)

text \<open>What the recursion promises at every level.\<close>

definition gen_safe :: "generate_fn \<Rightarrow> bool" where
  "gen_safe gen \<longleftrightarrow> (\<forall>P name p opt g t g'. gen_ok P g \<longrightarrow> gen name p opt g = Inr (t, g') \<longrightarrow> keeps P g g' \<and> t < sg_len g')"

definition gen2_safe :: "generate2_fn \<Rightarrow> bool" where
  "gen2_safe gen \<longleftrightarrow> (\<forall>P name p g t g'. gen_ok P g \<longrightarrow> gen name p g = Inr (t, g') \<longrightarrow> keeps P g g' \<and> t < sg_len g')"

lemma gen_safeD: "gen_safe gen \<Longrightarrow> gen name p opt g = Inr (t, g') \<Longrightarrow> gen_ok P g \<Longrightarrow> keeps P g g' \<and> t < sg_len g'"
  by (simp add: gen_safe_def)

lemma gen2_safeD: "gen2_safe gen \<Longrightarrow> gen name p g = Inr (t, g') \<Longrightarrow> gen_ok P g \<Longrightarrow> keeps P g g' \<and> t < sg_len g'"
  by (simp add: gen2_safe_def)

section \<open>Objects, arrays and scalars\<close>

lemma ready_field: "ready P n a t \<Longrightarrow> points n (fd_type f) \<Longrightarrow> ready P n a (t\<lparr>ty_fields := ty_fields t @ [f]\<rparr>)"
  by (cases "ty_kind t") (auto simp: ready_def sound_type_def fields_point_def split: if_splits)

lemma addField_keeps:
  assumes "addField s f g = Inr g'" and "gen_ok P g" and "points (sg_len g) (fd_type f)"
  shows "keeps P g g'" and "sg_schemas g' = sg_schemas g"
proof -
  have g': "g' = update_type s (\<lambda>t. t\<lparr>ty_fields := ty_fields t @ [f]\<rparr>) g"
    using assms(1) by (auto simp: addField_def split: if_splits)
  show "keeps P g g'" unfolding g' using assms(2,3) by (intro update_keeps) (auto intro: ready_field)
  show "sg_schemas g' = sg_schemas g" by (simp add: g')
qed

lemma lower_properties_keeps:
  assumes "gen_safe gen"
  shows "lower_properties E gen name s ps i g = Inr g' \<Longrightarrow> gen_ok P g \<Longrightarrow> keeps P g g'"
proof (induction ps arbitrary: i g)
  case Nil
  then show ?case by (simp add: keeps_refl)
next
  case (Cons p ps)
  then obtain tn t g1 n spec g2 where gen: "gen tn (pr_schema p) (\<not> pr_required p) g = Inr (t, g1)"
    and add: "addField s \<lparr>fd_name = n, fd_type = Some t, fd_json = pr_name p, fd_inline = InlineNone, fd_spec = Some spec\<rparr> g1 = Inr g2"
    and rest: "lower_properties E gen name s ps (Suc i) g2 = Inr g'"
    by auto
  have k1: "keeps P g g1" "t < sg_len g1" using gen_safeD [OF assms gen Cons.prems(2)] by auto
  have k2: "keeps P g1 g2" using addField_keeps [OF add keepsD(1) [OF k1(1)]] k1(2) by simp
  show ?case using Cons.IH [OF rest keepsD(1) [OF k2]] k1(1) k2 keeps_trans by blast
qed

lemma any_new_keeps:
  assumes "any_new p g = (a, g')" and "gen_ok P g"
  shows "keeps P g g'" and "a < sg_len g'"
  using new_itype_keeps [OF assms(1) [unfolded any_new_def] assms(2)] by simp_all

lemma lower_item_keeps:
  assumes "gen_safe gen" and "lower_item gen prefix item g = Inr (t, g')" and "gen_ok P g"
  shows "keeps P g g'" and "t < sg_len g'"
  using assms any_new_keeps [of None g t g' P] gen_safeD [OF assms(1) _ assms(3)]
  by (auto simp: lower_item_def split: if_splits)

text \<open>A map gets its item.\<close>

lemma set_item_done:
  assumes "gen_ok (insert a P) g" and "ty_kind (sg_store g ! a) = KindArray \<or> ty_kind (sg_store g ! a) = KindMap"
    and "a < sg_len g" and "i < sg_len g"
  shows "keeps P g (update_type a (\<lambda>t. t\<lparr>ty_item := Some i\<rparr>) g)"
proof -
  have "fields_point (sg_len g) (sg_store g ! a)"
    using assms(1,3) by (auto simp: gen_ok_def types_ok_def ready_def)
  then show ?thesis by (intro update_done [OF assms(1)]) (use assms(2,4) in \<open>auto simp: sound_type_def\<close>)
qed

lemma lower_item_done:
  assumes "gen_safe gen" and "lower_item gen prefix item g = Inr (i, g2)" and "gen_ok (insert m P) g" and "m < sg_len g"
    and "ty_kind (sg_store g ! m) = KindMap"
  shows "keeps P g (update_type m (\<lambda>t. t\<lparr>ty_item := Some i\<rparr>) g2)"
proof -
  have k: "keeps (insert m P) g g2" "i < sg_len g2" using lower_item_keeps [OF assms(1,2,3)] by auto
  have "ty_kind (sg_store g2 ! m) = KindMap" "m < sg_len g2"
    using keepsD(2) [OF k(1)] keepsD(3) [OF k(1) assms(4)] assms(4,5) by auto
  then show ?thesis using keeps_trans [OF k(1)] set_item_done [OF keepsD(1) [OF k(1)] _ _ k(2)] by simp
qed

lemma lower_additional_keeps:
  assumes "gen_safe gen" and "lower_additional gen name s item g = Inr g'" and "s < sg_len g"
    and "gen_ok (if ty_kind (sg_store g ! s) = KindMap then insert s P else P) g"
  shows "keeps P g g'"
proof -
  let ?map = "ty_kind (sg_store g ! s) = KindMap"
  let ?new = "new_type KindMap (ty_name (sg_store g ! s) @ ''Additional'')"
  obtain m g1 i g2 where m: "(if ?map then Inr (s, g)
               else
                 let (m, g1) = reg_new name ?new g
                 in bind_res (addField s (inline_new_field ''AdditionalProps'' m InlineAdditional) g1) (\<lambda>g2. Inr (m, g2)))
        = Inr (m, g1)"
    and i: "lower_item gen (ty_name (sg_store g1 ! m)) item g1 = Inr (i, g2)"
    and g': "g' = update_type m (\<lambda>t. t\<lparr>ty_item := Some i\<rparr>) g2"
    using assms(2) by (auto simp: lower_additional_def)
  have k1: "keeps (insert m P) g g1 \<and> m < sg_len g1 \<and> ty_kind (sg_store g1 ! m) = KindMap"
  proof (cases ?map)
    case True
    then show ?thesis using m assms(3,4) by (auto intro: keeps_refl)
  next
    case False
    then obtain g0 where r: "reg_new name ?new g = (m, g0)"
      and a: "addField s (inline_new_field ''AdditionalProps'' m InlineAdditional) g0 = Inr g1"
      using m by (auto split: prod.splits)
    have ok: "gen_ok P g" using assms(4) False by simp
    have kind: "ty_kind ?new = KindMap" by (simp add: new_type_def)
    note n = reg_new_named [OF r ok, unfolded kind, simplified]
    have f: "keeps (insert m P) g0 g1"
      using addField_keeps(1) [OF a keepsD(1) [OF n(1)]] n(2) by (simp add: inline_new_field_def)
    have "ty_kind (sg_store g1 ! m) = KindMap" using keepsD(3) [OF f n(2)] n(3) kind by simp
    then show ?thesis using keeps_trans [OF n(1) f] n(2) keepsD(2) [OF f] by simp
  qed
  then show ?thesis using lower_item_done [OF assms(1) i] keeps_trans keepsD(1) unfolding g' by blast
qed

lemma lower_patterns_keeps:
  assumes "gen_safe gen"
  shows "lower_patterns gen name s ps idx g = Inr g' \<Longrightarrow> gen_ok P g \<Longrightarrow> keeps P g g'"
proof (induction ps arbitrary: idx g)
  case Nil
  then show ?case by (simp add: keeps_refl)
next
  case (Cons p ps)
  obtain pattern sch where p: "p = (pattern, sch)" by fastforce
  let ?n = "ty_name (sg_store g ! s) @ ''Pattern'' @ itoa (int idx)"
  let ?set = "\<lambda>m i g. update_type m (\<lambda>t. t\<lparr>ty_item := Some i\<rparr>) g"
  obtain m g1 where r: "reg_new name ((new_type KindMap ?n)\<lparr>ty_map_pattern := pattern\<rparr>) g = (m, g1)" by fastforce
  obtain i g2 g3 where i: "lower_item gen ?n sch g1 = Inr (i, g2)"
    and a: "addField s (inline_new_field ((''Pattern'' @ itoa (int idx)) @ ''Props'') m InlinePattern) (?set m i g2) = Inr g3"
    and rest: "lower_patterns gen name s ps (Suc idx) g3 = Inr g'"
    using Cons.prems(1) r by (auto simp: p Let_def split: if_splits)
  have kind: "ty_kind ((new_type KindMap ?n)\<lparr>ty_map_pattern := pattern\<rparr>) = KindMap" by (simp add: new_type_def)
  note n = reg_new_named [OF r Cons.prems(2), unfolded kind, simplified]
  have k: "keeps P g1 (?set m i g2)"
    using lower_item_done [OF assms i keepsD(1) [OF n(1)] n(2)] n(3) kind by simp
  have "m < sg_len (?set m i g2)" using keepsD(2) [OF k] n(2) by simp
  then have k4: "keeps P (?set m i g2) g3"
    using addField_keeps(1) [OF a keepsD(1) [OF k]] by (simp add: inline_new_field_def)
  show ?case using Cons.IH [OF rest keepsD(1) [OF k4]] n(1) k k4 keeps_trans by blast
qed

lemma lower_all_patterns_keeps:
  assumes "gen_safe gen" and "lower_all_patterns gen name s patterns g = Inr g'" and "s < sg_len g"
    and "gen_ok (if ty_kind (sg_store g ! s) = KindMap \<and> patterns \<noteq> [] then insert s P else P) g"
  shows "keeps P g g'"
proof (cases patterns)
  case Nil
  then show ?thesis using assms(2,4) by (auto simp: lower_all_patterns_def intro: keeps_refl)
next
  case (Cons p ps)
  obtain pattern sch where p: "p = (pattern, sch)" by fastforce
  show ?thesis
  proof (cases "ty_kind (sg_store g ! s) = KindMap")
    case True
    let ?g1 = "update_type s (\<lambda>t. t\<lparr>ty_map_pattern := pattern\<rparr>) g"
    obtain i g2 where i: "lower_item gen (ty_name (sg_store ?g1 ! s)) sch ?g1 = Inr (i, g2)"
      and g': "g' = update_type s (\<lambda>t. t\<lparr>ty_item := Some i\<rparr>) g2"
      using assms(2) Cons p True by (auto simp: lower_all_patterns_def Let_def)
    have ok: "gen_ok (insert s P) g" using assms(4) True Cons by simp
    have k: "keeps (insert s P) g ?g1" by (rule update_keeps [OF ok]) (simp_all add: ready_def)
    have "ty_kind (sg_store ?g1 ! s) = KindMap" using keepsD(3) [OF k assms(3)] True by simp
    then show ?thesis
      using lower_item_done [OF assms(1) i keepsD(1) [OF k]] assms(3) k keeps_trans unfolding g' by simp
  next
    case False
    then show ?thesis
      using lower_patterns_keeps [OF assms(1), of name s patterns 0 g g' P] assms(2,4) Cons p
      by (simp add: lower_all_patterns_def)
  qed
qed

lemma add_sum_field_keeps:
  assumes "add_sum_field s name t g = Inr g'" and "gen_ok P g" and "t = None \<or> points (sg_len g) t"
  shows "keeps P g g'"
  using assms addField_keeps(1) [OF _ assms(2)]
  by (auto simp: add_sum_field_def inline_new_field_def intro: keeps_refl split: option.splits)

lemma object_type_facts:
  "fields_point n (object_type name s)" "ty_kind (object_type name s) = object_kind s"
  "object_kind s \<noteq> KindMap \<Longrightarrow> sound_type n (object_type name s)"
  by (auto simp: object_type_def object_kind_def Let_def new_type_def fields_point_def sound_type_def)

lemma object_kinds: "object_kind s = KindMap \<or> object_kind s = KindStruct"
  by (simp add: object_kind_def Let_def)

lemma lower_object_keeps:
  assumes "gen_safe gen" and "lower_object E gen name sa any_of one_of g = Inr (a, g')" and "gen_ok P g"
    and "any_of = None \<or> points (sg_len g) any_of" and "one_of = None \<or> points (sg_len g) one_of"
  shows "keeps P g g' \<and> a < sg_len g' \<and> ref_noted (sg_schemas g ! sa) g'"
proof -
  define s where "s = sg_schemas g ! sa"
  let ?Q = "if object_kind s = KindMap then insert a P else P"
  let ?R = "if object_kind s = KindMap \<and> js_additional s \<noteq> Some True then insert a P else P"
  obtain g1 g2 g3 g4 g5 where r: "reg_new name (object_type name s) g = (a, g1)"
    and props: "lower_properties E gen name a (js_properties s) 0 g1 = Inr g2"
    and add: "(if js_additional s = Some True then lower_additional gen name a (js_item s) g2 else Inr g2) = Inr g3"
    and pats: "lower_all_patterns gen name a (js_pattern_props s) g3 = Inr g4"
    and any: "add_sum_field a ''AnyOf'' any_of g4 = Inr g5" and one: "add_sum_field a ''OneOf'' one_of g5 = Inr g'"
    using assms(2) unfolding lower_object_def Let_def s_def [symmetric] by (auto split: prod.splits)
  have k1: "keeps ?Q g g1" "a < sg_len g1" "ty_kind (sg_store g1 ! a) = object_kind s"
  proof -
    have "ty_kind (object_type name s) \<notin> {KindPrimitive, KindArray, KindAny}" using object_kinds [of s] object_type_facts(2) by auto
    note n = reg_new_named [OF r assms(3) this object_type_facts(1)]
    show "a < sg_len g1" "ty_kind (sg_store g1 ! a) = object_kind s" using n(2,3) object_type_facts(2) by auto
    show "keeps ?Q g g1" using n(1) reg_new_keeps(1) [OF r assms(3)] object_type_facts(3) by auto
  qed
  have k2: "keeps ?Q g1 g2" by (rule lower_properties_keeps [OF assms(1) props keepsD(1) [OF k1(1)]])
  have a2: "a < sg_len g2" "ty_kind (sg_store g2 ! a) = object_kind s"
    using keepsD(2) [OF k2] keepsD(3) [OF k2 k1(2)] k1 by auto
  have k3: "keeps ?R g2 g3"
  proof (cases "js_additional s = Some True")
    case True
    then show ?thesis
      using lower_additional_keeps [OF assms(1) _ a2(1), of name "js_item s" g3 P] add keepsD(1) [OF k2] a2(2) by simp
  next
    case False
    then show ?thesis using add keepsD(1) [OF k2] by (simp add: keeps_refl split: if_splits)
  qed
  have a3: "a < sg_len g3" "ty_kind (sg_store g3 ! a) = object_kind s"
    using keepsD(2) [OF k3] keepsD(3) [OF k3 a2(1)] a2 by auto
  have "object_kind s = KindMap \<Longrightarrow> js_additional s = Some True \<longleftrightarrow> js_pattern_props s = []"
    by (auto simp: object_kind_def Let_def split: if_splits)
  then have k4: "keeps P g3 g4"
    using lower_all_patterns_keeps [OF assms(1) pats a3(1), of P] keepsD(1) [OF k3] a3(2) by (auto split: if_splits)
  have k14: "keeps P g g4" using k1(1) k2 k3 k4 keeps_trans by blast
  have len: "sg_len g \<le> sg_len g4" by (rule keepsD(2) [OF k14])
  have k5: "keeps P g4 g5" using add_sum_field_keeps [OF any keepsD(1) [OF k4]] assms(4) len points_mono by blast
  have k6: "keeps P g5 g'"
    using add_sum_field_keeps [OF one keepsD(1) [OF k5]] assms(5) len keepsD(2) [OF k5] points_mono le_trans by blast
  have k16: "keeps P g g'" by (rule keeps_trans [OF k14 keeps_trans [OF k5 k6]])
  have k36: "keeps P g3 g'" by (rule keeps_trans [OF k4 keeps_trans [OF k5 k6]])
  have "ref_noted s g1" by (rule reg_new_ref_noted [OF r]) (simp add: refers_def object_type_def schema_view_def)
  then have "ref_noted s g'" using ref_noted_keeps k2 k3 k36 by blast
  then show ?thesis using k16 keepsD(2) [OF k36] a3(1) by (simp add: s_def)
qed

lemma lower_tuple_keeps:
  assumes "gen_safe gen"
  shows "lower_tuple gen name a items i g = Inr g' \<Longrightarrow> gen_ok P g \<Longrightarrow> keeps P g g'"
proof (induction items arbitrary: i g)
  case Nil
  then show ?case by (simp add: keeps_refl)
next
  case (Cons p items)
  then obtain b where b: "p = Some b" by (cases p) auto
  define fn where "fn = (if js_ogen_name (sg_schemas g ! b) \<noteq> [] then js_ogen_name (sg_schemas g ! b) else ''V'' @ itoa (int i))"
  let ?add = "\<lambda>t g. update_type a (\<lambda>u. u\<lparr>ty_fields := ty_fields u @ [plain_field fn (Some t)]\<rparr>) g"
  obtain t g1 where gen: "gen (name @ fn) (Some b) False g = Inr (t, g1)"
    and rest: "lower_tuple gen name a items (Suc i) (?add t g1) = Inr g'"
    using Cons.prems(1) unfolding b lower_tuple.simps Let_def fn_def [symmetric] by auto
  have k: "keeps P g g1" "t < sg_len g1" using gen_safeD [OF assms gen Cons.prems(2)] by auto
  have "keeps P g1 (?add t g1)"
  proof (rule update_keeps [OF keepsD(1) [OF k(1)]])
    show "ready P (sg_len g1) a ((sg_store g1 ! a)\<lparr>ty_fields := ty_fields (sg_store g1 ! a) @ [plain_field fn (Some t)]\<rparr>)"
      if "ready P (sg_len g1) a (sg_store g1 ! a)"
      using ready_field [OF that] k(2) by (simp add: plain_field_def)
  qed simp
  then show ?case using Cons.IH [OF rest] keepsD(1) keeps_trans k(1) by blast
qed

lemma lower_array_keeps:
  assumes "gen_safe gen" and "lower_array gen name sa g = Inr (r, g')" and "gen_ok P g"
  shows "keeps P g g' \<and> r < sg_len g' \<and> ref_noted (sg_schemas g ! sa) g'"
proof -
  define s where "s = sg_schemas g ! sa"
  show ?thesis
    unfolding s_def [symmetric]
  proof (cases "js_items s = []")
    case False
    let ?t = "(new_type KindStruct name)\<lparr>ty_schema := Some (schema_view s), ty_tuple := True\<rparr>"
    obtain a g1 where a: "reg_new name ?t g = (a, g1)" by fastforce
    then have t: "lower_tuple gen name a (js_items s) 0 g1 = Inr g'" "r = a"
      using assms(2) False unfolding lower_array_def Let_def s_def [symmetric] by auto
    have "sound_type (Suc (sg_len g)) ?t" by (simp add: sound_type_def fields_point_def new_type_def)
    note n = reg_new_keeps [OF a assms(3) this]
    have k: "keeps P g1 g'" by (rule lower_tuple_keeps [OF assms(1) t(1) keepsD(1) [OF n(1)]])
    have "ref_noted s g1" by (rule reg_new_ref_noted [OF a]) (simp add: refers_def schema_view_def)
    then show "keeps P g g' \<and> r < sg_len g' \<and> ref_noted s g'"
      using keeps_trans [OF n(1) k] keepsD(2) [OF k] n(2) t(2) ref_noted_keeps [OF _ k] by simp
  next
    case True
    obtain a g1 where a: "new_itype (array_type s) g = (a, g1)" by fastforce
    obtain r0 g2 where r: "regtype name a g1 = (r0, g2)" by fastforce
    obtain i g3 where i: "(if js_item s = None then Inr (any_new None g2) else gen (name @ ''Item'') (js_item s) False g2) = Inr (i, g3)"
      and g': "r0 = r" "g' = update_type a (\<lambda>t. t\<lparr>ty_item := Some i\<rparr>) g3"
      using assms(2) True a r unfolding lower_array_def Let_def s_def [symmetric] by auto
    have "fields_point (Suc (sg_len g)) (array_type s)" by (simp add: array_type_def fields_point_def new_type_def)
    note n = new_itype_keeps(2-) [OF a assms(3)]
    have k1: "keeps (insert a P) g g1" by (rule n(1)) fact
    note rk = regtype_keeps [OF r keepsD(1) [OF k1] n(2)]
    have k3: "keeps (insert a P) g2 g3" "i < sg_len g3"
      using i any_new_keeps [OF _ keepsD(1) [OF rk(1)], of None i g3]
        gen_safeD [OF assms(1) _ keepsD(1) [OF rk(1)], of "name @ ''Item''" "js_item s" False i g3]
      by (auto split: if_splits)
    have "ty_kind (sg_store g1 ! a) = KindArray" using n(4) by (simp add: array_type_def new_type_def)
    then have kind: "ty_kind (sg_store g3 ! a) = KindArray" and len: "a < sg_len g3"
      using keepsD(2) [OF rk(1)] keepsD(3) [OF rk(1) n(2)] keepsD(2) [OF k3(1)] keepsD(3) [OF k3(1), of a] n(2) by auto
    have "keeps P g3 g'" unfolding g'(2) using set_item_done [OF keepsD(1) [OF k3(1)] _ len k3(2)] kind by simp
    then have k2: "keeps P g2 g'" by (rule keeps_trans [OF k3(1)])
    have "ref_noted s g2" by (rule regtype_ref_noted [OF r]) (simp add: n(4) refers_def array_type_def schema_view_def)
    then show "keeps P g g' \<and> r < sg_len g' \<and> ref_noted s g'"
      using keeps_trans [OF k1 keeps_trans [OF rk(1) k2]] ref_noted_keeps [OF _ k2] keepsD(2) [OF k2] rk(2) g'(1) by simp
  qed
qed

lemma primitive_type_keeps:
  assumes "primitive_type E name sa g = Inr (t, g')" and "gen_ok P g"
  shows "keeps P g g'" and "sound_type n t" and "refers (js_ref (sg_schemas g ! sa)) t"
proof -
  define s where "s = sg_schemas g ! sa"
  have "(t = parseSimple s \<and> g' = g) \<or> enum_type E name (parseSimple s) sa g = Inr (t, g')"
    using assms(1) unfolding primitive_type_def Let_def s_def [symmetric] by (auto split: if_splits)
  moreover have "\<exists>vals names. g' = put_schemas ((sg_schemas g)[sa := s\<lparr>js_enum := vals\<rparr>]) g
      \<and> t = (new_type KindEnum name)\<lparr>ty_primitive := ty_primitive (parseSimple s), ty_enum_variants := zip names vals,
              ty_schema := Some (schema_view (s\<lparr>js_enum := vals\<rparr>))\<rparr>"
    if "enum_type E name (parseSimple s) sa g = Inr (t, g')"
    using that unfolding enum_type_def Let_def s_def [symmetric] by (auto split: if_splits prod.splits)
  ultimately consider (simple) "t = parseSimple s" "g' = g"
    | (enum) vals names where "g' = put_schemas ((sg_schemas g)[sa := s\<lparr>js_enum := vals\<rparr>]) g"
      "t = (new_type KindEnum name)\<lparr>ty_primitive := ty_primitive (parseSimple s), ty_enum_variants := zip names vals,
              ty_schema := Some (schema_view (s\<lparr>js_enum := vals\<rparr>))\<rparr>"
    by blast
  then have "keeps P g g' \<and> sound_type n t \<and> refers (js_ref s) t"
  proof cases
    case simple
    then show ?thesis using assms(2) by (simp add: keeps_refl parseSimple_def Let_def Primitive_def refers_def schema_view_def)
  next
    case enum
    then show ?thesis using keeps_put_schemas [OF assms(2)] by (simp add: refers_def schema_view_def)
  qed
  then show "keeps P g g'" "sound_type n t" "refers (js_ref (sg_schemas g ! sa)) t" by (simp_all add: s_def)
qed

lemma scalar_validators_sound:
  "scalar_validators L s t = Inr t' \<Longrightarrow> sound_type n t' = sound_type n t \<and> refers r t' = refers r t"
  by (auto simp: scalar_validators_def Let_def)

lemma lower_scalar_keeps:
  assumes "lower_scalar E name sa g = Inr (a, g')" and "gen_ok P g"
  shows "keeps P g g' \<and> a < sg_len g' \<and> ref_noted (sg_schemas g ! sa) g'"
proof -
  obtain t g1 t' where t: "primitive_type E name sa g = Inr (t, g1)"
    and t': "scalar_validators (le_lib E) (sg_schemas g1 ! sa) t = Inr t'" and r: "reg_new name t' g1 = (a, g')"
    using assms(1) by (auto simp: lower_scalar_def)
  have k: "keeps P g g1" by (rule primitive_type_keeps(1) [OF t assms(2)])
  have "sound_type n t'" for n using primitive_type_keeps(2) [OF t assms(2)] scalar_validators_sound [OF t'] by simp
  moreover have "ref_noted (sg_schemas g ! sa) g'"
    using reg_new_ref_noted [OF r] primitive_type_keeps(3) [OF t assms(2)] scalar_validators_sound [OF t'] by simp
  ultimately show ?thesis using reg_new_keeps [OF r keepsD(1) [OF k]] keeps_trans [OF k] by simp
qed

lemma External_sound: "External ld s = Inr t \<Longrightarrow> sound_type n t"
  by (auto simp: External_def split: if_splits)

lemma keeps_imports: "gen_ok P g \<Longrightarrow> keeps P g (g\<lparr>sg_imports := m\<rparr>)"
  by (auto simp: keeps_def gen_ok_def grows_def refs_ok_def)

lemma lower_external_keeps:
  assumes "lower_external E name sa g = Inr (a, g')" and "gen_ok P g"
  shows "keeps P g g' \<and> a < sg_len g'"
proof -
  obtain t where t: "External (le_load E) (schema_view (sg_schemas g ! sa)) = Inr t" using assms(1) by (auto simp: lower_external_def)
  have "\<exists>t' m. reg_new name t' (g\<lparr>sg_imports := m\<rparr>) = (a, g') \<and> (\<forall>n. sound_type n t' = sound_type n t)"
  proof (cases "ex_package_path (ty_external t) = []")
    case True
    have "g = g\<lparr>sg_imports := sg_imports g\<rparr>" by simp
    moreover have "reg_new name t g = (a, g')" using assms(1) t True by (simp add: lower_external_def Let_def)
    ultimately show ?thesis by metis
  next
    case False
    then obtain ex p m where "reg_new name (t\<lparr>ty_external := ex, ty_primitive := p\<rparr>) (g\<lparr>sg_imports := m\<rparr>) = (a, g')"
      using assms(1) t by (auto simp: lower_external_def Let_def)
    then show ?thesis by (intro exI conjI) auto
  qed
  then obtain t' m where r: "reg_new name t' (g\<lparr>sg_imports := m\<rparr>) = (a, g')" and s: "\<And>n. sound_type n t' = sound_type n t"
    by blast
  have k: "keeps P g (g\<lparr>sg_imports := m\<rparr>)" by (rule keeps_imports [OF assms(2)])
  show ?thesis using reg_new_keeps [OF r keepsD(1) [OF k]] External_sound [OF t] s keeps_trans [OF k] by simp
qed

section \<open>Enums of objects\<close>

lemma infer_type_keeps:
  assumes "inferTypeFromValue v g = (t, g')" and "gen_ok P g"
  shows "keeps P g g' \<and> t < sg_len g'"
proof (cases "\<exists>vs. v = VArray vs")
  case True
  then obtain vs where v: "v = VArray vs" ..
  obtain n g1 where n: "new_itype (Primitive ''struct{}'' None) g = (n, g1)" by fastforce
  have a: "new_itype (Array (sg_store g1) n NilInvalid (Some (schema_view (infer_schema v)))) g1 = (t, g')"
    using assms(1) n unfolding v inferTypeFromValue_def by simp
  note kn = new_itype_keeps [OF n assms(2)]
  have k: "keeps P g g1" by (rule kn(1)) simp
  show ?thesis using new_itype_keeps(1,3) [OF a keepsD(1) [OF k]] kn(3) keeps_trans [OF k] by simp
next
  case False
  then obtain u where u: "new_itype u g = (t, g')" "sound_type m u" for m
    using assms(1) unfolding inferTypeFromValue_def by (cases v) auto
  show ?thesis using new_itype_keeps(1,3) [OF u(1) assms(2) ] u(2) by simp
qed

lemma enum_fields_keeps:
  "enum_fields up m g = (fs, g') \<Longrightarrow> gen_ok P g \<Longrightarrow> keeps P g g' \<and> list_all (\<lambda>f. points (sg_len g') (fd_type f)) fs"
proof (induction up m g arbitrary: fs g' rule: enum_fields.induct)
  case (1 up g)
  then show ?case by (simp add: keeps_refl)
next
  case (2 up k v m g)
  obtain t g1 where t: "inferTypeFromValue v g = (t, g1)" by fastforce
  obtain fs1 g2 where f: "enum_fields up m g1 = (fs1, g2)" by fastforce
  have k1: "keeps P g g1" "t < sg_len g1" using infer_type_keeps [OF t "2.prems"(2)] by auto
  have k2: "keeps P g1 g2" "list_all (\<lambda>f. points (sg_len g2) (fd_type f)) fs1"
    using "2.IH" [OF t [symmetric] refl f keepsD(1) [OF k1(1)]] by auto
  show ?case using "2.prems"(1) t f k1 k2 keeps_trans [OF k1(1) k2(1)] keepsD(2) [OF k2(1)] by auto
qed

lemma enum_variants_keeps:
  "enum_variants up name vs g = (as, g') \<Longrightarrow> gen_ok P g \<Longrightarrow> keeps P g g' \<and> (\<forall>a \<in> set as. a < sg_len g')"
proof (induction up name vs g arbitrary: as g' rule: enum_variants.induct)
  case (1 up name g)
  then show ?case by (simp add: keeps_refl)
next
  case (2 up name m vname vs g)
  obtain fs g1 where f: "enum_fields up m g = (fs, g1)" by fastforce
  let ?t = "(new_type KindStruct (name @ vname))\<lparr>ty_schema := Some (schema_view (infer_schema (VObject m))), ty_fields := sort_key fd_name fs\<rparr>"
  obtain a g2 where a: "reg_new (name @ vname) ?t g1 = (a, g2)" by fastforce
  obtain as1 g3 where v: "enum_variants up name vs g2 = (as1, g3)" by fastforce
  have k1: "keeps P g g1" "list_all (\<lambda>f. points (sg_len g1) (fd_type f)) fs" using enum_fields_keeps [OF f "2.prems"(2)] by auto
  have "sound_type (Suc (sg_len g1)) ?t"
    using k1(2) by (auto simp: sound_type_def fields_point_def new_type_def list_all_iff intro: points_mono)
  note k2 = reg_new_keeps [OF a keepsD(1) [OF k1(1)] this]
  have k3: "keeps P g2 g3" "\<forall>a \<in> set as1. a < sg_len g3"
    using "2.IH" [OF f [symmetric] refl a [symmetric] refl v keepsD(1) [OF k2(1)]] by auto
  have "keeps P g g3" using k1(1) k2(1) k3(1) keeps_trans by blast
  then show ?case using "2.prems"(1) f a v k2(2) k3 keepsD(2) [OF k3(1)] by auto
qed

text \<open>A sum gets variants that exist.\<close>

lemma set_variants_keeps:
  assumes "gen_ok P g" and "ty_kind (sg_store g ! a) = KindSum" and "\<forall>v \<in> set vs. v < sg_len g"
    and "\<And>t. ty_kind (f t) = ty_kind t \<and> ty_fields (f t) = ty_fields t \<and> ty_sum_of (f t) = map Some vs"
  shows "keeps P g (update_type a f g)"
  by (rule update_keeps [OF assms(1)])
    (use assms(2-) in \<open>auto simp: ready_def sound_type_def fields_point_def list_all_iff split: if_splits\<close>)

lemma object_enum_keeps:
  assumes "object_enum E name sa g = Inr (a, g')" and "gen_ok P g"
  shows "keeps P g g' \<and> a < sg_len g' \<and> ref_noted (sg_schemas g ! sa) g'"
proof -
  let ?t = "(new_type KindSum name)\<lparr>ty_schema := Some (schema_view (sg_schemas g ! sa))\<rparr>"
  obtain g1 ms variants g2 spec where r: "reg_new name ?t g = (a, g1)"
    and v: "enum_variants (le_upper E) name ms g1 = (variants, g2)"
    and g': "g' = update_type a (\<lambda>t. t\<lparr>ty_sum_of := map Some variants, ty_sum_spec := spec\<rparr>) g2"
    using assms(1) unfolding object_enum_def Let_def by (auto split: option.splits prod.splits)
  have "sound_type (Suc (sg_len g)) ?t" by simp
  note k1 = reg_new_keeps [OF r assms(2) this]
  have kind: "ty_kind ?t = KindSum" by (simp add: new_type_def)
  have kind1: "ty_kind (sg_store g1 ! a) = KindSum"
    using reg_new_named(3) [OF r assms(2)] kind by (simp add: fields_point_def new_type_def)
  have k2: "keeps P g1 g2" "\<forall>v \<in> set variants. v < sg_len g2" using enum_variants_keeps [OF v keepsD(1) [OF k1(1)]] by auto
  have kind2: "ty_kind (sg_store g2 ! a) = KindSum" using keepsD(3) [OF k2(1) k1(2)] kind1 by simp
  have "keeps P g2 g'" unfolding g' by (rule set_variants_keeps [OF keepsD(1) [OF k2(1)] kind2 k2(2)]) simp
  then have k3: "keeps P g1 g'" by (rule keeps_trans [OF k2(1)])
  have "ref_noted (sg_schemas g ! sa) g1" by (rule reg_new_ref_noted [OF r]) simp
  then show ?thesis using keeps_trans [OF k1(1) k3] keepsD(2) [OF k3] k1(2) ref_noted_keeps [OF _ k3] by simp
qed

end
