(* ===== verification/EngineProps.thy ===== *)
theory EngineProps
  imports LoweringProps GeneratorProps
begin

text \<open>
  The soundness of the types through unions, the recursion, the registration in the table and the check for
  recursive structs, up to the engine the generator runs; and what follows for message parts.
\<close>

section \<open>Unions\<close>

lemma store_step_ok: "store_step P st st' \<Longrightarrow> types_ok P st'"
  by (simp add: store_step_def)

lemma lower_variants_keeps:
  assumes "gen2_safe gen2"
  shows "lower_variants E gen2 name ps i names g = Inr (ts, g') \<Longrightarrow> gen_ok P g \<Longrightarrow> keeps P g g' \<and> (\<forall>t \<in> set ts. t < sg_len g')"
proof (induction ps arbitrary: i names g ts)
  case Nil
  then show ?case by (simp add: keeps_refl)
next
  case (Cons p ps)
  obtain t g1 n ts' names' where gen: "gen2 (name @ itoa (int i)) p g = Inr (t, g1)"
    and rest: "lower_variants E gen2 name ps (Suc i) names' (update_type t (\<lambda>u. u\<lparr>ty_name := n\<rparr>) g1) = Inr (ts', g')"
    and ts: "ts = t # ts'"
    using Cons.prems(1) by (auto simp: Let_def split: if_splits)
  have k1: "keeps P g g1" "t < sg_len g1" using gen2_safeD [OF assms gen Cons.prems(2)] by auto
  have k2: "keeps P g1 (update_type t (\<lambda>u. u\<lparr>ty_name := n\<rparr>) g1)"
    by (rule update_keeps [OF keepsD(1) [OF k1(1)]]) (simp_all add: ready_def)
  have k3: "keeps P (update_type t (\<lambda>u. u\<lparr>ty_name := n\<rparr>) g1) g' \<and> (\<forall>t \<in> set ts'. t < sg_len g')"
    using Cons.IH [OF rest keepsD(1) [OF k2]] .
  then have "sg_len g1 \<le> sg_len g'" using keepsD(2) [of P "update_type t (\<lambda>u. u\<lparr>ty_name := n\<rparr>) g1" g'] by simp
  then show ?case using k1 k2 k3 keeps_trans ts by auto
qed

lemma collect_keeps:
  assumes "gen2_safe gen2" and "collectSumVariants E gen2 name ps g = Inr (ts, g')" and "gen_ok P g"
  shows "keeps P g g' \<and> (\<forall>t \<in> set ts. t < sg_len g')"
proof -
  obtain nulls g1 where n: "(if list_ex (\<lambda>p. case p of Some a \<Rightarrow> js_nullable (sg_schemas g ! a) | None \<Rightarrow> False) ps
      then let (a, g') = new_itype ((Primitive ''struct{}'' None)\<lparr>ty_name := ''Null''\<rparr>) g in ([a], g') else ([], g)) = (nulls, g1)"
    by fastforce
  then obtain vs where v: "lower_variants E gen2 name ps 0 {} g1 = Inr (vs, g')" and ts: "ts = nulls @ vs"
    using assms(2) unfolding collectSumVariants_def Let_def by auto
  have k1: "keeps P g g1 \<and> (\<forall>t \<in> set nulls. t < sg_len g1)"
    using n new_itype_keeps(1,3) [OF _ assms(3)] assms(3) by (fastforce split: if_splits prod.splits intro: keeps_refl)
  have k2: "keeps P g1 g'" "\<forall>t \<in> set vs. t < sg_len g'"
    using lower_variants_keeps [OF assms(1) v] k1 keepsD(1) by blast+
  then show ?thesis using k1 keeps_trans keepsD(2) [OF k2(1)] ts by fastforce
qed

lemma inherit_sound:
  assumes "inherit_validators L s t = Inr t'"
  shows "\<exists>v. t' = t\<lparr>ty_validators := v\<rparr>"
proof -
  have same: "\<exists>v. t = t\<lparr>ty_validators := v\<rparr>" by (rule exI [of _ "ty_validators t"]) simp
  show ?thesis
    using assms unfolding inherit_validators_def Let_def bind_res_def
    by (simp split: if_split_asm sum.split_asm) (use same in \<open>blast+\<close>)
qed

lemma inherit_all_step:
  "inherit_all L s as st = Inr st' \<Longrightarrow> types_ok P st \<Longrightarrow> store_step P st st'"
proof (induction as arbitrary: st)
  case Nil
  then show ?case by (simp add: store_step_refl)
next
  case (Cons a as)
  then obtain t where t: "inherit_validators L s (st ! a) = Inr t" and rest: "inherit_all L s as (st[a := t]) = Inr st'" by auto
  obtain v where v: "t = (st ! a)\<lparr>ty_validators := v\<rparr>" using inherit_sound [OF t] by blast
  have "store_step P st (st[a := t])" by (rule store_step_update [OF Cons.prems(2)]) (simp_all add: v ready_def)
  from store_step_trans [OF this Cons.IH [OF rest store_step_ok [OF this]]] show ?case .
qed

lemma set_spec_keeps: "gen_ok P g \<Longrightarrow> keeps P g (set_spec a spec g)"
  unfolding set_spec_def by (rule update_keeps) (simp_all add: ready_def)

lemma mark_keeps: "gen_ok P g \<Longrightarrow> keeps P g (mark_type_discriminator a g)"
  unfolding mark_type_discriminator_def by (rule update_keeps) (simp_all add: ready_def)

text \<open>The variants of a new sum.\<close>

lemma sum_type_facts: "ty_kind (sum_type name side s) = KindSum" "fields_point n (sum_type name side s)" "sound_type n (sum_type name side s)"
  by (simp_all add: sum_type_def) (simp_all add: new_type_def)

lemma new_sum_kept:
  assumes "reg_new name (sum_type name side s) g = (a, g1)" and "gen_ok P g"
  shows "keeps P g g1" and "a < sg_len g1" and "ty_kind (sg_store g1 ! a) = KindSum"
  using reg_new_keeps [OF assms sum_type_facts(3)] reg_new_named(3) [OF assms _ sum_type_facts(2)] sum_type_facts(1) by auto

lemma lower_any_of_keeps:
  assumes "gen2_safe gen2" and "lower_any_of E gen2 name sa side g = Inr (a, g')" and "gen_ok P g"
  shows "keeps P g g' \<and> a < sg_len g'"
proof -
  let ?s = "sg_schemas g ! sa"
  obtain g1 variants g2 where r: "reg_new name (sum_type name side ?s) g = (a, g1)"
    and c: "collectSumVariants E gen2 name (js_any_of ?s) g1 = Inr (variants, g2)"
    and cases: "(\<exists>st. inherit_all (le_lib E) ?s variants
          (sg_store (mark_type_discriminator a (update_type a (\<lambda>t. t\<lparr>ty_sum_of := map Some variants\<rparr>) g2))) = Inr st
          \<and> g' = put_store st (update_type a (\<lambda>t. t\<lparr>ty_sum_of := map Some variants\<rparr>) g2))
      \<or> (\<exists>spec. g' = set_spec a spec (update_type a (\<lambda>t. t\<lparr>ty_sum_of := map Some variants\<rparr>) g2))"
    using assms(2) unfolding lower_any_of_def Let_def by (auto split: prod.splits if_splits)
  define g3 where "g3 = update_type a (\<lambda>t. t\<lparr>ty_sum_of := map Some variants\<rparr>) g2"
  note k1 = new_sum_kept [OF r assms(3)]
  have k2: "keeps P g1 g2" "\<forall>v \<in> set variants. v < sg_len g2" using collect_keeps [OF assms(1) c keepsD(1) [OF k1(1)]] by auto
  have kind: "ty_kind (sg_store g2 ! a) = KindSum" using keepsD(3) [OF k2(1) k1(2)] k1(3) by simp
  have k3: "keeps P g2 g3" unfolding g3_def by (rule set_variants_keeps [OF keepsD(1) [OF k2(1)] kind k2(2)]) simp
  from cases have "keeps P g3 g'"
  proof
    assume "\<exists>st. inherit_all (le_lib E) ?s variants
          (sg_store (mark_type_discriminator a (update_type a (\<lambda>t. t\<lparr>ty_sum_of := map Some variants\<rparr>) g2))) = Inr st
          \<and> g' = put_store st (update_type a (\<lambda>t. t\<lparr>ty_sum_of := map Some variants\<rparr>) g2)"
    then obtain st where st: "inherit_all (le_lib E) ?s variants (sg_store (mark_type_discriminator a g3)) = Inr st"
      and g': "g' = put_store st g3" unfolding g3_def by blast
    have m: "keeps P g3 (mark_type_discriminator a g3)" by (rule mark_keeps [OF keepsD(1) [OF k3]])
    then have t: "store_step P (sg_store g3) (sg_store (mark_type_discriminator a g3))"
      by (simp add: keeps_def gen_ok_def grows_def store_step_def)
    from store_step_trans [OF this inherit_all_step [OF st store_step_ok [OF this]]] show ?thesis
      unfolding g' by (rule keeps_store_step [OF keepsD(1) [OF k3]])
  next
    assume "\<exists>spec. g' = set_spec a spec (update_type a (\<lambda>t. t\<lparr>ty_sum_of := map Some variants\<rparr>) g2)"
    then show ?thesis using set_spec_keeps [OF keepsD(1) [OF k3]] by (auto simp: g3_def)
  qed
  then have "keeps P g g'" "sg_len g1 \<le> sg_len g'" using k1(1) k2(1) k3 keeps_trans keepsD(2) by (blast, meson le_trans)
  then show ?thesis using k1(2) by simp
qed

text \<open>Inference writes specifications only.\<close>

lemma spec_step: "types_ok P st \<Longrightarrow> store_step P st (st[a := (st ! a)\<lparr>ty_sum_spec := spec\<rparr>])"
  by (rule store_step_update) (simp_all add: ready_def)

lemma fill_fields_step:
  "fill_fields sn uniq a fs (st, m) = Inr (st', m') \<Longrightarrow> types_ok P st \<Longrightarrow> store_step P st st'"
proof (induction fs arbitrary: st m)
  case Nil
  then show ?case by (simp add: store_step_refl)
next
  case (Cons f fs)
  from Cons.prems(1) obtain st1 m1 where rest: "fill_fields sn uniq a fs (st1, m1) = Inr (st', m')"
    and st1: "st1 = st \<or> (\<exists>jx. st1 = add_unique a f jx st)" by (auto split: if_splits prod.splits)
  have "store_step P st st1"
    using st1 Cons.prems(2) spec_step by (auto simp: add_unique_def Let_def intro: store_step_refl)
  from store_step_trans [OF this Cons.IH [OF rest store_step_ok [OF this]]] show ?case .
qed

lemma fill_variants_step:
  "fill_variants sn uniq as (st, m) = Inr (st', m') \<Longrightarrow> types_ok P st \<Longrightarrow> store_step P st st'"
proof (induction as arbitrary: st m)
  case Nil
  then show ?case by (simp add: store_step_refl)
next
  case (Cons a as)
  then obtain st1 m1 where s: "fill_fields sn uniq a (json_fields [] (st ! a)) (st, m) = Inr (st1, m1)"
    and rest: "fill_variants sn uniq as (st1, m1) = Inr (st', m')" by auto
  have "store_step P st st1" by (rule fill_fields_step [OF s Cons.prems(2)])
  from store_step_trans [OF this Cons.IH [OF rest store_step_ok [OF this]]] show ?case .
qed

lemma infer_fields_step:
  assumes "infer_fields a variants st = Inr st'" and "types_ok P st"
  shows "store_step P st st'"
proof -
  obtain uniq st1 m spec where f: "fill_variants (ty_name (st ! a)) uniq (variants_by_name st variants) (st, []) = Inr (st1, m)"
    and st': "st' = st1[a := (st1 ! a)\<lparr>ty_sum_spec := spec\<rparr>]"
    using assms(1) unfolding infer_fields_def Let_def by (auto split: if_splits)
  have k: "store_step P st st1" by (rule fill_variants_step [OF f assms(2)])
  show ?thesis unfolding st' by (rule store_step_trans [OF k spec_step [OF store_step_ok [OF k]]])
qed

lemma infer_one_of_keeps:
  assumes "infer_one_of E a variants g = Inr g'" and "gen_ok P g"
  shows "keeps P g g'"
proof -
  have "types_ok P (sg_store g)" using assms(2) by (simp add: gen_ok_def)
  then have "keeps P g (put_store st g)" if "infer_fields a variants (sg_store g) = Inr st" for st
    using keeps_store_step [OF assms(2)] infer_fields_step [OF that] by blast
  moreover have "g' = mark_type_discriminator a g \<or> (\<exists>st. infer_fields a variants (sg_store g) = Inr st \<and> g' = put_store st g)"
    using assms(1) unfolding infer_one_of_def by (auto split: if_splits)
  ultimately show ?thesis using mark_keeps [OF assms(2)] by blast
qed

lemma discriminate_keeps:
  assumes "discriminate_one_of E a s variants g = Inr g'" and "gen_ok P g"
  shows "keeps P g g'"
proof -
  obtain handled spec where rest: "(let g1 = set_spec a spec g in
     if handled then Inr g1
     else (case js_discriminator s of
         Some d \<Rightarrow>
           if ss_mapping spec = [] then
             bind_res (implicit_spec E (sg_store g1) (sg_schemas g1) (sg_store g1 ! a) (di_property d) (js_one_of s)) (\<lambda>spec'.
               Inr (set_spec a spec' g1))
           else infer_one_of E a variants g1
       | None \<Rightarrow> infer_one_of E a variants g1)) = Inr g'"
    using assms(1) unfolding discriminate_one_of_def by (elim bind_res_Inr [THEN iffD1, elim_format] exE conjE) (simp split: prod.splits)
  have cases: "g' = set_spec a spec g \<or> (\<exists>spec'. g' = set_spec a spec' (set_spec a spec g))
      \<or> infer_one_of E a variants (set_spec a spec g) = Inr g'"
    using rest unfolding Let_def bind_res_def by (simp split: if_split_asm option.split_asm sum.split_asm) blast
  have k: "keeps P g (set_spec a spec g)" by (rule set_spec_keeps [OF assms(2)])
  have next_step: "keeps P g h" if "keeps P (set_spec a spec g) h" for h by (rule keeps_trans [OF k that])
  from cases show ?thesis
  proof (elim disjE exE)
    show ?thesis if "g' = set_spec a spec g" using k that by simp
    show ?thesis if "g' = set_spec a spec' (set_spec a spec g)" for spec'
      unfolding that by (intro next_step set_spec_keeps keepsD(1) [OF k])
    show ?thesis if "infer_one_of E a variants (set_spec a spec g) = Inr g'"
      by (intro next_step infer_one_of_keeps [OF that] keepsD(1) [OF k])
  qed
qed

lemma lower_one_of_keeps:
  assumes "gen2_safe gen2" and "lower_one_of E gen2 name sa side g = Inr (a, g')" and "gen_ok P g"
  shows "keeps P g g' \<and> a < sg_len g'"
proof -
  obtain variants g1 where c: "collectSumVariants E gen2 name (js_one_of (sg_schemas g ! sa)) g = Inr (variants, g1)"
    using assms(2) by (auto simp: lower_one_of_def)
  let ?s = "sg_schemas g1 ! sa"
  obtain g2 where r: "reg_new name (sum_type name side ?s) g1 = (a, g2)"
    and d: "discriminate_one_of E a ?s variants (update_type a (\<lambda>t. t\<lparr>ty_sum_of := map Some variants\<rparr>) g2) = Inr g'"
    using assms(2) c by (auto simp: lower_one_of_def Let_def split: prod.splits)
  have k1: "keeps P g g1" "\<forall>v \<in> set variants. v < sg_len g1" using collect_keeps [OF assms(1) c assms(3)] by auto
  note k2 = new_sum_kept [OF r keepsD(1) [OF k1(1)]]
  have "\<forall>v \<in> set variants. v < sg_len g2" using k1(2) keepsD(2) [OF k2(1)] by auto
  then have k3: "keeps P g2 (update_type a (\<lambda>t. t\<lparr>ty_sum_of := map Some variants\<rparr>) g2)"
    by (intro set_variants_keeps [OF keepsD(1) [OF k2(1)] k2(3)]) simp_all
  have k4: "keeps P (update_type a (\<lambda>t. t\<lparr>ty_sum_of := map Some variants\<rparr>) g2) g'"
    by (rule discriminate_keeps [OF d keepsD(1) [OF k3]])
  then have "sg_len g2 \<le> sg_len g'" using keepsD(2) [OF k4] by simp
  then show ?thesis
    using keeps_trans [OF k1(1) keeps_trans [OF k2(1) keeps_trans [OF k3 k4]]] k2(2) by simp
qed

section \<open>The recursion\<close>

lemma lower_default_keeps: "lower_default E a g = Inr g' \<Longrightarrow> gen_ok P g \<Longrightarrow> keeps P g g'"
  unfolding lower_default_def Let_def by (auto split: if_splits intro: keeps_refl keeps_put_schemas)

lemma lower_typed_keeps:
  assumes "gen_safe gen" and "lower_typed E gen name sa any_of one_of g = Inr (a, g')" and "gen_ok P g"
    and "any_of = None \<or> points (sg_len g) any_of" and "one_of = None \<or> points (sg_len g) one_of"
  shows "keeps P g g' \<and> a < sg_len g' \<and> ref_noted (sg_schemas g ! sa) g'"
proof -
  have "lower_object E gen name sa any_of one_of g = Inr (a, g') \<or> lower_array gen name sa g = Inr (a, g')
    \<or> lower_scalar E name sa g = Inr (a, g') \<or> reg_new name (Any (schema_view_of (Some sa) g)) g = (a, g')"
    using assms(2) unfolding lower_typed_def Let_def by (auto split: if_splits)
  then show ?thesis
    using lower_object_keeps [OF assms(1) _ assms(3-5)] lower_array_keeps [OF assms(1) _ assms(3)]
      lower_scalar_keeps [OF _ assms(3)] reg_new_keeps [OF _ assms(3)] reg_new_ref_noted [of name _ g a g' "sg_schemas g ! sa"]
    by (elim disjE) (auto simp: Any_def schema_view_of_def)
qed

lemma lower_union_keeps:
  assumes "lower_union of_parts object parts name sa g = Inr (a, g')" and "gen_ok P g"
    and "\<And>name side g a g'. of_parts name sa side g = Inr (a, g') \<Longrightarrow> gen_ok P g \<Longrightarrow> keeps P g g' \<and> a < sg_len g'"
    and "\<And>t g a g'. object t g = Inr (a, g') \<Longrightarrow> gen_ok P g \<Longrightarrow> t < sg_len g \<Longrightarrow> keeps P g g' \<and> a < sg_len g'"
  shows "keeps P g g' \<and> a < sg_len g'"
proof (cases "js_type (sg_schemas g ! sa) = ''object''")
  case True
  then obtain t g1 where t: "of_parts (name @ ''Sum'') sa True g = Inr (t, g1)" and o: "object t g1 = Inr (a, g')"
    using assms(1) by (auto simp: lower_union_def)
  have k: "keeps P g g1" "t < sg_len g1" using assms(3) [OF t assms(2)] by auto
  show ?thesis using assms(4) [OF o keepsD(1) [OF k(1)] k(2)] keeps_trans [OF k(1)] by blast
next
  case False
  then show ?thesis using assms(1) assms(3) [OF _ assms(2)] by (simp add: lower_union_def)
qed

lemma lower_all_of_keeps:
  assumes "gen2_safe gen2" and "lower_all_of E gen2 name sa g = Inr (a, g')" and "gen_ok P g"
  shows "keeps P g g' \<and> a < sg_len g'"
proof -
  obtain p ss where gen: "gen2 name p (put_schemas ss g) = Inr (a, g')" using assms(2) by (auto simp: lower_all_of_def)
  have "gen_ok P (put_schemas ss g)" using assms(3) by simp
  from gen2_safeD [OF assms(1) gen this] keeps_trans [OF keeps_put_schemas [OF assms(3)]] show ?thesis by blast
qed

lemma lower_composed_keeps:
  assumes "gen_safe gen" and "gen2_safe gen2" and "lower_composed E gen gen2 name sa g = Inr (a, g')" and "gen_ok P g"
  shows "keeps P g g' \<and> a < sg_len g'"
proof -
  have cases: "lower_union (lower_any_of E gen2) (\<lambda>t. lower_typed E gen name sa (Some t) None) js_any_of name sa g = Inr (a, g')
    \<or> lower_all_of E gen2 name sa g = Inr (a, g')
    \<or> lower_union (lower_one_of E gen2) (\<lambda>t. lower_typed E gen name sa None (Some t)) js_one_of name sa g = Inr (a, g')
    \<or> object_enum E name sa g = Inr (a, g') \<or> reg_new name (Any (Some (schema_view (sg_schemas g ! sa)))) g = (a, g')
    \<or> lower_typed E gen name sa None None g = Inr (a, g')"
    using assms(3) unfolding lower_composed_def Let_def by (auto split: if_splits)
  from cases show ?thesis
  proof (elim disjE)
    assume "lower_union (lower_any_of E gen2) (\<lambda>t. lower_typed E gen name sa (Some t) None) js_any_of name sa g = Inr (a, g')"
    then show ?thesis
      by (rule lower_union_keeps [OF _ assms(4)])
        (erule (1) lower_any_of_keeps [OF assms(2)], drule (1) lower_typed_keeps [OF assms(1)], simp_all)
  next
    assume "lower_union (lower_one_of E gen2) (\<lambda>t. lower_typed E gen name sa None (Some t)) js_one_of name sa g = Inr (a, g')"
    then show ?thesis
      by (rule lower_union_keeps [OF _ assms(4)])
        (erule (1) lower_one_of_keeps [OF assms(2)], drule (1) lower_typed_keeps [OF assms(1)], simp_all)
  next
    assume "lower_all_of E gen2 name sa g = Inr (a, g')"
    then show ?thesis by (rule lower_all_of_keeps [OF assms(2) _ assms(4)])
  next
    assume "object_enum E name sa g = Inr (a, g')"
    then show ?thesis using object_enum_keeps [OF _ assms(4)] by blast
  next
    assume "reg_new name (Any (Some (schema_view (sg_schemas g ! sa)))) g = (a, g')"
    then show ?thesis using reg_new_keeps [OF _ assms(4)] by simp
  next
    assume "lower_typed E gen name sa None None g = Inr (a, g')"
    then show ?thesis using lower_typed_keeps [OF assms(1) _ assms(4)] by simp
  qed
qed

lemma box_lowered_keeps:
  assumes "box_lowered optional nullable t g = Inr (a, g')" and "gen_ok P g" and "t < sg_len g"
  shows "keeps P g g' \<and> a < sg_len g'"
proof -
  obtain st where b: "boxType t \<lparr>gv_nullable = nullable, gv_optional = optional\<rparr> (sg_store g) = Inr (a, st)"
    and g': "g' = (if ty_kind (st ! a) = KindGeneric then put_store st g\<lparr>sg_side := sg_side (put_store st g) @ [a]\<rparr> else put_store st g)"
    using assms(1) by (auto simp: box_lowered_def Let_def)
  have s: "store_step P (sg_store g) st" "a < length st"
    using boxType_step [OF b _ assms(3), of P] assms(2) by (auto simp: gen_ok_def)
  have k: "keeps P g (put_store st g)" by (rule keeps_store_step [OF assms(2) s(1)])
  show ?thesis using keeps_trans [OF k keeps_side [OF keepsD(1) [OF k]]] k s(2) unfolding g' by simp
qed

text \<open>What the naming of references may change.\<close>

locale ref_naming =
  fixes E :: lower_env
  assumes name_ref_keeps: "le_name_ref E r l = Inr (n, l') \<Longrightarrow>
    ls_store l' = ls_store l \<and> ls_types l' = ls_types l \<and> ls_checked l' = ls_checked l"
begin

lemma ref_name_keeps:
  assumes "ref_name E name r g = Inr (n, g')" and "gen_ok P g"
  shows "keeps P g g'"
proof (cases "r = ([], [])")
  case True
  then show ?thesis using assms by (auto simp: ref_name_def intro: keeps_refl)
next
  case False
  then obtain l where l: "le_name_ref E r (sg_l g) = Inr (n, l)" and g': "g' = g\<lparr>sg_l := l\<rparr>"
    using assms(1) by (auto simp: ref_name_def)
  show ?thesis using name_ref_keeps [OF l] assms(2) by (simp add: g' keeps_def gen_ok_def grows_def refs_ok_def)
qed

lemma known_ref_bound: "known_ref r g = Some t \<Longrightarrow> gen_ok P g \<Longrightarrow> t < sg_len g"
  unfolding known_ref_def gen_ok_def refs_ok_def by (auto dest!: map_of_SomeD split: option.splits) (force+)

lemma generate2_step_safe:
  assumes "gen_safe gen" and "gen2_safe gen2"
  shows "gen2_safe (generate2_step E gen gen2)"
  unfolding gen2_safe_def
proof (intro allI impI)
  fix P name p g t g'
  assume ok: "gen_ok P g" and r: "generate2_step E gen gen2 name p g = Inr (t, g')"
  show "keeps P g g' \<and> t < sg_len g'"
  proof (cases p)
    case None
    then show ?thesis using r any_new_keeps [OF _ ok] by (simp add: generate2_step_def)
  next
    case (Some sa)
    let ?r = "js_ref (sg_schemas g ! sa)"
    show ?thesis
    proof (cases "if ?r = ([], []) then None else known_ref ?r g")
      case (Some t0)
      then show ?thesis
        using r known_ref_bound [OF _ ok] ok \<open>p = Some sa\<close>
        by (auto simp: generate2_step_def Let_def intro: keeps_refl split: if_splits)
    next
      case None
      then obtain n g1 where n: "ref_name E name ?r g = Inr (n, g1)"
        and rest: "lower_external E (own_name (sg_schemas g1 ! sa) n) sa g1 = Inr (t, g')
          \<or> (\<exists>g2. lower_default E sa g1 = Inr g2 \<and> lower_composed E gen gen2 (own_name (sg_schemas g1 ! sa) n) sa g2 = Inr (t, g'))"
        using r Some by (auto simp: generate2_step_def Let_def split: if_splits)
      have k1: "keeps P g g1" by (rule ref_name_keeps [OF n ok])
      from rest have "keeps P g1 g' \<and> t < sg_len g'"
      proof (elim disjE exE conjE)
        show ?thesis if "lower_external E (own_name (sg_schemas g1 ! sa) n) sa g1 = Inr (t, g')"
          by (rule lower_external_keeps [OF that keepsD(1) [OF k1]])
        show ?thesis if d: "lower_default E sa g1 = Inr g2"
          and c: "lower_composed E gen gen2 (own_name (sg_schemas g1 ! sa) n) sa g2 = Inr (t, g')" for g2
        proof -
          have k2: "keeps P g1 g2" by (rule lower_default_keeps [OF d keepsD(1) [OF k1]])
          show ?thesis using lower_composed_keeps [OF assms c keepsD(1) [OF k2]] keeps_trans [OF k2] by blast
        qed
      qed
      then show ?thesis using keeps_trans [OF k1] by blast
    qed
  qed
qed

lemma generate_step_safe:
  assumes "gen2_safe gen2"
  shows "gen_safe (generate_step E gen2)"
  unfolding gen_safe_def
proof (intro allI impI)
  fix P name p opt g t g'
  assume ok: "gen_ok P g" and r: "generate_step E gen2 name p opt g = Inr (t, g')"
  then obtain p1 ss u g1 where gen: "gen2 name p1 (put_schemas ss g) = Inr (u, g1)"
    and box: "box_lowered opt (nullable_schema p1 g1) u g1 = Inr (t, g')"
    by (auto simp: generate_step_def)
  have "gen_ok P (put_schemas ss g)" using ok by simp
  then have k1: "keeps P g g1" "u < sg_len g1"
    using gen2_safeD [OF assms gen] keeps_trans [OF keeps_put_schemas [OF ok]] by blast+
  show "keeps P g g' \<and> t < sg_len g'" using box_lowered_keeps [OF box keepsD(1) [OF k1(1)] k1(2)] keeps_trans [OF k1(1)] by blast
qed

lemma stuck_safe: "gen_safe (\<lambda>name p opt g. Inl e)" "gen2_safe (\<lambda>name p g. Inl e)"
  by (simp_all add: gen_safe_def gen2_safe_def)

lemma lower_bare_safe: "gen2_safe (lower_bare n E d)"
proof (induction n arbitrary: d)
  case 0
  then show ?case by (simp add: stuck_safe)
next
  case (Suc n)
  show ?case by (cases d) (simp_all add: generate2_step_safe stuck_safe Suc.IH generate_step_safe)
qed

lemma lower_schema_safe: "gen_safe (lower_schema n E d)"
  by (cases d) (simp_all add: lower_schema_def stuck_safe generate_step_safe lower_bare_safe)

end

section \<open>Registration in the table\<close>

lemma same_shape_step:
  assumes "same_shape st st'" and "types_ok P st"
  shows "store_step P st st'"
proof -
  have len: "length st' = length st" using assms(1) by (simp add: same_shape_def)
  have u: "st' ! a = (st ! a)\<lparr>ty_features := ty_features (st' ! a)\<rparr>" if "a < length st" for a
    using assms(1) that by (simp add: same_shape_def)
  have "ready P (length st) a (st' ! a)" if "a < length st" for a
  proof -
    have "ready P (length st) a (st ! a)" using assms(2) that by (simp add: types_ok_def)
    then have "ready P (length st) a ((st ! a)\<lparr>ty_features := ty_features (st' ! a)\<rparr>)" by (simp add: ready_def)
    then show ?thesis using u [OF that] by simp
  qed
  moreover have "ty_kind (st' ! a) = ty_kind (st ! a)" if "a < length st" for a
    using arg_cong [OF u [OF that], of ty_kind] by simp
  ultimately show ?thesis using len by (simp add: store_step_def types_ok_def same_kinds_def)
qed

lemma add_feature_works:
  assumes "types_ok {} st" and "a < length st"
  shows "\<exists>st'. AddFeature f (Some a) st = Inr st' \<and> store_step {} st st' \<and> HasFeature (st' ! a) f"
proof -
  have "card ({..<length st} - marked f st) \<le> length st"
    using card_mono [of "{..<length st}" "{..<length st} - marked f st"] by simp
  from add_feature_spread [OF types_ok_sound [OF assms(1)] assms(2) this] obtain st'
    where st': "add_feature (length st) f (Some a) st = Inr st'" "spread f st st' {a}" by blast
  have "HasFeature (st' ! a) f" using spreadD(3) [OF st'(2)] by (simp add: marked_def)
  then show ?thesis using st'(1) same_shape_step [OF spreadD(1) [OF st'(2)] assms(1)] by (auto simp: AddFeature_def)
qed

lemma Implement_step:
  assumes "Implement t i st = Inr st'" and "types_ok {} st"
  shows "store_step {} st st'"
proof -
  have impl: "sound_type n (t\<lparr>ty_implements := x\<rparr>) = sound_type n t" "sound_type n (t\<lparr>ty_implementations := x\<rparr>) = sound_type n t"
    for n x t by (cases "ty_kind t"; simp add: sound_type_def fields_point_def)+
  let ?st1 = "st[i := (st ! i)\<lparr>ty_implementations := set_add t (ty_implementations (st ! i))\<rparr>]"
  have st': "st' = ?st1[t := (?st1 ! t)\<lparr>ty_implements := set_add i (ty_implements (?st1 ! t))\<rparr>]"
    using assms(1) by (auto simp: Implement_def Let_def split: if_splits)
  have a: "store_step {} st ?st1" by (rule store_step_update [OF assms(2)]) (simp_all add: ready_def impl)
  have "store_step {} ?st1 st'" unfolding st' by (rule store_step_update [OF store_step_ok [OF a]]) (simp_all add: ready_def impl)
  then show ?thesis by (rule store_step_trans [OF a])
qed

lemma implement_all_step: "implement_all is t st = Inr st' \<Longrightarrow> types_ok {} st \<Longrightarrow> store_step {} st st'"
proof (induction "is" arbitrary: st)
  case Nil
  then show ?case by (simp add: store_step_refl)
next
  case (Cons i "is")
  then obtain st1 where s: "Implement t i st = Inr st1" and rest: "implement_all is t st1 = Inr st'" by auto
  have "store_step {} st st1" by (rule Implement_step [OF s Cons.prems(2)])
  from store_step_trans [OF this Cons.IH [OF rest store_step_ok [OF this]]] show ?case .
qed

lemma add_features_step: "add_features fs t st = Inr st' \<Longrightarrow> types_ok {} st \<Longrightarrow> t < length st \<Longrightarrow> store_step {} st st'"
proof (induction fs arbitrary: st)
  case Nil
  then show ?case by (simp add: store_step_refl)
next
  case (Cons f fs)
  then obtain st1 where s: "AddFeature f (Some t) st = Inr st1" and rest: "add_features fs t st1 = Inr st'" by auto
  have k: "store_step {} st st1" using add_feature_works [OF Cons.prems(2,3), of f] s by auto
  then have "t < length st1" using Cons.prems(3) by (auto simp: store_step_def same_kinds_def)
  from store_step_trans [OF k Cons.IH [OF rest store_step_ok [OF k] this]] show ?case .
qed

lemma saveType_step:
  assumes "saveType t (s, st) = Inr (s', st')" and "types_ok {} st" and "t < length st"
  shows "store_step {} st st'" and "tst_refs s' = tst_refs s"
proof -
  have "(st' = st \<or> (\<exists>conf. inherit t conf st = Inr st')) \<and> tst_refs s' = tst_refs s"
    using assms(1) by (auto simp: saveType_def put_type_def split: if_splits option.splits)
  then have cases: "st' = st \<or> (\<exists>conf. inherit t conf st = Inr st')" and refs: "tst_refs s' = tst_refs s" by auto
  show "tst_refs s' = tst_refs s" by (rule refs)
  from cases show "store_step {} st st'"
  proof (elim disjE exE)
    show "store_step {} st st'" if "st' = st" using assms(2) that by (simp add: store_step_refl)
    show "store_step {} st st'" if i: "inherit t conf st = Inr st'" for conf
    proof -
      obtain st1 where f: "add_features (ty_features (st ! conf)) t st = Inr st1"
        and m: "implement_all (ty_implements (st ! conf)) t st1 = Inr st' \<or> implement_all (ty_implements (st1 ! conf)) t st1 = Inr st'"
        using i by (auto simp: inherit_def)
      have k: "store_step {} st st1" by (rule add_features_step [OF f assms(2,3)])
      from m have "store_step {} st1 st'" using implement_all_step [OF _ store_step_ok [OF k]] by blast
      then show ?thesis by (rule store_step_trans [OF k])
    qed
  qed
qed

lemma save_side_step:
  "save_side ts (s, st) = Inr (s', st') \<Longrightarrow> types_ok {} st \<Longrightarrow> \<forall>t \<in> set ts. t < length st \<Longrightarrow>
   store_step {} st st' \<and> tst_refs s' = tst_refs s"
proof (induction ts arbitrary: s st)
  case Nil
  then show ?case by (simp add: store_step_refl)
next
  case (Cons t ts)
  then obtain s1 st1 where t: "saveType t (s, st) = Inr (s1, st1)" and rest: "save_side ts (s1, st1) = Inr (s', st')" by auto
  have "t < length st" using Cons.prems(3) by simp
  note k = saveType_step [OF t Cons.prems(2) this]
  have "\<forall>t \<in> set ts. t < length st1" using Cons.prems(3) k(1) by (auto simp: store_step_def same_kinds_def)
  from Cons.IH [OF rest store_step_ok [OF k(1)] this] show ?case using store_step_trans [OF k(1)] k(2) by auto
qed

text \<open>A reference is saved with its type; the store is left alone.\<close>

lemma save_refs_table:
  "save_refs refs (s, st) = Inr (s', st') \<Longrightarrow>
   st' = st \<and> tst_refs s' = rev (map (\<lambda>(r, t). ((fst r, snd r, EncodingJSON), t)) refs) @ tst_refs s"
proof (induction refs arbitrary: s)
  case (Cons p refs)
  then show ?case by (cases p) (auto simp: saveRef_def put_type_def split: if_splits)
qed simp

definition table_refs_ok :: "lstate \<Rightarrow> bool" where
  "table_refs_ok l \<longleftrightarrow> (\<forall>(key, t) \<in> set (tst_refs (ls_types l)). t < length (ls_store l))"

text \<open>The invariant of the state that lowerings share.\<close>

definition lstate_ok :: "lstate \<Rightarrow> bool" where
  "lstate_ok l \<longleftrightarrow> types_ok {} (ls_store l) \<and> table_refs_ok l"

section \<open>Recursive structs\<close>

lemma unbox_step:
  assumes "unbox_recursive sn fn v a st = Inr (b, st')" and "types_ok {} st" and "a < length st"
  shows "store_step {} st st' \<and> b < length st'"
proof -
  have wrap: "store_step {} st1 st2 \<and> b < length st2" if "alloc st1 (Pointer st1 t sem) = (b, st2)" "types_ok {} st1" "t < length st1"
    for st1 st2 t sem using store_step_alloc [OF that(2) _ that(1)] that(3) by simp
  obtain t where t: "(if ty_kind (st ! a) = KindGeneric then ty_generic_of (st ! a) else Some a) = Some t"
    and cases: "(\<exists>sem. alloc st (Pointer st t sem) = (b, st'))
      \<or> (\<exists>c st1 v' sem. boxType t v' st = Inr (c, st1) \<and> alloc st1 (Pointer st1 c sem) = (b, st'))"
    using assms(1) unfolding unbox_recursive_def Let_def by (auto split: option.splits if_split_asm)
  have tl: "t < length st"
    using t assms(2,3) by (auto simp: types_ok_def ready_def sound_type_def points_def split: if_splits)
  from cases show ?thesis
  proof (elim disjE exE conjE)
    show ?thesis if "alloc st (Pointer st t sem) = (b, st')" for sem by (rule wrap [OF that assms(2) tl])
    show ?thesis if c: "boxType t v' st = Inr (c, st1)" and p: "alloc st1 (Pointer st1 c sem) = (b, st')" for c st1 v' sem
    proof -
      have k: "store_step {} st st1" "c < length st1" using boxType_step [OF c assms(2) tl] by auto
      show ?thesis using wrap [OF p store_step_ok [OF k(1)] k(2)] store_step_trans [OF k(1)] by blast
    qed
  qed
qed

lemma check_fields_step:
  "check_fields n s i fs st = Inr st' \<Longrightarrow> types_ok {} st \<Longrightarrow> list_all (\<lambda>f. points (length st) (fd_type f)) fs \<Longrightarrow> store_step {} st st'"
proof (induction fs arbitrary: i st)
  case Nil
  then show ?case by (simp add: store_step_refl)
next
  case (Cons f fs)
  show ?case
  proof (cases "fd_spec f")
    case None
    then show ?thesis using Cons by simp
  next
    case (Some spec)
    obtain a where a: "fd_type f = Some a" "a < length st" using Cons.prems(3) by (auto simp: points_def)
    obtain b st1 where b: "(\<exists>sn fn. unbox_recursive sn fn (field_variant spec) a st = Inr (b, st1)) \<or> b = a \<and> st1 = st"
      and rest: "check_fields n s (Suc i) fs
             (st1[s := (st1 ! s)\<lparr>ty_fields := (ty_fields (st1 ! s))[i := f\<lparr>fd_type := Some b\<rparr>]\<rparr>]) = Inr st'"
      using Cons.prems(1) Some a(1) by (auto split: if_splits)
    have k1: "store_step {} st st1" "b < length st1"
      using b unbox_step [OF _ Cons.prems(2) a(2)] a(2) store_step_refl [OF Cons.prems(2)] by auto
    let ?st2 = "st1[s := (st1 ! s)\<lparr>ty_fields := (ty_fields (st1 ! s))[i := f\<lparr>fd_type := Some b\<rparr>]\<rparr>]"
    have k2: "store_step {} st1 ?st2"
    proof (rule store_step_update [OF store_step_ok [OF k1(1)]])
      show "ready {} (length st1) s ((st1 ! s)\<lparr>ty_fields := (ty_fields (st1 ! s))[i := f\<lparr>fd_type := Some b\<rparr>]\<rparr>)"
        if "ready {} (length st1) s (st1 ! s)"
        using that k1(2)
        by (cases "ty_kind (st1 ! s)") (auto simp: ready_def sound_type_def fields_point_def list_all_iff dest!: subsetD [OF set_update_subset_insert])
    qed simp
    have k: "store_step {} st ?st2" by (rule store_step_trans [OF k1(1) k2])
    have "length st \<le> length ?st2" using k by (simp add: store_step_def same_kinds_def)
    then have "list_all (\<lambda>f. points (length ?st2) (fd_type f)) fs"
      using Cons.prems(3) points_mono by (auto simp: list_all_iff)
    from store_step_trans [OF k Cons.IH [OF rest store_step_ok [OF k] this]] show ?thesis .
  qed
qed

text \<open>Candidates that are structs have been checked afterwards.\<close>

definition checks :: "store \<Rightarrow> tref list \<Rightarrow> tref list \<Rightarrow> bool" where
  "checks st ts checked \<longleftrightarrow> (\<forall>t \<in> set ts. ty_kind (st ! t) = KindStruct \<longrightarrow> t \<in> set checked)"

lemma check_candidates_step:
  "check_candidates n ts (checked, st) = Inr (checked', st') \<Longrightarrow> types_ok {} st \<Longrightarrow> \<forall>t \<in> set ts. t < length st \<Longrightarrow>
   store_step {} st st' \<and> set checked \<subseteq> set checked' \<and> checks st ts checked'"
proof (induction ts arbitrary: checked st)
  case Nil
  then show ?case by (simp add: store_step_refl checks_def)
next
  case (Cons t ts)
  show ?case
  proof (cases "ty_kind (st ! t) \<noteq> KindStruct \<or> t \<in> set checked")
    case True
    then show ?thesis using Cons by (auto simp: checks_def)
  next
    case False
    then obtain st1 where c: "checkStructRecursions n t st = Inr st1"
      and rest: "check_candidates n ts (t # checked, st1) = Inr (checked', st')" using Cons.prems(1) by auto
    have "list_all (\<lambda>f. points (length st) (fd_type f)) (ty_fields (st ! t))"
      using Cons.prems(2,3) by (auto simp: types_ok_def ready_def sound_type_def fields_point_def)
    then have k: "store_step {} st st1"
      by (intro check_fields_step [OF c [unfolded checkStructRecursions_def] Cons.prems(2)])
    then have "\<forall>t \<in> set ts. t < length st1" using Cons.prems(3) by (auto simp: store_step_def same_kinds_def)
    note IH = Cons.IH [OF rest store_step_ok [OF k] this]
    have "checks st ts checked'"
      using IH k Cons.prems(3) by (auto simp: checks_def store_step_def same_kinds_def)
    then show ?thesis using IH store_step_trans [OF k] by (auto simp: checks_def)
  qed
qed

text \<open>Structs that are registered under a reference have been checked.\<close>

definition refs_checked :: "lstate \<Rightarrow> bool" where
  "refs_checked l \<longleftrightarrow> checks (ls_store l) (map snd (tst_refs (ls_types l))) (ls_checked l)"

lemma finish_lowering_sound:
  assumes "finish_lowering n t g = Inr l'" and "gen_ok {} g" and "t < sg_len g"
  shows "store_step {} (sg_store g) (ls_store l')" and "lstate_ok l'"
    and "tst_refs (ls_types l') = rev (map (\<lambda>(r, t). ((fst r, snd r, EncodingJSON), t)) (sg_refs g)) @ tst_refs (ls_types (sg_l g))"
    and "refs_checked (sg_l g) \<Longrightarrow> refs_checked l'"
proof -
  have ok: "types_ok {} (sg_store g)" and refs: "\<forall>a \<in> set (sg_side g) \<union> snd ` set (sg_refs g) \<union> snd ` set (tst_refs (ls_types (sg_l g))). a < sg_len g"
    using assms(2) by (simp_all add: gen_ok_def refs_ok_def)
  obtain types st checked st1 where s: "saveSchemaTypes g (ls_types (sg_l g), sg_store g) = Inr (types, st)"
    and c: "check_candidates n (t # sg_side g @ map snd (sg_refs g)) (ls_checked (sg_l g), st) = Inr (checked, st1)"
    and l': "l' = (sg_l g)\<lparr>ls_types := types, ls_store := st1, ls_checked := checked\<rparr>"
    using assms(1) by (auto simp: finish_lowering_def Let_def)
  obtain types1 where side: "save_side (sg_side g) (ls_types (sg_l g), sg_store g) = Inr (types1, st)"
    and rf: "save_refs (sg_refs g) (types1, st) = Inr (types, st)"
    using s save_refs_table by (fastforce simp: saveSchemaTypes_def)
  have k1: "store_step {} (sg_store g) st" "tst_refs types1 = tst_refs (ls_types (sg_l g))"
    using save_side_step [OF side ok] refs by auto
  have len: "sg_len g \<le> length st" using k1(1) by (simp add: store_step_def same_kinds_def)
  have k2: "store_step {} st st1 \<and> set (ls_checked (sg_l g)) \<subseteq> set checked \<and> checks st (t # sg_side g @ map snd (sg_refs g)) checked"
    by (rule check_candidates_step [OF c store_step_ok [OF k1(1)]]) (use refs assms(3) len in \<open>auto intro: less_le_trans\<close>)
  show k3: "store_step {} (sg_store g) (ls_store l')" unfolding l' using store_step_trans [OF k1(1)] k2 by simp
  then have kinds: "same_kinds (sg_store g) st1" by (simp add: store_step_def l')
  show table: "tst_refs (ls_types l') = rev (map (\<lambda>(r, t). ((fst r, snd r, EncodingJSON), t)) (sg_refs g)) @ tst_refs (ls_types (sg_l g))"
    using save_refs_table [OF rf] k1(2) by (simp add: l')
  have all: "snd ` set (tst_refs types) \<subseteq> snd ` set (sg_refs g) \<union> snd ` set (tst_refs (ls_types (sg_l g)))"
    using table by (force simp: l')
  have len1: "sg_len g \<le> length st1" using kinds by (simp add: same_kinds_def)
  have inside: "\<forall>a \<in> snd ` set (tst_refs types). a < sg_len g" using refs all by blast
  then have "\<forall>a \<in> snd ` set (tst_refs types). a < length st1" using len1 by (meson less_le_trans)
  then show "lstate_ok l'" using store_step_ok [OF k3] by (auto simp: lstate_ok_def table_refs_ok_def l')
  have kind: "ty_kind (st1 ! a) = ty_kind (sg_store g ! a)" "ty_kind (st ! a) = ty_kind (sg_store g ! a)" if "a < sg_len g" for a
    using that kinds k1(1) by (auto simp: store_step_def same_kinds_def)
  show "refs_checked l'" if old: "refs_checked (sg_l g)"
  proof -
    have "a \<in> set checked" if a: "a \<in> snd ` set (tst_refs types)" "ty_kind (st1 ! a) = KindStruct" for a
    proof -
      have k: "ty_kind (sg_store g ! a) = KindStruct" "ty_kind (st ! a) = KindStruct" using a kind inside by auto
      consider "a \<in> snd ` set (sg_refs g)" | "a \<in> snd ` set (tst_refs (ls_types (sg_l g)))" using all a(1) by blast
      then show ?thesis
      proof cases
        case 1
        then have "a \<in> set (t # sg_side g @ map snd (sg_refs g))" by simp
        then show ?thesis using k2 k(2) unfolding checks_def by blast
      next
        case 2
        then have "a \<in> set (ls_checked (sg_l g))" using old k(1) unfolding refs_checked_def checks_def by auto
        then show ?thesis using k2 by blast
      qed
    qed
    then show ?thesis by (simp add: refs_checked_def checks_def l')
  qed
qed

section \<open>The engine\<close>

context ref_naming
begin

lemma Generate_lowered:
  assumes "Generate n E d name p optional l = Inr (Some t, l')" and "lstate_ok l"
  obtains g where "lower_schema n E d name p optional (newSchemaGen l) = Inr (t, g)"
    and "finish_lowering (le_fuel E) t g = Inr l'" and "keeps {} (newSchemaGen l) g" and "t < sg_len g"
proof -
  obtain g where g: "lower_schema n E d name p optional (newSchemaGen l) = Inr (t, g)"
    and fin: "finish_lowering (le_fuel E) t g = Inr l'"
    using assms(1) by (auto simp: Generate_def split: sum.splits option.splits)
  have "gen_ok {} (newSchemaGen l)"
    using assms(2) by (auto simp: lstate_ok_def table_refs_ok_def gen_ok_def refs_ok_def newSchemaGen_def)
  then have "keeps {} (newSchemaGen l) g" "t < sg_len g" using gen_safeD [OF lower_schema_safe g] by auto
  with g fin show ?thesis by (rule that)
qed

lemma Generate_sound:
  assumes "Generate n E d name p optional l = Inr (Some t, l')" and "lstate_ok l"
  shows "lstate_ok l'" and "t < length (ls_store l')" and "same_kinds (ls_store l) (ls_store l')"
proof -
  obtain g where g: "lower_schema n E d name p optional (newSchemaGen l) = Inr (t, g)"
      "finish_lowering (le_fuel E) t g = Inr l'" "keeps {} (newSchemaGen l) g" "t < sg_len g"
    by (rule Generate_lowered [OF assms])
  note f = finish_lowering_sound [OF g(2) keepsD(1) [OF g(3)] g(4)]
  show "lstate_ok l'" by (rule f(2))
  have "same_kinds (sg_store g) (ls_store l')" using f(1) by (simp add: store_step_def)
  moreover have "same_kinds (ls_store l) (sg_store g)" using g(3) by (simp add: keeps_def grows_def newSchemaGen_def)
  ultimately show "same_kinds (ls_store l) (ls_store l')" "t < length (ls_store l')"
    using same_kinds_trans g(4) by (auto simp: same_kinds_def intro: less_le_trans)
qed

end

lemma try_candidates_keeps:
  "try_candidates opt r cs l = Inr (n, l') \<Longrightarrow> ls_store l' = ls_store l \<and> ls_types l' = ls_types l \<and> ls_checked l' = ls_checked l"
  by (induction opt r cs l rule: try_candidates.induct) (auto split: if_splits)

lemma nameSchemaRef_keeps:
  "nameSchemaRef opt r l = Inr (n, l') \<Longrightarrow> ls_store l' = ls_store l \<and> ls_types l' = ls_types l \<and> ls_checked l' = ls_checked l"
  using try_candidates_keeps [of opt "snd r" _ l n l'] by (auto simp: nameSchemaRef_def Let_def split: if_splits option.splits)

interpretation agen: ref_naming "engine_env U opt L n" for U opt L n
proof unfold_locales
  fix r l m l' assume "le_name_ref (engine_env U opt L n) r l = Inr (m, l')"
  then have "engine_name_ref opt (el_show_ref L) (el_url_path L) r l = Inr (m, l')" by (simp add: engine_env_def)
  then obtain k where "nameSchemaRef opt r l = Inr (k, l')"
    by (auto simp: engine_name_ref_def Let_def split: if_splits)
  then show "ls_store l' = ls_store l \<and> ls_types l' = ls_types l \<and> ls_checked l' = ls_checked l" by (rule nameSchemaRef_keeps)
qed

section \<open>A lowering, run\<close>

definition list_tables :: case_tables where "list_tables = \<lparr>ct_is_upper = (\<lambda>_. True), ct_to_upper = id\<rparr>"
definition list_options :: options where
  "list_options = \<lparr>go_features = None, go_operations_regex = None, go_actions = [], go_ignore = [], go_initialisms = False\<rparr>"
definition list_libs :: engine_libs where
  "list_libs = \<lparr>el_schema = demo_lib, el_load = (\<lambda>_ _. None), el_show_ref = snd, el_url_path = (\<lambda>_. None),
     el_float_text = (\<lambda>_. [])\<rparr>"
text \<open>A list of texts.\<close>
definition list_state :: lstate where
  "list_state = gs_lower (gstate_start [no_schema\<lparr>js_type := ''array'', js_item := Some 1\<rparr>, no_schema\<lparr>js_type := ''string''\<rparr>] [])"

lemma list_state_ok: "lstate_ok list_state"
  by (simp add: lstate_ok_def list_state_def gstate_start_def types_ok_def table_refs_ok_def newTStorage_def)

lemmas lowering_run = engine_lower_def Generate_def newSchemaGen_def engine_env_def generate_step_def
  prepare_schema_def transformSchema_def transformSingleOneOf_def transformNullableUnionType_def flattenAllOfSchema_def
  generate2_step_def ref_name_def own_name_def lower_default_def empty_unique_items_def lower_composed_def lower_typed_def 
  lower_array_def new_itype_def put_store_def put_schemas_def regtype_def array_type_def schema_view_def no_schema_def deref_def
  lower_scalar_def primitive_type_def parseSimple_def format_lookup_def TypeFormatMapping_def string_formats_def scalar_validators_def
  SetString_def SetArray_def SetOgenValidate_def set_count_def set_pattern_def set_number_def Primitive_def new_type_def reg_new_def
  box_lowered_def boxType_def any_variant_def nullable_schema_def update_type_def finish_lowering_def saveSchemaTypes_def

lemma list_lowered:
  "\<exists>l'. engine_lower list_tables list_options list_libs 5 (\<lambda>_. 0) ''LampPayload'' sc list_state = Inr (Some 0, l')"
proof -
  have d: "defaultSchemaDepthLimit = Suc (Suc 998)" by (simp add: defaultSchemaDepthLimit_def)
  show ?thesis
    unfolding lowering_run d
    by (simp add: lower_schema_def list_state_def gstate_start_def eval_nat_numeral lowering_run Let_def list_libs_def list_options_def demo_lib_def)
qed

section \<open>Properties\<close>

text \<open>
  C3: when the engine lowers a schema to a type, whatever the schema, all types in the store, old and new, are
  sound: no array or map is left without its item, no wrapper, field or variant without its type, and
  nothing points outside the store; the type returned exists, and the kinds of existing types do not change.
\<close>

theorem lowering_keeps_types_sound:
  assumes "engine_lower U opt L n schema_at name sc l = Inr (Some t, l')" and "lstate_ok l"
  shows "lstate_ok l' \<and> sound_store (ls_store l') \<and> t < length (ls_store l') \<and> same_kinds (ls_store l) (ls_store l')"
  using agen.Generate_sound [OF assms(1) [unfolded engine_lower_def] assms(2)] types_ok_sound by (auto simp: lstate_ok_def)

lemma lowering_keeps_types_sound_witness:
  "\<exists>l'. engine_lower list_tables list_options list_libs 5 (\<lambda>_. 0) ''LampPayload'' (scalar ''list'') list_state = Inr (Some 0, l')
    \<and> sound_store (ls_store l')"
  using list_lowered [of "scalar ''list''"] lowering_keeps_types_sound [OF _ list_state_ok] by blast

text \<open>
  C23: a message part whose schema the engine lowers is always marked for JSON: following the pointers of the new
  type meets no missing type and ends, the part gets that very type, and the state stays fit for the next part.
\<close>

theorem lowered_parts_are_marked:
  assumes "gi_lower G = engine_lower U opt L n schema_at" and "lstate_ok l"
    and "engine_lower U opt L n schema_at name sc l = Inr (Some t, l1)"
  shows "\<exists>l2. lower_part G name (Some sc) l = Inr (Some t, l2) \<and> HasFeature (ls_store l2 ! t) ''json'' \<and> lstate_ok l2"
proof -
  have ok: "lstate_ok l1" "t < length (ls_store l1)"
    using agen.Generate_sound [OF assms(3) [unfolded engine_lower_def] assms(2)] by auto
  obtain st where st: "AddFeature ''json'' (Some t) (ls_store l1) = Inr st" "store_step {} (ls_store l1) st" "HasFeature (st ! t) ''json''"
    using add_feature_works [OF _ ok(2)] ok(1) by (auto simp: lstate_ok_def)
  have "length (ls_store l1) \<le> length st" using st(2) by (simp add: store_step_def same_kinds_def)
  then have "lstate_ok (l1\<lparr>ls_store := st\<rparr>)"
    using ok(1) store_step_ok [OF st(2)] by (fastforce simp: lstate_ok_def table_refs_ok_def)
  moreover have "lower_part G name (Some sc) l = Inr (Some t, l1\<lparr>ls_store := st\<rparr>)"
    using assms(1,3) st(1) by (simp add: lower_part_def)
  ultimately show ?thesis using st(3) by auto
qed

lemma lowered_parts_are_marked_witness:
  "\<exists>l2. lower_part (demo_input\<lparr>gi_lower := engine_lower list_tables list_options list_libs 5 (\<lambda>_. 0)\<rparr>) ''LampPayload''
      (Some (scalar ''list'')) list_state = Inr (Some 0, l2) \<and> HasFeature (ls_store l2 ! 0) ''json''"
proof -
  obtain l1 where "engine_lower list_tables list_options list_libs 5 (\<lambda>_. 0) ''LampPayload'' (scalar ''list'') list_state = Inr (Some 0, l1)"
    using list_lowered by blast
  from lowered_parts_are_marked [OF _ list_state_ok this, of "demo_input\<lparr>gi_lower := engine_lower list_tables list_options list_libs 5 (\<lambda>_. 0)\<rparr>"]
  show ?thesis by auto
qed

end
