(* ===== verification/EngineRefs.thy ===== *)
theory EngineRefs
  imports EngineProps
begin

text \<open>
  A schema that is referenced is lowered once: its type is registered under the reference, and every later
  lowering of a schema with that reference is a look-up that changes nothing.
\<close>

section \<open>The first lowering\<close>

text \<open>A schema with a reference that is not composed of others and has no external type.\<close>

definition plain_ref :: "ref_key \<Rightarrow> jschema \<Rightarrow> bool" where
  "plain_ref r s \<longleftrightarrow> js_ref s = r \<and> r \<noteq> ([], []) \<and> js_any_of s = [] \<and> js_all_of s = [] \<and> js_one_of s = [] \<and> js_ogen_type s = []"

lemma plain_prepared: "plain_ref r (ss ! sa) \<Longrightarrow> prepare_schema E (Some sa) ss = Inr (Some sa, ss)"
  by (simp add: plain_ref_def prepare_schema_def transformSchema_def transformSingleOneOf_def deref_def
      transformNullableUnionType_def flattenAllOfSchema_def)

lemma lower_default_schema:
  assumes "lower_default E sa g = Inr g'"
  shows "\<exists>b. sg_schemas g' ! sa = (sg_schemas g ! sa)\<lparr>js_default_set := b\<rparr>"
proof -
  have "g' = g \<or> g' = put_schemas ((sg_schemas g)[sa := (sg_schemas g ! sa)\<lparr>js_default_set := False\<rparr>]) g"
    using assms by (auto simp: lower_default_def Let_def split: if_splits)
  moreover have same: "\<exists>b. s = s\<lparr>js_default_set := b\<rparr>" for s :: jschema
    by (rule exI [of _ "js_default_set s"]) simp
  moreover have "\<exists>b. (ss[sa := (ss ! sa)\<lparr>js_default_set := False\<rparr>]) ! sa = (ss ! sa)\<lparr>js_default_set := b\<rparr>" for ss :: sstore
    using same by (cases "sa < length ss") (auto simp: list_update_beyond)
  ultimately show ?thesis by (elim disjE) simp_all
qed

lemma lower_composed_noted:
  assumes "gen_safe gen" and "lower_composed E gen gen2 name sa g = Inr (a, g')" and "gen_ok P g"
    and "plain_ref r (sg_schemas g ! sa)"
  shows "ref_noted (sg_schemas g ! sa) g'"
proof -
  let ?s = "sg_schemas g ! sa"
  have "object_enum E name sa g = Inr (a, g') \<or> reg_new name (Any (Some (schema_view ?s))) g = (a, g')
    \<or> lower_typed E gen name sa None None g = Inr (a, g')"
    using assms(2,4) unfolding lower_composed_def Let_def plain_ref_def by (auto split: if_splits)
  then show ?thesis
    using object_enum_keeps [OF _ assms(3)] lower_typed_keeps [OF assms(1) _ assms(3)] reg_new_ref_noted [of name _ g a g' ?s]
    by (elim disjE) (auto simp: Any_def)
qed

context ref_naming
begin

lemma ref_name_schemas:
  assumes "ref_name E name r g = Inr (n, g')" and "\<And>r l n l'. le_name_ref E r l = Inr (n, l') \<Longrightarrow> ls_schemas l' = ls_schemas l"
  shows "sg_schemas g' = sg_schemas g"
proof (cases "r = ([], [])")
  case True
  then show ?thesis using assms(1) by (simp add: ref_name_def)
next
  case False
  then obtain l where l: "le_name_ref E r (sg_l g) = Inr (n, l)" "g' = g\<lparr>sg_l := l\<rparr>" using assms(1) by (auto simp: ref_name_def)
  from assms(2) [OF l(1)] show ?thesis by (simp add: l(2))
qed

lemma first_lowering_noted:
  assumes "generate2_step E gen gen2 name (Some sa) g = Inr (t, g')" and "gen_safe gen" and "gen_ok P g"
    and "plain_ref r (sg_schemas g ! sa)" and "known_ref r g = None"
    and "\<And>r l n l'. le_name_ref E r l = Inr (n, l') \<Longrightarrow> ls_schemas l' = ls_schemas l"
  shows "r \<in> fst ` set (sg_refs g')"
proof -
  let ?s = "sg_schemas g ! sa"
  have r: "js_ref ?s = r" "r \<noteq> ([], [])" "js_ogen_type ?s = []" using assms(4) by (simp_all add: plain_ref_def)
  obtain n g1 where n: "ref_name E name r g = Inr (n, g1)"
    and rest: "(if js_ogen_type (sg_schemas g1 ! sa) \<noteq> [] then lower_external E (own_name (sg_schemas g1 ! sa) n) sa g1
      else bind_res (lower_default E sa g1) (\<lambda>g2.
        if empty_unique_items (sg_schemas g2) (sg_schemas g2 ! sa) then Inl (NotImplemented ''empty uniqueItems'')
        else lower_composed E gen gen2 (own_name (sg_schemas g1 ! sa) n) sa g2)) = Inr (t, g')"
    using assms(1,5) r by (auto simp: generate2_step_def Let_def)
  have s1: "sg_schemas g1 = sg_schemas g" by (rule ref_name_schemas [OF n assms(6)])
  obtain g2 where d: "lower_default E sa g1 = Inr g2"
    and c: "lower_composed E gen gen2 (own_name (sg_schemas g1 ! sa) n) sa g2 = Inr (t, g')"
    using rest r(3) by (auto simp: s1 split: if_splits)
  have k1: "keeps P g g1" by (rule ref_name_keeps [OF n assms(3)])
  have k2: "keeps P g1 g2" by (rule lower_default_keeps [OF d keepsD(1) [OF k1]])
  obtain b where b: "sg_schemas g2 ! sa = ?s\<lparr>js_default_set := b\<rparr>" using lower_default_schema [OF d] s1 by auto
  have "plain_ref r (sg_schemas g2 ! sa)" using assms(4) by (simp add: b plain_ref_def)
  from lower_composed_noted [OF assms(2) c keepsD(1) [OF k2] this] show ?thesis using r by (simp add: b ref_noted_def)
qed

lemma box_refs: "box_lowered optional nullable t g = Inr (b, g') \<Longrightarrow> sg_refs g' = sg_refs g"
  by (auto simp: box_lowered_def Let_def)

lemma schema_lowering_noted:
  assumes "lower_schema n E d name (Some sa) optional g = Inr (t, g')" and "gen_ok {} g"
    and "plain_ref r (sg_schemas g ! sa)" and "known_ref r g = None"
    and "\<And>r l n l'. le_name_ref E r l = Inr (n, l') \<Longrightarrow> ls_schemas l' = ls_schemas l"
  shows "r \<in> fst ` set (sg_refs g')"
proof -
  obtain d' where d: "d = Suc d'" and step: "generate_step E (lower_bare n E d') name (Some sa) optional g = Inr (t, g')"
    using assms(1) by (cases d) (auto simp: lower_schema_def)
  obtain u g1 where u: "lower_bare n E d' name (Some sa) (put_schemas (sg_schemas g) g) = Inr (u, g1)" and refs: "sg_refs g' = sg_refs g1"
    using step plain_prepared [OF assms(3)] box_refs by (auto simp: generate_step_def)
  obtain m where m: "n = Suc m" using u by (cases n) auto
  let ?gen = "case d' of 0 \<Rightarrow> (\<lambda>name p optional g. Inl DepthExceeded) | Suc d'' \<Rightarrow> generate_step E (lower_bare m E d'')"
  have safe: "gen_safe ?gen" by (cases d') (simp_all add: stuck_safe generate_step_safe lower_bare_safe)
  have "generate2_step E ?gen (lower_bare m E d') name (Some sa) g = Inr (u, g1)"
    using u by (simp add: m put_schemas_def)
  from first_lowering_noted [OF this safe assms(2,3,4,5)] show ?thesis by (simp add: refs)
qed

end

section \<open>Later lowerings\<close>

lemma known_boxed:
  assumes "t < sg_len g" and "types_ok {} (sg_store g)" and "ty_kind (sg_store g ! t) \<noteq> KindGeneric"
  shows "box_lowered False False t g = Inr (t, g)"
proof -
  have "points (sg_len g) (ty_alias_to (sg_store g ! t))" if "ty_kind (sg_store g ! t) = KindAlias"
    using assms(1,2) that by (auto simp: types_ok_def ready_def sound_type_def)
  then have "boxType t \<lparr>gv_nullable = False, gv_optional = False\<rparr> (sg_store g) = Inr (t, sg_store g)"
    by (auto simp: boxType_def any_variant_def Let_def points_def)
  then show ?thesis using assms(3) by (simp add: box_lowered_def Let_def put_store_def)
qed

lemma later_lookup:
  assumes "lstate_ok l" and "refs_checked l" and "map_of (tst_refs (ls_types l)) (fst r, snd r, EncodingJSON) = Some t"
    and "ty_kind (ls_store l ! t) \<noteq> KindGeneric" and "plain_ref r (ls_schemas l ! sa)" and "\<not> js_nullable (ls_schemas l ! sa)"
  shows "Generate (Suc m) E (Suc d) name (Some sa) False l = Inr (Some t, l)"
proof -
  let ?g = "newSchemaGen l"
  have mem: "((fst r, snd r, EncodingJSON), t) \<in> set (tst_refs (ls_types l))" using assms(3) by (rule map_of_SomeD)
  then have len: "t < length (ls_store l)" using assms(1) by (auto simp: lstate_ok_def table_refs_ok_def)
  have r: "js_ref (ls_schemas l ! sa) = r" "r \<noteq> ([], [])" using assms(5) by (simp_all add: plain_ref_def)
  have g: "sg_l ?g = l" "sg_side ?g = []" "sg_refs ?g = []" by (simp_all add: newSchemaGen_def)
  have known: "known_ref r ?g = Some t" using assms(3) by (simp add: known_ref_def g)
  have bare: "generate2_step E gen gen2 name (Some sa) ?g = Inr (t, ?g)" for gen gen2
    using r known by (simp add: generate2_step_def Let_def g)
  have box: "box_lowered False False t ?g = Inr (t, ?g)"
    by (rule known_boxed) (use len assms(1,4) in \<open>simp_all add: g lstate_ok_def\<close>)
  have "put_schemas (ls_schemas l) ?g = ?g" by (simp add: put_schemas_def newSchemaGen_def)
  then have low: "lower_schema (Suc m) E (Suc d) name (Some sa) False ?g = Inr (t, ?g)"
    using plain_prepared [OF assms(5)] bare box assms(6) by (simp add: lower_schema_def generate_step_def g nullable_schema_def)
  have "t \<in> snd ` set (tst_refs (ls_types l))" using mem by force
  then have "ty_kind (ls_store l ! t) = KindStruct \<longrightarrow> t \<in> set (ls_checked l)"
    using assms(2) by (auto simp: refs_checked_def checks_def)
  then have "finish_lowering n t ?g = Inr l" for n by (simp add: finish_lowering_def saveSchemaTypes_def g Let_def)
  then show ?thesis using low by (simp add: Generate_def)
qed

section \<open>The engine\<close>

lemma try_candidates_schemas: "try_candidates opt r cs l = Inr (n, l') \<Longrightarrow> ls_schemas l' = ls_schemas l"
  by (induction opt r cs l rule: try_candidates.induct) (auto split: if_splits)

lemma engine_names_schemas:
  assumes "le_name_ref (engine_env U opt L n) r l = Inr (m, l')"
  shows "ls_schemas l' = ls_schemas l"
proof -
  obtain k where "nameSchemaRef opt r l = Inr (k, l')"
    using assms by (auto simp: engine_env_def engine_name_ref_def Let_def split: if_splits)
  then show ?thesis
    using try_candidates_schemas [of opt "snd r" _ l k l'] by (auto simp: nameSchemaRef_def Let_def split: if_splits option.splits)
qed

text \<open>A schema of texts that is referenced, and its lowering.\<close>

definition text_ref :: ref_key where "text_ref = ([], ''#/components/schemas/Text'')"

definition text_state :: lstate where
  "text_state = list_state\<lparr>ls_schemas := [no_schema\<lparr>js_type := ''string'', js_ref := text_ref\<rparr>],
     ls_ref_names := [snd text_ref \<mapsto> ''Text'']\<rparr>"

lemma text_state_ok: "lstate_ok text_state" "refs_checked text_state"
  by (simp_all add: text_state_def list_state_def gstate_start_def lstate_ok_def types_ok_def table_refs_ok_def newTStorage_def
      refs_checked_def checks_def)

lemma text_plain: "plain_ref text_ref (ls_schemas text_state ! 0)"
  by (simp add: plain_ref_def text_state_def text_ref_def no_schema_def)

lemma text_lowered:
  "\<exists>l'. engine_lower list_tables list_options list_libs 5 (\<lambda>_. 0) ''LampPayload'' sc text_state = Inr (Some 1, l')
    \<and> map_of (tst_refs (ls_types l')) (fst text_ref, snd text_ref, EncodingJSON) = Some 1
    \<and> ty_kind (ls_store l' ! 1) = KindAlias \<and> ls_schemas l' = ls_schemas text_state"
proof -
  have d: "defaultSchemaDepthLimit = Suc 999" by (simp add: defaultSchemaDepthLimit_def)
  have n: "nameSchemaRef opt ([], ''#/components/schemas/Text'') l = Inr (''Text'', l)"
    if "ls_ref_names l ''#/components/schemas/Text'' = Some ''Text''" for opt l
    using that by (simp add: nameSchemaRef_def trim_prefix_def has_prefix_def)
  show ?thesis
    unfolding lowering_run d
    by (simp add: n lower_schema_def text_state_def list_state_def gstate_start_def eval_nat_numeral lowering_run Let_def list_libs_def
        list_options_def demo_lib_def text_ref_def known_ref_def newTStorage_def engine_name_ref_def refs_set_def Alias_def
        saveRef_def put_type_def Any_def)
qed

section \<open>Property\<close>

abbreviation registered :: "ref_key \<Rightarrow> lstate \<Rightarrow> tref option" where
  "registered r l \<equiv> map_of (tst_refs (ls_types l)) (fst r, snd r, EncodingJSON)"

text \<open>
  C11: a referenced schema is lowered once. If its lowering succeeds, a type is registered under the reference, and
  every later lowering of a schema with that reference, which is not nullable and whose type is no wrapper,
  answers that type and changes nothing: no type is made or registered again.
\<close>

theorem referenced_schema_lowered_once:
  assumes "engine_lower U opt L n schema_at name sc l = Inr (Some t, l1)" and "lstate_ok l" and "refs_checked l"
    and "plain_ref r (ls_schemas l ! schema_at sc)"
  shows "refs_checked l1 \<and> (\<exists>u. registered r l1 = Some u \<and> (ty_kind (ls_store l1 ! u) \<noteq> KindGeneric \<longrightarrow>
    (\<forall>m schema_at' name' sc'. plain_ref r (ls_schemas l1 ! schema_at' sc') \<and> \<not> js_nullable (ls_schemas l1 ! schema_at' sc') \<longrightarrow>
      engine_lower U opt L (Suc m) schema_at' name' sc' l1 = Inr (Some u, l1))))"
proof -
  let ?E = "engine_env U opt L n" and ?g = "newSchemaGen l"
  obtain g where low: "lower_schema n ?E defaultSchemaDepthLimit name (Some (schema_at sc)) False ?g = Inr (t, g)"
    and fin: "finish_lowering (le_fuel ?E) t g = Inr l1" and k: "keeps {} ?g g" and t: "t < sg_len g"
    by (rule agen.Generate_lowered [OF assms(1) [unfolded engine_lower_def] assms(2)])
  note f = finish_lowering_sound [OF fin keepsD(1) [OF k] t]
  have g0: "sg_l ?g = l" "sg_refs ?g = []" by (simp_all add: newSchemaGen_def)
  have ok0: "gen_ok {} ?g"
    using assms(2) by (auto simp: lstate_ok_def table_refs_ok_def gen_ok_def refs_ok_def newSchemaGen_def)
  have same: "ls_types (sg_l g) = ls_types l" "ls_checked (sg_l g) = ls_checked l" "same_kinds (ls_store l) (sg_store g)"
    using k by (simp_all add: keeps_def grows_def g0)
  have checked: "refs_checked (sg_l g)"
    using assms(2,3) same(3) unfolding refs_checked_def checks_def same(1,2) lstate_ok_def table_refs_ok_def same_kinds_def
    by (auto, metis (no_types, lifting) case_prodD snd_conv)
  have "r \<in> fst ` set (sg_refs g) \<or> registered r l \<noteq> None"
  proof (cases "known_ref r ?g")
    case None
    from agen.schema_lowering_noted [OF low ok0 _ None engine_names_schemas] show ?thesis using assms(4) by (simp add: g0)
  next
    case (Some u)
    then show ?thesis by (auto simp: known_ref_def g0 split: option.splits)
  qed
  then have "(fst r, snd r, EncodingJSON) \<in> fst ` set (tst_refs (ls_types l1))"
    unfolding f(3) same(1) by (force simp: map_of_eq_None_iff)
  then obtain u where u: "registered r l1 = Some u" using map_of_eq_None_iff [of "tst_refs (ls_types l1)"] by fastforce
  have d: "defaultSchemaDepthLimit = Suc 999" by (simp add: defaultSchemaDepthLimit_def)
  have "engine_lower U opt L (Suc m) schema_at' name' sc' l1 = Inr (Some u, l1)"
    if "ty_kind (ls_store l1 ! u) \<noteq> KindGeneric" "plain_ref r (ls_schemas l1 ! schema_at' sc')" "\<not> js_nullable (ls_schemas l1 ! schema_at' sc')"
    for m schema_at' name' sc'
    unfolding engine_lower_def d by (rule later_lookup [OF f(2) f(4) [OF checked] u that])
  then show ?thesis using f(4) [OF checked] u by blast
qed

lemma referenced_schema_lowered_once_witness:
  "\<exists>l1. engine_lower list_tables list_options list_libs 5 (\<lambda>_. 0) ''LampPayload'' (scalar ''text'') text_state = Inr (Some 1, l1)
    \<and> engine_lower list_tables list_options list_libs 5 (\<lambda>_. 0) ''LampHeaders'' (scalar ''text'') l1 = Inr (Some 1, l1)"
proof -
  obtain l1 where l1: "engine_lower list_tables list_options list_libs 5 (\<lambda>_. 0) ''LampPayload'' (scalar ''text'') text_state = Inr (Some 1, l1)"
    "registered text_ref l1 = Some 1" "ty_kind (ls_store l1 ! 1) = KindAlias" "ls_schemas l1 = ls_schemas text_state"
    using text_lowered [of "scalar ''text''"] by blast
  have nn: "\<not> js_nullable (ls_schemas text_state ! 0)" by (simp add: text_state_def no_schema_def)
  have all: "\<forall>m schema_at' name' sc'. plain_ref text_ref (ls_schemas text_state ! schema_at' sc')
      \<and> \<not> js_nullable (ls_schemas text_state ! schema_at' sc') \<longrightarrow>
      engine_lower list_tables list_options list_libs (Suc m) schema_at' name' sc' l1 = Inr (Some 1, l1)"
    using referenced_schema_lowered_once [OF l1(1) text_state_ok text_plain] l1(2,3,4) by simp
  have "engine_lower list_tables list_options list_libs (Suc 4) (\<lambda>_. 0) ''LampHeaders'' (scalar ''text'') l1 = Inr (Some 1, l1)"
    using all [THEN spec [of _ 4], THEN spec [of _ "\<lambda>_. 0"], THEN spec [of _ "''LampHeaders''"], THEN spec [of _ "scalar ''text''"]]
      text_plain nn by simp
  then show ?thesis using l1(1) by auto
qed

end
