(* ===== verification/RecursionProps.thy ===== *)
theory RecursionProps
  imports Lowering
begin

text \<open>
  What \<open>RecursiveTo\<close> of internal/ir/recursion.go decides: whether a struct can be reached from a field's type by
  containment, or a type that contains itself can. The second case takes in types that have nothing to do with
  the struct.
\<close>

section \<open>Containment\<close>

definition contained :: "itype \<Rightarrow> tref option list" where
  "contained t = (case ty_kind t of
       KindAlias \<Rightarrow> [ty_alias_to t]
     | KindGeneric \<Rightarrow> [ty_generic_of t]
     | KindStruct \<Rightarrow> map fd_type (ty_fields t)
     | KindSum \<Rightarrow> ty_sum_of t
     | _ \<Rightarrow> [])"

definition opaque :: "itype \<Rightarrow> bool" where
  "opaque t \<longleftrightarrow> ty_kind t \<in> {KindConst, KindInterface, KindStream}"

text \<open>No pointer of a type that is passed through dangles, and none is followed out of the store.\<close>

definition containment_ok :: "store \<Rightarrow> bool" where
  "containment_ok st \<longleftrightarrow> (\<forall>t \<in> set st. \<forall>c \<in> set (contained t). \<exists>a < length st. c = Some a \<and> \<not> opaque (st ! a))"

definition holds :: "store \<Rightarrow> tref \<Rightarrow> tref \<Rightarrow> bool" where
  "holds st a b \<longleftrightarrow> a < length st \<and> Some b \<in> set (contained (st ! a)) \<and> \<not> recursion_stops (ty_kind (st ! b))"

text \<open>The answer of the traversal with the types of \<open>P\<close> on the path.\<close>

inductive meets :: "store \<Rightarrow> (tref \<Rightarrow> bool) \<Rightarrow> tref set \<Rightarrow> tref \<Rightarrow> bool" for st goal where
  here: "goal a \<or> a \<in> P \<Longrightarrow> \<not> recursion_stops (ty_kind (st ! a)) \<Longrightarrow> meets st goal P a"
| step: "\<not> recursion_stops (ty_kind (st ! a)) \<Longrightarrow> Some b \<in> set (contained (st ! a)) \<Longrightarrow> meets st goal (insert a P) b \<Longrightarrow> meets st goal P a"

inductive_simps meets_unfold: "meets st goal P a"

lemma any_child_results:
  "\<forall>c \<in> set cs. f c = Inr (p c) \<Longrightarrow> any_type f cs = Inr (\<exists>c \<in> set cs. p c)"
  by (induction cs) auto

lemma children_contained: "\<not> opaque t \<Longrightarrow> \<not> recursion_stops (ty_kind t) \<Longrightarrow> recursion_children t = Inr (contained t)"
  by (cases "ty_kind t") (auto simp: recursion_children_def contained_def opaque_def recursion_stops_def)

lemma recursive_meets:
  assumes "containment_ok st" and "\<not> recursion_stops (ty_kind (st ! s))" and "\<And>a. a < length st \<Longrightarrow> same a = Inr (eq a)"
  shows "a < length st \<Longrightarrow> \<not> opaque (st ! a) \<Longrightarrow> set path \<subseteq> {..<length st} \<Longrightarrow> card ({..<length st} - set path) < n \<Longrightarrow>
    recursive n same st s path (Some a) = Inr (meets st (\<lambda>x. x = s \<or> eq x) (set path) a)"
proof (induction n arbitrary: a path)
  case (Suc n)
  let ?goal = "\<lambda>x. x = s \<or> eq x"
  have eq: "(if s = a then Inr True else same a) = Inr (?goal a)" using assms(3) [OF Suc.prems(1)] by auto
  show ?case
  proof (cases "recursion_stops (ty_kind (st ! a)) \<or> ?goal a \<or> a \<in> set path")
    case True
    then show ?thesis using eq assms(2) by (subst meets_unfold) auto
  next
    case False
    let ?cs = "contained (st ! a)"
    have ok: "\<forall>c \<in> set ?cs. \<exists>b < length st. c = Some b \<and> \<not> opaque (st ! b)"
      using assms(1) Suc.prems(1) by (auto simp: containment_ok_def)
    have less: "{..<length st} - set (a # path) = {..<length st} - set path - {a}" by auto
    have lt: "card ({..<length st} - set path - {a}) < card ({..<length st} - set path)"
      by (rule card_Diff1_less) (use False Suc.prems(1) in auto)
    have le: "card ({..<length st} - set path) \<le> n" using Suc.prems(4) by (rule less_Suc_eq_le [THEN iffD1])
    have c: "card ({..<length st} - set (a # path)) < n" unfolding less by (rule less_le_trans [OF lt le])
    have "recursive n same st s (a # path) c = Inr (meets st ?goal (set (a # path)) (the c))" if cs: "c \<in> set ?cs" for c
    proof -
      obtain b where b: "c = Some b" "b < length st" "\<not> opaque (st ! b)" using bspec [OF ok cs] by blast
      have "set (a # path) \<subseteq> {..<length st}" using Suc.prems(1,3) by simp
      from Suc.IH [OF b(2,3) this c] show ?thesis by (simp add: b(1))
    qed
    then have "any_type (recursive n same st s (a # path)) ?cs = Inr (\<exists>c \<in> set ?cs. meets st ?goal (set (a # path)) (the c))"
      by (intro any_child_results) simp
    moreover have "(\<exists>c \<in> set ?cs. meets st ?goal (set (a # path)) (the c)) = meets st ?goal (set path) a"
    proof
      assume "\<exists>c \<in> set ?cs. meets st ?goal (set (a # path)) (the c)"
      then obtain b where "Some b \<in> set ?cs" "meets st ?goal (insert a (set path)) b" using ok by auto
      then show "meets st ?goal (set path) a" using False meets.step [of st a b ?goal "set path"] by blast
    next
      assume "meets st ?goal (set path) a"
      then obtain b where "Some b \<in> set ?cs" "meets st ?goal (insert a (set path)) b"
        using False by (subst (asm) meets_unfold) blast
      then show "\<exists>c \<in> set ?cs. meets st ?goal (set (a # path)) (the c)" by (intro bexI [of _ "Some b"]) simp_all
    qed
    moreover have "recursive (Suc n) same st s path (Some a) = any_type (recursive n same st s (a # path)) ?cs"
      using False eq assms(2) children_contained [OF Suc.prems(2)] by (simp only: recursive.simps) simp
    ultimately show ?thesis by (simp only:)
  qed
qed simp

lemma meets_reaches:
  "meets st goal P a \<Longrightarrow> containment_ok st \<Longrightarrow> a < length st \<Longrightarrow> \<forall>p \<in> P. (holds st)\<^sup>+\<^sup>+ p a \<Longrightarrow>
   \<exists>x. (holds st)\<^sup>*\<^sup>* a x \<and> (goal x \<or> (holds st)\<^sup>+\<^sup>+ x x)"
proof (induction rule: meets.induct)
  case (here a P)
  then show ?case by blast
next
  case (step a b P)
  have b: "b < length st" using step.prems(1,2) step.hyps(2) by (auto simp: containment_ok_def)
  have "\<not> recursion_stops (ty_kind (st ! b))" using step.hyps(3) by (cases rule: meets.cases) auto
  then have e: "holds st a b" using step.prems(2) step.hyps(2) by (simp add: holds_def)
  have "\<forall>p \<in> insert a P. (holds st)\<^sup>+\<^sup>+ p b" using e step.prems(3) by (auto intro: tranclp.trancl_into_trancl)
  from step.IH [OF step.prems(1) b this] show ?case using e by (meson converse_rtranclp_into_rtranclp)
qed

lemma reaches_meets:
  "card ({..<length st} - P) = n \<Longrightarrow> containment_ok st \<Longrightarrow> a < length st \<Longrightarrow> \<not> recursion_stops (ty_kind (st ! a)) \<Longrightarrow>
   (holds st)\<^sup>*\<^sup>* a x \<Longrightarrow> goal x \<or> (holds st)\<^sup>+\<^sup>+ x x \<Longrightarrow> meets st goal P a"
proof (induction n arbitrary: P a rule: less_induct)
  case (less n)
  show ?case
  proof (cases "goal a \<or> a \<in> P")
    case True
    then show ?thesis using less.prems(4) by (rule meets.here)
  next
    case False
    have "\<exists>b. holds st a b \<and> (holds st)\<^sup>*\<^sup>* b x"
    proof (cases "a = x")
      case True
      then have "(holds st)\<^sup>+\<^sup>+ a x" using False less.prems(6) by blast
      then show ?thesis by (meson tranclpD)
    next
      case False
      then show ?thesis using less.prems(5) by (meson converse_rtranclpE)
    qed
    then obtain b where b: "holds st a b" "(holds st)\<^sup>*\<^sup>* b x" by blast
    have bl: "b < length st" using b(1) less.prems(2) by (auto simp: holds_def containment_ok_def)
    have "{..<length st} - insert a P = {..<length st} - P - {a}" by auto
    moreover have "a \<in> {..<length st} - P" using False less.prems(3) by simp
    ultimately have "card ({..<length st} - insert a P) < n"
      using less.prems(1) card_Diff1_less [of "{..<length st} - P" a] by simp
    from less.IH [OF this refl less.prems(2) bl _ b(2) less.prems(6)] have "meets st goal (insert a P) b"
      using b(1) by (simp add: holds_def)
    then show ?thesis using b(1) less.prems(4) by (auto simp: holds_def intro: meets.step)
  qed
qed

section \<open>Deep equality\<close>

text \<open>
  Types are deeply equal if some relation between equal shapes is kept by following their pointers: a bisimulation.
\<close>

definition pointers_ok :: "store \<Rightarrow> bool" where
  "pointers_ok st \<longleftrightarrow> (\<forall>t \<in> set st. \<forall>c \<in> set (deep_children t). c = None \<or> (\<exists>a < length st. c = Some a))"

definition related :: "(tref \<times> tref) set \<Rightarrow> tref option \<Rightarrow> tref option \<Rightarrow> bool" where
  "related R p q \<longleftrightarrow> (case (p, q) of
     (None, None) \<Rightarrow> True
   | (Some a, Some b) \<Rightarrow> a = b \<or> (a, b) \<in> R
   | _ \<Rightarrow> False)"

definition alike :: "store \<Rightarrow> (tref \<times> tref) set \<Rightarrow> tref \<Rightarrow> tref \<Rightarrow> bool" where
  "alike st R a b \<longleftrightarrow> deep_shape (st ! a) = deep_shape (st ! b)
     \<and> (\<forall>(p, q) \<in> set (zip (deep_children (st ! a)) (deep_children (st ! b))). related R p q)"

definition same_type :: "store \<Rightarrow> tref \<Rightarrow> tref \<Rightarrow> bool" where
  "same_type st a b \<longleftrightarrow> (\<exists>R. (\<forall>(c, d) \<in> R. alike st R c d) \<and> (a = b \<or> (a, b) \<in> R))"

lemma related_mono: "related R p q \<Longrightarrow> R \<subseteq> R' \<Longrightarrow> related R' p q"
  by (auto simp: related_def split: option.splits)

lemma alike_mono: "alike st R a b \<Longrightarrow> R \<subseteq> R' \<Longrightarrow> alike st R' a b"
  using related_mono by (fastforce simp: alike_def)

text \<open>A positive answer is witnessed by the pairs that were compared.\<close>

lemma deep_equal_sound:
  "deep_equal n st seen ps = Inr True \<Longrightarrow>
   \<exists>R. set seen \<subseteq> R \<and> (\<forall>(p, q) \<in> set ps. related R p q) \<and> (\<forall>(c, d) \<in> R - set seen. alike st R c d)"
proof (induction n st seen ps rule: deep_equal.induct)
  case (6 n st seen a b ps)
  show ?case
  proof (cases "a = b \<or> (a, b) \<in> set seen")
    case True
    then obtain R where R: "set seen \<subseteq> R" "\<forall>(p, q) \<in> set ps. related R p q" "\<forall>(c, d) \<in> R - set seen. alike st R c d"
      using "6.IH"(1) "6.prems" by auto
    have "related R (Some a) (Some b)" using True R(1) by (auto simp: related_def)
    then show ?thesis using R by (intro exI [of _ R]) simp
  next
    case False
    let ?zs = "zip (deep_children (st ! a)) (deep_children (st ! b))"
    have shape: "deep_shape (st ! a) = deep_shape (st ! b)" using False "6.prems" by (simp split: if_splits)
    then obtain R where R: "set ((a, b) # seen) \<subseteq> R" "\<forall>(p, q) \<in> set (?zs @ ps). related R p q"
        "\<forall>(c, d) \<in> R - set ((a, b) # seen). alike st R c d"
      using "6.IH"(2) [OF False] False "6.prems" by auto
    have "alike st R a b" using R(2) shape by (auto simp: alike_def)
    then have "\<forall>(c, d) \<in> R - set seen. alike st R c d" using R(3) by auto
    moreover have "related R (Some a) (Some b)" using R(1) by (simp add: related_def)
    ultimately show ?thesis using R(1,2) by (intro exI [of _ R]) auto
  qed
qed (auto simp: related_def)

lemma deep_equal_complete:
  "deep_equal n st seen ps = Inr False \<Longrightarrow> \<forall>(c, d) \<in> R. alike st R c d \<Longrightarrow> \<not> (\<forall>(p, q) \<in> set ps. related R p q)"
proof (induction n st seen ps rule: deep_equal.induct)
  case (6 n st seen a b ps)
  show ?case
  proof (cases "a = b \<or> (a, b) \<in> set seen")
    case True
    then show ?thesis using 6 by auto
  next
    case False
    show ?thesis
    proof
      assume rel: "\<forall>(p, q) \<in> set ((Some a, Some b) # ps). related R p q"
      then have "(a, b) \<in> R" using False by (auto simp: related_def)
      then have al: "alike st R a b" using "6.prems"(2) by blast
      then have "deep_equal n st ((a, b) # seen) (zip (deep_children (st ! a)) (deep_children (st ! b)) @ ps) = Inr False"
        using False "6.prems"(1) by (simp add: alike_def)
      from "6.IH"(2) [OF False _ this "6.prems"(2)] show False using al rel by (auto simp: alike_def)
    qed
  qed
qed (auto simp: related_def)

text \<open>Every pair of types is compared once, so fuel for all their pointers is enough.\<close>

definition deep_width :: "store \<Rightarrow> nat" where
  "deep_width st = Max (insert 0 ((length \<circ> deep_children) ` set st))"

definition deep_fuel :: "store \<Rightarrow> nat" where
  "deep_fuel st = Suc (length st * length st * deep_width st)"

lemma children_width: "a < length st \<Longrightarrow> length (deep_children (st ! a)) \<le> deep_width st"
  unfolding deep_width_def by (intro Max_ge) (auto simp: comp_def)

lemma unseen_pairs:
  fixes N :: nat
  assumes "a < N" and "b < N" and "(a, b) \<notin> S"
  shows "card ({..<N} \<times> {..<N} - S) = Suc (card ({..<N} \<times> {..<N} - insert (a, b) S))"
proof -
  have "{..<N} \<times> {..<N} - insert (a, b) S = {..<N} \<times> {..<N} - S - {(a, b)}" by auto
  moreover have "(a, b) \<in> {..<N} \<times> {..<N} - S" using assms by simp
  moreover have "finite ({..<N} \<times> {..<N} - S)" by (intro finite_Diff finite_cartesian_product) simp_all
  ultimately show ?thesis using card_Suc_Diff1 [of "{..<N} \<times> {..<N} - S" "(a, b)"] by simp
qed

abbreviation inside :: "store \<Rightarrow> tref option \<times> tref option \<Rightarrow> bool" where
  "inside st p \<equiv> (\<forall>a. fst p = Some a \<longrightarrow> a < length st) \<and> (\<forall>a. snd p = Some a \<longrightarrow> a < length st)"

lemma deep_equal_ends:
  "pointers_ok st \<Longrightarrow> \<forall>p \<in> set ps. inside st p \<Longrightarrow>
   card ({..<length st} \<times> {..<length st} - set seen) * deep_width st + length ps \<le> n \<Longrightarrow> \<exists>b. deep_equal n st seen ps = Inr b"
proof (induction n st seen ps rule: deep_equal.induct)
  case (6 n st seen a b ps)
  let ?N = "length st" and ?zs = "zip (deep_children (st ! a)) (deep_children (st ! b))"
  have ab: "a < ?N" "b < ?N" using "6.prems"(2) by auto
  show ?case
  proof (cases "a = b \<or> (a, b) \<in> set seen")
    case True
    then show ?thesis using "6.IH"(1) [OF True "6.prems"(1)] "6.prems"(2,3) by simp
  next
    case False
    show ?thesis
    proof (cases "deep_shape (st ! a) = deep_shape (st ! b)")
      case True
      have kids: "\<forall>c \<in> set (deep_children (st ! a)) \<union> set (deep_children (st ! b)). \<forall>d. c = Some d \<longrightarrow> d < ?N"
        using "6.prems"(1) ab unfolding pointers_ok_def by (metis UnE nth_mem option.discI option.inject)
      have "inside st p" if "p \<in> set ?zs" for p
      proof -
        have "fst p \<in> set (deep_children (st ! a))" "snd p \<in> set (deep_children (st ! b))"
          using that by (metis prod.collapse set_zip_leftD, metis prod.collapse set_zip_rightD)
        then show ?thesis using kids by (metis UnI1 UnI2)
      qed
      then have "\<forall>p \<in> set (?zs @ ps). inside st p" using "6.prems"(2) by auto
      moreover have "card ({..<?N} \<times> {..<?N} - set ((a, b) # seen)) * deep_width st + length (?zs @ ps) \<le> n"
        using unseen_pairs [OF ab, of "set seen"] False "6.prems"(3) children_width [OF ab(1)] by simp
      ultimately have "\<exists>r. deep_equal n st ((a, b) # seen) (?zs @ ps) = Inr r"
        using "6.IH"(2) [OF False _ "6.prems"(1)] True by simp
      then show ?thesis using False True by simp
    next
      case neq: False
      then show ?thesis using False by (intro exI [of _ False]) simp
    qed
  qed
qed auto

lemma deep_equal_same_type:
  assumes "pointers_ok st" and "s < length st" and "x < length st" and "deep_fuel st \<le> n"
  shows "deep_equal n st [] [(Some s, Some x)] = Inr (same_type st s x)"
proof -
  have "\<exists>b. deep_equal n st [] [(Some s, Some x)] = Inr b"
    using assms by (intro deep_equal_ends) (simp_all add: deep_fuel_def)
  then obtain b where b: "deep_equal n st [] [(Some s, Some x)] = Inr b" ..
  have "b = same_type st s x"
  proof (cases b)
    case True
    then have "deep_equal n st [] [(Some s, Some x)] = Inr True" using b by simp
    from deep_equal_sound [OF this] True show ?thesis by (auto simp: same_type_def related_def)
  next
    case False
    then have "deep_equal n st [] [(Some s, Some x)] = Inr False" using b by simp
    from deep_equal_complete [OF this] False show ?thesis by (auto simp: same_type_def related_def)
  qed
  then show ?thesis using b by simp
qed

text \<open>
  C9: given fuel for its pairs of types, the test for recursive structs ends on every store and answers yes
  exactly if, from the type of the field and passing through structs, sums, aliases and optional wrappers, one
  can reach the struct or a type that is deeply equal to it, or any type that contains itself that way.
\<close>

theorem recursive_to_iff:
  assumes "containment_ok st" and "pointers_ok st" and "deep_fuel st \<le> n"
    and "s < length st" and "ty_kind (st ! s) = KindStruct"
    and "a < length st" and "\<not> opaque (st ! a)" and "\<not> recursion_stops (ty_kind (st ! a))"
  shows "RecursiveTo n st s (Some a) = Inr (\<exists>x. (holds st)\<^sup>*\<^sup>* a x \<and> (same_type st s x \<or> (holds st)\<^sup>+\<^sup>+ x x))"
proof -
  let ?goal = "\<lambda>x. x = s \<or> same_type st s x"
  have stop: "\<not> recursion_stops (ty_kind (st ! s))" using assms(5) by (simp add: recursion_stops_def)
  have "same_type st s s" unfolding same_type_def by blast
  then have goal: "?goal x = same_type st s x" for x by auto
  have eq: "deep_equal n st [] [(Some s, Some x)] = Inr (same_type st s x)" if "x < length st" for x
    by (rule deep_equal_same_type [OF assms(2,4) that assms(3)])
  have "RecursiveTo n st s (Some a) = Inr (meets st ?goal (set []) a)"
    unfolding RecursiveTo_def
    by (rule recursive_meets [where same = "\<lambda>a. deep_equal n st [] [(Some s, Some a)]" and eq = "same_type st s",
          OF assms(1) stop eq assms(6,7)]) simp_all
  moreover have "meets st ?goal (set []) a \<longleftrightarrow> (\<exists>x. (holds st)\<^sup>*\<^sup>* a x \<and> (?goal x \<or> (holds st)\<^sup>+\<^sup>+ x x))"
    using meets_reaches [OF _ assms(1,6), of ?goal "{}"] reaches_meets [OF refl assms(1,6,8), of _ ?goal "{}"] by auto
  ultimately show ?thesis by (simp add: goal)
qed

text \<open>A message that requires a node; a node that may have another one, in a field that is not its first.\<close>

definition node_store :: store where
  "node_store = [
     (new_type KindStruct ''Message'')\<lparr>ty_fields := [\<lparr>fd_name = ''Root'', fd_type = Some 1, fd_json = ''root'', fd_inline = InlineNone,
        fd_spec = Some \<lparr>fp_name = ''root'', fp_required = True, fp_nullable = False, fp_const = None\<rparr>\<rparr>]\<rparr>,
     (new_type KindStruct ''Node'')\<lparr>ty_fields := [plain_field ''Id'' (Some 3),
        \<lparr>fd_name = ''Next'', fd_type = Some 2, fd_json = ''next'', fd_inline = InlineNone,
         fd_spec = Some \<lparr>fp_name = ''next'', fp_required = False, fp_nullable = False, fp_const = None\<rparr>\<rparr>]\<rparr>,
     (new_type KindGeneric ''OptNode'')\<lparr>ty_generic_of := Some 1\<rparr>,
     (new_type KindPrimitive [])\<lparr>ty_primitive := ''string''\<rparr>]"

lemmas node_defs = node_store_def new_type_def plain_field_def

lemma node_store_ok: "containment_ok node_store" "pointers_ok node_store"
  by (simp_all add: containment_ok_def pointers_ok_def node_defs opaque_def contained_def deep_children_def no_sum_spec_def)

lemma recursive_to_iff_witness: "RecursiveTo (deep_fuel node_store) node_store 0 (Some 1) = Inr True"
proof -
  have "holds node_store 1 2" "holds node_store 2 1"
    by (simp_all add: holds_def node_defs contained_def recursion_stops_def)
  then have "(holds node_store)\<^sup>+\<^sup>+ 1 1" by (rule tranclp_trans [OF tranclp.r_into_trancl tranclp.r_into_trancl])
  then have "\<exists>x. (holds node_store)\<^sup>*\<^sup>* 1 x \<and> (same_type node_store 0 x \<or> (holds node_store)\<^sup>+\<^sup>+ x x)" by blast
  moreover have "RecursiveTo (deep_fuel node_store) node_store 0 (Some 1)
      = Inr (\<exists>x. (holds node_store)\<^sup>*\<^sup>* 1 x \<and> (same_type node_store 0 x \<or> (holds node_store)\<^sup>+\<^sup>+ x x))"
    by (rule recursive_to_iff [OF node_store_ok]) (simp_all add: node_defs recursion_stops_def opaque_def)
  ultimately show ?thesis by simp
qed

text \<open>The message is refused although it contains no message.\<close>

lemma foreign_cycle_refused: "checkStructRecursions 3 0 node_store = Inl (InfiniteRecursion ''Message'' ''Root'')"
proof -
  let ?f = "\<lparr>fd_name = ''Root'', fd_type = Some 1, fd_json = ''root'', fd_inline = InlineNone,
        fd_spec = Some \<lparr>fp_name = ''root'', fp_required = True, fp_nullable = False, fp_const = None\<rparr>\<rparr>"
  have "ty_fields (node_store ! 0) = [?f]" by (simp add: node_store_def)
  moreover have "RecursiveTo 3 node_store 0 (Some 1) = Inr True"
    by (simp add: RecursiveTo_def node_store_def new_type_def plain_field_def recursion_stops_def recursion_children_def
        eval_nat_numeral deep_shape_def erase_field_def)
  ultimately show ?thesis
    by (simp add: checkStructRecursions_def unbox_recursive_def field_variant_def OnlyOptional_def OnlyNullable_def
        NullableOptional_def) (simp add: node_store_def new_type_def)
qed

end
