(* ===== verification/SumProps.thy ===== *)
theory SumProps
  imports SumFields
begin

text \<open>
  What the discriminators of a union guarantee: variants told apart by JSON type have different ones, variants
  told apart by fields have a field of their own, and a table of values leads to one variant each.
\<close>

section \<open>By JSON type\<close>

lemma type_loop:
  assumes "\<forall>v \<in> set vs. ty_kind (st ! the v) \<noteq> KindSum \<and> variant_json_type b st v = Inr (jty v)"
  shows "type_discriminator_loop n b st vs types h =
    Inr (if distinct (map jty vs) \<and> [] \<notin> jty ` set vs \<and> types \<inter> jty ` set vs = {} then Some (jty ` set vs \<union> types, h) else None)"
  using assms
proof (induction vs arbitrary: types)
  case (Cons v vs)
  then show ?case
    by (cases "jty v = [] \<or> jty v \<in> types") (auto simp: insert_commute)
qed simp

text \<open>
  Variants that are no unions themselves are told apart by their JSON type exactly if all have one and no two
  have the same.
\<close>

lemma type_discriminator_iff:
  assumes "\<forall>v \<in> set vs. ty_kind (st ! the v) \<noteq> KindSum \<and> variant_json_type b st v = Inr (jty v)"
  shows "canUseTypeDiscriminator n b st vs = Inr (distinct (map jty vs) \<and> [] \<notin> jty ` set vs)"
  unfolding canUseTypeDiscriminator_def type_loop [OF assms] by (auto split: option.splits)

text \<open>Two texts, one of them in a union with a number.\<close>

definition nested_store :: store where
  "nested_store = [Primitive ''string'' None, Primitive ''int'' None,
     (new_type KindSum ''Either'')\<lparr>ty_sum_of := [Some 0, Some 1], ty_sum_spec := no_sum_spec\<lparr>ss_type_discriminator := True\<rparr>\<rparr>,
     Primitive ''bool'' None]"

lemmas nested_run = nested_store_def Primitive_def new_type_def variant_json_type_def schema_type_is_def IsNumeric_def
  IsInteger_def IsFloat_def IsDecimal_def integer_primitives_def string_primitives_def

lemma type_discriminator_iff_witness:
  "canUseTypeDiscriminator 5 True nested_store [Some 0, Some 3] = Inr True"
proof -
  let ?jty = "\<lambda>v. if v = Some 0 then ''String'' else ''Bool''"
  have "\<forall>v \<in> set [Some 0, Some 3]. ty_kind (nested_store ! the v) \<noteq> KindSum \<and> variant_json_type True nested_store v = Inr (?jty v)"
    by (simp add: nested_run eval_nat_numeral)
  from type_discriminator_iff [OF this] show ?thesis by simp
qed

text \<open>With a union among the variants the order decides: only variants after it are compared with its types.\<close>

lemma nested_order_matters:
  "canUseTypeDiscriminator 5 True nested_store [Some 0, Some 2] = Inr True"
  "canUseTypeDiscriminator 5 True nested_store [Some 2, Some 0] = Inr False"
  by (simp_all add: canUseTypeDiscriminator_def nested_run json_sum_def no_sum_spec_def eval_nat_numeral)

text \<open>The test for one kind of value in all variants only rejects fields of no nameable JSON type.\<close>

lemma value_based_iff: "value_based m \<longleftrightarrow> 1 < length m \<and> (\<forall>x \<in> set (map snd m). x = [])"
proof -
  have taken: "same_and_empty xs f False = False" for xs f
    by (induction xs f False rule: same_and_empty.induct) auto
  have "same_and_empty xs [] True \<longleftrightarrow> (\<forall>x \<in> set xs. x = [])" for xs
  proof (induction xs)
    case (Cons x xs)
    then show ?case by (cases "x = []") (simp_all add: taken)
  qed simp
  then show ?thesis by (simp add: value_based_def)
qed

section \<open>By fields\<close>

definition has_signature :: "store \<Rightarrow> tref \<Rightarrow> string \<Rightarrow> string \<Rightarrow> bool" where
  "has_signature st v name i \<longleftrightarrow>
     list_ex (\<lambda>f. fd_json f = name \<and> getFieldTypeID st (fd_type f) = Inr i) (json_fields [] (st ! v))"

lemma field_signatures_set:
  "field_signatures st fs = Inr sigs \<Longrightarrow>
   (name, i) \<in> set sigs \<longleftrightarrow> (\<exists>f \<in> set fs. fd_json f = name \<and> getFieldTypeID st (fd_type f) = Inr i)"
  by (induction fs arbitrary: sigs) auto

lemma variant_signatures_map:
  "variant_signatures st as m = Inr m' \<Longrightarrow> distinct (map fst m) \<Longrightarrow> distinct (map (\<lambda>v. ty_name (st ! v)) as) \<Longrightarrow>
   distinct (map fst m') \<and>
   (\<forall>k. map_of m' k = (case find (\<lambda>v. ty_name (st ! v) = k) as of
       Some v \<Rightarrow> (case field_signatures st (json_fields [] (st ! v)) of Inr sigs \<Rightarrow> Some sigs | Inl e \<Rightarrow> None)
     | None \<Rightarrow> map_of m k))
   \<and> (\<forall>v \<in> set as. \<exists>sigs. field_signatures st (json_fields [] (st ! v)) = Inr sigs)"
proof (induction as arbitrary: m)
  case (Cons a as)
  then obtain sigs where sigs: "field_signatures st (json_fields [] (st ! a)) = Inr sigs"
    and rest: "variant_signatures st as (smap_set m (ty_name (st ! a)) sigs) = Inr m'" by (auto split: if_splits)
  have new: "find (\<lambda>v. ty_name (st ! v) = ty_name (st ! a)) as = None"
    using Cons.prems(3) by (auto simp: find_None_iff image_iff)
  have "distinct (map fst (smap_set m (ty_name (st ! a)) sigs))" "distinct (map (\<lambda>v. ty_name (st ! v)) as)"
    using Cons.prems by auto
  note IH = Cons.IH [OF rest this]
  have "map_of m' k = (case find (\<lambda>v. ty_name (st ! v) = k) (a # as) of
       Some v \<Rightarrow> (case field_signatures st (json_fields [] (st ! v)) of Inr sigs \<Rightarrow> Some sigs | Inl e \<Rightarrow> None)
     | None \<Rightarrow> map_of m k)" for k
    using IH new sigs by (cases "ty_name (st ! a) = k") (auto split: option.split)
  then show ?case using IH sigs by auto
qed simp

text \<open>The signatures of a variant, by its name.\<close>

lemma variant_signatures_of:
  assumes "variant_signatures st as [] = Inr m" and "distinct (map (\<lambda>v. ty_name (st ! v)) as)" and "v \<in> set as"
  shows "map_of m (ty_name (st ! v)) \<noteq> None"
    and "(name, i) \<in> set (signatures_of m (ty_name (st ! v))) \<longleftrightarrow> has_signature st v name i"
proof -
  note f = variant_signatures_map [OF assms(1) _ assms(2), simplified]
  have "find (\<lambda>u. ty_name (st ! u) = ty_name (st ! v)) as = Some v"
    using assms(2,3)
  proof (induction as)
    case (Cons a as)
    then show ?case by (cases "a = v") (auto simp: image_iff)
  qed simp
  moreover obtain sigs where s: "field_signatures st (json_fields [] (st ! v)) = Inr sigs" using f assms(3) by blast
  ultimately have m: "map_of m (ty_name (st ! v)) = Some sigs" using f by simp
  then show "map_of m (ty_name (st ! v)) \<noteq> None" by simp
  show "(name, i) \<in> set (signatures_of m (ty_name (st ! v))) \<longleftrightarrow> has_signature st v name i"
    using m field_signatures_set [OF s] by (auto simp: signatures_of_def has_signature_def list_ex_iff)
qed

lemma unique_signatures_of:
  "signatures_of (unique_signatures m) k = filter (\<lambda>sig. \<not> common_signature m sig) (signatures_of m k)"
proof -
  have "map_of (map (\<lambda>(k, sigs). (k, filter P sigs)) m) k = map_option (filter P) (map_of m k)" for P :: "signature \<Rightarrow> bool" and m
    by (induction m) auto
  then show ?thesis by (simp add: unique_signatures_def signatures_of_def split: option.splits)
qed

lemma not_common:
  assumes "\<not> common_signature m sig" and "sig \<in> set (signatures_of m k)" and "k' \<noteq> k"
  shows "sig \<notin> set (signatures_of m k')"
proof
  assume "sig \<in> set (signatures_of m k')"
  then obtain s1 s2 where "(k, s1) \<in> set m" "sig \<in> set s1" "(k', s2) \<in> set m" "sig \<in> set s2"
    using assms(2) map_of_SomeD [of m] by (cases "map_of m k"; cases "map_of m k'") (auto simp: signatures_of_def)
  then have "common_signature m sig" using assms(3) unfolding common_signature_def list_ex_iff by fastforce
  then show False using assms(1) by simp
qed

text \<open>A variant has a JSON field, given by name and type, that no other variant has.\<close>

definition own_field :: "store \<Rightarrow> tref list \<Rightarrow> tref \<Rightarrow> bool" where
  "own_field st variants v \<longleftrightarrow> (\<exists>name i. has_signature st v name i
     \<and> (\<forall>w \<in> set variants. w \<noteq> v \<longrightarrow> \<not> has_signature st w name i))"

lemma common_signature_of:
  assumes "variant_signatures st variants [] = Inr m" and "distinct (map (\<lambda>v. ty_name (st ! v)) variants)"
    and "common_signature m (name, i)"
  obtains v w where "v \<in> set variants" "w \<in> set variants" "v \<noteq> w" "has_signature st v name i" "has_signature st w name i"
proof -
  note f = variant_signatures_map [OF assms(1) _ assms(2), simplified]
  have at: "\<exists>v \<in> set variants. ty_name (st ! v) = k \<and> has_signature st v name i" if "(k, sigs) \<in> set m" "(name, i) \<in> set sigs" for k sigs
  proof -
    have k: "map_of m k = Some sigs" by (rule map_of_is_SomeI [OF conjunct1 [OF f] that(1)])
    obtain v where v: "find (\<lambda>v. ty_name (st ! v) = k) variants = Some v"
      using k [unfolded conjunct2 [OF f, THEN conjunct1, rule_format, of k]] by (auto split: option.splits)
    then have v2: "v \<in> set variants" "ty_name (st ! v) = k" by (auto simp: find_Some_iff)
    have "(name, i) \<in> set (signatures_of m (ty_name (st ! v)))" using k v2(2) that(2) by (simp add: signatures_of_def)
    then show ?thesis using variant_signatures_of(2) [OF assms(1,2) v2(1)] v2 by blast
  qed
  obtain k k' s1 s2 where c: "(k, s1) \<in> set m" "(name, i) \<in> set s1" "(k', s2) \<in> set m" "(name, i) \<in> set s2" "k' \<noteq> k"
    using assms(3) by (auto simp: common_signature_def list_ex_iff)
  from at [OF c(1,2)] at [OF c(3,4)] c(5) show ?thesis using that by blast
qed

lemma own_field_unique:
  assumes "variant_signatures st variants [] = Inr m" and "distinct (map (\<lambda>v. ty_name (st ! v)) variants)" and "v \<in> set variants"
  shows "own_field st variants v \<longleftrightarrow> signatures_of (unique_signatures m) (ty_name (st ! v)) \<noteq> []"
proof
  assume "own_field st variants v"
  then obtain name i where s: "has_signature st v name i" "\<forall>w \<in> set variants. w \<noteq> v \<longrightarrow> \<not> has_signature st w name i"
    unfolding own_field_def by blast
  have "\<not> common_signature m (name, i)"
  proof
    assume "common_signature m (name, i)"
    then obtain x y where "x \<in> set variants" "y \<in> set variants" "x \<noteq> y" "has_signature st x name i" "has_signature st y name i"
      by (rule common_signature_of [OF assms(1,2)])
    then show False using s(2) by metis
  qed
  moreover have "(name, i) \<in> set (signatures_of m (ty_name (st ! v)))" using variant_signatures_of(2) [OF assms] s(1) by blast
  ultimately show "signatures_of (unique_signatures m) (ty_name (st ! v)) \<noteq> []"
    unfolding unique_signatures_of by (auto simp: filter_empty_conv)
next
  assume "signatures_of (unique_signatures m) (ty_name (st ! v)) \<noteq> []"
  then obtain name i where s: "(name, i) \<in> set (signatures_of m (ty_name (st ! v)))" "\<not> common_signature m (name, i)"
    unfolding unique_signatures_of by (auto simp: filter_empty_conv)
  have "\<not> has_signature st w name i" if w: "w \<in> set variants" "w \<noteq> v" for w
  proof -
    have "ty_name (st ! w) \<noteq> ty_name (st ! v)" using assms(2,3) w by (auto simp: distinct_map inj_on_def)
    from not_common [OF s(2,1) this] show ?thesis using variant_signatures_of(2) [OF assms(1,2) w(1)] by simp
  qed
  then show "own_field st variants v" using variant_signatures_of(2) [OF assms] s(1) unfolding own_field_def by blast
qed

text \<open>Filling in the variants leaves the default of every union alone.\<close>

definition same_defaults :: "store \<Rightarrow> store \<Rightarrow> bool" where
  "same_defaults st st' \<longleftrightarrow> length st' = length st
     \<and> (\<forall>a < length st. ss_default_mapping (ty_sum_spec (st' ! a)) = ss_default_mapping (ty_sum_spec (st ! a)))"

lemma add_unique_defaults: "same_defaults st (add_unique a f jx st)"
  by (cases "a < length st") (auto simp: same_defaults_def add_unique_def Let_def nth_list_update)

lemma same_defaults_trans: "same_defaults st st1 \<Longrightarrow> same_defaults st1 st2 \<Longrightarrow> same_defaults st st2"
  by (simp add: same_defaults_def)

lemma fill_fields_defaults: "fill_fields sn uniq a fs (st, m) = Inr (st', m') \<Longrightarrow> same_defaults st st'"
proof (induction fs arbitrary: st m)
  case Nil
  then show ?case by (simp add: same_defaults_def)
next
  case (Cons f fs)
  obtain st1 m1 where "fill_fields sn uniq a fs (st1, m1) = Inr (st', m')" "same_defaults st st1"
    using Cons.prems add_unique_defaults by (auto simp: same_defaults_def split: if_splits)
  then show ?case using Cons.IH same_defaults_trans by blast
qed

lemma fill_variants_defaults: "fill_variants sn uniq as (st, m) = Inr (st', m') \<Longrightarrow> same_defaults st st'"
proof (induction as arbitrary: st m)
  case Nil
  then show ?case by (simp add: same_defaults_def)
next
  case (Cons a as)
  then obtain st1 m1 where "fill_fields sn uniq a (json_fields [] (st ! a)) (st, m) = Inr (st1, m1)"
    "fill_variants sn uniq as (st1, m1) = Inr (st', m')" by auto
  then show ?case using Cons.IH fill_fields_defaults same_defaults_trans by blast
qed

lemma bind_res_InrE:
  assumes "bind_res r f = Inr y"
  obtains x where "r = Inr x" "f x = Inr y"
  using assms by auto

lemma infer_fields_default:
  assumes "infer_fields a variants st = Inr st'" and "a < length st"
  obtains m d where "variant_signatures st variants [] = Inr m"
    and "default_variant (unique_signatures m) (map (\<lambda>v. ty_name (st ! v)) variants) = Inr d"
    and "ss_default_mapping (ty_sum_spec (st' ! a)) = (if d = [] then ss_default_mapping (ty_sum_spec (st ! a)) else d)"
proof -
  obtain m where m: "variant_signatures st variants [] = Inr m"
    and 1: "bind_res (default_variant (unique_signatures m) (map (\<lambda>v. ty_name (st ! v)) variants)) (\<lambda>dflt.
     bind_res (fill_variants (ty_name (st ! a)) (unique_signatures m) (variants_by_name st variants) (st, [])) (\<lambda>(st1, fields).
     bind_res (check_all_fields st1 (ty_name (st ! a)) variants fields \<lparr>ck_fields = fields, ck_values = [], ck_failed = []\<rparr>) (\<lambda>c.
       if ck_failed c \<noteq> [] \<and> ck_values c = []
       then Inl (NotImplemented ''type-based discrimination with same jxType'')
       else Inr (st1[a := (st1 ! a)\<lparr>ty_sum_spec := (ty_sum_spec (st1 ! a))\<lparr>
                   ss_default_mapping := (if dflt = [] then ss_default_mapping (ty_sum_spec (st1 ! a)) else dflt),
                   ss_unique_fields := ck_fields c, ss_value_discriminators := ck_values c\<rparr>\<rparr>])))) = Inr st'"
    using assms(1) unfolding infer_fields_def Let_def by (rule bind_res_InrE)
  obtain d where d: "default_variant (unique_signatures m) (map (\<lambda>v. ty_name (st ! v)) variants) = Inr d"
    and 2: "bind_res (fill_variants (ty_name (st ! a)) (unique_signatures m) (variants_by_name st variants) (st, [])) (\<lambda>(st1, fields).
     bind_res (check_all_fields st1 (ty_name (st ! a)) variants fields \<lparr>ck_fields = fields, ck_values = [], ck_failed = []\<rparr>) (\<lambda>c.
       if ck_failed c \<noteq> [] \<and> ck_values c = []
       then Inl (NotImplemented ''type-based discrimination with same jxType'')
       else Inr (st1[a := (st1 ! a)\<lparr>ty_sum_spec := (ty_sum_spec (st1 ! a))\<lparr>
                   ss_default_mapping := (if d = [] then ss_default_mapping (ty_sum_spec (st1 ! a)) else d),
                   ss_unique_fields := ck_fields c, ss_value_discriminators := ck_values c\<rparr>\<rparr>]))) = Inr st'"
    using 1 by (rule bind_res_InrE)
  obtain st1 fields where f: "fill_variants (ty_name (st ! a)) (unique_signatures m) (variants_by_name st variants) (st, []) = Inr (st1, fields)"
    and 3: "bind_res (check_all_fields st1 (ty_name (st ! a)) variants fields \<lparr>ck_fields = fields, ck_values = [], ck_failed = []\<rparr>) (\<lambda>c.
       if ck_failed c \<noteq> [] \<and> ck_values c = []
       then Inl (NotImplemented ''type-based discrimination with same jxType'')
       else Inr (st1[a := (st1 ! a)\<lparr>ty_sum_spec := (ty_sum_spec (st1 ! a))\<lparr>
                   ss_default_mapping := (if d = [] then ss_default_mapping (ty_sum_spec (st1 ! a)) else d),
                   ss_unique_fields := ck_fields c, ss_value_discriminators := ck_values c\<rparr>\<rparr>])) = Inr st'"
    using 2 by (rule bind_res_InrE) (simp only: split_paired_all prod.case)
  obtain c where "check_all_fields st1 (ty_name (st ! a)) variants fields \<lparr>ck_fields = fields, ck_values = [], ck_failed = []\<rparr> = Inr c"
    and 4: "(if ck_failed c \<noteq> [] \<and> ck_values c = [] then Inl (NotImplemented ''type-based discrimination with same jxType'')
      else Inr (st1[a := (st1 ! a)\<lparr>ty_sum_spec := (ty_sum_spec (st1 ! a))\<lparr>
       ss_default_mapping := (if d = [] then ss_default_mapping (ty_sum_spec (st1 ! a)) else d),
       ss_unique_fields := ck_fields c, ss_value_discriminators := ck_values c\<rparr>\<rparr>])) = Inr st'"
    using 3 by (rule bind_res_InrE)
  have st': "st' = st1[a := (st1 ! a)\<lparr>ty_sum_spec := (ty_sum_spec (st1 ! a))\<lparr>
       ss_default_mapping := (if d = [] then ss_default_mapping (ty_sum_spec (st1 ! a)) else d),
       ss_unique_fields := ck_fields c, ss_value_discriminators := ck_values c\<rparr>\<rparr>]"
    using 4 by (cases "ck_failed c \<noteq> [] \<and> ck_values c = []") simp_all
  have "same_defaults st st1" using fill_variants_defaults [OF f] .
  then show ?thesis using that [OF m d] st' assms(2) by (simp add: same_defaults_def)
qed

text \<open>
  C10: when a union is told apart by its fields, every variant has a JSON field, given by name and type, that no other
  variant has, but for at most one, whose name becomes the default mapping of the union; if all variants have such a
  field, the default mapping stays what it was.
\<close>

theorem inferred_variants_differ:
  assumes "infer_fields a variants st = Inr st'" and "distinct (map (\<lambda>v. ty_name (st ! v)) variants)"
    and "a < length st" and "\<forall>v \<in> set variants. ty_name (st ! v) \<noteq> []"
  shows "(\<forall>v \<in> set variants. own_field st variants v \<or> ty_name (st ! v) = ss_default_mapping (ty_sum_spec (st' ! a)))
    \<and> ((\<forall>v \<in> set variants. own_field st variants v)
         \<longrightarrow> ss_default_mapping (ty_sum_spec (st' ! a)) = ss_default_mapping (ty_sum_spec (st ! a)))"
proof -
  obtain m d where m: "variant_signatures st variants [] = Inr m"
    and d: "default_variant (unique_signatures m) (map (\<lambda>v. ty_name (st ! v)) variants) = Inr d"
    and final: "ss_default_mapping (ty_sum_spec (st' ! a)) = (if d = [] then ss_default_mapping (ty_sum_spec (st ! a)) else d)"
    by (rule infer_fields_default [OF assms(1,3)])
  let ?without = "no_unique_fields (unique_signatures m) (map (\<lambda>v. ty_name (st ! v)) variants)"
  note own = own_field_unique [OF m assms(2)]
  have few: "\<not> 1 < length (remdups ?without)" and hd: "d = (case ?without of [] \<Rightarrow> [] | k # _ \<Rightarrow> k)"
    using d by (auto simp: default_variant_def Let_def split: if_splits)
  have "ty_name (st ! v) = ss_default_mapping (ty_sum_spec (st' ! a))" if v: "v \<in> set variants" "\<not> own_field st variants v" for v
  proof -
    have w: "ty_name (st ! v) \<in> set ?without" using v own by (auto simp: no_unique_fields_def)
    then obtain k ks where ks: "?without = k # ks" by (cases ?without) auto
    have "card (set ?without) \<le> 1" using few by (simp add: length_remdups_card_conv)
    then have "ty_name (st ! v) = k" using w ks card_le_Suc0_iff_eq [of "set ?without"] by auto
    then show ?thesis using final hd ks assms(4) v(1) by auto
  qed
  moreover have "?without = []" if "\<forall>v \<in> set variants. own_field st variants v"
    using that own by (auto simp: no_unique_fields_def filter_empty_conv)
  then have "ss_default_mapping (ty_sum_spec (st' ! a)) = ss_default_mapping (ty_sum_spec (st ! a))"
    if "\<forall>v \<in> set variants. own_field st variants v" using that final hd by simp
  ultimately show ?thesis by blast
qed

text \<open>A cat has claws and a dog has a leash; a fish has only what all have, a name.\<close>

definition pet_store :: store where
  "pet_store = [Primitive ''string'' None,
     (new_type KindStruct ''Cat'')\<lparr>ty_fields := [(plain_field ''Name'' (Some 0))\<lparr>fd_json := ''name''\<rparr>, (plain_field ''Claws'' (Some 0))\<lparr>fd_json := ''claws''\<rparr>]\<rparr>,
     (new_type KindStruct ''Dog'')\<lparr>ty_fields := [(plain_field ''Name'' (Some 0))\<lparr>fd_json := ''name''\<rparr>, (plain_field ''Leash'' (Some 0))\<lparr>fd_json := ''leash''\<rparr>]\<rparr>,
     (new_type KindSum ''Pet'')\<lparr>ty_sum_of := [Some 1, Some 2, Some 4]\<rparr>,
     (new_type KindStruct ''Fish'')\<lparr>ty_fields := [(plain_field ''Name'' (Some 0))\<lparr>fd_json := ''name''\<rparr>]\<rparr>]"

lemmas pet_run = pet_store_def Primitive_def new_type_def plain_field_def json_fields_def getFieldTypeID_def
  primitive_id_def integer_primitives_def has_signature_def

lemma pets_inferred: "\<exists>st'. infer_fields 3 [1, 2, 4] pet_store = Inr st'"
  by (simp add: infer_fields_def pet_run Let_def eval_nat_numeral unique_signatures_def common_signature_def
      default_variant_def no_unique_fields_def signatures_of_def variants_by_name_def jxTypeForFieldType_def
      getArrayElementTypeInfo_def jx_type_of_id_def has_prefix_def schema_type_is_def add_unique_def add_variant_def
      field_nullable_def no_sum_spec_def check_field_def insort_key.simps)

lemma fish_plain: "\<not> own_field pet_store [1, 2, 4] 4"
  by (auto simp: own_field_def pet_run)

lemma inferred_variants_differ_witness:
  "\<exists>st'. infer_fields 3 [1, 2, 4] pet_store = Inr st' \<and> ss_default_mapping (ty_sum_spec (st' ! 3)) = ''Fish''
     \<and> own_field pet_store [1, 2, 4] 1"
proof -
  obtain st' where run: "infer_fields 3 [1, 2, 4] pet_store = Inr st'" using pets_inferred by blast
  have "\<forall>v \<in> set [1, 2, 4]. own_field pet_store [1, 2, 4] v \<or> ty_name (pet_store ! v) = ss_default_mapping (ty_sum_spec (st' ! 3))"
    by (rule conjunct1 [OF inferred_variants_differ [OF run]]) (simp_all add: pet_store_def new_type_def)
  note all = this
  have names: "ty_name (pet_store ! 4) = ''Fish''" "ty_name (pet_store ! 1) = ''Cat''" by (simp_all add: pet_store_def new_type_def)
  have fish: "ss_default_mapping (ty_sum_spec (st' ! 3)) = ''Fish''" using bspec [OF all, of 4] fish_plain names(1) by simp
  have "own_field pet_store [1, 2, 4] 1" using bspec [OF all, of 1] names(2) fish by simp
  then show ?thesis using run fish by blast
qed

section \<open>By values\<close>

lemma length_smap_set: "length (smap_set m k v) \<le> Suc (length m)"
  by (induction m k v rule: smap_set.induct) auto

lemma all_values_length: "all_values st sn sof name vs m0 = Inr (Some m) \<Longrightarrow> length m \<le> length m0 + length vs"
proof (induction vs arbitrary: m0)
  case (Cons v vs)
  then obtain xs where "all_values st sn sof name vs (smap_set m0 (uv_type v) xs) = Inr (Some m)" by (auto split: option.splits)
  from Cons.IH [OF this] length_smap_set [of m0 "uv_type v" xs] show ?case by simp
qed simp

lemma all_values_entries:
  "all_values st sn sof name vs m0 = Inr (Some m) \<Longrightarrow> distinct (map fst m0) \<Longrightarrow> length m = length m0 + length vs \<Longrightarrow>
   distinct (map fst m) \<and> set m = set m0 \<union> {(uv_type v, xs) |v xs. v \<in> set vs \<and> variant_values st sn sof name v = Inr (Some xs)}"
proof (induction vs arbitrary: m0)
  case (Cons v vs)
  then obtain xs where xs: "variant_values st sn sof name v = Inr (Some xs)"
    and rest: "all_values st sn sof name vs (smap_set m0 (uv_type v) xs) = Inr (Some m)" by (auto split: option.splits)
  have "length (smap_set m0 (uv_type v) xs) = Suc (length m0)"
    using all_values_length [OF rest] length_smap_set [of m0 "uv_type v" xs] Cons.prems(3) by simp
  moreover from this have "uv_type v \<notin> fst ` set m0"
    using map_fst_smap_set [of "uv_type v" m0 xs] by (metis length_map n_not_Suc_n)
  ultimately have new: "smap_set m0 (uv_type v) xs = m0 @ [(uv_type v, xs)]"
    and d: "distinct (map fst (smap_set m0 (uv_type v) xs))"
    and len: "length m = length (smap_set m0 (uv_type v) xs) + length vs"
    using Cons.prems(2,3) by (auto simp: smap_set_new map_of_eq_None_iff)
  from Cons.IH [OF rest d len] show ?case using xs new by auto
qed simp

lemma shared_values_none:
  assumes "shared_values m = []" and "distinct m" and "(k, xs) \<in> set m" and "(k', xs') \<in> set m" and "x \<in> set xs" and "x \<in> set xs'"
  shows "(k, xs) = (k', xs')"
proof (rule ccontr)
  assume ne: "(k, xs) \<noteq> (k', xs')"
  let ?f = "filter (\<lambda>(_, ys). x \<in> set ys) m"
  have "{(k, xs), (k', xs')} \<subseteq> set ?f" using assms(3-6) by auto
  then have "card {(k, xs), (k', xs')} \<le> length ?f"
    using card_mono [of "set ?f"] card_length [of ?f] by (meson List.finite_set le_trans)
  then have "1 < length ?f" using ne by simp
  moreover have "x \<in> set (concat (map snd m))" using assms(3,5) by force
  ultimately have "x \<in> set (shared_values m)" by (auto simp: shared_values_def)
  then show False using assms(1) by simp
qed

lemma distinct_table:
  "distinct (map fst m) \<Longrightarrow> (\<And>k xs k' xs' x. (k, xs) \<in> set m \<Longrightarrow> (k', xs') \<in> set m \<Longrightarrow> x \<in> set xs \<Longrightarrow> x \<in> set xs' \<Longrightarrow> (k, xs) = (k', xs')) \<Longrightarrow>
   distinct (map fst (value_table m))"
proof (induction m)
  case (Cons e m)
  obtain k xs where e: "e = (k, xs)" by fastforce
  have IH: "distinct (map fst (value_table m))"
  proof (rule Cons.IH)
    show "distinct (map fst m)" using Cons.prems(1) by simp
    show "(k, xs) = (k', xs')" if "(k, xs) \<in> set m" "(k', xs') \<in> set m" "x \<in> set xs" "x \<in> set xs'" for k xs k' xs' x
      using that by (intro Cons.prems(2) [of k xs k' xs' x]) simp_all
  qed
  have "x \<notin> set xs" if x: "x \<in> fst ` set (value_table m)" for x
  proof
    assume "x \<in> set xs"
    obtain k' xs' where k': "(k', xs') \<in> set m" "x \<in> set xs'" using x by (auto simp: value_table_def)
    then have "(k, xs) = (k', xs')" using Cons.prems(2) [of k xs k' xs' x] \<open>x \<in> set xs\<close> e by auto
    then show False using Cons.prems(1) k'(1) e by (auto simp: image_iff)
  qed
  moreover have "value_table (e # m) = map (\<lambda>x. (x, k)) (remdups xs) @ value_table m" by (simp add: value_table_def e)
  ultimately show ?case using IH by (auto simp: comp_def)
qed (simp add: value_table_def)

text \<open>
  C24: a table of discriminating values has no value twice, and it leads from a value to a variant exactly if the
  field of that variant admits the value.
\<close>

theorem value_table_correct:
  assumes "canUseValueDiscrimination st sum_name sum_of name vs = Inr (UseValues table)"
  shows "distinct (map fst table) \<and> (\<forall>x k. map_of table x = Some k \<longleftrightarrow>
    (\<exists>v \<in> set vs. uv_type v = k \<and> (\<exists>xs. variant_values st sum_name sum_of name v = Inr (Some xs) \<and> x \<in> set xs)))"
proof -
  obtain m where m: "all_values st sum_name sum_of name vs [] = Inr (Some m)" and len: "length m = length vs"
    and none: "shared_values m = []" and t: "table = value_table m"
    using assms by (auto simp: canUseValueDiscrimination_def split: if_splits option.splits)
  have entries: "distinct (map fst m)" "set m = {(uv_type v, xs) |v xs. v \<in> set vs \<and> variant_values st sum_name sum_of name v = Inr (Some xs)}"
    using all_values_entries [OF m] len by auto
  have dm: "distinct m" using entries(1) by (simp add: distinct_map)
  have d: "distinct (map fst table)"
    unfolding t by (rule distinct_table [OF entries(1)]) (rule shared_values_none [OF none dm])
  have "map_of table x = Some k \<longleftrightarrow> (x, k) \<in> set table" for x k using d by simp
  moreover have "(x, k) \<in> set table \<longleftrightarrow> (\<exists>xs. (k, xs) \<in> set m \<and> x \<in> set xs)" for x k
    by (auto simp: t value_table_def)
  ultimately show ?thesis using d unfolding entries(2) by auto
qed

text \<open>Two kinds of lamps with different modes.\<close>

definition lamp_store :: store where
  "lamp_store = [
     (new_type KindEnum ''CeilingMode'')\<lparr>ty_enum_variants := [(''On'', VString ''on''), (''Off'', VString ''off'')]\<rparr>,
     (new_type KindEnum ''DeskMode'')\<lparr>ty_enum_variants := [(''Dim'', VString ''dim'')]\<rparr>,
     (new_type KindStruct ''Ceiling'')\<lparr>ty_fields := [(plain_field ''Mode'' (Some 0))\<lparr>fd_json := ''mode''\<rparr>]\<rparr>,
     (new_type KindStruct ''Desk'')\<lparr>ty_fields := [(plain_field ''Mode'' (Some 1))\<lparr>fd_json := ''mode''\<rparr>]\<rparr>]"

definition lamp_variants :: "unique_variant list" where
  "lamp_variants = map (\<lambda>n. \<lparr>uv_name = n, uv_type = n @ ''Lamp'', uv_field_type = ''jx.String'', uv_nullable = False,
     uv_elem_type = [], uv_elem_type_id = []\<rparr>) [''Ceiling'', ''Desk'']"

lemma value_table_correct_witness:
  "\<exists>table. canUseValueDiscrimination lamp_store ''Lamp'' [2, 3] ''mode'' lamp_variants = Inr (UseValues table)
    \<and> map_of table ''dim'' = Some ''DeskLamp''"
proof -
  have "\<exists>table. canUseValueDiscrimination lamp_store ''Lamp'' [2, 3] ''mode'' lamp_variants = Inr (UseValues table)"
    by (simp add: canUseValueDiscrimination_def variant_values_def lamp_store_def lamp_variants_def pet_run eval_nat_numeral shared_values_def)
  then obtain table where t: "canUseValueDiscrimination lamp_store ''Lamp'' [2, 3] ''mode'' lamp_variants = Inr (UseValues table)" ..
  have v: "variant_values lamp_store ''Lamp'' [2, 3] ''mode'' (lamp_variants ! 1) = Inr (Some [''dim''])"
    by (simp add: variant_values_def lamp_store_def lamp_variants_def pet_run eval_nat_numeral)
  have "\<exists>v \<in> set lamp_variants. uv_type v = ''DeskLamp''
      \<and> (\<exists>xs. variant_values lamp_store ''Lamp'' [2, 3] ''mode'' v = Inr (Some xs) \<and> ''dim'' \<in> set xs)"
    by (rule bexI [of _ "lamp_variants ! 1"], use v in simp) (simp_all add: lamp_variants_def)
  then show ?thesis using t value_table_correct [OF t] by blast
qed

end
