(* ===== verification/Regex.thy ===== *)
theory Regex
  imports Validate Json
begin

text \<open>
  Package runtime/ogenregex: the translation of ECMA-262 regular expressions to those of Go (convert.go), a
  scanner that copies the pattern as long as nothing has to be changed, and the choice between the two
  engines (ogenregex.go). The engines themselves are parameters.
\<close>

section \<open>The scanner\<close>

datatype convert_error = SyntaxError string | Unsupported string

text \<open>
  The state of the scanner. \<open>rp_chr\<close> is the current rune, \<open>-1\<close> at the end. \<open>rp_pass\<close> is the length of the prefix of
  the pattern that is the output so far; it is \<open>None\<close> (\<open>-1\<close> in the code) once the output is written to
  \<open>rp_go\<close>. A slice out of range stops the program; the model records it in \<open>rp_fault\<close> and answers a failure at
  the end.
\<close>

record rparser =
  rp_str :: string
  rp_chr :: int
  rp_chr_offset :: nat
  rp_offset :: nat
  rp_err :: "convert_error option"
  rp_go :: string
  rp_pass :: "nat option"
  rp_fault :: bool

abbreviation ch :: "char \<Rightarrow> int" where
  "ch c \<equiv> int (byte_of c)"

definition whitespace_runes :: "rune list" where
  "whitespace_runes = [32, 12, 10, 13, 9, 11, 0xA0, 0x1680, 0x2000, 0x2001, 0x2002, 0x2003, 0x2004, 0x2005, 0x2006,
     0x2007, 0x2008, 0x2009, 0x200A, 0x2028, 0x2029, 0x202F, 0x205F, 0x3000, 0xFEFF]"

definition whitespaceChars :: string where
  "whitespaceChars = string_of_runes whitespace_runes"

definition re2Dot :: string where
  "re2Dot = ''[^'' @ string_of_runes [13, 10, 0x2028, 0x2029] @ '']''"

definition anyRune :: string where
  "anyRune = string_of_runes [0] @ ''-'' @ string_of_runes [0x1FFFF] @ '']''"

definition digitValue :: "int \<Rightarrow> int" where
  "digitValue c =
     (if ch CHR ''0'' \<le> c \<and> c \<le> ch CHR ''9'' then c - ch CHR ''0''
      else if ch CHR ''a'' \<le> c \<and> c \<le> ch CHR ''f'' then c - ch CHR ''a'' + 10
      else if ch CHR ''A'' \<le> c \<and> c \<le> ch CHR ''F'' then c - ch CHR ''A'' + 10
      else 16)"

text \<open>\<open>id_part\<close> is \<open>isIDPartUnicode\<close>, a question to the Unicode tables.\<close>

definition isIdentifierPart :: "(int \<Rightarrow> bool) \<Rightarrow> int \<Rightarrow> bool" where
  "isIdentifierPart id_part c \<longleftrightarrow> c = ch CHR ''$'' \<or> c = ch CHR ''_'' \<or> c = 92
     \<or> ch CHR ''a'' \<le> c \<and> c \<le> ch CHR ''z'' \<or> ch CHR ''A'' \<le> c \<and> c \<le> ch CHR ''Z''
     \<or> ch CHR ''0'' \<le> c \<and> c \<le> ch CHR ''9'' \<or> 128 \<le> c \<and> id_part c"

text \<open>The first error ends the scan.\<close>

definition rp_error :: "bool \<Rightarrow> string \<Rightarrow> rparser \<Rightarrow> rparser" where
  "rp_error fatal msg p =
     (if rp_err p \<noteq> None then p
      else p\<lparr>rp_err := Some (if fatal then SyntaxError msg else Unsupported msg), rp_offset := length (rp_str p), rp_chr := -1\<rparr>)"

definition rp_read :: "rparser \<Rightarrow> rparser" where
  "rp_read p =
     (if rp_offset p < length (rp_str p) then
        let q = p\<lparr>rp_chr_offset := rp_offset p\<rparr>; b = byte_of (rp_str p ! rp_offset p) in
        if b < 128 then q\<lparr>rp_offset := rp_offset p + 1, rp_chr := int b\<rparr>
        else
          let (r, w) = decode_rune (drop (rp_offset p) (rp_str p)) in
          if r = rune_error \<and> w = 1 then rp_error True ''Invalid UTF-8 character'' q
          else q\<lparr>rp_offset := rp_offset p + w, rp_chr := int r\<rparr>
      else p\<lparr>rp_chr_offset := length (rp_str p), rp_chr := -1\<rparr>)"

definition rp_append :: "string \<Rightarrow> rparser \<Rightarrow> rparser" where
  "rp_append s p = p\<lparr>rp_go := rp_go p @ s\<rparr>"

definition rp_append_slice :: "nat \<Rightarrow> nat \<Rightarrow> rparser \<Rightarrow> rparser" where
  "rp_append_slice i j p =
     (if i \<le> j \<and> j \<le> length (rp_str p) then rp_append (drop i (take j (rp_str p))) p else p\<lparr>rp_fault := True\<rparr>)"

definition stopPassing :: "nat \<Rightarrow> rparser \<Rightarrow> rparser" where
  "stopPassing k p = (rp_append_slice 0 k p)\<lparr>rp_pass := None\<rparr>"

definition rp_started :: "rparser \<Rightarrow> rparser" where
  "rp_started p = (case rp_pass p of None \<Rightarrow> p | Some k \<Rightarrow> stopPassing k p)"

definition rp_write :: "string \<Rightarrow> rparser \<Rightarrow> rparser" where
  "rp_write s p = rp_append s (rp_started p)"

definition rp_pass_char :: "rparser \<Rightarrow> rparser" where
  "rp_pass_char p = rp_read
     (if rp_pass p = Some (rp_chr_offset p) then p\<lparr>rp_pass := Some (rp_offset p)\<rparr>
      else if rp_chr p \<noteq> -1 then rp_append (encode_rune (nat (rp_chr p))) (rp_started p) else rp_started p)"

definition passString :: "nat \<Rightarrow> nat \<Rightarrow> rparser \<Rightarrow> rparser" where
  "passString i j p = (if rp_pass p = Some i then p\<lparr>rp_pass := Some j\<rparr> else rp_append_slice i j (rp_started p))"

text \<open>Passing begins with the backslash before \<open>offset\<close>.\<close>

definition passEscape :: "nat \<Rightarrow> nat \<Rightarrow> rparser \<Rightarrow> rparser" where
  "passEscape offset j p = (if offset = 0 then p\<lparr>rp_fault := True\<rparr> else passString (offset - 1) j p)"

section \<open>Escapes\<close>

text \<open>\<open>strconv.AppendInt(nil, v, 16)\<close>.\<close>

fun hex_digits :: "nat \<Rightarrow> string" where
  "hex_digits n = (if n < 16 then [hex_digit n] else hex_digits (n div 16) @ [hex_digit (n mod 16)])"

declare hex_digits.simps [simp del]

definition hex_text :: "int \<Rightarrow> string" where
  "hex_text i = (if i < 0 then CHR ''-'' # hex_digits (nat (- i)) else hex_digits (nat i))"

definition hex_escape :: "64 word \<Rightarrow> string" where
  "hex_escape v = (if 16 \<le> sint v then [CHR 0x5C, CHR ''x''] else [CHR 0x5C, CHR ''x'', CHR ''0'']) @ hex_text (sint v)"

fun octal_digits :: "nat \<Rightarrow> 64 word \<Rightarrow> nat \<Rightarrow> rparser \<Rightarrow> (64 word \<times> nat \<times> rparser) option" where
  "octal_digits 0 v k p = None"
| "octal_digits (Suc n) v k p =
     (if 8 \<le> digitValue (rp_chr p) then Some (v, k, p)
      else octal_digits n (v * 8 + word_of_int (digitValue (rp_chr p))) (Suc k) (rp_read p))"

definition octal_escape :: "nat \<Rightarrow> rparser \<Rightarrow> rparser option" where
  "octal_escape n p = (case octal_digits n 0 0 p of
       None \<Rightarrow> None
     | Some (v, k, q) \<Rightarrow> Some
         (if k = 1 then
            if v \<noteq> 0 then rp_error False ''re2: Invalid <backreference>'' q
            else passEscape (rp_chr_offset p) (rp_chr_offset q) q
          else rp_write (hex_escape v) q))"

text \<open>The digits of a hexadecimal escape: a fixed number, or up to a brace; whether all were digits.\<close>

fun hex_fixed :: "nat \<Rightarrow> rparser \<Rightarrow> bool \<times> rparser" where
  "hex_fixed 0 p = (True, p)"
| "hex_fixed (Suc k) p = (if 16 \<le> digitValue (rp_chr p) then (False, p) else hex_fixed k (rp_read p))"

fun hex_braced :: "nat \<Rightarrow> rparser \<Rightarrow> (bool \<times> rparser) option" where
  "hex_braced 0 p = None"
| "hex_braced (Suc n) p =
     (if rp_chr p = ch CHR ''}'' \<or> rp_chr p = -1 then Some (True, p)
      else if 16 \<le> digitValue (rp_chr p) then Some (False, p)
      else hex_braced n (rp_read p))"

definition finish_hex :: "nat \<Rightarrow> nat \<Rightarrow> nat \<Rightarrow> bool \<times> rparser \<Rightarrow> rparser" where
  "finish_hex offset start len = (\<lambda>(ok, q).
     if \<not> ok then passString offset (rp_chr_offset q) q
     else if len = 2 then passEscape offset (start + 2) q
     else
       let r = passString start (rp_chr_offset q) (rp_write [CHR 0x5C, CHR ''x'', CHR ''{''] q) in
       if len \<noteq> 0 then rp_write ''}'' r else r)"

definition hex_chars :: "nat \<Rightarrow> nat \<Rightarrow> nat \<Rightarrow> rparser \<Rightarrow> rparser option" where
  "hex_chars n offset len p =
     map_option (finish_hex offset (rp_chr_offset p) len) (if len \<noteq> 0 then Some (hex_fixed len p) else hex_braced n p)"

text \<open>The name in \<open>\p{name}\<close>.\<close>

fun property_name :: "nat \<Rightarrow> rparser \<Rightarrow> rparser option" where
  "property_name 0 p = None"
| "property_name (Suc n) p =
     (let q = rp_pass_char p in
      if rp_chr q = -1 then Some (rp_error True ''re2: Unterminated'' q)
      else if rp_chr q = ch CHR ''}'' then Some (rp_pass_char q)
      else property_name n q)"

definition property_escape :: "nat \<Rightarrow> rparser \<Rightarrow> rparser option" where
  "property_escape n p =
     (let q = rp_pass_char (rp_write [CHR 0x5C] p) in
      if rp_chr q \<noteq> ch CHR ''{'' then Some (rp_error False ''re2: Invalid format'' q)
      else
        let r = rp_pass_char q in
        if rp_chr r = ch CHR ''}'' then Some (rp_error False ''re2: Empty {} is not allowed'' r)
        else property_name n r)"

definition control_escape :: "rparser \<Rightarrow> rparser" where
  "control_escape p =
     (let q = rp_read p; c = rp_chr q in
      if ch CHR ''a'' \<le> c \<and> c \<le> ch CHR ''z'' then rp_read (rp_write (hex_escape (word_of_int (c - ch CHR ''a'' + 1))) q)
      else if ch CHR ''A'' \<le> c \<and> c \<le> ch CHR ''Z'' then rp_read (rp_write (hex_escape (word_of_int (c - ch CHR ''A'' + 1))) q)
      else rp_write ''c'' q)"

definition kept_escapes :: string where
  "kept_escapes = CHR 0x5C # ''bBdDwWfnrtv''"

definition scanEscape :: "nat \<Rightarrow> (int \<Rightarrow> bool) \<Rightarrow> bool \<Rightarrow> rparser \<Rightarrow> rparser option" where
  "scanEscape n id_part inClass p =
     (let c = rp_chr p; offset = rp_chr_offset p in
      if ch CHR ''0'' \<le> c \<and> c \<le> ch CHR ''7'' then octal_escape n p
      else if c = ch CHR ''8'' \<or> c = ch CHR ''9'' then Some (rp_error False ''re2: Invalid <backreference>'' (rp_read p))
      else if c = ch CHR ''x'' then hex_chars n offset 2 (rp_read p)
      else if c = ch CHR ''u'' then
        let q = rp_read p in
        if rp_chr q = ch CHR ''{'' then hex_chars n offset 0 (rp_read q) else hex_chars n offset 4 q
      else if c = ch CHR ''b'' \<and> inClass then Some (rp_read (rp_write (CHR 0x5C # ''x08'') p))
      else if c \<in> ch ` set kept_escapes then Some (rp_read (passEscape offset (rp_offset p) p))
      else if c = ch CHR ''c'' then Some (control_escape p)
      else if c = ch CHR ''s'' then
        Some (rp_read (rp_write (if inClass then whitespaceChars else ''['' @ whitespaceChars @ '']'') p))
      else if c = ch CHR ''S'' then
        if inClass then Some (rp_error False ''S in class'' p)
        else Some (rp_read (rp_write (''[^'' @ whitespaceChars @ '']'') p))
      else if c = ch CHR ''p'' \<or> c = ch CHR ''P'' then property_escape n p
      else if c = ch CHR ''$'' \<or> c < 128 \<and> \<not> isIdentifierPart id_part c then Some (rp_read (passEscape offset (rp_offset p) p))
      else Some (rp_pass_char p))"

section \<open>Classes and groups\<close>

fun class_loop :: "nat \<Rightarrow> (int \<Rightarrow> bool) \<Rightarrow> rparser \<Rightarrow> rparser option" where
  "class_loop 0 id_part p = None"
| "class_loop (Suc n) id_part p =
     (if rp_chr p = -1 \<or> rp_chr p = ch CHR '']'' then
        Some (if rp_chr p \<noteq> ch CHR '']'' then rp_error True ''Unterminated character class'' p else rp_pass_char p)
      else if rp_chr p = 92 then Option.bind (scanEscape n id_part True (rp_read p)) (class_loop n id_part)
      else class_loop n id_part (rp_pass_char p))"

definition skip_bytes :: "nat \<Rightarrow> rparser \<Rightarrow> rparser" where
  "skip_bytes k p = rp_read (p\<lparr>rp_offset := rp_offset p + k\<rparr>)"

definition scanBracket :: "nat \<Rightarrow> (int \<Rightarrow> bool) \<Rightarrow> rparser \<Rightarrow> rparser option" where
  "scanBracket n id_part p =
     (let s = drop (rp_chr_offset p) (rp_str p) in
      if has_prefix s ''[]'' then Some (skip_bytes 1 (rp_write (''[^'' @ anyRune) p))
      else if has_prefix s ''[^]'' then Some (skip_bytes 2 (rp_write (''['' @ anyRune) p))
      else class_loop n id_part (rp_pass_char p))"

text \<open>What follows the parenthesis of a group: the error, if the group is not supported.\<close>

definition bad_group :: "rparser \<Rightarrow> (bool \<times> string) option" where
  "bad_group p =
     (let s = drop (rp_chr_offset p) (rp_str p) in
      if 1 < length s \<and> s ! 0 = CHR ''?'' then
        if s ! 1 = CHR ''='' \<or> s ! 1 = CHR ''!'' then Some (False, ''re2: Invalid <lookahead>'')
        else if s ! 1 = CHR ''<'' then Some (False, ''re2: Invalid <lookbehind>'')
        else if s ! 1 \<noteq> CHR '':'' then Some (True, ''Invalid group'')
        else None
      else None)"

definition scanGroup :: "(rparser \<Rightarrow> rparser option) \<Rightarrow> rparser \<Rightarrow> rparser option" where
  "scanGroup loop p = (case bad_group p of Some (fatal, msg) \<Rightarrow> Some (rp_error fatal msg p) | None \<Rightarrow> loop p)"

primrec group_loop :: "nat \<Rightarrow> (int \<Rightarrow> bool) \<Rightarrow> rparser \<Rightarrow> rparser option" where
  "group_loop 0 id_part p = None"
| "group_loop (Suc n) id_part p =
     (if rp_chr p = -1 \<or> rp_chr p = ch CHR '')'' then
        Some (if rp_chr p \<noteq> ch CHR '')'' then rp_error True ''Unterminated group'' p else rp_pass_char p)
      else if rp_chr p = 92 then Option.bind (scanEscape n id_part False (rp_read p)) (group_loop n id_part)
      else if rp_chr p = ch CHR ''('' then Option.bind (scanGroup (group_loop n id_part) (rp_pass_char p)) (group_loop n id_part)
      else if rp_chr p = ch CHR ''['' then Option.bind (scanBracket n id_part p) (group_loop n id_part)
      else if rp_chr p = ch CHR ''.'' then group_loop n id_part (rp_read (rp_write re2Dot p))
      else group_loop n id_part (rp_pass_char p))"

primrec scan :: "nat \<Rightarrow> (int \<Rightarrow> bool) \<Rightarrow> rparser \<Rightarrow> rparser option" where
  "scan 0 id_part p = None"
| "scan (Suc n) id_part p =
     (if rp_chr p = -1 then Some p
      else if rp_chr p = 92 then Option.bind (scanEscape n id_part False (rp_read p)) (scan n id_part)
      else if rp_chr p = ch CHR ''('' then Option.bind (scanGroup (group_loop n id_part) (rp_pass_char p)) (scan n id_part)
      else if rp_chr p = ch CHR ''['' then Option.bind (scanBracket n id_part p) (scan n id_part)
      else if rp_chr p = ch CHR '')'' then Some (rp_error True ''Unmatched group end'' p)
      else if rp_chr p = ch CHR ''.'' then scan n id_part (rp_read (rp_write re2Dot p))
      else scan n id_part (rp_pass_char p))"

section \<open>Convert and Compile\<close>

datatype convert_fault = SliceOutOfRange | LoopsForever

definition rp_start :: "string \<Rightarrow> rparser" where
  "rp_start s = \<lparr>rp_str = s, rp_chr = 0, rp_chr_offset = 0, rp_offset = 0, rp_err = None, rp_go = [], rp_pass = Some 0,
     rp_fault = False\<rparr>"

definition ResultString :: "rparser \<Rightarrow> convert_fault + string" where
  "ResultString p = (case rp_pass p of
       Some k \<Rightarrow> if k \<le> length (rp_str p) then Inr (take k (rp_str p)) else Inl SliceOutOfRange
     | None \<Rightarrow> Inr (rp_go p))"

text \<open>Every turn of a loop reads a rune or ends the scan, so the fuel is two more than the length.\<close>

definition Convert :: "(int \<Rightarrow> bool) \<Rightarrow> string \<Rightarrow> convert_fault + string option" where
  "Convert id_part pattern =
     (if pattern = [] then Inr (Some [])
      else case scan (length pattern + 2) id_part (rp_read (rp_start pattern)) of
        None \<Rightarrow> Inl LoopsForever
      | Some p \<Rightarrow>
          if rp_fault p then Inl SliceOutOfRange
          else if rp_err p \<noteq> None then Inr None
          else bind_res (ResultString p) (\<lambda>s. Inr (Some s)))"

text \<open>
  The engines: \<open>re2\<close> compiles for package regexp, \<open>regexp2\<close> for the engine of ECMAScript. The text of the result is the
  original expression in the first case and the engine's in the second.
\<close>

definition Compile :: "(int \<Rightarrow> bool) \<Rightarrow> (string \<Rightarrow> (string \<Rightarrow> bool) option) \<Rightarrow> (string \<Rightarrow> regexp option) \<Rightarrow> string
    \<Rightarrow> convert_fault + regexp option" where
  "Compile id_part re2 regexp2 expr =
     bind_res (Convert id_part expr) (\<lambda>converted.
       case Option.bind converted re2 of
         Some m \<Rightarrow> Inr (Some \<lparr>MatchString = (\<lambda>s. Inr (m s)), PatternString = expr\<rparr>)
       | None \<Rightarrow> Inr (regexp2 expr))"

end
