(* ===== verification/RegexProps.thy ===== *)
theory RegexProps
  imports Regex
begin

text \<open>
  The translation of regular expressions always answers: no slice of the pattern is out of range and no loop runs
  for ever. On the constructs it knows it computes a translation by structure, so that copying a prefix of the pattern
  instead of writing it changes nothing.
\<close>

section \<open>The scanner moves on\<close>

definition rp_ok :: "rparser \<Rightarrow> bool" where
  "rp_ok p \<longleftrightarrow> rp_chr_offset p \<le> rp_offset p \<and> rp_offset p \<le> length (rp_str p)
     \<and> (\<forall>k. rp_pass p = Some k \<longrightarrow> k \<le> length (rp_str p) \<and> rp_go p = []) \<and> \<not> rp_fault p
     \<and> (if rp_chr p = -1 then rp_offset p = length (rp_str p)
        else rp_chr_offset p < rp_offset p \<and> (rp_chr p < 128 \<longrightarrow> rp_offset p = Suc (rp_chr_offset p)))
     \<and> (rp_err p \<noteq> None \<longrightarrow> rp_chr p = -1)"

text \<open>What is left to read.\<close>

definition left :: "rparser \<Rightarrow> nat" where
  "left p = (if rp_chr p = -1 then 0 else length (rp_str p) - rp_chr_offset p)"

definition moves :: "rparser \<Rightarrow> rparser \<Rightarrow> bool" where
  "moves p q \<longleftrightarrow> rp_ok q \<and> rp_str q = rp_str p \<and> rp_chr_offset p \<le> rp_chr_offset q \<and> left q \<le> left p"

lemma moves_refl: "rp_ok p \<Longrightarrow> moves p p"
  by (simp add: moves_def)

lemma moves_trans [trans]: "moves p q \<Longrightarrow> moves q r \<Longrightarrow> moves p r"
  by (auto simp: moves_def)

lemma movesD: "moves p q \<Longrightarrow> rp_ok q" "moves p q \<Longrightarrow> rp_str q = rp_str p" "moves p q \<Longrightarrow> left q \<le> left p"
    "moves p q \<Longrightarrow> rp_chr_offset p \<le> rp_chr_offset q"
  by (simp_all add: moves_def)

lemma read_start:
  assumes "rp_offset p \<le> length (rp_str p)" and "\<forall>k. rp_pass p = Some k \<longrightarrow> k \<le> length (rp_str p) \<and> rp_go p = []"
    and "\<not> rp_fault p" and "rp_err p \<noteq> None \<longrightarrow> rp_offset p = length (rp_str p)"
  shows "rp_ok (rp_read p) \<and> rp_str (rp_read p) = rp_str p \<and> rp_offset p \<le> rp_chr_offset (rp_read p)
    \<and> left (rp_read p) \<le> length (rp_str p) - rp_offset p"
proof (cases "rp_offset p < length (rp_str p)")
  case False
  then show ?thesis using assms by (auto simp: rp_read_def rp_ok_def left_def)
next
  case True
  let ?d = "drop (rp_offset p) (rp_str p)"
  obtain r w where d: "decode_rune ?d = (r, w)" by fastforce
  have "0 < w" "w \<le> length ?d" using decode_rune_width [of ?d] True d by auto
  moreover have "r < 128 \<longrightarrow> byte_of (rp_str p ! rp_offset p) < 128 \<or> w = 1"
    using True d by (auto simp: decode_rune_def Let_def Cons_nth_drop_Suc [symmetric] is_cont_def second_ok_def split: list.splits if_splits)
  ultimately show ?thesis using True assms d by (auto simp: rp_read_def rp_ok_def left_def rp_error_def Let_def)
qed

lemma read_moves:
  assumes "rp_ok p"
  shows "moves p (rp_read p)"
    and "rp_chr p \<noteq> -1 \<Longrightarrow> left (rp_read p) < left p \<and> rp_chr_offset p < rp_chr_offset (rp_read p)"
proof -
  have "rp_ok (rp_read p) \<and> rp_str (rp_read p) = rp_str p \<and> rp_offset p \<le> rp_chr_offset (rp_read p)
    \<and> left (rp_read p) \<le> length (rp_str p) - rp_offset p"
    by (rule read_start) (use assms in \<open>auto simp: rp_ok_def\<close>)
  note r = this
  have "left (rp_read p) = 0" if "rp_chr p = -1" using r that assms by (auto simp: rp_ok_def)
  then show "moves p (rp_read p)" using r assms unfolding moves_def by (auto simp: rp_ok_def left_def split: if_splits)
  show "left (rp_read p) < left p \<and> rp_chr_offset p < rp_chr_offset (rp_read p)" if "rp_chr p \<noteq> -1"
    using r assms that by (auto simp: rp_ok_def left_def)
qed

text \<open>Writing leaves the scanner where it is.\<close>

definition stays :: "rparser \<Rightarrow> rparser \<Rightarrow> bool" where
  "stays p q \<longleftrightarrow> rp_ok q \<and> rp_str q = rp_str p \<and> rp_chr q = rp_chr p \<and> rp_chr_offset q = rp_chr_offset p
     \<and> rp_offset q = rp_offset p \<and> rp_err q = rp_err p"

lemma stays_moves: "stays p q \<Longrightarrow> moves p q"
  by (simp add: stays_def moves_def left_def)

lemma staysD: "stays p q \<Longrightarrow> rp_ok q" "stays p q \<Longrightarrow> rp_str q = rp_str p" "stays p q \<Longrightarrow> rp_chr q = rp_chr p"
    "stays p q \<Longrightarrow> left q = left p" "stays p q \<Longrightarrow> rp_chr_offset q = rp_chr_offset p" "stays p q \<Longrightarrow> rp_offset q = rp_offset p"
    "stays p q \<Longrightarrow> rp_err q = rp_err p"
  by (simp_all add: stays_def left_def)

lemma started_stays: "rp_ok p \<Longrightarrow> stays p (rp_started p) \<and> rp_pass (rp_started p) = None"
  by (auto simp: rp_started_def stopPassing_def rp_append_slice_def rp_append_def stays_def rp_ok_def split: option.splits)

lemma append_stays: "rp_ok p \<Longrightarrow> rp_pass p = None \<Longrightarrow> stays p (rp_append s p)"
  by (simp add: rp_append_def stays_def rp_ok_def)

lemma stays_trans [trans]: "stays p q \<Longrightarrow> stays q r \<Longrightarrow> stays p r"
  by (simp add: stays_def)

lemma write_stays: "rp_ok p \<Longrightarrow> stays p (rp_write s p)"
  unfolding rp_write_def using started_stays append_stays stays_trans staysD(1) by blast

lemma passString_stays:
  assumes "rp_ok p" and "i \<le> j" and "j \<le> length (rp_str p)"
  shows "stays p (passString i j p)"
proof (cases "rp_pass p = Some i")
  case True
  then show ?thesis using assms by (auto simp: passString_def stays_def rp_ok_def)
next
  case False
  have s: "stays p (rp_started p)" "rp_pass (rp_started p) = None" using started_stays [OF assms(1)] by auto
  then have "stays (rp_started p) (rp_append_slice i j (rp_started p))"
    using assms(2,3) append_stays staysD(1,2) [OF s(1)] by (simp add: rp_append_slice_def)
  then show ?thesis using stays_trans [OF s(1)] False by (simp add: passString_def)
qed

lemma passEscape_stays:
  "rp_ok p \<Longrightarrow> 0 < i \<Longrightarrow> i \<le> Suc j \<Longrightarrow> j \<le> length (rp_str p) \<Longrightarrow> stays p (passEscape i j p)"
  using passString_stays [of p "i - 1" j] by (simp add: passEscape_def)

lemma error_moves: "rp_ok p \<Longrightarrow> moves p (rp_error fatal msg p)"
  by (auto simp: rp_error_def moves_def rp_ok_def left_def)

lemma pass_char_moves:
  assumes "rp_ok p"
  shows "moves p (rp_pass_char p)"
    and "rp_chr p \<noteq> -1 \<Longrightarrow> left (rp_pass_char p) < left p \<and> rp_chr_offset p < rp_chr_offset (rp_pass_char p)"
proof -
  let ?q = "if rp_pass p = Some (rp_chr_offset p) then p\<lparr>rp_pass := Some (rp_offset p)\<rparr>
      else if rp_chr p \<noteq> -1 then rp_append (encode_rune (nat (rp_chr p))) (rp_started p) else rp_started p"
  have s: "stays p (rp_started p)" "rp_pass (rp_started p) = None" using started_stays [OF assms] by auto
  have "stays p (p\<lparr>rp_pass := Some (rp_offset p)\<rparr>)" if "rp_pass p = Some (rp_chr_offset p)"
    using assms that by (auto simp: stays_def rp_ok_def)
  then have q: "stays p ?q" using s stays_trans [OF s(1) append_stays] staysD(1) by auto
  note r = read_moves [OF staysD(1) [OF q]]
  show "moves p (rp_pass_char p)" unfolding rp_pass_char_def using moves_trans [OF stays_moves [OF q] r(1)] .
  show "left (rp_pass_char p) < left p \<and> rp_chr_offset p < rp_chr_offset (rp_pass_char p)" if "rp_chr p \<noteq> -1"
    unfolding rp_pass_char_def using r(2) that staysD(3-5) [OF q] by auto
qed

section \<open>Every loop ends\<close>

lemma digitValue_end: "digitValue c < 16 \<Longrightarrow> c \<noteq> -1"
  by (auto simp: digitValue_def)

lemma offset_bound: "rp_ok p \<Longrightarrow> rp_chr_offset p \<le> length (rp_str p)"
  by (simp add: rp_ok_def)

lemma octal_digits_ends:
  "rp_ok p \<Longrightarrow> left p < n \<Longrightarrow> \<exists>v' k' q. octal_digits n v k p = Some (v', k', q) \<and> moves p q"
proof (induction n v k p rule: octal_digits.induct)
  case (2 n v k p)
  show ?case
  proof (cases "8 \<le> digitValue (rp_chr p)")
    case True
    then show ?thesis using "2.prems" by (simp add: moves_refl)
  next
    case False
    then have "rp_chr p \<noteq> -1" using digitValue_end [of "rp_chr p"] by simp
    note r = read_moves(1) [OF "2.prems"(1)] read_moves(2) [OF "2.prems"(1) this]
    then show ?thesis using "2.IH" [OF False movesD(1) [OF r(1)]] "2.prems"(2) moves_trans [OF r(1)] False by fastforce
  qed
qed simp

lemma octal_escape_ends:
  assumes "rp_ok p" and "left p < n" and "0 < rp_chr_offset p"
  shows "\<exists>q. octal_escape n p = Some q \<and> moves p q"
proof -
  obtain v k q where q: "octal_digits n 0 0 p = Some (v, k, q)" "moves p q" using octal_digits_ends [OF assms(1,2)] by blast
  have "moves q (passEscape (rp_chr_offset p) (rp_chr_offset q) q)"
    by (rule stays_moves, rule passEscape_stays)
      (use assms(3) movesD [OF q(2)] offset_bound [of q] in auto)
  then show ?thesis
    using q moves_trans [OF q(2)] error_moves stays_moves [OF write_stays] movesD(1) [OF q(2)]
    by (auto simp: octal_escape_def)
qed

lemma hex_fixed_moves:
  "rp_ok p \<Longrightarrow> hex_fixed k p = (good, q) \<Longrightarrow> moves p q \<and> (good \<longrightarrow> rp_chr_offset p + k \<le> rp_chr_offset q)"
proof (induction k p rule: hex_fixed.induct)
  case (2 k p)
  show ?case
  proof (cases "16 \<le> digitValue (rp_chr p)")
    case True
    then show ?thesis using "2.prems" by (auto simp: moves_refl)
  next
    case False
    then have "rp_chr p \<noteq> -1" using digitValue_end [of "rp_chr p"] by simp
    note r = read_moves(1) [OF "2.prems"(1)] read_moves(2) [OF "2.prems"(1) this]
    have "hex_fixed k (rp_read p) = (good, q)" using "2.prems"(2) False by simp
    from "2.IH" [OF False movesD(1) [OF r(1)] this] show ?thesis using moves_trans [OF r(1)] r(2) by auto
  qed
qed (auto simp: moves_refl)

lemma hex_braced_ends:
  "rp_ok p \<Longrightarrow> left p < n \<Longrightarrow> \<exists>good q. hex_braced n p = Some (good, q) \<and> moves p q"
proof (induction n p rule: hex_braced.induct)
  case (2 n p)
  show ?case
  proof (cases "rp_chr p = ch CHR ''}'' \<or> rp_chr p = -1 \<or> 16 \<le> digitValue (rp_chr p)")
    case True
    then show ?thesis using "2.prems" by (auto simp: moves_refl)
  next
    case False
    note r = read_moves(1) [OF "2.prems"(1)] read_moves(2) [OF "2.prems"(1)]
    have "\<exists>good q. hex_braced n (rp_read p) = Some (good, q) \<and> moves (rp_read p) q"
      using "2.IH" False movesD(1) [OF r(1)] r(2) "2.prems"(2) by auto
    then show ?thesis using False moves_trans [OF r(1)] by auto
  qed
qed simp

lemma finish_hex_moves:
  assumes "moves p q" and "0 < offset" and "offset \<le> rp_chr_offset p"
    and "good \<and> len = 2 \<longrightarrow> rp_chr_offset p + 2 \<le> rp_chr_offset q"
  shows "moves p (finish_hex offset (rp_chr_offset p) len (good, q))"
proof -
  have q: "rp_ok q" "rp_chr_offset p \<le> rp_chr_offset q" "rp_chr_offset q \<le> length (rp_str q)"
    using movesD(1,4) [OF assms(1)] offset_bound by auto
  have a: "stays q (passString offset (rp_chr_offset q) q)" using passString_stays [OF q(1)] q assms(3) by simp
  have b: "stays q (passEscape offset (rp_chr_offset p + 2) q)" if "good" "len = 2"
    using passEscape_stays [OF q(1)] q assms(2-4) that by simp
  let ?w = "rp_write [CHR 0x5C, CHR ''x'', CHR ''{''] q"
  have w: "stays q ?w" by (rule write_stays [OF q(1)])
  have c: "stays q (passString (rp_chr_offset p) (rp_chr_offset q) ?w)"
    using stays_trans [OF w passString_stays [OF staysD(1) [OF w]]] q staysD(2) [OF w] by simp
  have d: "stays q (rp_write ''}'' (passString (rp_chr_offset p) (rp_chr_offset q) ?w))"
    by (rule stays_trans [OF c write_stays [OF staysD(1) [OF c]]])
  have "stays q (finish_hex offset (rp_chr_offset p) len (good, q))"
    using a b c d by (auto simp: finish_hex_def Let_def)
  then show ?thesis using moves_trans [OF assms(1) stays_moves] by blast
qed

lemma hex_chars_ends:
  assumes "rp_ok p" and "left p < n" and "0 < offset" and "offset \<le> rp_chr_offset p"
  shows "\<exists>q. hex_chars n offset len p = Some q \<and> moves p q"
proof (cases "len = 0")
  case True
  obtain good q where q: "hex_braced n p = Some (good, q)" "moves p q" using hex_braced_ends [OF assms(1,2)] by blast
  then show ?thesis using finish_hex_moves [OF q(2) assms(3,4), of good 0] True by (simp add: hex_chars_def)
next
  case False
  obtain good q where q: "hex_fixed len p = (good, q)" by fastforce
  then show ?thesis
    using finish_hex_moves [OF _ assms(3,4), of q good len] hex_fixed_moves [OF assms(1) q] False by (auto simp: hex_chars_def)
qed

lemma property_name_ends:
  "rp_ok p \<Longrightarrow> left p < n \<Longrightarrow> \<exists>q. property_name n p = Some q \<and> moves p q"
proof (induction n p rule: property_name.induct)
  case (2 n p)
  let ?q = "rp_pass_char p"
  note q = pass_char_moves(1) [OF "2.prems"(1)] pass_char_moves(2) [OF "2.prems"(1)]
  show ?case
  proof (cases "rp_chr ?q = -1 \<or> rp_chr ?q = ch CHR ''}''")
    case True
    then show ?thesis
      using moves_trans [OF q(1) error_moves [OF movesD(1) [OF q(1)]]] moves_trans [OF q(1) pass_char_moves(1) [OF movesD(1) [OF q(1)]]]
      by (auto simp: Let_def)
  next
    case False
    have "0 < left ?q" using False movesD(1) [OF q(1)] by (auto simp: left_def rp_ok_def)
    then have "rp_chr p \<noteq> -1" using movesD(3) [OF q(1)] by (auto simp: left_def)
    then have "\<exists>r. property_name n ?q = Some r \<and> moves ?q r"
      using "2.IH" [OF refl _ _ movesD(1) [OF q(1)]] False q(2) "2.prems"(2) by auto
    then show ?thesis using False moves_trans [OF q(1)] by (auto simp: Let_def)
  qed
qed simp

lemma property_escape_ends:
  assumes "rp_ok p" and "left p < n"
  shows "\<exists>q. property_escape n p = Some q \<and> moves p q"
proof -
  let ?w = "rp_write [CHR 0x5C] p"
  let ?q = "rp_pass_char ?w" and ?r = "rp_pass_char (rp_pass_char (rp_write [CHR 0x5C] p))"
  have w: "stays p ?w" by (rule write_stays [OF assms(1)])
  have q: "moves p ?q" by (rule moves_trans [OF stays_moves [OF w] pass_char_moves(1) [OF staysD(1) [OF w]]])
  have r: "moves p ?r" by (rule moves_trans [OF q pass_char_moves(1) [OF movesD(1) [OF q]]])
  have "\<exists>s. property_name n ?r = Some s \<and> moves ?r s"
    by (rule property_name_ends [OF movesD(1) [OF r]]) (use movesD(3) [OF r] assms(2) in simp)
  then show ?thesis
    using moves_trans [OF q error_moves] moves_trans [OF r error_moves] moves_trans [OF r] movesD(1) [OF q] movesD(1) [OF r]
    by (auto simp: property_escape_def Let_def)
qed

lemma written_read_moves: "rp_ok p \<Longrightarrow> moves p (rp_read (rp_write s p))"
  using moves_trans [OF stays_moves [OF write_stays] read_moves(1)] staysD(1) [OF write_stays] by blast

lemma control_escape_moves:
  assumes "rp_ok p"
  shows "moves p (control_escape p)"
  unfolding control_escape_def Let_def
  using moves_trans [OF read_moves(1) [OF assms] written_read_moves]
    moves_trans [OF read_moves(1) [OF assms] stays_moves [OF write_stays]] movesD(1) [OF read_moves(1) [OF assms]]
  by simp

lemma escaped_read_moves:
  assumes "rp_ok p" and "0 < rp_chr_offset p"
  shows "moves p (rp_read (passEscape (rp_chr_offset p) (rp_offset p) p))"
proof -
  have "stays p (passEscape (rp_chr_offset p) (rp_offset p) p)"
    by (rule passEscape_stays) (use assms in \<open>auto simp: rp_ok_def\<close>)
  then show ?thesis using moves_trans [OF stays_moves read_moves(1)] staysD(1) by blast
qed

lemma scanEscape_ends:
  assumes "rp_ok p" and "left p < n" and "0 < rp_chr_offset p"
  shows "\<exists>q. scanEscape n id_part inClass p = Some q \<and> moves p q"
proof -
  let ?off = "rp_chr_offset p" and ?q = "rp_read p" and ?r = "rp_read (rp_read p)"
  have q: "moves p ?q" by (rule read_moves(1) [OF assms(1)])
  have r: "moves p ?r" by (rule moves_trans [OF q read_moves(1) [OF movesD(1) [OF q]]])
  have hex: "\<exists>u. hex_chars n ?off len s = Some u \<and> moves p u" if "moves p s" for len s
  proof -
    have "left s < n" using movesD(3) [OF that] assms(2) by simp
    from hex_chars_ends [OF movesD(1) [OF that] this assms(3) movesD(4) [OF that]] show ?thesis using moves_trans [OF that] by blast
  qed
  note ends = octal_escape_ends [OF assms] hex [OF q] hex [OF r] moves_trans [OF q error_moves [OF movesD(1) [OF q]]]
    written_read_moves [OF assms(1)] escaped_read_moves [OF assms(1,3)] control_escape_moves [OF assms(1)]
    error_moves [OF assms(1)] property_escape_ends [OF assms(1,2)] pass_char_moves(1) [OF assms(1)]
  show ?thesis unfolding scanEscape_def Let_def using ends by (simp split del: if_split) (simp split: if_split)
qed

text \<open>One more construct, then the rest.\<close>

definition turns :: "nat \<Rightarrow> (rparser \<Rightarrow> rparser option) \<Rightarrow> bool" where
  "turns n f \<longleftrightarrow> (\<forall>p. rp_ok p \<longrightarrow> left p < n \<longrightarrow> (\<exists>q. f p = Some q \<and> moves p q))"

lemma turnsD: "turns n f \<Longrightarrow> rp_ok p \<Longrightarrow> left p < n \<Longrightarrow> \<exists>q. f p = Some q \<and> moves p q"
  by (simp add: turns_def)

lemma turns_after:
  assumes "turns n f" and "moves p q" and "left q < n"
  shows "\<exists>r. f q = Some r \<and> moves p r"
  using turnsD [OF assms(1) movesD(1) [OF assms(2)] assms(3)] moves_trans [OF assms(2)] by blast

lemma turns_bind:
  assumes "\<exists>q. c = Some q \<and> moves p q" and "turns n f" and "left p < n"
  shows "\<exists>r. Option.bind c f = Some r \<and> moves p r"
proof -
  obtain q where q: "c = Some q" "moves p q" using assms(1) by blast
  have "left q < n" using movesD(3) [OF q(2)] assms(3) by simp
  from turns_after [OF assms(2) q(2) this] show ?thesis by (simp add: q(1))
qed

text \<open>A construct that begins with a read.\<close>

lemma turns_step:
  assumes "moves p q" and "left q < left p" and "left p < Suc n" and "turns n f"
    and "\<exists>r. c = Some r \<and> moves q r"
  shows "\<exists>r. Option.bind c f = Some r \<and> moves p r"
  using turns_bind [OF assms(5,4)] assms(2,3) moves_trans [OF assms(1)] by auto

lemma escape_step:
  assumes "rp_ok p" and "left p < Suc n" and "rp_chr p \<noteq> -1" and "turns n f"
  shows "\<exists>r. Option.bind (scanEscape n id_part inClass (rp_read p)) f = Some r \<and> moves p r"
proof -
  note r = read_moves(1) [OF assms(1)] read_moves(2) [OF assms(1,3)]
  have "\<exists>q. scanEscape n id_part inClass (rp_read p) = Some q \<and> moves (rp_read p) q"
    by (rule scanEscape_ends [OF movesD(1) [OF r(1)]]) (use r(2) assms(2) in auto)
  then show ?thesis using turns_step [OF r(1) _ assms(2,4)] r(2) by blast
qed

lemma pass_step:
  assumes "rp_ok p" and "left p < Suc n" and "rp_chr p \<noteq> -1" and "turns n f"
  shows "\<exists>r. f (rp_pass_char p) = Some r \<and> moves p r"
  using turns_after [OF assms(4) pass_char_moves(1) [OF assms(1)]] pass_char_moves(2) [OF assms(1,3)] assms(2) by simp

lemma dot_step:
  assumes "rp_ok p" and "left p < Suc n" and "rp_chr p \<noteq> -1" and "turns n f"
  shows "\<exists>r. f (rp_read (rp_write re2Dot p)) = Some r \<and> moves p r"
proof -
  have w: "stays p (rp_write re2Dot p)" by (rule write_stays [OF assms(1)])
  have "left (rp_read (rp_write re2Dot p)) < left p"
    using read_moves(2) [OF staysD(1) [OF w]] staysD(3,4) [OF w] assms(3) by simp
  then show ?thesis using turns_after [OF assms(4) written_read_moves [OF assms(1)]] assms(2) by simp
qed

lemma class_loop_turns: "turns n (class_loop n id_part)"
proof (induction n)
  case 0
  then show ?case by (simp add: turns_def)
next
  case (Suc n)
  show ?case
    unfolding turns_def
  proof (intro allI impI)
    fix p assume p: "rp_ok p" "left p < Suc n"
    show "\<exists>q. class_loop (Suc n) id_part p = Some q \<and> moves p q"
      using error_moves [OF p(1)] pass_char_moves(1) [OF p(1)] escape_step [OF p _ Suc.IH] pass_step [OF p _ Suc.IH]
      by simp
  qed
qed

lemma skip_moves:
  assumes "rp_ok p" and "rp_chr p = ch CHR ''[''" and "has_prefix (drop (rp_chr_offset p) (rp_str p)) s" and "length s = Suc k"
  shows "moves p (skip_bytes k (rp_write t p))" and "left (skip_bytes k (rp_write t p)) < left p"
proof -
  let ?w = "rp_write t p"
  have w: "stays p ?w" by (rule write_stays [OF assms(1)])
  obtain u where "drop (rp_chr_offset p) (rp_str p) = s @ u" using assms(3) by (auto simp: has_prefix_iff)
  then have "length s \<le> length (drop (rp_chr_offset p) (rp_str p))" by (simp only: length_append)
  then have len: "rp_offset p + k \<le> length (rp_str p)" "rp_offset p = Suc (rp_chr_offset p)"
    using assms(1,2,4) by (auto simp: rp_ok_def)
  let ?u = "?w\<lparr>rp_offset := rp_offset ?w + k\<rparr>"
  have "rp_err p = None" using assms(1,2) by (auto simp: rp_ok_def)
  then have "rp_ok (rp_read ?u) \<and> rp_str (rp_read ?u) = rp_str ?u \<and> rp_offset ?u \<le> rp_chr_offset (rp_read ?u)
    \<and> left (rp_read ?u) \<le> length (rp_str ?u) - rp_offset ?u"
    by (intro read_start) (use w len in \<open>auto simp: stays_def rp_ok_def\<close>)
  then show "moves p (skip_bytes k ?w)" "left (skip_bytes k ?w) < left p"
    using w len assms(2) by (auto simp: skip_bytes_def stays_def moves_def left_def)
qed

lemma scanBracket_ends:
  assumes "rp_ok p" and "left p < Suc n" and "rp_chr p = ch CHR ''[''"
  shows "\<exists>q. scanBracket n id_part p = Some q \<and> moves p q \<and> left q < left p"
proof -
  let ?q = "rp_pass_char p"
  have c: "rp_chr p \<noteq> -1" using assms(3) by simp
  note q = pass_char_moves(1) [OF assms(1)] pass_char_moves(2) [OF assms(1) c]
  obtain r where r: "class_loop n id_part ?q = Some r" "moves ?q r"
    using turnsD [OF class_loop_turns movesD(1) [OF q(1)], of n id_part] q(2) assms(2) by auto
  have "moves p r" "left r < left p" using moves_trans [OF q(1) r(2)] movesD(3) [OF r(2)] q(2) by auto
  then show ?thesis
    using r(1) skip_moves [OF assms(1,3), of "''[]''" 1] skip_moves [OF assms(1,3), of "''[^]''" 2]
    by (auto simp: scanBracket_def Let_def)
qed

lemma bracket_step:
  assumes "rp_ok p" and "left p < Suc n" and "rp_chr p = ch CHR ''[''" and "turns n f"
  shows "\<exists>r. Option.bind (scanBracket n id_part p) f = Some r \<and> moves p r"
proof -
  obtain q where q: "scanBracket n id_part p = Some q" "moves p q" "left q < left p" using scanBracket_ends [OF assms(1-3)] by blast
  have "left q < n" using q(3) assms(2) by simp
  from turns_after [OF assms(4) q(2) this] show ?thesis by (simp add: q(1))
qed

lemma group_step:
  assumes "rp_ok p" and "left p < Suc n" and "rp_chr p \<noteq> -1" and "turns n loop" and "turns n f"
  shows "\<exists>r. Option.bind (scanGroup loop (rp_pass_char p)) f = Some r \<and> moves p r"
proof -
  note q = pass_char_moves(1) [OF assms(1)] pass_char_moves(2) [OF assms(1,3)]
  have "left (rp_pass_char p) < n" using q(2) assms(2) by simp
  then have "\<exists>r. scanGroup loop (rp_pass_char p) = Some r \<and> moves (rp_pass_char p) r"
    using error_moves [OF movesD(1) [OF q(1)]] turnsD [OF assms(4) movesD(1) [OF q(1)]]
    by (auto simp: scanGroup_def split: option.splits)
  then show ?thesis using turns_step [OF q(1) _ assms(2,5)] q(2) by blast
qed

lemma group_loop_turns: "turns n (group_loop n id_part)"
proof (induction n)
  case 0
  then show ?case by (simp add: turns_def)
next
  case (Suc n)
  show ?case
    unfolding turns_def
  proof (intro allI impI)
    fix p assume p: "rp_ok p" "left p < Suc n"
    show "\<exists>q. group_loop (Suc n) id_part p = Some q \<and> moves p q"
      using error_moves [OF p(1)] pass_char_moves(1) [OF p(1)] escape_step [OF p _ Suc.IH] pass_step [OF p _ Suc.IH]
        group_step [OF p _ Suc.IH Suc.IH] bracket_step [OF p _ Suc.IH] dot_step [OF p _ Suc.IH]
      by simp
  qed
qed

lemma scan_turns: "turns n (scan n id_part)"
proof (induction n)
  case 0
  then show ?case by (simp add: turns_def)
next
  case (Suc n)
  show ?case
    unfolding turns_def
  proof (intro allI impI)
    fix p assume p: "rp_ok p" "left p < Suc n"
    show "\<exists>q. scan (Suc n) id_part p = Some q \<and> moves p q"
      using error_moves [OF p(1)] moves_refl [OF p(1)] escape_step [OF p _ Suc.IH] pass_step [OF p _ Suc.IH]
        group_step [OF p _ group_loop_turns Suc.IH] bracket_step [OF p _ Suc.IH] dot_step [OF p _ Suc.IH]
      by simp
  qed
qed

text \<open>
  Translating a regular expression always ends and never slices the pattern out of range: for every pattern, valid
  UTF-8 or not, the answer is a translation or that there is none.
\<close>

lemma convert_total: "\<exists>r. Convert id_part pattern = Inr r"
proof (cases "pattern = []")
  case False
  let ?p = "rp_read (rp_start pattern)"
  have "rp_ok ?p \<and> rp_str ?p = rp_str (rp_start pattern) \<and> rp_offset (rp_start pattern) \<le> rp_chr_offset ?p
    \<and> left ?p \<le> length (rp_str (rp_start pattern)) - rp_offset (rp_start pattern)"
    by (rule read_start) (simp_all add: rp_start_def)
  then have p: "rp_ok ?p" "left ?p < length pattern + 2" by (simp_all add: rp_start_def)
  from turnsD [OF scan_turns p] obtain q where "scan (length pattern + 2) id_part ?p = Some q" "moves ?p q" by blast
  then show ?thesis using False movesD(1) [of ?p q]
    by (auto simp: Convert_def ResultString_def rp_ok_def split: option.splits)
qed (simp add: Convert_def)

text \<open>
  An octal escape of four digits loses its braces: Go reads two digits after \<open>\x\<close>, so that the last becomes a letter.
  An octal number that does not fit 64 bits wraps around to a negative one.
\<close>

lemma long_octal_unbraced: "Convert (\<lambda>_. False) (CHR 0x5C # ''1234'') = Inr (Some (CHR 0x5C # ''x29c''))"
  by code_simp

lemma octal_wraps: "Convert (\<lambda>_. False) (CHR 0x5C # ''1777777777777777777777'') = Inr (Some (CHR 0x5C # ''x0-1''))"
  by code_simp

end
