(* ===== verification/RegexTranslation.thy ===== *)
theory RegexTranslation
  imports RegexProps
begin

text \<open>
  What \<open>Convert\<close> computes, on patterns built from the constructs it knows: a translation by structure. The scanner with
  its offsets and its prefix that is passed on uncopied is equivalent to it.
\<close>

section \<open>The text written so far\<close>

definition written :: "rparser \<Rightarrow> string" where
  "written p = (case rp_pass p of Some k \<Rightarrow> take k (rp_str p) | None \<Rightarrow> rp_go p)"

text \<open>The scanner is before the runes \<open>rs\<close>.\<close>

definition facing :: "rparser \<Rightarrow> rune list \<Rightarrow> bool" where
  "facing p rs \<longleftrightarrow> rp_ok p \<and> rp_err p = None \<and> drop (rp_chr_offset p) (rp_str p) = string_of_runes rs
     \<and> (\<forall>r \<in> set rs. valid_rune r)
     \<and> (case rs of [] \<Rightarrow> rp_chr p = -1 | r # _ \<Rightarrow> rp_chr p = int r \<and> rp_offset p = rp_chr_offset p + length (encode_rune r))"

definition emits :: "rparser \<Rightarrow> rune list \<Rightarrow> string \<Rightarrow> rparser \<Rightarrow> bool" where
  "emits p rs s q \<longleftrightarrow> facing q rs \<and> written q = written p @ s \<and> rp_str q = rp_str p \<and> rp_chr_offset p \<le> rp_chr_offset q"

lemma emits_trans: "emits p rs s q \<Longrightarrow> emits q rs' s' r \<Longrightarrow> emits p rs' (s @ s') r"
  by (simp add: emits_def)

lemma facingD: "facing p rs \<Longrightarrow> rp_ok p" "facing p (r # rs) \<Longrightarrow> rp_chr p = int r" "facing p [] \<Longrightarrow> rp_chr p = -1"
    "facing p rs \<Longrightarrow> rp_err p = None" "facing p rs \<Longrightarrow> drop (rp_chr_offset p) (rp_str p) = string_of_runes rs"
    "facing p (r # rs) \<Longrightarrow> rp_offset p = rp_chr_offset p + length (encode_rune r)"
  by (simp_all add: facing_def)

lemma slice_between:
  assumes "drop i s = a @ b" and "drop j s = b" and "i \<le> j" and "j \<le> length s"
  shows "drop i (take j s) = a"
proof -
  have "length s - i = length a + length b" "length s - j = length b"
    using arg_cong [OF assms(1), of length] arg_cong [OF assms(2), of length] by simp_all
  then have "j - i = length a" using assms(3,4) by simp
  then show ?thesis using assms(1) by (simp add: drop_take)
qed

lemma started_written: "rp_ok p \<Longrightarrow> written (rp_started p) = written p \<and> rp_go (rp_started p) = written p"
  by (auto simp: written_def rp_started_def stopPassing_def rp_append_slice_def rp_append_def rp_ok_def split: option.splits)

lemma stays_facing: "stays p q \<Longrightarrow> facing p rs \<Longrightarrow> facing q rs"
  by (auto simp: stays_def facing_def split: list.splits)

lemma write_emits: "facing p rs \<Longrightarrow> emits p rs s (rp_write s p)"
  using write_stays [of p s] started_written [of p] started_stays [of p] stays_facing [of p "rp_write s p" rs]
  by (auto simp: emits_def facingD(1) stays_def rp_write_def rp_append_def written_def)

lemma passString_emits:
  assumes "facing p rs" and "i \<le> j" and "j \<le> length (rp_str p)"
  shows "emits p rs (drop i (take j (rp_str p))) (passString i j p)"
proof -
  have s: "stays p (passString i j p)" by (rule passString_stays [OF facingD(1) [OF assms(1)] assms(2,3)])
  have "written (passString i j p) = written p @ drop i (take j (rp_str p))"
  proof (cases "rp_pass p = Some i")
    case True
    have "take j (rp_str p) = take i (rp_str p) @ drop i (take j (rp_str p))"
      using assms(2) by (metis append_take_drop_id min.absorb1 take_take)
    then show ?thesis using True by (simp add: written_def passString_def)
  next
    case False
    have t: "stays p (rp_started p)" "rp_pass (rp_started p) = None" using started_stays [OF facingD(1) [OF assms(1)]] by auto
    then show ?thesis
      using False assms(2,3) started_written [OF facingD(1) [OF assms(1)]] staysD(2) [OF t(1)]
      by (simp add: passString_def rp_append_slice_def rp_append_def written_def)
  qed
  then show ?thesis using s stays_facing [OF s assms(1)] by (simp add: emits_def stays_def)
qed

lemma read_at:
  assumes "rp_ok (rp_read u)" and "rp_str (rp_read u) = rp_str u" and "rp_err u = None"
    and "drop (rp_offset u) (rp_str u) = string_of_runes rs" and "\<forall>r \<in> set rs. valid_rune r"
  shows "facing (rp_read u) rs" and "written (rp_read u) = written u"
proof -
  show "written (rp_read u) = written u"
    by (auto simp: written_def rp_read_def rp_error_def Let_def split: option.splits prod.splits)
  show "facing (rp_read u) rs"
  proof (cases rs)
    case Nil
    then have "\<not> rp_offset u < length (rp_str u)" using assms(4) by simp
    then have "rp_read u = u\<lparr>rp_chr_offset := length (rp_str u), rp_chr := -1\<rparr>" by (simp add: rp_read_def)
    then show ?thesis using assms(1-3) Nil by (simp add: facing_def)
  next
    case (Cons x xs)
    have v: "valid_rune x" using assms(5) Cons by simp
    have lt: "rp_offset u < length (rp_str u)" using assms(4) Cons by (cases "rp_offset u < length (rp_str u)") auto
    have dec: "decode_rune (drop (rp_offset u) (rp_str u)) = (x, length (encode_rune x))"
      unfolding assms(4) Cons by (simp add: decode_encode_rune [OF v])
    have c: "drop (rp_offset u) (rp_str u) = rp_str u ! rp_offset u # drop (Suc (rp_offset u)) (rp_str u)"
      using lt by (simp add: Cons_nth_drop_Suc)
    have ascii: "x = byte_of (rp_str u ! rp_offset u) \<and> length (encode_rune x) = 1" if "byte_of (rp_str u ! rp_offset u) < 128"
      using dec that unfolding c by (simp add: decode_rune_ascii)
    have wide: "\<not> (x = rune_error \<and> length (encode_rune x) = 1)" by (simp add: encode_rune_def valid_rune_def)
    have "rp_read u = u\<lparr>rp_chr_offset := rp_offset u, rp_offset := rp_offset u + length (encode_rune x), rp_chr := int x\<rparr>"
      using lt dec ascii wide by (auto simp: rp_read_def Let_def)
    then show ?thesis using assms Cons by (simp add: facing_def)
  qed
qed

lemma rest_of_facing: "facing p (r # rs) \<Longrightarrow> drop (rp_offset p) (rp_str p) = string_of_runes rs"
  using arg_cong [OF facingD(5), of p "r # rs" "drop (length (encode_rune r))"] by (simp add: facingD(6) add.commute)

lemma read_emits:
  assumes "facing p (r # rs)"
  shows "emits p rs [] (rp_read p)"
proof -
  have f: "rp_ok p" "rp_err p = None" "\<forall>x \<in> set rs. valid_rune x" using assms by (simp_all add: facing_def)
  note m = read_moves(1) [OF f(1)]
  show ?thesis
    using read_at [OF movesD(1,2) [OF m] f(2) rest_of_facing [OF assms] f(3)] movesD(2,4) [OF m] by (simp add: emits_def)
qed

lemma pass_emits:
  assumes "facing p (r # rs)"
  shows "emits p rs (encode_rune r) (rp_pass_char p)"
proof -
  have f: "rp_ok p" "rp_chr p = int r" "rp_offset p = rp_chr_offset p + length (encode_rune r)"
    "drop (rp_chr_offset p) (rp_str p) = encode_rune r @ string_of_runes rs" using assms by (simp_all add: facing_def)
  have off: "rp_offset p \<le> length (rp_str p)" using f(1) by (simp add: rp_ok_def)
  show ?thesis
  proof (cases "rp_pass p = Some (rp_chr_offset p)")
    case True
    let ?q = "p\<lparr>rp_pass := Some (rp_offset p)\<rparr>"
    have q: "facing ?q (r # rs)" using assms True off by (auto simp: facing_def rp_ok_def)
    have "written ?q = take (rp_chr_offset p) (rp_str p) @ encode_rune r"
      using f(3,4) by (simp add: written_def take_add)
    then have "emits p (r # rs) (encode_rune r) ?q" using q True by (simp add: emits_def written_def)
    from emits_trans [OF this read_emits [OF q]] show ?thesis using True by (simp add: rp_pass_char_def)
  next
    case False
    have w: "emits p (r # rs) (encode_rune r) (rp_write (encode_rune r) p)" by (rule write_emits [OF assms])
    then have "facing (rp_write (encode_rune r) p) (r # rs)" by (simp add: emits_def)
    from emits_trans [OF w read_emits [OF this]] show ?thesis using False f(2) by (simp add: rp_pass_char_def rp_write_def)
  qed
qed

section \<open>Patterns\<close>

text \<open>
  Escapes: kept as they are, or a letter that loses its backslash, hexadecimal escapes, control characters and white
  space.
\<close>

datatype escape =
    Kept rune
  | Bare rune
  | Hex2 rune rune
  | Hex4 rune rune rune rune
  | Control rune
  | Space

datatype piece =
    Lit rune
  | Dot
  | Escaped escape
  | NonSpace
  | Nothing
  | Anything
  | Class "(rune + escape) list"
  | Group "piece list"

abbreviation rn :: "char \<Rightarrow> rune" where
  "rn c \<equiv> byte_of c"

primrec escape_source :: "escape \<Rightarrow> rune list" where
  "escape_source (Kept c) = [92, c]"
| "escape_source (Bare c) = [92, c]"
| "escape_source (Hex2 a b) = [92, rn CHR ''x'', a, b]"
| "escape_source (Hex4 a b c d) = [92, rn CHR ''u'', a, b, c, d]"
| "escape_source (Control c) = [92, rn CHR ''c'', c]"
| "escape_source Space = [92, rn CHR ''s'']"

primrec escape_target :: "bool \<Rightarrow> escape \<Rightarrow> string" where
  "escape_target cl (Kept c) = string_of_runes [92, c]"
| "escape_target cl (Bare c) = encode_rune c"
| "escape_target cl (Hex2 a b) = string_of_runes [92, rn CHR ''x'', a, b]"
| "escape_target cl (Hex4 a b c d) = [CHR 0x5C, CHR ''x'', CHR ''{''] @ string_of_runes [a, b, c, d] @ ''}''"
| "escape_target cl (Control c) = hex_escape (word_of_int (int c - (if rn CHR ''a'' \<le> c then 96 else 64)))"
| "escape_target cl Space = (if cl then whitespaceChars else ''['' @ whitespaceChars @ '']'')"

definition special_letters :: string where
  "special_letters = ''01234567bBdDwWfnrtv89xucsSpP''"

definition kept_rune :: "rune \<Rightarrow> bool" where
  "kept_rune c \<longleftrightarrow> c \<in> rn ` set kept_escapes \<or> c < 128 \<and> \<not> isIdentifierPart (\<lambda>_. False) (int c) \<or> c = rn CHR ''$''"

definition hex_rune :: "rune \<Rightarrow> bool" where
  "hex_rune c \<longleftrightarrow> digitValue (int c) < 16"

primrec escape_ok :: "bool \<Rightarrow> escape \<Rightarrow> bool" where
  "escape_ok cl (Kept c) \<longleftrightarrow> kept_rune c \<and> \<not> (cl \<and> c = rn CHR ''b'')"
| "escape_ok cl (Bare c) \<longleftrightarrow> valid_rune c \<and> c \<notin> rn ` set special_letters \<and> \<not> kept_rune c"
| "escape_ok cl (Hex2 a b) \<longleftrightarrow> hex_rune a \<and> hex_rune b"
| "escape_ok cl (Hex4 a b c d) \<longleftrightarrow> hex_rune a \<and> hex_rune b \<and> hex_rune c \<and> hex_rune d"
| "escape_ok cl (Control c) \<longleftrightarrow> rn CHR ''a'' \<le> c \<and> c \<le> rn CHR ''z'' \<or> rn CHR ''A'' \<le> c \<and> c \<le> rn CHR ''Z''"
| "escape_ok cl Space \<longleftrightarrow> True"

section \<open>Escapes\<close>

text \<open>The scanner is behind a backslash.\<close>

definition behind :: "rparser \<Rightarrow> rune list \<Rightarrow> bool" where
  "behind p rs \<longleftrightarrow> facing p rs \<and> 0 < rp_chr_offset p \<and> drop (rp_chr_offset p - 1) (rp_str p) = string_of_runes (92 # rs)"

lemma behind_read:
  assumes "facing p (92 # rs)"
  shows "emits p rs [] (rp_read p)" and "behind (rp_read p) rs"
proof -
  have e: "encode_rune 92 = [CHR 0x5C]" using char_of_char [of "CHR 0x5C"] by (simp add: encode_rune_ascii)
  show r: "emits p rs [] (rp_read p)" by (rule read_emits [OF assms])
  have f: "rp_offset p = Suc (rp_chr_offset p)" "drop (rp_chr_offset p) (rp_str p) = string_of_runes (92 # rs)"
    using assms by (simp_all add: facing_def e)
  have "rp_offset p \<le> length (rp_str p)" "rp_ok p" using facingD(1) [OF assms] by (simp_all add: rp_ok_def)
  then have "rp_chr_offset (rp_read p) = rp_offset p"
    by (auto simp: rp_read_def rp_error_def Let_def split: prod.splits)
  then show "behind (rp_read p) rs" using r f by (simp add: behind_def emits_def)
qed

lemma slice_emitted:
  assumes "drop i (rp_str p) = string_of_runes (xs @ rs)" and "facing q rs" and "rp_str q = rp_str p" and "i \<le> rp_chr_offset q"
  shows "drop i (take (rp_chr_offset q) (rp_str p)) = string_of_runes xs"
  using slice_between [of i "rp_str p" "string_of_runes xs" "string_of_runes rs" "rp_chr_offset q"] assms offset_bound [of q]
  by (simp add: facing_def)

lemma kept_emits:
  assumes "behind p (c # rs)"
  shows "emits p rs (string_of_runes [92, c]) (rp_read (passEscape (rp_chr_offset p) (rp_offset p) p))"
proof -
  let ?i = "rp_chr_offset p - 1"
  have f: "facing p (c # rs)" "0 < rp_chr_offset p" "drop ?i (rp_str p) = string_of_runes (92 # c # rs)"
    using assms by (simp_all add: behind_def)
  have ok: "rp_chr_offset p \<le> rp_offset p" "rp_offset p \<le> length (rp_str p)" using facingD(1) [OF f(1)] by (simp_all add: rp_ok_def)
  have "drop (rp_offset p) (rp_str p) = string_of_runes rs"
    using arg_cong [OF facingD(5) [OF f(1)], of "drop (length (encode_rune c))"] by (simp add: facingD(6) [OF f(1)] add.commute)
  then have s: "drop ?i (take (rp_offset p) (rp_str p)) = string_of_runes [92, c]"
    using slice_between [of ?i "rp_str p" "string_of_runes [92, c]" "string_of_runes rs" "rp_offset p"] f(3) ok by simp
  have e: "emits p (c # rs) (string_of_runes [92, c]) (passEscape (rp_chr_offset p) (rp_offset p) p)"
    using passString_emits [OF f(1), of ?i "rp_offset p"] f(2) ok s by (simp add: passEscape_def)
  then have "facing (passEscape (rp_chr_offset p) (rp_offset p) p) (c # rs)" by (simp add: emits_def)
  from emits_trans [OF e read_emits [OF this]] show ?thesis by simp
qed

lemma hex_fixed_emits:
  "facing p (ds @ rs) \<Longrightarrow> \<forall>d \<in> set ds. hex_rune d \<Longrightarrow> \<exists>q. hex_fixed (length ds) p = (True, q) \<and> emits p rs [] q"
proof (induction ds arbitrary: p)
  case Nil
  then show ?case by (simp add: emits_def)
next
  case (Cons d ds)
  have r: "emits p (ds @ rs) [] (rp_read p)" using Cons.prems(1) by (intro read_emits) simp
  then obtain q where q: "hex_fixed (length ds) (rp_read p) = (True, q)" "emits (rp_read p) rs [] q"
    using Cons.IH [of "rp_read p"] Cons.prems(2) by (auto simp: emits_def)
  have "rp_chr p = int d" using Cons.prems(1) by (simp add: facing_def)
  then show ?case using q emits_trans [OF r q(2)] Cons.prems(2) by (auto simp: hex_rune_def)
qed

lemmas escape_defs = kept_rune_def kept_escapes_def isIdentifierPart_def special_letters_def

lemma kept_rune_distinct:
  "kept_rune c \<Longrightarrow> \<not> (48 \<le> c \<and> c \<le> 57) \<and> c \<notin> {120, 117, 99, 115, 83, 112, 80}"
  by (auto simp: escape_defs)

lemma bare_rune_distinct:
  "c \<notin> rn ` set special_letters \<Longrightarrow> \<not> (48 \<le> c \<and> c \<le> 57) \<and> c \<notin> {120, 117, 99, 115, 83, 112, 80, 98}"
proof -
  assume a: "c \<notin> rn ` set special_letters"
  have "c = 48 \<or> c = 49 \<or> c = 50 \<or> c = 51 \<or> c = 52 \<or> c = 53 \<or> c = 54 \<or> c = 55 \<or> c = 56 \<or> c = 57"
    if "48 \<le> c" "c \<le> 57" using that by arith
  then show ?thesis using a by (auto simp: special_letters_def)
qed

lemma scanEscape_other:
  assumes "rp_chr p = int c" and "\<not> (48 \<le> c \<and> c \<le> 57)" and "c \<notin> {120, 117, 99, 115, 83, 112, 80}" and "\<not> (cl \<and> c = 98)"
  shows "scanEscape n id_part cl p =
    (if int c \<in> ch ` set kept_escapes \<or> int c = ch CHR ''$'' \<or> int c < 128 \<and> \<not> isIdentifierPart id_part (int c)
     then Some (rp_read (passEscape (rp_chr_offset p) (rp_offset p) p)) else Some (rp_pass_char p))"
proof -
  consider "c < 48" | "57 < c" using assms(2) by linarith
  then show ?thesis using assms(1,3,4) by cases (cases "c = 98"; simp add: scanEscape_def Let_def)+
qed

lemma int_in_chars: "int c \<in> ch ` A \<longleftrightarrow> c \<in> rn ` A"
  by auto

lemma identifier_ascii: "c < 128 \<Longrightarrow> isIdentifierPart id_part (int c) = isIdentifierPart (\<lambda>_. False) (int c)"
  by (simp add: isIdentifierPart_def)

lemma kept_rune_iff:
  "int c \<in> ch ` set kept_escapes \<or> int c = ch CHR ''$'' \<or> int c < 128 \<and> \<not> isIdentifierPart id_part (int c) \<longleftrightarrow> kept_rune c"
  unfolding int_in_chars kept_rune_def using identifier_ascii [of c id_part] by auto

lemma escape_kept_emits:
  assumes "behind p (c # rs)" and "kept_rune c" and "\<not> (cl \<and> c = rn CHR ''b'')"
  shows "\<exists>q. scanEscape n id_part cl p = Some q \<and> emits p rs (string_of_runes [92, c]) q"
proof -
  have c: "rp_chr p = int c" using assms(1) by (simp add: behind_def facing_def)
  have h: "\<not> (48 \<le> c \<and> c \<le> 57)" "c \<notin> {120, 117, 99, 115, 83, 112, 80}" "\<not> (cl \<and> c = 98)"
    using kept_rune_distinct [OF assms(2)] assms(3) by auto
  have "scanEscape n id_part cl p = Some (rp_read (passEscape (rp_chr_offset p) (rp_offset p) p))"
    by (simp only: scanEscape_other [OF c h] kept_rune_iff assms(2) if_True)
  then show ?thesis using kept_emits [OF assms(1)] by simp
qed

lemma escape_bare_emits:
  assumes "behind p (c # rs)" and "escape_ok cl (Bare c)"
  shows "\<exists>q. scanEscape n id_part cl p = Some q \<and> emits p rs (encode_rune c) q"
proof -
  have f: "facing p (c # rs)" "rp_chr p = int c" using assms(1) by (simp_all add: behind_def facing_def)
  have k: "\<not> kept_rune c" "c \<notin> rn ` set special_letters" using assms(2) by simp_all
  from bare_rune_distinct [OF k(2)]
  have h: "\<not> (48 \<le> c \<and> c \<le> 57)" "c \<notin> {120, 117, 99, 115, 83, 112, 80}" "\<not> (cl \<and> c = 98)" by auto
  have "scanEscape n id_part cl p = Some (rp_pass_char p)"
    by (simp only: scanEscape_other [OF f(2) h] kept_rune_iff k(1) if_False)
  then show ?thesis using pass_emits [OF f(1)] by simp
qed

lemma escape_hex2_emits:
  assumes "behind p (rn CHR ''x'' # a # b # rs)" and "hex_rune a" and "hex_rune b"
  shows "\<exists>q. scanEscape n id_part cl p = Some q \<and> emits p rs (string_of_runes [92, rn CHR ''x'', a, b]) q"
proof -
  let ?i = "rp_chr_offset p" and ?r = "rp_read p"
  have f: "facing p (rn CHR ''x'' # a # b # rs)" "0 < ?i" "drop (?i - 1) (rp_str p) = string_of_runes (92 # rn CHR ''x'' # a # b # rs)"
    using assms(1) by (simp_all add: behind_def)
  have r: "emits p (a # b # rs) [] ?r" by (rule read_emits [OF f(1)])
  then obtain q where q: "hex_fixed 2 ?r = (True, q)" "emits ?r rs [] q"
    using hex_fixed_emits [of ?r "[a, b]" rs] assms(2,3) by (auto simp: emits_def numeral_2_eq_2)
  have pq: "emits p rs [] q" using emits_trans [OF r q(2)] by simp
  have chr: "a < 128" "b < 128" using assms(2,3) by (auto simp: hex_rune_def digitValue_def split: if_splits)
  have "length (string_of_runes [a, b]) = 2" using chr by (simp add: encode_rune_ascii)
  moreover have "drop (rp_chr_offset ?r) (take (rp_chr_offset q) (rp_str ?r)) = string_of_runes [a, b]"
  proof (rule slice_emitted [where rs = rs])
    have "facing ?r (a # b # rs)" using r by (simp only: emits_def)
    from facingD(5) [OF this] show "drop (rp_chr_offset ?r) (rp_str ?r) = string_of_runes ([a, b] @ rs)" by simp
  qed (use q(2) in \<open>simp_all only: emits_def\<close>)
  ultimately have "length (drop (rp_chr_offset ?r) (take (rp_chr_offset q) (rp_str ?r))) = 2" by (simp only:)
  moreover have "rp_chr_offset q \<le> length (rp_str ?r)" "rp_chr_offset ?r \<le> rp_chr_offset q"
    using offset_bound [of q] q(2) by (simp_all add: emits_def facing_def)
  ultimately have len: "rp_chr_offset q = rp_chr_offset ?r + 2" by simp
  have "drop (?i - 1) (take (rp_chr_offset q) (rp_str q)) = string_of_runes [92, rn CHR ''x'', a, b]"
    using slice_emitted [of "?i - 1" p "[92, rn CHR ''x'', a, b]" rs q] f(3) pq le_trans [of "?i - 1" ?i "rp_chr_offset q"]
    by (simp add: emits_def)
  moreover have "emits q rs (drop (?i - 1) (take (rp_chr_offset q) (rp_str q))) (passString (?i - 1) (rp_chr_offset q) q)"
    by (rule passString_emits) (use pq offset_bound [of q] in \<open>auto simp: emits_def facing_def\<close>)
  ultimately have "emits p rs (string_of_runes [92, rn CHR ''x'', a, b]) (passEscape ?i (rp_chr_offset ?r + 2) q)"
    using emits_trans [OF pq] f(2) len by (simp add: passEscape_def)
  moreover have "scanEscape n id_part cl p = Some (passEscape ?i (rp_chr_offset ?r + 2) q)"
    using facingD(2) [OF f(1)] q(1) by (simp add: scanEscape_def Let_def hex_chars_def finish_hex_def)
  ultimately show ?thesis by blast
qed

lemma emitsD: "emits p rs s q \<Longrightarrow> facing q rs" "emits p rs s q \<Longrightarrow> rp_str q = rp_str p"
    "emits p rs s q \<Longrightarrow> rp_chr_offset p \<le> rp_chr_offset q"
  by (simp_all only: emits_def)

lemma emits_read: "emits p (c # rs) s q \<Longrightarrow> emits p rs s (rp_read q)"
  using emits_trans [OF _ read_emits [OF emitsD(1)]] by fastforce

lemma emits_write: "emits p rs s q \<Longrightarrow> emits p rs (s @ s') (rp_write s' q)"
  using emits_trans [OF _ write_emits [OF emitsD(1)]] by blast

lemma escape_hex4_emits:
  assumes "behind p (rn CHR ''u'' # a # b # c # d # rs)" and "hex_rune a" and "hex_rune b" and "hex_rune c" and "hex_rune d"
  shows "\<exists>q. scanEscape n id_part cl p = Some q \<and> emits p rs (escape_target cl (Hex4 a b c d)) q"
proof -
  let ?r = "rp_read p"
  have f: "facing p (rn CHR ''u'' # a # b # c # d # rs)" using assms(1) by (simp add: behind_def)
  have r: "emits p (a # b # c # d # rs) [] ?r" by (rule read_emits [OF f])
  note fr = emitsD(1) [OF r]
  obtain q where q: "hex_fixed 4 ?r = (True, q)" "emits ?r rs [] q"
    using hex_fixed_emits [of ?r "[a, b, c, d]" rs] assms(2-) fr by (auto simp: eval_nat_numeral)
  have pq: "emits p rs [] q" using emits_trans [OF r q(2)] by simp
  have s: "drop (rp_chr_offset ?r) (take (rp_chr_offset q) (rp_str ?r)) = string_of_runes [a, b, c, d]"
    by (rule slice_emitted [where rs = rs]) (use facingD(5) [OF fr] emitsD [OF q(2)] in simp_all)
  let ?w = "rp_write [CHR 0x5C, CHR ''x'', CHR ''{''] q"
  have w: "emits p rs [CHR 0x5C, CHR ''x'', CHR ''{''] ?w" using emits_write [OF pq] by simp
  have str: "rp_str ?w = rp_str ?r" using emitsD(2) [OF w] emitsD(2) [OF r] by simp
  have len: "rp_chr_offset q \<le> length (rp_str ?w)"
    using offset_bound [OF facingD(1) [OF emitsD(1) [OF q(2)]]] emitsD(2) [OF q(2)] str by simp
  let ?x = "passString (rp_chr_offset ?r) (rp_chr_offset q) ?w"
  have "emits ?w rs (string_of_runes [a, b, c, d]) ?x"
    using passString_emits [OF emitsD(1) [OF w] emitsD(3) [OF q(2)] len] s str by simp
  from emits_write [OF emits_trans [OF w this], of "''}''"]
  have x: "emits p rs (escape_target cl (Hex4 a b c d)) (rp_write ''}'' ?x)" by simp
  have "a \<noteq> rn CHR ''{''" using assms(2) by (auto simp: hex_rune_def digitValue_def)
  then have "scanEscape n id_part cl p = Some (rp_write ''}'' ?x)"
    using facingD(2) [OF f] facingD(2) [OF fr] q(1) by (simp add: scanEscape_def Let_def hex_chars_def finish_hex_def)
  then show ?thesis using x by blast
qed

lemma letters_not_kept: "int (rn CHR ''c'') \<notin> ch ` set kept_escapes" "int (rn CHR ''s'') \<notin> ch ` set kept_escapes"
    "int (rn CHR ''S'') \<notin> ch ` set kept_escapes"
  by (simp_all add: kept_escapes_def)

lemma escape_control_emits:
  assumes "behind p (rn CHR ''c'' # c # rs)" and "escape_ok cl (Control c)"
  shows "\<exists>q. scanEscape n id_part cl p = Some q \<and> emits p rs (escape_target cl (Control c)) q"
proof -
  have f: "facing p (rn CHR ''c'' # c # rs)" using assms(1) by (simp add: behind_def)
  have r: "emits p (c # rs) [] (rp_read p)" by (rule read_emits [OF f])
  have w: "emits p rs s (rp_read (rp_write s (rp_read p)))" for s using emits_read [OF emits_write [OF r]] by simp
  have "scanEscape n id_part cl p = Some (control_escape p)"
    using facingD(2) [OF f] letters_not_kept(1) by (simp add: scanEscape_def Let_def)
  moreover have "control_escape p = rp_read (rp_write (escape_target cl (Control c)) (rp_read p))"
    using facingD(2) [OF emitsD(1) [OF r]] assms(2) by (auto simp: control_escape_def Let_def)
  ultimately show ?thesis using w by simp
qed

lemma escape_space_emits:
  assumes "behind p (rn CHR ''s'' # rs)"
  shows "\<exists>q. scanEscape n id_part cl p = Some q \<and> emits p rs (escape_target cl Space) q"
proof -
  have f: "facing p (rn CHR ''s'' # rs)" using assms(1) by (simp add: behind_def)
  have "scanEscape n id_part cl p = Some (rp_read (rp_write (escape_target cl Space) p))"
    using facingD(2) [OF f] letters_not_kept(2) by (simp add: scanEscape_def Let_def)
  then show ?thesis using emits_read [OF write_emits [OF f]] by simp
qed

lemma escape_emits:
  assumes "facing p (escape_source e @ rs)" and "escape_ok cl e"
  shows "\<exists>q. scanEscape n id_part cl (rp_read p) = Some q \<and> emits p rs (escape_target cl e) q"
proof -
  obtain xs where xs: "escape_source e = 92 # xs" by (cases e) auto
  have f: "facing p (92 # xs @ rs)" using assms(1) xs by simp
  note r = behind_read [OF f]
  have "\<exists>q. scanEscape n id_part cl (rp_read p) = Some q \<and> emits (rp_read p) rs (escape_target cl e) q"
  proof (cases e)
    case (Kept c)
    then show ?thesis using escape_kept_emits [of "rp_read p" c rs cl n id_part] r(2) assms(2) xs by auto
  next
    case (Bare c)
    then show ?thesis using escape_bare_emits [of "rp_read p" c rs cl n id_part] r(2) assms(2) xs by auto
  next
    case (Hex2 a b)
    then show ?thesis using escape_hex2_emits [of "rp_read p" a b rs n id_part cl] r(2) assms(2) xs by auto
  next
    case (Hex4 a b c d)
    then show ?thesis using escape_hex4_emits [of "rp_read p" a b c d rs n id_part cl] r(2) assms(2) xs by auto
  next
    case (Control c)
    then show ?thesis using escape_control_emits [of "rp_read p" c rs cl n id_part] r(2) assms(2) xs by (auto simp del: escape_target.simps)
  next
    case Space
    then show ?thesis using escape_space_emits [of "rp_read p" rs n id_part cl] r(2) xs by (auto simp del: escape_target.simps)
  qed
  then show ?thesis using emits_trans [OF r(1)] by fastforce
qed

section \<open>The translation\<close>

abbreviation item_source :: "rune + escape \<Rightarrow> rune list" where
  "item_source x \<equiv> (case x of Inl c \<Rightarrow> [c] | Inr e \<Rightarrow> escape_source e)"

abbreviation item_target :: "rune + escape \<Rightarrow> string" where
  "item_target x \<equiv> (case x of Inl c \<Rightarrow> encode_rune c | Inr e \<Rightarrow> escape_target True e)"

fun source :: "piece \<Rightarrow> rune list" where
  "source (Lit c) = [c]"
| "source Dot = [rn CHR ''.'']"
| "source (Escaped e) = escape_source e"
| "source NonSpace = [92, rn CHR ''S'']"
| "source Nothing = [rn CHR ''['', rn CHR '']'']"
| "source Anything = [rn CHR ''['', rn CHR ''^'', rn CHR '']'']"
| "source (Class xs) = rn CHR ''['' # concat (map item_source xs) @ [rn CHR '']'']"
| "source (Group ps) = rn CHR ''('' # concat (map source ps) @ [rn CHR '')'']"

fun target :: "piece \<Rightarrow> string" where
  "target (Lit c) = encode_rune c"
| "target Dot = re2Dot"
| "target (Escaped e) = escape_target False e"
| "target NonSpace = ''[^'' @ whitespaceChars @ '']''"
| "target Nothing = ''[^'' @ anyRune"
| "target Anything = ''['' @ anyRune"
| "target (Class xs) = ''['' @ concat (map item_target xs) @ '']''"
| "target (Group ps) = ''('' @ concat (map target ps) @ '')''"

text \<open>Lookaround and named groups are not translated: a group that begins with a question mark goes on with a colon.\<close>

definition group_head :: "rune list \<Rightarrow> bool" where
  "group_head rs = (case rs of c # d # _ \<Rightarrow> c = rn CHR ''?'' \<longrightarrow> d = rn CHR '':'' | _ \<Rightarrow> True)"

fun piece_ok :: "piece \<Rightarrow> bool" where
  "piece_ok (Lit c) \<longleftrightarrow> valid_rune c \<and> c \<notin> {92, rn CHR ''('', rn CHR '')'', rn CHR ''['', rn CHR ''.''}"
| "piece_ok Dot \<longleftrightarrow> True"
| "piece_ok (Escaped e) \<longleftrightarrow> escape_ok False e"
| "piece_ok NonSpace \<longleftrightarrow> True"
| "piece_ok Nothing \<longleftrightarrow> True"
| "piece_ok Anything \<longleftrightarrow> True"
| "piece_ok (Class xs) \<longleftrightarrow> xs \<noteq> [] \<and> xs \<noteq> [Inl (rn CHR ''^'')]
     \<and> list_all (\<lambda>x. case x of Inl c \<Rightarrow> valid_rune c \<and> c \<noteq> 92 \<and> c \<noteq> rn CHR '']'' | Inr e \<Rightarrow> escape_ok True e) xs"
| "piece_ok (Group ps) \<longleftrightarrow> list_all piece_ok ps \<and> group_head (concat (map source ps) @ [rn CHR '')''])"

lemma class_emits:
  "facing p (concat (map item_source xs) @ rn CHR '']'' # rs) \<Longrightarrow>
   list_all (\<lambda>x. case x of Inl c \<Rightarrow> valid_rune c \<and> c \<noteq> 92 \<and> c \<noteq> rn CHR '']'' | Inr e \<Rightarrow> escape_ok True e) xs \<Longrightarrow>
   length xs < n \<Longrightarrow> \<exists>q. class_loop n id_part p = Some q \<and> emits p rs (concat (map item_target xs) @ '']'') q"
proof (induction xs arbitrary: n p)
  case Nil
  then obtain m where n: "n = Suc m" by (cases n) auto
  have "emits p rs (encode_rune (rn CHR '']'')) (rp_pass_char p)" using Nil.prems(1) by (intro pass_emits) simp
  moreover have "encode_rune (rn CHR '']'') = '']''" using char_of_char [of "CHR '']''"] by (simp add: encode_rune_ascii)
  ultimately show ?case using facingD(2) [of p "rn CHR '']''" rs] Nil.prems(1) by (simp add: n)
next
  case (Cons x xs)
  obtain m where n: "n = Suc m" using Cons.prems(3) by (cases n) auto
  let ?rest = "concat (map item_source xs) @ rn CHR '']'' # rs"
  show ?case
  proof (cases x)
    case (Inl c)
    then have f: "facing p (c # ?rest)" and c: "c \<noteq> 92" "c \<noteq> rn CHR '']''" using Cons.prems(1,2) by auto
    have e: "emits p ?rest (encode_rune c) (rp_pass_char p)" by (rule pass_emits [OF f])
    obtain q where q: "class_loop m id_part (rp_pass_char p) = Some q" "emits (rp_pass_char p) rs (concat (map item_target xs) @ '']'') q"
      using Cons.IH [OF emitsD(1) [OF e], of m] Cons.prems(2,3) n by auto
    have "class_loop n id_part p = class_loop m id_part (rp_pass_char p)" using facingD(2) [OF f] c by (simp add: n)
    then show ?thesis using q(1) emits_trans [OF e q(2)] by (simp add: Inl)
  next
    case (Inr e)
    obtain ys where ys: "escape_source e = 92 # ys" by (cases e) auto
    have f: "facing p (escape_source e @ ?rest)" using Cons.prems(1) Inr by simp
    obtain r where r: "scanEscape m id_part True (rp_read p) = Some r" "emits p ?rest (escape_target True e) r"
      using escape_emits [OF f, of True m id_part] Cons.prems(2) Inr by auto
    obtain q where q: "class_loop m id_part r = Some q" "emits r rs (concat (map item_target xs) @ '']'') q"
      using Cons.IH [OF emitsD(1) [OF r(2)], of m] Cons.prems(2,3) n by auto
    have "rp_chr p = 92" using f ys by (simp add: facing_def)
    then show ?thesis using r(1) q(1) emits_trans [OF r(2) q(2)] by (simp add: Inr n)
  qed
qed

text \<open>Asking for ASCII bytes at the front is asking for runes.\<close>

lemma encode_rune_head:
  assumes "128 \<le> r"
  shows "\<exists>c s. encode_rune r = c # s \<and> 128 \<le> byte_of c"
proof -
  define v where "v = (if valid_rune r then r else rune_error)"
  have v: "valid_rune v" "128 \<le> v" "encode_rune r = encode_rune v" using assms by (simp_all add: v_def valid_rune_def encode_rune_def)
  obtain c s where c: "encode_rune v = c # s" by (cases "encode_rune v") auto
  have "128 \<le> byte_of c"
    using decode_encode_rune [OF v(1), of "[]"] v(2) decode_rune_ascii [of c s] c by (cases "byte_of c < 128") auto
  then show ?thesis using v(3) c by simp
qed

lemma chr_of_inject:
  assumes "c < 128" and "r < 128"
  shows "chr_of c = chr_of r \<longleftrightarrow> c = r"
proof
  assume "chr_of c = chr_of r"
  then have "byte_of (chr_of c) = byte_of (chr_of r)" by (rule arg_cong)
  then show "c = r" using assms by simp
qed simp

lemma prefix_runes:
  "\<forall>c \<in> set cs. c < 128 \<Longrightarrow> has_prefix (string_of_runes rs) (map chr_of cs) \<longleftrightarrow> take (length cs) rs = cs"
proof (induction cs arbitrary: rs)
  case Nil
  then show ?case by (simp add: has_prefix_def)
next
  case (Cons c cs)
  show ?case
  proof (cases rs)
    case Nil
    then show ?thesis by (simp add: has_prefix_def)
  next
    case rs: (Cons r rs')
    show ?thesis
    proof (cases "r < 128")
      case True
      then show ?thesis using Cons chr_of_inject [of r c] by (auto simp: rs encode_rune_ascii has_prefix_def)
    next
      case False
      then obtain b s where "encode_rune r = b # s" "128 \<le> byte_of b" using encode_rune_head [of r] by auto
      moreover have "byte_of (chr_of c) = c" using Cons.prems by simp
      ultimately show ?thesis using False Cons.prems by (auto simp: rs has_prefix_def)
    qed
  qed
qed

lemma rune_strings: "''[]'' = map chr_of [rn CHR ''['', rn CHR '']'']" "''[^]'' = map chr_of [rn CHR ''['', rn CHR ''^'', rn CHR '']'']"
  by (simp_all only: list.map char_of_char)

lemma bracket_prefix:
  assumes "facing p rs"
  shows "has_prefix (drop (rp_chr_offset p) (rp_str p)) ''[]'' \<longleftrightarrow> take 2 rs = [rn CHR ''['', rn CHR '']'']"
    and "has_prefix (drop (rp_chr_offset p) (rp_str p)) ''[^]'' \<longleftrightarrow> take 3 rs = [rn CHR ''['', rn CHR ''^'', rn CHR '']'']"
  unfolding facingD(5) [OF assms] rune_strings
  using prefix_runes [of "[rn CHR ''['', rn CHR '']'']" rs] prefix_runes [of "[rn CHR ''['', rn CHR ''^'', rn CHR '']'']" rs]
  by (simp_all add: numeral_2_eq_2 numeral_3_eq_3)

lemma ascii_length: "\<forall>x \<in> set xs. x < 128 \<Longrightarrow> length (string_of_runes xs) = length xs"
  by (induction xs) (simp_all add: encode_rune_ascii)

lemma skip_emits:
  assumes "facing p (r # xs @ rs)" and "\<forall>x \<in> set xs. x < 128"
  shows "emits p rs s (skip_bytes (length xs) (rp_write s p))"
proof -
  let ?w = "rp_write s p"
  let ?u = "?w\<lparr>rp_offset := rp_offset ?w + length xs\<rparr>"
  have w: "emits p (r # xs @ rs) s ?w" by (rule write_emits [OF assms(1)])
  note fw = emitsD(1) [OF w]
  have d: "drop (rp_offset ?u) (rp_str ?u) = string_of_runes rs"
    using arg_cong [OF rest_of_facing [OF fw], of "drop (length xs)"] ascii_length [OF assms(2)] by (simp add: add.commute)
  have len: "rp_offset ?u \<le> length (rp_str ?u)"
  proof -
    have "rp_offset ?w \<le> length (rp_str ?w)" using facingD(1) [OF fw] by (simp only: rp_ok_def)
    then show ?thesis using arg_cong [OF rest_of_facing [OF fw], of length] ascii_length [OF assms(2)] by simp
  qed
  have f: "rp_ok ?w" "rp_err ?w = None" "\<forall>x \<in> set rs. valid_rune x" using fw by (simp_all add: facing_def)
  have "rp_ok (rp_read ?u) \<and> rp_str (rp_read ?u) = rp_str ?u \<and> rp_offset ?u \<le> rp_chr_offset (rp_read ?u)
    \<and> left (rp_read ?u) \<le> length (rp_str ?u) - rp_offset ?u"
    by (rule read_start [OF len]) (use f in \<open>simp_all add: rp_ok_def\<close>)
  then have ok: "rp_ok (rp_read ?u)" "rp_str (rp_read ?u) = rp_str ?u" "rp_offset ?w \<le> rp_chr_offset (rp_read ?u)" by auto
  have "facing (rp_read ?u) rs" "written (rp_read ?u) = written ?w"
    using read_at [OF ok(1,2) _ d f(3)] f(2) by (simp, simp add: written_def split: option.split)
  moreover have "rp_chr_offset ?w \<le> rp_offset ?w" using f(1) by (simp add: rp_ok_def)
  ultimately show ?thesis using w ok(2,3) by (simp add: skip_bytes_def emits_def)
qed

lemma encode_byte: "rn c < 128 \<Longrightarrow> encode_rune (rn c) = [c]"
  by (simp add: encode_rune_ascii)

lemma encode_char: "encode_rune (rn CHR ''['') = ''[''" "encode_rune (rn CHR ''('') = ''(''" "encode_rune (rn CHR '')'') = '')''"
  by (rule encode_byte, simp)+

lemma item_nonempty: "0 < length (item_source x)"
proof (cases x)
  case (Inr e)
  then show ?thesis by (cases e) simp_all
qed simp

lemma items_length: "length xs \<le> length (concat (map item_source xs))"
proof (induction xs)
  case (Cons x xs)
  then show ?case using item_nonempty [of x] by (simp only: list.map concat.simps length_append list.size)
qed simp

lemma bracket_emits:
  assumes "facing p (source x @ rs)" and "piece_ok x" and "x = Nothing \<or> x = Anything \<or> (\<exists>xs. x = Class xs)" and "length (source x) \<le> Suc n"
  shows "\<exists>q. scanBracket n id_part p = Some q \<and> emits p rs (target x) q"
  using assms(3)
proof (elim disjE exE)
  assume x: "x = Nothing"
  then have f: "facing p (rn CHR ''['' # [rn CHR '']''] @ rs)" using assms(1) by simp
  show ?thesis using skip_emits [OF f] bracket_prefix(1) [OF f] by (simp add: scanBracket_def x numeral_2_eq_2)
next
  assume x: "x = Anything"
  then have f: "facing p (rn CHR ''['' # [rn CHR ''^'', rn CHR '']''] @ rs)" using assms(1) by simp
  show ?thesis using skip_emits [OF f] bracket_prefix [OF f] by (simp add: scanBracket_def x eval_nat_numeral)
next
  fix xs assume x: "x = Class xs"
  let ?items = "concat (map item_source xs) @ rn CHR '']'' # rs"
  have f: "facing p (rn CHR ''['' # ?items)" using assms(1) by (simp add: x)
  obtain y ys where xs: "xs = y # ys" using assms(2) x by (cases xs) auto
  have ok: "case y of Inl c \<Rightarrow> c \<noteq> rn CHR '']'' \<and> (c = rn CHR ''^'' \<longrightarrow> ys \<noteq> []) | Inr e \<Rightarrow> True"
    and all: "list_all (\<lambda>x. case x of Inl c \<Rightarrow> valid_rune c \<and> c \<noteq> 92 \<and> c \<noteq> rn CHR '']'' | Inr e \<Rightarrow> escape_ok True e) xs"
    using assms(2) by (auto simp: x xs split: sum.splits)
  have nine: "hd (item_source z) \<noteq> rn CHR '']''" if "z \<in> set xs" for z
  proof (cases z)
    case (Inl c)
    then show ?thesis using all that by (auto simp: list_all_iff)
  next
    case (Inr e)
    then show ?thesis by (cases e) auto
  qed
  have "take 2 (rn CHR ''['' # ?items) \<noteq> [rn CHR ''['', rn CHR '']'']"
    using nine [of y] item_nonempty [of y] by (cases "item_source y") (auto simp: xs numeral_2_eq_2)
  moreover have "take 3 (rn CHR ''['' # ?items) \<noteq> [rn CHR ''['', rn CHR ''^'', rn CHR '']'']"
  proof (cases y)
    case (Inl c)
    show ?thesis
    proof (cases ys)
      case Nil
      then show ?thesis using ok Inl by (auto simp: xs numeral_3_eq_3)
    next
      case (Cons z zs)
      then show ?thesis using nine [of z] item_nonempty [of z] Inl by (cases "item_source z") (auto simp: xs numeral_3_eq_3)
    qed
  next
    case (Inr e)
    then show ?thesis by (cases e) (auto simp: xs numeral_3_eq_3)
  qed
  ultimately have b: "scanBracket n id_part p = class_loop n id_part (rp_pass_char p)"
    using bracket_prefix [OF f] by (simp add: scanBracket_def Let_def)
  have e: "emits p ?items ''['' (rp_pass_char p)"
    using pass_emits [OF f] by (simp only: encode_char)
  have "length xs < n" using assms(4) items_length [of xs] by (simp add: x)
  then obtain q where q: "class_loop n id_part (rp_pass_char p) = Some q"
      "emits (rp_pass_char p) rs (concat (map item_target xs) @ '']'') q"
    using class_emits [OF emitsD(1) [OF e] all] by blast
  then show ?thesis using emits_trans [OF e q(2)] by (simp add: b x)
qed

section \<open>Pieces\<close>

lemma source_nonempty: "0 < length (source x)"
proof (cases x)
  case (Escaped e)
  then show ?thesis by (cases e) simp_all
qed simp_all

lemma question_prefix:
  assumes "facing p rs"
  shows "has_prefix (drop (rp_chr_offset p) (rp_str p)) ''?'' \<longleftrightarrow> take 1 rs = [rn CHR ''?'']"
    and "has_prefix (drop (rp_chr_offset p) (rp_str p)) ''?:'' \<longleftrightarrow> take 2 rs = [rn CHR ''?'', rn CHR '':'']"
proof -
  have q: "''?'' = map chr_of [rn CHR ''?'']" "''?:'' = map chr_of [rn CHR ''?'', rn CHR '':'']" by (simp_all only: list.map char_of_char)
  show "has_prefix (drop (rp_chr_offset p) (rp_str p)) ''?'' \<longleftrightarrow> take 1 rs = [rn CHR ''?'']"
    "has_prefix (drop (rp_chr_offset p) (rp_str p)) ''?:'' \<longleftrightarrow> take 2 rs = [rn CHR ''?'', rn CHR '':'']"
    unfolding facingD(5) [OF assms] q
    using prefix_runes [of "[rn CHR ''?'']" rs] prefix_runes [of "[rn CHR ''?'', rn CHR '':'']" rs] by (simp_all add: numeral_2_eq_2)
qed

lemma good_group:
  assumes "facing p (rs @ rs')" and "group_head rs" and "rs = rs0 @ [rn CHR '')'']"
  shows "bad_group p = None"
proof -
  let ?s = "drop (rp_chr_offset p) (rp_str p)"
  have "take 2 (rs @ rs') = [rn CHR ''?'', rn CHR '':'']" if "take 1 (rs @ rs') = [rn CHR ''?'']"
    using that assms(2,3) by (cases rs0; cases "tl rs0") (auto simp: group_head_def numeral_2_eq_2)
  then have "has_prefix ?s ''?:''" if "has_prefix ?s ''?''" using question_prefix [OF assms(1)] that by simp
  then have "?s ! 1 = CHR '':''" if "1 < length ?s" "?s ! 0 = CHR ''?''"
    using that by (cases ?s; cases "tl ?s") (auto simp: has_prefix_def)
  then show ?thesis by (auto simp: bad_group_def Let_def)
qed

lemma loop_pieces:
  assumes "\<And>x p rs n. x \<in> set ps \<Longrightarrow> facing p (source x @ rs) \<Longrightarrow> piece_ok x \<Longrightarrow> length (source x) \<le> Suc n \<Longrightarrow>
      \<exists>q. emits p rs (target x) q \<and> group_loop (Suc n) id_part p = group_loop n id_part q"
  shows "facing p (concat (map source ps) @ rn CHR '')'' # rs) \<Longrightarrow> list_all piece_ok ps \<Longrightarrow> length (concat (map source ps)) < n \<Longrightarrow>
    \<exists>q. group_loop n id_part p = Some q \<and> emits p rs (concat (map target ps) @ '')'') q"
  using assms
proof (induction ps arbitrary: p n)
  case Nil
  then obtain m where n: "n = Suc m" by (cases n) auto
  have f: "facing p (rn CHR '')'' # rs)" using Nil.prems(1) by simp
  have "emits p rs '')'' (rp_pass_char p)" using pass_emits [OF f] by (simp only: encode_char)
  then show ?case using facingD(2) [OF f] by (simp add: n)
next
  case (Cons x ps)
  let ?rest = "concat (map source ps) @ rn CHR '')'' # rs"
  obtain m where n: "n = Suc m" using Cons.prems(3) by (cases n) auto
  have len: "length (source x) \<le> Suc m" "length (concat (map source ps)) < m"
    using Cons.prems(3) source_nonempty [of x] unfolding n list.map concat.simps length_append by linarith+
  have f: "facing p (source x @ ?rest)" using Cons.prems(1) by simp
  obtain r where r: "emits p ?rest (target x) r" "group_loop (Suc m) id_part p = group_loop m id_part r"
    using Cons.prems(4) [OF _ f _ len(1)] Cons.prems(2) by auto
  obtain q where "group_loop m id_part r = Some q" "emits r rs (concat (map target ps) @ '')'') q"
    using Cons.IH [OF emitsD(1) [OF r(1)] _ len(2) Cons.prems(4)] Cons.prems(2) by auto
  then show ?case using r(2) emits_trans [OF r(1)] by (fastforce simp: n)
qed

lemma piece_step:
  "facing p (source x @ rs) \<Longrightarrow> piece_ok x \<Longrightarrow> length (source x) \<le> Suc n \<Longrightarrow>
   \<exists>q. emits p rs (target x) q \<and> group_loop (Suc n) id_part p = group_loop n id_part q \<and> scan (Suc n) id_part p = scan n id_part q"
proof (induction x arbitrary: p rs n rule: source.induct)
  case (1 c)
  have f: "facing p (c # rs)" using "1.prems"(1) by simp
  show ?case using pass_emits [OF f] facingD(2) [OF f] "1.prems"(2) by (auto simp del: of_nat_eq_iff simp: of_nat_eq_iff [symmetric])
next
  case 2
  have f: "facing p (rn CHR ''.'' # rs)" using "2.prems"(1) by simp
  show ?case using emits_read [OF write_emits [OF f]] facingD(2) [OF f] by auto
next
  case (3 e)
  have f: "facing p (escape_source e @ rs)" using "3.prems"(1) by simp
  obtain ys where "escape_source e = 92 # ys" by (cases e) auto
  then have c: "rp_chr p = 92" using f by (simp add: facing_def)
  obtain q where "scanEscape n id_part False (rp_read p) = Some q" "emits p rs (escape_target False e) q"
    using escape_emits [OF f, of False n id_part] "3.prems"(2) by auto
  then show ?case using c by auto
next
  case 4
  have f: "facing p (92 # rn CHR ''S'' # rs)" using "4.prems"(1) by simp
  note r = behind_read(1) [OF f]
  have "scanEscape n id_part False (rp_read p) = Some (rp_read (rp_write (''[^'' @ whitespaceChars @ '']'') (rp_read p)))"
    using facingD(2) [OF emitsD(1) [OF r]] letters_not_kept(3) by (simp add: scanEscape_def Let_def)
  then show ?case using emits_read [OF emits_write [OF r]] facingD(2) [OF f] by auto
next
  case 5
  have "rp_chr p = ch CHR ''[''" using "5.prems"(1) by (simp add: facing_def)
  then show ?case using bracket_emits [OF "5.prems"(1,2), of n id_part] "5.prems"(3) by auto
next
  case 6
  have "rp_chr p = ch CHR ''[''" using "6.prems"(1) by (simp add: facing_def)
  then show ?case using bracket_emits [OF "6.prems"(1,2), of n id_part] "6.prems"(3) by auto
next
  case (7 xs)
  have "rp_chr p = ch CHR ''[''" using "7.prems"(1) by (simp add: facing_def)
  then show ?case using bracket_emits [OF "7.prems"(1,2), of n id_part] "7.prems"(3) by auto
next
  case (8 ps)
  let ?in = "concat (map source ps) @ [rn CHR '')'']"
  have f: "facing p (rn CHR ''('' # ?in @ rs)" using "8.prems"(1) by simp
  have e: "emits p (?in @ rs) ''('' (rp_pass_char p)" using pass_emits [OF f] by (simp only: encode_char)
  have "bad_group (rp_pass_char p) = None"
    by (rule good_group [OF emitsD(1) [OF e]]) (use "8.prems"(2) in simp_all)
  then have g: "scanGroup (group_loop n id_part) (rp_pass_char p) = group_loop n id_part (rp_pass_char p)"
    by (simp add: scanGroup_def)
  have "\<exists>q. group_loop n id_part (rp_pass_char p) = Some q \<and> emits (rp_pass_char p) rs (concat (map target ps) @ '')'') q"
  proof (rule loop_pieces)
    show "\<exists>q. emits p rs (target x) q \<and> group_loop (Suc n) id_part p = group_loop n id_part q"
      if "x \<in> set ps" "facing p (source x @ rs)" "piece_ok x" "length (source x) \<le> Suc n" for x p rs n
      using "8.IH" [OF that] by blast
  qed (use "8.prems"(2,3) emitsD(1) [OF e] in simp_all)
  then obtain q where "group_loop n id_part (rp_pass_char p) = Some q" "emits p rs (target (Group ps)) q"
    using emits_trans [OF e] by fastforce
  then show ?case using g facingD(2) [OF f] by auto
qed

section \<open>Properties\<close>

lemma scan_pieces:
  "facing p (concat (map source ps)) \<Longrightarrow> list_all piece_ok ps \<Longrightarrow> length (concat (map source ps)) < n \<Longrightarrow>
   \<exists>q. scan n id_part p = Some q \<and> emits p [] (concat (map target ps)) q"
proof (induction ps arbitrary: p n)
  case Nil
  then obtain m where n: "n = Suc m" by (cases n) auto
  have f: "facing p []" using Nil.prems(1) by simp
  then show ?case using facingD(3) [OF f] by (simp add: n emits_def)
next
  case (Cons x ps)
  let ?rest = "concat (map source ps)"
  obtain m where n: "n = Suc m" using Cons.prems(3) by (cases n) auto
  have len: "length (source x) \<le> Suc m" "length ?rest < m"
    using Cons.prems(3) source_nonempty [of x] unfolding n list.map concat.simps length_append by linarith+
  have f: "facing p (source x @ ?rest)" using Cons.prems(1) by simp
  obtain r where r: "emits p ?rest (target x) r" "scan (Suc m) id_part p = scan m id_part r"
    using piece_step [OF f _ len(1)] Cons.prems(2) by auto
  obtain q where "scan m id_part r = Some q" "emits r [] (concat (map target ps)) q"
    using Cons.IH [OF emitsD(1) [OF r(1)] _ len(2)] Cons.prems(2) by auto
  then show ?case using r(2) emits_trans [OF r(1)] by (fastforce simp: n)
qed

lemma string_of_runes_length: "length rs \<le> length (string_of_runes rs)"
proof (induction rs)
  case (Cons r rs)
  have "0 < length (encode_rune r)" by simp
  then show ?case using Cons by (simp add: Suc_le_eq del: length_greater_0_conv)
qed simp

text \<open>
  C14: on patterns of literals, dots, classes, groups and escapes, nested at will, the scanner computes the translation
  by structure: constructs that Go shares are copied byte by byte, whether the prefix was passed on or
  written, and dots, white space, braces of hexadecimal escapes and empty classes are replaced.
\<close>

theorem convert_translates:
  assumes "list_all piece_ok ps" and "\<forall>r \<in> set (concat (map source ps)). valid_rune r"
  shows "Convert id_part (string_of_runes (concat (map source ps))) = Inr (Some (concat (map target ps)))"
proof (cases "ps = []")
  case False
  let ?rs = "concat (map source ps)"
  let ?s = "string_of_runes ?rs"
  let ?p = "rp_read (rp_start ?s)"
  have "?rs \<noteq> []" using False source_nonempty [of "hd ps"] by (cases ps) auto
  then have ne: "?s \<noteq> []" using string_of_runes_length [of ?rs] by auto
  have "rp_ok ?p \<and> rp_str ?p = rp_str (rp_start ?s) \<and> rp_offset (rp_start ?s) \<le> rp_chr_offset ?p
    \<and> left ?p \<le> length (rp_str (rp_start ?s)) - rp_offset (rp_start ?s)"
    by (rule read_start) (simp_all add: rp_start_def)
  then have ok: "rp_ok ?p" "rp_str ?p = rp_str (rp_start ?s)" by auto
  have f: "facing ?p ?rs" "written ?p = []"
    using read_at [OF ok _ _ assms(2)] by (simp_all add: rp_start_def written_def)
  have "length ?rs < length ?s + 2" using string_of_runes_length [of ?rs] by linarith
  then obtain q where q: "scan (length ?s + 2) id_part ?p = Some q" "emits ?p [] (concat (map target ps)) q"
    using scan_pieces [OF f(1) assms(1)] by blast
  have fq: "rp_ok q" "rp_err q = None" "written q = concat (map target ps)"
    using q(2) f(2) by (simp_all add: emits_def facing_def)
  then have "\<not> rp_fault q" "\<forall>k. rp_pass q = Some k \<longrightarrow> k \<le> length (rp_str q)" by (simp_all add: rp_ok_def)
  note fq = this fq(2,3)
  have "ResultString q = Inr (concat (map target ps))" using fq(2,4) by (auto simp: ResultString_def written_def split: option.splits)
  then show ?thesis using q(1) fq(1,3) ne by (simp add: Convert_def)
qed (simp add: Convert_def)

text \<open>A word, a class with a backspace-free escape, and a group of white space and any rune.\<close>

lemma convert_translates_witness:
  "Convert (\<lambda>_. False) (''a['' @ CHR 0x5C # ''d-](?:'' @ CHR 0x5C # ''s.)'') =
     Inr (Some (''a['' @ CHR 0x5C # ''d-](?:['' @ whitespaceChars @ '']'' @ re2Dot @ '')''))"
proof -
  let ?ps = "[Lit (rn CHR ''a''), Class [Inr (Kept (rn CHR ''d'')), Inl (rn CHR ''-'')],
    Group [Lit (rn CHR ''?''), Lit (rn CHR '':''), Escaped Space, Dot]]"
  have ok: "list_all piece_ok ?ps" by (simp add: kept_rune_def kept_escapes_def group_head_def valid_rune_def)
  have v: "\<forall>r \<in> set (concat (map source ?ps)). valid_rune r" by (simp add: valid_rune_def)
  have e: "encode_rune (rn c) = [c]" if "rn c < 128" for c by (rule encode_byte [OF that])
  note chars = e [of "CHR ''a''", simplified] e [of "CHR ''[''", simplified] e [of "CHR 0x5C", simplified] e [of "CHR ''d''", simplified]
    e [of "CHR ''-''", simplified] e [of "CHR '']''", simplified] e [of "CHR ''(''", simplified] e [of "CHR ''?''", simplified]
    e [of "CHR '':''", simplified] e [of "CHR ''s''", simplified] e [of "CHR ''.''", simplified] e [of "CHR '')''", simplified]
  have "string_of_runes (concat (map source ?ps)) = ''a['' @ CHR 0x5C # ''d-](?:'' @ CHR 0x5C # ''s.)''" by (simp add: chars)
  moreover have "concat (map target ?ps) = ''a['' @ CHR 0x5C # ''d-](?:['' @ whitespaceChars @ '']'' @ re2Dot @ '')''" by (simp add: chars)
  ultimately show ?thesis using convert_translates [OF ok v, of "\<lambda>_. False"] by simp
qed

end
