(* ===== verification/Equality.thy ===== *)
theory Equality
  imports TypeStore
begin

text \<open>
  Which types need generated equality, gen/gen_equality_detect.go and internal/ir/equality.go: the arrays that
  ask for unique items are searched for in the table of types, and every struct their items reach gets a method
  \<open>Equal\<close>, described field by field. The fuel bounds the depth of a recursion along pointers of types.
\<close>

section \<open>The Go type of a type\<close>

text \<open>\<open>Type.Go\<close>; no type of this program is an event stream, whose name would get a suffix.\<close>

fun go_type :: "nat \<Rightarrow> store \<Rightarrow> tref option \<Rightarrow> terr + string" where
  "go_type n st None = Inl NilType"
| "go_type 0 st (Some a) = Inl TOutOfFuel"
| "go_type (Suc n) st (Some a) =
     (let t = st ! a in
      case ty_kind t of
        KindPrimitive \<Rightarrow> Inr (ty_primitive t)
      | KindAny \<Rightarrow> Inr (if HasFeature t ''uri'' then ''any'' else ''jx.Raw'')
      | KindArray \<Rightarrow> bind_res (go_type n st (ty_item t)) (\<lambda>s. Inr (''[]'' @ s))
      | KindPointer \<Rightarrow> bind_res (go_type n st (ty_pointer_to t)) (\<lambda>s. Inr (''*'' @ s))
      | KindConst \<Rightarrow> Inl Unreachable
      | _ \<Rightarrow> Inr (ty_name t))"

section \<open>The description of a method\<close>

datatype field_category = FieldTypePrimitive | FieldTypeOptional | FieldTypeNullable | FieldTypePointer
  | FieldTypeNestedObject | FieldTypeArray | FieldTypeMap

record field_equality =
  fe_name :: string
  fe_category :: field_category
  fe_go_type :: string
  fe_nested :: bool
  fe_map :: bool
  fe_array :: bool
  fe_array_of_structs :: bool
  fe_array_of_nullable :: bool
  fe_byte_slice :: bool

record equality_spec =
  em_type_name :: string
  em_fields :: "field_equality list"
  em_depth_tracking :: bool
  em_max_depth :: int

section \<open>Wrappers\<close>

text \<open>A struct, or any type, whose name starts like that of a generated wrapper, and goes on.\<close>

definition prefixed :: "string \<Rightarrow> string \<Rightarrow> bool" where
  "prefixed p name \<longleftrightarrow> 3 < length name \<and> take 3 name = p"

definition wrapper_name :: "string \<Rightarrow> bool" where
  "wrapper_name name \<longleftrightarrow> prefixed ''Opt'' name \<or> prefixed ''Nil'' name"

definition value_field :: "itype \<Rightarrow> field option" where
  "value_field t = find (\<lambda>f. fd_name f = ''Value'') (ty_fields t)"

definition unwrapOptional :: "store \<Rightarrow> tref option \<Rightarrow> tref option" where
  "unwrapOptional st p = (case p of
     None \<Rightarrow> None
   | Some a \<Rightarrow>
       let t = st ! a in
       if ty_kind t = KindGeneric \<and> ty_generic_of t \<noteq> None then ty_generic_of t
       else if ty_kind t = KindStruct \<and> wrapper_name (ty_name t) then
         (case value_field t of Some f \<Rightarrow> fd_type f | None \<Rightarrow> p)
       else p)"

fun isNestedObject :: "nat \<Rightarrow> store \<Rightarrow> tref option \<Rightarrow> terr + bool" where
  "isNestedObject n st None = Inr False"
| "isNestedObject 0 st (Some a) = Inl TOutOfFuel"
| "isNestedObject (Suc n) st (Some a) =
     (let t = st ! a in
      case ty_kind t of
        KindGeneric \<Rightarrow> isNestedObject n st (ty_generic_of t)
      | KindStruct \<Rightarrow>
          if wrapper_name (ty_name t) then
            (case value_field t of Some f \<Rightarrow> isNestedObject n st (fd_type f) | None \<Rightarrow> Inr False)
          else Inr True
      | KindAlias \<Rightarrow> isNestedObject n st (ty_alias_to t)
      | _ \<Rightarrow> Inr False)"

fun categorizeFieldType :: "nat \<Rightarrow> store \<Rightarrow> tref option \<Rightarrow> terr + field_category" where
  "categorizeFieldType n st None = Inr FieldTypePrimitive"
| "categorizeFieldType 0 st (Some a) = Inl TOutOfFuel"
| "categorizeFieldType (Suc n) st (Some a) =
     (let t = st ! a in
      case ty_kind t of
        KindPrimitive \<Rightarrow> Inr FieldTypePrimitive
      | KindGeneric \<Rightarrow>
          if prefixed ''Opt'' (ty_name t) then Inr FieldTypeOptional
          else if prefixed ''Nil'' (ty_name t) then Inr FieldTypeNullable
          else categorizeFieldType n st (ty_generic_of t)
      | KindStruct \<Rightarrow>
          if prefixed ''Opt'' (ty_name t) then Inr FieldTypeOptional
          else if prefixed ''Nil'' (ty_name t) then Inr FieldTypeNullable
          else Inr FieldTypeNestedObject
      | KindArray \<Rightarrow> Inr FieldTypeArray
      | KindMap \<Rightarrow> Inr FieldTypeMap
      | KindPointer \<Rightarrow> Inr FieldTypePointer
      | KindAlias \<Rightarrow> categorizeFieldType n st (ty_alias_to t)
      | _ \<Rightarrow> Inr FieldTypePrimitive)"

fun needsEqualityMethod :: "nat \<Rightarrow> store \<Rightarrow> tref option \<Rightarrow> terr + bool" where
  "needsEqualityMethod n st None = Inr False"
| "needsEqualityMethod 0 st (Some a) = Inl TOutOfFuel"
| "needsEqualityMethod (Suc n) st (Some a) =
     (let t = st ! a in
      case ty_kind t of
        KindStruct \<Rightarrow> Inr True
      | KindAlias \<Rightarrow> needsEqualityMethod n st (ty_alias_to t)
      | KindArray \<Rightarrow> Inr True
      | KindMap \<Rightarrow> Inr True
      | _ \<Rightarrow> Inr False)"

definition hasNestedObjects :: "store \<Rightarrow> tref option \<Rightarrow> bool" where
  "hasNestedObjects st p = (case p of None \<Rightarrow> False | Some a \<Rightarrow> ty_kind (st ! a) = KindStruct)"

section \<open>The description of a field\<close>

definition kind_is :: "store \<Rightarrow> kind \<Rightarrow> tref option \<Rightarrow> bool" where
  "kind_is st k p = (case p of None \<Rightarrow> False | Some a \<Rightarrow> ty_kind (st ! a) = k)"

text \<open>Of an array's item: are the elements nullable wrappers, are they, or do they hold, structs.\<close>

definition item_flags :: "store \<Rightarrow> tref \<Rightarrow> bool \<times> bool" where
  "item_flags st item =
     (prefixed ''Nil'' (ty_name (st ! item)) \<and> (ty_kind (st ! item) = KindStruct \<or> ty_kind (st ! item) = KindGeneric),
      kind_is st KindStruct (unwrapOptional st (Some item)))"

definition array_item :: "store \<Rightarrow> tref option \<Rightarrow> tref option" where
  "array_item st p = (case p of
     None \<Rightarrow> None | Some a \<Rightarrow> if ty_kind (st ! a) = KindArray then ty_item (st ! a) else None)"

definition is_byte_slice :: "store \<Rightarrow> tref option \<Rightarrow> bool" where
  "is_byte_slice st p = (case p of
     None \<Rightarrow> False | Some a \<Rightarrow> ty_kind (st ! a) = KindPrimitive \<and> ty_primitive (st ! a) = ''[]byte'')"

definition field_equality_of :: "nat \<Rightarrow> store \<Rightarrow> field \<Rightarrow> terr + field_equality" where
  "field_equality_of n st f =
     (let unwrapped = unwrapOptional st (fd_type f);
          wrapped = (unwrapped \<noteq> None \<and> unwrapped \<noteq> fd_type f);
          item = (case array_item st (fd_type f) of Some i \<Rightarrow> Some i | None \<Rightarrow> array_item st unwrapped);
          flags = (case item of Some i \<Rightarrow> item_flags st i | None \<Rightarrow> (False, False))
      in
      bind_res (go_type n st (fd_type f)) (\<lambda>go0.
      bind_res (if wrapped then go_type n st unwrapped else Inr go0) (\<lambda>go.
      bind_res (categorizeFieldType n st (fd_type f)) (\<lambda>category.
      bind_res (isNestedObject n st (fd_type f)) (\<lambda>nested.
      Inr \<lparr>fe_name = fd_name f, fe_category = category, fe_go_type = go, fe_nested = nested,
           fe_map = wrapped \<and> kind_is st KindMap unwrapped,
           fe_array = kind_is st KindArray (fd_type f) \<or> wrapped \<and> kind_is st KindArray unwrapped,
           fe_array_of_structs = snd flags,
           fe_array_of_nullable = fst flags,
           fe_byte_slice = is_byte_slice st (fd_type f) \<or> is_byte_slice st unwrapped
                             \<or> go = ''jx.Raw'' \<or> go = ''[]byte''\<rparr>)))))"

fun map_res :: "('a \<Rightarrow> 'e + 'b) \<Rightarrow> 'a list \<Rightarrow> 'e + 'b list" where
  "map_res f [] = Inr []"
| "map_res f (x # xs) = bind_res (f x) (\<lambda>y. bind_res (map_res f xs) (\<lambda>ys. Inr (y # ys)))"

lemma map_res_Inr: "map_res f xs = Inr ys \<longleftrightarrow> list_all2 (\<lambda>x y. f x = Inr y) xs ys"
  by (induction xs arbitrary: ys) (auto simp: list_all2_Cons1)

definition maxEqualityDepth :: int where
  "maxEqualityDepth = 10"

definition method_spec :: "nat \<Rightarrow> store \<Rightarrow> tref \<Rightarrow> terr + equality_spec" where
  "method_spec n st a =
     bind_res (if ty_kind (st ! a) = KindStruct then map_res (field_equality_of n st) (ty_fields (st ! a)) else Inr [])
       (\<lambda>fields. Inr \<lparr>em_type_name = ty_name (st ! a), em_fields = fields,
          em_depth_tracking = hasNestedObjects st (Some a), em_max_depth = maxEqualityDepth\<rparr>)"

definition spec_names :: "equality_spec list \<Rightarrow> string set" where
  "spec_names specs = em_type_name ` set specs"

definition createEqualityMethodSpec :: "nat \<Rightarrow> store \<Rightarrow> equality_spec list \<Rightarrow> tref option \<Rightarrow> terr + equality_spec option" where
  "createEqualityMethodSpec n st specs p = (case p of
     None \<Rightarrow> Inr None
   | Some a \<Rightarrow>
       if ty_name (st ! a) = [] then Inr None
       else if list_ex (\<lambda>s. em_type_name s = ty_name (st ! a)) specs then Inr None
       else bind_res (method_spec n st a) (\<lambda>s. Inr (Some s)))"

section \<open>The search\<close>

text \<open>What the search changes: the descriptions collected so far and the names of the structs visited.\<close>

record equality_state =
  es_specs :: "equality_spec list"
  es_visited :: "string list"

definition add_spec :: "nat \<Rightarrow> store \<Rightarrow> tref option \<Rightarrow> equality_state \<Rightarrow> terr + equality_state" where
  "add_spec n st p g = bind_res (createEqualityMethodSpec n st (es_specs g) p) (\<lambda>s.
     Inr (case s of None \<Rightarrow> g | Some s \<Rightarrow> g\<lparr>es_specs := es_specs g @ [s]\<rparr>))"

definition visit_name :: "string \<Rightarrow> equality_state \<Rightarrow> equality_state" where
  "visit_name name g = (if name = [] then g else g\<lparr>es_visited := set_add name (es_visited g)\<rparr>)"

fun each_res :: "('a \<Rightarrow> 's \<Rightarrow> 'e + 's) \<Rightarrow> 'a list \<Rightarrow> 's \<Rightarrow> 'e + 's" where
  "each_res f [] s = Inr s"
| "each_res f (x # xs) s = bind_res (f x s) (each_res f xs)"

fun collectNestedTypes :: "nat \<Rightarrow> store \<Rightarrow> tref option \<Rightarrow> equality_state \<Rightarrow> terr + equality_state" where
  "collectNestedTypes n st None g = Inr g"
| "collectNestedTypes 0 st (Some a) g = Inl TOutOfFuel"
| "collectNestedTypes (Suc n) st (Some a) g =
     (let t = st ! a in
      if ty_name t \<noteq> [] \<and> ty_name t \<in> set (es_visited g) then Inr g
      else case ty_kind t of
        KindGeneric \<Rightarrow> collectNestedTypes n st (ty_generic_of t) g
      | KindStruct \<Rightarrow>
          if wrapper_name (ty_name t) then
            (case value_field t of Some f \<Rightarrow> collectNestedTypes n st (fd_type f) g | None \<Rightarrow> Inr g)
          else
            bind_res
              (if list_ex (\<lambda>s. em_type_name s = ty_name t) (es_specs g) then Inr (visit_name (ty_name t) g)
               else add_spec n st (Some a) (visit_name (ty_name t) g))
              (each_res (\<lambda>f. collectNestedTypes n st (fd_type f)) (ty_fields t))
      | KindArray \<Rightarrow> collectNestedTypes n st (ty_item t) g
      | KindAlias \<Rightarrow> collectNestedTypes n st (ty_alias_to t) g
      | _ \<Rightarrow> Inr g)"

definition wants_unique :: "itype \<Rightarrow> bool" where
  "wants_unique t \<longleftrightarrow> ty_kind t = KindArray \<and> (case ty_schema t of Some s \<Rightarrow> ts_unique_items s | None \<Rightarrow> False)"

definition collect_items :: "nat \<Rightarrow> store \<Rightarrow> itype \<Rightarrow> equality_state \<Rightarrow> terr + equality_state" where
  "collect_items n st t g =
     (if wants_unique t then
        bind_res (needsEqualityMethod n st (ty_item t)) (\<lambda>needs.
          if needs then bind_res (add_spec n st (ty_item t) g) (collectNestedTypes n st (ty_item t)) else Inr g)
      else Inr g)"

fun collectFromType :: "nat \<Rightarrow> store \<Rightarrow> tref option \<Rightarrow> equality_state \<Rightarrow> terr + equality_state" where
  "collectFromType n st None g = Inr g"
| "collectFromType 0 st (Some a) g = Inl TOutOfFuel"
| "collectFromType (Suc n) st (Some a) g =
     (let t = st ! a in
      bind_res (collect_items n st t g) (\<lambda>g1.
      bind_res (if ty_kind t = KindStruct then each_res (\<lambda>f. collectFromType n st (fd_type f)) (ty_fields t) g1 else Inr g1)
        (\<lambda>g2. if ty_kind t = KindSum then each_res (collectFromType n st) (ty_sum_of t) g2 else Inr g2)))"

definition collectEqualitySpecs :: "nat \<Rightarrow> store \<Rightarrow> tref smap \<Rightarrow> terr + equality_spec list" where
  "collectEqualitySpecs n st types =
     bind_res (each_res (\<lambda>name. collectFromType n st (map_of types name)) (sorted_keys types)
                \<lparr>es_specs = [], es_visited = []\<rparr>)
       (\<lambda>g. Inr (es_specs g))"

end
