(* ===== verification/EqualityGen.thy ===== *)
theory EqualityGen
  imports Equality
begin

text \<open>
  The code written for unique items, gen/gen_equality.go and gen/gen_validators_unique.go. The methods are
  written as statements of a small language, the Go the writers use, and rendered to the text the writers print;
  what the statements do is in EqualityRun.
\<close>

section \<open>Statements of a method Equal\<close>

text \<open>An expression: a variable, \<open>e.f\<close>, \<open>e[i]\<close> and \<open>*e\<close>.\<close>

datatype gexp = Id string | Sel gexp string | At gexp | Deref gexp

text \<open>
  A condition: \<open>x != y\<close>, \<open>!bytes.Equal(x, y)\<close>, \<open>len(x) != len(y)\<close>, \<open>(x == nil) != (y == nil)\<close>, \<open>!x.Equal(y, depth+1)\<close>
  or without the depth, \<open>x\<close>, \<open>!x\<close>, and \<open>x != nil\<close>.
\<close>

datatype gcond = Differ gexp gexp | DifferBytes gexp gexp | DifferLen gexp gexp | DifferNil gexp gexp
  | NotEqualCall bool gexp gexp | Holds gexp | HoldsNot gexp | NotNil gexp

text \<open>
  A statement: a comment; \<open>if c { return false }\<close>; \<open>if c { ... }\<close>; \<open>for i := range x { ... }\<close>; and the loop that
  looks up every entry of one map in the other, with the lookup before or in the \<open>if\<close>.
\<close>

datatype gstmt = Comment string | Reject gcond | When gcond "gstmt list" | ForIndex gexp "gstmt list"
  | SameEntries bool gexp gexp

abbreviation nl :: string where "nl \<equiv> [CHR 0x0A]"
abbreviation tab :: string where "tab \<equiv> [CHR 0x09]"
abbreviation dq :: string where "dq \<equiv> [CHR 0x22]"

fun exp_text :: "gexp \<Rightarrow> string" where
  "exp_text (Id x) = x"
| "exp_text (Sel e f) = exp_text e @ ''.'' @ f"
| "exp_text (At e) = exp_text e @ ''[i]''"
| "exp_text (Deref e) = ''*'' @ exp_text e"

fun cond_text :: "gcond \<Rightarrow> string" where
  "cond_text (Differ x y) = exp_text x @ '' != '' @ exp_text y"
| "cond_text (DifferBytes x y) = ''!bytes.Equal('' @ exp_text x @ '', '' @ exp_text y @ '')''"
| "cond_text (DifferLen x y) = ''len('' @ exp_text x @ '') != len('' @ exp_text y @ '')''"
| "cond_text (DifferNil x y) = ''('' @ exp_text x @ '' == nil) != ('' @ exp_text y @ '' == nil)''"
| "cond_text (NotEqualCall depth x y) =
     ''!'' @ exp_text x @ ''.Equal('' @ exp_text y @ (if depth then '', depth+1)'' else '')'')"
| "cond_text (Holds x) = exp_text x"
| "cond_text (HoldsNot x) = ''!'' @ exp_text x"
| "cond_text (NotNil x) = exp_text x @ '' != nil''"

definition reject_text :: "string \<Rightarrow> string \<Rightarrow> string" where
  "reject_text ind c = ind @ ''if '' @ c @ '' {'' @ nl @ ind @ tab @ ''return false'' @ nl @ ind @ ''}'' @ nl"

fun stmt_text :: "string \<Rightarrow> gstmt \<Rightarrow> string" and stmts_text :: "string \<Rightarrow> gstmt list \<Rightarrow> string" where
  "stmt_text ind (Comment s) = ind @ ''// '' @ s @ nl"
| "stmt_text ind (Reject c) = reject_text ind (cond_text c)"
| "stmt_text ind (When c ss) = ind @ ''if '' @ cond_text c @ '' {'' @ nl @ stmts_text (ind @ tab) ss @ ind @ ''}'' @ nl"
| "stmt_text ind (ForIndex e ss) =
     ind @ ''for i := range '' @ exp_text e @ '' {'' @ nl @ stmts_text (ind @ tab) ss @ ind @ ''}'' @ nl"
| "stmt_text ind (SameEntries inline x y) =
     ind @ ''for k, v := range '' @ exp_text x @ '' {'' @ nl
     @ (if inline then reject_text (ind @ tab) (''bv, ok := '' @ exp_text y @ ''[k]; !ok || v != bv'')
        else ind @ tab @ ''bv, ok := '' @ exp_text y @ ''[k]'' @ nl @ reject_text (ind @ tab) ''!ok || v != bv'')
     @ ind @ ''}'' @ nl"
| "stmts_text ind [] = []"
| "stmts_text ind (s # ss) = stmt_text ind s @ stmts_text ind ss"

section \<open>The writers of Equal\<close>

definition writeMapComparison :: "gexp \<Rightarrow> gexp \<Rightarrow> gstmt list" where
  "writeMapComparison a b = [Reject (DifferLen a b), SameEntries True a b]"

text \<open>The comparison of two elements, of arrays that are fields and of arrays in wrappers alike.\<close>

definition compare_elements :: "gexp \<Rightarrow> gexp \<Rightarrow> bool \<Rightarrow> bool \<Rightarrow> bool \<Rightarrow> gstmt list" where
  "compare_elements a b of_structs of_nullable depth =
     (if of_nullable then
        [Reject (Differ (Sel (At a) ''Null'') (Sel (At b) ''Null'')),
         When (HoldsNot (Sel (At a) ''Null''))
           [Reject (if of_structs then NotEqualCall depth (Sel (At a) ''Value'') (Sel (At b) ''Value'')
                    else Differ (Sel (At a) ''Value'') (Sel (At b) ''Value''))]]
      else if of_structs then [Reject (NotEqualCall depth (At a) (At b))]
      else [Reject (Differ (At a) (At b))])"

definition writeArrayComparisonWithNullable :: "gexp \<Rightarrow> gexp \<Rightarrow> bool \<Rightarrow> bool \<Rightarrow> bool \<Rightarrow> gstmt list" where
  "writeArrayComparisonWithNullable a b of_structs of_nullable depth =
     [Reject (DifferLen a b), ForIndex a (compare_elements a b of_structs of_nullable depth)]"

definition writeArrayComparison :: "gexp \<Rightarrow> gexp \<Rightarrow> bool \<Rightarrow> bool \<Rightarrow> gstmt list" where
  "writeArrayComparison a b of_structs depth = writeArrayComparisonWithNullable a b of_structs False depth"

text \<open>The value of a wrapper, when there is one.\<close>

definition compare_wrapped :: "field_equality \<Rightarrow> bool \<Rightarrow> gexp \<Rightarrow> gexp \<Rightarrow> gstmt list" where
  "compare_wrapped f depth a b =
     (if fe_nested f then [Reject (NotEqualCall depth a b)]
      else if fe_map f then writeMapComparison a b
      else if fe_array f then writeArrayComparisonWithNullable a b (fe_array_of_structs f) (fe_array_of_nullable f) depth
      else [Reject (Differ a b)])"

definition writeFieldComparison :: "field_equality \<Rightarrow> bool \<Rightarrow> gstmt list" where
  "writeFieldComparison f depth =
     (let a = Sel (Id ''a'') (fe_name f); b = Sel (Id ''b'') (fe_name f) in
      case fe_category f of
        FieldTypePrimitive \<Rightarrow>
          if fe_byte_slice f then [Comment (''Compare byte slice field: '' @ fe_name f), Reject (DifferBytes a b)]
          else [Reject (Differ a b)]
      | FieldTypeOptional \<Rightarrow>
          [Comment (''Compare optional field: '' @ fe_name f),
           Reject (Differ (Sel a ''Set'') (Sel b ''Set'')),
           When (Holds (Sel a ''Set'')) (compare_wrapped f depth (Sel a ''Value'') (Sel b ''Value''))]
      | FieldTypeNullable \<Rightarrow>
          [Comment (''Compare nullable field: '' @ fe_name f),
           Reject (Differ (Sel a ''Null'') (Sel b ''Null'')),
           When (HoldsNot (Sel a ''Null'')) (compare_wrapped f depth (Sel a ''Value'') (Sel b ''Value''))]
      | FieldTypePointer \<Rightarrow>
          [Comment (''Compare pointer field: '' @ fe_name f),
           Reject (DifferNil a b),
           When (NotNil a) [Reject (Differ (Deref a) (Deref b))]]
      | FieldTypeArray \<Rightarrow>
          [Comment (''Compare array field: '' @ fe_name f),
           Reject (DifferLen a b),
           ForIndex a (compare_elements a b (fe_array_of_structs f) (fe_array_of_nullable f) depth)]
      | FieldTypeMap \<Rightarrow>
          [Comment (''Compare map field: '' @ fe_name f),
           Reject (DifferLen a b),
           SameEntries False a b]
      | FieldTypeNestedObject \<Rightarrow>
          [Comment (''Compare nested object: '' @ fe_name f),
           Reject (NotEqualCall depth a b)])"

definition equal_body :: "equality_spec \<Rightarrow> gstmt list" where
  "equal_body spec = concat (map (\<lambda>f. writeFieldComparison f (em_depth_tracking spec)) (em_fields spec))"

definition file_header :: "string \<Rightarrow> string" where
  "file_header pkg = ''// Code generated by agen, DO NOT EDIT.'' @ nl @ nl @ ''package '' @ pkg @ nl @ nl"

text \<open>\<open>%q\<close> puts the name of a type, an identifier, between quotes.\<close>

definition equal_signature :: "equality_spec \<Rightarrow> string" where
  "equal_signature spec =
     (let name = em_type_name spec; limit = itoa (em_max_depth spec) in
      ''// Equal compares two '' @ name @ '' instances for equality.'' @ nl
      @ (if em_depth_tracking spec then
           ''// The depth parameter prevents infinite recursion on nested objects.'' @ nl
           @ ''func (a '' @ name @ '') Equal(b '' @ name @ '', depth int) bool {'' @ nl
           @ tab @ ''if depth > '' @ limit @ '' {'' @ nl
           @ tab @ tab @ ''panic(&validate.DepthLimitError{'' @ nl
           @ tab @ tab @ tab @ ''MaxDepth: '' @ limit @ '','' @ nl
           @ tab @ tab @ tab @ ''TypeName: '' @ dq @ name @ dq @ '','' @ nl
           @ tab @ tab @ ''})'' @ nl
           @ tab @ ''}'' @ nl @ nl
         else ''func (a '' @ name @ '') Equal(b '' @ name @ '') bool {'' @ nl))"

definition equal_text :: "string \<Rightarrow> equality_spec \<Rightarrow> string" where
  "equal_text pkg spec = file_header pkg @ equal_signature spec @ stmts_text tab (equal_body spec)
     @ tab @ ''return true'' @ nl @ ''}'' @ nl"

section \<open>Statements and writer of Hash\<close>

text \<open>
  Into the hash \<open>h\<close> are written: a byte; a value printed with \<open>%v\<close>; the hash of a nested struct, little endian; the
  items of an array, printed; the sorted keys of a map, each with its value.
\<close>

datatype hstmt = HComment string | HByte nat | HPrint gexp | HNested string gexp
  | HIf gcond "hstmt list" "hstmt list" | HItems gexp | HEntries string gexp

definition print_text :: "string \<Rightarrow> string" where
  "print_text e = ''h.Write([]byte(fmt.Sprintf('' @ dq @ ''%v'' @ dq @ '', '' @ e @ '')))'' @ nl"

fun hash_stmt_text :: "string \<Rightarrow> hstmt \<Rightarrow> string" and hash_stmts_text :: "string \<Rightarrow> hstmt list \<Rightarrow> string" where
  "hash_stmt_text ind (HComment s) = ind @ ''// '' @ s @ nl"
| "hash_stmt_text ind (HByte k) = ind @ ''h.Write([]byte{'' @ utoa k @ ''})'' @ nl"
| "hash_stmt_text ind (HPrint e) = ind @ print_text (exp_text e)"
| "hash_stmt_text ind (HNested f e) =
     ind @ ''nestedHash'' @ f @ '' := '' @ exp_text e @ ''.Hash()'' @ nl
     @ ind @ ''binary.Write(h, binary.LittleEndian, nestedHash'' @ f @ '')'' @ nl"
| "hash_stmt_text ind (HIf c ss ts) =
     ind @ ''if '' @ cond_text c @ '' {'' @ nl @ hash_stmts_text (ind @ tab) ss
     @ ind @ ''} else {'' @ nl @ hash_stmts_text (ind @ tab) ts @ ind @ ''}'' @ nl"
| "hash_stmt_text ind (HItems e) =
     ind @ ''for _, item := range '' @ exp_text e @ '' {'' @ nl @ ind @ tab @ print_text ''item'' @ ind @ ''}'' @ nl"
| "hash_stmt_text ind (HEntries f e) =
     ind @ ''keys'' @ f @ '' := make([]string, 0, len('' @ exp_text e @ ''))'' @ nl
     @ ind @ ''for k := range '' @ exp_text e @ '' {'' @ nl
     @ ind @ tab @ ''keys'' @ f @ '' = append(keys'' @ f @ '', k)'' @ nl
     @ ind @ ''}'' @ nl
     @ ind @ ''sort.Strings(keys'' @ f @ '')'' @ nl
     @ ind @ ''for _, k := range keys'' @ f @ '' {'' @ nl
     @ ind @ tab @ ''h.Write([]byte(k))'' @ nl
     @ ind @ tab @ print_text (exp_text e @ ''[k]'')
     @ ind @ ''}'' @ nl"
| "hash_stmts_text ind [] = []"
| "hash_stmts_text ind (s # ss) = hash_stmt_text ind s @ hash_stmts_text ind ss"

definition hash_wrapped :: "field_equality \<Rightarrow> gexp \<Rightarrow> hstmt" where
  "hash_wrapped f v = (if fe_nested f then HNested (fe_name f) v else HPrint v)"

definition writeFieldHash :: "field_equality \<Rightarrow> hstmt list" where
  "writeFieldHash f =
     (let a = Sel (Id ''a'') (fe_name f) in
      case fe_category f of
        FieldTypePrimitive \<Rightarrow> [HComment (''Hash primitive field: '' @ fe_name f), HPrint a]
      | FieldTypeOptional \<Rightarrow>
          [HComment (''Hash optional field: '' @ fe_name f),
           HIf (Holds (Sel a ''Set'')) [HByte 1, hash_wrapped f (Sel a ''Value'')] [HByte 0]]
      | FieldTypeNullable \<Rightarrow>
          [HComment (''Hash nullable field: '' @ fe_name f),
           HIf (Holds (Sel a ''Null'')) [HByte 0] [HByte 1, hash_wrapped f (Sel a ''Value'')]]
      | FieldTypePointer \<Rightarrow>
          [HComment (''Hash pointer field: '' @ fe_name f),
           HIf (NotNil a) [HByte 1, HPrint (Deref a)] [HByte 0]]
      | FieldTypeArray \<Rightarrow> [HComment (''Hash array field: '' @ fe_name f), HItems a]
      | FieldTypeMap \<Rightarrow>
          [HComment (''Hash map field: '' @ fe_name f @ '' (sorted keys)''), HEntries (fe_name f) a]
      | FieldTypeNestedObject \<Rightarrow>
          [HComment (''Hash nested object: '' @ fe_name f), HNested (fe_name f) a])"

definition hash_body :: "equality_spec \<Rightarrow> hstmt list" where
  "hash_body spec = concat (map writeFieldHash (em_fields spec))"

definition hash_text :: "string \<Rightarrow> equality_spec \<Rightarrow> string" where
  "hash_text pkg spec =
     file_header pkg @ ''import ('' @ nl
     @ tab @ dq @ ''encoding/binary'' @ dq @ nl
     @ tab @ dq @ ''fmt'' @ dq @ nl
     @ tab @ dq @ ''hash/fnv'' @ dq @ nl
     @ tab @ dq @ ''sort'' @ dq @ nl
     @ '')'' @ nl @ nl
     @ ''// Hash computes a hash value for '' @ em_type_name spec @ '' using FNV-1a.'' @ nl
     @ ''// Equal objects must produce equal hashes.'' @ nl
     @ ''func (a '' @ em_type_name spec @ '') Hash() uint64 {'' @ nl
     @ tab @ ''h := fnv.New64a()'' @ nl @ nl
     @ hash_stmts_text tab (hash_body spec)
     @ tab @ ''return h.Sum64()'' @ nl @ ''}'' @ nl"

section \<open>The writer of validateUnique\<close>

definition line :: "nat \<Rightarrow> string \<Rightarrow> string" where
  "line depth s = concat (replicate depth tab) @ s @ nl"

definition writeValidateUnique :: "equality_spec \<Rightarrow> string" where
  "writeValidateUnique spec =
     (let name = em_type_name spec in concat [
        line 0 (''// validateUnique'' @ name @ '' checks for duplicate items using hash-based detection.''),
        line 0 (''func validateUnique'' @ name @ ''(items []'' @ name @ '') (err error) {''),
        line 1 ''if len(items) <= 1 {'',
        line 2 ''return nil'',
        line 1 ''}'', nl,
        line 1 ''defer func() {'',
        line 2 ''if r := recover(); r != nil {'',
        line 3 ''if e, ok := r.(*validate.DepthLimitError); ok {'',
        line 4 ''err = e'',
        line 3 ''} else {'',
        line 4 ''panic(r)'',
        line 3 ''}'',
        line 2 ''}'',
        line 1 ''}()'', nl,
        line 1 ''type entry struct {'',
        line 2 (''item  '' @ name),
        line 2 ''index int'',
        line 1 ''}'',
        line 1 ''buckets := make(map[uint64][]entry, len(items))'', nl,
        line 1 ''for i, item := range items {'',
        line 2 ''hash := item.Hash()'',
        line 2 ''bucket := buckets[hash]'', nl,
        line 2 ''for _, existing := range bucket {'',
        line 3 (if em_depth_tracking spec then ''if item.Equal(existing.item, 0) {'' else ''if item.Equal(existing.item) {''),
        line 4 ''return &validate.DuplicateItemsError{'',
        line 5 ''Indices: []int{existing.index, i},'',
        line 4 ''}'',
        line 3 ''}'',
        line 2 ''}'', nl,
        line 2 ''buckets[hash] = append(bucket, entry{item: item, index: i})'',
        line 1 ''}'', nl,
        line 1 ''return nil'',
        line 0 ''}'', nl])"

definition unique_text :: "string \<Rightarrow> equality_spec list \<Rightarrow> string" where
  "unique_text pkg specs = file_header pkg @ ''import ('' @ nl
     @ tab @ dq @ ''github.com/NefixEstrada/agen/runtime/validate'' @ dq @ nl
     @ '')'' @ nl @ nl @ concat (map writeValidateUnique specs)"

section \<open>Files\<close>

text \<open>
  \<open>to_lower\<close> is \<open>unicode.ToLower\<close>, whose tables are not part of the sources; \<open>i > 0\<close> excludes the first rune.
\<close>

definition snake_runes :: "rune list \<Rightarrow> rune list" where
  "snake_runes rs = (case rs of [] \<Rightarrow> []
     | r # rest \<Rightarrow> r # concat (map (\<lambda>q. if 65 \<le> q \<and> q \<le> 90 then [95, q] else [q]) rest))"

definition snakeCase :: "(rune \<Rightarrow> rune) \<Rightarrow> string \<Rightarrow> string" where
  "snakeCase to_lower s = string_of_runes (map to_lower (snake_runes (runes_of s)))"

text \<open>
  The formatter of imports is a library, and so is the file system; \<open>cl_write\<close> says whether a file can be written.
  The state is the list of files written.
\<close>

record code_libs =
  cl_format :: "string \<Rightarrow> bytes \<Rightarrow> bytes option"
  cl_write :: "string \<Rightarrow> bytes \<Rightarrow> bool"
  cl_lower :: "rune \<Rightarrow> rune"

datatype code_err = FormatCode | CannotWrite string | GenerateEqual string code_err | GenerateHash string code_err

type_synonym files = "(string \<times> bytes) list"

definition writeFormattedCode :: "code_libs \<Rightarrow> string \<Rightarrow> bytes \<Rightarrow> files \<Rightarrow> files \<times> code_err option" where
  "writeFormattedCode L name content fs = (case cl_format L name content of
     None \<Rightarrow> (fs, Some FormatCode)
   | Some out \<Rightarrow> if cl_write L name out then (fs @ [(name, out)], None) else (fs, Some (CannotWrite name)))"

definition equal_file :: "code_libs \<Rightarrow> string \<Rightarrow> string" where
  "equal_file L name = ''aas_'' @ snakeCase (cl_lower L) name @ ''_equal_gen.go''"

definition hash_file :: "code_libs \<Rightarrow> string \<Rightarrow> string" where
  "hash_file L name = ''aas_'' @ snakeCase (cl_lower L) name @ ''_hash_gen.go''"

definition generateEqualMethod :: "code_libs \<Rightarrow> string \<Rightarrow> equality_spec \<Rightarrow> files \<Rightarrow> files \<times> code_err option" where
  "generateEqualMethod L pkg spec = writeFormattedCode L (equal_file L (em_type_name spec)) (equal_text pkg spec)"

definition generateHashMethod :: "code_libs \<Rightarrow> string \<Rightarrow> equality_spec \<Rightarrow> files \<Rightarrow> files \<times> code_err option" where
  "generateHashMethod L pkg spec = writeFormattedCode L (hash_file L (em_type_name spec)) (hash_text pkg spec)"

fun generateEqualityMethodsWithFS :: "code_libs \<Rightarrow> string \<Rightarrow> equality_spec list \<Rightarrow> files \<Rightarrow> files \<times> code_err option" where
  "generateEqualityMethodsWithFS L pkg [] fs = (fs, None)"
| "generateEqualityMethodsWithFS L pkg (spec # specs) fs = (case generateEqualMethod L pkg spec fs of
     (fs1, Some e) \<Rightarrow> (fs1, Some (GenerateEqual (em_type_name spec) e))
   | (fs1, None) \<Rightarrow> (case generateHashMethod L pkg spec fs1 of
       (fs2, Some e) \<Rightarrow> (fs2, Some (GenerateHash (em_type_name spec) e))
     | (fs2, None) \<Rightarrow> generateEqualityMethodsWithFS L pkg specs fs2))"

definition generateUniqueValidators :: "code_libs \<Rightarrow> string \<Rightarrow> equality_spec list \<Rightarrow> files \<Rightarrow> files \<times> code_err option" where
  "generateUniqueValidators L pkg specs fs =
     (if specs = [] then (fs, None)
      else writeFormattedCode L ''aas_validators_unique_gen.go'' (unique_text pkg specs) fs)"

text \<open>The part of \<open>WriteSource\<close> that writes these files, after the templates.\<close>

definition write_equality :: "code_libs \<Rightarrow> string \<Rightarrow> equality_spec list \<Rightarrow> files \<Rightarrow> files \<times> code_err option" where
  "write_equality L pkg specs fs =
     (if specs = [] then (fs, None)
      else case generateEqualityMethodsWithFS L pkg specs fs of
        (fs1, Some e) \<Rightarrow> (fs1, Some e)
      | (fs1, None) \<Rightarrow> generateUniqueValidators L pkg specs fs1)"

end
