(* ===== verification/EqualityRun.thy ===== *)
theory EqualityRun
  imports EqualityGen
begin

text \<open>
  What the code written for unique items does: a meaning for the statements of EqualityGen over Go values, the
  methods \<open>Equal\<close> and \<open>Hash\<close> it gives, and the loop of \<open>validateUnique\<close>. The reference is \<open>same\<close>, equality by structure.
\<close>

unbundle bit_operations_syntax

section \<open>Values\<close>

text \<open>
  \<open>Leaf\<close> is a value of a comparable type, compared by Go's \<open>==\<close>, a parameter \<open>leq\<close>; \<open>Obj\<close> a struct with its type's
  name; \<open>Entries\<close> a map in the order a loop visits it; \<open>Wrap\<close> a generated wrapper with the flags \<open>Set\<close> and \<open>Null\<close> it has.
\<close>

datatype 'a gval = Leaf 'a | Bytes string | Flag bool | Obj string "(string \<times> 'a gval) list" | Slice "'a gval list"
  | Entries "(string \<times> 'a gval) list" | Ref "'a gval option" | Wrap "bool option" "bool option" "'a gval"

text \<open>\<open>DepthLimitError\<close> is the panic of the generated code, \<open>Stuck\<close> what Go would not compile, or would panic at.\<close>

datatype run_err = DepthLimitError int string | Stuck | ROutOfFuel

type_synonym 'a genv = "string \<Rightarrow> 'a gval option"

fun eval :: "'a genv \<Rightarrow> nat option \<Rightarrow> gexp \<Rightarrow> 'a gval option" where
  "eval E i (Id x) = E x"
| "eval E i (Sel e f) = (case eval E i e of
     Some (Obj n fs) \<Rightarrow> map_of fs f
   | Some (Wrap s nu v) \<Rightarrow>
       if f = ''Set'' then map_option Flag s else if f = ''Null'' then map_option Flag nu
       else if f = ''Value'' then Some v else None
   | _ \<Rightarrow> None)"
| "eval E i (At e) = (case (eval E i e, i) of
     (Some (Slice vs), Some k) \<Rightarrow> if k < length vs then Some (vs ! k) else None
   | _ \<Rightarrow> None)"
| "eval E i (Deref e) = (case eval E i e of Some (Ref (Some v)) \<Rightarrow> Some v | _ \<Rightarrow> None)"

section \<open>The meaning of Equal\<close>

definition differ :: "('a \<Rightarrow> 'a \<Rightarrow> bool) \<Rightarrow> 'a gval \<Rightarrow> 'a gval \<Rightarrow> run_err + bool" where
  "differ leq v w = (case (v, w) of
     (Leaf x, Leaf y) \<Rightarrow> Inr (\<not> leq x y) | (Flag x, Flag y) \<Rightarrow> Inr (x \<noteq> y) | _ \<Rightarrow> Inl Stuck)"

definition both :: "('a gval \<Rightarrow> 'a gval \<Rightarrow> run_err + bool) \<Rightarrow> 'a gval option \<Rightarrow> 'a gval option \<Rightarrow> run_err + bool" where
  "both f x y = (case (x, y) of (Some v, Some w) \<Rightarrow> f v w | _ \<Rightarrow> Inl Stuck)"

lemma both_Some [simp]: "both f (Some v) (Some w) = f v w"
  by (simp add: both_def)

definition size_differs :: "'a gval \<Rightarrow> 'a gval \<Rightarrow> run_err + bool" where
  "size_differs v w = (case (v, w) of
     (Slice xs, Slice ys) \<Rightarrow> Inr (length xs \<noteq> length ys) | (Entries m, Entries m') \<Rightarrow> Inr (length m \<noteq> length m')
   | _ \<Rightarrow> Inl Stuck)"

definition nil_differs :: "'a gval \<Rightarrow> 'a gval \<Rightarrow> run_err + bool" where
  "nil_differs v w = (case (v, w) of (Ref x, Ref y) \<Rightarrow> Inr ((x = None) \<noteq> (y = None)) | _ \<Rightarrow> Inl Stuck)"

definition bytes_differ :: "'a gval \<Rightarrow> 'a gval \<Rightarrow> run_err + bool" where
  "bytes_differ v w = (case (v, w) of (Bytes x, Bytes y) \<Rightarrow> Inr (x \<noteq> y) | _ \<Rightarrow> Inl Stuck)"

definition flag_of :: "'a gval option \<Rightarrow> run_err + bool" where
  "flag_of v = (case v of Some (Flag b) \<Rightarrow> Inr b | _ \<Rightarrow> Inl Stuck)"

text \<open>\<open>call\<close> runs the method \<open>Equal\<close> of a nested struct, with the depth or without.\<close>

type_synonym 'a equal_call = "bool \<Rightarrow> 'a gval \<Rightarrow> 'a gval \<Rightarrow> run_err + bool"

fun check :: "('a \<Rightarrow> 'a \<Rightarrow> bool) \<Rightarrow> 'a equal_call \<Rightarrow> 'a genv \<Rightarrow> nat option \<Rightarrow> gcond \<Rightarrow> run_err + bool" where
  "check leq call E i (Differ x y) = both (differ leq) (eval E i x) (eval E i y)"
| "check leq call E i (DifferBytes x y) = both bytes_differ (eval E i x) (eval E i y)"
| "check leq call E i (DifferLen x y) = both size_differs (eval E i x) (eval E i y)"
| "check leq call E i (DifferNil x y) = both nil_differs (eval E i x) (eval E i y)"
| "check leq call E i (NotEqualCall depth x y) =
     both (\<lambda>v w. bind_res (call depth v w) (\<lambda>b. Inr (\<not> b))) (eval E i x) (eval E i y)"
| "check leq call E i (Holds x) = flag_of (eval E i x)"
| "check leq call E i (HoldsNot x) = bind_res (flag_of (eval E i x)) (\<lambda>b. Inr (\<not> b))"
| "check leq call E i (NotNil x) = (case eval E i x of Some (Ref r) \<Rightarrow> Inr (r \<noteq> None) | _ \<Rightarrow> Inl Stuck)"

text \<open>\<open>Inr True\<close> goes on after a statement, \<open>Inr False\<close> has returned false.\<close>

fun all_res :: "('b \<Rightarrow> run_err + bool) \<Rightarrow> 'b list \<Rightarrow> run_err + bool" where
  "all_res f [] = Inr True"
| "all_res f (x # xs) = bind_res (f x) (\<lambda>goes_on. if goes_on then all_res f xs else Inr False)"

definition same_entry :: "('a \<Rightarrow> 'a \<Rightarrow> bool) \<Rightarrow> (string \<times> 'a gval) list \<Rightarrow> string \<times> 'a gval \<Rightarrow> run_err + bool" where
  "same_entry leq m e = (case map_of m (fst e) of
     None \<Rightarrow> Inr False | Some w \<Rightarrow> bind_res (differ leq (snd e) w) (\<lambda>b. Inr (\<not> b)))"

fun exec :: "('a \<Rightarrow> 'a \<Rightarrow> bool) \<Rightarrow> 'a equal_call \<Rightarrow> 'a genv \<Rightarrow> nat option \<Rightarrow> gstmt \<Rightarrow> run_err + bool"
  and execs :: "('a \<Rightarrow> 'a \<Rightarrow> bool) \<Rightarrow> 'a equal_call \<Rightarrow> 'a genv \<Rightarrow> nat option \<Rightarrow> gstmt list \<Rightarrow> run_err + bool" where
  "exec leq call E i (Comment s) = Inr True"
| "exec leq call E i (Reject c) = bind_res (check leq call E i c) (\<lambda>b. Inr (\<not> b))"
| "exec leq call E i (When c ss) = bind_res (check leq call E i c) (\<lambda>b. if b then execs leq call E i ss else Inr True)"
| "exec leq call E i (ForIndex e ss) = (case eval E i e of
     Some (Slice vs) \<Rightarrow> all_res (\<lambda>k. execs leq call E (Some k) ss) [0..<length vs] | _ \<Rightarrow> Inl Stuck)"
| "exec leq call E i (SameEntries inline x y) = (case (eval E i x, eval E i y) of
     (Some (Entries m), Some (Entries m')) \<Rightarrow> all_res (same_entry leq m') m | _ \<Rightarrow> Inl Stuck)"
| "execs leq call E i [] = Inr True"
| "execs leq call E i (s # ss) =
     bind_res (exec leq call E i s) (\<lambda>goes_on. if goes_on then execs leq call E i ss else Inr False)"

definition spec_for :: "equality_spec list \<Rightarrow> string \<Rightarrow> equality_spec option" where
  "spec_for specs name = find (\<lambda>s. em_type_name s = name) specs"

definition receiver_env :: "'a gval \<Rightarrow> 'a gval \<Rightarrow> 'a genv" where
  "receiver_env v w = (\<lambda>_. None)(''a'' \<mapsto> v, ''b'' \<mapsto> w)"

text \<open>
  \<open>v.Equal(w, depth)\<close>. Both have one static type, whose method it is; calls nest no deeper than the limit, so fuel
  \<open>12\<close> is enough at depth \<open>0\<close>.
\<close>

fun run_equal :: "('a \<Rightarrow> 'a \<Rightarrow> bool) \<Rightarrow> equality_spec list \<Rightarrow> nat \<Rightarrow> int \<Rightarrow> bool \<Rightarrow> 'a gval \<Rightarrow> 'a gval \<Rightarrow> run_err + bool" where
  "run_equal leq specs 0 depth tracked v w = Inl ROutOfFuel"
| "run_equal leq specs (Suc n) depth tracked v w = (case (v, w) of
     (Obj name fs, Obj name' gs) \<Rightarrow>
       (case spec_for specs name of
          None \<Rightarrow> Inl Stuck
        | Some spec \<Rightarrow>
            if name' \<noteq> name \<or> tracked \<noteq> em_depth_tracking spec then Inl Stuck
            else if tracked \<and> em_max_depth spec < depth then Inl (DepthLimitError (em_max_depth spec) name)
            else execs leq (run_equal leq specs n (depth + 1)) (receiver_env v w) None (equal_body spec))
   | _ \<Rightarrow> Inl Stuck)"

section \<open>The meaning of Hash\<close>

text \<open>The package \<open>hash/fnv\<close>: 64 bits, variant 1a.\<close>

type_synonym hash = "64 word"

definition fnv_offset :: hash where "fnv_offset = 14695981039346656037"
definition fnv_prime :: hash where "fnv_prime = 1099511628211"

definition fnv_write :: "bytes \<Rightarrow> hash \<Rightarrow> hash" where
  "fnv_write bs h = foldl (\<lambda>h c. (h XOR of_nat (byte_of c)) * fnv_prime) h bs"

definition little_endian :: "hash \<Rightarrow> bytes" where
  "little_endian h = map (\<lambda>k. char_of (unat (drop_bit (8 * k) h) mod 256)) [0..<8]"

text \<open>\<open>fmtv\<close> prints a value with \<open>%v\<close>.\<close>

fun hash_exec :: "('a gval \<Rightarrow> bytes) \<Rightarrow> ('a gval \<Rightarrow> hash option) \<Rightarrow> 'a gval \<Rightarrow> hstmt \<Rightarrow> hash \<Rightarrow> hash option"
  and hash_execs :: "('a gval \<Rightarrow> bytes) \<Rightarrow> ('a gval \<Rightarrow> hash option) \<Rightarrow> 'a gval \<Rightarrow> hstmt list \<Rightarrow> hash \<Rightarrow> hash option" where
  "hash_exec fmtv call v (HComment s) h = Some h"
| "hash_exec fmtv call v (HByte k) h = Some (fnv_write [char_of k] h)"
| "hash_exec fmtv call v (HPrint e) h =
     map_option (\<lambda>x. fnv_write (fmtv x) h) (eval (receiver_env v v) None e)"
| "hash_exec fmtv call v (HNested f e) h =
     Option.bind (Option.bind (eval (receiver_env v v) None e) call) (\<lambda>k. Some (fnv_write (little_endian k) h))"
| "hash_exec fmtv call v (HIf c ss ts) h = (case check (\<lambda>_ _. True) (\<lambda>_ _ _. Inl Stuck) (receiver_env v v) None c of
     Inl e \<Rightarrow> None
   | Inr b \<Rightarrow> if b then hash_execs fmtv call v ss h else hash_execs fmtv call v ts h)"
| "hash_exec fmtv call v (HItems e) h = (case eval (receiver_env v v) None e of
     Some (Slice xs) \<Rightarrow> Some (foldl (\<lambda>h x. fnv_write (fmtv x) h) h xs) | _ \<Rightarrow> None)"
| "hash_exec fmtv call v (HEntries f e) h = (case eval (receiver_env v v) None e of
     Some (Entries m) \<Rightarrow>
       Some (foldl (\<lambda>h k. fnv_write (fmtv (the (map_of m k))) (fnv_write k h)) h (sorted_keys m))
   | _ \<Rightarrow> None)"
| "hash_execs fmtv call v [] h = Some h"
| "hash_execs fmtv call v (s # ss) h = Option.bind (hash_exec fmtv call v s h) (hash_execs fmtv call v ss)"

fun run_hash :: "('a gval \<Rightarrow> bytes) \<Rightarrow> equality_spec list \<Rightarrow> nat \<Rightarrow> 'a gval \<Rightarrow> hash option" where
  "run_hash fmtv specs 0 v = None"
| "run_hash fmtv specs (Suc n) v = (case v of
     Obj name fs \<Rightarrow> (case spec_for specs name of
         None \<Rightarrow> None | Some spec \<Rightarrow> hash_execs fmtv (run_hash fmtv specs n) v (hash_body spec) fnv_offset)
   | _ \<Rightarrow> None)"

section \<open>The loop of validateUnique\<close>

datatype unique_error = DuplicateItems nat nat | TooDeep int string

fun find_equal :: "('v \<Rightarrow> 'v \<Rightarrow> run_err + bool) \<Rightarrow> 'v \<Rightarrow> ('v \<times> nat) list \<Rightarrow> run_err + nat option" where
  "find_equal eq item [] = Inr None"
| "find_equal eq item ((x, j) # bucket) =
     bind_res (eq item x) (\<lambda>b. if b then Inr (Some j) else find_equal eq item bucket)"

fun unique_loop :: "('v \<Rightarrow> hash option) \<Rightarrow> ('v \<Rightarrow> 'v \<Rightarrow> run_err + bool) \<Rightarrow> nat \<Rightarrow> 'v list
    \<Rightarrow> (hash \<Rightarrow> ('v \<times> nat) list) \<Rightarrow> run_err + (nat \<times> nat) option" where
  "unique_loop hash eq i [] buckets = Inr None"
| "unique_loop hash eq i (item # items) buckets = (case hash item of
     None \<Rightarrow> Inl Stuck
   | Some h \<Rightarrow> bind_res (find_equal eq item (buckets h)) (\<lambda>found. case found of
       Some j \<Rightarrow> Inr (Some (j, i))
     | None \<Rightarrow> unique_loop hash eq (Suc i) items (buckets(h := buckets h @ [(item, i)]))))"

text \<open>The deferred function turns the panic at the depth limit into the error; other panics go on.\<close>

definition run_unique :: "('v \<Rightarrow> hash option) \<Rightarrow> ('v \<Rightarrow> 'v \<Rightarrow> run_err + bool) \<Rightarrow> 'v list \<Rightarrow> run_err + unique_error option" where
  "run_unique hash eq items =
     (if length items \<le> 1 then Inr None
      else case unique_loop hash eq 0 items (\<lambda>_. []) of
        Inl (DepthLimitError limit name) \<Rightarrow> Inr (Some (TooDeep limit name))
      | Inl e \<Rightarrow> Inl e
      | Inr None \<Rightarrow> Inr None
      | Inr (Some (j, i)) \<Rightarrow> Inr (Some (DuplicateItems j i)))"

definition run_validate_unique :: "('a \<Rightarrow> 'a \<Rightarrow> bool) \<Rightarrow> ('a gval \<Rightarrow> bytes) \<Rightarrow> equality_spec list \<Rightarrow> nat \<Rightarrow> bool
    \<Rightarrow> 'a gval list \<Rightarrow> run_err + unique_error option" where
  "run_validate_unique leq fmtv specs n tracked items =
     run_unique (run_hash fmtv specs n) (run_equal leq specs n 0 tracked) items"

end
