(* ===== verification/EqualityProps.thy ===== *)
theory EqualityProps
  imports EqualityRun
begin

text \<open>
  What the code written for unique items computes: \<open>Equal\<close> decides equality by structure up to its depth limit, equal
  values have equal hashes, and \<open>validateUnique\<close> reports a duplicate exactly when there is one.
\<close>

section \<open>Equality by structure\<close>

text \<open>A wrapper without a value is the same as any other without one; maps are compared as maps.\<close>

fun same :: "('a \<Rightarrow> 'a \<Rightarrow> bool) \<Rightarrow> 'a gval \<Rightarrow> 'a gval \<Rightarrow> bool"
  and same_fields :: "('a \<Rightarrow> 'a \<Rightarrow> bool) \<Rightarrow> (string \<times> 'a gval) list \<Rightarrow> (string \<times> 'a gval) list \<Rightarrow> bool"
  and same_items :: "('a \<Rightarrow> 'a \<Rightarrow> bool) \<Rightarrow> 'a gval list \<Rightarrow> 'a gval list \<Rightarrow> bool"
  and same_entries :: "('a \<Rightarrow> 'a \<Rightarrow> bool) \<Rightarrow> (string \<times> 'a gval) list \<Rightarrow> (string \<times> 'a gval) list \<Rightarrow> bool" where
  "same leq (Leaf x) w = (case w of Leaf y \<Rightarrow> leq x y | _ \<Rightarrow> False)"
| "same leq (Bytes x) w = (case w of Bytes y \<Rightarrow> x = y | _ \<Rightarrow> False)"
| "same leq (Flag x) w = (case w of Flag y \<Rightarrow> x = y | _ \<Rightarrow> False)"
| "same leq (Obj n fs) w = (case w of Obj m gs \<Rightarrow> n = m \<and> same_fields leq fs gs | _ \<Rightarrow> False)"
| "same leq (Slice xs) w = (case w of Slice ys \<Rightarrow> same_items leq xs ys | _ \<Rightarrow> False)"
| "same leq (Entries m) w = (case w of Entries m' \<Rightarrow> length m = length m' \<and> same_entries leq m m' | _ \<Rightarrow> False)"
| "same leq (Ref None) w = (case w of Ref None \<Rightarrow> True | _ \<Rightarrow> False)"
| "same leq (Ref (Some x)) w = (case w of Ref (Some y) \<Rightarrow> same leq x y | _ \<Rightarrow> False)"
| "same leq (Wrap s nu x) w = (case w of
     Wrap s' nu' y \<Rightarrow> s = s' \<and> (s = Some False \<or> (nu = Some True) = (nu' = Some True) \<and> (nu = Some True \<or> same leq x y)) | _ \<Rightarrow> False)"
| "same_fields leq [] gs = (gs = [])"
| "same_fields leq (f # fs) gs = (case gs of [] \<Rightarrow> False
     | g # gs \<Rightarrow> fst f = fst g \<and> same leq (snd f) (snd g) \<and> same_fields leq fs gs)"
| "same_items leq [] ys = (ys = [])"
| "same_items leq (x # xs) ys = (case ys of [] \<Rightarrow> False | y # ys \<Rightarrow> same leq x y \<and> same_items leq xs ys)"
| "same_entries leq [] m' = True"
| "same_entries leq (e # m) m' = (case map_of m' (fst e) of
     None \<Rightarrow> False | Some y \<Rightarrow> same leq (snd e) y \<and> same_entries leq m m')"

text \<open>How deep structs nest in a value, where \<open>Equal\<close> looks.\<close>

fun height :: "'a gval \<Rightarrow> nat" and fields_height :: "(string \<times> 'a gval) list \<Rightarrow> nat" and items_height :: "'a gval list \<Rightarrow> nat" where
  "height (Obj n fs) = Suc (fields_height fs)"
| "height (Slice xs) = items_height xs"
| "height (Wrap s nu x) = (if s = Some False \<or> nu = Some True then 0 else height x)"
| "height _ = 0"
| "fields_height [] = 0"
| "fields_height (f # fs) = max (height (snd f)) (fields_height fs)"
| "items_height [] = 0"
| "items_height (x # xs) = max (height x) (items_height xs)"

section \<open>Values of the described types\<close>

definition is_leaf :: "'a gval \<Rightarrow> bool" where
  "is_leaf v \<longleftrightarrow> (case v of Leaf _ \<Rightarrow> True | _ \<Rightarrow> False)"

definition leaf_entries :: "(string \<times> 'a gval) list \<Rightarrow> bool" where
  "leaf_entries m \<longleftrightarrow> distinct (map fst m) \<and> list_all (\<lambda>e. is_leaf (snd e)) m"

text \<open>
  The values a description of methods is about, nested at most \<open>k\<close> structs deep: \<open>el n f\<close> is the struct type the field
  \<open>f\<close> of \<open>n\<close> reaches, and \<open>nested\<close> says what a value of it is. Where the methods use \<open>==\<close>, the value is of a comparable
  type; an optional field may be nullable too, but it is not null: the methods do not look at that flag.
\<close>

definition fits_item :: "('a gval \<Rightarrow> bool) \<Rightarrow> field_equality \<Rightarrow> 'a gval \<Rightarrow> bool" where
  "fits_item nested fe x \<longleftrightarrow>
     (let inner = (if fe_array_of_structs fe then nested else is_leaf) in
      if fe_array_of_nullable fe then (case x of Wrap None (Some nu) v \<Rightarrow> nu \<or> inner v | _ \<Rightarrow> False) else inner x)"

definition fits_items :: "('a gval \<Rightarrow> bool) \<Rightarrow> field_equality \<Rightarrow> 'a gval \<Rightarrow> bool" where
  "fits_items nested fe x \<longleftrightarrow> (case x of Slice xs \<Rightarrow> list_all (fits_item nested fe) xs | _ \<Rightarrow> False)"

definition fits_map :: "'a gval \<Rightarrow> bool" where
  "fits_map x \<longleftrightarrow> (case x of Entries m \<Rightarrow> leaf_entries m | _ \<Rightarrow> False)"

definition fits_wrapped :: "('a gval \<Rightarrow> bool) \<Rightarrow> field_equality \<Rightarrow> 'a gval \<Rightarrow> bool" where
  "fits_wrapped nested fe x \<longleftrightarrow>
     (if fe_nested fe then nested x else if fe_map fe then fits_map x
      else if fe_array fe then fits_items nested fe x else is_leaf x)"

definition fits_field :: "('a gval \<Rightarrow> bool) \<Rightarrow> field_equality \<Rightarrow> 'a gval \<Rightarrow> bool" where
  "fits_field nested fe x \<longleftrightarrow> (case fe_category fe of
     FieldTypePrimitive \<Rightarrow> (case x of Bytes _ \<Rightarrow> fe_byte_slice fe | Leaf _ \<Rightarrow> \<not> fe_byte_slice fe | _ \<Rightarrow> False)
   | FieldTypeOptional \<Rightarrow> (case x of Wrap (Some s) nu v \<Rightarrow> nu \<noteq> Some True \<and> (\<not> s \<or> fits_wrapped nested fe v) | _ \<Rightarrow> False)
   | FieldTypeNullable \<Rightarrow> (case x of Wrap None (Some nu) v \<Rightarrow> nu \<or> fits_wrapped nested fe v | _ \<Rightarrow> False)
   | FieldTypePointer \<Rightarrow> (case x of Ref None \<Rightarrow> True | Ref (Some v) \<Rightarrow> is_leaf v | _ \<Rightarrow> False)
   | FieldTypeArray \<Rightarrow> fits_items nested fe x
   | FieldTypeMap \<Rightarrow> fits_map x
   | FieldTypeNestedObject \<Rightarrow> nested x)"

primrec fits :: "nat \<Rightarrow> (string \<Rightarrow> string \<Rightarrow> string) \<Rightarrow> equality_spec list \<Rightarrow> string \<Rightarrow> 'a gval \<Rightarrow> bool" where
  "fits 0 el specs n v = False"
| "fits (Suc k) el specs n v = (case v of
     Obj m fs \<Rightarrow> m = n \<and> distinct (map fst fs) \<and> (case spec_for specs n of
         None \<Rightarrow> False
       | Some sp \<Rightarrow> em_depth_tracking sp \<and>
           list_all2 (\<lambda>fe f. fst f = fe_name fe \<and> fits_field (fits k el specs (el n (fe_name fe))) fe (snd f)) (em_fields sp) fs)
   | _ \<Rightarrow> False)"

section \<open>Equal decides equality\<close>

text \<open>The answer is \<open>b\<close>, but when \<open>deep\<close> it is not true, and may be the panic at the depth limit.\<close>

definition decides :: "run_err + bool \<Rightarrow> bool \<Rightarrow> bool \<Rightarrow> bool" where
  "decides r b deep \<longleftrightarrow> r = Inr b \<and> (b \<longrightarrow> \<not> deep) \<or> deep \<and> (\<exists>m t. r = Inl (DepthLimitError m t))"

lemma decides_Inr [simp]: "decides (Inr c) b deep \<longleftrightarrow> c = b \<and> (b \<longrightarrow> \<not> deep)"
  by (auto simp: decides_def)

lemma decides_then:
  assumes "decides r b deep" and "decides r' b' deep'"
  shows "decides (bind_res r (\<lambda>k. if k then r' else Inr False)) (b \<and> b') (deep \<or> deep')"
proof (cases r)
  case (Inl e)
  then show ?thesis using assms(1) by (simp add: decides_def)
next
  case (Inr c)
  then have c: "c = b" "b \<longrightarrow> \<not> deep" using assms(1) by simp_all
  then show ?thesis using Inr assms(2) by (cases b) (simp_all add: decides_def)
qed

lemma bind_not_not [simp]: "bind_res (bind_res r (\<lambda>b. Inr (\<not> b))) (\<lambda>b. Inr (\<not> b)) = r"
  by (cases r) simp_all

lemma execs_append:
  "execs leq call E i (ss @ ts) = bind_res (execs leq call E i ss) (\<lambda>k. if k then execs leq call E i ts else Inr False)"
proof (induction ss)
  case (Cons s ss)
  then show ?case by (cases "exec leq call E i s") simp_all
qed simp

lemma execs_end [simp]: "bind_res r (\<lambda>k. if k then execs leq call E i [] else Inr False) = r"
  by (cases r) simp_all

lemma exec_comment [simp]: "execs leq call E i (Comment c # ss) = execs leq call E i ss"
  by simp

lemma exec_single [simp]: "execs leq call E i [s] = exec leq call E i s"
  by (cases "exec leq call E i s") simp_all

lemma is_leafE: "is_leaf x \<Longrightarrow> (\<And>v. x = Leaf v \<Longrightarrow> P) \<Longrightarrow> P"
  by (cases x) (auto simp: is_leaf_def)

lemma differ_leaf: "is_leaf x \<Longrightarrow> is_leaf y \<Longrightarrow> differ leq x y = Inr (\<not> same leq x y)"
  by (auto elim!: is_leafE simp: differ_def)

lemma height_leaf: "is_leaf x \<Longrightarrow> height x = 0"
  by (auto elim: is_leafE)

lemma all_res_Suc: "all_res f (map Suc ks) = all_res (\<lambda>k. f (Suc k)) ks"
proof (induction ks)
  case (Cons k ks)
  then show ?case by (cases "f (Suc k)") simp_all
qed simp

lemma decides_items:
  assumes "length ys = length xs"
    and "\<And>k. k < length xs \<Longrightarrow> decides (f k) (same leq (xs ! k) (ys ! k)) (room < height (xs ! k))"
  shows "decides (all_res f [0..<length xs]) (same_items leq xs ys) (room < items_height xs)"
  using assms
proof (induction xs arbitrary: ys f)
  case Nil
  then show ?case by simp
next
  case (Cons x xs)
  obtain y zs where ys: "ys = y # zs" "length zs = length xs" using Cons.prems(1) by (cases ys) auto
  have t: "decides (all_res (\<lambda>k. f (Suc k)) [0..<length xs]) (same_items leq xs zs) (room < items_height xs)"
  proof (rule Cons.IH [OF ys(2)])
    fix k
    assume "k < length xs"
    then show "decides (f (Suc k)) (same leq (xs ! k) (zs ! k)) (room < height (xs ! k))"
      using Cons.prems(2) [of "Suc k"] unfolding ys(1) by (simp only: length_Cons nth_Cons_Suc Suc_less_eq)
  qed
  have h: "decides (f 0) (same leq x y) (room < height x)"
    using Cons.prems(2) [of 0] unfolding ys(1) by (simp only: length_Cons nth_Cons_0 zero_less_Suc)
  have u: "all_res f [0..<length (x # xs)] = bind_res (f 0) (\<lambda>k. if k then all_res (\<lambda>k. f (Suc k)) [0..<length xs] else Inr False)"
  proof -
    have "[0..<length (x # xs)] = 0 # map Suc [0..<length xs]"
      by (simp add: upt_conv_Cons map_Suc_upt del: upt_Suc)
    then show ?thesis by (simp only: all_res.simps all_res_Suc)
  qed
  show ?case
    using decides_then [OF h t] unfolding u ys(1) by (simp add: less_max_iff_disj)
qed

lemma same_entries_run:
  assumes "list_all (\<lambda>e. is_leaf (snd e)) m" and "list_all (\<lambda>e. is_leaf (snd e)) m'"
  shows "all_res (same_entry leq m') m = Inr (same_entries leq m m')"
  using assms(1)
proof (induction m)
  case (Cons e m)
  show ?case
  proof (cases "map_of m' (fst e)")
    case (Some y)
    then have "is_leaf y" using assms(2) by (auto simp: list_all_iff dest!: map_of_SomeD)
    then show ?thesis using Cons Some by (auto simp: same_entry_def differ_leaf)
  qed (use Cons in \<open>simp add: same_entry_def\<close>)
qed simp


lemma fits_mapE: "fits_map x \<Longrightarrow> (\<And>m. x = Entries m \<Longrightarrow> leaf_entries m \<Longrightarrow> P) \<Longrightarrow> P"
  by (cases x) (auto simp: fits_map_def)

lemma fits_itemsE:
  "fits_items nested fe x \<Longrightarrow> (\<And>xs. x = Slice xs \<Longrightarrow> list_all (fits_item nested fe) xs \<Longrightarrow> P) \<Longrightarrow> P"
  by (cases x) (auto simp: fits_items_def)

text \<open>What is known of the method of nested structs, and the comparisons of a field in its terms.\<close>

definition nested_decides :: "('a \<Rightarrow> 'a \<Rightarrow> bool) \<Rightarrow> ('a gval \<Rightarrow> bool) \<Rightarrow> 'a equal_call \<Rightarrow> nat \<Rightarrow> bool" where
  "nested_decides leq nested call room \<longleftrightarrow>
     (\<forall>x y. nested x \<longrightarrow> nested y \<longrightarrow> decides (call True x y) (same leq x y) (room < height x))"

lemma inner_decides:
  assumes "nested_decides leq nested call room"
    and "(if st then nested else is_leaf) x" and "(if st then nested else is_leaf) y"
    and "eval E i a = Some x" and "eval E i b = Some y"
  shows "decides (exec leq call E i (Reject (if st then NotEqualCall True a b else Differ a b))) (same leq x y) (room < height x)"
  using assms by (cases st) (auto simp: nested_decides_def differ_leaf height_leaf)

lemma element_decides:
  assumes n: "nested_decides leq nested call room"
    and f: "fits_item nested fe x" "fits_item nested fe y"
    and e: "eval E i (At a) = Some x" "eval E i (At b) = Some y"
  shows "decides (execs leq call E i (compare_elements a b (fe_array_of_structs fe) (fe_array_of_nullable fe) True))
    (same leq x y) (room < height x)"
proof (cases "fe_array_of_nullable fe")
  case False
  have c: "compare_elements a b (fe_array_of_structs fe) False True
      = [Reject (if fe_array_of_structs fe then NotEqualCall True (At a) (At b) else Differ (At a) (At b))]"
    by (simp add: compare_elements_def)
  have i: "(if fe_array_of_structs fe then nested else is_leaf) x" "(if fe_array_of_structs fe then nested else is_leaf) y"
    using f False by (simp_all add: fits_item_def Let_def)
  show ?thesis using inner_decides [OF n i e] by (simp only: False c exec_single)
next
  case True
  obtain nx vx ny vy where w: "x = Wrap None (Some nx) vx" "y = Wrap None (Some ny) vy"
    and i: "nx \<or> (if fe_array_of_structs fe then nested else is_leaf) vx" "ny \<or> (if fe_array_of_structs fe then nested else is_leaf) vy"
    using f True by (auto simp: fits_item_def Let_def split: gval.splits option.splits)
  have v: "eval E i (Sel (At a) ''Value'') = Some vx" "eval E i (Sel (At b) ''Value'') = Some vy"
    "eval E i (Sel (At a) ''Null'') = Some (Flag nx)" "eval E i (Sel (At b) ''Null'') = Some (Flag ny)"
    using e unfolding eval.simps(2) w by simp_all
  have d: "\<not> nx \<Longrightarrow> \<not> ny \<Longrightarrow> decides (exec leq call E i (Reject (if fe_array_of_structs fe then NotEqualCall True (Sel (At a) ''Value'') (Sel (At b) ''Value'')
      else Differ (Sel (At a) ''Value'') (Sel (At b) ''Value'')))) (same leq vx vy) (room < height vx)"
    using inner_decides [OF n _ _ v(1) v(2)] i by simp
  show ?thesis
    using d w v(3,4) True
    by (auto simp: compare_elements_def differ_def flag_of_def simp del: eval.simps check.simps(5))
qed


lemma array_decides:
  assumes n: "nested_decides leq nested call room"
    and f: "fits_items nested fe x" "fits_items nested fe y"
    and e: "\<And>i. eval E i a = Some x" "\<And>i. eval E i b = Some y"
  shows "decides (execs leq call E i (writeArrayComparisonWithNullable a b (fe_array_of_structs fe) (fe_array_of_nullable fe) True))
    (same leq x y) (room < height x)"
proof -
  obtain xs ys where xs: "x = Slice xs" "list_all (fits_item nested fe) xs" and ys: "y = Slice ys" "list_all (fits_item nested fe) ys"
    using f by (auto elim!: fits_itemsE)
  let ?body = "compare_elements a b (fe_array_of_structs fe) (fe_array_of_nullable fe) True"
  have len: "same_items leq xs ys \<Longrightarrow> length ys = length xs" for xs ys
    by (induction xs arbitrary: ys) (auto split: list.splits)
  show ?thesis
  proof (cases "length ys = length xs")
    case False
    then show ?thesis using len [of xs ys] e xs ys
      by (auto simp: writeArrayComparisonWithNullable_def size_differs_def)
  next
    case True
    have k: "decides (execs leq call E (Some k) ?body) (same leq (xs ! k) (ys ! k)) (room < height (xs ! k))" if "k < length xs" for k
    proof (rule element_decides [OF n])
      show "fits_item nested fe (xs ! k)" "fits_item nested fe (ys ! k)"
        using that True xs ys by (simp_all add: list_all_length)
      show "eval E (Some k) (At a) = Some (xs ! k)" "eval E (Some k) (At b) = Some (ys ! k)"
        using that True xs ys e by simp_all
    qed
    show ?thesis using decides_items [OF True k] True xs ys e
      by (simp add: writeArrayComparisonWithNullable_def size_differs_def)
  qed
qed

lemma height_map: "fits_map x \<Longrightarrow> height x = 0"
  by (auto elim: fits_mapE)

lemma map_runs:
  assumes "fits_map x" and "fits_map y" and "eval E i a = Some x" and "eval E i b = Some y"
  shows "execs leq call E i [Reject (DifferLen a b), SameEntries inline a b] = Inr (same leq x y)"
proof -
  obtain m m' where m: "x = Entries m" "y = Entries m'" "leaf_entries m" "leaf_entries m'"
    using assms(1,2) by (auto elim!: fits_mapE)
  then show ?thesis using assms(3,4) same_entries_run [of m m' leq]
    by (auto simp: size_differs_def leaf_entries_def)
qed

lemma wrapped_decides:
  assumes n: "nested_decides leq nested call room"
    and f: "fits_wrapped nested fe x" "fits_wrapped nested fe y"
    and e: "\<And>i. eval E i a = Some x" "\<And>i. eval E i b = Some y"
  shows "decides (execs leq call E i (compare_wrapped fe True a b)) (same leq x y) (room < height x)"
proof -
  consider (nested) "fe_nested fe" | (map) "\<not> fe_nested fe" "fe_map fe"
    | (array) "\<not> fe_nested fe" "\<not> fe_map fe" "fe_array fe" | (leaf) "\<not> fe_nested fe" "\<not> fe_map fe" "\<not> fe_array fe"
    by blast
  then show ?thesis
  proof cases
    case nested
    then show ?thesis using inner_decides [OF n, of True x y E i a b] f e
      by (simp add: compare_wrapped_def fits_wrapped_def del: exec.simps)
  next
    case map
    then have m: "fits_map x" "fits_map y" using f by (simp_all add: fits_wrapped_def)
    show ?thesis using map_runs [OF m e, where leq = leq and call = call and inline = True and i = i] map
      by (simp add: height_map [OF m(1)] compare_wrapped_def writeMapComparison_def del: execs.simps)
  next
    case array
    then have m: "fits_items nested fe x" "fits_items nested fe y" using f by (simp_all add: fits_wrapped_def)
    show ?thesis using array_decides [OF n m e, where i = i] array by (simp add: compare_wrapped_def)
  next
    case leaf
    then show ?thesis using inner_decides [OF n, of False x y E i a b] f e
      by (simp add: compare_wrapped_def fits_wrapped_def del: exec.simps)
  qed
qed

text \<open>The comparison of a field, where \<open>a\<close> and \<open>b\<close> hold \<open>x\<close> and \<open>y\<close> in it.\<close>

lemma field_decides:
  assumes n: "nested_decides leq nested call room"
    and f: "fits_field nested fe x" "fits_field nested fe y"
    and e: "\<And>i. eval E i (Sel (Id ''a'') (fe_name fe)) = Some x" "\<And>i. eval E i (Sel (Id ''b'') (fe_name fe)) = Some y"
  shows "decides (execs leq call E None (writeFieldComparison fe True)) (same leq x y) (room < height x)"
proof (cases "fe_category fe")
  case FieldTypePrimitive
  then show ?thesis using f e
    by (auto simp: fits_field_def writeFieldComparison_def differ_def bytes_differ_def Let_def simp del: eval.simps split: gval.splits if_splits)
next
  case FieldTypeOptional
  obtain s nu v s' nu' v' where x: "x = Wrap (Some s) nu v" "y = Wrap (Some s') nu' v'" "nu \<noteq> Some True" "nu' \<noteq> Some True"
    and g: "\<not> s \<or> fits_wrapped nested fe v" "\<not> s' \<or> fits_wrapped nested fe v'"
    using f FieldTypeOptional by (auto simp: fits_field_def split: gval.splits option.splits)
  have v: "eval E i (Sel (Sel (Id ''a'') (fe_name fe)) ''Value'') = Some v" "eval E i (Sel (Sel (Id ''b'') (fe_name fe)) ''Value'') = Some v'"
    "eval E i (Sel (Sel (Id ''a'') (fe_name fe)) ''Set'') = Some (Flag s)" "eval E i (Sel (Sel (Id ''b'') (fe_name fe)) ''Set'') = Some (Flag s')" for i
    using e unfolding x eval.simps(2) [of _ _ "Sel _ _"] by simp_all
  show ?thesis using wrapped_decides [OF n _ _ v(1,2)] g v(3,4) x FieldTypeOptional
    by (auto simp: writeFieldComparison_def differ_def flag_of_def Let_def simp del: eval.simps)
next
  case FieldTypeNullable
  obtain s v s' v' where x: "x = Wrap None (Some s) v" "y = Wrap None (Some s') v'"
    and g: "s \<or> fits_wrapped nested fe v" "s' \<or> fits_wrapped nested fe v'"
    using f FieldTypeNullable by (auto simp: fits_field_def split: gval.splits option.splits)
  have v: "eval E i (Sel (Sel (Id ''a'') (fe_name fe)) ''Value'') = Some v" "eval E i (Sel (Sel (Id ''b'') (fe_name fe)) ''Value'') = Some v'"
    "eval E i (Sel (Sel (Id ''a'') (fe_name fe)) ''Null'') = Some (Flag s)" "eval E i (Sel (Sel (Id ''b'') (fe_name fe)) ''Null'') = Some (Flag s')" for i
    using e unfolding x eval.simps(2) [of _ _ "Sel _ _"] by simp_all
  show ?thesis using wrapped_decides [OF n _ _ v(1,2)] g v(3,4) x FieldTypeNullable
    by (auto simp: writeFieldComparison_def differ_def flag_of_def Let_def simp del: eval.simps)
next
  case FieldTypePointer
  obtain r r' where x: "x = Ref r" "y = Ref r'"
    and g: "\<And>v. r = Some v \<Longrightarrow> is_leaf v" "\<And>v. r' = Some v \<Longrightarrow> is_leaf v"
    using f FieldTypePointer by (auto simp: fits_field_def split: gval.splits option.splits)
  show ?thesis using e x g FieldTypePointer
    by (cases r; cases r') (auto simp: writeFieldComparison_def nil_differs_def differ_leaf Let_def simp del: eval.simps(1-3))
next
  case FieldTypeArray
  then have m: "fits_items nested fe x" "fits_items nested fe y" using f by (simp_all add: fits_field_def)
  show ?thesis using array_decides [OF n m e, where i = None] FieldTypeArray
    by (simp add: writeFieldComparison_def writeArrayComparisonWithNullable_def Let_def)
next
  case FieldTypeMap
  then have m: "fits_map x" "fits_map y" using f by (simp_all add: fits_field_def)
  show ?thesis using map_runs [OF m e, where leq = leq and call = call and inline = False and i = None] FieldTypeMap
    by (simp add: writeFieldComparison_def Let_def height_map [OF m(1)] del: execs.simps exec.simps)
next
  case FieldTypeNestedObject
  then show ?thesis using inner_decides [OF n, of True x y E None "Sel (Id ''a'') (fe_name fe)" "Sel (Id ''b'') (fe_name fe)"] f e
    by (simp add: writeFieldComparison_def fits_field_def Let_def del: eval.simps)
qed


lemma fields_decide:
  assumes "\<forall>fe \<in> set fes. nested_decides leq (nest fe) call room"
    and "list_all2 (\<lambda>fe f. fst f = fe_name fe \<and> fits_field (nest fe) fe (snd f)) fes fs"
    and "list_all2 (\<lambda>fe f. fst f = fe_name fe \<and> fits_field (nest fe) fe (snd f)) fes gs"
    and "\<forall>f \<in> set fs. map_of fs0 (fst f) = Some (snd f)" and "\<forall>g \<in> set gs. map_of gs0 (fst g) = Some (snd g)"
  shows "decides (execs leq call (receiver_env (Obj n fs0) (Obj n gs0)) None (concat (map (\<lambda>fe. writeFieldComparison fe True) fes)))
    (same_fields leq fs gs) (room < fields_height fs)"
  using assms
proof (induction fes arbitrary: fs gs)
  case (Cons fe fes)
  obtain f fs' g gs' where l: "fs = f # fs'" "gs = g # gs'" using Cons.prems(2,3) by (auto simp: list_all2_Cons1)
  have fg: "fst f = fe_name fe" "fst g = fe_name fe" "fits_field (nest fe) fe (snd f)" "fits_field (nest fe) fe (snd g)"
    using Cons.prems(2,3) l by simp_all
  have e: "eval (receiver_env (Obj n fs0) (Obj n gs0)) i (Sel (Id ''a'') (fe_name fe)) = Some (snd f)"
    "eval (receiver_env (Obj n fs0) (Obj n gs0)) i (Sel (Id ''b'') (fe_name fe)) = Some (snd g)" for i
    using Cons.prems(4,5) l fg by (simp_all add: receiver_env_def)
  have h: "decides (execs leq call (receiver_env (Obj n fs0) (Obj n gs0)) None (writeFieldComparison fe True))
      (same leq (snd f) (snd g)) (room < height (snd f))"
    using Cons.prems(1) by (intro field_decides [OF _ fg(3,4) e]) simp
  have t: "decides (execs leq call (receiver_env (Obj n fs0) (Obj n gs0)) None (concat (map (\<lambda>fe. writeFieldComparison fe True) fes)))
      (same_fields leq fs' gs') (room < fields_height fs')"
    using Cons.prems l by (intro Cons.IH) simp_all
  show ?case using decides_then [OF h t] l fg by (simp add: execs_append less_max_iff_disj)
qed simp

lemma spec_for_set: "spec_for specs n = Some sp \<Longrightarrow> sp \<in> set specs \<and> em_type_name sp = n"
  by (auto simp: spec_for_def find_Some_iff)

lemma run_equal_decides:
  assumes "fits k el specs n v" and "fits k el specs n w"
    and "\<forall>sp \<in> set specs. em_max_depth sp = M" and "d \<le> M + 1" and "nat (M + 1 - d) < fuel"
  shows "decides (run_equal leq specs fuel d True v w) (same leq v w) (nat (M + 1 - d) < height v)"
  using assms
proof (induction fuel arbitrary: k n v w d)
  case (Suc fuel)
  obtain j where k: "k = Suc j" using Suc.prems(1) by (cases k) auto
  obtain fs gs sp where v: "v = Obj n fs" "w = Obj n gs" "spec_for specs n = Some sp" "em_depth_tracking sp"
    and d: "distinct (map fst fs)" "distinct (map fst gs)"
    and l: "list_all2 (\<lambda>fe f. fst f = fe_name fe \<and> fits_field (fits j el specs (el n (fe_name fe))) fe (snd f)) (em_fields sp) fs"
      "list_all2 (\<lambda>fe f. fst f = fe_name fe \<and> fits_field (fits j el specs (el n (fe_name fe))) fe (snd f)) (em_fields sp) gs"
    using Suc.prems(1,2) unfolding k by (auto split: gval.splits option.splits)
  have M: "em_max_depth sp = M" using Suc.prems(3) spec_for_set [OF v(3)] by blast
  show ?case
  proof (cases "d = M + 1")
    case True
    then show ?thesis using v M by (simp add: decides_def)
  next
    case False
    then have dM: "d \<le> M" using Suc.prems(4) by simp
    have r: "nat (M + 1 - d) = Suc (nat (M + 1 - (d + 1)))" using dM by linarith
    have "nested_decides leq (fits j el specs (el n (fe_name fe))) (run_equal leq specs fuel (d + 1)) (nat (M + 1 - (d + 1)))" for fe
      unfolding nested_decides_def using Suc.prems(3,5) dM by (intro allI impI Suc.IH) auto
    then have "decides (execs leq (run_equal leq specs fuel (d + 1)) (receiver_env (Obj n fs) (Obj n gs)) None
        (concat (map (\<lambda>fe. writeFieldComparison fe True) (em_fields sp)))) (same_fields leq fs gs) (nat (M + 1 - (d + 1)) < fields_height fs)"
      using d by (intro fields_decide [OF _ l]) auto
    then show ?thesis using v M dM r by (simp add: equal_body_def)
  qed
qed simp

end
