(* ===== verification/EqualityHash.thy ===== *)
theory EqualityHash
  imports EqualityProps
begin

text \<open>
  The method \<open>Hash\<close> and the loop of \<open>validateUnique\<close>: equal values have equal hashes, and the loop, which compares an
  item only with those of its bucket, finds the first item that equals one before it.
\<close>

section \<open>Equal values hash alike\<close>

text \<open>
  The parts of a value that \<open>Hash\<close> prints: fields that are no structs, wrapped values that are shown and no structs, and
  the items of arrays and maps, structs among them.
\<close>

fun printed :: "'a gval \<Rightarrow> 'a gval list" and printed_fields :: "(string \<times> 'a gval) list \<Rightarrow> 'a gval list" where
  "printed (Obj n fs) = printed_fields fs"
| "printed (Slice xs) = xs"
| "printed (Entries m) = map snd m"
| "printed (Ref None) = []"
| "printed (Ref (Some v)) = printed v"
| "printed (Wrap s nu v) = (if s = Some False \<or> nu = Some True then [] else case v of Obj n fs \<Rightarrow> printed v | _ \<Rightarrow> [v])"
| "printed (Leaf x) = [Leaf x]"
| "printed (Bytes x) = [Bytes x]"
| "printed (Flag x) = [Flag x]"
| "printed_fields [] = []"
| "printed_fields (f # fs) = printed (snd f) @ printed_fields fs"

text \<open>What the hashes rely on: of some parts, \<open>%v\<close> prints those that are equal alike.\<close>

definition prints_alike :: "('a \<Rightarrow> 'a \<Rightarrow> bool) \<Rightarrow> ('a gval \<Rightarrow> bytes) \<Rightarrow> 'a gval set \<Rightarrow> bool" where
  "prints_alike leq fmtv A \<longleftrightarrow> (\<forall>x \<in> A. \<forall>y \<in> A. same leq x y \<longrightarrow> fmtv x = fmtv y)"

text \<open>A pointer inside a value is printed as its address.\<close>

fun pointer_free :: "'a gval \<Rightarrow> bool" where
  "pointer_free (Obj n fs) \<longleftrightarrow> list_all (\<lambda>f. pointer_free (snd f)) fs"
| "pointer_free (Slice xs) \<longleftrightarrow> list_all pointer_free xs"
| "pointer_free (Entries m) \<longleftrightarrow> list_all (\<lambda>e. pointer_free (snd e)) m"
| "pointer_free (Ref r) \<longleftrightarrow> r = None"
| "pointer_free (Wrap s nu v) \<longleftrightarrow> pointer_free v"
| "pointer_free v \<longleftrightarrow> True"

lemma printsD: "prints_alike leq fmtv A \<Longrightarrow> x \<in> A \<Longrightarrow> y \<in> A \<Longrightarrow> same leq x y \<Longrightarrow> fmtv x = fmtv y"
  by (simp add: prints_alike_def)

lemma same_entries_iff:
  "same_entries leq m m' \<longleftrightarrow> (\<forall>e \<in> set m. \<exists>y. map_of m' (fst e) = Some y \<and> same leq (snd e) y)"
  by (induction m) (auto split: option.splits)

lemma same_map_keys:
  assumes "same leq (Entries m) (Entries m')" and "leaf_entries m" and "leaf_entries m'"
  shows "sorted_keys m = sorted_keys m'"
proof -
  have d: "distinct (map fst m)" "distinct (map fst m')" using assms(2,3) by (simp_all add: leaf_entries_def)
  have se: "same_entries leq m m'" and len: "length m = length m'" using assms(1) by simp_all
  have sub: "set (map fst m) \<subseteq> set (map fst m')"
  proof
    fix k
    assume "k \<in> set (map fst m)"
    then obtain e where "e \<in> set m" "fst e = k" by auto
    then obtain y where "map_of m' k = Some y" using se unfolding same_entries_iff by blast
    then have "(k, y) \<in> set m'" by (rule map_of_SomeD)
    then show "k \<in> set (map fst m')" by force
  qed
  have "card (set (map fst m)) = card (set (map fst m'))"
    using distinct_card [OF d(1)] distinct_card [OF d(2)] len by simp
  then have s: "set (map fst m) = set (map fst m')"
    by (intro card_subset_eq sub) simp
  show ?thesis unfolding sorted_keys_def
    by (rule sorted_distinct_set_unique) (use d s in simp_all)
qed

lemma same_map_values:
  assumes "same leq (Entries m) (Entries m')" and "distinct (map fst m)" and "k \<in> fst ` set m"
  shows "same leq (the (map_of m k)) (the (map_of m' k))"
proof -
  obtain x where x: "(k, x) \<in> set m" using assms(3) by auto
  then obtain y where "map_of m' k = Some y" "same leq x y" using assms(1) by (force simp: same_entries_iff)
  moreover have "map_of m k = Some x" using x assms(2) by simp
  ultimately show ?thesis by simp
qed

lemma foldl_alike: "(\<And>x h. x \<in> set xs \<Longrightarrow> f h x = g h x) \<Longrightarrow> foldl f h xs = foldl g h xs"
  by (induction xs arbitrary: h) simp_all

lemma entries_hash_alike:
  assumes p: "prints_alike leq fmtv A" and s: "same leq (Entries m) (Entries m')" and l: "leaf_entries m" "leaf_entries m'"
    and A: "snd ` set m \<subseteq> A" "snd ` set m' \<subseteq> A"
  shows "foldl (\<lambda>h k. fnv_write (fmtv (the (map_of m k))) (fnv_write k h)) h (sorted_keys m)
    = foldl (\<lambda>h k. fnv_write (fmtv (the (map_of m' k))) (fnv_write k h)) h (sorted_keys m')"
proof -
  have d: "distinct (map fst m)" using l by (simp add: leaf_entries_def)
  have "fmtv (the (map_of m k)) = fmtv (the (map_of m' k))" if "k \<in> set (sorted_keys m)" for k
  proof -
    have "set (sorted_keys m) = fst ` set m" "set (sorted_keys m') = fst ` set m'" by (simp_all add: sorted_keys_def)
    then have k: "k \<in> fst ` set m" "k \<in> fst ` set m'" using that same_map_keys [OF s l] by simp_all
    have "the (map_of n k) \<in> snd ` set n" if kn: "k \<in> fst ` set n" for n :: "(string \<times> 'a gval) list"
    proof -
      obtain x where "map_of n k = Some x" using kn by (cases "map_of n k") (auto simp: map_of_eq_None_iff)
      then show ?thesis using map_of_SomeD [of n k x] by force
    qed
    then show ?thesis using same_map_values [OF s d k(1)] A k by (intro printsD [OF p]) blast+
  qed
  then show ?thesis unfolding same_map_keys [OF s l, symmetric] by (intro foldl_alike) simp
qed

lemma items_hash_alike:
  assumes p: "prints_alike leq fmtv A" and s: "same_items leq xs ys" and A: "set xs \<subseteq> A" "set ys \<subseteq> A"
  shows "foldl (\<lambda>h x. fnv_write (fmtv x) h) h xs = foldl (\<lambda>h x. fnv_write (fmtv x) h) h ys"
  using s A
proof (induction xs arbitrary: ys h)
  case (Cons x xs)
  then obtain y zs where ys: "ys = y # zs" "same leq x y" "same_items leq xs zs" by (auto split: list.splits)
  have "fmtv x = fmtv y" using Cons.prems(2,3) ys by (intro printsD [OF p]) simp_all
  then show ?case using Cons.IH [OF ys(3)] Cons.prems(2,3) ys(1) by simp
qed simp

text \<open>What is known of the hashes of nested structs.\<close>

definition nested_hash :: "('a \<Rightarrow> 'a \<Rightarrow> bool) \<Rightarrow> 'a gval set \<Rightarrow> ('a gval \<Rightarrow> bool) \<Rightarrow> ('a gval \<Rightarrow> hash option) \<Rightarrow> bool" where
  "nested_hash leq A nested call \<longleftrightarrow>
     (\<forall>x y. nested x \<longrightarrow> nested y \<longrightarrow> set (printed x) \<subseteq> A \<longrightarrow> set (printed y) \<subseteq> A \<longrightarrow> same leq x y
        \<longrightarrow> (\<exists>k. call x = Some k \<and> call y = Some k))
     \<and> (\<forall>x. nested x \<longrightarrow> (\<exists>n fs. x = Obj n fs))"

lemma nested_hashD:
  "nested_hash leq A nested call \<Longrightarrow> nested x \<Longrightarrow> nested y \<Longrightarrow> set (printed x) \<subseteq> A \<Longrightarrow> set (printed y) \<subseteq> A \<Longrightarrow> same leq x y
    \<Longrightarrow> \<exists>k. call x = Some k \<and> call y = Some k"
  unfolding nested_hash_def by blast

text \<open>The part of a wrapped value that is printed: itself, or the parts of a struct.\<close>

definition printed_value :: "'a gval \<Rightarrow> 'a gval list" where
  "printed_value v = (case v of Obj n fs \<Rightarrow> printed v | _ \<Rightarrow> [v])"

lemma printed_nested: "nested_hash leq A nested call \<Longrightarrow> nested v \<Longrightarrow> printed_value v = printed v"
  unfolding nested_hash_def printed_value_def by fastforce

lemma printed_plain:
  assumes "fits_wrapped nested fe v" and "\<not> fe_nested fe"
  shows "printed_value v = [v]"
proof -
  have "\<nexists>n fs. v = Obj n fs"
    using assms by (auto simp: fits_wrapped_def fits_map_def fits_items_def is_leaf_def split: if_splits)
  then show ?thesis by (cases v) (simp_all add: printed_value_def)
qed

text \<open>Statements that hash two values alike.\<close>

definition alike :: "('a gval \<Rightarrow> bytes) \<Rightarrow> ('a gval \<Rightarrow> hash option) \<Rightarrow> 'a gval \<Rightarrow> 'a gval \<Rightarrow> hstmt list \<Rightarrow> bool" where
  "alike fmtv call v w ss \<longleftrightarrow> (\<forall>h. \<exists>k. hash_execs fmtv call v ss h = Some k \<and> hash_execs fmtv call w ss h = Some k)"

lemma hash_execs_append:
  "hash_execs fmtv call v (ss @ ts) h = Option.bind (hash_execs fmtv call v ss h) (hash_execs fmtv call v ts)"
proof (induction ss arbitrary: h)
  case (Cons s ss)
  then show ?case by (cases "hash_exec fmtv call v s h") simp_all
qed simp

lemma alike_append: "alike fmtv call v w ss \<Longrightarrow> alike fmtv call v w ts \<Longrightarrow> alike fmtv call v w (ss @ ts)"
  unfolding alike_def
proof
  fix h
  assume a: "\<forall>h. \<exists>k. hash_execs fmtv call v ss h = Some k \<and> hash_execs fmtv call w ss h = Some k"
    and b: "\<forall>h. \<exists>k. hash_execs fmtv call v ts h = Some k \<and> hash_execs fmtv call w ts h = Some k"
  obtain k where k: "hash_execs fmtv call v ss h = Some k" "hash_execs fmtv call w ss h = Some k" using a by blast
  obtain l where "hash_execs fmtv call v ts k = Some l" "hash_execs fmtv call w ts k = Some l" using b by blast
  with k show "\<exists>k. hash_execs fmtv call v (ss @ ts) h = Some k \<and> hash_execs fmtv call w (ss @ ts) h = Some k"
    by (simp add: hash_execs_append)
qed

lemma wrapped_alike:
  assumes p: "prints_alike leq fmtv A" and n: "nested_hash leq A nested call"
    and f: "fits_wrapped nested fe x" "fits_wrapped nested fe y" and s: "same leq x y"
    and A: "set (printed_value x) \<subseteq> A" "set (printed_value y) \<subseteq> A"
    and e: "eval (receiver_env v v) None a = Some x" "eval (receiver_env w w) None a = Some y"
  shows "\<exists>k. hash_exec fmtv call v (hash_wrapped fe a) h = Some k \<and> hash_exec fmtv call w (hash_wrapped fe a) h = Some k"
proof (cases "fe_nested fe")
  case True
  then have n2: "nested x" "nested y" using f by (simp_all add: fits_wrapped_def)
  then obtain k where "call x = Some k" "call y = Some k"
    using nested_hashD [OF n n2 _ _ s] A printed_nested [OF n n2(1)] printed_nested [OF n n2(2)] by auto
  then show ?thesis using True e by (simp add: hash_wrapped_def)
next
  case False
  have "fmtv x = fmtv y"
    using A printed_plain [OF f(1) False] printed_plain [OF f(2) False] s by (intro printsD [OF p]) simp_all
  then show ?thesis using False e by (simp add: hash_wrapped_def)
qed

text \<open>A wrapper: the flag decides what is written, and both have the same.\<close>

lemma flag_alike:
  assumes "eval (receiver_env v v) None c = Some (Flag b)" and "eval (receiver_env w w) None c = Some (Flag b)"
    and "b \<Longrightarrow> alike fmtv call v w ss" and "\<not> b \<Longrightarrow> alike fmtv call v w ts"
  shows "alike fmtv call v w [HComment s, HIf (Holds c) ss ts]"
proof -
  have "hash_execs fmtv call u [HComment s, HIf (Holds c) ss ts] h = hash_execs fmtv call u (if b then ss else ts) h"
    if "eval (receiver_env u u) None c = Some (Flag b)" for u h
    using that by (cases b; cases "hash_execs fmtv call u ss h"; cases "hash_execs fmtv call u ts h") (simp_all add: flag_of_def)
  then show ?thesis using assms unfolding alike_def by (cases b) (simp_all del: hash_execs.simps)
qed

lemma single_alike:
  "(\<And>h. \<exists>k. hash_exec fmtv call v s h = Some k \<and> hash_exec fmtv call w s h = Some k) \<Longrightarrow> alike fmtv call v w [s]"
  unfolding alike_def by (metis hash_execs.simps bind.bind_lunit)

lemma byte_alike: "alike fmtv call v w [HByte k]"
  by (simp add: alike_def)

lemma comment_alike: "alike fmtv call v w ss \<Longrightarrow> alike fmtv call v w (HComment s # ss)"
  by (simp add: alike_def)

lemma cons_alike: "alike fmtv call v w [s] \<Longrightarrow> alike fmtv call v w ss \<Longrightarrow> alike fmtv call v w (s # ss)"
  using alike_append [of fmtv call v w "[s]" ss] by simp

lemma print_alike:
  assumes "prints_alike leq fmtv A" and "same leq x y" and "x \<in> A" and "y \<in> A"
    and "eval (receiver_env v v) None a = Some x" and "eval (receiver_env w w) None a = Some y"
  shows "alike fmtv call v w [HPrint a]"
  using printsD [OF assms(1,3,4,2)] assms(5,6) by (intro single_alike) simp

lemma optional_alike:
  assumes p: "prints_alike leq fmtv A" and n: "nested_hash leq A nested call" and c: "fe_category fe = FieldTypeOptional"
    and A: "set (printed x) \<subseteq> A" "set (printed y) \<subseteq> A"
    and f: "fits_field nested fe x" "fits_field nested fe y" and s: "same leq x y"
    and e: "eval (receiver_env v v) None (Sel (Id ''a'') (fe_name fe)) = Some x"
      "eval (receiver_env w w) None (Sel (Id ''a'') (fe_name fe)) = Some y"
  shows "alike fmtv call v w (writeFieldHash fe)"
proof -
  obtain b nu u b' nu' u' where x: "x = Wrap (Some b) nu u" "y = Wrap (Some b') nu' u'" "nu \<noteq> Some True" "nu' \<noteq> Some True"
    and g: "\<not> b \<or> fits_wrapped nested fe u" "\<not> b' \<or> fits_wrapped nested fe u'"
    using f c by (auto simp: fits_field_def split: gval.splits option.splits)
  have b: "b' = b" "b \<Longrightarrow> same leq u u'" using s x by auto
  have A': "b \<Longrightarrow> set (printed_value u) \<subseteq> A" "b \<Longrightarrow> set (printed_value u') \<subseteq> A"
    using A b(1) x by (simp_all add: printed_value_def split: gval.splits)
  have v: "eval (receiver_env v v) None (Sel (Sel (Id ''a'') (fe_name fe)) ''Value'') = Some u"
    "eval (receiver_env w w) None (Sel (Sel (Id ''a'') (fe_name fe)) ''Value'') = Some u'"
    "eval (receiver_env v v) None (Sel (Sel (Id ''a'') (fe_name fe)) ''Set'') = Some (Flag b)"
    "eval (receiver_env w w) None (Sel (Sel (Id ''a'') (fe_name fe)) ''Set'') = Some (Flag b)"
    using e b(1) unfolding x eval.simps(2) [of _ _ "Sel _ _"] by simp_all
  have "alike fmtv call v w [HByte 1, hash_wrapped fe (Sel (Sel (Id ''a'') (fe_name fe)) ''Value'')]" if "b"
    using g b that A' by (intro cons_alike [OF byte_alike] single_alike wrapped_alike [OF p n _ _ _ _ _ v(1,2)]) simp_all
  then show ?thesis unfolding writeFieldHash_def Let_def c field_category.case
    by (rule flag_alike [OF v(3,4) _ byte_alike])
qed

lemma nullable_alike:
  assumes p: "prints_alike leq fmtv A" and n: "nested_hash leq A nested call" and c: "fe_category fe = FieldTypeNullable"
    and A: "set (printed x) \<subseteq> A" "set (printed y) \<subseteq> A"
    and f: "fits_field nested fe x" "fits_field nested fe y" and s: "same leq x y"
    and e: "eval (receiver_env v v) None (Sel (Id ''a'') (fe_name fe)) = Some x"
      "eval (receiver_env w w) None (Sel (Id ''a'') (fe_name fe)) = Some y"
  shows "alike fmtv call v w (writeFieldHash fe)"
proof -
  obtain b u b' u' where x: "x = Wrap None (Some b) u" "y = Wrap None (Some b') u'"
    and g: "b \<or> fits_wrapped nested fe u" "b' \<or> fits_wrapped nested fe u'"
    using f c by (auto simp: fits_field_def split: gval.splits option.splits)
  have b: "b' = b" "\<not> b \<Longrightarrow> same leq u u'" using s x by auto
  have A': "\<not> b \<Longrightarrow> set (printed_value u) \<subseteq> A" "\<not> b \<Longrightarrow> set (printed_value u') \<subseteq> A"
    using A b(1) x by (simp_all add: printed_value_def split: gval.splits)
  have v: "eval (receiver_env v v) None (Sel (Sel (Id ''a'') (fe_name fe)) ''Value'') = Some u"
    "eval (receiver_env w w) None (Sel (Sel (Id ''a'') (fe_name fe)) ''Value'') = Some u'"
    "eval (receiver_env v v) None (Sel (Sel (Id ''a'') (fe_name fe)) ''Null'') = Some (Flag b)"
    "eval (receiver_env w w) None (Sel (Sel (Id ''a'') (fe_name fe)) ''Null'') = Some (Flag b)"
    using e b(1) unfolding x eval.simps(2) [of _ _ "Sel _ _"] by simp_all
  have "alike fmtv call v w [HByte 1, hash_wrapped fe (Sel (Sel (Id ''a'') (fe_name fe)) ''Value'')]" if "\<not> b"
    using g b that A' by (intro cons_alike [OF byte_alike] single_alike wrapped_alike [OF p n _ _ _ _ _ v(1,2)]) simp_all
  then show ?thesis unfolding writeFieldHash_def Let_def c field_category.case
    by (rule flag_alike [OF v(3,4) byte_alike])
qed

lemma pointer_alike:
  assumes p: "prints_alike leq fmtv A" and s: "same leq (Ref r) (Ref r')"
    and l: "\<And>u. r = Some u \<Longrightarrow> is_leaf u \<and> u \<in> A" "\<And>u. r' = Some u \<Longrightarrow> is_leaf u \<and> u \<in> A"
    and e: "eval (receiver_env v v) None a = Some (Ref r)" "eval (receiver_env w w) None a = Some (Ref r')"
  shows "alike fmtv call v w [HComment c, HIf (NotNil a) [HByte 1, HPrint (Deref a)] [HByte 0]]"
proof (cases r)
  case None
  then have "r' = None" using s by (cases r') simp_all
  then show ?thesis using None e by (simp add: alike_def)
next
  case (Some x)
  then obtain y where y: "r' = Some y" "same leq x y" using s by (cases r') simp_all
  then have "fmtv x = fmtv y" using l Some by (intro printsD [OF p]) simp_all
  then show ?thesis using Some y e by (simp add: alike_def)
qed

lemma field_alike:
  assumes p: "prints_alike leq fmtv A" and n: "nested_hash leq A nested call"
    and f: "fits_field nested fe x" "fits_field nested fe y" and s: "same leq x y"
    and A: "set (printed x) \<subseteq> A" "set (printed y) \<subseteq> A"
    and e: "eval (receiver_env v v) None (Sel (Id ''a'') (fe_name fe)) = Some x"
      "eval (receiver_env w w) None (Sel (Id ''a'') (fe_name fe)) = Some y"
  shows "alike fmtv call v w (writeFieldHash fe)"
proof (cases "fe_category fe")
  case FieldTypePrimitive
  then have "x \<in> A" "y \<in> A" using f A by (auto simp: fits_field_def split: gval.splits)
  then show ?thesis unfolding writeFieldHash_def Let_def FieldTypePrimitive
    using comment_alike [OF print_alike [OF p s _ _ e]] by (simp del: eval.simps)
next
  case FieldTypeOptional
  then show ?thesis by (rule optional_alike [OF p n _ A f s e])
next
  case FieldTypeNullable
  then show ?thesis by (rule nullable_alike [OF p n _ A f s e])
next
  case FieldTypePointer
  obtain r r' where x: "x = Ref r" "y = Ref r'"
    using f FieldTypePointer by (auto simp: fits_field_def split: gval.splits)
  show ?thesis unfolding writeFieldHash_def Let_def FieldTypePointer field_category.case
  proof (rule pointer_alike [OF p s [unfolded x]])
    show "is_leaf u \<and> u \<in> A" if "r = Some u" for u
      using that f(1) A(1) FieldTypePointer unfolding x by (auto simp: fits_field_def elim!: is_leafE)
    show "is_leaf u \<and> u \<in> A" if "r' = Some u" for u
      using that f(2) A(2) FieldTypePointer unfolding x by (auto simp: fits_field_def elim!: is_leafE)
  qed (use e x in simp_all)
next
  case FieldTypeArray
  obtain xs ys where x: "x = Slice xs" "y = Slice ys"
    using f FieldTypeArray by (auto simp: fits_field_def elim!: fits_itemsE)
  show ?thesis using e s items_hash_alike [OF p, of xs ys] A
    unfolding x writeFieldHash_def Let_def FieldTypeArray field_category.case
    by (intro comment_alike single_alike) simp
next
  case FieldTypeMap
  obtain m m' where x: "x = Entries m" "y = Entries m'" "leaf_entries m" "leaf_entries m'"
    using f FieldTypeMap by (auto simp: fits_field_def elim!: fits_mapE)
  show ?thesis using e entries_hash_alike [OF p s [unfolded x(1,2)] x(3,4)] A
    unfolding x(1,2) writeFieldHash_def Let_def FieldTypeMap field_category.case
    by (intro comment_alike single_alike) (simp del: eval.simps)
next
  case FieldTypeNestedObject
  then have n2: "nested x" "nested y" using f by (simp_all add: fits_field_def)
  then obtain k where "call x = Some k" "call y = Some k" using nested_hashD [OF n n2 A s] by blast
  then show ?thesis using e unfolding writeFieldHash_def Let_def FieldTypeNestedObject field_category.case
    by (intro comment_alike single_alike) (simp del: eval.simps)
qed

lemma fields_alike:
  assumes p: "prints_alike leq fmtv A" and n: "\<forall>fe \<in> set fes. nested_hash leq A (nest fe) call"
    and l: "list_all2 (\<lambda>fe f. fst f = fe_name fe \<and> fits_field (nest fe) fe (snd f)) fes fs"
      "list_all2 (\<lambda>fe f. fst f = fe_name fe \<and> fits_field (nest fe) fe (snd f)) fes gs"
    and s: "same_fields leq fs gs"
    and m: "\<forall>f \<in> set fs. map_of fs0 (fst f) = Some (snd f)" "\<forall>g \<in> set gs. map_of gs0 (fst g) = Some (snd g)"
    and A: "set (printed_fields fs) \<subseteq> A" "set (printed_fields gs) \<subseteq> A"
  shows "alike fmtv call (Obj name fs0) (Obj name gs0) (concat (map writeFieldHash fes))"
  using n l s m A
proof (induction fes arbitrary: fs gs)
  case Nil
  then show ?case by (simp add: alike_def)
next
  case (Cons fe fes)
  obtain f fs' g gs' where l: "fs = f # fs'" "gs = g # gs'" using Cons.prems(2,3) by (auto simp: list_all2_Cons1)
  have fg: "fst f = fe_name fe" "fst g = fe_name fe" "fits_field (nest fe) fe (snd f)" "fits_field (nest fe) fe (snd g)"
    and s: "same leq (snd f) (snd g)" "same_fields leq fs' gs'"
    using Cons.prems(2-4) l by simp_all
  have e: "eval (receiver_env (Obj name fs0) (Obj name fs0)) None (Sel (Id ''a'') (fe_name fe)) = Some (snd f)"
    "eval (receiver_env (Obj name gs0) (Obj name gs0)) None (Sel (Id ''a'') (fe_name fe)) = Some (snd g)"
    using Cons.prems(5,6) l fg by (simp_all add: receiver_env_def)
  have "alike fmtv call (Obj name fs0) (Obj name gs0) (writeFieldHash fe)"
    using Cons.prems(1,7,8) l by (intro field_alike [OF p _ fg(3,4) s(1) _ _ e]) simp_all
  moreover have "alike fmtv call (Obj name fs0) (Obj name gs0) (concat (map writeFieldHash fes))"
    by (rule Cons.IH) (use Cons.prems l s in auto)
  ultimately show ?case by (simp add: alike_append)
qed

lemma distinct_map_of: "distinct (map fst fs) \<Longrightarrow> \<forall>f \<in> set fs. map_of fs (fst f) = Some (snd f)"
  by auto

lemma run_hash_alike:
  assumes p: "prints_alike leq fmtv A" and f: "fits k el specs n v" "fits k el specs n w" and s: "same leq v w" and fuel: "k \<le> fuel"
    and A: "set (printed v) \<subseteq> A" "set (printed w) \<subseteq> A"
  shows "\<exists>h. run_hash fmtv specs fuel v = Some h \<and> run_hash fmtv specs fuel w = Some h"
  using f s fuel A
proof (induction fuel arbitrary: k n v w)
  case 0
  then show ?case by simp
next
  case (Suc fuel)
  obtain j where k: "k = Suc j" "j \<le> fuel" using Suc.prems(1,4) by (cases k) auto
  obtain fs gs sp where v: "v = Obj n fs" "w = Obj n gs" "spec_for specs n = Some sp"
    and d: "distinct (map fst fs)" "distinct (map fst gs)"
    and l: "list_all2 (\<lambda>fe f. fst f = fe_name fe \<and> fits_field (fits j el specs (el n (fe_name fe))) fe (snd f)) (em_fields sp) fs"
      "list_all2 (\<lambda>fe f. fst f = fe_name fe \<and> fits_field (fits j el specs (el n (fe_name fe))) fe (snd f)) (em_fields sp) gs"
    using Suc.prems(1,2) unfolding k(1) by (auto split: gval.splits option.splits)
  have sf: "same_fields leq fs gs" using Suc.prems(3) v by simp
  have obj: "fits j el specs m x \<Longrightarrow> \<exists>n fs. x = Obj n fs" for m x by (cases j; cases x) simp_all
  have "nested_hash leq A (fits j el specs m) (run_hash fmtv specs fuel)" for m
    unfolding nested_hash_def using Suc.IH [of j m, OF _ _ _ k(2)] obj by blast
  then have "alike fmtv (run_hash fmtv specs fuel) (Obj n fs) (Obj n gs) (hash_body sp)"
    unfolding hash_body_def using Suc.prems(5,6) v by (intro fields_alike [OF p _ l sf] ballI distinct_map_of d) simp_all
  then show ?case using v by (simp add: alike_def)
qed

text \<open>Whether there is a hash does not depend on the printed texts.\<close>

lemma hash_exec_defined:
  assumes "\<And>x. call x = None \<longleftrightarrow> call' x = None"
  shows "hash_exec fmtv call v s h = None \<longleftrightarrow> hash_exec fmtv' call' v s h' = None"
    and "hash_execs fmtv call v ss h = None \<longleftrightarrow> hash_execs fmtv' call' v ss h' = None"
  using assms
proof (induction fmtv call v s h and fmtv call v ss h arbitrary: h' and h' rule: hash_exec_hash_execs.induct)
  case (4 fmtv call v f e h)
  show ?case
  proof (cases "eval (receiver_env v v) None e")
    case (Some x)
    show ?thesis using "4.prems" [of x] Some by (cases "call x"; cases "call' x") simp_all
  qed simp
next
  case (5 fmtv call v c ss ts h)
  show ?case
  proof (cases "check (\<lambda>_ _. True) (\<lambda>_ _ _. Inl Stuck) (receiver_env v v) None c")
    case (Inr b)
    show ?thesis using "5.IH"(1) [OF Inr _ "5.prems", of h'] "5.IH"(2) [OF Inr _ "5.prems", of h'] Inr by (cases b) simp_all
  qed simp
next
  case (9 fmtv call v s ss h)
  show ?case
  proof (cases "hash_exec fmtv call v s h")
    case None
    then show ?thesis using "9.IH"(1) [OF "9.prems", of h'] by simp
  next
    case (Some k)
    then obtain k' where "hash_exec fmtv' call' v s h' = Some k'" using "9.IH"(1) [OF "9.prems", of h'] by auto
    then show ?thesis using "9.IH"(2) [OF Some "9.prems", of k'] Some by simp
  qed
qed (simp_all split: option.splits gval.splits)

lemma run_hash_defined: "run_hash fmtv specs n v = None \<longleftrightarrow> run_hash fmtv' specs n v = None"
proof (induction n arbitrary: v)
  case (Suc n)
  show ?case using hash_exec_defined(2) [of "run_hash fmtv specs n" "run_hash fmtv' specs n", OF Suc.IH]
    by (auto split: gval.splits option.splits)
qed simp

section \<open>Equality is reflexive where the leaves' is\<close>

lemma same_leaf_refl: "reflp leq \<Longrightarrow> is_leaf v \<Longrightarrow> same leq v v"
  by (erule is_leafE) (simp add: reflpD)

lemma same_map_refl:
  assumes "reflp leq" and "fits_map v"
  shows "same leq v v"
proof -
  obtain m where m: "v = Entries m" "leaf_entries m" using assms(2) by (rule fits_mapE)
  have "map_of m (fst e) = Some (snd e) \<and> same leq (snd e) (snd e)" if "e \<in> set m" for e
    using that m(2) same_leaf_refl [OF assms(1)] by (auto simp: leaf_entries_def list_all_iff)
  then show ?thesis unfolding m(1) same.simps by (auto simp: same_entries_iff)
qed

lemma same_items_refl: "\<forall>x \<in> set xs. same leq x x \<Longrightarrow> same_items leq xs xs"
  by (induction xs) simp_all

lemma same_field_refl:
  assumes l: "reflp leq" and n: "\<And>v. nested v \<Longrightarrow> same leq v v"
  shows "fits_field nested fe v \<Longrightarrow> same leq v v"
proof -
  note leaf = same_leaf_refl [OF l] and entries = same_map_refl [OF l]
  have item: "same leq x x" if f: "fits_item nested fe x" for x
  proof -
    have inner: "same leq u u" if "(if fe_array_of_structs fe then nested else is_leaf) u" for u
      using that n leaf by (cases "fe_array_of_structs fe") simp_all
    show ?thesis
    proof (cases "fe_array_of_nullable fe")
      case True
      then obtain nu u where x: "x = Wrap None (Some nu) u" "nu \<or> (if fe_array_of_structs fe then nested else is_leaf) u"
        using f by (auto simp: fits_item_def Let_def split: gval.splits option.splits)
      then show ?thesis using inner [of u] by auto
    next
      case False
      then show ?thesis using f by (intro inner) (simp add: fits_item_def Let_def)
    qed
  qed
  have items: "same leq x x" if f: "fits_items nested fe x" for x
  proof -
    obtain xs where xs: "x = Slice xs" "list_all (fits_item nested fe) xs" using f by (rule fits_itemsE)
    then show ?thesis using same_items_refl [of xs leq] item by (simp add: list_all_iff)
  qed
  have w: "same leq x x" if f: "fits_wrapped nested fe x" for x
    using f n [of x] items [of x] leaf [of x] entries [of x] by (simp only: fits_wrapped_def split: if_splits)
  assume f: "fits_field nested fe v"
  show "same leq v v"
  proof (cases "fe_category fe")
    case FieldTypePrimitive
    then show ?thesis using f l by (auto simp: fits_field_def reflpD split: gval.splits)
  next
    case FieldTypeOptional
    then obtain b nu u where "v = Wrap (Some b) nu u" "\<not> b \<or> fits_wrapped nested fe u"
      using f by (auto simp: fits_field_def split: gval.splits option.splits)
    then show ?thesis using w [of u] by auto
  next
    case FieldTypeNullable
    then obtain b u where "v = Wrap None (Some b) u" "b \<or> fits_wrapped nested fe u"
      using f by (auto simp: fits_field_def split: gval.splits option.splits)
    then show ?thesis using w [of u] by auto
  next
    case FieldTypePointer
    then obtain r where v: "v = Ref r" "\<And>u. r = Some u \<Longrightarrow> is_leaf u"
      using f by (auto simp: fits_field_def split: gval.splits option.splits)
    then show ?thesis using leaf by (cases r) simp_all
  next
    case FieldTypeArray
    then show ?thesis using f by (intro items) (simp add: fits_field_def)
  next
    case FieldTypeMap
    then show ?thesis using f by (intro entries) (simp add: fits_field_def)
  next
    case FieldTypeNestedObject
    then show ?thesis using f by (intro n) (simp add: fits_field_def)
  qed
qed

lemma same_fields_refl: "\<forall>f \<in> set fs. same leq (snd f) (snd f) \<Longrightarrow> same_fields leq fs fs"
  by (induction fs) simp_all

lemma same_refl:
  assumes l: "reflp leq"
  shows "fits k el specs n v \<Longrightarrow> same leq v v"
proof (induction k arbitrary: n v)
  case (Suc k)
  obtain fs sp where v: "v = Obj n fs" "spec_for specs n = Some sp"
    and a: "list_all2 (\<lambda>fe f. fst f = fe_name fe \<and> fits_field (fits k el specs (el n (fe_name fe))) fe (snd f)) (em_fields sp) fs"
    using Suc.prems by (auto split: gval.splits option.splits)
  have "same leq (snd f) (snd f)" if f: "f \<in> set fs" for f
  proof -
    obtain fe where "fits_field (fits k el specs (el n (fe_name fe))) fe (snd f)"
      using a f by (auto simp: list_all2_conv_all_nth in_set_conv_nth)
    then show ?thesis
      by (rule same_field_refl [OF l, rotated]) (rule Suc.IH)
  qed
  then show ?case using v same_fields_refl [of fs leq] by simp
qed simp

section \<open>The loop\<close>

text \<open>
  An interface: a test of equality and a hash, on some values, where equal values hash alike and the test answers. The
  loop relies on no more.
\<close>

locale hashed_values =
  fixes hash :: "'v \<Rightarrow> hash option" and eq :: "'v \<Rightarrow> 'v \<Rightarrow> run_err + bool"
    and ok :: "'v \<Rightarrow> bool" and eqv :: "'v \<Rightarrow> 'v \<Rightarrow> bool"
  assumes hashes: "ok x \<Longrightarrow> \<exists>h. hash x = Some h"
    and hash_alike: "ok x \<Longrightarrow> ok y \<Longrightarrow> eqv x y \<Longrightarrow> hash x = hash y"
    and decided: "ok x \<Longrightarrow> ok y \<Longrightarrow> eq x y = Inr (eqv x y)"
begin

lemma find_equal_answers:
  "ok item \<Longrightarrow> \<forall>e \<in> set bucket. ok (fst e) \<Longrightarrow>
   find_equal eq item bucket = Inr (map_option snd (find (\<lambda>e. eqv item (fst e)) bucket))"
  by (induction bucket) (auto simp: decided)

text \<open>The buckets hold the items before, each in the bucket of its hash.\<close>

definition bucketed :: "'v list \<Rightarrow> nat \<Rightarrow> (hash \<Rightarrow> ('v \<times> nat) list) \<Rightarrow> bool" where
  "bucketed items i buckets \<longleftrightarrow>
     (\<forall>h x j. (x, j) \<in> set (buckets h) \<longleftrightarrow> j < i \<and> j < length items \<and> x = items ! j \<and> hash x = Some h)"

definition repeats :: "'v list \<Rightarrow> nat \<Rightarrow> bool" where
  "repeats items i \<longleftrightarrow> (\<exists>j<i. eqv (items ! i) (items ! j))"

lemma bucketed_step:
  assumes "bucketed items i buckets" and "i < length items" and "hash (items ! i) = Some h"
  shows "bucketed items (Suc i) (buckets(h := buckets h @ [(items ! i, i)]))"
  using assms unfolding bucketed_def by (auto simp: less_Suc_eq)

lemma unique_loop_answers:
  assumes "\<forall>x \<in> set items. ok x" and "bucketed items i buckets" and "i + length rest = length items"
    and "rest = drop i items" and "\<forall>k<i. \<not> repeats items k"
  shows "case unique_loop hash eq i rest buckets of
      Inr None \<Rightarrow> \<forall>k<length items. \<not> repeats items k
    | Inr (Some (j, k)) \<Rightarrow> j < k \<and> k < length items \<and> eqv (items ! k) (items ! j) \<and> (\<forall>l<k. \<not> repeats items l)
    | Inl e \<Rightarrow> False"
  using assms
proof (induction rest arbitrary: i buckets)
  case Nil
  then show ?case by simp
next
  case (Cons item rest)
  have i: "i < length items" "item = items ! i" "rest = drop (Suc i) items"
  proof -
    show "i < length items" using Cons.prems(3) by simp
    then have "item # rest = items ! i # drop (Suc i) items" using Cons.prems(4) Cons_nth_drop_Suc [of i items] by metis
    then show "item = items ! i" "rest = drop (Suc i) items" by simp_all
  qed
  have ok: "ok item" using Cons.prems(1) i by simp
  obtain h where h: "hash item = Some h" using hashes [OF ok] by blast
  have inb: "(x, j) \<in> set (buckets h) \<longleftrightarrow> j < i \<and> x = items ! j \<and> hash x = Some h" for x j
    using Cons.prems(2) i(1) unfolding bucketed_def by auto
  have okb: "\<forall>e \<in> set (buckets h). ok (fst e)"
  proof
    fix e
    assume "e \<in> set (buckets h)"
    then have "snd e < i" "fst e = items ! snd e" using inb [of "fst e" "snd e"] by simp_all
    then show "ok (fst e)" using Cons.prems(1) i(1) by simp
  qed
  note f = find_equal_answers [OF ok okb]
  show ?case
  proof (cases "find (\<lambda>e. eqv item (fst e)) (buckets h)")
    case None
    have "\<not> repeats items i"
    proof
      assume "repeats items i"
      then obtain j where j: "j < i" "eqv item (items ! j)" using i by (auto simp: repeats_def)
      have "ok (items ! j)" using j(1) i(1) Cons.prems(1) by simp
      then have "hash (items ! j) = Some h" using hash_alike [OF ok _ j(2)] h by simp
      then have "(items ! j, j) \<in> set (buckets h)" using inb j(1) by simp
      with None j(2) show False by (auto simp: find_None_iff)
    qed
    then have r: "\<forall>k<Suc i. \<not> repeats items k" using Cons.prems(5) by (auto simp: less_Suc_eq)
    have b: "bucketed items (Suc i) (buckets(h := buckets h @ [(item, i)]))"
      using bucketed_step [OF Cons.prems(2) i(1)] h i(2) by simp
    have "case unique_loop hash eq (Suc i) rest (buckets(h := buckets h @ [(item, i)])) of
        Inr None \<Rightarrow> \<forall>k<length items. \<not> repeats items k
      | Inr (Some (j, k)) \<Rightarrow> j < k \<and> k < length items \<and> eqv (items ! k) (items ! j) \<and> (\<forall>l<k. \<not> repeats items l)
      | Inl e \<Rightarrow> False"
      by (rule Cons.IH [OF Cons.prems(1) b _ i(3) r]) (use Cons.prems(3) in simp)
    then show ?thesis using h f None by simp
  next
    case (Some e)
    obtain x j where e: "e = (x, j)" by (cases e)
    have "e \<in> set (buckets h)" "eqv item (fst e)" using Some by (auto simp: find_Some_iff)
    then have "j < i" "eqv item (items ! j)" using inb e by auto
    then show ?thesis using h f Some e i Cons.prems(5) by simp
  qed
qed

theorem run_unique_answers:
  assumes "\<forall>x \<in> set items. ok x"
  shows "case run_unique hash eq items of
      Inr None \<Rightarrow> \<forall>k<length items. \<not> repeats items k
    | Inr (Some (DuplicateItems j k)) \<Rightarrow> j < k \<and> k < length items \<and> eqv (items ! k) (items ! j) \<and> (\<forall>l<k. \<not> repeats items l)
    | _ \<Rightarrow> False"
proof (cases "length items \<le> 1")
  case True
  then show ?thesis by (auto simp: run_unique_def repeats_def)
next
  case False
  have "bucketed items 0 (\<lambda>_. [])" by (simp add: bucketed_def)
  from unique_loop_answers [OF assms this, of items] False show ?thesis
    by (auto simp: run_unique_def split: sum.splits option.splits)
qed

end

section \<open>The generated code is such values\<close>

definition checkable :: "('a \<Rightarrow> 'a \<Rightarrow> bool) \<Rightarrow> ('a gval \<Rightarrow> bytes) \<Rightarrow> 'a gval set \<Rightarrow> (string \<Rightarrow> string \<Rightarrow> string) \<Rightarrow> equality_spec list
    \<Rightarrow> nat \<Rightarrow> nat \<Rightarrow> string \<Rightarrow> 'a gval \<Rightarrow> bool" where
  "checkable leq fmtv A el specs k fuel n v \<longleftrightarrow>
     prints_alike leq fmtv A \<and> set (printed v) \<subseteq> A \<and> (\<forall>sp \<in> set specs. em_max_depth sp = maxEqualityDepth)
     \<and> k \<le> fuel \<and> 12 \<le> fuel \<and> fits k el specs n v \<and> height v \<le> 11"

lemma checkable_equal:
  assumes "checkable leq fmtv A el specs k fuel n v" and "checkable leq fmtv A el specs k fuel n w"
  shows "run_equal leq specs fuel 0 True v w = Inr (same leq v w)"
  using run_equal_decides [of k el specs n v w maxEqualityDepth 0 fuel leq] assms
  by (auto simp: checkable_def maxEqualityDepth_def decides_def)

lemma fits_hashed:
  assumes "fits k el specs n v" and "k \<le> fuel"
  shows "\<exists>h. run_hash fmtv specs fuel v = Some h"
proof -
  have "prints_alike (=) (\<lambda>_. []) UNIV" by (simp add: prints_alike_def)
  moreover have "reflp (=)" by (simp add: reflp_def)
  ultimately have "\<exists>h. run_hash (\<lambda>_. []) specs fuel v = Some h"
    using run_hash_alike [of "(=)" "\<lambda>_. []" UNIV k el specs n v v fuel] same_refl [of "(=)" k el specs n v] assms by auto
  then show ?thesis using run_hash_defined [of fmtv specs fuel v "\<lambda>_. []"] by auto
qed

interpretation generated: hashed_values "run_hash fmtv specs fuel" "run_equal leq specs fuel 0 True"
    "checkable leq fmtv A el specs k fuel n" "same leq"
  for fmtv :: "'a gval \<Rightarrow> bytes" and specs fuel leq el k n A
proof
  fix x y
  assume x: "checkable leq fmtv A el specs k fuel n x"
  then have f: "fits k el specs n x" and p: "prints_alike leq fmtv A" "set (printed x) \<subseteq> A" "k \<le> fuel" by (simp_all add: checkable_def)
  show "\<exists>h. run_hash fmtv specs fuel x = Some h" by (rule fits_hashed [OF f p(3)])
  assume y: "checkable leq fmtv A el specs k fuel n y"
  then have g: "fits k el specs n y" "set (printed y) \<subseteq> A" by (simp_all add: checkable_def)
  show "run_equal leq specs fuel 0 True x y = Inr (same leq x y)" by (rule checkable_equal [OF x y])
  assume "same leq x y"
  from run_hash_alike [OF p(1) f g(1) this p(3,2) g(2)] show "run_hash fmtv specs fuel x = run_hash fmtv specs fuel y" by auto
qed

end
