(* ===== verification/EqualityDetect.thy ===== *)
theory EqualityDetect
  imports Equality
begin

text \<open>
  The search for types that need equality: what it adds is described once, and it is closed, so every method that the
  code it describes calls is generated, and so is the validator of every array of structs with unique items.
\<close>

section \<open>Names\<close>

definition plain :: "store \<Rightarrow> tref \<Rightarrow> bool" where
  "plain st a \<longleftrightarrow> a < length st \<and> ty_kind (st ! a) = KindStruct \<and> \<not> wrapper_name (ty_name (st ! a))"

text \<open>The name of a struct names no other type.\<close>

definition named_apart :: "store \<Rightarrow> bool" where
  "named_apart st \<longleftrightarrow> (\<forall>a b. plain st a \<longrightarrow> b < length st \<longrightarrow> ty_name (st ! a) = ty_name (st ! b) \<longrightarrow> ty_name (st ! a) \<noteq> [] \<longrightarrow> a = b)"

definition in_store :: "store \<Rightarrow> tref option \<Rightarrow> bool" where
  "in_store st p \<longleftrightarrow> (\<forall>a. p = Some a \<longrightarrow> a < length st)"

lemma in_store_simps [simp]: "in_store st None" "in_store st (Some a) \<longleftrightarrow> a < length st"
  by (simp_all add: in_store_def)

lemma sound_links:
  assumes "sound_store st" and "a < length st"
  shows "ty_kind (st ! a) = KindGeneric \<Longrightarrow> in_store st (ty_generic_of (st ! a))"
    and "ty_kind (st ! a) = KindArray \<Longrightarrow> in_store st (ty_item (st ! a))"
    and "ty_kind (st ! a) = KindAlias \<Longrightarrow> in_store st (ty_alias_to (st ! a))"
    and "ty_kind (st ! a) = KindStruct \<Longrightarrow> f \<in> set (ty_fields (st ! a)) \<Longrightarrow> in_store st (fd_type f)"
    and "ty_kind (st ! a) = KindSum \<Longrightarrow> q \<in> set (ty_sum_of (st ! a)) \<Longrightarrow> in_store st q"
  using sound_children [OF assms] by (force simp: feature_children_def)+

lemma value_field_in: "value_field t = Some f \<Longrightarrow> f \<in> set (ty_fields t)"
  by (auto simp: value_field_def find_Some_iff)

text \<open>The struct a type stands for, through wrappers, arrays and aliases.\<close>

inductive leads :: "store \<Rightarrow> tref option \<Rightarrow> tref \<Rightarrow> bool" for st where
  itself: "plain st a \<Longrightarrow> leads st (Some a) a"
| generic: "ty_kind (st ! a) = KindGeneric \<Longrightarrow> leads st (ty_generic_of (st ! a)) b \<Longrightarrow> leads st (Some a) b"
| array: "ty_kind (st ! a) = KindArray \<Longrightarrow> leads st (ty_item (st ! a)) b \<Longrightarrow> leads st (Some a) b"
| through: "ty_kind (st ! a) = KindAlias \<Longrightarrow> leads st (ty_alias_to (st ! a)) b \<Longrightarrow> leads st (Some a) b"
| wrapper: "ty_kind (st ! a) = KindStruct \<Longrightarrow> wrapper_name (ty_name (st ! a)) \<Longrightarrow> value_field (st ! a) = Some f
    \<Longrightarrow> leads st (fd_type f) b \<Longrightarrow> leads st (Some a) b"

inductive_simps leads_None [simp]: "leads st None b"
inductive_simps leads_Some: "leads st (Some a) b"

lemma leads_plain: "plain st a \<Longrightarrow> leads st (Some a) b \<longleftrightarrow> b = a"
  by (auto simp: leads_Some plain_def)

definition targets :: "store \<Rightarrow> tref option \<Rightarrow> string set" where
  "targets st p = {ty_name (st ! b) | b. leads st p b \<and> ty_name (st ! b) \<noteq> []}"

lemma targets_None [simp]: "targets st None = {}"
  by (simp add: targets_def)

lemma targets_plain: "plain st a \<Longrightarrow> targets st (Some a) = {ty_name (st ! a)} - {[]}"
  by (auto simp: targets_def leads_plain)

lemma targets_through:
  "ty_kind (st ! a) = KindGeneric \<Longrightarrow> targets st (Some a) = targets st (ty_generic_of (st ! a))"
  "ty_kind (st ! a) = KindArray \<Longrightarrow> targets st (Some a) = targets st (ty_item (st ! a))"
  "ty_kind (st ! a) = KindAlias \<Longrightarrow> targets st (Some a) = targets st (ty_alias_to (st ! a))"
  by (simp_all add: targets_def leads_Some plain_def)

lemma targets_wrapper:
  "ty_kind (st ! a) = KindStruct \<Longrightarrow> wrapper_name (ty_name (st ! a)) \<Longrightarrow>
   targets st (Some a) = (case value_field (st ! a) of Some f \<Rightarrow> targets st (fd_type f) | None \<Rightarrow> {})"
  by (simp add: targets_def leads_Some plain_def split: option.splits)

lemma targets_other:
  "ty_kind (st ! a) \<notin> {KindGeneric, KindArray, KindAlias, KindStruct} \<Longrightarrow> targets st (Some a) = {}"
  by (simp add: targets_def leads_Some plain_def)

section \<open>What a step of the search adds\<close>

definition field_targets :: "store \<Rightarrow> tref \<Rightarrow> string set" where
  "field_targets st a = (\<Union>f \<in> set (ty_fields (st ! a)). targets st (fd_type f))"

text \<open>The fields of the structs named in \<open>V\<close> stand for structs named in \<open>W\<close>.\<close>

definition closed_names :: "store \<Rightarrow> string set \<Rightarrow> string set \<Rightarrow> bool" where
  "closed_names st V W \<longleftrightarrow> (\<forall>a. plain st a \<longrightarrow> ty_name (st ! a) \<in> V \<longrightarrow> field_targets st a \<subseteq> W)"

abbreviation visited :: "equality_state \<Rightarrow> string set" where "visited g \<equiv> set (es_visited g)"
abbreviation described :: "equality_state \<Rightarrow> string set" where "described g \<equiv> spec_names (es_specs g)"

definition advances :: "store \<Rightarrow> equality_state \<Rightarrow> equality_state \<Rightarrow> bool" where
  "advances st g g' \<longleftrightarrow> visited g \<subseteq> visited g' \<and> described g \<subseteq> described g' \<and> visited g' - visited g \<subseteq> described g'
     \<and> (\<forall>x \<in> visited g' - visited g. x \<noteq> [] \<and> (\<exists>a. plain st a \<and> ty_name (st ! a) = x))
     \<and> described g' - described g \<subseteq> visited g'
     \<and> closed_names st (visited g' - visited g) (visited g')"

lemma advances_refl [simp]: "advances st g g"
  by (auto simp: advances_def closed_names_def)

lemma closed_names_join:
  "closed_names st (B - A) B \<Longrightarrow> closed_names st (C - B) C \<Longrightarrow> B \<subseteq> C \<Longrightarrow> closed_names st (C - A) C"
  unfolding closed_names_def by (metis Diff_iff dual_order.trans)

lemma closed_names_via:
  "closed_names st (B - A) C \<Longrightarrow> closed_names st (C - B) C \<Longrightarrow> closed_names st (C - A) C"
  unfolding closed_names_def by (metis Diff_iff)

lemma advances_trans:
  assumes "advances st g g'" and "advances st g' g''"
  shows "advances st g g''"
proof -
  note a = assms(1) [unfolded advances_def] and b = assms(2) [unfolded advances_def]
  have c: "closed_names st (visited g'' - visited g) (visited g'')"
    using a b by (intro closed_names_join [of st "visited g'" "visited g" "visited g''"]) simp_all
  have "visited g'' - visited g \<subseteq> described g''" "described g'' - described g \<subseteq> visited g''"
    "visited g \<subseteq> visited g''" "described g \<subseteq> described g''" using a b by auto
  moreover have "\<forall>x \<in> visited g'' - visited g. x \<noteq> [] \<and> (\<exists>a. plain st a \<and> ty_name (st ! a) = x)"
    using a b by (metis Diff_iff)
  ultimately show ?thesis using c by (simp add: advances_def)
qed

lemma each_res_invariant:
  assumes "each_res f xs s = Inr s'" and "P s" and "\<And>x s s'. x \<in> set xs \<Longrightarrow> P s \<Longrightarrow> f x s = Inr s' \<Longrightarrow> P s'"
  shows "P s'"
  using assms by (induction xs arbitrary: s) auto

text \<open>Each element leaves something behind that later ones keep.\<close>

lemma each_res_leaves:
  assumes "each_res f xs s = Inr s'" and "P s"
    and "\<And>x s s'. x \<in> set xs \<Longrightarrow> P s \<Longrightarrow> f x s = Inr s' \<Longrightarrow> P s' \<and> Q x s'"
    and "\<And>x y s s'. y \<in> set xs \<Longrightarrow> P s \<Longrightarrow> Q x s \<Longrightarrow> f y s = Inr s' \<Longrightarrow> Q x s'"
  shows "P s' \<and> (\<forall>x \<in> set xs. Q x s')"
  using assms
proof (induction xs arbitrary: s)
  case Nil
  show ?case using Nil.prems(1,2) by simp
next
  case (Cons x xs)
  obtain t where t: "f x s = Inr t" "each_res f xs t = Inr s'" using Cons.prems(1) by auto
  have p: "P t" "Q x t" using Cons.prems(3) [OF _ Cons.prems(2) t(1)] by simp_all
  have "P s' \<and> (\<forall>x \<in> set xs. Q x s')"
  proof (rule Cons.IH [OF t(2) p(1)])
    show "P u' \<and> Q y u'" if "y \<in> set xs" "P u" "f y u = Inr u'" for y u u'
      using Cons.prems(3) [of y u u'] that by simp
    show "Q z u'" if "y \<in> set xs" "P u" "Q z u" "f y u = Inr u'" for z y u u'
      using Cons.prems(4) [of y u z u'] that by simp
  qed
  moreover have "P s' \<and> Q x s'"
  proof (rule each_res_invariant [where P = "\<lambda>s. P s \<and> Q x s", OF t(2)])
    show "P t \<and> Q x t" using p by simp
    show "P u' \<and> Q x u'" if "y \<in> set xs" "P u \<and> Q x u" "f y u = Inr u'" for y u u'
      using Cons.prems(3) [of y u u'] Cons.prems(4) [of y u x u'] that by simp
  qed
  ultimately show ?case by simp
qed

lemma named_described: "list_ex (\<lambda>s. em_type_name s = x) specs \<longleftrightarrow> x \<in> spec_names specs"
  by (force simp: list_ex_iff spec_names_def)

lemma described_add [simp]: "spec_names (specs @ [s]) = spec_names specs \<union> {em_type_name s}"
  by (auto simp: spec_names_def)

lemma add_spec_Inr:
  assumes "add_spec n st (Some a) g = Inr g'"
  shows "visited g' = visited g \<and> described g' = described g \<union> ({ty_name (st ! a)} - {[]})"
  using assms
  by (auto simp: add_spec_def createEqualityMethodSpec_def method_spec_def named_described split: if_splits)

lemma visited_visit [simp]: "visited (visit_name x g) = visited g \<union> ({x} - {[]})"
  by (auto simp: visit_name_def)

lemma specs_visit [simp]: "es_specs (visit_name x g) = es_specs g"
  by (simp add: visit_name_def)

text \<open>Nothing described was not visited, apart from the items the search started from.\<close>

definition visited_plain :: "store \<Rightarrow> equality_state \<Rightarrow> bool" where
  "visited_plain st g \<longleftrightarrow> (\<forall>x \<in> visited g. x \<noteq> [] \<and> (\<exists>a. plain st a \<and> ty_name (st ! a) = x))"

lemma visited_plain_step: "visited_plain st g \<Longrightarrow> advances st g g' \<Longrightarrow> visited_plain st g'"
  unfolding visited_plain_def advances_def by (metis Diff_iff)

lemma visited_struct:
  assumes "named_apart st" and "visited_plain st g" and "ty_name (st ! a) \<in> visited g" and "a < length st"
  shows "plain st a"
  using assms unfolding named_apart_def visited_plain_def by metis

lemma describe_plain:
  assumes p: "plain st a" and n: "ty_name (st ! a) \<notin> visited g"
    and r: "(if list_ex (\<lambda>s. em_type_name s = ty_name (st ! a)) (es_specs g) then Inr (visit_name (ty_name (st ! a)) g)
             else add_spec n st (Some a) (visit_name (ty_name (st ! a)) g)) = Inr g'"
  shows "visited g' = visited g \<union> ({ty_name (st ! a)} - {[]}) \<and> described g' = described g \<union> ({ty_name (st ! a)} - {[]})"
proof (cases "list_ex (\<lambda>s. em_type_name s = ty_name (st ! a)) (es_specs g)")
  case True
  then have "ty_name (st ! a) \<in> described g" by (simp add: named_described)
  then show ?thesis using r True by auto
next
  case False
  then have "add_spec n st (Some a) (visit_name (ty_name (st ! a)) g) = Inr g'" using r by simp
  from add_spec_Inr [OF this] show ?thesis by simp
qed

lemma fields_advance:
  assumes vh: "visited_plain st h"
    and e: "each_res (\<lambda>fd. f (fd_type fd)) fds h = Inr g'" and i: "\<And>fd. fd \<in> set fds \<Longrightarrow> in_store st (fd_type fd)"
    and f: "\<And>p g g'. in_store st p \<Longrightarrow> f p g = Inr g' \<Longrightarrow> visited_plain st g \<Longrightarrow> advances st g g' \<and> targets st p \<subseteq> visited g'"
  shows "(visited_plain st g' \<and> advances st h g') \<and> (\<forall>fd \<in> set fds. targets st (fd_type fd) \<subseteq> visited g')"
proof (rule each_res_leaves [OF e, where P = "\<lambda>s. visited_plain st s \<and> advances st h s"])
  show "visited_plain st h \<and> advances st h h" using vh by simp
  show "(visited_plain st s' \<and> advances st h s') \<and> targets st (fd_type fd) \<subseteq> visited s'"
    if "fd \<in> set fds" "visited_plain st s \<and> advances st h s" "f (fd_type fd) s = Inr s'" for fd s s'
  proof -
    have v: "visited_plain st s" and h: "advances st h s" using that(2) by simp_all
    note r = f [OF i [OF that(1)] that(3) v]
    show ?thesis using r visited_plain_step [OF v conjunct1 [OF r]] advances_trans [OF h conjunct1 [OF r]] by simp
  qed
  show "targets st (fd_type x) \<subseteq> visited s'"
    if "y \<in> set fds" "visited_plain st s \<and> advances st h s" "targets st (fd_type x) \<subseteq> visited s" "f (fd_type y) s = Inr s'" for x y s s'
  proof -
    have "advances st s s'" using f [OF i [OF that(1)] that(4)] that(2) by simp
    then show ?thesis using that(3) by (auto simp: advances_def)
  qed
qed

text \<open>A struct is described, and then its fields are searched; \<open>f\<close> is the search, one deeper.\<close>

lemma struct_advances:
  assumes na: "named_apart st" and sound: "sound_store st" and struct: "plain st a" and vg: "visited_plain st g"
    and dv: "visited h = visited g \<union> ({ty_name (st ! a)} - {[]})" and ds: "described h = described g \<union> ({ty_name (st ! a)} - {[]})"
    and e: "each_res (\<lambda>fd. f (fd_type fd)) (ty_fields (st ! a)) h = Inr g'"
    and f: "\<And>p g g'. in_store st p \<Longrightarrow> f p g = Inr g' \<Longrightarrow> visited_plain st g \<Longrightarrow> advances st g g' \<and> targets st p \<subseteq> visited g'"
  shows "advances st g g' \<and> targets st (Some a) \<subseteq> visited g'"
proof -
  have vh: "visited_plain st h" unfolding visited_plain_def dv using vg struct by (auto simp: visited_plain_def)
  have i: "in_store st (fd_type fd)" if "fd \<in> set (ty_fields (st ! a))" for fd
  proof (rule sound_links(4) [OF sound _ _ that])
    show "a < length st" "ty_kind (st ! a) = KindStruct" using struct by (simp_all add: plain_def)
  qed
  have fa: "(visited_plain st g' \<and> advances st h g') \<and> (\<forall>fd \<in> set (ty_fields (st ! a)). targets st (fd_type fd) \<subseteq> visited g')"
    by (rule fields_advance [where f = f, OF vh e]) (rule i, assumption, rule f)
  have hg: "advances st h g'" and vg': "visited_plain st g'" using fa by simp_all
  have ft: "field_targets st a \<subseteq> visited g'" using fa by (auto simp: field_targets_def)
  have "closed_names st (visited h - visited g) (visited g')"
    unfolding closed_names_def
  proof (intro allI impI)
    fix b
    assume b: "plain st b" "ty_name (st ! b) \<in> visited h - visited g"
    then have n: "ty_name (st ! b) = ty_name (st ! a)" "ty_name (st ! b) \<noteq> []" unfolding dv by auto
    have "a < length st" using struct by (simp add: plain_def)
    then have "b = a" using na b(1) n by (simp add: named_apart_def)
    then show "field_targets st b \<subseteq> visited g'" using ft by simp
  qed
  then have c: "closed_names st (visited g' - visited g) (visited g')"
    by (rule closed_names_via) (use hg in \<open>simp add: advances_def\<close>)
  have sub: "visited h \<subseteq> visited g'" "described h \<subseteq> described g'" "visited g' - visited h \<subseteq> described g'"
    "described g' - described h \<subseteq> visited g'" using hg by (simp_all add: advances_def)
  have sub': "visited g \<subseteq> visited g'" "described g \<subseteq> described g'" "visited g' - visited g \<subseteq> described g'"
    "described g' - described g \<subseteq> visited g'" using sub unfolding dv ds by blast+
  have "\<forall>x \<in> visited g' - visited g. x \<noteq> [] \<and> (\<exists>a. plain st a \<and> ty_name (st ! a) = x)"
    using vg' unfolding visited_plain_def by blast
  then have "advances st g g'" unfolding advances_def using sub' c by (intro conjI)
  moreover have "targets st (Some a) \<subseteq> visited g'"
    using sub(1) unfolding dv targets_plain [OF struct] by blast
  ultimately show ?thesis by (rule conjI)
qed

lemma collectNestedTypes_advances:
  assumes na: "named_apart st" and sound: "sound_store st"
  shows "in_store st p \<Longrightarrow> collectNestedTypes n st p g = Inr g' \<Longrightarrow> visited_plain st g \<Longrightarrow> advances st g g' \<and> targets st p \<subseteq> visited g'"
proof (induction n arbitrary: p g g')
  case 0
  then show ?case by (cases p) auto
next
  case (Suc n)
  show ?case
  proof (cases p)
    case None
    then show ?thesis using Suc.prems by simp
  next
    case (Some a)
    let ?t = "st ! a"
    have a: "a < length st" using Suc.prems(1) Some by simp
    show ?thesis
    proof (cases "ty_name ?t \<noteq> [] \<and> ty_name ?t \<in> visited g")
      case True
      then have "plain st a" using visited_struct [OF na Suc.prems(3) _ a] by simp
      then show ?thesis using Suc.prems True Some by (auto simp: targets_plain)
    next
      case new: False
      consider (struct) "plain st a" | (wrap) "ty_kind ?t = KindStruct" "wrapper_name (ty_name ?t)"
        | (generic) "ty_kind ?t = KindGeneric" | (array) "ty_kind ?t = KindArray" | (link) "ty_kind ?t = KindAlias"
        | (other) "ty_kind ?t \<notin> {KindGeneric, KindArray, KindAlias, KindStruct}"
        using a by (auto simp: plain_def)
      then show ?thesis
      proof cases
        case struct
        have k: "ty_kind ?t = KindStruct" "\<not> wrapper_name (ty_name ?t)" using struct by (simp_all add: plain_def)
        have nv: "ty_name ?t \<notin> visited g" using new Suc.prems(3) by (auto simp: visited_plain_def)
        obtain h where h: "(if list_ex (\<lambda>s. em_type_name s = ty_name ?t) (es_specs g) then Inr (visit_name (ty_name ?t) g)
             else add_spec n st (Some a) (visit_name (ty_name ?t) g)) = Inr h"
          and e: "each_res (\<lambda>f. collectNestedTypes n st (fd_type f)) (ty_fields ?t) h = Inr g'"
          using Suc.prems(2) Some new k by (auto simp: Let_def)
        note d = describe_plain [OF struct nv h]
        from struct_advances [OF na sound struct Suc.prems(3) conjunct1 [OF d] conjunct2 [OF d] e Suc.IH]
        show ?thesis unfolding Some .
      next
        case wrap
        show ?thesis
        proof (cases "value_field ?t")
          case None
          then show ?thesis using Suc.prems(2) Some new wrap targets_wrapper [OF wrap] by (simp add: Let_def)
        next
          case v: (Some f)
          have "collectNestedTypes n st (fd_type f) g = Inr g'" using Suc.prems(2) Some new wrap v by (simp add: Let_def)
          from Suc.IH [OF sound_links(4) [OF sound a wrap(1) value_field_in [OF v]] this Suc.prems(3)]
          show ?thesis using Some v targets_wrapper [OF wrap] by simp
        qed
      next
        case generic
        then have "collectNestedTypes n st (ty_generic_of ?t) g = Inr g'" using Suc.prems(2) Some new by (simp add: Let_def)
        from Suc.IH [OF sound_links(1) [OF sound a generic] this Suc.prems(3)]
        show ?thesis using Some targets_through(1) [OF generic] by simp
      next
        case array
        then have "collectNestedTypes n st (ty_item ?t) g = Inr g'" using Suc.prems(2) Some new by (simp add: Let_def)
        from Suc.IH [OF sound_links(2) [OF sound a array] this Suc.prems(3)]
        show ?thesis using Some targets_through(2) [OF array] by simp
      next
        case link
        then have "collectNestedTypes n st (ty_alias_to ?t) g = Inr g'" using Suc.prems(2) Some new by (simp add: Let_def)
        from Suc.IH [OF sound_links(3) [OF sound a link] this Suc.prems(3)]
        show ?thesis using Some targets_through(3) [OF link] by simp
      next
        case other
        then show ?thesis using Suc.prems Some new targets_other [OF other]
          by (cases "ty_kind ?t") (simp_all add: Let_def)
      qed
    qed
  qed
qed

section \<open>The whole search\<close>

definition complete_search :: "store \<Rightarrow> equality_state \<Rightarrow> bool" where
  "complete_search st g \<longleftrightarrow> visited_plain st g \<and> visited g \<subseteq> described g \<and> closed_names st (visited g) (visited g)
     \<and> (\<forall>a. plain st a \<longrightarrow> ty_name (st ! a) \<in> described g \<longrightarrow> ty_name (st ! a) \<in> visited g)"

text \<open>The types found from one, through fields of structs and variants of sums.\<close>

inductive contains_type :: "store \<Rightarrow> tref option \<Rightarrow> tref \<Rightarrow> bool" for st where
  itself: "contains_type st (Some a) a"
| field: "ty_kind (st ! a) = KindStruct \<Longrightarrow> f \<in> set (ty_fields (st ! a)) \<Longrightarrow> contains_type st (fd_type f) b \<Longrightarrow> contains_type st (Some a) b"
| variant: "ty_kind (st ! a) = KindSum \<Longrightarrow> q \<in> set (ty_sum_of (st ! a)) \<Longrightarrow> contains_type st q b \<Longrightarrow> contains_type st (Some a) b"

inductive_simps contains_type_None [simp]: "contains_type st None b"
inductive_simps contains_type_Some: "contains_type st (Some a) b"

text \<open>An array with unique items that are structs; its validator is named after the struct.\<close>

definition unique_structs :: "store \<Rightarrow> tref \<Rightarrow> string \<Rightarrow> bool" where
  "unique_structs st c x \<longleftrightarrow> wants_unique (st ! c) \<and> x \<noteq> []
     \<and> (case ty_item (st ! c) of Some b \<Rightarrow> ty_kind (st ! b) = KindStruct \<and> ty_name (st ! b) = x | None \<Rightarrow> False)"

lemma collect_items_search:
  assumes na: "named_apart st" and sound: "sound_store st" and i: "i < length st" and c: "complete_search st g" and r: "collect_items n st (st ! i) g = Inr g'"
  shows "complete_search st g' \<and> described g \<subseteq> described g' \<and> (\<forall>x. unique_structs st i x \<longrightarrow> x \<in> described g')"
proof (cases "wants_unique (st ! i)")
  case False
  then show ?thesis using r c by (simp add: collect_items_def unique_structs_def)
next
  case w: True
  obtain needs where n: "needsEqualityMethod n st (ty_item (st ! i)) = Inr needs" using r w by (auto simp: collect_items_def)
  show ?thesis
  proof (cases needs)
    case False
    have "\<not> unique_structs st i x" for x
      using n False by (cases "ty_item (st ! i)"; cases n) (auto simp: unique_structs_def Let_def)
    then show ?thesis using r w n False c by (auto simp: collect_items_def)
  next
    case True
    then obtain b where b: "ty_item (st ! i) = Some b" using n by (cases "ty_item (st ! i)") auto
    have bl: "b < length st" using sound_links(2) [OF sound i] w b by (simp add: wants_unique_def)
    obtain h where h: "add_spec n st (Some b) g = Inr h" and e: "collectNestedTypes n st (Some b) h = Inr g'"
      using r w n True b by (auto simp: collect_items_def)
    note d = add_spec_Inr [OF h]
    have vh: "visited_plain st h" using c d by (auto simp: complete_search_def visited_plain_def)
    have a: "advances st h g'" and t: "targets st (Some b) \<subseteq> visited g'"
      using collectNestedTypes_advances [OF na sound _ e vh] bl by simp_all
    have sub: "visited h \<subseteq> visited g'" "described h \<subseteq> described g'" "described g' - described h \<subseteq> visited g'"
      "visited g' - visited h \<subseteq> described g'" and cl: "closed_names st (visited g' - visited h) (visited g')"
      using a by (simp_all add: advances_def)
    have old: "visited g \<subseteq> described g" "closed_names st (visited h) (visited h)"
      and pl: "\<And>x. plain st x \<Longrightarrow> ty_name (st ! x) \<in> described g \<Longrightarrow> ty_name (st ! x) \<in> visited g"
      using c d by (simp_all add: complete_search_def)
    have "closed_names st (visited g') (visited g')"
      using old(2) cl sub(1) unfolding closed_names_def by (metis Diff_iff subset_trans)
    moreover have "ty_name (st ! x) \<in> visited g'" if x: "plain st x" "ty_name (st ! x) \<in> described g'" for x
    proof -
      consider "ty_name (st ! x) \<in> described g" | "ty_name (st ! x) = ty_name (st ! b)" "ty_name (st ! x) \<noteq> []"
        | "ty_name (st ! x) \<in> described g' - described h" using x(2) d by auto
      then show ?thesis
      proof cases
        case 1
        then show ?thesis using pl [OF x(1)] d sub(1) by auto
      next
        case 2
        then have "x = b" using na x(1) bl by (metis named_apart_def)
        then show ?thesis using 2(2) t targets_plain [OF x(1)] by auto
      next
        case 3
        then show ?thesis using sub(3) by auto
      qed
    qed
    moreover have "visited g' \<subseteq> described g'" using old(1) d sub(2,4) by auto
    ultimately have "complete_search st g'"
      using visited_plain_step [OF vh a] by (simp add: complete_search_def)
    moreover have "x \<in> described g'" if "unique_structs st i x" for x
      using that b d sub(2) by (auto simp: unique_structs_def)
    moreover have "described g \<subseteq> described g'" using d sub(2) by auto
    ultimately show ?thesis by simp
  qed
qed

definition covers :: "store \<Rightarrow> tref option \<Rightarrow> equality_state \<Rightarrow> bool" where
  "covers st p g \<longleftrightarrow> (\<forall>c x. contains_type st p c \<longrightarrow> unique_structs st c x \<longrightarrow> x \<in> described g)"

lemma covers_None [simp]: "covers st None g"
  by (simp add: covers_def)

lemma each_search:
  assumes f: "\<And>p g g'. in_store st p \<Longrightarrow> f p g = Inr g' \<Longrightarrow> complete_search st g \<Longrightarrow> complete_search st g' \<and> described g \<subseteq> described g' \<and> covers st p g'"
    and r: "each_res (\<lambda>x. f (F x)) xs s = Inr s'" and c: "complete_search st s" and i: "\<And>x. x \<in> set xs \<Longrightarrow> in_store st (F x)"
  shows "(complete_search st s' \<and> described s \<subseteq> described s') \<and> (\<forall>x \<in> set xs. covers st (F x) s')"
proof (rule each_res_leaves [OF r, where P = "\<lambda>u. complete_search st u \<and> described s \<subseteq> described u"])
  show "complete_search st s \<and> described s \<subseteq> described s" using c by simp
  show "(complete_search st u' \<and> described s \<subseteq> described u') \<and> covers st (F x) u'"
    if "x \<in> set xs" "complete_search st u \<and> described s \<subseteq> described u" "f (F x) u = Inr u'" for x u u'
    using f [OF i [OF that(1)] that(3)] that(2) by blast
  show "covers st (F x) u'"
    if "y \<in> set xs" "complete_search st u \<and> described s \<subseteq> described u" "covers st (F x) u" "f (F y) u = Inr u'" for x y u u'
    using f [OF i [OF that(1)] that(4)] that(2,3) unfolding covers_def by blast
qed

lemma collectFromType_search:
  assumes na: "named_apart st" and sound: "sound_store st"
  shows "in_store st p \<Longrightarrow> collectFromType n st p g = Inr g' \<Longrightarrow> complete_search st g \<Longrightarrow>
    complete_search st g' \<and> described g \<subseteq> described g' \<and> covers st p g'"
proof (induction n arbitrary: p g g')
  case 0
  then show ?case by (cases p) auto
next
  case (Suc n)
  show ?case
  proof (cases p)
    case None
    then show ?thesis using Suc.prems by simp
  next
    case (Some a)
    let ?t = "st ! a"
    have a: "a < length st" using Suc.prems(1) Some by simp
    obtain g1 g2 where g1: "collect_items n st ?t g = Inr g1"
      and g2: "(if ty_kind ?t = KindStruct then each_res (\<lambda>f. collectFromType n st (fd_type f)) (ty_fields ?t) g1 else Inr g1) = Inr g2"
      and g': "(if ty_kind ?t = KindSum then each_res (collectFromType n st) (ty_sum_of ?t) g2 else Inr g2) = Inr g'"
      using Suc.prems(2) Some by (auto simp: Let_def)
    have i: "complete_search st g1 \<and> described g \<subseteq> described g1 \<and> (\<forall>x. unique_structs st a x \<longrightarrow> x \<in> described g1)"
      using collect_items_search [OF na sound a Suc.prems(3) g1] .
    have f: "complete_search st g2 \<and> described g1 \<subseteq> described g2
        \<and> (ty_kind ?t = KindStruct \<longrightarrow> (\<forall>f \<in> set (ty_fields ?t). covers st (fd_type f) g2))"
      using each_search [where f = "collectFromType n st" and F = fd_type and xs = "ty_fields ?t" and s = g1 and s' = g2, OF Suc.IH] g2 i sound_links(4) [OF sound a] by (simp split: if_splits)
    have v: "complete_search st g' \<and> described g2 \<subseteq> described g' \<and> (ty_kind ?t = KindSum \<longrightarrow> (\<forall>q \<in> set (ty_sum_of ?t). covers st q g'))"
      using each_search [where f = "collectFromType n st" and F = "\<lambda>q. q" and xs = "ty_sum_of ?t" and s = g2 and s' = g', OF Suc.IH] g' f sound_links(5) [OF sound a] by (simp split: if_splits)
    have "x \<in> described g'" if "contains_type st p c" "unique_structs st c x" for c x
      using that i f v unfolding Some contains_type_Some covers_def by blast
    then show ?thesis using i f v unfolding covers_def by blast
  qed
qed

end
