(* ===== verification/Uniqueness.thy ===== *)
theory Uniqueness
  imports EqualityHash EqualityDetect
begin

text \<open>
  What the generated code for unique items guarantees, and what it misses: the claims of Equality, EqualityGen and
  EqualityRun.
\<close>

section \<open>What is described\<close>

definition well_described :: "equality_spec list \<Rightarrow> bool" where
  "well_described specs \<longleftrightarrow> distinct (map em_type_name specs) \<and> (\<forall>s \<in> set specs. em_max_depth s = maxEqualityDepth)"

lemma well_described_add: "well_described (es_specs g) \<Longrightarrow> add_spec n st p g = Inr g' \<Longrightarrow> well_described (es_specs g')"
  by (cases p)
     (auto simp: add_spec_def createEqualityMethodSpec_def method_spec_def well_described_def named_described spec_names_def split: if_splits)

lemma well_described_nested:
  "collectNestedTypes n st p g = Inr g' \<Longrightarrow> well_described (es_specs g) \<Longrightarrow> well_described (es_specs g')"
proof (induction n arbitrary: p g g')
  case 0
  then show ?case by (cases p) auto
next
  case (Suc n)
  have each: "well_described (es_specs s')"
    if "each_res (\<lambda>f. collectNestedTypes n st (fd_type f)) fs s = Inr s'" "well_described (es_specs s)" for fs s s'
    by (rule each_res_invariant [where P = "\<lambda>s. well_described (es_specs s)", OF that]) (rule Suc.IH)
  show ?case
  proof (cases p)
    case (Some a)
    let ?t = "st ! a"
    show ?thesis
    proof (cases "ty_kind ?t = KindStruct \<and> \<not> wrapper_name (ty_name ?t) \<and> \<not> (ty_name ?t \<noteq> [] \<and> ty_name ?t \<in> set (es_visited g))")
      case True
      then obtain h where h: "(if list_ex (\<lambda>s. em_type_name s = ty_name ?t) (es_specs g) then Inr (visit_name (ty_name ?t) g)
             else add_spec n st (Some a) (visit_name (ty_name ?t) g)) = Inr h"
        and e: "each_res (\<lambda>f. collectNestedTypes n st (fd_type f)) (ty_fields ?t) h = Inr g'"
        using Suc.prems(1) Some by (auto simp: Let_def)
      have "well_described (es_specs h)"
        using h Suc.prems(2) well_described_add [of "visit_name (ty_name ?t) g" n st "Some a" h] by (auto split: if_splits)
      then show ?thesis by (rule each [OF e])
    next
      case False
      then show ?thesis using Suc.prems Suc.IH unfolding Some
        by (cases "ty_kind ?t") (auto simp: Let_def split: if_splits option.splits)
    qed
  qed (use Suc.prems in simp)
qed

lemma well_described_items:
  "collect_items n st t g = Inr g' \<Longrightarrow> well_described (es_specs g) \<Longrightarrow> well_described (es_specs g')"
  by (auto simp: collect_items_def dest: well_described_add well_described_nested split: if_splits)

lemma well_described_type:
  "collectFromType n st p g = Inr g' \<Longrightarrow> well_described (es_specs g) \<Longrightarrow> well_described (es_specs g')"
proof (induction n arbitrary: p g g')
  case 0
  then show ?case by (cases p) auto
next
  case (Suc n)
  have each: "well_described (es_specs s')"
    if "each_res (\<lambda>x. collectFromType n st (F x)) xs s = Inr s'" "well_described (es_specs s)" for F :: "field \<Rightarrow> tref option" and xs s s'
    by (rule each_res_invariant [where P = "\<lambda>s. well_described (es_specs s)", OF that]) (rule Suc.IH)
  have each': "well_described (es_specs s')"
    if "each_res (collectFromType n st) xs s = Inr s'" "well_described (es_specs s)" for xs s s'
    by (rule each_res_invariant [where P = "\<lambda>s. well_described (es_specs s)", OF that]) (rule Suc.IH)
  show ?case
  proof (cases p)
    case (Some a)
    obtain g1 g2 where g1: "collect_items n st (st ! a) g = Inr g1"
      and g2: "(if ty_kind (st ! a) = KindStruct then each_res (\<lambda>f. collectFromType n st (fd_type f)) (ty_fields (st ! a)) g1 else Inr g1) = Inr g2"
      and g': "(if ty_kind (st ! a) = KindSum then each_res (collectFromType n st) (ty_sum_of (st ! a)) g2 else Inr g2) = Inr g'"
      using Suc.prems(1) Some by (auto simp: Let_def)
    have "well_described (es_specs g2)"
      using g2 well_described_items [OF g1 Suc.prems(2)] each [of fd_type "ty_fields (st ! a)" g1 g2] by (auto split: if_splits)
    then show ?thesis using g' each' [of "ty_sum_of (st ! a)" g2 g'] by (auto split: if_splits)
  qed (use Suc.prems in simp)
qed

lemma collected_well_described:
  assumes "collectEqualitySpecs n st types = Inr specs"
  shows "well_described specs"
proof -
  obtain g where g: "each_res (\<lambda>name. collectFromType n st (map_of types name)) (sorted_keys types)
      \<lparr>es_specs = [], es_visited = []\<rparr> = Inr g" "specs = es_specs g"
    using assms by (auto simp: collectEqualitySpecs_def)
  have "well_described (es_specs g)"
    by (rule each_res_invariant [where P = "\<lambda>s. well_described (es_specs s)", OF g(1)])
       (auto simp: well_described_def dest: well_described_type [unfolded well_described_def])
  then show ?thesis using g(2) by simp
qed

lemma collected_search:
  assumes "collectEqualitySpecs n st types = Inr specs" and "named_apart st" and "sound_store st" and "\<forall>e \<in> set types. snd e < length st"
  shows "\<exists>g. es_specs g = specs \<and> complete_search st g \<and> (\<forall>name \<in> fst ` set types. covers st (map_of types name) g)"
proof -
  obtain g where g: "each_res (\<lambda>name. collectFromType n st (map_of types name)) (sorted_keys types)
      \<lparr>es_specs = [], es_visited = []\<rparr> = Inr g" "specs = es_specs g"
    using assms(1) by (auto simp: collectEqualitySpecs_def)
  have "complete_search st \<lparr>es_specs = [], es_visited = []\<rparr>"
    by (simp add: complete_search_def visited_plain_def closed_names_def spec_names_def)
  moreover have "in_store st (map_of types name)" for name
    using assms(4) by (cases "map_of types name") (force dest: map_of_SomeD)+
  ultimately show ?thesis
    using each_search [where f = "collectFromType n st", OF collectFromType_search [where n = n, OF assms(2,3)] g(1)] g(2) by auto
qed

section \<open>Every method that is called is generated\<close>

text \<open>The type whose method \<open>Equal\<close> the comparison of a field calls, on the field, its value, its items or their values.\<close>

definition called_type :: "store \<Rightarrow> field_equality \<Rightarrow> field \<Rightarrow> tref option" where
  "called_type st fe f =
     (let items = (case array_item st (fd_type f) of Some i \<Rightarrow> Some i | None \<Rightarrow> array_item st (unwrapOptional st (fd_type f)));
          elem = (if fe_array_of_structs fe then unwrapOptional st items else None) in
      case fe_category fe of
        FieldTypeNestedObject \<Rightarrow> fd_type f
      | FieldTypeOptional \<Rightarrow> if fe_nested fe then unwrapOptional st (fd_type f) else if fe_array fe then elem else None
      | FieldTypeNullable \<Rightarrow> if fe_nested fe then unwrapOptional st (fd_type f) else if fe_array fe then elem else None
      | FieldTypeArray \<Rightarrow> elem
      | _ \<Rightarrow> None)"

lemma leads_unwrap:
  assumes "leads st (unwrapOptional st p) b"
  shows "leads st p b"
proof (cases p)
  case None
  then show ?thesis using assms by (simp add: unwrapOptional_def)
next
  case (Some a)
  then show ?thesis using assms
    by (auto simp: unwrapOptional_def Let_def split: if_splits option.splits intro: leads.generic leads.wrapper)
qed

lemma leads_item: "array_item st p = Some i \<Longrightarrow> leads st (Some i) b \<Longrightarrow> leads st p b"
  by (auto simp: array_item_def split: option.splits if_splits intro: leads.array)

definition items_of :: "store \<Rightarrow> field \<Rightarrow> tref option" where
  "items_of st f = (case array_item st (fd_type f) of Some i \<Rightarrow> Some i | None \<Rightarrow> array_item st (unwrapOptional st (fd_type f)))"

lemma leads_items:
  assumes "leads st (items_of st f) b"
  shows "leads st (fd_type f) b"
proof (cases "array_item st (fd_type f)")
  case (Some i)
  then have "leads st (Some i) b" using assms by (simp add: items_of_def)
  then show ?thesis by (rule leads_item [OF Some])
next
  case None
  then obtain i where i: "array_item st (unwrapOptional st (fd_type f)) = Some i" "leads st (Some i) b"
    using assms by (cases "array_item st (unwrapOptional st (fd_type f))") (simp_all add: items_of_def)
  show ?thesis by (rule leads_unwrap [OF leads_item [OF i]])
qed

lemma called_type_cases:
  assumes "called_type st fe f = Some b"
  obtains "fd_type f = Some b" | "unwrapOptional st (fd_type f) = Some b" | "unwrapOptional st (items_of st f) = Some b"
  using assms unfolding called_type_def Let_def items_of_def [symmetric]
  by (cases "fe_category fe") (simp_all split: if_splits)

lemma called_leads:
  assumes "called_type st fe f = Some b" and "plain st b"
  shows "leads st (fd_type f) b"
proof -
  have p: "leads st (Some b) b" using assms(2) by (rule leads.itself)
  from assms(1) show ?thesis
  proof (cases rule: called_type_cases)
    case 1
    then show ?thesis using p by simp
  next
    case 2
    show ?thesis by (rule leads_unwrap) (simp add: 2 p)
  next
    case 3
    show ?thesis by (rule leads_items, rule leads_unwrap) (simp add: 3 p)
  qed
qed

text \<open>
  C25: In a store of types with a name for one type only, the methods Equal that the generated code calls exist, as far
  as structs go whose names do not begin as those of wrappers do: for each such struct described, each field, and the
  struct its comparison calls Equal on, if that is a struct with such a name and not an alias, a description is collected
  too; no method is declared twice. Structs called Opt... or Nil... and aliases are left out because their methods are not
  generated.
\<close>

lemma called_methods_generated:
  assumes "collectEqualitySpecs n st types = Inr specs" and "named_apart st" and "sound_store st" and "\<forall>e \<in> set types. snd e < length st"
    and "a < length st" "ty_kind (st ! a) = KindStruct" "\<not> wrapper_name (ty_name (st ! a))"
    and "ty_name (st ! a) \<in> spec_names specs" and "f \<in> set (ty_fields (st ! a))"
    and "field_equality_of n st f = Inr fe" and "called_type st fe f = Some b"
    and "b < length st" "ty_kind (st ! b) = KindStruct" "\<not> wrapper_name (ty_name (st ! b))" and "ty_name (st ! b) \<noteq> []"
  shows "ty_name (st ! b) \<in> spec_names specs \<and> distinct (map em_type_name specs)"
proof -
  obtain g where g: "es_specs g = specs" "complete_search st g" using collected_search [OF assms(1-4)] by blast
  have a: "plain st a" and b: "plain st b" using assms(5-7,12-14) by (simp_all add: plain_def)
  have "ty_name (st ! a) \<in> visited g" using g a assms(8) by (simp add: complete_search_def)
  then have "field_targets st a \<subseteq> visited g" using g(2) a by (simp add: complete_search_def closed_names_def)
  moreover have "ty_name (st ! b) \<in> field_targets st a"
    using called_leads [OF assms(11) b] assms(9,15) by (auto simp: field_targets_def targets_def)
  ultimately have "ty_name (st ! b) \<in> spec_names specs" using g by (auto simp: complete_search_def)
  then show ?thesis using collected_well_described [OF assms(1)] by (simp add: well_described_def)
qed

text \<open>Each description has its function in the text of the validators, and the file is written with it.\<close>

lemma unique_text_declares:
  assumes "spec \<in> set specs"
  shows "\<exists>before after. unique_text pkg specs
    = before @ ''func validateUnique'' @ em_type_name spec @ ''(items []'' @ em_type_name spec @ '') (err error) {'' @ nl @ after"
proof -
  obtain xs ys where specs: "specs = xs @ spec # ys" using split_list [OF assms] by blast
  obtain before after where "writeValidateUnique spec
      = before @ line 0 (''func validateUnique'' @ em_type_name spec @ ''(items []'' @ em_type_name spec @ '') (err error) {'') @ after"
    unfolding writeValidateUnique_def Let_def concat.simps by blast
  then have "\<exists>p q. unique_text pkg specs
      = p @ line 0 (''func validateUnique'' @ em_type_name spec @ ''(items []'' @ em_type_name spec @ '') (err error) {'') @ q"
    unfolding unique_text_def specs map_append concat_append list.map concat.simps by (metis append.assoc)
  then show ?thesis unfolding line_def by (metis append.assoc append_Nil concat.simps(1) replicate_0)
qed

lemma written_validators:
  assumes "write_equality L pkg specs fs = (fs', None)" and "specs \<noteq> []"
  shows "\<exists>content. (''aas_validators_unique_gen.go'', content) \<in> set fs'
    \<and> cl_format L ''aas_validators_unique_gen.go'' (unique_text pkg specs) = Some content"
proof -
  obtain fs1 where "generateUniqueValidators L pkg specs fs1 = (fs', None)"
    using assms by (auto simp: write_equality_def split: prod.splits option.splits)
  then show ?thesis using assms(2) by (auto simp: generateUniqueValidators_def writeFormattedCode_def split: option.splits if_splits)
qed

text \<open>
  C26: For every array with unique items that are structs, if it is reached from a named type through fields of structs and
  variants of unions only, the file aas_validators_unique_gen.go, once written, is the formatted text of a package in which
  the function validateUnique of the items' type, which the validator of the array calls, is declared, and it is
  declared once: there is one description of that type, with the depth limit 10. Arrays behind aliases, wrappers,
  pointers, maps or arrays are not reached, see \<open>hidden_array_missed\<close>.
\<close>

lemma unique_arrays_covered:
  assumes "collectEqualitySpecs n st types = Inr specs" and "named_apart st" and "sound_store st" and "\<forall>e \<in> set types. snd e < length st"
    and "(name, t) \<in> set types" and "distinct (map fst types)"
    and "contains_type st (Some t) c" and "unique_structs st c x" and "write_equality L pkg specs fs = (fs', None)"
  shows "\<exists>content before after. (''aas_validators_unique_gen.go'', content) \<in> set fs'
      \<and> cl_format L ''aas_validators_unique_gen.go'' (before @ ''func validateUnique'' @ x @ ''(items []'' @ x @ '') (err error) {'' @ nl @ after) = Some content
      \<and> (\<exists>!spec. spec \<in> set specs \<and> em_type_name spec = x) \<and> (\<forall>spec \<in> set specs. em_max_depth spec = 10)"
proof -
  obtain g where g: "es_specs g = specs" "covers st (map_of types name) g"
    using collected_search [OF assms(1-4)] assms(5) by force
  have w: "well_described specs" by (rule collected_well_described [OF assms(1)])
  have "x \<in> spec_names specs" using g assms(5-8) by (auto simp: covers_def)
  then obtain spec where spec: "spec \<in> set specs" "em_type_name spec = x" by (auto simp: spec_names_def)
  have one: "\<exists>!spec. spec \<in> set specs \<and> em_type_name spec = x"
    using spec w by (auto simp: well_described_def distinct_map inj_on_def)
  obtain before after where declared: "unique_text pkg specs
      = before @ ''func validateUnique'' @ x @ ''(items []'' @ x @ '') (err error) {'' @ nl @ after"
    using unique_text_declares [OF spec(1)] unfolding spec(2) by blast
  obtain content where "(''aas_validators_unique_gen.go'', content) \<in> set fs'"
    "cl_format L ''aas_validators_unique_gen.go'' (unique_text pkg specs) = Some content"
    using written_validators [OF assms(9)] spec(1) by (cases specs) auto
  then show ?thesis using one w unfolding declared well_described_def maxEqualityDepth_def by blast
qed

text \<open>What the search misses: an array with unique items behind an alias, a wrapper, a pointer, a map or another array.\<close>

lemma hidden_array_missed:
  "ty_kind (st ! a) \<notin> {KindArray, KindStruct, KindSum} \<Longrightarrow> collectFromType (Suc n) st (Some a) g = Inr g"
  "ty_kind (st ! a) = KindArray \<Longrightarrow> \<not> wants_unique (st ! a) \<Longrightarrow> collectFromType (Suc n) st (Some a) g = Inr g"
  by (simp_all add: Let_def collect_items_def wants_unique_def)

section \<open>What the methods decide\<close>



text \<open>
  What they miss: in an optional field that is nullable too, the flag of null is not looked at, so null equals the zero
  value it is kept with.
\<close>

lemma null_ignored:
  assumes "spec_for specs n = Some sp" and "em_fields sp = [fe]" and "em_depth_tracking sp" and "0 \<le> em_max_depth sp"
    and "fe_category fe = FieldTypeOptional" and "\<not> fe_nested fe" and "\<not> fe_map fe" and "\<not> fe_array fe" and "leq x x"
  shows "run_equal leq specs (Suc m) 0 True (Obj n [(fe_name fe, Wrap (Some True) (Some True) (Leaf x))])
      (Obj n [(fe_name fe, Wrap (Some True) (Some False) (Leaf x))]) = Inr True"
  using assms by (simp add: equal_body_def writeFieldComparison_def compare_wrapped_def Let_def receiver_env_def differ_def flag_of_def)

section \<open>An example\<close>

text \<open>A struct with an array of unique items, which hold an optional struct, a nested one, an array of structs and an optional nullable number.\<close>

definition pets_store :: store where
  "pets_store = [
     (new_type KindStruct ''Pets'')\<lparr>ty_fields := [plain_field ''Items'' (Some 1)]\<rparr>,
     (new_type KindArray [])\<lparr>ty_item := Some 2, ty_schema := Some \<lparr>ts_type = ''array'', ts_format = [],
        ts_unique_items = True, ts_ogen_type = [], ts_ogen_name = [], ts_ref = ([], []), ts_time_format = []\<rparr>\<rparr>,
     (new_type KindStruct ''Pet'')\<lparr>ty_fields := [plain_field ''ID'' (Some 3), plain_field ''Owner'' (Some 4), plain_field ''Mother'' (Some 6),
        plain_field ''Toys'' (Some 7), plain_field ''Chip'' (Some 9)]\<rparr>,
     (new_type KindPrimitive [])\<lparr>ty_primitive := ''int''\<rparr>,
     (new_type KindGeneric ''OptOwner'')\<lparr>ty_generic_of := Some 5\<rparr>,
     (new_type KindStruct ''Owner'')\<lparr>ty_fields := [plain_field ''Name'' (Some 3)]\<rparr>,
     (new_type KindStruct ''Mother'')\<lparr>ty_fields := [plain_field ''Name'' (Some 3)]\<rparr>,
     (new_type KindArray [])\<lparr>ty_item := Some 8\<rparr>,
     (new_type KindStruct ''Toy'')\<lparr>ty_fields := [plain_field ''Name'' (Some 3)]\<rparr>,
     (new_type KindGeneric ''OptNilInt'')\<lparr>ty_generic_of := Some 3\<rparr>]"

definition pets_types :: "tref smap" where
  "pets_types = [(''Pets'', 0), (''Pet'', 2), (''Owner'', 5), (''Mother'', 6), (''Toy'', 8)]"

definition pets_specs :: "equality_spec list" where
  "pets_specs = (case collectEqualitySpecs 8 pets_store pets_types of Inr s \<Rightarrow> s | Inl _ \<Rightarrow> [])"

lemma named_apart_code [code]: "named_apart st \<longleftrightarrow>
    list_all (\<lambda>a. list_all (\<lambda>b. plain st a \<longrightarrow> ty_name (st ! a) = ty_name (st ! b) \<longrightarrow> ty_name (st ! a) \<noteq> [] \<longrightarrow> a = b)
      [0..<length st]) [0..<length st]"
  unfolding named_apart_def list_all_iff plain_def set_upt Ball_def atLeastLessThan_iff by (simp, meson)

lemma sound_store_code: "sound_store st \<longleftrightarrow>
    list_all (\<lambda>t. list_all (\<lambda>c. case c of None \<Rightarrow> False | Some a \<Rightarrow> a < length st) (feature_children t @ validation_children t)) st"
proof -
  have "(\<exists>a<n. c = Some a) \<longleftrightarrow> (case c of None \<Rightarrow> False | Some a \<Rightarrow> a < n)" for c and n :: nat
    by (cases c) simp_all
  then show ?thesis by (simp add: sound_store_def list_all_iff)
qed

lemma pets_collected: "collectEqualitySpecs 8 pets_store pets_types = Inr pets_specs"
proof -
  have "\<not> isl (collectEqualitySpecs 8 pets_store pets_types)" by code_simp
  then show ?thesis unfolding pets_specs_def by (cases "collectEqualitySpecs 8 pets_store pets_types") simp_all
qed

lemma pets_apart: "named_apart pets_store" by code_simp
lemma pets_sound: "sound_store pets_store" unfolding sound_store_code by code_simp
lemma pets_range: "\<forall>e \<in> set pets_types. snd e < length pets_store" by code_simp

lemma called_methods_generated_witness:
  "''Owner'' \<in> spec_names pets_specs \<and> distinct (map em_type_name pets_specs)"
proof -
  obtain fe where fe: "field_equality_of 8 pets_store (plain_field ''Owner'' (Some 4)) = Inr fe"
    and c: "called_type pets_store fe (plain_field ''Owner'' (Some 4)) = Some 5"
  proof -
    have "case field_equality_of 8 pets_store (plain_field ''Owner'' (Some 4)) of
        Inr fe \<Rightarrow> called_type pets_store fe (plain_field ''Owner'' (Some 4)) = Some 5 | Inl _ \<Rightarrow> False" by code_simp
    then show ?thesis using that by (auto split: sum.splits)
  qed
  have p: "2 < length pets_store" "ty_kind (pets_store ! 2) = KindStruct" "\<not> wrapper_name (ty_name (pets_store ! 2))"
    "5 < length pets_store" "ty_kind (pets_store ! 5) = KindStruct" "\<not> wrapper_name (ty_name (pets_store ! 5))" by code_simp+
  have n: "ty_name (pets_store ! 2) \<in> spec_names pets_specs" by code_simp
  have f: "plain_field ''Owner'' (Some 4) \<in> set (ty_fields (pets_store ! 2))" by code_simp
  have o: "ty_name (pets_store ! 5) = ''Owner''" by code_simp
  have ne: "ty_name (pets_store ! 5) \<noteq> []" by (simp add: o)
  from called_methods_generated [OF pets_collected pets_apart pets_sound pets_range p(1-3) n f fe c p(4-6) ne]
  show ?thesis unfolding o .
qed

text \<open>A formatter that leaves the text as it is, and a file system that takes every file.\<close>

definition pets_libs :: code_libs where
  "pets_libs = \<lparr>cl_format = (\<lambda>_ t. Some t), cl_write = (\<lambda>_ _. True), cl_lower = id\<rparr>"

lemma pets_methods_written: "\<exists>fs'. generateEqualityMethodsWithFS pets_libs pkg specs fs = (fs', None)"
  by (induction specs arbitrary: fs)
     (simp_all add: generateEqualMethod_def generateHashMethod_def writeFormattedCode_def pets_libs_def)

lemma unique_arrays_covered_witness:
  "\<exists>fs' content before after. write_equality pets_libs ''api'' pets_specs [] = (fs', None)
     \<and> (''aas_validators_unique_gen.go'', content) \<in> set fs'
     \<and> content = before @ ''func validateUnique'' @ ''Pet'' @ ''(items []'' @ ''Pet'' @ '') (err error) {'' @ nl @ after"
proof -
  have c: "contains_type pets_store (Some 0) 1"
    by (rule contains_type.field [where f = "plain_field ''Items'' (Some 1)"])
       (simp_all add: pets_store_def plain_field_def new_type_def contains_type.itself)
  have u: "unique_structs pets_store 1 ''Pet''" by code_simp
  have t: "(''Pets'', 0) \<in> set pets_types" "distinct (map fst pets_types)" by code_simp+
  obtain fs1 where "generateEqualityMethodsWithFS pets_libs ''api'' pets_specs [] = (fs1, None)" using pets_methods_written by blast
  then obtain fs' where w: "write_equality pets_libs ''api'' pets_specs [] = (fs', None)"
    by (cases "pets_specs = []") (simp_all add: write_equality_def generateUniqueValidators_def writeFormattedCode_def pets_libs_def)
  from unique_arrays_covered [OF pets_collected pets_apart pets_sound pets_range t c u w] w
  show ?thesis by (auto simp: pets_libs_def)
qed










end
