(* ===== verification/Markdown.thy ===== *)
theory Markdown
  imports Generator
begin

text \<open>
  Descriptions as Go doc comments, internal/ir/markdown.go and description.go. Parsing CommonMark is a library's
  work: the renderer starts from the library's tree, whose nodes are the constructors here.
\<close>

section \<open>The tree\<close>

text \<open>
  A text says whether a line break, soft or hard, follows it. \<open>MOther\<close> is every inline node the renderer
  looks through, \<open>MBlocks\<close> every block it looks through; a code block is its lines, a table its header and rows,
  each a list of cells. Other children of tables are not rendered and left out here.
\<close>

datatype md_inline = MText string bool | MString string | MCode "md_inline list" | MAutoLink string
  | MLink "md_inline list" string | MImage "md_inline list" string | MOther "md_inline list"

datatype md_block = MParagraph "md_inline list" | MTextBlock "md_inline list" | MHeading "md_inline list"
  | MCodeBlock "string list" | MList bool int "md_block list list" | MQuote "md_block list"
  | MTable "md_inline list list list" | MBreak | MBlocks "md_block list"

text \<open>The renderer: the lines so far, the definitions of links in order and by label, and the first and last paragraph line.\<close>

record md_renderer =
  md_out :: "string list"
  md_links :: "(string \<times> string) list"
  md_defs :: "string \<rightharpoonup> string"
  md_first :: "nat option"
  md_last :: "nat option"

section \<open>Spaces\<close>

abbreviation nbsp :: char where "nbsp \<equiv> CHR 0x00"

definition atomicToken :: "string \<Rightarrow> string" where
  "atomicToken s = map (\<lambda>c. if c = CHR '' '' then nbsp else c) s"

definition restoreSpaces :: "string \<Rightarrow> string" where
  "restoreSpaces s = map (\<lambda>c. if c = nbsp then CHR '' '' else c) s"

text \<open>\<open>strings.Fields\<close>, on the encoded runes of the text.\<close>

fun group_fields :: "string \<Rightarrow> string list \<Rightarrow> string list" where
  "group_fields cur [] = (if cur = [] then [] else [cur])"
| "group_fields cur (c # cs) =
     (if space_chunk c then (if cur = [] then group_fields [] cs else cur # group_fields [] cs)
      else group_fields (cur @ c) cs)"

definition str_fields :: "string \<Rightarrow> string list" where
  "str_fields s = group_fields [] (rune_chunks s)"

definition collapseSpaces :: "string \<Rightarrow> string" where
  "collapseSpaces s = concat_sep '' '' (str_fields s)"

definition trim_right_char :: "char \<Rightarrow> string \<Rightarrow> string" where
  "trim_right_char c s = rev (dropWhile (\<lambda>x. x = c) (rev s))"

section \<open>Inline text\<close>

fun collect_text :: "md_inline \<Rightarrow> string" where
  "collect_text (MText s b) = s"
| "collect_text (MString s) = s"
| "collect_text (MAutoLink u) = []"
| "collect_text (MCode cs) = concat (map collect_text cs)"
| "collect_text (MLink cs u) = concat (map collect_text cs)"
| "collect_text (MImage cs u) = concat (map collect_text cs)"
| "collect_text (MOther cs) = concat (map collect_text cs)"

definition collectText :: "md_inline list \<Rightarrow> string" where
  "collectText cs = concat (map collect_text cs)"

text \<open>The label of a link is its text with single spaces, or else its address; brackets would break the reference.\<close>

definition link_label :: "string \<Rightarrow> string \<Rightarrow> string" where
  "link_label label url = filter (\<lambda>c. c \<noteq> CHR ''['' \<and> c \<noteq> CHR '']'') (if label = [] then url else label)"

definition linkToken :: "string \<Rightarrow> string \<Rightarrow> md_renderer \<Rightarrow> string \<times> md_renderer" where
  "linkToken label0 url0 r =
     (let url = trim_space url0; label = link_label (collapseSpaces label0) url in
      if url = [] then (collapseSpaces label0, r)
      else case md_defs r label of
        Some existing \<Rightarrow> if existing = url then (''['' @ label @ '']'', r) else (label @ '' ('' @ url @ '')'', r)
      | None \<Rightarrow>
          (''['' @ label @ '']'', r\<lparr>md_defs := (md_defs r)(label \<mapsto> url), md_links := md_links r @ [(label, url)]\<rparr>))"

fun inline_text :: "md_inline \<Rightarrow> md_renderer \<Rightarrow> string \<times> md_renderer"
  and inlines_text :: "md_inline list \<Rightarrow> md_renderer \<Rightarrow> string \<times> md_renderer" where
  "inline_text (MText s b) r = (s @ (if b then '' '' else []), r)"
| "inline_text (MString s) r = (s, r)"
| "inline_text (MCode cs) r = (atomicToken (''`'' @ collectText cs @ ''`''), r)"
| "inline_text (MAutoLink u) r = (atomicToken u, r)"
| "inline_text (MLink cs u) r = (let (s, r1) = linkToken (collectText cs) u r in (atomicToken s, r1))"
| "inline_text (MImage cs u) r = (let (s, r1) = linkToken (collectText cs) u r in (atomicToken s, r1))"
| "inline_text (MOther cs) r = inlines_text cs r"
| "inlines_text [] r = ([], r)"
| "inlines_text (c # cs) r = (let (s, r1) = inline_text c r; (t, r2) = inlines_text cs r1 in (s @ t, r2))"

section \<open>Lines\<close>

definition ensureBlank :: "md_renderer \<Rightarrow> md_renderer" where
  "ensureBlank r = (if md_out r \<noteq> [] \<and> last (md_out r) \<noteq> [] then r\<lparr>md_out := md_out r @ [[]]\<rparr> else r)"

definition append_raw :: "string \<Rightarrow> md_renderer \<Rightarrow> md_renderer" where
  "append_raw s r = r\<lparr>md_out := md_out r @ [s]\<rparr>"

definition appendLine :: "string \<Rightarrow> md_renderer \<Rightarrow> md_renderer" where
  "appendLine s r = append_raw (trim_right_char (CHR '' '') s) r"

text \<open>The words of a paragraph are filled into lines; each full line is flushed.\<close>

fun fill_lines :: "nat \<Rightarrow> string \<Rightarrow> string list \<Rightarrow> string list" where
  "fill_lines limit line [] = (if line = [] then [] else [line])"
| "fill_lines limit line (t # ts) =
     (if line = [] then fill_lines limit t ts
      else if limit < length line + 1 + length t then line # fill_lines limit t ts
      else fill_lines limit (line @ '' '' @ t) ts)"

definition flush_line :: "string \<Rightarrow> bool \<Rightarrow> string \<Rightarrow> md_renderer \<Rightarrow> md_renderer" where
  "flush_line indent para line r =
     (let r1 = appendLine (indent @ restoreSpaces line) r; k = length (md_out r1) - 1 in
      if para then r1\<lparr>md_first := (case md_first r1 of None \<Rightarrow> Some k | Some f \<Rightarrow> Some f), md_last := Some k\<rparr> else r1)"

definition emitWrapped :: "nat \<Rightarrow> string \<Rightarrow> string \<Rightarrow> bool \<Rightarrow> md_renderer \<Rightarrow> md_renderer" where
  "emitWrapped limit s indent para r =
     fold (flush_line indent para) (fill_lines (max (limit - length indent) 1) [] (str_fields s)) r"

section \<open>Tables\<close>

fun tableRow :: "md_inline list list \<Rightarrow> md_renderer \<Rightarrow> string list \<times> md_renderer" where
  "tableRow [] r = ([], r)"
| "tableRow (c # cs) r =
     (let (s, r1) = inlines_text c r; (cells, r2) = tableRow cs r1
      in (restoreSpaces (collapseSpaces s) # cells, r2))"

fun table_rows :: "md_inline list list list \<Rightarrow> md_renderer \<Rightarrow> string list list \<times> md_renderer" where
  "table_rows [] r = ([], r)"
| "table_rows (c # cs) r = (let (row, r1) = tableRow c r; (rows, r2) = table_rows cs r1 in (row # rows, r2))"

definition table_columns :: "string list list \<Rightarrow> nat" where
  "table_columns rows = fold (\<lambda>row n. max (length row) n) rows 0"

definition table_width :: "string list list \<Rightarrow> nat \<Rightarrow> nat" where
  "table_width rows i = fold (\<lambda>row w. if i < length row then max (length (row ! i)) w else w) rows 0"

definition format_row :: "string list list \<Rightarrow> string list \<Rightarrow> string" where
  "format_row rows row =
     trim_right_char (CHR '' '') (concat_sep '' | ''
       (map (\<lambda>i. let cell = (if i < length row then row ! i else []) in cell @ replicate (table_width rows i - length cell) (CHR '' ''))
         [0..<table_columns rows]))"

definition renderTable :: "md_inline list list list \<Rightarrow> string \<Rightarrow> md_renderer \<Rightarrow> md_renderer" where
  "renderTable t indent r =
     (let (rows, r1) = table_rows t r in
      case rows of
        [] \<Rightarrow> r1
      | header # body \<Rightarrow>
          let seps = concat_sep ''-+-'' (map (\<lambda>i. replicate (table_width rows i) (CHR ''-'')) [0..<table_columns rows])
          in fold (\<lambda>row. append_raw (indent @ [CHR 0x09] @ format_row rows row)) body
               (append_raw (indent @ [CHR 0x09] @ seps) (append_raw (indent @ [CHR 0x09] @ format_row rows header) r1)))"

section \<open>Blocks\<close>

definition renderCode :: "string list \<Rightarrow> string \<Rightarrow> md_renderer \<Rightarrow> md_renderer" where
  "renderCode lines indent r =
     fold (\<lambda>l. append_raw (indent @ [CHR 0x09] @ trim_right_char (CHR 0x0A) l)) lines r"

definition mark_item :: "string \<Rightarrow> string \<Rightarrow> string \<Rightarrow> nat \<Rightarrow> md_renderer \<Rightarrow> md_renderer" where
  "mark_item indent marker cont start r =
     (if start < length (md_out r) then r\<lparr>md_out := (md_out r)[start := indent @ marker @ trim_prefix (md_out r ! start) cont]\<rparr>
      else r)"

definition render_text :: "nat \<Rightarrow> bool \<Rightarrow> md_inline list \<Rightarrow> string \<Rightarrow> md_renderer \<Rightarrow> md_renderer" where
  "render_text limit para cs indent r = (let (s, r1) = inlines_text cs r in emitWrapped limit s indent para r1)"

definition item_marker :: "bool \<Rightarrow> int \<Rightarrow> string" where
  "item_marker ordered num = (if ordered then itoa num @ ''. '' else '' - '')"

text \<open>
  A child of a list item is rendered like any block, but for its paragraphs, which follow the marker without a blank line
  and do not count as paragraphs; \<open>item\<close> tells the two apart.
\<close>

fun renderBlock :: "nat \<Rightarrow> bool \<Rightarrow> md_block \<Rightarrow> string \<Rightarrow> md_renderer \<Rightarrow> md_renderer"
  and renderChildren :: "nat \<Rightarrow> bool \<Rightarrow> md_block list \<Rightarrow> string \<Rightarrow> md_renderer \<Rightarrow> md_renderer"
  and render_items :: "nat \<Rightarrow> bool \<Rightarrow> int \<Rightarrow> md_block list list \<Rightarrow> string \<Rightarrow> md_renderer \<Rightarrow> md_renderer" where
  "renderBlock limit item (MParagraph cs) indent r =
     (if item then render_text limit False cs indent r else render_text limit True cs indent (ensureBlank r))"
| "renderBlock limit item (MTextBlock cs) indent r =
     (if item then render_text limit False cs indent r else render_text limit True cs indent (ensureBlank r))"
| "renderBlock limit item (MHeading cs) indent r =
     (let (s, r1) = inlines_text cs (ensureBlank r) in appendLine (indent @ ''# '' @ restoreSpaces (collapseSpaces s)) r1)"
| "renderBlock limit item (MCodeBlock lines) indent r = renderCode lines indent (ensureBlank r)"
| "renderBlock limit item (MList ordered start items) indent r =
     render_items limit ordered (if start = 0 then 1 else start) items indent (ensureBlank r)"
| "renderBlock limit item (MQuote bs) indent r = renderChildren limit False bs (indent @ [CHR 0x09]) (ensureBlank r)"
| "renderBlock limit item (MTable t) indent r = renderTable t indent (ensureBlank r)"
| "renderBlock limit item MBreak indent r = r"
| "renderBlock limit item (MBlocks bs) indent r = renderChildren limit False bs indent r"
| "renderChildren limit item [] indent r = r"
| "renderChildren limit item (b # bs) indent r = renderChildren limit item bs indent (renderBlock limit item b indent r)"
| "render_items limit ordered num [] indent r = r"
| "render_items limit ordered num (it # its) indent r =
     (let marker = item_marker ordered num; cont = indent @ replicate (length marker) (CHR '' '') in
      render_items limit ordered (if ordered then num + 1 else num) its indent
        (mark_item indent marker cont (length (md_out r)) (renderChildren limit True it cont r)))"

section \<open>The comment\<close>

definition md_start :: md_renderer where
  "md_start = \<lparr>md_out = [], md_links = [], md_defs = Map.empty, md_first = None, md_last = None\<rparr>"

definition trim_blank :: "string list \<Rightarrow> string list" where
  "trim_blank out = rev (dropWhile (\<lambda>l. l = []) (rev out))"

text \<open>An index out of range is a panic, \<open>None\<close>; \<open>to_upper\<close> is \<open>unicode.ToUpper\<close>.\<close>

definition capitalize_first :: "(rune \<Rightarrow> rune) \<Rightarrow> nat option \<Rightarrow> string list \<Rightarrow> string list option" where
  "capitalize_first to_upper first out = (case first of
     None \<Rightarrow> Some out
   | Some f \<Rightarrow> if f < length out then Some (out[f := Capitalize to_upper (out ! f)]) else None)"

definition end_period :: "nat option \<Rightarrow> string list \<Rightarrow> string list" where
  "end_period lst out = (case lst of
     None \<Rightarrow> out
   | Some k \<Rightarrow>
       if Suc k = length out \<and> out ! k \<noteq> [] \<and> last (out ! k) \<noteq> CHR ''.'' then out[k := out ! k @ ''.''] else out)"

definition definition_line :: "string \<times> string \<Rightarrow> string" where
  "definition_line l = ''['' @ fst l @ '']: '' @ snd l"

definition append_links :: "(string \<times> string) list \<Rightarrow> string list \<Rightarrow> string list" where
  "append_links links out =
     (if links = [] then out else (if out = [] then [] else out @ [[]]) @ map definition_line links)"

definition finish_doc :: "(rune \<Rightarrow> rune) \<Rightarrow> md_renderer \<Rightarrow> string list option" where
  "finish_doc to_upper r =
     map_option (\<lambda>out. append_links (md_links r) (end_period (md_last r) out))
       (capitalize_first to_upper (md_first r) (trim_blank (md_out r)))"

definition renderMarkdown :: "(rune \<Rightarrow> rune) \<Rightarrow> (string \<Rightarrow> md_block list) \<Rightarrow> string \<Rightarrow> nat \<Rightarrow> string list option" where
  "renderMarkdown to_upper parse s limit = finish_doc to_upper (renderChildren limit False (parse s) [] md_start)"

definition lineLimit :: nat where "lineLimit = 100"

definition prettyDoc :: "(rune \<Rightarrow> rune) \<Rightarrow> (string \<Rightarrow> md_block list) \<Rightarrow> string \<Rightarrow> string \<Rightarrow> string list option" where
  "prettyDoc to_upper parse s deprecation =
     map_option (\<lambda>r. if deprecation = [] then r else (if r = [] then [] else r @ [[]]) @ [deprecation])
       (renderMarkdown to_upper parse s lineLimit)"

section \<open>Paragraphs are filled greedily\<close>

text \<open>Words in groups, one per line.\<close>

definition filled :: "nat \<Rightarrow> string list list \<Rightarrow> bool" where
  "filled limit groups \<longleftrightarrow> (\<forall>g \<in> set groups. g \<noteq> [] \<and> (length (concat_sep '' '' g) \<le> limit \<or> length g = 1))
     \<and> (\<forall>i. Suc i < length groups \<longrightarrow> limit < length (concat_sep '' '' (groups ! i)) + 1 + length (hd (groups ! Suc i)))"

lemma concat_sep_snoc: "g \<noteq> [] \<Longrightarrow> concat_sep sep (g @ [t]) = concat_sep sep g @ sep @ t"
  by (induction sep g rule: concat_sep.induct) simp_all

lemma concat_sep_Nil: "\<forall>t \<in> set g. t \<noteq> [] \<Longrightarrow> concat_sep sep g = [] \<longleftrightarrow> g = []"
  by (induction sep g rule: concat_sep.induct) simp_all

lemma filled_Cons:
  assumes "filled limit groups" and "g \<noteq> []" and "length (concat_sep '' '' g) \<le> limit \<or> length g = 1"
    and "groups \<noteq> [] \<Longrightarrow> limit < length (concat_sep '' '' g) + 1 + length (hd (hd groups))"
  shows "filled limit (g # groups)"
  unfolding filled_def
proof (intro conjI allI impI)
  show "\<forall>h \<in> set (g # groups). h \<noteq> [] \<and> (length (concat_sep '' '' h) \<le> limit \<or> length h = 1)"
    using assms(1-3) by (auto simp: filled_def)
  fix i
  assume i: "Suc i < length (g # groups)"
  show "limit < length (concat_sep '' '' ((g # groups) ! i)) + 1 + length (hd ((g # groups) ! Suc i))"
  proof (cases i)
    case 0
    then have "groups \<noteq> []" using i by auto
    then show ?thesis using assms(4) 0 by (simp add: hd_conv_nth)
  next
    case (Suc j)
    then show ?thesis using assms(1) i by (simp add: filled_def)
  qed
qed

lemma fill_lines_groups:
  assumes "\<forall>t \<in> set g. t \<noteq> []" and "\<forall>t \<in> set ts. t \<noteq> []" and "g \<noteq> []"
    and "length (concat_sep '' '' g) \<le> limit \<or> length g = 1"
  shows "\<exists>groups. fill_lines limit (concat_sep '' '' g) ts = map (concat_sep '' '') groups \<and> concat groups = g @ ts
    \<and> filled limit groups \<and> groups \<noteq> [] \<and> hd (hd groups) = hd g"
  using assms
proof (induction ts arbitrary: g)
  case Nil
  then have "fill_lines limit (concat_sep '' '' g) [] = map (concat_sep '' '') [g]" by (simp add: concat_sep_Nil)
  moreover have "filled limit [g]" using Nil by (intro filled_Cons) (simp_all add: filled_def)
  ultimately show ?case using Nil.prems(3) by (intro exI [of _ "[g]"]) simp
next
  case (Cons t ts)
  have ne: "concat_sep '' '' g \<noteq> []" using Cons.prems(1,3) by (simp add: concat_sep_Nil)
  show ?case
  proof (cases "limit < length (concat_sep '' '' g) + 1 + length t")
    case True
    obtain groups where gs: "fill_lines limit (concat_sep '' '' [t]) ts = map (concat_sep '' '') groups" "concat groups = [t] @ ts"
      "filled limit groups" "groups \<noteq> []" "hd (hd groups) = t"
      using Cons.IH [of "[t]"] Cons.prems(2) by auto
    have "filled limit (g # groups)"
      using filled_Cons [OF gs(3) Cons.prems(3,4)] gs(5) True by simp
    then show ?thesis using gs ne True by (intro exI [of _ "g # groups"]) simp
  next
    case False
    have e: "concat_sep '' '' (g @ [t]) = concat_sep '' '' g @ '' '' @ t" using Cons.prems(3) by (rule concat_sep_snoc)
    obtain groups where gs: "fill_lines limit (concat_sep '' '' (g @ [t])) ts = map (concat_sep '' '') groups" "concat groups = (g @ [t]) @ ts"
      "filled limit groups" "groups \<noteq> []" "hd (hd groups) = hd (g @ [t])"
      using Cons.IH [of "g @ [t]"] Cons.prems False e by auto
    then show ?thesis using ne False e Cons.prems(3) by (intro exI [of _ groups]) simp
  qed
qed

lemma group_fields_nonempty: "t \<in> set (group_fields cur cs) \<Longrightarrow> t \<noteq> []"
  by (induction cur cs rule: group_fields.induct) (auto split: if_splits)

lemma fill_words:
  "\<exists>groups. fill_lines limit [] (str_fields s) = map (concat_sep '' '') groups \<and> concat groups = str_fields s \<and> filled limit groups"
proof (cases "str_fields s")
  case Nil
  then show ?thesis by (intro exI [of _ "[]"]) (simp add: filled_def)
next
  case (Cons t ts)
  have ne: "\<forall>t \<in> set (str_fields s). t \<noteq> []" using group_fields_nonempty unfolding str_fields_def by blast
  have "\<exists>groups. fill_lines limit (concat_sep '' '' [t]) ts = map (concat_sep '' '') groups \<and> concat groups = [t] @ ts
    \<and> filled limit groups \<and> groups \<noteq> [] \<and> hd (hd groups) = hd [t]"
    using ne Cons by (intro fill_lines_groups) simp_all
  then show ?thesis using Cons by auto
qed

lemma flush_out: "md_out (flush_line indent para l r) = md_out r @ [trim_right_char (CHR '' '') (indent @ restoreSpaces l)]"
  by (simp add: flush_line_def appendLine_def append_raw_def Let_def)

lemma flush_all: "md_out (fold (flush_line indent para) ls r) = md_out r @ map (\<lambda>l. trim_right_char (CHR '' '') (indent @ restoreSpaces l)) ls"
  by (induction ls arbitrary: r) (simp_all add: flush_out)

text \<open>
  C38: A paragraph loses no word: its lines are the words of the text in order, as many on each line as fit between the
  indent and the limit; a line is longer than that only if it is one word.
\<close>

theorem paragraph_filled:
  "\<exists>groups. md_out (emitWrapped limit s indent para r)
      = md_out r @ map (\<lambda>g. trim_right_char (CHR '' '') (indent @ restoreSpaces (concat_sep '' '' g))) groups
    \<and> concat groups = str_fields s \<and> filled (max (limit - length indent) 1) groups"
proof -
  obtain groups where g: "fill_lines (max (limit - length indent) 1) [] (str_fields s) = map (concat_sep '' '') groups"
    "concat groups = str_fields s" "filled (max (limit - length indent) 1) groups"
    using fill_words by blast
  show ?thesis by (rule exI [of _ groups]) (simp add: emitWrapped_def flush_all g comp_def del: One_nat_def)
qed

section \<open>References have definitions\<close>

definition links_ok :: "md_renderer \<Rightarrow> bool" where
  "links_ok r \<longleftrightarrow> distinct (map fst (md_links r)) \<and> md_defs r = map_of (md_links r)"

definition keeps_links :: "md_renderer \<Rightarrow> md_renderer \<Rightarrow> bool" where
  "keeps_links r r' \<longleftrightarrow> set (md_links r) \<subseteq> set (md_links r') \<and> (links_ok r \<longrightarrow> links_ok r')"

lemma keeps_links_refl [simp]: "keeps_links r r"
  by (simp add: keeps_links_def)

lemma keeps_links_trans: "keeps_links r s \<Longrightarrow> keeps_links s t \<Longrightarrow> keeps_links r t"
  by (auto simp: keeps_links_def)

lemma keeps_links_same: "md_links r' = md_links r \<Longrightarrow> md_defs r' = md_defs r \<Longrightarrow> keeps_links r r'"
  by (simp add: keeps_links_def links_ok_def)

lemma linkToken_extends: "keeps_links r (snd (linkToken l u r))"
proof -
  have "links_ok r \<Longrightarrow> links_ok (r\<lparr>md_defs := (md_defs r)(label \<mapsto> url), md_links := md_links r @ [(label, url)]\<rparr>)"
    if n: "md_defs r label = None" for label url
  proof -
    assume ok: "links_ok r"
    have m: "map_of (md_links r) label = None" using n ok by (simp add: links_ok_def)
    then have "map_of (md_links r @ [(label, url)]) = (map_of (md_links r))(label \<mapsto> url)"
      by (intro ext) (simp add: map_add_def split: option.splits)
    then show ?thesis using ok m by (simp add: links_ok_def map_of_eq_None_iff)
  qed
  then show ?thesis by (auto simp: linkToken_def keeps_links_def Let_def split: option.splits)
qed

lemma inline_extends: "keeps_links r (snd (inline_text c r))" "keeps_links r (snd (inlines_text cs r))"
proof (induction c r and cs r rule: inline_text_inlines_text.induct)
  case (5 cs u r)
  then show ?case using linkToken_extends [of r "collectText cs" u] by (simp add: split_beta)
next
  case (6 cs u r)
  then show ?case using linkToken_extends [of r "collectText cs" u] by (simp add: split_beta)
next
  case (9 c cs r)
  then show ?case using keeps_links_trans by (auto split: prod.splits)
qed simp_all

lemma append_extends [simp]: "keeps_links r (append_raw s r)" "keeps_links r (appendLine s r)" "keeps_links r (ensureBlank r)"
  "keeps_links r (mark_item indent marker cont start r)"
  by (simp_all add: append_raw_def appendLine_def ensureBlank_def mark_item_def keeps_links_same)

lemma fold_extends: "(\<And>x r. keeps_links r (f x r)) \<Longrightarrow> keeps_links r (fold f xs r)"
proof (induction xs arbitrary: r)
  case (Cons x xs)
  have "keeps_links (f x r) (fold f xs (f x r))" by (rule Cons.IH) (rule Cons.prems)
  then show ?case using keeps_links_trans [OF Cons.prems [of r x]] by simp
qed simp

lemma emit_extends: "keeps_links r (emitWrapped limit s indent para r)"
  unfolding emitWrapped_def
  by (rule fold_extends) (simp add: flush_line_def Let_def appendLine_def append_raw_def keeps_links_same)

lemma render_text_extends: "keeps_links r (render_text limit para cs indent r)"
  using keeps_links_trans [OF inline_extends(2) emit_extends] by (simp add: render_text_def split_beta)

lemma code_extends: "keeps_links r (renderCode lines indent r)"
  unfolding renderCode_def by (rule fold_extends) simp

lemma row_extends: "keeps_links r (snd (tableRow cs r))"
proof (induction cs arbitrary: r)
  case (Cons c cs)
  show ?case using keeps_links_trans [OF inline_extends(2) [of r c] Cons.IH] by (simp add: split_beta)
qed simp

lemma rows_extends: "keeps_links r (snd (table_rows cs r))"
proof (induction cs arbitrary: r)
  case (Cons c cs)
  show ?case using keeps_links_trans [OF row_extends [of r c] Cons.IH] by (simp add: split_beta)
qed simp

lemma table_extends: "keeps_links r (renderTable t indent r)"
proof -
  obtain rows r1 where t: "table_rows t r = (rows, r1)" by (cases "table_rows t r")
  have r1: "keeps_links r r1" using rows_extends [of r t] t by simp
  show ?thesis
  proof (cases rows)
    case Nil
    then show ?thesis using r1 t by (simp add: renderTable_def)
  next
    case (Cons header body)
    have "keeps_links r (fold (\<lambda>row. append_raw (indent @ [CHR 0x09] @ format_row rows row)) body (append_raw x (append_raw y r1)))" for x y
      by (rule keeps_links_trans [OF keeps_links_trans [OF keeps_links_trans [OF r1 append_extends(1)] append_extends(1)]],
          rule fold_extends, rule append_extends(1))
    then show ?thesis using Cons t by (simp add: renderTable_def Let_def)
  qed
qed

lemma render_extends:
  "keeps_links r (renderBlock limit item b indent r)"
  "keeps_links r (renderChildren limit item bs indent r)"
  "keeps_links r (render_items limit ordered num its indent r)"
proof (induction limit item b indent r and limit item bs indent r and limit ordered num its indent r
    rule: renderBlock_renderChildren_render_items.induct)
  case (3 limit item cs indent r)
  show ?case using keeps_links_trans [OF keeps_links_trans [OF append_extends(3) inline_extends(2)] append_extends(2)]
    by (simp add: split_beta)
next
  case (11 limit item b bs indent r)
  then show ?case using keeps_links_trans by (simp only: renderChildren.simps)
next
  case (13 limit ordered num it its indent r)
  then show ?case unfolding render_items.simps Let_def
    using keeps_links_trans [OF keeps_links_trans [OF 13(1) append_extends(4)] 13(2)] by simp
qed (auto simp: Let_def intro: keeps_links_trans render_text_extends code_extends table_extends append_extends)

lemma links_ok_start: "links_ok md_start"
  by (simp add: links_ok_def md_start_def)

text \<open>
  What is written for a link: its text if it has no address, a reference to the definition of its label, or the label with
  the address, if the label is defined with another one.
\<close>

definition link_written :: "(string \<times> string) list \<Rightarrow> string \<Rightarrow> string \<Rightarrow> string \<Rightarrow> bool" where
  "link_written links label0 url tok \<longleftrightarrow>
     (let label = link_label (collapseSpaces label0) url in
      if url = [] then tok = collapseSpaces label0
      else (label, url) \<in> set links \<and> tok = ''['' @ label @ '']''
        \<or> (\<exists>other. other \<noteq> url \<and> (label, other) \<in> set links) \<and> tok = label @ '' ('' @ url @ '')'')"

text \<open>A tree with the text written for each link and image in its place.\<close>

inductive spelled :: "(string \<times> string) list \<Rightarrow> md_inline \<Rightarrow> md_inline \<Rightarrow> bool" for links where
  link: "link_written links (collectText cs) (trim_space u) tok \<Longrightarrow> spelled links (MLink cs u) (MString (atomicToken tok))"
| img: "link_written links (collectText cs) (trim_space u) tok \<Longrightarrow> spelled links (MImage cs u) (MString (atomicToken tok))"
| other: "list_all2 (spelled links) cs ds \<Longrightarrow> spelled links (MOther cs) (MOther ds)"
| text_node: "spelled links (MText s b) (MText s b)"
| string_node: "spelled links (MString s) (MString s)"
| code: "spelled links (MCode cs) (MCode cs)"
| auto_link: "spelled links (MAutoLink u) (MAutoLink u)"

inductive spelled_block :: "(string \<times> string) list \<Rightarrow> md_block \<Rightarrow> md_block \<Rightarrow> bool" for links where
  para: "list_all2 (spelled links) cs ds \<Longrightarrow> spelled_block links (MParagraph cs) (MParagraph ds)"
| text_block: "list_all2 (spelled links) cs ds \<Longrightarrow> spelled_block links (MTextBlock cs) (MTextBlock ds)"
| heading: "list_all2 (spelled links) cs ds \<Longrightarrow> spelled_block links (MHeading cs) (MHeading ds)"
| code_block: "spelled_block links (MCodeBlock ls) (MCodeBlock ls)"
| list_block: "list_all2 (list_all2 (spelled_block links)) its its' \<Longrightarrow> spelled_block links (MList ord n its) (MList ord n its')"
| quote: "list_all2 (spelled_block links) bs ds \<Longrightarrow> spelled_block links (MQuote bs) (MQuote ds)"
| table: "list_all2 (list_all2 (list_all2 (spelled links))) t t' \<Longrightarrow> spelled_block links (MTable t) (MTable t')"
| thematic: "spelled_block links MBreak MBreak"
| blocks: "list_all2 (spelled_block links) bs ds \<Longrightarrow> spelled_block links (MBlocks bs) (MBlocks ds)"

lemma linkToken_written:
  assumes ok: "links_ok r" and sub: "set (md_links (snd (linkToken label0 url0 r))) \<subseteq> set links"
  shows "link_written links label0 (trim_space url0) (fst (linkToken label0 url0 r))"
proof (cases "trim_space url0 = []")
  case True
  then show ?thesis by (simp add: linkToken_def link_written_def)
next
  case url: False
  define l where "l = link_label (collapseSpaces label0) (trim_space url0)"
  have w: "link_written links label0 (trim_space url0) tok \<longleftrightarrow>
      (l, trim_space url0) \<in> set links \<and> tok = ''['' @ l @ '']''
      \<or> (\<exists>other. other \<noteq> trim_space url0 \<and> (l, other) \<in> set links) \<and> tok = l @ '' ('' @ trim_space url0 @ '')''" for tok
    using url by (simp only: link_written_def Let_def l_def [symmetric] if_False)
  show ?thesis
  proof (cases "md_defs r l")
    case None
    then have t: "linkToken label0 url0 r = (''['' @ l @ '']'',
        r\<lparr>md_defs := (md_defs r)(l \<mapsto> trim_space url0), md_links := md_links r @ [(l, trim_space url0)]\<rparr>)"
      using url by (simp only: linkToken_def Let_def l_def [symmetric] if_False option.case)
    have "(l, trim_space url0) \<in> set links" using sub unfolding t by simp
    then show ?thesis unfolding w t by (simp only: fst_conv simp_thms)
  next
    case (Some existing)
    then have e: "(l, existing) \<in> set (md_links r)" using ok unfolding links_ok_def by (metis map_of_SomeD)
    have t: "linkToken label0 url0 r
        = (if existing = trim_space url0 then (''['' @ l @ '']'', r) else (l @ '' ('' @ trim_space url0 @ '')'', r))"
      using url Some by (simp only: linkToken_def Let_def l_def [symmetric] if_False option.case)
    have "(l, existing) \<in> set links" using e sub unfolding t by (auto split: if_splits)
    then show ?thesis unfolding w t by (cases "existing = trim_space url0") auto
  qed
qed

text \<open>The renderer without its links; its other parts do not depend on them.\<close>

definition unlinked :: "md_renderer \<Rightarrow> md_renderer" where
  "unlinked r = r\<lparr>md_links := [], md_defs := Map.empty\<rparr>"

lemma unlinked_append [simp]:
  "append_raw s (unlinked r) = unlinked (append_raw s r)" "appendLine s (unlinked r) = unlinked (appendLine s r)"
  "ensureBlank (unlinked r) = unlinked (ensureBlank r)" "md_out (unlinked r) = md_out r"
  "mark_item indent marker cont start (unlinked r) = unlinked (mark_item indent marker cont start r)"
  by (simp_all add: unlinked_def append_raw_def appendLine_def ensureBlank_def mark_item_def)

lemma unlinked_flush [simp]: "flush_line indent para l (unlinked r) = unlinked (flush_line indent para l r)"
  by (cases r; cases "md_first r") (simp_all add: unlinked_def append_raw_def appendLine_def flush_line_def Let_def)

lemma unlinked_linkToken [simp]: "unlinked (snd (linkToken l u r)) = unlinked r"
  by (simp add: unlinked_def linkToken_def Let_def split: option.splits)

lemma unlinked_fold: "(\<And>x r. f x (unlinked r) = unlinked (f x r)) \<Longrightarrow> fold f xs (unlinked r) = unlinked (fold f xs r)"
  by (induction xs arbitrary: r) simp_all

lemma unlinked_emit [simp]: "emitWrapped limit s indent para (unlinked r) = unlinked (emitWrapped limit s indent para r)"
  unfolding emitWrapped_def by (rule unlinked_fold) simp

lemma unlinked_code [simp]: "renderCode ls indent (unlinked r) = unlinked (renderCode ls indent r)"
  unfolding renderCode_def by (rule unlinked_fold) simp

text \<open>Each step of the rendering writes the same for the tree and for the tree with its links spelled out.\<close>

lemma inline_spelled:
  "links_ok r \<Longrightarrow> set (md_links (snd (inline_text c r))) \<subseteq> set links \<Longrightarrow>
    \<exists>d. spelled links c d \<and> inline_text d (unlinked r) = (fst (inline_text c r), unlinked (snd (inline_text c r)))"
  "links_ok r \<Longrightarrow> set (md_links (snd (inlines_text cs r))) \<subseteq> set links \<Longrightarrow>
    \<exists>ds. list_all2 (spelled links) cs ds \<and> inlines_text ds (unlinked r) = (fst (inlines_text cs r), unlinked (snd (inlines_text cs r)))"
proof (induction c r and cs r rule: inline_text_inlines_text.induct)
  case (5 cs u r)
  then have "spelled links (MLink cs u) (MString (atomicToken (fst (linkToken (collectText cs) u r))))"
    by (intro spelled.link linkToken_written) (simp_all add: split_beta)
  then show ?case by (intro exI conjI) (assumption, simp add: split_beta)
next
  case (6 cs u r)
  then have "spelled links (MImage cs u) (MString (atomicToken (fst (linkToken (collectText cs) u r))))"
    by (intro spelled.img linkToken_written) (simp_all add: split_beta)
  then show ?case by (intro exI conjI) (assumption, simp add: split_beta)
next
  case (7 cs r)
  then obtain ds where "list_all2 (spelled links) cs ds"
    "inlines_text ds (unlinked r) = (fst (inlines_text cs r), unlinked (snd (inlines_text cs r)))" by auto
  then show ?case by (intro exI [of _ "MOther ds"]) (simp add: spelled.other)
next
  case (9 c cs r)
  obtain s r1 where s: "inline_text c r = (s, r1)" by (cases "inline_text c r")
  obtain t r2 where t: "inlines_text cs r1 = (t, r2)" by (cases "inlines_text cs r1")
  have e1: "keeps_links r r1" and e2: "keeps_links r1 r2"
    using inline_extends(1) [of r c] inline_extends(2) [of r1 cs] s t by simp_all
  moreover have r2: "set (md_links r2) \<subseteq> set links" using 9(4) s t by simp
  ultimately have sub: "set (md_links r1) \<subseteq> set links" and ok: "links_ok r1" using 9(3) by (auto simp: keeps_links_def)
  obtain d where d: "spelled links c d" "inline_text d (unlinked r) = (s, unlinked r1)"
    using 9(1) [OF 9(3)] sub s by auto
  obtain ds where ds: "list_all2 (spelled links) cs ds" "inlines_text ds (unlinked r1) = (t, unlinked r2)"
    using 9(2) [OF s [symmetric] refl ok] r2 t by auto
  show ?case using d ds s t by (intro exI [of _ "d # ds"]) simp
qed (auto intro: spelled.intros exI [of _ "[]"])

lemma row_spelled:
  "links_ok r \<Longrightarrow> set (md_links (snd (tableRow cs r))) \<subseteq> set links \<Longrightarrow>
    \<exists>ds. list_all2 (list_all2 (spelled links)) cs ds \<and> tableRow ds (unlinked r) = (fst (tableRow cs r), unlinked (snd (tableRow cs r)))"
proof (induction cs arbitrary: r)
  case (Cons c cs)
  obtain s r1 where s: "inlines_text c r = (s, r1)" by (cases "inlines_text c r")
  obtain t r2 where t: "tableRow cs r1 = (t, r2)" by (cases "tableRow cs r1")
  have e1: "keeps_links r r1" and e2: "keeps_links r1 r2" using inline_extends(2) [of r c] row_extends [of r1 cs] s t by simp_all
  have "set (md_links r1) \<subseteq> set links" "set (md_links r2) \<subseteq> set links" "links_ok r1"
    using Cons.prems s t e1 e2 by (auto simp: keeps_links_def)
  then obtain d ds where "list_all2 (spelled links) c d" "inlines_text d (unlinked r) = (s, unlinked r1)"
    "list_all2 (list_all2 (spelled links)) cs ds" "tableRow ds (unlinked r1) = (t, unlinked r2)"
    using inline_spelled(2) [of r c links] Cons.IH [of r1] Cons.prems(1) s t by auto
  then show ?case using s t by (intro exI [of _ "d # ds"]) simp
qed simp

lemma rows_spelled:
  "links_ok r \<Longrightarrow> set (md_links (snd (table_rows t r))) \<subseteq> set links \<Longrightarrow>
    \<exists>t'. list_all2 (list_all2 (list_all2 (spelled links))) t t'
      \<and> table_rows t' (unlinked r) = (fst (table_rows t r), unlinked (snd (table_rows t r)))"
proof (induction t arbitrary: r)
  case (Cons c cs)
  obtain s r1 where s: "tableRow c r = (s, r1)" by (cases "tableRow c r")
  obtain u r2 where u: "table_rows cs r1 = (u, r2)" by (cases "table_rows cs r1")
  have e1: "keeps_links r r1" and e2: "keeps_links r1 r2" using row_extends [of r c] rows_extends [of r1 cs] s u by simp_all
  have "set (md_links r1) \<subseteq> set links" "set (md_links r2) \<subseteq> set links" "links_ok r1"
    using Cons.prems s u e1 e2 by (auto simp: keeps_links_def)
  then obtain d ds where "list_all2 (list_all2 (spelled links)) c d" "tableRow d (unlinked r) = (s, unlinked r1)"
    "list_all2 (list_all2 (list_all2 (spelled links))) cs ds" "table_rows ds (unlinked r1) = (u, unlinked r2)"
    using row_spelled [of r c links] Cons.IH [of r1] Cons.prems(1) s u by auto
  then show ?case using s u by (intro exI [of _ "d # ds"]) simp
qed simp

lemma table_spelled:
  assumes "links_ok r" and "set (md_links (renderTable t indent r)) \<subseteq> set links"
  shows "\<exists>t'. list_all2 (list_all2 (list_all2 (spelled links))) t t' \<and> renderTable t' indent (unlinked r) = unlinked (renderTable t indent r)"
proof -
  obtain rows r1 where t: "table_rows t r = (rows, r1)" by (cases "table_rows t r")
  have links_fold: "md_links (fold (\<lambda>row. append_raw (g row)) body q) = md_links q" for g :: "string list \<Rightarrow> string" and body q
    by (induction body arbitrary: q) (simp_all add: append_raw_def)
  have fold_unlinked: "fold (\<lambda>row. append_raw (g row)) body (unlinked q) = unlinked (fold (\<lambda>row. append_raw (g row)) body q)"
    for g :: "string list \<Rightarrow> string" and body q by (rule unlinked_fold) simp
  have "md_links (renderTable t indent r) = md_links r1"
    unfolding renderTable_def t by (simp add: Let_def links_fold append_raw_def split: list.split)
  then obtain t' where "list_all2 (list_all2 (list_all2 (spelled links))) t t'" "table_rows t' (unlinked r) = (rows, unlinked r1)"
    using rows_spelled [of r t links] assms t by auto
  then show ?thesis unfolding renderTable_def using t
    by (intro exI [of _ t']) (simp add: Let_def fold_unlinked split: list.split)
qed

lemma emit_links: "md_links (emitWrapped limit s indent para r) = md_links r"
proof -
  have "md_links (fold (flush_line indent para) ls q) = md_links q" for ls q
    by (induction ls arbitrary: q) (simp_all add: flush_line_def appendLine_def append_raw_def Let_def)
  then show ?thesis by (simp add: emitWrapped_def)
qed

lemma render_text_spelled:
  assumes "links_ok r" and "set (md_links (render_text limit para cs indent r)) \<subseteq> set links"
  shows "\<exists>ds. list_all2 (spelled links) cs ds \<and> render_text limit para ds indent (unlinked r) = unlinked (render_text limit para cs indent r)"
  using assms inline_spelled(2) [of r cs links] by (auto simp: render_text_def split_beta emit_links)

lemma links_ok_blank [simp]: "links_ok (ensureBlank r) = links_ok r"
  by (simp add: links_ok_def ensureBlank_def)

lemma appendLine_links [simp]: "md_links (appendLine s r) = md_links r" "md_links (mark_item indent marker cont start r) = md_links r"
  by (simp_all add: appendLine_def append_raw_def mark_item_def)

lemma links_ok_mark [simp]: "links_ok (mark_item indent marker cont start r) = links_ok r"
  by (simp add: links_ok_def mark_item_def)

lemma render_spelled:
  "links_ok r \<Longrightarrow> set (md_links (renderBlock limit item b indent r)) \<subseteq> set links \<Longrightarrow>
    \<exists>d. spelled_block links b d \<and> renderBlock limit item d indent (unlinked r) = unlinked (renderBlock limit item b indent r)"
  "links_ok r \<Longrightarrow> set (md_links (renderChildren limit item bs indent r)) \<subseteq> set links \<Longrightarrow>
    \<exists>ds. list_all2 (spelled_block links) bs ds \<and> renderChildren limit item ds indent (unlinked r) = unlinked (renderChildren limit item bs indent r)"
  "links_ok r \<Longrightarrow> set (md_links (render_items limit ordered num its indent r)) \<subseteq> set links \<Longrightarrow>
    \<exists>its'. list_all2 (list_all2 (spelled_block links)) its its'
      \<and> render_items limit ordered num its' indent (unlinked r) = unlinked (render_items limit ordered num its indent r)"
proof (induction limit item b indent r and limit item bs indent r and limit ordered num its indent r
    rule: renderBlock_renderChildren_render_items.induct)
  case (1 limit item cs indent r)
  obtain ds where "list_all2 (spelled links) cs ds" "renderBlock limit item (MParagraph ds) indent (unlinked r)
      = unlinked (renderBlock limit item (MParagraph cs) indent r)"
    using 1 render_text_spelled [of r limit False cs indent links] render_text_spelled [of "ensureBlank r" limit True cs indent links]
    by (cases item) auto
  then show ?case by (blast intro: spelled_block.para)
next
  case (2 limit item cs indent r)
  obtain ds where "list_all2 (spelled links) cs ds" "renderBlock limit item (MTextBlock ds) indent (unlinked r)
      = unlinked (renderBlock limit item (MTextBlock cs) indent r)"
    using 2 render_text_spelled [of r limit False cs indent links] render_text_spelled [of "ensureBlank r" limit True cs indent links]
    by (cases item) auto
  then show ?case by (blast intro: spelled_block.text_block)
next
  case (3 limit item cs indent r)
  obtain ds where "list_all2 (spelled links) cs ds" "renderBlock limit item (MHeading ds) indent (unlinked r)
      = unlinked (renderBlock limit item (MHeading cs) indent r)"
    using 3 inline_spelled(2) [of "ensureBlank r" cs links] by (auto simp: split_beta)
  then show ?case by (blast intro: spelled_block.heading)
next
  case (4 limit item ls indent r)
  then show ?case by (intro exI [of _ "MCodeBlock ls"]) (simp add: spelled_block.code_block)
next
  case (5 limit item ordered start items indent r)
  then obtain its' where "list_all2 (list_all2 (spelled_block links)) items its'"
    "render_items limit ordered (if start = 0 then 1 else start) its' indent (ensureBlank (unlinked r))
      = unlinked (renderBlock limit item (MList ordered start items) indent r)" by auto
  then show ?case by (intro exI [of _ "MList ordered start its'"]) (simp add: spelled_block.list_block)
next
  case (6 limit item bs indent r)
  then obtain ds where "list_all2 (spelled_block links) bs ds" "renderChildren limit False ds (indent @ [CHR 0x09]) (ensureBlank (unlinked r))
      = unlinked (renderBlock limit item (MQuote bs) indent r)" by auto
  then show ?case by (intro exI [of _ "MQuote ds"]) (simp add: spelled_block.quote)
next
  case (7 limit item t indent r)
  then obtain t' where "list_all2 (list_all2 (list_all2 (spelled links))) t t'"
    "renderTable t' indent (unlinked (ensureBlank r)) = unlinked (renderTable t indent (ensureBlank r))"
    using table_spelled [of "ensureBlank r" t indent links] by auto
  then show ?case by (intro exI [of _ "MTable t'"]) (simp add: spelled_block.table)
next
  case (8 limit item indent r)
  show ?case by (intro exI [of _ MBreak]) (simp add: spelled_block.thematic)
next
  case (9 limit item bs indent r)
  then obtain ds where "list_all2 (spelled_block links) bs ds" "renderChildren limit False ds indent (unlinked r)
      = unlinked (renderBlock limit item (MBlocks bs) indent r)" by auto
  then show ?case by (intro exI [of _ "MBlocks ds"]) (simp add: spelled_block.blocks)
next
  case (10 limit item indent r)
  show ?case by (intro exI [of _ "[]"]) simp
next
  case (11 limit item b bs indent r)
  let ?r1 = "renderBlock limit item b indent r"
  have e: "keeps_links r ?r1" "keeps_links ?r1 (renderChildren limit item bs indent ?r1)" by (rule render_extends)+
  then obtain d where d: "spelled_block links b d" "renderBlock limit item d indent (unlinked r) = unlinked ?r1"
    using 11 by (auto simp: keeps_links_def)
  obtain ds where ds: "list_all2 (spelled_block links) bs ds"
    "renderChildren limit item ds indent (unlinked ?r1) = unlinked (renderChildren limit item bs indent ?r1)"
    using 11 e by (auto simp: keeps_links_def)
  show ?case using d ds by (intro exI [of _ "d # ds"]) simp
next
  case (12 limit ordered num indent r)
  show ?case by (intro exI [of _ "[]"]) simp
next
  case (13 limit ordered num it its indent r)
  define marker where "marker = item_marker ordered num"
  define cont where "cont = indent @ replicate (length marker) (CHR '' '')"
  define r1 where "r1 = renderChildren limit True it cont r"
  define r2 where "r2 = mark_item indent marker cont (length (md_out r)) r1"
  let ?next = "if ordered then num + 1 else num"
  have step: "render_items limit ordered num (it # its) indent r = render_items limit ordered ?next its indent r2"
    by (simp add: Let_def marker_def cont_def r1_def r2_def)
  have e: "keeps_links r r1" "keeps_links r2 (render_items limit ordered ?next its indent r2)"
    unfolding r1_def by (rule render_extends)+
  have same: "md_links r2 = md_links r1" "links_ok r2 = links_ok r1" by (simp_all add: r2_def)
  have final: "set (md_links (render_items limit ordered ?next its indent r2)) \<subseteq> set links" using 13(4) unfolding step .
  have ok: "links_ok r1" "links_ok r2" and sub: "set (md_links r1) \<subseteq> set links"
    using e same final 13(3) by (auto simp: keeps_links_def)
  obtain ds where ds: "list_all2 (spelled_block links) it ds" "renderChildren limit True ds cont (unlinked r) = unlinked r1"
    using 13(1) [OF marker_def cont_def 13(3)] sub unfolding r1_def by blast
  obtain its' where its': "list_all2 (list_all2 (spelled_block links)) its its'"
    "render_items limit ordered ?next its' indent (unlinked r2) = unlinked (render_items limit ordered ?next its indent r2)"
    using 13(2) [OF marker_def cont_def] ok(2) final unfolding r2_def r1_def by blast
  have "render_items limit ordered num (ds # its') indent (unlinked r) = unlinked (render_items limit ordered ?next its indent r2)"
    using ds(2) its'(2) by (simp add: Let_def marker_def [symmetric] cont_def [symmetric] r2_def)
  then show ?case using ds(1) its'(1) unfolding step by (intro exI [of _ "ds # its'"]) simp
qed

text \<open>
  C37: The comment of a description is what its tree gives when each link and image is replaced by the text written for
  it, followed, after a blank line, by one line per definition, no label twice. The text of a link is its text alone if it
  has no address; else the reference to its label, which is defined with the address of the link, or the label with the
  address written out, which is defined with another one. The spaces of this text are kept out of the filling of lines.
\<close>

theorem references_defined:
  "\<exists>tree links. list_all2 (spelled_block links) (parse s) tree \<and> distinct (map fst links)
    \<and> renderMarkdown to_upper parse s limit
      = map_option (\<lambda>body. if links = [] then body
          else body @ (if body = [] then [] else [[]]) @ map (\<lambda>(label, url). ''['' @ label @ '']: '' @ url) links)
        (renderMarkdown to_upper (\<lambda>_. tree) s limit)"
proof -
  define r where "r = renderChildren limit False (parse s) [] md_start"
  have ok: "links_ok r" using render_extends(2) [of md_start limit False "parse s" "[]"] links_ok_start by (simp add: keeps_links_def r_def)
  obtain tree where tree: "list_all2 (spelled_block (md_links r)) (parse s) tree"
    "renderChildren limit False tree [] (unlinked md_start) = unlinked r"
    using render_spelled(2) [OF links_ok_start, of limit False "parse s" "[]" "md_links r"] unfolding r_def by blast
  have start: "unlinked md_start = md_start" by (simp add: unlinked_def md_start_def)
  have lines: "definition_line = (\<lambda>(label, url). ''['' @ label @ '']: '' @ url)" by (auto simp: definition_line_def)
  have "renderMarkdown to_upper parse s limit = finish_doc to_upper r" "renderMarkdown to_upper (\<lambda>_. tree) s limit = finish_doc to_upper (unlinked r)"
    using tree(2) by (simp_all add: renderMarkdown_def r_def start)
  then have "renderMarkdown to_upper parse s limit
      = map_option (append_links (md_links r)) (renderMarkdown to_upper (\<lambda>_. tree) s limit)"
    by (simp add: finish_doc_def unlinked_def append_links_def option.map_comp comp_def)
  also have "append_links (md_links r) = (\<lambda>body. if md_links r = [] then body
      else body @ (if body = [] then [] else [[]]) @ map (\<lambda>(label, url). ''['' @ label @ '']: '' @ url) (md_links r))"
    by (rule ext) (simp add: append_links_def lines)
  finally show ?thesis using tree(1) ok unfolding links_ok_def by blast
qed

text \<open>A paragraph of a NUL byte alone becomes a blank line, which is trimmed before it is capitalised: the index is out of range.\<close>

lemma nul_description_panics: "renderMarkdown to_upper (\<lambda>s. [MParagraph [MText s False]]) [nbsp] limit = None"
  by (simp add: renderMarkdown_def render_text_def emitWrapped_def str_fields_def rune_chunks.simps decode_rune_ascii
    space_chunk_def is_space_def flush_line_def appendLine_def append_raw_def restoreSpaces_def trim_right_char_def
    ensureBlank_def md_start_def finish_doc_def trim_blank_def capitalize_first_def)

end
