(* ===== verification/Spec2Isabelle.thy ===== *)
theory Spec2Isabelle
  imports RedisRun ParserEnds Expand CliProps Codec Templates SchemasProps TypeJson EngineRefs RecursionProps SumProps RegexTranslation Uniqueness Markdown
begin

text \<open>
  A verification development of agen, a generator of Go code for AsyncAPI 3 documents, and of the
  runtime library that generated code links.

  \<^bold>\<open>The program.\<close> The command (cmd/agen) finds its configuration (internal/config), loads a document,
  rewrites it (asyncapi/expand.go, extensions.go), decodes it into a raw model (package asyncapi), parses
  that into a semantic model (asyncapi/parser), lowers schemas to types (internal/ir,
  internal/lowering, with the names of internal/naming), builds the operations with their channels,
  messages and sum types (gen/generator.go), and writes files from templates (gen/write.go,
  gen/templates.go). Generated code calls the runtime: validators (runtime/validate), codecs
  (runtime/codec), the contract between broker and generated code (runtime/broker,
  runtime/agenerrors), and the Redis implementation of it (runtime/redis).

  \<^bold>\<open>Foundations.\<close> \<open>Prelude\<close>: Go strings as byte lists, the packages strings and sort as far as used, errors
  as sums (\<open>bind_res\<close>, \<open>guard_res\<close>, \<open>map_err\<close>), Go maps as association lists (\<open>smap\<close>), and the locale
  \<open>keyed_store\<close> of a table with a normalised key, interpreted for the naming rules and for the registry of
  validators. \<open>Utf8\<close>, \<open>Strconv\<close>, \<open>Paths\<close> and \<open>Json\<close> write out what the sources use of unicode/utf8, strconv,
  path/filepath, encoding/json and encoding/base64, with the round trips other theories build on.

  \<^bold>\<open>Runtime.\<close> \<open>Validate\<close>: every validator of runtime/validate on 64 bit integers, floats as rationals with
  infinities and NaN, decimals over an interface; the order tests are done once in the locale
  \<open>numeric_compare\<close>, interpreted for int64 and float64. \<open>Broker\<close>: messages, headers, middleware, typed
  errors; the locale \<open>incoming_message\<close> is the law every message type owes generated subscribers.
  \<open>Redis\<close>: configuration and the two wire forms, with the interpretation of \<open>incoming_message\<close>; \<open>RedisRun\<close>:
  publishing, read loop, reclaimer, dead letters, pub/sub, and their interleaving as an inductive
  relation. The client, clock and dispatcher are an arbitrary environment over an arbitrary state, so
  each theorem holds under every interference; loops are iterated steps and the theorems are about
  every number of iterations. \<open>Codec\<close>: durations, UUIDs and integers in strings, written into fixed
  buffers whose offsets are checked.

  \<^bold>\<open>Document and parser.\<close> \<open>Dom\<close>: yaml nodes and the custom decoders of package asyncapi. \<open>Expand\<close>: inlining
  of references with fuel, and the theorem that fuel above the number of distinct nodes times the size
  is never used up. \<open>ParserModel\<close>, \<open>Parser\<close>: package asyncapi/parser with its store of shared parameters and
  messages, reference context and caches. \<open>ParserProps\<close>: what a successful parse guarantees, by a small
  Hoare logic (\<open>valid\<close>); \<open>ParserEnds\<close>: the depth limit bounds the fuel.

  \<^bold>\<open>Names and types.\<close> \<open>Naming\<close>: initialism rules, Go names, enum variant names (internal/naming,
  internal/lowering/names.go). \<open>Types\<close>, \<open>TypeStore\<close>, \<open>TypeStoreProps\<close>: types as a store of records that
  point to each other by address, features, validation, interfaces, the table of named types. \<open>TypeJson\<close>:
  the JSON rules of internal/ir/json.go and the functions templates ask. \<open>TypeValidators\<close>: how the
  keywords of a schema become the validators of \<open>Validate\<close>, with the theorem that the chain of both accepts
  exactly what the keywords say.

  \<^bold>\<open>Lowering.\<close> \<open>Schemas\<close>, \<open>SchemasProps\<close>: JSON schemas, their merging and flattening, and merging as
  conjunction of what the two sides admit. \<open>Sums\<close>, \<open>SumFields\<close>, \<open>SumProps\<close>: how the variants of a union are told
  apart, by discriminator, by type or by fields, with the theorem that inferred variants differ. \<open>Lowering\<close>,
  \<open>SchemaGen\<close>: schema_gen.go and its neighbours over the type store; \<open>Engine\<close>: engine.go, which lowers each
  referenced schema once. \<open>LoweringProps\<close>, \<open>EngineProps\<close>: lowering keeps the invariant of the store;
  \<open>EngineRefs\<close>: one type per reference; \<open>RecursionProps\<close>: the test for recursion is reachability through
  the fields, items and variants of a type. The locale \<open>ref_naming\<close> is what the naming of references owes
  the engine, interpreted for the generator's names.

  \<^bold>\<open>Regular expressions.\<close> \<open>Regex\<close>: the scanner of runtime/ogenregex as a state of the copied part and the
  position, where each access to the pattern out of range would set \<open>rp_fault\<close>. \<open>RegexProps\<close>: it ends and never sets it;
  \<open>RegexTranslation\<close>: on a grammar of expressions it computes the translation by structure.

  \<^bold>\<open>Generator.\<close> \<open>Generator\<close>, \<open>GeneratorProps\<close>: gen/generator.go with the lowering of schemas as a function it
  calls. \<open>Templates\<close>: template helpers. \<open>Collections\<close>: bit sets and slice helpers. \<open>Cli\<close>, \<open>CliProps\<close>: configuration
  discovery and the command as a list of actions. \<open>Markdown\<close>: descriptions as comments (internal/ir/markdown.go),
  with the wrapping of paragraphs and the text and definitions of links.

  \<^bold>\<open>Generated equality.\<close> \<open>Equality\<close>: which structs need the methods (gen/gen_equality_detect.go). \<open>EqualityGen\<close>: the
  writers of Equal, Hash and validateUnique, as statements that are rendered to the printed text;
  \<open>EqualityRun\<close>: what these statements do on Go values. \<open>EqualityProps\<close>, \<open>EqualityHash\<close>, \<open>EqualityDetect\<close> and
  \<open>Uniqueness\<close>: on values of the shapes the generated comparisons are written for (\<open>fits\<close>), Equal decides equality
  by structure and duplicates are found exactly; for types with names the generator does not take for wrappers,
  every called method is generated, and the text of the validators declares the function every array reached calls.
  The locale \<open>hashed_values\<close> is what the search for duplicates relies on, that equal values hash alike and that Equal
  decides, and is interpreted for the generated methods. Hash uses the text of \<open>%v\<close>, so finding duplicates is said of items
  whose printed parts (\<open>printed\<close>) have no pointers inside and print alike when they are equal; the lemmas \<open>null_ignored\<close>
  and \<open>hidden_array_missed\<close> show what the generated code misses.

  \<^bold>\<open>Fuel and bounds.\<close> Recursion over Go pointers that may be cyclic takes fuel; \<open>AddFeature\<close> and
  \<open>NeedValidation\<close> start with the number of types and the theorems about them have no side condition on
  fuel; \<open>Parse\<close> is proved to return with fuel above its depth limit; \<open>Expand\<close> likewise. Lowering has the fuel
  \<open>le_fuel\<close> of its environment beside the depth limit 1000 of the code, and running out is an error of its
  own, so theorems on successful runs say nothing of it. \<open>Convert\<close> starts with two more than the length
  of the pattern, which is never used up. Equal calls nest no deeper than the limit 10 it prints, so
  \<open>run_equal\<close> with fuel 12 is exact.

  \<^bold>\<open>Not modelled.\<close> Third-party libraries (yaml, jx, the Redis client, the schema parser of ogen, the engines
  for regular expressions, goldmark, the formatter of imports) and the file system are parameters, as are Go's == on
  leaves and printing with %v. What a lowering writes before it fails is dropped where the code ignores the failure.
  \<open>deep_equal\<close>, reflect.DeepEqual of types, looks at the fields of a type that are modelled: not at its documentation and
  only at the keywords of its schema that are kept. The file of a reference is kept, but the code names a reference by
  its pointer alone, so distinct names are stated for distinct pointers.
  Generated files and examples are output of the program. Text templates themselves and the literals of
  internal/ir/faker.go are text without state.
\<close>

end
